(* ===== verification/Prelude.thy ===== *)
theory Prelude
  imports Complex_Main "HOL-Library.Sublist"
begin

text \<open>
  What the component theories share: the names of the types the Python code uses (identifiers,
  instants, amounts of money), the result type of operations that raise, the two roundings the
  code applies to money, and the generic facts about lists, maps and folds that the component
  proofs are simplified with.

  Conventions of the whole development.  A Python \<open>UUID\<close> is a natural number, so equality of
  ids is the only thing the code can observe.  A \<open>datetime\<close> is an integer instant in seconds, UTC.
  Python integers are \<open>int\<close>, a \<open>Decimal\<close> is a rational number.  A table is the list or the
  map of its rows; a \<open>SELECT\<close> is a lookup and an \<open>UPDATE\<close> a map over the rows.  An operation
  that raises returns \<open>Inl\<close> of the error.
\<close>

type_synonym uuid = nat
type_synonym instant = int
type_synonym usd = rat
type_synonym ('e, 'a) result = "'e + 'a"

named_theorems model_defs \<open>definitions of the model that evaluation unfolds\<close>
named_theorems frame_simps \<open>what an operation leaves unchanged\<close>
named_theorems inv_intros \<open>operations keep the invariants\<close>

subsection \<open>Amounts of money\<close>

text \<open>\<open>int(x)\<close> of a Decimal: truncation towards zero.\<close>

definition py_int :: "rat \<Rightarrow> int" where
  "py_int x = (if 0 \<le> x then \<lfloor>x\<rfloor> else \<lceil>x\<rceil>)"

lemma py_int_of_int [simp]: "py_int (of_int n) = n"
  by (simp add: py_int_def)

lemma py_int_0 [simp]: "py_int 0 = 0"
  by (simp add: py_int_def)

lemma py_int_nonneg [simp]: "0 \<le> x \<Longrightarrow> 0 \<le> py_int x"
  by (simp add: py_int_def)

lemma py_int_le: "0 \<le> x \<Longrightarrow> of_int (py_int x) \<le> x"
  by (simp add: py_int_def)

lemma py_int_gt: "0 \<le> x \<Longrightarrow> x < of_int (py_int x) + 1"
  by (simp add: py_int_def) linarith

lemma py_int_mono: "0 \<le> x \<Longrightarrow> x \<le> y \<Longrightarrow> py_int x \<le> py_int y"
  by (simp add: py_int_def floor_mono)

lemma py_int_superadd:
  "0 \<le> x \<Longrightarrow> 0 \<le> y \<Longrightarrow> py_int x + py_int y \<le> py_int (x + y)"
  by (simp add: py_int_def le_floor_add)

lemma py_int_subadd:
  "0 \<le> x \<Longrightarrow> 0 \<le> y \<Longrightarrow> py_int (x + y) \<le> py_int x + py_int y + 1"
  unfolding py_int_def by (simp add: floor_le_iff) linarith

subsection \<open>Lists and maps\<close>

lemma filter_id_iff: "filter P xs = xs \<longleftrightarrow> (\<forall>x \<in> set xs. P x)"
  by (simp add: filter_id_conv)

lemma inj_on_map_upd:
  "inj_on (\<lambda>k. the (m k)) (dom m) \<Longrightarrow> v \<notin> ran m \<Longrightarrow>
   inj_on (\<lambda>k. the ((m(a \<mapsto> v)) k)) (insert a (dom m))"
  unfolding inj_on_def ran_def dom_def by (auto split: if_splits)

lemma ran_restrict_subset: "ran (m |` A) \<subseteq> ran m"
  by (auto simp: ran_def restrict_map_def split: if_splits)

subsection \<open>Related lists\<close>

lemma list_all2_map_eq: "list_all2 R xs ys \<Longrightarrow> (\<And>x y. R x y \<Longrightarrow> f y = f x) \<Longrightarrow> map f ys = map f xs"
  by (induction rule: list_all2_induct) auto

lemma list_all2_Ball: "list_all2 R xs ys \<Longrightarrow> \<forall>x \<in> set xs. P x \<Longrightarrow> (\<And>x y. R x y \<Longrightarrow> P x \<Longrightarrow> Q y) \<Longrightarrow> \<forall>y \<in> set ys. Q y"
  by (induction rule: list_all2_induct) auto

lemma list_all2_filter_length:
  "list_all2 R xs ys \<Longrightarrow> (\<And>x y. R x y \<Longrightarrow> Q y \<Longrightarrow> P x) \<Longrightarrow> length (filter Q ys) \<le> length (filter P xs)"
  by (induction rule: list_all2_induct) (auto simp: le_SucI)

lemma list_all2_in: "list_all2 R xs ys \<Longrightarrow> x \<in> set xs \<Longrightarrow> \<exists>y \<in> set ys. R x y"
  by (induction rule: list_all2_induct) auto

lemma find_SomeD: "find P xs = Some x \<Longrightarrow> x \<in> set xs \<and> P x"
  by (induction xs) (auto split: if_splits)

lemma set_map_filter: "set (List.map_filter f xs) = {y. \<exists>x \<in> set xs. f x = Some y}"
  by (force simp: List.map_filter_def)

lemma find_append: "find P (xs @ ys) = (case find P xs of None \<Rightarrow> find P ys | Some x \<Rightarrow> Some x)"
  by (induction xs) auto

end
