(* ===== verification/Credits.thy ===== *)
theory Credits
  imports Prelude
begin

text \<open>
  The credit ledger of a team: \<open>services/credit_service.py\<close> (the pre-request check and the
  post-request deduction), the \<open>total_credits\<close> property of \<open>models_team.py\<close>, the cost in cents of
  \<open>services/model_pricing.py\<close>, the periodic resets of \<open>services/daily_credit_reset.py\<close> and the
  deduction that \<open>services/stripe_service.py\<close> repeats when it invoices usage.
\<close>

subsection \<open>State\<close>

record team_row =
  daily_credits :: int
  bundled_credits :: int
  signup_bonus_credits :: int
  signup_bonus_expires_at :: "instant option"
  purchased_credits :: int
  subscription_tier :: string
  daily_credits_reset_date :: "instant option"
  credits_reset_date :: "instant option"

record usage_log =
  log_user :: uuid
  log_team :: "uuid option"
  log_cost_total :: int
  log_is_byok :: bool
  log_billed_status :: string

text \<open>The tables the service reads and writes.  A user row holds only its default team: migration
  0088 dropped the credit columns of \<open>users\<close>.\<close>

record billing_db =
  teams :: "uuid \<rightharpoonup> team_row"
  user_default_team :: "uuid \<rightharpoonup> uuid option"
  project_team :: "uuid \<rightharpoonup> uuid option"
  usage_logs :: "usage_log list"

text \<open>The spendable balance of a team.\<close>

definition bonus_expired :: "instant \<Rightarrow> team_row \<Rightarrow> bool" where
  "bonus_expired now t =
     (case signup_bonus_expires_at t of None \<Rightarrow> False | Some e \<Rightarrow> now > e)"

definition total_credits :: "instant \<Rightarrow> team_row \<Rightarrow> int" where
  "total_credits now t =
     daily_credits t + bundled_credits t
     + (if bonus_expired now t then 0 else signup_bonus_credits t) + purchased_credits t"

definition pools_ok :: "team_row \<Rightarrow> bool" where
  "pools_ok t \<longleftrightarrow> 0 \<le> daily_credits t \<and> 0 \<le> bundled_credits t
     \<and> 0 \<le> signup_bonus_credits t \<and> 0 \<le> purchased_credits t"

subsection \<open>Which models are charged, and how much\<close>

definition get_byok_provider_prefixes :: "(string \<times> bool) list \<Rightarrow> string list" where
  "get_byok_provider_prefixes providers =
     map (\<lambda>(slug, requires_key). slug @ ''/'') (filter snd providers)"

definition get_byok_prefixes :: "(string \<times> bool) list option \<Rightarrow> string list" where
  "get_byok_prefixes registry =
     (case registry of
        Some providers \<Rightarrow> get_byok_provider_prefixes providers
      | None \<Rightarrow> [''openrouter/'', ''openai/'', ''groq/'', ''anthropic/'', ''together/'',
                 ''deepseek/'', ''fireworks/'', ''nano-gpt/''])"

definition is_byok_model :: "(string \<times> bool) list option \<Rightarrow> string \<Rightarrow> bool" where
  "is_byok_model registry model_name =
     list_ex (\<lambda>p. prefix p model_name) (get_byok_prefixes registry)"

text \<open>The price of a model, in USD for a million input and output tokens, comes from the proxy and
  is an argument.  Each side is rounded up to a whole cent.\<close>

definition raw_cents :: "int \<Rightarrow> rat \<Rightarrow> rat" where
  "raw_cents tokens price = of_int tokens / 1000000 * price * 100"

definition calculate_cost_cents :: "rat \<times> rat \<Rightarrow> int \<Rightarrow> int \<Rightarrow> int \<times> int \<times> int" where
  "calculate_cost_cents pricing tokens_in tokens_out =
     (let raw_input = raw_cents tokens_in (fst pricing);
          raw_output = raw_cents tokens_out (snd pricing);
          cost_input = (if raw_input > 0 then \<lceil>raw_input\<rceil> else 0);
          cost_output = (if raw_output > 0 then \<lceil>raw_output\<rceil> else 0)
      in (cost_input, cost_output, cost_input + cost_output))"

subsection \<open>The pre-request check\<close>

definition no_credits_message :: string where
  "no_credits_message = ''You have no credits remaining. Please purchase credits or upgrade your plan to continue using AI features.''"

text \<open>The arguments are the team the caller loaded, the user's \<open>default_team_id\<close> (\<open>None\<close> for no
  user), and the session (\<open>None\<close> when the caller passes none).\<close>

definition check_credits ::
  "(string \<times> bool) list option \<Rightarrow> instant \<Rightarrow> uuid option option \<Rightarrow> string \<Rightarrow> team_row option
   \<Rightarrow> billing_db option \<Rightarrow> bool \<times> string" where
  "check_credits registry now user model_name team db =
     (if is_byok_model registry model_name then (True, [])
      else
        let resolved =
              (case (team, db, user) of
                 (None, Some d, Some (Some tid)) \<Rightarrow> teams d tid
               | _ \<Rightarrow> team)
        in case resolved of
             None \<Rightarrow> (True, [])
           | Some t \<Rightarrow> if total_credits now t \<le> 0 then (False, no_credits_message) else (True, []))"

subsection \<open>The deduction, pool by pool\<close>

text \<open>Each step is one numbered block of \<open>deduct_credits\<close>, on the row, the cost that remains and
  the credits deducted so far.\<close>

type_synonym deduction = "team_row \<times> int \<times> int"

fun take_daily :: "deduction \<Rightarrow> deduction" where
  "take_daily (t, remaining, deducted) =
     (if daily_credits t > 0 \<and> remaining > 0
      then let tk = min (daily_credits t) remaining
           in (t\<lparr>daily_credits := daily_credits t - tk\<rparr>, remaining - tk, deducted + tk)
      else (t, remaining, deducted))"

fun take_bundled :: "deduction \<Rightarrow> deduction" where
  "take_bundled (t, remaining, deducted) =
     (if bundled_credits t > 0 \<and> remaining > 0
      then let tk = min (bundled_credits t) remaining
           in (t\<lparr>bundled_credits := bundled_credits t - tk\<rparr>, remaining - tk, deducted + tk)
      else (t, remaining, deducted))"

fun take_bonus :: "instant \<Rightarrow> deduction \<Rightarrow> deduction" where
  "take_bonus now (t, remaining, deducted) =
     (if signup_bonus_credits t > 0 \<and> remaining > 0
      then if \<not> bonus_expired now t
           then let tk = min (signup_bonus_credits t) remaining
                in (t\<lparr>signup_bonus_credits := signup_bonus_credits t - tk\<rparr>,
                    remaining - tk, deducted + tk)
           else (t, remaining, deducted)
      else (t, remaining, deducted))"

fun take_purchased :: "deduction \<Rightarrow> deduction" where
  "take_purchased (t, remaining, deducted) =
     (if purchased_credits t > 0 \<and> remaining > 0
      then let tk = min (purchased_credits t) remaining
           in (t\<lparr>purchased_credits := purchased_credits t - tk\<rparr>, remaining - tk, deducted + tk)
      else (t, remaining, deducted))"

definition deduct_pools :: "instant \<Rightarrow> int \<Rightarrow> team_row \<Rightarrow> deduction" where
  "deduct_pools now cost t = take_purchased (take_bonus now (take_bundled (take_daily (t, cost, 0))))"

subsection \<open>The whole deduction\<close>

datatype credit_error = NoResultFound | AttributeError | OperationalError

text \<open>Where the database may fail an attempt: at the locking \<open>SELECT\<close> or at the commit.\<close>

datatype db_fault = Lock_Fault | Commit_Fault

record receipt =
  rc_cost_total :: int
  rc_credits_deducted :: int
  rc_new_balance :: int
  rc_is_byok :: bool

definition resolve_team_id ::
  "billing_db \<Rightarrow> uuid \<Rightarrow> uuid option \<Rightarrow> uuid option \<Rightarrow> uuid option" where
  "resolve_team_id db user_id project_id team_id =
     (case team_id of
        Some t \<Rightarrow> Some t
      | None \<Rightarrow>
          (case (case project_id of None \<Rightarrow> None
                 | Some p \<Rightarrow> Option.bind (project_team db p) (\<lambda>t. t)) of
             Some t \<Rightarrow> Some t
           | None \<Rightarrow> Option.bind (user_default_team db user_id) (\<lambda>t. t)))"

definition charge_source :: "instant \<Rightarrow> bool \<Rightarrow> int \<Rightarrow> team_row \<Rightarrow> team_row \<times> int" where
  "charge_source now byok cost_total t =
     (if \<not> byok \<and> cost_total > 0
      then (case deduct_pools now cost_total t of (t', remaining, deducted) \<Rightarrow> (t', deducted))
      else (t, 0))"

definition make_usage_log :: "uuid \<Rightarrow> uuid option \<Rightarrow> int \<Rightarrow> bool \<Rightarrow> int \<Rightarrow> usage_log" where
  "make_usage_log user_id team cost_total byok deducted =
     \<lparr>log_user = user_id, log_team = team, log_cost_total = cost_total, log_is_byok = byok,
      log_billed_status = (if deducted > 0 then ''credited''
                           else if byok then ''exempt'' else ''pending'')\<rparr>"

text \<open>One attempt up to its commit: the new tables and the credits deducted, or the exception that
  leaves the retry loop.  A source without team is the user row, which has no credit columns: reading
  one raises.\<close>

definition deduct_attempt ::
  "billing_db \<Rightarrow> instant \<Rightarrow> uuid \<Rightarrow> uuid option \<Rightarrow> bool \<Rightarrow> int
   \<Rightarrow> credit_error + (billing_db \<times> int)" where
  "deduct_attempt db now user_id resolved byok cost_total =
     (case resolved of
        Some tid \<Rightarrow>
          (case teams db tid of
             None \<Rightarrow> Inl NoResultFound
           | Some t \<Rightarrow>
               (case charge_source now byok cost_total t of (t', deducted) \<Rightarrow>
                  Inr (db\<lparr>teams := (teams db)(tid \<mapsto> t'),
                          usage_logs := usage_logs db
                            @ [make_usage_log user_id resolved cost_total byok deducted]\<rparr>, deducted)))
      | None \<Rightarrow>
          (case user_default_team db user_id of
             None \<Rightarrow> Inl NoResultFound
           | Some _ \<Rightarrow>
               if \<not> byok \<and> cost_total > 0 then Inl AttributeError
               else Inr (db\<lparr>usage_logs := usage_logs db
                              @ [make_usage_log user_id None cost_total byok 0]\<rparr>, 0)))"

text \<open>The retry loop: an \<open>OperationalError\<close> rolls the attempt back and the next one runs; the last
  one is raised.  Other exceptions leave the loop at once, before any commit.\<close>

fun deduct_loop ::
  "(nat \<Rightarrow> db_fault option) \<Rightarrow> credit_error + 'r \<Rightarrow> nat \<Rightarrow> nat \<Rightarrow> credit_error + 'r" where
  "deduct_loop faults body attempt 0 = Inl OperationalError"
| "deduct_loop faults body attempt (Suc left) =
     (case faults attempt of
        Some Lock_Fault \<Rightarrow> deduct_loop faults body (Suc attempt) left
      | Some Commit_Fault \<Rightarrow>
          (case body of Inl e \<Rightarrow> Inl e | Inr _ \<Rightarrow> deduct_loop faults body (Suc attempt) left)
      | None \<Rightarrow> body)"

definition max_retries :: nat where
  "max_retries = 3"

text \<open>The tables after the call and what it returns or raises.  The balance is read after the commit,
  so the exception of a source without team comes when its usage log is already stored.\<close>

definition deduct_credits ::
  "(nat \<Rightarrow> db_fault option) \<Rightarrow> (string \<times> bool) list option \<Rightarrow> rat \<times> rat \<Rightarrow> instant \<Rightarrow> billing_db
   \<Rightarrow> uuid \<Rightarrow> string \<Rightarrow> int \<Rightarrow> int \<Rightarrow> uuid option \<Rightarrow> uuid option
   \<Rightarrow> billing_db \<times> (credit_error + receipt)" where
  "deduct_credits faults registry pricing now db user_id model_name tokens_in tokens_out project_id team_id =
     (let byok = is_byok_model registry model_name;
          cost_total = (if byok then 0
                        else snd (snd (calculate_cost_cents pricing tokens_in tokens_out)));
          resolved = resolve_team_id db user_id project_id team_id
      in case deduct_loop faults (deduct_attempt db now user_id resolved byok cost_total) 0 max_retries of
           Inl e \<Rightarrow> (db, Inl e)
         | Inr (db', deducted) \<Rightarrow>
             (case Option.bind resolved (teams db') of
                None \<Rightarrow> (db', Inl AttributeError)
              | Some t' \<Rightarrow>
                  (db', Inr \<lparr>rc_cost_total = cost_total, rc_credits_deducted = deducted,
                             rc_new_balance = total_credits now t', rc_is_byok = byok\<rparr>)))"

subsection \<open>The deduction of the monthly invoice\<close>

text \<open>\<open>create_usage_invoice\<close> pays the month's usage from the credits first: the team row after it and
  the amount left to invoice (\<open>0\<close>: fully paid from credits).\<close>

fun invoice_daily :: "team_row \<times> int \<Rightarrow> team_row \<times> int" where
  "invoice_daily (t, to_deduct) =
     (if daily_credits t > 0
      then let used = min (daily_credits t) to_deduct
           in (t\<lparr>daily_credits := daily_credits t - used\<rparr>, to_deduct - used)
      else (t, to_deduct))"

fun invoice_bundled :: "team_row \<times> int \<Rightarrow> team_row \<times> int" where
  "invoice_bundled (t, to_deduct) =
     (if to_deduct > 0
      then let used = min (bundled_credits t) to_deduct
           in (t\<lparr>bundled_credits := bundled_credits t - used\<rparr>, to_deduct - used)
      else (t, to_deduct))"

fun invoice_bonus :: "instant \<Rightarrow> team_row \<times> int \<Rightarrow> team_row \<times> int" where
  "invoice_bonus now (t, to_deduct) =
     (if to_deduct > 0
      then let bonus = (if bonus_expired now t then 0 else signup_bonus_credits t)
           in if bonus > 0
              then let used = min bonus to_deduct
                   in (t\<lparr>signup_bonus_credits := bonus - used\<rparr>, to_deduct - used)
              else (t, to_deduct)
      else (t, to_deduct))"

fun invoice_purchased :: "team_row \<times> int \<Rightarrow> team_row" where
  "invoice_purchased (t, to_deduct) =
     (if to_deduct > 0 then t\<lparr>purchased_credits := purchased_credits t - to_deduct\<rparr> else t)"

definition invoice_take :: "instant \<Rightarrow> int \<Rightarrow> team_row \<Rightarrow> team_row" where
  "invoice_take now total_cost t =
     invoice_purchased (invoice_bonus now (invoice_bundled (invoice_daily (t, total_cost))))"

definition pay_usage_from_credits ::
  "instant \<Rightarrow> int \<Rightarrow> team_row option \<Rightarrow> team_row option \<times> int" where
  "pay_usage_from_credits now total_cost team =
     (let total_available = (case team of Some t \<Rightarrow> total_credits now t | None \<Rightarrow> 0)
      in if total_cost \<le> 0 then (team, 0)
         else if total_available \<ge> total_cost then (map_option (invoice_take now total_cost) team, 0)
         else if total_available > 0
         then (map_option (\<lambda>t. t\<lparr>daily_credits := 0, bundled_credits := 0,
                                 signup_bonus_credits := 0, purchased_credits := 0\<rparr>) team,
               total_cost - total_available)
         else (team, total_cost))"

subsection \<open>The periodic resets\<close>

text \<open>The \<open>today_start\<close> of an instant: midnight of its UTC day.\<close>

definition today_start :: "instant \<Rightarrow> instant" where
  "today_start now = now - now mod 86400"

definition reset_team_daily_credits :: "int \<Rightarrow> instant \<Rightarrow> team_row \<Rightarrow> team_row" where
  "reset_team_daily_credits tier_daily_credits_free now t =
     (if subscription_tier t = ''free''
         \<and> (case daily_credits_reset_date t of None \<Rightarrow> True | Some d \<Rightarrow> d < today_start now)
      then t\<lparr>daily_credits := tier_daily_credits_free, daily_credits_reset_date := Some now\<rparr>
      else t)"

definition expire_team_signup_bonuses :: "instant \<Rightarrow> team_row \<Rightarrow> team_row" where
  "expire_team_signup_bonuses now t =
     (if signup_bonus_credits t > 0
         \<and> (case signup_bonus_expires_at t of None \<Rightarrow> False | Some e \<Rightarrow> e < now)
      then t\<lparr>signup_bonus_credits := 0\<rparr> else t)"

definition reset_team_bundled_credits :: "(string \<Rightarrow> int) \<Rightarrow> instant \<Rightarrow> team_row \<Rightarrow> team_row" where
  "reset_team_bundled_credits get_tier_bundled_credits now t =
     (if subscription_tier t \<noteq> ''free''
         \<and> (case credits_reset_date t of None \<Rightarrow> False | Some d \<Rightarrow> d \<le> now)
      then t\<lparr>bundled_credits := get_tier_bundled_credits (subscription_tier t),
             credits_reset_date := Some (now + 30 * 86400)\<rparr>
      else t)"

definition reset_pass :: "(string \<Rightarrow> int) \<Rightarrow> int \<Rightarrow> instant \<Rightarrow> team_row \<Rightarrow> team_row" where
  "reset_pass get_tier tier_free now t =
     reset_team_bundled_credits get_tier now
       (expire_team_signup_bonuses now (reset_team_daily_credits tier_free now t))"

subsection \<open>Lemmas: one pool at a time\<close>

text \<open>What every step keeps, relative to the row \<open>t0\<close> and the cost the deduction started from.\<close>

fun deduction_inv :: "instant \<Rightarrow> team_row \<Rightarrow> int \<Rightarrow> deduction \<Rightarrow> bool" where
  "deduction_inv now t0 cost (t, remaining, deducted) \<longleftrightarrow>
     pools_ok t \<and> 0 \<le> remaining \<and> 0 \<le> deducted \<and> remaining + deducted = cost
     \<and> total_credits now t + deducted = total_credits now t0
     \<and> bonus_expired now t = bonus_expired now t0
     \<and> (bonus_expired now t0 \<longrightarrow> signup_bonus_credits t = signup_bonus_credits t0)"

lemma bonus_expired_frame [simp, frame_simps]:
  "bonus_expired now (t\<lparr>daily_credits := a\<rparr>) = bonus_expired now t"
  "bonus_expired now (t\<lparr>bundled_credits := a\<rparr>) = bonus_expired now t"
  "bonus_expired now (t\<lparr>signup_bonus_credits := a\<rparr>) = bonus_expired now t"
  "bonus_expired now (t\<lparr>purchased_credits := a\<rparr>) = bonus_expired now t"
  by (simp_all add: bonus_expired_def)

lemma deduction_inv_start:
  "pools_ok t \<Longrightarrow> 0 \<le> cost \<Longrightarrow> deduction_inv now t cost (t, cost, 0)"
  by simp

lemma take_daily_inv [inv_intros]:
  "deduction_inv now t0 cost d \<Longrightarrow> deduction_inv now t0 cost (take_daily d)"
  by (cases d) (auto simp: Let_def pools_ok_def total_credits_def min_def)

lemma take_bundled_inv [inv_intros]:
  "deduction_inv now t0 cost d \<Longrightarrow> deduction_inv now t0 cost (take_bundled d)"
  by (cases d) (auto simp: Let_def pools_ok_def total_credits_def min_def)

lemma take_bonus_inv [inv_intros]:
  "deduction_inv now t0 cost d \<Longrightarrow> deduction_inv now t0 cost (take_bonus now d)"
  by (cases d) (auto simp: Let_def pools_ok_def total_credits_def min_def)

lemma take_purchased_inv [inv_intros]:
  "deduction_inv now t0 cost d \<Longrightarrow> deduction_inv now t0 cost (take_purchased d)"
  by (cases d) (auto simp: Let_def pools_ok_def total_credits_def min_def)

lemma deduct_pools_inv:
  "pools_ok t \<Longrightarrow> 0 \<le> cost \<Longrightarrow> deduction_inv now t cost (deduct_pools now cost t)"
  unfolding deduct_pools_def by (intro inv_intros deduction_inv_start)

text \<open>What one pool of a given size contributes to a remaining cost, and each step in those terms.\<close>

definition spent_from :: "int \<Rightarrow> int \<Rightarrow> int" where
  "spent_from pool cost = max 0 (min pool cost)"

lemma take_daily_eq:
  "take_daily (t, r, d) = (let s = spent_from (daily_credits t) r in
     (t\<lparr>daily_credits := daily_credits t - s\<rparr>, r - s, d + s))"
  by (auto simp: spent_from_def Let_def)

lemma take_bundled_eq:
  "take_bundled (t, r, d) = (let s = spent_from (bundled_credits t) r in
     (t\<lparr>bundled_credits := bundled_credits t - s\<rparr>, r - s, d + s))"
  by (auto simp: spent_from_def Let_def)

lemma take_bonus_eq:
  "take_bonus now (t, r, d) =
     (let s = (if bonus_expired now t then 0 else spent_from (signup_bonus_credits t) r) in
     (t\<lparr>signup_bonus_credits := signup_bonus_credits t - s\<rparr>, r - s, d + s))"
  by (auto simp: spent_from_def Let_def)

lemma take_purchased_eq:
  "take_purchased (t, r, d) = (let s = spent_from (purchased_credits t) r in
     (t\<lparr>purchased_credits := purchased_credits t - s\<rparr>, r - s, d + s))"
  by (auto simp: spent_from_def Let_def)

declare take_daily.simps [simp del] take_bundled.simps [simp del]
  take_bonus.simps [simp del] take_purchased.simps [simp del]

lemmas take_eqs = take_daily_eq take_bundled_eq take_bonus_eq take_purchased_eq

lemma spent_from_bounds:
  "0 \<le> spent_from p c" "0 \<le> p \<Longrightarrow> spent_from p c \<le> p" "0 \<le> c \<Longrightarrow> spent_from p c \<le> c"
  by (auto simp: spent_from_def)

lemma spent_from_rest: "0 \<le> p \<Longrightarrow> 0 \<le> c \<Longrightarrow> c - spent_from p c > 0 \<Longrightarrow> spent_from p c = p"
  by (auto simp: spent_from_def)

text \<open>The deduction as a chain of remaining costs \<open>cost \<ge> c1 \<ge> c2 \<ge> c3 \<ge> c4\<close>: each pool pays the
  difference, and a pool that leaves a remainder is empty.\<close>

lemma deduct_pools_chain:
  assumes ok: "pools_ok t" and cost: "0 \<le> cost"
    and run: "deduct_pools now cost t = (t', remaining, deducted)"
  obtains c1 c2 c3 where
    "t' = t\<lparr>daily_credits := daily_credits t - (cost - c1),
      bundled_credits := bundled_credits t - (c1 - c2),
      signup_bonus_credits := signup_bonus_credits t - (c2 - c3),
      purchased_credits := purchased_credits t - (c3 - remaining)\<rparr>"
    "0 \<le> remaining" "remaining \<le> c3" "c3 \<le> c2" "c2 \<le> c1" "c1 \<le> cost"
    "0 < c1 \<Longrightarrow> cost - c1 = daily_credits t" "0 < c2 \<Longrightarrow> c1 - c2 = bundled_credits t"
    "0 < c3 \<Longrightarrow> bonus_expired now t \<or> c2 - c3 = signup_bonus_credits t"
    "bonus_expired now t \<Longrightarrow> c2 = c3" "0 < remaining \<Longrightarrow> c3 - remaining = purchased_credits t"
proof
  define c1 where "c1 = cost - spent_from (daily_credits t) cost"
  define c2 where "c2 = c1 - spent_from (bundled_credits t) c1"
  define c3 where "c3 = c2 - (if bonus_expired now t then 0 else spent_from (signup_bonus_credits t) c2)"
  note defs = c1_def c2_def c3_def
  show "t' = t\<lparr>daily_credits := daily_credits t - (cost - c1),
      bundled_credits := bundled_credits t - (c1 - c2),
      signup_bonus_credits := signup_bonus_credits t - (c2 - c3),
      purchased_credits := purchased_credits t - (c3 - remaining)\<rparr>"
    using run unfolding deduct_pools_def defs by (auto simp: take_eqs Let_def)
  have r: "remaining = c3 - spent_from (purchased_credits t) c3"
    using run unfolding deduct_pools_def defs by (auto simp: take_eqs Let_def)
  have pools: "0 \<le> daily_credits t" "0 \<le> bundled_credits t" "0 \<le> signup_bonus_credits t"
    "0 \<le> purchased_credits t" using ok by (auto simp: pools_ok_def)
  have c1: "0 \<le> c1" unfolding c1_def using spent_from_bounds(3)[OF cost] by simp
  have c2: "0 \<le> c2" unfolding c2_def using spent_from_bounds(3)[OF c1] by simp
  have c3: "0 \<le> c3" unfolding c3_def using spent_from_bounds(3)[OF c2] c2 by simp
  show "0 \<le> remaining" unfolding r using spent_from_bounds(3)[OF c3] by simp
  show "remaining \<le> c3" "c3 \<le> c2" "c2 \<le> c1" "c1 \<le> cost"
    unfolding r c3_def c2_def c1_def by (simp_all add: spent_from_bounds)
  show "0 < c1 \<Longrightarrow> cost - c1 = daily_credits t"
    using spent_from_rest[OF pools(1) cost] by (simp add: c1_def)
  show "0 < c2 \<Longrightarrow> c1 - c2 = bundled_credits t"
    using spent_from_rest[OF pools(2) c1] by (simp add: c2_def)
  show "0 < c3 \<Longrightarrow> bonus_expired now t \<or> c2 - c3 = signup_bonus_credits t"
    using spent_from_rest[OF pools(3) c2] by (auto simp: c3_def split: if_splits)
  show "bonus_expired now t \<Longrightarrow> c2 = c3" by (simp add: c3_def)
  show "0 < remaining \<Longrightarrow> c3 - remaining = purchased_credits t"
    using spent_from_rest[OF pools(4) c3] by (simp add: r)
qed

lemma deduct_pools_rest_zero_or_empty:
  assumes "pools_ok t" and "0 \<le> cost" and "deduct_pools now cost t = (t', remaining, deducted)"
  shows "remaining = 0 \<or> total_credits now t' = 0"
proof (cases "remaining = 0")
  case False
  from deduct_pools_chain[OF assms] show ?thesis
  proof cases
    case (1 c1 c2 c3)
    with False have "0 < remaining" "0 < c3" "0 < c2" "0 < c1" by linarith+
    with 1 show ?thesis by (cases "bonus_expired now t") (simp_all add: total_credits_def)
  qed
qed simp

lemma deduct_pools_amount:
  assumes "pools_ok t" "0 \<le> cost" "deduct_pools now cost t = (t', remaining, deducted)"
  shows "deducted = min cost (total_credits now t)"
proof -
  have inv: "deduction_inv now t cost (t', remaining, deducted)"
    using deduct_pools_inv[OF assms(1,2), of now] assms(3) by simp
  have nonneg: "0 \<le> total_credits now t'"
    using inv by (simp add: total_credits_def pools_ok_def)
  from deduct_pools_rest_zero_or_empty[OF assms] inv nonneg show ?thesis
    by (auto simp: min_def)
qed

lemma deduct_pools_frame:
  "deduct_pools now cost t = (t', r, d) \<Longrightarrow>
     signup_bonus_expires_at t' = signup_bonus_expires_at t \<and> subscription_tier t' = subscription_tier t"
  by (auto simp: deduct_pools_def take_eqs Let_def)

lemma charge_source_total:
  assumes "pools_ok t" "charge_source now byok cost t = (t', deducted)"
  shows "pools_ok t' \<and> total_credits now t' = total_credits now t - deducted
    \<and> deducted = (if byok \<or> cost \<le> 0 then 0 else min cost (total_credits now t))"
proof (cases "byok \<or> cost \<le> 0")
  case True
  then show ?thesis using assms by (auto simp: charge_source_def)
next
  case False
  then obtain r where run: "deduct_pools now cost t = (t', r, deducted)"
    using assms(2) by (cases "deduct_pools now cost t") (auto simp: charge_source_def)
  show ?thesis
    using deduct_pools_inv[OF assms(1), of cost now] deduct_pools_amount[OF assms(1) _ run] False run
    by auto
qed

text \<open>The invoice's steps take from each pool what the charge's steps take.\<close>

lemma invoice_steps:
  "0 \<le> daily_credits t \<Longrightarrow> 0 \<le> r \<Longrightarrow>
     invoice_daily (t, r) = (fst (take_daily (t, r, d)), fst (snd (take_daily (t, r, d))))"
  "0 \<le> bundled_credits t \<Longrightarrow> 0 \<le> r \<Longrightarrow>
     invoice_bundled (t, r) = (fst (take_bundled (t, r, d)), fst (snd (take_bundled (t, r, d))))"
  "0 \<le> signup_bonus_credits t \<Longrightarrow> 0 \<le> r \<Longrightarrow>
     invoice_bonus now (t, r) = (fst (take_bonus now (t, r, d)), fst (snd (take_bonus now (t, r, d))))"
  "0 \<le> r \<Longrightarrow> r \<le> purchased_credits t \<Longrightarrow>
     invoice_purchased (t, r) = fst (take_purchased (t, r, d))"
  by (auto simp: take_eqs spent_from_def Let_def)

declare invoice_daily.simps [simp del] invoice_bundled.simps [simp del]
  invoice_bonus.simps [simp del] invoice_purchased.simps [simp del]

lemma invoice_take_eq:
  assumes ok: "pools_ok t" and cost: "0 \<le> cost" and covered: "cost \<le> total_credits now t"
  shows "invoice_take now cost t = fst (deduct_pools now cost t)"
proof -
  obtain t1 r1 d1 where s1: "take_daily (t, cost, 0) = (t1, r1, d1)" by (metis prod_cases3)
  obtain t2 r2 d2 where s2: "take_bundled (t1, r1, d1) = (t2, r2, d2)" by (metis prod_cases3)
  obtain t3 r3 d3 where s3: "take_bonus now (t2, r2, d2) = (t3, r3, d3)" by (metis prod_cases3)
  obtain t4 r4 d4 where s4: "take_purchased (t3, r3, d3) = (t4, r4, d4)" by (metis prod_cases3)
  note i1 = take_daily_inv[OF deduction_inv_start[OF ok cost, of now], unfolded s1]
  note i2 = take_bundled_inv[OF i1, unfolded s2]
  note i3 = take_bonus_inv[OF i2, unfolded s3]
  note i4 = take_purchased_inv[OF i3, unfolded s4]
  have run: "deduct_pools now cost t = (t4, r4, d4)"
    by (simp add: deduct_pools_def s1 s2 s3 s4)
  then have "r4 = 0" using deduct_pools_amount[OF ok cost run] i4 covered by simp
  then have "r3 \<le> purchased_credits t3"
    using s4 i3 by (auto simp: take_eqs Let_def spent_from_def pools_ok_def)
  then have p4: "invoice_purchased (t3, r3) = t4"
    using i3 s4 invoice_steps(4)[of r3 t3 d3] by simp
  have "invoice_daily (t, cost) = (t1, r1)"
    using ok cost s1 invoice_steps(1)[of t cost 0] by (simp add: pools_ok_def)
  moreover have "invoice_bundled (t1, r1) = (t2, r2)"
    using i1 s2 invoice_steps(2)[of t1 r1 d1] by (simp add: pools_ok_def)
  moreover have "invoice_bonus now (t2, r2) = (t3, r3)"
    using i2 s3 invoice_steps(3)[of t2 r2 now d2] by (simp add: pools_ok_def)
  ultimately show ?thesis using p4 run by (simp add: invoice_take_def)
qed

lemma deduct_loop_Inr:
  "deduct_loop faults (Inr x) a n =
     (if \<exists>k \<in> {a..<a + n}. faults k = None then Inr x else Inl OperationalError)"
proof (induction n arbitrary: a)
  case 0
  then show ?case by simp
next
  case (Suc n)
  have split: "{a..<a + Suc n} = insert a {Suc a..<Suc a + n}" by auto
  show ?case
    using Suc.IH[of "Suc a"] unfolding split
    by (cases "faults a") (auto split: db_fault.splits option.splits)
qed

subsection \<open>Properties\<close>

text \<open>C1: for a team with non-negative pools and any positive cost, the deduction takes exactly the
  smaller of the cost and the spendable balance, the balance drops by what was taken, no pool goes
  below zero, and an expired signup bonus is not spent.\<close>

theorem deduction_conserves:
  assumes "pools_ok t" and "0 \<le> cost" and "deduct_pools now cost t = (t', remaining, deducted)"
  shows "deducted = min cost (total_credits now t) \<and> remaining = cost - deducted
    \<and> total_credits now t' = total_credits now t - deducted \<and> pools_ok t'
    \<and> (bonus_expired now t \<longrightarrow> signup_bonus_credits t' = signup_bonus_credits t)"
  using deduct_pools_inv[OF assms(1,2), of now] deduct_pools_amount[OF assms] assms(3) by auto

definition example_team :: team_row where
  "example_team = \<lparr>daily_credits = 5, bundled_credits = 10, signup_bonus_credits = 20,
     signup_bonus_expires_at = Some 1000, purchased_credits = 100, subscription_tier = ''free'',
     daily_credits_reset_date = None, credits_reset_date = None\<rparr>"

theorem deduction_conserves_witness:
  "deduct_pools 500 40 example_team
     = (example_team\<lparr>daily_credits := 0, bundled_credits := 0, signup_bonus_credits := 0,
                     purchased_credits := 95\<rparr>, 0, 40)
   \<and> 40 = min 40 (total_credits 500 example_team)"
proof -
  have run: "deduct_pools 500 40 example_team
     = (example_team\<lparr>daily_credits := 0, bundled_credits := 0, signup_bonus_credits := 0,
                     purchased_credits := 95\<rparr>, 0, 40)"
    by (simp add: deduct_pools_def take_eqs spent_from_def example_team_def bonus_expired_def)
  have "pools_ok example_team" by (simp add: pools_ok_def example_team_def)
  from deduction_conserves[OF this _ run] run show ?thesis by simp
qed

text \<open>The pools are spent in the documented order.  A purchased credit is touched only when the
  daily and the bundled pools are empty and the signup bonus is empty or expired; the bonus only when
  the daily and bundled pools are empty; the bundled pool only when the daily pool is empty.\<close>

theorem deduction_priority:
  assumes "pools_ok t" and "0 \<le> cost" and "deduct_pools now cost t = (t', remaining, deducted)"
  shows "(purchased_credits t' \<noteq> purchased_credits t \<longrightarrow>
            daily_credits t' = 0 \<and> bundled_credits t' = 0
            \<and> (bonus_expired now t \<or> signup_bonus_credits t' = 0))
    \<and> (signup_bonus_credits t' \<noteq> signup_bonus_credits t \<longrightarrow>
            daily_credits t' = 0 \<and> bundled_credits t' = 0)
    \<and> (bundled_credits t' \<noteq> bundled_credits t \<longrightarrow> daily_credits t' = 0)"
  using assms by (elim deduct_pools_chain) auto

theorem deduction_priority_witness:
  "deduct_pools 500 12 example_team
     = (example_team\<lparr>daily_credits := 0, bundled_credits := 3\<rparr>, 0, 12)
   \<and> daily_credits (example_team\<lparr>daily_credits := 0, bundled_credits := 3\<rparr>) = 0"
proof -
  have run: "deduct_pools 500 12 example_team
     = (example_team\<lparr>daily_credits := 0, bundled_credits := 3\<rparr>, 0, 12)"
    by (simp add: deduct_pools_def take_eqs spent_from_def example_team_def bonus_expired_def)
  have "pools_ok example_team" by (simp add: pools_ok_def example_team_def)
  from deduction_priority[OF this _ run] run show ?thesis by (simp add: example_team_def)
qed

text \<open>The monthly invoice and the per-request charge spend credits identically: whenever the
  balance covers the cost, \<open>create_usage_invoice\<close> leaves exactly the row \<open>deduct_credits\<close> would and
  invoices nothing.\<close>

theorem invoice_agrees_with_deduction:
  assumes "pools_ok t" and "0 < cost" and "cost \<le> total_credits now t"
  shows "pay_usage_from_credits now cost (Some t) = (Some (fst (deduct_pools now cost t)), 0)"
  using assms by (simp add: pay_usage_from_credits_def invoice_take_eq)

theorem invoice_agrees_with_deduction_witness:
  "pay_usage_from_credits 500 40 (Some example_team)
     = (Some (fst (deduct_pools 500 40 example_team)), 0) \<and> (40::int) \<le> total_credits 500 example_team"
proof -
  have "pools_ok example_team" "(0::int) < 40" "40 \<le> total_credits 500 example_team"
    by (simp_all add: pools_ok_def example_team_def total_credits_def bonus_expired_def)
  from invoice_agrees_with_deduction[OF this] this(3) show ?thesis by simp
qed

text \<open>A charge against a team is all or nothing.  If one of the three attempts meets no database
  fault, exactly one usage log is appended, the team row is the deduction's and the receipt reports what
  was taken and the new balance; if all three fail, the tables are unchanged and the error is raised.\<close>

theorem deduct_credits_atomic:
  fixes registry :: "(string \<times> bool) list option" and model_name :: string
    and pricing :: "rat \<times> rat" and tin tout :: int and now :: instant
  assumes "resolve_team_id db user_id project_id team_id = Some tid"
    and "teams db tid = Some t" and "pools_ok t"
  defines "byok \<equiv> is_byok_model registry model_name"
  defines "cost \<equiv> (if byok then 0 else snd (snd (calculate_cost_cents pricing tin tout)))"
  defines "taken \<equiv> (if byok \<or> cost \<le> 0 then 0 else min cost (total_credits now t))"
  shows "\<exists>t'. fst (charge_source now byok cost t) = t' \<and> pools_ok t'
    \<and> deduct_credits faults registry pricing now db user_id model_name tin tout project_id team_id =
      (if \<exists>k \<in> {0..<3}. faults k = None
       then (db\<lparr>teams := (teams db)(tid \<mapsto> t'),
                usage_logs := usage_logs db @ [make_usage_log user_id (Some tid) cost byok taken]\<rparr>,
             Inr \<lparr>rc_cost_total = cost, rc_credits_deducted = taken,
                  rc_new_balance = total_credits now t - taken, rc_is_byok = byok\<rparr>)
       else (db, Inl OperationalError))"
proof -
  obtain t' d where run: "charge_source now byok cost t = (t', d)" by fastforce
  from charge_source_total[OF assms(3) run]
  have facts: "pools_ok t'" "total_credits now t' = total_credits now t - taken" "d = taken"
    by (auto simp: taken_def)
  have body: "deduct_attempt db now user_id (Some tid) byok cost =
      Inr (db\<lparr>teams := (teams db)(tid \<mapsto> t'),
              usage_logs := usage_logs db @ [make_usage_log user_id (Some tid) cost byok taken]\<rparr>, taken)"
    using run facts assms(2) by (simp add: deduct_attempt_def)
  show ?thesis
    using facts run assms(1) body
    unfolding deduct_credits_def byok_def[symmetric] cost_def[symmetric] Let_def
    by (auto simp: deduct_loop_Inr max_retries_def)
qed

definition example_db :: billing_db where
  "example_db = \<lparr>teams = [7 \<mapsto> example_team], user_default_team = [1 \<mapsto> Some 7, 2 \<mapsto> None],
     project_team = Map.empty, usage_logs = []\<rparr>"

theorem deduct_credits_atomic_witness:
  "snd (deduct_credits (\<lambda>k. if k < 2 then Some Commit_Fault else None) None (1, 3) 500 example_db 1
          ''gpt'' 100000 0 None None)
   = Inr \<lparr>rc_cost_total = 10, rc_credits_deducted = 10, rc_new_balance = 125, rc_is_byok = False\<rparr>"
proof -
  have r: "resolve_team_id example_db 1 None None = Some 7"
    by (simp add: resolve_team_id_def example_db_def)
  have t: "teams example_db 7 = Some example_team" "pools_ok example_team"
    by (simp_all add: example_db_def pools_ok_def example_team_def)
  have b: "is_byok_model None ''gpt'' = False"
    by (simp add: is_byok_model_def get_byok_prefixes_def)
  have c: "snd (snd (calculate_cost_cents (1, 3) 100000 0)) = 10"
    by (simp add: calculate_cost_cents_def raw_cents_def)
  have bal: "total_credits 500 example_team = 135"
    by (simp add: total_credits_def bonus_expired_def example_team_def)
  have ok: "\<exists>k \<in> {0..<3::nat}. (if k < 2 then Some Commit_Fault else None) = None"
    by (rule bexI[of _ 2]) auto
  from deduct_credits_atomic[OF r t, where registry = None and model_name = "''gpt''" and now = 500
      and pricing = "(1, 3)" and tin = 100000 and tout = 0
      and faults = "\<lambda>k. if k < 2 then Some Commit_Fault else None"] ok
  show ?thesis by (auto simp: b c bal)
qed

text \<open>the fallback to the user row cannot charge anyone.  For a user with no team at all a priced
  call raises \<open>AttributeError\<close> and records nothing; a call with the user's own key stores its usage log
  and then raises the same error while reading the balance.\<close>

theorem deduct_credits_without_team:
  assumes "resolve_team_id db user_id project_id team_id = None"
    and "user_default_team db user_id = Some None" and "faults 0 = None"
  shows "deduct_credits faults registry pricing now db user_id model_name tin tout project_id team_id =
    (let byok = is_byok_model registry model_name;
         cost = (if byok then 0 else snd (snd (calculate_cost_cents pricing tin tout)))
     in (if \<not> byok \<and> cost > 0 then db
         else db\<lparr>usage_logs := usage_logs db @ [make_usage_log user_id None cost byok 0]\<rparr>,
         Inl AttributeError))"
  using assms
  by (simp add: deduct_credits_def deduct_attempt_def max_retries_def numeral_3_eq_3 Let_def)

theorem deduct_credits_without_team_witness:
  "deduct_credits (\<lambda>_. None) None (1, 3) 500 example_db 2 ''gpt'' 100000 0 None None
     = (example_db, Inl AttributeError)
   \<and> user_default_team example_db 2 = Some None"
proof -
  have r: "resolve_team_id example_db 2 None None = None"
    and u: "user_default_team example_db 2 = Some None"
    by (simp_all add: resolve_team_id_def example_db_def)
  have b: "is_byok_model None ''gpt'' = False"
    by (simp add: is_byok_model_def get_byok_prefixes_def)
  have c: "snd (snd (calculate_cost_cents (1, 3) 100000 0)) = 10"
    by (simp add: calculate_cost_cents_def raw_cents_def)
  show ?thesis
    using deduct_credits_without_team[OF r u, where faults = "\<lambda>_. None" and registry = None
        and model_name = "''gpt''" and pricing = "(1, 3)" and tin = 100000 and tout = 0 and now = 500]
    by (simp add: b c u)
qed

text \<open>The hourly sweep.  Zeroing expired bonuses never changes a spendable balance, and within one
  UTC day a free team is refilled at most once, however often the sweep runs.\<close>

theorem sweep_is_safe:
  assumes "now \<le> now'" and "today_start now' = today_start now"
  shows "total_credits now (expire_team_signup_bonuses now t) = total_credits now t
    \<and> reset_team_daily_credits free now' (reset_team_daily_credits free now t)
        = reset_team_daily_credits free now t"
proof
  show "total_credits now (expire_team_signup_bonuses now t) = total_credits now t"
    by (auto simp: expire_team_signup_bonuses_def total_credits_def bonus_expired_def
        split: option.splits)
  have "today_start now' \<le> now" using assms(2) by (simp add: today_start_def)
  then show "reset_team_daily_credits free now' (reset_team_daily_credits free now t)
        = reset_team_daily_credits free now t"
    using assms(2) by (auto simp: reset_team_daily_credits_def split: option.splits)
qed

theorem sweep_is_safe_witness:
  "reset_team_daily_credits 5 90000 (reset_team_daily_credits 5 86400 (example_team\<lparr>daily_credits := 1\<rparr>))
     = reset_team_daily_credits 5 86400 (example_team\<lparr>daily_credits := 1\<rparr>)
   \<and> daily_credits (reset_team_daily_credits 5 86400 (example_team\<lparr>daily_credits := 1\<rparr>)) = 5"
proof -
  have h: "(86400::int) \<le> 90000" "today_start 90000 = today_start 86400"
    by (simp_all add: today_start_def)
  show ?thesis
    by (rule conjI[OF conjunct2[OF sweep_is_safe[OF h]]])
      (simp add: reset_team_daily_credits_def example_team_def)
qed

end
