(* ===== verification/Json_Value.thy ===== *)
theory Json_Value
  imports Prelude "HOL-Library.AList"
begin

text \<open>
  JSON values as the Python code handles them after decoding: \<open>None\<close>, \<open>bool\<close>, \<open>int\<close>, \<open>float\<close>
  (a rational number), \<open>str\<close>, \<open>list\<close> and \<open>dict\<close> (an association list, in insertion order), and the
  built-ins the components apply to them: truth value, \<open>x or y\<close>, \<open>d.get(k)\<close>, \<open>int(x)\<close>.
\<close>

datatype json =
    J_null
  | J_bool bool
  | J_int int
  | J_float rat
  | J_str string
  | J_list "json list"
  | J_obj "(string \<times> json) list"

type_synonym json_dict = "(string \<times> json) list"

text \<open>The truth value of an object, and \<open>x or y\<close>.\<close>

fun truthy :: "json \<Rightarrow> bool" where
  "truthy J_null = False"
| "truthy (J_bool b) = b"
| "truthy (J_int n) = (n \<noteq> 0)"
| "truthy (J_float x) = (x \<noteq> 0)"
| "truthy (J_str s) = (s \<noteq> [])"
| "truthy (J_list xs) = (xs \<noteq> [])"
| "truthy (J_obj d) = (d \<noteq> [])"

definition py_or :: "json \<Rightarrow> json \<Rightarrow> json" where
  "py_or x y = (if truthy x then x else y)"

text \<open>\<open>d.get(k)\<close> and \<open>d.get(k, default)\<close>.\<close>

definition jget :: "json_dict \<Rightarrow> string \<Rightarrow> json" where
  "jget d k = (case map_of d k of None \<Rightarrow> J_null | Some v \<Rightarrow> v)"

definition jget_default :: "json_dict \<Rightarrow> string \<Rightarrow> json \<Rightarrow> json" where
  "jget_default d k v0 = (case map_of d k of None \<Rightarrow> v0 | Some v \<Rightarrow> v)"

text \<open>\<open>d[k] = v\<close>: in place when the key is there, at the end otherwise.\<close>

definition jset :: "json_dict \<Rightarrow> string \<Rightarrow> json \<Rightarrow> json_dict" where
  "jset d k v = AList.update k v d"

lemma jget_jset [simp]: "jget (jset d k v) k' = (if k' = k then v else jget d k')"
  by (simp add: jget_def jset_def update_conv)

lemma jget_Nil [simp]: "jget [] k = J_null"
  by (simp add: jget_def)

lemma truthy_py_or [simp]: "truthy (py_or x y) \<longleftrightarrow> truthy x \<or> truthy y"
  by (simp add: py_or_def)

subsection \<open>\<open>int(x)\<close>\<close>

definition is_py_space :: "char \<Rightarrow> bool" where
  "is_py_space c \<longleftrightarrow> of_char c \<in> {9, 10, 11, 12, 13, 28, 29, 30, 31, 32 :: nat}"

definition py_strip :: "string \<Rightarrow> string" where
  "py_strip s = rev (dropWhile is_py_space (rev (dropWhile is_py_space s)))"

definition is_digit :: "char \<Rightarrow> bool" where
  "is_digit c \<longleftrightarrow> 48 \<le> (of_char c :: nat) \<and> (of_char c :: nat) \<le> 57"

definition digit_val :: "char \<Rightarrow> int" where
  "digit_val c = of_char c - 48"

text \<open>The digits of an integer literal, with single underscores between them.\<close>

fun py_digits :: "int \<Rightarrow> string \<Rightarrow> int option" where
  "py_digits acc [] = Some acc"
| "py_digits acc [c] = (if is_digit c then Some (10 * acc + digit_val c) else None)"
| "py_digits acc (c # d # cs) =
     (if is_digit c then py_digits (10 * acc + digit_val c) (d # cs)
      else if c = CHR ''_'' \<and> is_digit d then py_digits acc (d # cs)
      else None)"

definition py_unsigned :: "string \<Rightarrow> int option" where
  "py_unsigned s = (case s of [] \<Rightarrow> None | c # _ \<Rightarrow> if is_digit c then py_digits 0 s else None)"

definition int_of_str :: "string \<Rightarrow> int option" where
  "int_of_str s =
     (case py_strip s of
        [] \<Rightarrow> None
      | c # cs \<Rightarrow> if c = CHR ''-'' then map_option uminus (py_unsigned cs)
                  else if c = CHR ''+'' then py_unsigned cs else py_unsigned (c # cs))"

text \<open>\<open>None\<close> where Python raises.\<close>

fun int_of_json :: "json \<Rightarrow> int option" where
  "int_of_json (J_bool b) = Some (if b then 1 else 0)"
| "int_of_json (J_int n) = Some n"
| "int_of_json (J_float x) = Some (py_int x)"
| "int_of_json (J_str s) = int_of_str s"
| "int_of_json _ = None"

lemmas int_of_str_defs [model_defs] = int_of_str_def py_strip_def py_unsigned_def is_py_space_def
  is_digit_def digit_val_def

lemma int_of_str_42: "int_of_str '' -4_2 '' = Some (- 42)"
  by code_simp

subsection \<open>UUIDs as text\<close>

text \<open>\<open>str(u)\<close>: thirty-two hexadecimal digits with hyphens after the 8th, 12th, 16th and 20th; \<open>UUID(s)\<close>
  drops the hyphens and needs thirty-two digits.  (It also drops braces and a \<open>urn:uuid:\<close> prefix,
  which the code never writes.)\<close>

definition hex_digit :: "nat \<Rightarrow> char" where
  "hex_digit d = (if d < 10 then char_of (48 + d) else char_of (87 + d))"

definition hex_value :: "char \<Rightarrow> nat option" where
  "hex_value c =
     (let n = (of_char c :: nat)
      in if 48 \<le> n \<and> n \<le> 57 then Some (n - 48)
         else if 97 \<le> n \<and> n \<le> 102 then Some (n - 87)
         else if 65 \<le> n \<and> n \<le> 70 then Some (n - 55)
         else None)"

fun to_hex :: "nat \<Rightarrow> nat \<Rightarrow> string" where
  "to_hex 0 n = []"
| "to_hex (Suc k) n = to_hex k (n div 16) @ [hex_digit (n mod 16)]"

fun from_hex :: "nat \<Rightarrow> string \<Rightarrow> nat option" where
  "from_hex acc [] = Some acc"
| "from_hex acc (c # cs) = (case hex_value c of None \<Rightarrow> None | Some d \<Rightarrow> from_hex (16 * acc + d) cs)"

definition uuid_str :: "uuid \<Rightarrow> string" where
  "uuid_str u =
     (let s = to_hex 32 u
      in take 8 s @ ''-'' @ take 4 (drop 8 s) @ ''-'' @ take 4 (drop 12 s) @ ''-''
         @ take 4 (drop 16 s) @ ''-'' @ drop 20 s)"

definition parse_uuid :: "string \<Rightarrow> uuid option" where
  "parse_uuid s = (let h = filter (\<lambda>c. c \<noteq> CHR ''-'') s in if length h = 32 then from_hex 0 h else None)"

abbreviation valid_uuid :: "uuid \<Rightarrow> bool" where
  "valid_uuid u \<equiv> u < 16 ^ 32"

lemma of_char_hex_digit: "d < 16 \<Longrightarrow> (of_char (hex_digit d) :: nat) = (if d < 10 then 48 + d else 87 + d)"
  by (simp add: hex_digit_def)

lemma hex_digit_value: "d < 16 \<Longrightarrow> hex_value (hex_digit d) = Some d"
  by (simp add: hex_value_def Let_def of_char_hex_digit)

lemma hex_digit_no_hyphen: "d < 16 \<Longrightarrow> CHR ''-'' \<noteq> hex_digit d"
proof
  assume "d < 16" "CHR ''-'' = hex_digit d"
  then have "(of_char CHR ''-'' :: nat) = (if d < 10 then 48 + d else 87 + d)"
    using of_char_hex_digit[of d] by simp
  then show False by (simp split: if_splits)
qed

lemma length_to_hex [simp]: "length (to_hex k n) = k"
  by (induction k arbitrary: n) auto

lemma to_hex_no_hyphen: "c \<in> set (to_hex k n) \<Longrightarrow> c \<noteq> CHR ''-''"
proof (induction k arbitrary: n)
  case (Suc k)
  then show ?case using hex_digit_no_hyphen[of "n mod 16"] by auto
qed simp

lemma from_hex_append:
  "from_hex acc (xs @ ys) = (case from_hex acc xs of None \<Rightarrow> None | Some a \<Rightarrow> from_hex a ys)"
  by (induction xs arbitrary: acc) (auto split: option.splits)

lemma from_to_hex: "n < 16 ^ k \<Longrightarrow> from_hex 0 (to_hex k n) = Some n"
proof (induction k arbitrary: n)
  case (Suc k)
  then have "n div 16 < 16 ^ k" by (simp add: less_mult_imp_div_less mult.commute)
  with Suc.IH show ?case by (simp add: from_hex_append hex_digit_value)
qed simp

lemma filter_uuid_str: "filter (\<lambda>c. c \<noteq> CHR ''-'') (uuid_str u) = to_hex 32 u"
proof -
  have keep: "filter (\<lambda>c. c \<noteq> CHR ''-'') xs = xs" if "set xs \<subseteq> set (to_hex 32 u)" for xs
    using that to_hex_no_hyphen by (force simp: filter_id_iff)
  have join: "take 4 (drop n s) @ drop (n + 4) s = drop n s" for n and s :: string
    by (metis add.commute append_take_drop_id drop_drop)
  have "take 8 s @ take 4 (drop 8 s) @ take 4 (drop 12 s) @ take 4 (drop 16 s) @ drop 20 s = s" for s :: string
    using join[of 8 s] join[of 12 s] join[of 16 s] append_take_drop_id[of 8 s] by simp
  then show ?thesis
    unfolding uuid_str_def Let_def
    by (simp add: keep set_take_subset set_drop_subset subset_trans[OF set_take_subset set_drop_subset])
qed

lemma parse_uuid_str [simp]: "valid_uuid u \<Longrightarrow> parse_uuid (uuid_str u) = Some u"
  using from_to_hex[of u 32] by (simp add: parse_uuid_def filter_uuid_str)

lemma uuid_str_not_empty [simp]: "uuid_str u \<noteq> []"
  by (simp add: uuid_str_def Let_def)

end
