(* ===== verification/Contract.thy ===== *)
theory Contract
  imports Json_Value
begin

text \<open>
  Permission contracts of automations: the structural validation the dispatcher runs before every
  dispatch (\<open>validate_contract\<close> of \<open>services/automations/dispatcher.py\<close>), the scopes a child automation
  may inherit (\<open>scopes.py\<close>) and the inheritance check (\<open>contract.py\<close>).  A contract is a JSON object.

  \<open>dec\<close> is the decimal parser of the standard library: \<open>Decimal(s)\<close>, \<open>None\<close> where it raises
  \<open>InvalidOperation\<close>.  Sets of scopes are lists used for membership only.
\<close>

type_synonym decimal_parser = "string \<Rightarrow> usd option"

text \<open>\<open>Decimal(str(v))\<close>; the text of an object or array is no decimal.\<close>

definition json_decimal :: "decimal_parser \<Rightarrow> json \<Rightarrow> usd option" where
  "json_decimal dec v =
     (case v of
        J_int n \<Rightarrow> Some (of_int n)
      | J_float x \<Rightarrow> Some x
      | J_str s \<Rightarrow> dec s
      | J_bool b \<Rightarrow> dec (if b then ''True'' else ''False'')
      | _ \<Rightarrow> None)"

subsection \<open>Structural validation\<close>

datatype contract_invalid =
    Not_an_object
  | Missing_keys "string list"
  | Bad_allowed_tools
  | Bad_tier
  | Tier_unknown int
  | Bad_on_breach
  | Bad_max_iterations
  | Bad_decimal string
  | Not_positive string
  | Run_exceeds_day

definition required_contract_keys :: "string list" where
  "required_contract_keys = [''allowed_tools'', ''max_compute_tier'']"

definition valid_on_breach :: "json list" where
  "valid_on_breach = [J_str ''pause_for_approval'', J_str ''hard_stop'', J_str ''extend_once'']"

abbreviation "max_known_compute_tier \<equiv> (2 :: int)"

fun is_str :: "json \<Rightarrow> bool" where
  "is_str (J_str _) = True"
| "is_str _ = False"

text \<open>\<open>_coerce_contract_decimal\<close>: an absent cap is \<open>Inr None\<close>.\<close>

definition coerce_contract_decimal ::
  "decimal_parser \<Rightarrow> json_dict \<Rightarrow> string \<Rightarrow> (contract_invalid, usd option) result" where
  "coerce_contract_decimal dec contract key =
     (case jget contract key of
        J_null \<Rightarrow> Inr None
      | v \<Rightarrow> (case json_decimal dec v of None \<Rightarrow> Inl (Bad_decimal key) | Some d \<Rightarrow> Inr (Some d)))"

definition check_caps :: "usd option \<Rightarrow> usd option \<Rightarrow> contract_invalid option" where
  "check_caps per_run per_day =
     (if (case per_run of None \<Rightarrow> False | Some r \<Rightarrow> r \<le> 0) then Some (Not_positive ''max_spend_per_run_usd'')
      else if (case per_day of None \<Rightarrow> False | Some d \<Rightarrow> d \<le> 0) then Some (Not_positive ''max_spend_per_day_usd'')
      else (case (per_run, per_day) of
              (Some r, Some d) \<Rightarrow> if r > d then Some Run_exceeds_day else None
            | _ \<Rightarrow> None))"

definition check_allowed_tools :: "json \<Rightarrow> contract_invalid option" where
  "check_allowed_tools v =
     (case v of J_null \<Rightarrow> None
      | J_list xs \<Rightarrow> if list_all is_str xs then None else Some Bad_allowed_tools
      | _ \<Rightarrow> Some Bad_allowed_tools)"

definition check_tier :: "json \<Rightarrow> contract_invalid option" where
  "check_tier v =
     (case v of
        J_int tier \<Rightarrow> if tier < 0 then Some Bad_tier
                      else if tier > max_known_compute_tier then Some (Tier_unknown tier) else None
      | _ \<Rightarrow> Some Bad_tier)"

definition check_max_iterations :: "json \<Rightarrow> contract_invalid option" where
  "check_max_iterations v =
     (case v of J_null \<Rightarrow> None
      | J_int n \<Rightarrow> if n \<le> 0 then Some Bad_max_iterations else None
      | _ \<Rightarrow> Some Bad_max_iterations)"

text \<open>The first check that fails decides the error; \<open>None\<close> is a valid contract.\<close>

definition validate_contract :: "decimal_parser \<Rightarrow> json \<Rightarrow> contract_invalid option" where
  "validate_contract dec v =
     (case v of
        J_obj contract \<Rightarrow>
          (let missing = filter (\<lambda>k. map_of contract k = None) required_contract_keys
           in if missing \<noteq> [] then Some (Missing_keys missing)
              else (case check_allowed_tools (jget contract ''allowed_tools'') of Some e \<Rightarrow> Some e
              | None \<Rightarrow> (case check_tier (jget contract ''max_compute_tier'') of Some e \<Rightarrow> Some e
              | None \<Rightarrow>
                  if jget_default contract ''on_breach'' (J_str ''pause_for_approval'') \<notin> set valid_on_breach
                  then Some Bad_on_breach
                  else (case check_max_iterations (jget contract ''max_iterations'') of Some e \<Rightarrow> Some e
              | None \<Rightarrow> (case coerce_contract_decimal dec contract ''max_spend_per_run_usd'' of Inl e \<Rightarrow> Some e
              | Inr per_run \<Rightarrow> (case coerce_contract_decimal dec contract ''max_spend_per_day_usd'' of Inl e \<Rightarrow> Some e
              | Inr per_day \<Rightarrow> check_caps per_run per_day))))))
      | _ \<Rightarrow> Some Not_an_object)"

subsection \<open>Scopes\<close>

definition inheritable_positive_list :: "string list" where
  "inheritable_positive_list =
     [''tools.execute'', ''read_file'', ''write_file'', ''bash_exec'', ''web_fetch'', ''web_search'',
      ''send_message'', ''app.invoke'']"

definition non_inheritable_scopes :: "string list" where
  "non_inheritable_scopes = [''marketplace.author'', ''automations.write'']"

definition is_inheritable :: "string \<Rightarrow> bool" where
  "is_inheritable scope \<longleftrightarrow> scope \<in> set inheritable_positive_list \<or> prefix ''mcp.'' scope"

definition filter_to_inheritable :: "string list \<Rightarrow> string list" where
  "filter_to_inheritable scopes = filter is_inheritable scopes"

definition reject_non_inheritable :: "string list \<Rightarrow> string list" where
  "reject_non_inheritable scopes = filter (\<lambda>s. \<not> is_inheritable s) scopes"

subsection \<open>Inheritance\<close>

text \<open>\<open>ContractInheritanceError\<close> with its code; \<open>Invalid_operation\<close> is the decimal module's own exception,
  which \<open>_coerce_decimal\<close> does not catch.\<close>

datatype inheritance_error =
    Scope_not_inheritable "string list"
  | Per_run_cap_exceeded
  | Daily_cap_exceeded
  | Missing_required_field
  | Invalid_operation

definition coerce_decimal :: "decimal_parser \<Rightarrow> json \<Rightarrow> (inheritance_error, usd option) result" where
  "coerce_decimal dec v =
     (case v of
        J_null \<Rightarrow> Inr None
      | J_list _ \<Rightarrow> Inl Missing_required_field
      | J_obj _ \<Rightarrow> Inl Missing_required_field
      | _ \<Rightarrow> (case json_decimal dec v of None \<Rightarrow> Inl Invalid_operation | Some d \<Rightarrow> Inr (Some d)))"

definition scope_keys :: "string list" where
  "scope_keys = [''allowed_scopes'', ''allowed_tools'', ''allowed_mcp_scopes'', ''allowed_capabilities'']"

definition strings_in :: "json \<Rightarrow> string list" where
  "strings_in v =
     (case v of
        J_list xs \<Rightarrow> concat (map (\<lambda>x. case x of J_str s \<Rightarrow> if s \<noteq> [] then [s] else [] | _ \<Rightarrow> []) xs)
      | _ \<Rightarrow> [])"

definition scopes_from_contract :: "json_dict \<Rightarrow> string list" where
  "scopes_from_contract contract = concat (map (\<lambda>key. strings_in (jget contract key)) scope_keys)"

definition check_scopes :: "json_dict \<Rightarrow> json_dict \<Rightarrow> inheritance_error option" where
  "check_scopes parent child =
     (let child_scopes = scopes_from_contract child; bad = reject_non_inheritable child_scopes;
          parent_scopes = scopes_from_contract parent
      in if bad \<noteq> [] then Some (Scope_not_inheritable bad)
         else if parent_scopes \<noteq> []
         then (let parent_inheritable = filter_to_inheritable parent_scopes;
                   widened = filter (\<lambda>s. s \<notin> set parent_inheritable) child_scopes
               in if widened \<noteq> [] then Some (Scope_not_inheritable widened) else None)
         else None)"

definition check_per_run :: "usd option \<Rightarrow> usd option \<Rightarrow> inheritance_error option" where
  "check_per_run parent_per_run child_per_run =
     (case parent_per_run of None \<Rightarrow> None
      | Some p \<Rightarrow> (case child_per_run of
            None \<Rightarrow> Some Per_run_cap_exceeded
          | Some c \<Rightarrow> if c > p then Some Per_run_cap_exceeded else None))"

definition check_daily :: "decimal_parser \<Rightarrow> json_dict \<Rightarrow> usd option \<Rightarrow> inheritance_error option" where
  "check_daily dec child parent_remaining_daily =
     (case parent_remaining_daily of None \<Rightarrow> None
      | Some remaining \<Rightarrow>
          (case coerce_decimal dec (jget child ''max_spend_per_day_usd'') of
             Inl e \<Rightarrow> Some e
           | Inr None \<Rightarrow> None
           | Inr (Some c) \<Rightarrow> if c > remaining then Some Daily_cap_exceeded else None))"

definition validate_child_contract ::
  "decimal_parser \<Rightarrow> json \<Rightarrow> json \<Rightarrow> usd option \<Rightarrow> inheritance_error option" where
  "validate_child_contract dec parent_contract child_contract parent_remaining_daily =
     (case (parent_contract, child_contract) of
        (J_obj parent, J_obj child) \<Rightarrow>
          (case check_scopes parent child of Some e \<Rightarrow> Some e
           | None \<Rightarrow>
               (case coerce_decimal dec (jget parent ''max_spend_per_run_usd'') of Inl e \<Rightarrow> Some e
                | Inr parent_per_run \<Rightarrow>
                    (case coerce_decimal dec (jget child ''max_spend_per_run_usd'') of Inl e \<Rightarrow> Some e
                     | Inr child_per_run \<Rightarrow>
                         (case check_per_run parent_per_run child_per_run of Some e \<Rightarrow> Some e
                          | None \<Rightarrow> check_daily dec child parent_remaining_daily))))
      | _ \<Rightarrow> Some Missing_required_field)"

subsection \<open>What the checks guarantee\<close>

lemma validate_contract_valid:
  "validate_contract dec v = None \<longleftrightarrow>
     (\<exists>contract per_run per_day. v = J_obj contract
        \<and> (\<forall>k \<in> set required_contract_keys. map_of contract k \<noteq> None)
        \<and> check_allowed_tools (jget contract ''allowed_tools'') = None
        \<and> check_tier (jget contract ''max_compute_tier'') = None
        \<and> jget_default contract ''on_breach'' (J_str ''pause_for_approval'') \<in> set valid_on_breach
        \<and> check_max_iterations (jget contract ''max_iterations'') = None
        \<and> coerce_contract_decimal dec contract ''max_spend_per_run_usd'' = Inr per_run
        \<and> coerce_contract_decimal dec contract ''max_spend_per_day_usd'' = Inr per_day
        \<and> check_caps per_run per_day = None)"
  by (cases v) (auto simp: validate_contract_def Let_def filter_empty_conv
      split: option.splits sum.splits if_splits)

text \<open>The caps of a contract as numbers; a valid contract has them positive and in order.\<close>

definition cap_of :: "decimal_parser \<Rightarrow> json_dict \<Rightarrow> string \<Rightarrow> usd option" where
  "cap_of dec contract key = (case jget contract key of J_null \<Rightarrow> None | v \<Rightarrow> json_decimal dec v)"

lemma coerce_contract_decimal_cap:
  "coerce_contract_decimal dec contract key = Inr d \<Longrightarrow> cap_of dec contract key = d"
  by (auto simp: coerce_contract_decimal_def cap_of_def split: json.splits option.splits)

lemma coerce_decimal_cap: "coerce_decimal dec (jget contract key) = Inr d \<Longrightarrow> cap_of dec contract key = d"
  by (auto simp: coerce_decimal_def cap_of_def split: json.splits option.splits)

text \<open>A contract that passes the structural check is an object that names its tools (null or a list of
  strings), has a compute tier of 0, 1 or 2, and has positive caps, the per-run cap not above the
  daily one.\<close>

theorem valid_contract_bounds:
  assumes "validate_contract dec v = None"
  shows "\<exists>contract tier. v = J_obj contract
    \<and> (jget contract ''allowed_tools'' = J_null
        \<or> (\<exists>xs. jget contract ''allowed_tools'' = J_list (map J_str xs)))
    \<and> jget contract ''max_compute_tier'' = J_int tier \<and> tier \<in> {0..max_known_compute_tier}
    \<and> pred_option (\<lambda>r. 0 < r \<and> pred_option (\<lambda>d. r \<le> d) (cap_of dec contract ''max_spend_per_day_usd''))
         (cap_of dec contract ''max_spend_per_run_usd'')
    \<and> pred_option (\<lambda>d. 0 < d) (cap_of dec contract ''max_spend_per_day_usd'')"
proof -
  obtain contract per_run per_day where v: "v = J_obj contract"
      and tools: "check_allowed_tools (jget contract ''allowed_tools'') = None"
      and tier: "check_tier (jget contract ''max_compute_tier'') = None"
      and caps: "coerce_contract_decimal dec contract ''max_spend_per_run_usd'' = Inr per_run"
        "coerce_contract_decimal dec contract ''max_spend_per_day_usd'' = Inr per_day"
        "check_caps per_run per_day = None"
    using assms unfolding validate_contract_valid by blast
  have strs: "list_all is_str xs \<Longrightarrow> \<exists>ys. xs = map J_str ys" for xs
  proof (induction xs)
    case (Cons x xs)
    then obtain ys s where "xs = map J_str ys" "x = J_str s" by (cases x) auto
    then show ?case by (intro exI[of _ "s # ys"]) simp
  qed simp
  have "jget contract ''allowed_tools'' = J_null
      \<or> (\<exists>xs. jget contract ''allowed_tools'' = J_list (map J_str xs))"
    using tools strs by (auto simp: check_allowed_tools_def split: json.splits if_splits)
  moreover obtain t where "jget contract ''max_compute_tier'' = J_int t" "t \<in> {0..max_known_compute_tier}"
    using tier by (auto simp: check_tier_def split: json.splits if_splits)
  moreover have "pred_option (\<lambda>r. 0 < r \<and> pred_option (\<lambda>d. r \<le> d) per_day) per_run"
    "pred_option (\<lambda>d. 0 < d) per_day"
    using caps(3) by (cases per_run; cases per_day; auto simp: check_caps_def split: if_splits)+
  ultimately show ?thesis
    using v coerce_contract_decimal_cap[OF caps(1)] coerce_contract_decimal_cap[OF caps(2)] by blast
qed

text \<open>C38: what inheritance guarantees.  A child contract that passes the inheritance check carries only
  inheritable scopes, so neither of the two authoring scopes; none that a parent with scopes lacks;
  a per-run cap within the parent's when the parent has one; and a daily cap within the parent's
  remaining daily budget when both are given.\<close>

theorem child_contract_restricts:
  assumes "validate_child_contract dec (J_obj parent) (J_obj child) remaining = None"
  shows "list_all is_inheritable (scopes_from_contract child)
    \<and> set (scopes_from_contract child) \<inter> set non_inheritable_scopes = {}
    \<and> (scopes_from_contract parent = [] \<or> set (scopes_from_contract child) \<subseteq> set (scopes_from_contract parent))
    \<and> pred_option (\<lambda>p. \<exists>c. cap_of dec child ''max_spend_per_run_usd'' = Some c \<and> c \<le> p)
         (cap_of dec parent ''max_spend_per_run_usd'')
    \<and> pred_option (\<lambda>r. pred_option (\<lambda>c. c \<le> r) (cap_of dec child ''max_spend_per_day_usd'')) remaining"
proof -
  have ok: "check_scopes parent child = None" "check_daily dec child remaining = None"
    using assms by (auto simp: validate_child_contract_def split: option.splits sum.splits)
  obtain p c where caps: "cap_of dec parent ''max_spend_per_run_usd'' = p"
      "cap_of dec child ''max_spend_per_run_usd'' = c" "check_per_run p c = None"
    using assms coerce_decimal_cap
    by (fastforce simp: validate_child_contract_def split: option.splits sum.splits)
  have scopes: "\<forall>s \<in> set (scopes_from_contract child). is_inheritable s"
    "scopes_from_contract parent = [] \<or> set (scopes_from_contract child) \<subseteq> set (scopes_from_contract parent)"
    using ok(1) by (auto simp: check_scopes_def Let_def reject_non_inheritable_def filter_to_inheritable_def
        filter_empty_conv split: if_splits)
  have "\<forall>s \<in> set non_inheritable_scopes. \<not> is_inheritable s"
    by (simp add: non_inheritable_scopes_def is_inheritable_def inheritable_positive_list_def)
  with scopes have "set (scopes_from_contract child) \<inter> set non_inheritable_scopes = {}" by blast
  moreover have "pred_option (\<lambda>p. \<exists>c. cap_of dec child ''max_spend_per_run_usd'' = Some c \<and> c \<le> p)
      (cap_of dec parent ''max_spend_per_run_usd'')"
    using caps by (cases p; cases c) (auto simp: check_per_run_def split: if_splits)
  moreover have "pred_option (\<lambda>r. pred_option (\<lambda>c. c \<le> r) (cap_of dec child ''max_spend_per_day_usd'')) remaining"
    using ok(2) coerce_decimal_cap[of dec child "''max_spend_per_day_usd''"]
    by (cases remaining) (auto simp: check_daily_def split: sum.splits option.splits if_splits)
  ultimately show ?thesis using scopes by (simp add: list_all_iff)
qed

subsection \<open>Examples\<close>

definition w_dec :: decimal_parser where
  "w_dec s = map_option of_int (int_of_str s)"

definition w_parent :: json_dict where
  "w_parent = [(''allowed_tools'', J_list [J_str ''read_file'']), (''max_compute_tier'', J_int 0),
     (''allowed_mcps'', J_list []), (''max_spend_per_run_usd'', J_int 2), (''max_spend_per_day_usd'', J_str ''10'')]"

definition w_child :: json_dict where
  "w_child = [(''allowed_tools'', J_null), (''max_compute_tier'', J_int 2), (''max_spend_per_run_usd'', J_int 1)]"

theorem valid_contract_bounds_witness:
  "\<exists>contract tier. J_obj w_parent = J_obj contract \<and> jget contract ''max_compute_tier'' = J_int tier
     \<and> tier \<in> {0..max_known_compute_tier}"
proof -
  have "validate_contract w_dec (J_obj w_parent) = None" by code_simp
  from valid_contract_bounds[OF this] show ?thesis by blast
qed

lemma w_child_valid: "validate_child_contract w_dec (J_obj w_parent) (J_obj w_child) (Some 5) = None"
  by code_simp

theorem child_contract_restricts_witness:
  "list_all is_inheritable (scopes_from_contract w_child)
   \<and> pred_option (\<lambda>p. \<exists>c. cap_of w_dec w_child ''max_spend_per_run_usd'' = Some c \<and> c \<le> p)
       (cap_of w_dec w_parent ''max_spend_per_run_usd'')"
  using child_contract_restricts[OF w_child_valid] by blast

end
