(* ===== verification/Redis_Store.thy ===== *)
theory Redis_Store
  imports Prelude
begin

text \<open>
  The Redis commands the automation runtime uses, as an interface.  Redis is not part of the
  repository: the code's definitions take the commands as an argument, a record \<open>redis_api\<close>, and the
  locale \<open>redis_kv\<close> states the documented effect of each command on the visible keys
  (\<open>redis_counter\<close> adds the integer commands).  The lemmas the clients need are proved once inside the
  locales.  Expiry is the environment's: a key that has expired is a key that is not visible, so the
  laws speak about the keys visible when the command runs.

  The provider is the in-memory stand-in the repository's own test-suite runs the code against
  (\<open>_FakeRedis\<close> of \<open>tests/services/automations/test_budget.py\<close>), translated below; the locales
  are interpreted on it.
\<close>

subsection \<open>The interface\<close>

record ('s, 'k, 'v) redis_api =
  rget :: "'s \<Rightarrow> 'k \<Rightarrow> 'v option"
  rset_nx_ex :: "'s \<Rightarrow> 'k \<Rightarrow> 'v \<Rightarrow> int \<Rightarrow> 's \<times> bool"
  rexists :: "'s \<Rightarrow> 'k \<Rightarrow> bool"
  rdel :: "'s \<Rightarrow> 'k \<Rightarrow> 's \<times> bool"
  rincrby :: "'s \<Rightarrow> 'k \<Rightarrow> int \<Rightarrow> 's \<times> int"
  rdecrby :: "'s \<Rightarrow> 'k \<Rightarrow> int \<Rightarrow> 's \<times> int"

locale redis_kv =
  fixes R :: "('s, 'k, 'v) redis_api"
  assumes set_new: "rget R s k = None \<Longrightarrow> rset_nx_ex R s k v ttl = (s', ok) \<Longrightarrow>
      ok \<and> rget R s' = (rget R s)(k \<mapsto> v)"
    and set_held: "rget R s k = Some w \<Longrightarrow> rset_nx_ex R s k v ttl = (s, False)"
    and exists_iff: "rexists R s k \<longleftrightarrow> rget R s k \<noteq> None"
    and del_key: "rdel R s k = (s', ok) \<Longrightarrow>
      rget R s' = (rget R s)(k := None) \<and> ok = (rget R s k \<noteq> None)"
begin

lemma get_after_set:
  "rget R (fst (rset_nx_ex R s k v ttl)) = (rget R s)(k \<mapsto> (case rget R s k of None \<Rightarrow> v | Some w \<Rightarrow> w))"
proof (cases "rget R s k")
  case None
  then show ?thesis using set_new[OF None, of v ttl] by (cases "rset_nx_ex R s k v ttl") auto
next
  case (Some w)
  then show ?thesis using set_held[OF Some, of v ttl] by (simp add: fun_upd_idem)
qed

lemma set_ok_iff: "snd (rset_nx_ex R s k v ttl) \<longleftrightarrow> rget R s k = None"
proof (cases "rget R s k")
  case None
  then show ?thesis using set_new[OF None, of v ttl] by (cases "rset_nx_ex R s k v ttl") auto
next
  case (Some w)
  then show ?thesis using set_held[OF Some, of v ttl] by simp
qed

lemma get_after_del: "rget R (fst (rdel R s k)) = (rget R s)(k := None)"
  using del_key[of s k] by (cases "rdel R s k") auto

lemma del_ok_iff: "snd (rdel R s k) \<longleftrightarrow> rget R s k \<noteq> None"
  using del_key[of s k] by (cases "rdel R s k") auto

text \<open>Of two callers of \<open>SET NX\<close> on the same key, one after the other with no deletion between them,
  the second never succeeds.\<close>

lemma set_nx_exclusive: "\<not> snd (rset_nx_ex R (fst (rset_nx_ex R s k v ttl)) k v' ttl')"
  by (simp add: set_ok_iff get_after_set)

lemmas kv_simps = get_after_set set_ok_iff get_after_del del_ok_iff exists_iff

end

locale redis_counter = redis_kv R for R :: "('s, 'k, int) redis_api" +
  assumes incr: "rincrby R s k d = (s', m) \<Longrightarrow>
      m = (case rget R s k of None \<Rightarrow> d | Some n \<Rightarrow> n + d) \<and> rget R s' = (rget R s)(k \<mapsto> m)"
    and decr: "rdecrby R s k d = (s', m) \<Longrightarrow>
      m = (case rget R s k of None \<Rightarrow> - d | Some n \<Rightarrow> n - d) \<and> rget R s' = (rget R s)(k \<mapsto> m)"
begin

lemma incr_value: "snd (rincrby R s k d) = (case rget R s k of None \<Rightarrow> d | Some n \<Rightarrow> n + d)"
  using incr[of s k d] by (cases "rincrby R s k d") auto

lemma incr_get: "rget R (fst (rincrby R s k d)) =
    (rget R s)(k \<mapsto> (case rget R s k of None \<Rightarrow> d | Some n \<Rightarrow> n + d))"
  using incr[of s k d] by (cases "rincrby R s k d") auto

lemma decr_value: "snd (rdecrby R s k d) = (case rget R s k of None \<Rightarrow> - d | Some n \<Rightarrow> n - d)"
  using decr[of s k d] by (cases "rdecrby R s k d") auto

lemma decr_get: "rget R (fst (rdecrby R s k d)) =
    (rget R s)(k \<mapsto> (case rget R s k of None \<Rightarrow> - d | Some n \<Rightarrow> n - d))"
  using decr[of s k d] by (cases "rdecrby R s k d") auto

lemmas counter_simps = incr_value incr_get decr_value decr_get

end

subsection \<open>The provider: the in-memory store of the test-suite\<close>

record 'k fake_redis =
  fake_kv :: "'k \<rightharpoonup> int"
  fake_ttl :: "'k \<rightharpoonup> int"

text \<open>\<open>set(key, value, nx, ex)\<close>: \<open>False\<close> stands for the \<open>None\<close> it returns when \<open>nx\<close> finds the key.\<close>

definition fake_set :: "'k fake_redis \<Rightarrow> 'k \<Rightarrow> int \<Rightarrow> bool \<Rightarrow> int option \<Rightarrow> 'k fake_redis \<times> bool" where
  "fake_set s key value nx ex =
     (if nx \<and> fake_kv s key \<noteq> None then (s, False)
      else (s\<lparr>fake_kv := (fake_kv s)(key \<mapsto> value),
              fake_ttl := (case ex of None \<Rightarrow> fake_ttl s | Some t \<Rightarrow> (fake_ttl s)(key \<mapsto> t))\<rparr>, True))"

definition fake_get :: "'k fake_redis \<Rightarrow> 'k \<Rightarrow> int option" where
  "fake_get s key = fake_kv s key"

definition fake_exists :: "'k fake_redis \<Rightarrow> 'k \<Rightarrow> int" where
  "fake_exists s key = (if fake_kv s key \<noteq> None then 1 else 0)"

definition fake_incrby :: "'k fake_redis \<Rightarrow> 'k \<Rightarrow> int \<Rightarrow> 'k fake_redis \<times> int" where
  "fake_incrby s key amount =
     (let n = (case fake_kv s key of None \<Rightarrow> 0 | Some c \<Rightarrow> c) + amount
      in (s\<lparr>fake_kv := (fake_kv s)(key \<mapsto> n)\<rparr>, n))"

definition fake_delete :: "'k fake_redis \<Rightarrow> 'k \<Rightarrow> 'k fake_redis \<times> int" where
  "fake_delete s key =
     (s\<lparr>fake_kv := (fake_kv s)(key := None)\<rparr>, if fake_kv s key \<noteq> None then 1 else 0)"

text \<open>The stand-in's \<open>eval\<close>: the reserve script re-implemented in Python.\<close>

definition fake_eval_reserve :: "'k fake_redis \<Rightarrow> 'k \<Rightarrow> int \<Rightarrow> 'k fake_redis \<times> int" where
  "fake_eval_reserve s key decrement =
     (case fake_kv s key of
        None \<Rightarrow> (s, -2)
      | Some cur \<Rightarrow>
          if cur - decrement < 0 then (s, -1)
          else (s\<lparr>fake_kv := (fake_kv s)(key \<mapsto> cur - decrement)\<rparr>, cur - decrement))"

definition fake_api :: "('k fake_redis, 'k, int) redis_api" where
  "fake_api = \<lparr>rget = fake_get, rset_nx_ex = (\<lambda>s k v ttl. fake_set s k v True (Some ttl)),
     rexists = (\<lambda>s k. fake_exists s k \<noteq> 0),
     rdel = (\<lambda>s k. let (s', n) = fake_delete s k in (s', n \<noteq> 0)),
     rincrby = fake_incrby, rdecrby = (\<lambda>s k d. fake_incrby s k (- d))\<rparr>"

lemmas fake_defs [model_defs] = fake_api_def fake_set_def fake_get_def fake_exists_def
  fake_incrby_def fake_delete_def

interpretation fake: redis_counter fake_api
  by unfold_locales (auto simp: fake_defs Let_def split: if_splits option.splits)

end
