(* ===== verification/Run_Budget.thy ===== *)
theory Run_Budget
  imports Redis_Store
begin

text \<open>
  Per-run and daily budgets of automation runs: \<open>services/automations/budget.py\<close>.  The daily counters
  live in Redis, in micro-dollars; every definition takes the Redis commands as its first argument.
  The minting of the model key (\<open>services/litellm_keys.py\<close>, an HTTP call) is an argument: what it
  returns, or \<open>None\<close> when it raises.
\<close>

subsection \<open>Types\<close>

datatype budget_key = Daily uuid | Extension_Pending uuid

record budget_allocation =
  litellm_key_id :: "string option"
  litellm_key_value :: "string option"
  max_usd_per_run :: usd
  daily_remaining_usd :: "usd option" \<comment> \<open>\<open>None\<close> is \<open>Decimal("Infinity")\<close>\<close>
  is_extension :: bool

datatype budget_error =
    ValueError
  | CycleDetected "uuid list"
  | DailyBudgetExceeded uuid usd usd
  | MintFailed

abbreviation micro_per_usd :: rat where
  "micro_per_usd \<equiv> 1000000"

definition to_micro :: "usd \<Rightarrow> int" where
  "to_micro amount = py_int (amount * micro_per_usd)"

subsection \<open>Walking the parent chain\<close>

text \<open>\<open>parent_of\<close> is the \<open>parent_automation_id\<close> column: \<open>None\<close> for a missing row or a NULL parent.  The
  loop makes at most \<open>hops\<close> more hops; the visited set is the set of the chain.\<close>

definition max_parent_chain_depth :: nat where
  "max_parent_chain_depth = 2"

fun walk_loop :: "(uuid \<Rightarrow> uuid option) \<Rightarrow> nat \<Rightarrow> uuid \<Rightarrow> uuid list \<Rightarrow> budget_error + uuid list" where
  "walk_loop parent_of 0 cursor chain = Inr chain"
| "walk_loop parent_of (Suc hops) cursor chain =
     (case parent_of cursor of
        None \<Rightarrow> Inr chain
      | Some parent_id \<Rightarrow>
          if parent_id \<in> set chain then Inl (CycleDetected (chain @ [parent_id]))
          else walk_loop parent_of hops parent_id (chain @ [parent_id]))"

definition walk_parent_chain :: "(uuid \<Rightarrow> uuid option) \<Rightarrow> uuid \<Rightarrow> budget_error + uuid list" where
  "walk_parent_chain parent_of automation_id =
     walk_loop parent_of max_parent_chain_depth automation_id [automation_id]"

subsection \<open>The daily counters\<close>

definition seconds_until_end_of_day_utc :: "instant \<Rightarrow> int" where
  "seconds_until_end_of_day_utc now = (let tomorrow = now - now mod 86400 + 86400 in max (tomorrow - now) 60)"

definition initialize_daily_if_absent ::
  "('s, budget_key, int) redis_api \<Rightarrow> instant \<Rightarrow> 's \<Rightarrow> uuid \<Rightarrow> usd \<Rightarrow> 's" where
  "initialize_daily_if_absent R now s automation_id initial_usd =
     fst (rset_nx_ex R s (Daily automation_id) (to_micro initial_usd) (seconds_until_end_of_day_utc now))"

text \<open>The Lua script, run atomically by Redis.\<close>

definition lua_reserve_daily :: "('s, 'k, int) redis_api \<Rightarrow> 's \<Rightarrow> 'k \<Rightarrow> int \<Rightarrow> 's \<times> int" where
  "lua_reserve_daily R s key decrement =
     (case rget R s key of
        None \<Rightarrow> (s, -2)
      | Some cur \<Rightarrow> if cur - decrement < 0 then (s, -1) else rdecrby R s key decrement)"

definition atomic_reserve_daily ::
  "('s, budget_key, int) redis_api \<Rightarrow> 's \<Rightarrow> uuid \<Rightarrow> usd \<Rightarrow> 's \<times> (budget_error + usd option)" where
  "atomic_reserve_daily R s automation_id amount_usd =
     (let key = Daily automation_id;
          (s', raw) = lua_reserve_daily R s key (to_micro amount_usd)
      in if raw = -2 then (s', Inr None)
         else if raw = -1
         then (let cur_micro = (case rget R s' key of None \<Rightarrow> 0 | Some c \<Rightarrow> c)
               in (s', Inl (DailyBudgetExceeded automation_id amount_usd (of_int cur_micro / micro_per_usd))))
         else (s', Inr (Some (of_int raw / micro_per_usd))))"

definition refund_daily :: "('s, budget_key, int) redis_api \<Rightarrow> 's \<Rightarrow> uuid \<Rightarrow> usd \<Rightarrow> 's" where
  "refund_daily R s automation_id amount_usd =
     (if amount_usd \<le> 0 then s
      else if \<not> rexists R s (Daily automation_id) then s
      else fst (rincrby R s (Daily automation_id) (to_micro amount_usd)))"

definition refund_all :: "('s, budget_key, int) redis_api \<Rightarrow> usd \<Rightarrow> uuid list \<Rightarrow> 's \<Rightarrow> 's" where
  "refund_all R amount members s = fold (\<lambda>m s. refund_daily R s m amount) members s"

subsection \<open>Allocation and deallocation\<close>

text \<open>The lazy initialisation of every member's counter from its own daily cap.\<close>

fun initialize_chain ::
  "('s, budget_key, int) redis_api \<Rightarrow> instant \<Rightarrow> (uuid \<Rightarrow> usd option) \<Rightarrow> uuid list \<Rightarrow> 's \<Rightarrow> 's" where
  "initialize_chain R now max_per_day [] s = s"
| "initialize_chain R now max_per_day (m # ms) s =
     initialize_chain R now max_per_day ms
       (case max_per_day m of None \<Rightarrow> s | Some cap \<Rightarrow> initialize_daily_if_absent R now s m cap)"

text \<open>The debit loop: what was debited so far, in order, and the first member's remaining amount.  The
  first breach refunds what was debited.\<close>

fun debit_chain ::
  "('s, budget_key, int) redis_api \<Rightarrow> usd \<Rightarrow> uuid list \<Rightarrow> uuid list \<Rightarrow> usd option option \<Rightarrow> 's
   \<Rightarrow> 's \<times> (budget_error + (uuid list \<times> usd option))" where
  "debit_chain R amount [] debited own s =
     (s, Inr (debited, (case own of None \<Rightarrow> None | Some r \<Rightarrow> r)))"
| "debit_chain R amount (m # ms) debited own s =
     (case atomic_reserve_daily R s m amount of
        (s', Inl e) \<Rightarrow> (refund_all R amount debited s', Inl e)
      | (s', Inr remaining) \<Rightarrow>
          debit_chain R amount ms (debited @ [m])
            (case own of None \<Rightarrow> Some remaining | Some r \<Rightarrow> Some r) s')"

definition budget_chain :: "(uuid \<Rightarrow> uuid option) \<Rightarrow> uuid \<Rightarrow> uuid option \<Rightarrow> budget_error + uuid list" where
  "budget_chain parent_of automation_id parent_automation_id =
     (case walk_parent_chain parent_of automation_id of
        Inl e \<Rightarrow> Inl e
      | Inr chain \<Rightarrow>
          (case parent_automation_id of
             None \<Rightarrow> Inr chain
           | Some p \<Rightarrow> Inr (if p \<notin> set chain then chain @ [p] else chain)))"

text \<open>\<open>allocate_run_budget\<close>: the store is \<open>None\<close> when Redis is disabled; \<open>mint\<close> is the key id and the
  secret, or \<open>None\<close> when minting raises.\<close>

definition allocate_run_budget ::
  "('s, budget_key, int) redis_api \<Rightarrow> instant \<Rightarrow> (uuid \<Rightarrow> uuid option) \<Rightarrow> (uuid \<Rightarrow> usd option)
   \<Rightarrow> (string \<times> string) option \<Rightarrow> uuid \<Rightarrow> usd option \<Rightarrow> uuid option \<Rightarrow> bool \<Rightarrow> bool \<Rightarrow> 's option
   \<Rightarrow> 's option \<times> (budget_error + budget_allocation)" where
  "allocate_run_budget R now parent_of max_per_day mint automation_id contract_max
       parent_automation_id extension mint_litellm_key store =
     (case contract_max of
        None \<Rightarrow> (store, Inl ValueError)
      | Some max_per_run \<Rightarrow>
          if max_per_run \<le> 0 then (store, Inl ValueError)
          else (case budget_chain parent_of automation_id parent_automation_id of
             Inl e \<Rightarrow> (store, Inl e)
           | Inr chain \<Rightarrow>
              (case (case store of
                       None \<Rightarrow> (None, Inr ([], None))
                     | Some s \<Rightarrow>
                         (case debit_chain R max_per_run chain [] None
                                 (initialize_chain R now max_per_day chain s) of
                            (s', r) \<Rightarrow> (Some s', r))) of
                 (store', Inl e) \<Rightarrow> (store', Inl e)
               | (store', Inr (debited, own_remaining)) \<Rightarrow>
                   if \<not> mint_litellm_key
                   then (store', Inr \<lparr>litellm_key_id = None, litellm_key_value = None,
                           max_usd_per_run = max_per_run, daily_remaining_usd = own_remaining,
                           is_extension = extension\<rparr>)
                   else (case mint of
                       None \<Rightarrow> (map_option (refund_all R max_per_run debited) store', Inl MintFailed)
                     | Some (key_id, secret) \<Rightarrow>
                         (store', Inr \<lparr>litellm_key_id = Some key_id, litellm_key_value = Some secret,
                            max_usd_per_run = max_per_run, daily_remaining_usd = own_remaining,
                            is_extension = extension\<rparr>)))))"

text \<open>\<open>deallocate_run_budget\<close>: the store after the refund and the key the proxy is asked to revoke (its
  failure is logged and ignored).\<close>

definition deallocate_run_budget ::
  "('s, budget_key, int) redis_api \<Rightarrow> (uuid \<Rightarrow> uuid option) \<Rightarrow> uuid \<Rightarrow> budget_allocation \<Rightarrow> usd
   \<Rightarrow> uuid option \<Rightarrow> 's option \<Rightarrow> 's option \<times> (budget_error + string option)" where
  "deallocate_run_budget R parent_of automation_id allocation actual_spend parent_automation_id store =
     (let refund_amount = max (max_usd_per_run allocation - actual_spend) 0
      in case store of
           None \<Rightarrow> (None, Inr (litellm_key_id allocation))
         | Some s \<Rightarrow>
             if refund_amount > 0
             then (case budget_chain parent_of automation_id parent_automation_id of
                     Inl e \<Rightarrow> (Some s, Inl e)
                   | Inr chain \<Rightarrow> (Some (refund_all R refund_amount chain s), Inr (litellm_key_id allocation)))
             else (Some s, Inr (litellm_key_id allocation)))"

subsection \<open>Extensions\<close>

text \<open>A pubsub message: whether its type is \<open>message\<close>, and its payload.  \<open>await_message\<close> gets the messages
  that arrive before the timeout; running out of them is the timeout.\<close>

fun await_message :: "(bool \<times> string) list \<Rightarrow> bool" where
  "await_message [] = False"
| "await_message ((is_message, data) # rest) =
     (if \<not> is_message then await_message rest else data = ''approved'')"

definition request_budget_extension ::
  "('s, budget_key, int) redis_api \<Rightarrow> 's option \<Rightarrow> uuid \<Rightarrow> (bool \<times> string) list \<Rightarrow> 's option \<times> bool" where
  "request_budget_extension R store run_id messages =
     (case store of
        None \<Rightarrow> (None, True)
      | Some s \<Rightarrow>
          (case rset_nx_ex R s (Extension_Pending run_id) 1 60 of
             (s', acquired) \<Rightarrow> if acquired then (Some s', True) else (Some s', await_message messages)))"

text \<open>The store after \<open>publish_extension_resolution\<close>, and the message it publishes.\<close>

definition publish_extension_resolution ::
  "('s, budget_key, int) redis_api \<Rightarrow> 's option \<Rightarrow> uuid \<Rightarrow> bool \<Rightarrow> 's option \<times> (bool \<times> string) list" where
  "publish_extension_resolution R store run_id approved =
     (case store of
        None \<Rightarrow> (None, [])
      | Some s \<Rightarrow> (Some (fst (rdel R s (Extension_Pending run_id))),
                   [(True, if approved then ''approved'' else ''rejected'')]))"

subsection \<open>Counters as a view\<close>

text \<open>Adding \<open>d\<close> micro-dollars to the counters of a set of automations; an absent counter (no daily cap)
  stays absent.\<close>

definition shift :: "uuid set \<Rightarrow> int \<Rightarrow> (budget_key \<rightharpoonup> int) \<Rightarrow> (budget_key \<rightharpoonup> int)" where
  "shift A d v = (\<lambda>k. case k of
      Daily m \<Rightarrow> (if m \<in> A then map_option (\<lambda>n. n + d) (v k) else v k)
    | Extension_Pending r \<Rightarrow> v k)"

lemma shift_empty [simp]: "shift {} d v = v"
  by (auto simp: shift_def split: budget_key.splits)

lemma shift_cancel [simp]: "shift A d (shift A (- d) v) = v" "shift A (- d) (shift A d v) = v"
  by (auto simp: shift_def fun_eq_iff option.map_comp comp_def option.map_ident split: budget_key.splits)

lemma shift_union: "A \<inter> B = {} \<Longrightarrow> shift A d (shift B d v) = shift (A \<union> B) d v"
  by (auto simp: shift_def fun_eq_iff split: budget_key.splits)

lemma shift_insert:
  "m \<notin> A \<Longrightarrow> shift {m} d (shift A d v) = shift (insert m A) d v"
  "m \<notin> A \<Longrightarrow> shift A d (shift {m} d v) = shift (insert m A) d v"
  by (simp_all add: shift_union Un_commute)

lemma shift_singleton: "shift {m} d v = v(Daily m := map_option (\<lambda>n. n + d) (v (Daily m)))"
  by (auto simp: shift_def fun_eq_iff split: budget_key.splits)

lemma shift_Daily [simp]:
  "shift A d v (Daily m) = (if m \<in> A then map_option (\<lambda>n. n + d) (v (Daily m)) else v (Daily m))"
  "shift A d v (Extension_Pending r) = v (Extension_Pending r)"
  by (auto simp: shift_def)

text \<open>The counters after the lazy initialisation: an existing counter is kept, an absent one starts at
  the member's own cap.\<close>

definition with_caps :: "(uuid \<Rightarrow> usd option) \<Rightarrow> uuid set \<Rightarrow> (budget_key \<rightharpoonup> int) \<Rightarrow> (budget_key \<rightharpoonup> int)" where
  "with_caps max_per_day A v = (\<lambda>k. case k of
      Daily m \<Rightarrow> (if m \<in> A \<and> v k = None then map_option to_micro (max_per_day m) else v k)
    | Extension_Pending r \<Rightarrow> v k)"

lemma with_caps_Daily [simp]:
  "with_caps caps A v (Daily m) =
     (if m \<in> A \<and> v (Daily m) = None then map_option to_micro (caps m) else v (Daily m))"
  "with_caps caps A v (Extension_Pending r) = v (Extension_Pending r)"
  by (auto simp: with_caps_def)

lemma to_micro_nonneg [simp]: "0 \<le> a \<Longrightarrow> 0 \<le> to_micro a"
  by (simp add: to_micro_def)

subsection \<open>The chain\<close>

lemma walk_loop_chain:
  assumes "walk_loop parent_of hops cursor chain = Inr c" "distinct chain" "chain \<noteq> []" "last chain = cursor"
  shows "distinct c \<and> (\<exists>more. c = chain @ more \<and> length more \<le> hops
    \<and> (length more < hops \<longrightarrow> parent_of (last c) = None)
    \<and> successively (\<lambda>a b. parent_of a = Some b) (last chain # more))"
  using assms
proof (induction hops arbitrary: cursor chain)
  case 0
  then show ?case by simp
next
  case (Suc hops)
  show ?case
  proof (cases "parent_of cursor")
    case None
    with Suc.prems show ?thesis by auto
  next
    case (Some p)
    with Suc.prems(1) have new: "p \<notin> set chain"
      and rest: "walk_loop parent_of hops p (chain @ [p]) = Inr c"
      by (auto split: if_splits)
    from Suc.IH[OF rest] new Suc.prems(2) obtain more where
      "distinct c" "c = (chain @ [p]) @ more" "length more \<le> hops"
      "length more < hops \<longrightarrow> parent_of (last c) = None"
      "successively (\<lambda>a b. parent_of a = Some b) (p # more)" by auto
    with Some Suc.prems(4) show ?thesis by (intro conjI exI[of _ "p # more"]) auto
  qed
qed

lemma walk_parent_chain_distinct: "walk_parent_chain parent_of a = Inr c \<Longrightarrow> distinct c"
  unfolding walk_parent_chain_def by (drule walk_loop_chain) auto

lemma budget_chain_distinct: "budget_chain parent_of a p = Inr c \<Longrightarrow> distinct c"
  by (auto simp: budget_chain_def dest: walk_parent_chain_distinct split: sum.splits option.splits if_splits)

subsection \<open>Lemmas over any Redis with the documented commands\<close>

locale budget_store = redis_counter R for R :: "('s, budget_key, int) redis_api"
begin

lemma lua_reserve_none: "rget R s k = None \<Longrightarrow> lua_reserve_daily R s k d = (s, -2)"
  by (simp add: lua_reserve_daily_def)

lemma lua_reserve_breach: "rget R s k = Some n \<Longrightarrow> n < d \<Longrightarrow> lua_reserve_daily R s k d = (s, -1)"
  by (simp add: lua_reserve_daily_def)

lemma lua_reserve_ok:
  "rget R s k = Some n \<Longrightarrow> d \<le> n \<Longrightarrow> lua_reserve_daily R s k d = rdecrby R s k d"
  by (simp add: lua_reserve_daily_def)

lemma reserve_cases:
  assumes "0 \<le> amount"
  shows "(case rget R s (Daily m) of
      None \<Rightarrow> atomic_reserve_daily R s m amount = (s, Inr None)
    | Some n \<Rightarrow>
        if n < to_micro amount
        then atomic_reserve_daily R s m amount =
               (s, Inl (DailyBudgetExceeded m amount (of_int n / micro_per_usd)))
        else \<exists>s'. rget R s' = shift {m} (- to_micro amount) (rget R s)
               \<and> atomic_reserve_daily R s m amount
                   = (s', Inr (Some (of_int (n - to_micro amount) / micro_per_usd))))"
proof (cases "rget R s (Daily m)")
  case None
  then show ?thesis by (simp add: atomic_reserve_daily_def lua_reserve_none)
next
  case (Some n)
  show ?thesis
  proof (cases "n < to_micro amount")
    case True
    with Some show ?thesis by (simp add: atomic_reserve_daily_def lua_reserve_breach)
  next
    case False
    obtain s' raw where dec: "rdecrby R s (Daily m) (to_micro amount) = (s', raw)" by fastforce
    with decr[OF dec] Some have raw: "raw = n - to_micro amount"
      and get: "rget R s' = shift {m} (- to_micro amount) (rget R s)"
      by (auto simp: shift_singleton)
    with False Some dec show ?thesis
      by (auto simp: atomic_reserve_daily_def lua_reserve_ok)
  qed
qed

lemma refund_view:
  assumes "0 < amount"
  shows "rget R (refund_daily R s m amount) = shift {m} (to_micro amount) (rget R s)"
  using assms
  by (cases "rget R s (Daily m)")
    (auto simp: refund_daily_def kv_simps counter_simps shift_singleton fun_upd_idem)

lemma refund_all_view:
  assumes "0 < amount" "distinct ms"
  shows "rget R (refund_all R amount ms s) = shift (set ms) (to_micro amount) (rget R s)"
  using assms(2)
proof (induction ms arbitrary: s)
  case Nil
  then show ?case by (simp add: refund_all_def)
next
  case (Cons m ms)
  then have "rget R (refund_all R amount (m # ms) s)
      = shift (set ms) (to_micro amount) (shift {m} (to_micro amount) (rget R s))"
    by (simp add: refund_all_def refund_view[OF assms(1)])
  with Cons.prems show ?case by (simp add: shift_insert)
qed

lemma initialize_chain_view:
  "rget R (initialize_chain R now caps ms s) = with_caps caps (set ms) (rget R s)"
proof (induction ms arbitrary: s)
  case Nil
  then show ?case by (auto simp: with_caps_def split: budget_key.splits)
next
  case (Cons m ms)
  show ?case
  proof (rule ext)
    fix k
    show "rget R (initialize_chain R now caps (m # ms) s) k = with_caps caps (set (m # ms)) (rget R s) k"
      by (cases "caps m"; cases k)
        (auto simp: Cons.IH initialize_daily_if_absent_def get_after_set)
  qed
qed

text \<open>The debit loop, from a store whose counters are \<open>v0\<close> less what was debited already.\<close>

lemma debit_chain_outcome:
  assumes "0 < amount" "distinct (debited @ ms)"
    and "rget R s = shift (set debited) (- to_micro amount) v0"
    and "debit_chain R amount ms debited own s = (s', r)"
  shows "(case r of
      Inl e \<Rightarrow> rget R s' = v0
        \<and> (\<exists>m \<in> set ms. \<exists>n. v0 (Daily m) = Some n \<and> n < to_micro amount
             \<and> e = DailyBudgetExceeded m amount (of_int n / micro_per_usd))
    | Inr (done_list, _) \<Rightarrow> done_list = debited @ ms
        \<and> rget R s' = shift (set (debited @ ms)) (- to_micro amount) v0
        \<and> (\<forall>m \<in> set ms. \<forall>n. v0 (Daily m) = Some n \<longrightarrow> to_micro amount \<le> n))"
  using assms(2-)
proof (induction ms arbitrary: debited own s)
  case Nil
  then show ?case by (auto split: option.splits)
next
  case (Cons m ms)
  have fresh: "rget R s (Daily m) = v0 (Daily m)" using Cons.prems(1,2) by simp
  have pos: "0 \<le> amount" using assms(1) by simp
  note step = reserve_cases[OF pos, of s m]
  have next_step: "\<And>s1 rem. atomic_reserve_daily R s m amount = (s1, Inr rem) \<Longrightarrow>
      rget R s1 = shift (set (debited @ [m])) (- to_micro amount) v0 \<Longrightarrow>
      (\<forall>n. v0 (Daily m) = Some n \<longrightarrow> to_micro amount \<le> n) \<Longrightarrow> ?case"
  proof -
    fix s1 rem
    assume res: "atomic_reserve_daily R s m amount = (s1, Inr rem)"
      and view: "rget R s1 = shift (set (debited @ [m])) (- to_micro amount) v0"
      and enough: "\<forall>n. v0 (Daily m) = Some n \<longrightarrow> to_micro amount \<le> n"
    have run: "debit_chain R amount ms (debited @ [m])
        (case own of None \<Rightarrow> Some rem | Some r \<Rightarrow> Some r) s1 = (s', r)"
      using Cons.prems(3) res by simp
    have dist: "distinct ((debited @ [m]) @ ms)" using Cons.prems(1) by simp
    from Cons.IH[OF dist view run] enough show ?case by (auto split: sum.splits)
  qed
  show ?case
  proof (cases "v0 (Daily m)")
    case None
    with step fresh have "atomic_reserve_daily R s m amount = (s, Inr None)" by simp
    moreover have "rget R s = shift (set (debited @ [m])) (- to_micro amount) v0"
      using Cons.prems(2) None by (auto simp: fun_eq_iff shift_def split: budget_key.splits)
    ultimately show ?thesis using None by (intro next_step) auto
  next
    case (Some n)
    show ?thesis
    proof (cases "n < to_micro amount")
      case True
      with step fresh Some have res: "atomic_reserve_daily R s m amount =
          (s, Inl (DailyBudgetExceeded m amount (of_int n / micro_per_usd)))" by simp
      with Cons.prems(3) have "s' = refund_all R amount debited s"
        and "r = Inl (DailyBudgetExceeded m amount (of_int n / micro_per_usd))" by auto
      moreover have "rget R (refund_all R amount debited s) = v0"
        using refund_all_view[OF assms(1), of debited s] Cons.prems(1,2) by simp
      ultimately show ?thesis using Some True by auto
    next
      case False
      with step fresh Some obtain s1 rem where
        "atomic_reserve_daily R s m amount = (s1, Inr rem)"
        "rget R s1 = shift {m} (- to_micro amount) (rget R s)" by auto
      moreover from this(2) have "rget R s1 = shift (set (debited @ [m])) (- to_micro amount) v0"
        using Cons.prems(1,2) by (simp add: shift_insert)
      ultimately show ?thesis using Some False by (intro next_step) auto
    qed
  qed
qed

lemma allocate_outcome:
  assumes "0 < amount" and chain: "budget_chain parent_of a p = Inr chain"
    and run: "allocate_run_budget R now parent_of caps mint a (Some amount) p ext mk (Some s) = (store', r)"
  shows "\<exists>s'. store' = Some s' \<and> (case r of
      Inl e \<Rightarrow> rget R s' = with_caps caps (set chain) (rget R s)
    | Inr al \<Rightarrow> max_usd_per_run al = amount
        \<and> rget R s' = shift (set chain) (- to_micro amount) (with_caps caps (set chain) (rget R s))
        \<and> (\<forall>m \<in> set chain. \<forall>n. with_caps caps (set chain) (rget R s) (Daily m) = Some n
             \<longrightarrow> to_micro amount \<le> n))"
proof -
  define v0 where "v0 = with_caps caps (set chain) (rget R s)"
  have dist: "distinct ([] @ chain)" using budget_chain_distinct[OF chain] by simp
  obtain s1 d where deb: "debit_chain R amount chain [] None (initialize_chain R now caps chain s) = (s1, d)"
    by fastforce
  have start: "rget R (initialize_chain R now caps chain s) = shift (set []) (- to_micro amount) v0"
    by (simp add: initialize_chain_view v0_def)
  note out = debit_chain_outcome[OF assms(1) dist start deb]
  show ?thesis
  proof (cases d)
    case (Inl e)
    then show ?thesis using run deb chain assms(1) out
      by (auto simp: allocate_run_budget_def v0_def)
  next
    case (Inr x)
    obtain ds own where x: "x = (ds, own)" by fastforce
    have ds: "ds = chain" and view: "rget R s1 = shift (set chain) (- to_micro amount) v0"
      and enough: "\<forall>m \<in> set chain. \<forall>n. v0 (Daily m) = Some n \<longrightarrow> to_micro amount \<le> n"
      using out Inr x by auto
    have undone: "rget R (refund_all R amount chain s1) = v0"
      using refund_all_view[OF assms(1), of chain s1] dist view by simp
    show ?thesis unfolding v0_def[symmetric] using run deb chain assms(1) Inr x ds view enough undone
      by (auto simp: allocate_run_budget_def split: if_splits option.splits)
  qed
qed

lemma allocate_inputs:
  assumes "allocate_run_budget R now parent_of caps mint a contract p ext mk (Some s) = (store', Inr al)"
  shows "contract = Some (max_usd_per_run al) \<and> 0 < max_usd_per_run al
    \<and> (\<exists>chain. budget_chain parent_of a p = Inr chain)"
  using assms
  by (auto simp: allocate_run_budget_def Let_def split: option.splits if_splits sum.splits prod.splits)

lemma deallocate_view:
  assumes "budget_chain parent_of a p = Inr chain" and "actual \<le> max_usd_per_run al"
    and "deallocate_run_budget R parent_of a al actual p (Some s) = (store', r)"
  shows "\<exists>s'. store' = Some s' \<and> r = Inr (litellm_key_id al)
    \<and> rget R s' = shift (set chain) (to_micro (max_usd_per_run al - actual)) (rget R s)"
proof (cases "actual = max_usd_per_run al")
  case True
  have "\<And>v. shift (set chain) 0 v = v"
    by (auto simp: shift_def fun_eq_iff option.map_ident split: budget_key.splits)
  with True assms show ?thesis
    by (auto simp: deallocate_run_budget_def to_micro_def)
next
  case False
  with assms refund_all_view[of "max_usd_per_run al - actual" chain s] budget_chain_distinct[OF assms(1)]
  show ?thesis by (auto simp: deallocate_run_budget_def max_def)
qed

end

interpretation fake_budget: budget_store fake_api
  by unfold_locales

text \<open>The stand-in's Python \<open>eval\<close> does what the Lua script does.\<close>

lemma fake_eval_is_lua: "fake_eval_reserve s k d = lua_reserve_daily fake_api s k d"
  by (simp add: fake_eval_reserve_def lua_reserve_daily_def fake_defs Let_def split: option.splits)

subsection \<open>Properties\<close>

text \<open>C2: a failed allocation leaves no debit behind.  Whatever the error (bad contract, cycle, a breach
  at any member of the chain, a failed mint) every counter that existed keeps its value, and a counter
  that did not exist is absent or holds its automation's full daily cap.\<close>

theorem allocate_error_restores:
  assumes "redis_counter R"
    and "allocate_run_budget R now parent_of caps mint a contract p ext mk (Some s) = (store', Inl e)"
  shows "\<exists>s'. store' = Some s' \<and> (\<forall>m.
      rget R s' (Daily m) = rget R s (Daily m)
      \<or> rget R s (Daily m) = None \<and> rget R s' (Daily m) = map_option to_micro (caps m))"
proof (cases "\<exists>amount chain. contract = Some amount \<and> 0 < amount \<and> budget_chain parent_of a p = Inr chain")
  case True
  then obtain amount chain where c: "contract = Some amount" "0 < amount" "budget_chain parent_of a p = Inr chain"
    by blast
  from budget_store.allocate_outcome[OF budget_store.intro[OF assms(1)] c(2,3)] assms(2) c(1)
  obtain s' where "store' = Some s'" "rget R s' = with_caps caps (set chain) (rget R s)"
    by fastforce
  then show ?thesis by auto
next
  case False
  with assms(2) have "store' = Some s"
    by (auto simp: allocate_run_budget_def split: option.splits if_splits sum.splits)
  then show ?thesis by simp
qed

definition example_parents :: "uuid \<Rightarrow> uuid option" where
  "example_parents a = (if a = 2 then Some 1 else None)"

definition example_caps :: "uuid \<Rightarrow> usd option" where
  "example_caps a = (if a = 1 then Some 1 else if a = 2 then Some 5 else None)"

definition empty_store :: "budget_key fake_redis" where
  "empty_store = \<lparr>fake_kv = Map.empty, fake_ttl = Map.empty\<rparr>"

lemma depth_unary: "max_parent_chain_depth = Suc (Suc 0)"
  by (simp add: max_parent_chain_depth_def)

lemmas budget_eval = allocate_run_budget_def budget_chain_def walk_parent_chain_def
  depth_unary example_parents_def example_caps_def empty_store_def Let_def
  initialize_daily_if_absent_def atomic_reserve_daily_def lua_reserve_daily_def refund_all_def
  refund_daily_def to_micro_def py_int_def fake_defs

theorem allocate_error_restores_witness:
  "\<exists>s'. fst (allocate_run_budget fake_api 0 example_parents example_caps None 2 (Some 2) None False False
              (Some empty_store)) = Some s'
      \<and> fake_kv s' (Daily 2) = Some 5000000 \<and> fake_kv s' (Daily 1) = Some 1000000"
proof -
  have run: "snd (allocate_run_budget fake_api 0 example_parents example_caps None 2 (Some 2) None False False
      (Some empty_store)) = Inl (DailyBudgetExceeded 1 2 1)"
    by (simp add: budget_eval)
  from allocate_error_restores[OF fake.redis_counter_axioms, of 0 example_parents example_caps None 2 "Some 2"
      None False False empty_store "fst (allocate_run_budget fake_api 0 example_parents example_caps None 2
      (Some 2) None False False (Some empty_store))" "DailyBudgetExceeded 1 2 1"] run
  obtain s' where s': "fst (allocate_run_budget fake_api 0 example_parents example_caps None 2 (Some 2) None
      False False (Some empty_store)) = Some s'" by (metis prod.collapse)
  show ?thesis using s' by (auto simp: budget_eval)
qed

text \<open>A successful allocation debits every capped member of the chain exactly once, by the run's cap,
  never below zero, and touches no other counter.\<close>

theorem allocate_success_debits:
  assumes "redis_counter R"
    and "allocate_run_budget R now parent_of caps mint a contract p ext mk (Some s) = (store', Inr al)"
  shows "\<exists>s' chain. store' = Some s' \<and> contract = Some (max_usd_per_run al)
    \<and> budget_chain parent_of a p = Inr chain \<and> distinct chain
    \<and> (\<forall>m. rget R s' (Daily m) =
          (if m \<in> set chain
           then map_option (\<lambda>n. n - to_micro (max_usd_per_run al))
                  (case rget R s (Daily m) of None \<Rightarrow> map_option to_micro (caps m) | Some n \<Rightarrow> Some n)
           else rget R s (Daily m)))
    \<and> (\<forall>m \<in> set chain. \<forall>n. rget R s' (Daily m) = Some n \<longrightarrow> 0 \<le> n)"
proof -
  note inputs = budget_store.allocate_inputs[OF budget_store.intro[OF assms(1)] assms(2)]
  then obtain chain where chain: "budget_chain parent_of a p = Inr chain" by blast
  define v0 where "v0 = with_caps caps (set chain) (rget R s)"
  define d where "d = to_micro (max_usd_per_run al)"
  from budget_store.allocate_outcome[OF budget_store.intro[OF assms(1)] _ chain, of "max_usd_per_run al"]
    assms(2) inputs
  obtain s' where s': "store' = Some s'" "rget R s' = shift (set chain) (- d) v0"
    and enough: "\<forall>m \<in> set chain. \<forall>n. v0 (Daily m) = Some n \<longrightarrow> d \<le> n"
    unfolding v0_def d_def by fastforce
  have v0: "\<And>m. m \<in> set chain \<Longrightarrow>
      v0 (Daily m) = (case rget R s (Daily m) of None \<Rightarrow> map_option to_micro (caps m) | Some n \<Rightarrow> Some n)"
    and out: "\<And>m. m \<notin> set chain \<Longrightarrow> v0 (Daily m) = rget R s (Daily m)"
    by (auto simp: v0_def split: option.splits)
  have fin: "\<forall>m \<in> set chain. \<forall>n. rget R s' (Daily m) = Some n \<longrightarrow> 0 \<le> n"
    using enough s'(2) by fastforce
  show ?thesis
    unfolding d_def[symmetric]
    by (rule exI[of _ s'], rule exI[of _ chain])
      (use s' chain inputs budget_chain_distinct[OF chain] fin v0 out in \<open>auto simp: option.map_comp\<close>)
qed

theorem allocate_success_debits_witness:
  "\<exists>s'. fst (allocate_run_budget fake_api 0 example_parents example_caps None 2 (Some 1) None False False
              (Some empty_store)) = Some s'
      \<and> fake_kv s' (Daily 2) = Some 4000000 \<and> fake_kv s' (Daily 1) = Some 0"
proof -
  let ?run = "allocate_run_budget fake_api 0 example_parents example_caps None 2 (Some 1) None False False
      (Some empty_store)"
  obtain al where run: "snd ?run = Inr al" by (simp add: budget_eval)
  then have "?run = (fst ?run, Inr al)" by (metis prod.collapse)
  from allocate_success_debits[OF fake.redis_counter_axioms this]
  obtain s' where s': "fst ?run = Some s'" by blast
  show ?thesis using s' by (auto simp: budget_eval)
qed


definition funded_store :: "budget_key fake_redis" where
  "funded_store = \<lparr>fake_kv = [Daily 3 \<mapsto> 9000000], fake_ttl = Map.empty\<rparr>"

definition example_allocation :: budget_allocation where
  "example_allocation = \<lparr>litellm_key_id = None, litellm_key_value = None, max_usd_per_run = 2,
     daily_remaining_usd = Some 7, is_extension = False\<rparr>"

lemma example_allocate:
  "allocate_run_budget fake_api 0 example_parents example_caps None 3 (Some 2) None False False
     (Some funded_store)
   = (Some (funded_store\<lparr>fake_kv := [Daily 3 \<mapsto> 7000000]\<rparr>), Inr example_allocation)"
  by (simp add: budget_eval funded_store_def example_allocation_def)

lemma example_deallocate:
  "deallocate_run_budget fake_api example_parents 3 example_allocation (1/2) None
     (Some (funded_store\<lparr>fake_kv := [Daily 3 \<mapsto> k]\<rparr>))
   = (Some (funded_store\<lparr>fake_kv := [Daily 3 \<mapsto> k + 1500000]\<rparr>), Inr None)"
  by (simp add: deallocate_run_budget_def budget_eval funded_store_def example_allocation_def max_def)

lemma example_chain: "budget_chain example_parents 3 None = Inr [3]"
  by (simp add: budget_eval)


text \<open>deallocation is not idempotent: calling it again credits the unused part again, and the second
  refund can lift a counter above where the run found it.\<close>

theorem deallocate_twice_refunds_twice:
  assumes "redis_counter R" and "actual \<le> max_usd_per_run al"
    and "budget_chain parent_of a p = Inr chain"
    and "deallocate_run_budget R parent_of a al actual p (Some s) = (Some s1, r1)"
    and "deallocate_run_budget R parent_of a al actual p (Some s1) = (Some s2, r2)"
    and "m \<in> set chain" and "rget R s (Daily m) = Some n"
  shows "rget R s2 (Daily m) = Some (n + 2 * to_micro (max_usd_per_run al - actual))"
  using budget_store.deallocate_view[OF budget_store.intro[OF assms(1)] assms(3,2,4)]
    budget_store.deallocate_view[OF budget_store.intro[OF assms(1)] assms(3,2,5)] assms(6,7)
  by auto

theorem deallocate_twice_refunds_twice_witness:
  "fake_kv (funded_store\<lparr>fake_kv := [Daily 3 \<mapsto> 7000000 + 1500000 + 1500000]\<rparr>) (Daily 3)
     = Some (7000000 + 2 * to_micro (2 - 1/2))
   \<and> (9000000::int) < 7000000 + 1500000 + 1500000"
  using deallocate_twice_refunds_twice[OF fake.redis_counter_axioms _ example_chain example_deallocate
      example_deallocate, of 3 7000000]
  by (simp add: example_allocation_def fake_defs funded_store_def)

text \<open>C4: the walk of the parent chain always returns after at most two hops.  A chain it returns starts
  at the automation, has no repetition, follows the parent links and holds at most three automations; it
  is cut short only at an automation without parent.  A self-parent or a pair of automations that are
  each other's parent is reported as a cycle.\<close>

theorem walk_parent_chain_correct:
  "case walk_parent_chain parent_of a of
     Inr c \<Rightarrow> distinct c \<and> hd c = a \<and> length c \<le> 3
        \<and> successively (\<lambda>x y. parent_of x = Some y) c
        \<and> (length c < 3 \<longrightarrow> parent_of (last c) = None)
        \<and> parent_of a \<noteq> Some a \<and> (\<forall>b. parent_of a = Some b \<longrightarrow> parent_of b \<noteq> Some a \<and> parent_of b \<noteq> Some b)
   | Inl e \<Rightarrow> \<exists>c d. e = CycleDetected (c @ [d]) \<and> d \<in> set c"
  by (auto simp: walk_parent_chain_def depth_unary split: option.splits)

theorem walk_parent_chain_correct_witness:
  "walk_parent_chain example_parents 2 = Inr [2, 1] \<and> distinct [2, 1::uuid] \<and> example_parents 1 = None"
proof -
  have run: "walk_parent_chain example_parents 2 = Inr [2, 1]"
    by (simp add: walk_parent_chain_def depth_unary example_parents_def)
  show ?thesis using walk_parent_chain_correct[where parent_of = example_parents and a = 2] by (simp add: run)
qed

text \<open>While a budget extension is pending, exactly one caller acquires it.  Later callers change
  nothing and return the published decision, and publishing the decision frees the lock again.\<close>

theorem extension_single_winner:
  assumes "redis_counter R" and "rget R s (Extension_Pending run) = None"
  shows "\<exists>s1. request_budget_extension R (Some s) run msgs = (Some s1, True)
    \<and> (\<forall>later. request_budget_extension R (Some s1) run later = (Some s1, await_message later))
    \<and> (\<forall>approved. \<exists>s2 sent. publish_extension_resolution R (Some s1) run approved = (Some s2, sent)
          \<and> rget R s2 = rget R s
          \<and> (\<forall>confirm. await_message ((False, confirm) # sent) = approved))"
proof -
  have kv: "redis_kv R" using assms(1) by (simp add: redis_counter_def)
  obtain s1 ok where st: "rset_nx_ex R s (Extension_Pending run) 1 60 = (s1, ok)" by fastforce
  from redis_kv.set_new[OF kv assms(2) st]
  have set1: "rset_nx_ex R s (Extension_Pending run) 1 60 = (s1, True)"
    and get1: "rget R s1 = (rget R s)(Extension_Pending run \<mapsto> 1)"
    using st by auto
  have held: "rset_nx_ex R s1 (Extension_Pending run) 1 60 = (s1, False)"
    by (rule redis_kv.set_held[OF kv]) (simp add: get1)
  have del: "rget R (fst (rdel R s1 (Extension_Pending run))) = rget R s"
    using redis_kv.get_after_del[OF kv] assms(2) by (simp add: get1 fun_upd_idem)
  show ?thesis
    by (rule exI[of _ s1])
      (simp add: request_budget_extension_def publish_extension_resolution_def set1 held del)
qed

theorem extension_single_winner_witness:
  "\<exists>s1. request_budget_extension fake_api (Some empty_store) 9 [] = (Some s1, True)
     \<and> (\<forall>later. request_budget_extension fake_api (Some s1) 9 later = (Some s1, await_message later))"
proof -
  have none: "rget fake_api empty_store (Extension_Pending 9) = None"
    by (simp add: empty_store_def fake_defs)
  from extension_single_winner[OF fake.redis_counter_axioms none, of "[]"] show ?thesis by blast
qed

end
