(* ===== verification/Workflow.thy ===== *)
theory Workflow
  imports Json_Value
begin

text \<open>
  The workflow engine (\<open>services/workflows/engine.py\<close>): the walk over the actions of an automation by
  ordinal, one step row and two events per step, forward jumps of control-flow steps, and every way
  a step can end a run.  A handler is an argument of the engine, looked up in the registry by step
  kind; the handlers of theory \<open>Workflow_Handlers\<close> are instances.  A handler may change anything
  outside the engine's tables, the world \<open>'w\<close>.

  The event log (\<open>event_log.py\<close>) swallows its own write failures: \<open>lost\<close> says which events fail to be
  written.  The n-th step row of a run has the id n.
\<close>

subsection \<open>Steps\<close>

record action =
  ac_id :: uuid
  ac_ordinal :: int
  ac_type :: string
  ac_config :: json
  ac_app_action_id :: "uuid option"
  ac_parent_action_id :: "uuid option"
  ac_branch_condition :: json

record step_result =
  sr_output :: json
  sr_async_handoff :: bool
  sr_spend_usd :: "usd option"
  sr_next_ordinal :: "int option"

text \<open>What \<open>handler.execute\<close> raises: a contract breach with the tool and the reason it carries, or any
  other exception with its type name, its text and its \<open>repr\<close>.\<close>

datatype step_exc =
    Contract_breach "string option" "string option"
  | Step_exception string string string

record step_context =
  cx_run_id :: uuid
  cx_automation_id :: uuid
  cx_automation_name :: string
  cx_max_compute_tier :: json
  cx_action :: action
  cx_event_payload :: json
  cx_prior_outputs :: "json list"

type_synonym 'w handler = "'w \<Rightarrow> step_context \<Rightarrow> 'w \<times> (step_exc, step_result) result"
type_synonym 'w registry = "string \<rightharpoonup> 'w handler"

datatype step_status = Running | Succeeded | Step_failed | Awaiting_approval

record step_row =
  st_id :: nat
  st_action_id :: uuid
  st_ordinal :: int
  st_kind :: string
  st_status :: step_status
  st_input :: json
  st_output :: "json option"
  st_error :: "string option"
  st_ended :: bool

subsection \<open>The event log\<close>

datatype run_event =
    Step_started nat int string
  | Step_finished nat int string step_status "usd option"
  | Approval_requested nat "string option" "string option"
  | Error_raised nat string string

record 'w wf =
  wf_steps :: "step_row list"
  wf_events :: "run_event list"
  wf_world :: 'w

definition record_event :: "(run_event \<Rightarrow> bool) \<Rightarrow> run_event \<Rightarrow> 'w wf \<Rightarrow> 'w wf" where
  "record_event lost ev st = (if lost ev then st else st\<lparr>wf_events := wf_events st @ [ev]\<rparr>)"

definition emit_step_started :: "(run_event \<Rightarrow> bool) \<Rightarrow> nat \<Rightarrow> action \<Rightarrow> 'w wf \<Rightarrow> 'w wf" where
  "emit_step_started lost k a = record_event lost (Step_started k (ac_ordinal a) (ac_type a))"

definition emit_step_finished ::
  "(run_event \<Rightarrow> bool) \<Rightarrow> nat \<Rightarrow> action \<Rightarrow> step_status \<Rightarrow> usd option \<Rightarrow> 'w wf \<Rightarrow> 'w wf" where
  "emit_step_finished lost k a status spend =
     record_event lost (Step_finished k (ac_ordinal a) (ac_type a) status spend)"

definition emit_approval_requested ::
  "(run_event \<Rightarrow> bool) \<Rightarrow> nat \<Rightarrow> string option \<Rightarrow> string option \<Rightarrow> 'w wf \<Rightarrow> 'w wf" where
  "emit_approval_requested lost k tool reason = record_event lost (Approval_requested k tool reason)"

definition emit_error :: "(run_event \<Rightarrow> bool) \<Rightarrow> nat \<Rightarrow> string \<Rightarrow> string \<Rightarrow> 'w wf \<Rightarrow> 'w wf" where
  "emit_error lost k error_type message =
     record_event lost (Error_raised k error_type (take 1000 message))"

subsection \<open>Step rows\<close>

definition begin_step_run :: "action \<Rightarrow> 'w wf \<Rightarrow> 'w wf" where
  "begin_step_run a st =
     st\<lparr>wf_steps := wf_steps st @
        [\<lparr>st_id = length (wf_steps st), st_action_id = ac_id a, st_ordinal = ac_ordinal a,
          st_kind = ac_type a, st_status = Running, st_input = ac_config a, st_output = None,
          st_error = None, st_ended = False\<rparr>]\<rparr>"

definition mark_step_status ::
  "nat \<Rightarrow> step_status \<Rightarrow> json option \<Rightarrow> string option \<Rightarrow> 'w wf \<Rightarrow> 'w wf" where
  "mark_step_status k status output error st =
     st\<lparr>wf_steps := map (\<lambda>r. if st_id r = k
          then r\<lparr>st_status := status,
                 st_ended := (if status \<in> {Succeeded, Step_failed} then True else st_ended r),
                 st_output := (if output = None then st_output r else output),
                 st_error := (if error = None then st_error r else error)\<rparr>
          else r) (wf_steps st)\<rparr>"

subsection \<open>The walk\<close>

datatype wf_error =
    Single_action
  | Unknown_step_kind string
  | Async_step_in_multi_step int string
  | Step_raised step_exc

text \<open>Everything the walk does not change.\<close>

record 'w wf_env =
  we_registry :: "'w registry"
  we_lost :: "run_event \<Rightarrow> bool"
  we_run_id :: uuid
  we_automation_id :: uuid
  we_automation_name :: string
  we_max_compute_tier :: json
  we_event_payload :: json

definition make_context :: "'w wf_env \<Rightarrow> action \<Rightarrow> json list \<Rightarrow> step_context" where
  "make_context env a prior =
     \<lparr>cx_run_id = we_run_id env, cx_automation_id = we_automation_id env,
      cx_automation_name = we_automation_name env, cx_max_compute_tier = we_max_compute_tier env,
      cx_action = a, cx_event_payload = we_event_payload env, cx_prior_outputs = prior\<rparr>"

text \<open>One step: the body of the loop up to the append of the output.\<close>

definition run_step ::
  "'w wf_env \<Rightarrow> action \<Rightarrow> json list \<Rightarrow> 'w wf \<Rightarrow> 'w wf \<times> (wf_error, step_result) result" where
  "run_step env a prior st =
     (case we_registry env (ac_type a) of
        None \<Rightarrow> (st, Inl (Unknown_step_kind (ac_type a)))
      | Some execute \<Rightarrow>
          (let k = length (wf_steps st);
               lost = we_lost env;
               st1 = emit_step_started lost k a (begin_step_run a st);
               (w, outcome) = execute (wf_world st1) (make_context env a prior);
               st2 = st1\<lparr>wf_world := w\<rparr>
           in case outcome of
             Inl (Contract_breach tool reason) \<Rightarrow>
               (emit_approval_requested lost k tool reason
                  (emit_step_finished lost k a Awaiting_approval None
                     (mark_step_status k Awaiting_approval None None st2)),
                Inl (Step_raised (Contract_breach tool reason)))
           | Inl (Step_exception type_name message repr) \<Rightarrow>
               (emit_error lost k type_name message
                  (emit_step_finished lost k a Step_failed None
                     (mark_step_status k Step_failed None (Some (take 1000 repr)) st2)),
                Inl (Step_raised (Step_exception type_name message repr)))
           | Inr result \<Rightarrow>
               if sr_async_handoff result
               then (emit_step_finished lost k a Step_failed None
                       (mark_step_status k Step_failed None
                          (Some ''phase A workflow engine refuses async-handoff steps'') st2),
                     Inl (Async_step_in_multi_step (ac_ordinal a) (ac_type a)))
               else (emit_step_finished lost k a Succeeded (sr_spend_usd result)
                       (mark_step_status k Succeeded (Some (sr_output result)) None st2),
                     Inr result)))"

text \<open>The ordinals a step's result makes the walk skip: those strictly between it and a later target
  that exists.\<close>

definition jump_skips :: "int list \<Rightarrow> int \<Rightarrow> step_result \<Rightarrow> int list" where
  "jump_skips sorted_ordinals ordinal result =
     (case sr_next_ordinal result of
        None \<Rightarrow> []
      | Some target \<Rightarrow>
          if target \<in> set sorted_ordinals \<and> target > ordinal
          then filter (\<lambda>skip_ord. ordinal < skip_ord \<and> skip_ord < target) sorted_ordinals
          else [])"

text \<open>The loop; its list argument is \<open>sorted_ordinals\<close> from the cursor on.\<close>

fun walk ::
  "'w wf_env \<Rightarrow> (int \<rightharpoonup> action) \<Rightarrow> int list \<Rightarrow> int list \<Rightarrow> int list \<Rightarrow> json list \<Rightarrow> json \<Rightarrow> 'w wf
   \<Rightarrow> 'w wf \<times> (wf_error, json) result" where
  "walk env by_ordinal sorted_ordinals skipped [] prior last_output st = (st, Inr last_output)"
| "walk env by_ordinal sorted_ordinals skipped (ordinal # rest) prior last_output st =
     (if ordinal \<in> set skipped
      then walk env by_ordinal sorted_ordinals skipped rest prior last_output st
      else (case run_step env (the (by_ordinal ordinal)) prior st of
         (st', Inl e) \<Rightarrow> (st', Inl e)
       | (st', Inr result) \<Rightarrow>
           walk env by_ordinal sorted_ordinals (skipped @ jump_skips sorted_ordinals ordinal result)
             rest (prior @ [sr_output result]) (sr_output result) st'))"

definition by_ordinal_of :: "action list \<Rightarrow> int \<rightharpoonup> action" where
  "by_ordinal_of actions = map_of (rev (map (\<lambda>a. (ac_ordinal a, a)) actions))"

definition sorted_ordinals_of :: "action list \<Rightarrow> int list" where
  "sorted_ordinals_of actions = sort (remdups (map ac_ordinal actions))"

definition execute_workflow ::
  "'w wf_env \<Rightarrow> action list \<Rightarrow> 'w wf \<Rightarrow> 'w wf \<times> (wf_error, json) result" where
  "execute_workflow env actions st =
     (if length actions \<le> 1 then (st, Inl Single_action)
      else walk env (by_ordinal_of actions) (sorted_ordinals_of actions) []
             (sorted_ordinals_of actions) [] (J_obj []) st)"

subsection \<open>The walk as a program with forward jumps\<close>

text \<open>The reference: a step's result either moves on to the next ordinal or jumps ahead to its target.  A
  target that does not exist or is not ahead is ignored.\<close>

function goto_walk ::
  "'w wf_env \<Rightarrow> (int \<rightharpoonup> action) \<Rightarrow> int list \<Rightarrow> json list \<Rightarrow> json \<Rightarrow> 'w wf \<Rightarrow> 'w wf \<times> (wf_error, json) result" where
  "goto_walk env by_ordinal [] prior last_output st = (st, Inr last_output)"
| "goto_walk env by_ordinal (ordinal # rest) prior last_output st =
     (case run_step env (the (by_ordinal ordinal)) prior st of
        (st', Inl e) \<Rightarrow> (st', Inl e)
      | (st', Inr result) \<Rightarrow>
          goto_walk env by_ordinal
            (case sr_next_ordinal result of
               None \<Rightarrow> rest
             | Some target \<Rightarrow> if target \<in> set rest then dropWhile (\<lambda>x. x < target) rest else rest)
            (prior @ [sr_output result]) (sr_output result) st')"
  by pat_completeness auto
termination
  by (relation "measure (\<lambda>(env, by_ordinal, ordinals, prior, last_output, st). length ordinals)")
    (auto simp: le_imp_less_Suc length_dropWhile_le split: option.splits)

lemma dropWhile_none: "\<forall>x \<in> set xs. \<not> P x \<Longrightarrow> dropWhile P xs = xs"
  by (cases xs) auto

text \<open>With the skipped ordinals of the rest below \<open>t\<close>, the loop with its skip set is the reference from
  \<open>t\<close> on.\<close>

lemma walk_eq_goto_walk:
  "all_ords = done_ords @ rest \<Longrightarrow> sorted_wrt (<) all_ords \<Longrightarrow>
   \<forall>x \<in> set rest. x \<in> set skipped \<longleftrightarrow> x < t \<Longrightarrow>
   walk env b all_ords skipped rest prior out st = goto_walk env b (dropWhile (\<lambda>x. x < t) rest) prior out st"
proof (induction rest arbitrary: done_ords skipped t prior out st)
  case (Cons ordinal rest)
  have ords: "all_ords = (done_ords @ [ordinal]) @ rest" using Cons.prems(1) by simp
  note IH = Cons.IH[OF ords Cons.prems(2)]
  show ?case
  proof (cases "ordinal < t")
    case True
    then show ?thesis using Cons.prems(3) IH[of skipped t] by simp
  next
    case False
    obtain st' res where step: "run_step env (the (b ordinal)) prior st = (st', res)" by fastforce
    show ?thesis
    proof (cases res)
      case (Inl e)
      with False step Cons.prems(3) show ?thesis by simp
    next
      case (Inr result)
      have later: "\<forall>x \<in> set rest. ordinal < x" and before: "\<forall>x \<in> set done_ords. x < ordinal"
        using Cons.prems(1,2) by (auto simp: sorted_wrt_append)
      have fresh: "\<forall>x \<in> set rest. x \<notin> set skipped" using Cons.prems(3) later False by auto
      define s' where "s' = skipped @ jump_skips all_ords ordinal result"
      define t' where "t' = (case sr_next_ordinal result of
          Some target \<Rightarrow> if target \<in> set rest then target else ordinal | None \<Rightarrow> ordinal)"
      have ahead: "target \<in> set all_ords \<and> ordinal < target \<longleftrightarrow> target \<in> set rest" for target
        using Cons.prems(1) before later by fastforce
      have "\<forall>x \<in> set rest. x \<in> set s' \<longleftrightarrow> x < t'"
        using fresh later Cons.prems(1) ahead
        by (auto simp: s'_def t'_def jump_skips_def split: option.splits)
      from IH[OF this] have "walk env b all_ords s' rest (prior @ [sr_output result]) (sr_output result) st' =
          goto_walk env b (dropWhile (\<lambda>x. x < t') rest) (prior @ [sr_output result]) (sr_output result) st'" .
      moreover have "dropWhile (\<lambda>x. x < t') rest = (case sr_next_ordinal result of None \<Rightarrow> rest
          | Some target \<Rightarrow> if target \<in> set rest then dropWhile (\<lambda>x. x < target) rest else rest)"
        using later by (auto simp: t'_def split: option.splits intro!: dropWhile_none)
      ultimately show ?thesis
        using False step Inr Cons.prems(3) by (simp add: s'_def)
    qed
  qed
qed simp

lemma sorted_ordinals_strict: "sorted_wrt (<) (sorted_ordinals_of actions)"
  by (simp add: sorted_ordinals_of_def strict_sorted_iff)

lemma engine_is_goto_program_eq:
  "execute_workflow env actions st =
     (if length actions \<le> 1 then (st, Inl Single_action)
      else goto_walk env (by_ordinal_of actions) (sorted_ordinals_of actions) [] (J_obj []) st)"
proof -
  obtain m where "\<forall>x \<in> set (sorted_ordinals_of actions). m \<le> x"
    using bdd_below_finite[of "set (sorted_ordinals_of actions)"] by (auto simp: bdd_below_def)
  then obtain t where t: "\<forall>x \<in> set (sorted_ordinals_of actions). t < x"
    using that[of "m - 1"] by fastforce
  then have "\<forall>x \<in> set (sorted_ordinals_of actions). x \<in> set [] \<longleftrightarrow> x < t" by fastforce
  moreover have "dropWhile (\<lambda>x. x < t) (sorted_ordinals_of actions) = sorted_ordinals_of actions"
    using t by (intro dropWhile_none) fastforce
  ultimately show ?thesis
    using walk_eq_goto_walk[where env = env and b = "by_ordinal_of actions" and done_ords = "[]"
        and all_ords = "sorted_ordinals_of actions" and rest = "sorted_ordinals_of actions"
        and skipped = "[]" and t = t and prior = "[]" and out = "J_obj []" and st = st]
    by (simp add: execute_workflow_def sorted_ordinals_strict)
qed

text \<open>C25: the engine's loop, with its cursor, its set of skipped ordinals and its scan for the ordinals a
  jump passes over, is the program with forward jumps: same steps, same rows, events and result.\<close>

theorem engine_is_goto_program:
  "execute_workflow env actions st =
     (if length actions \<le> 1 then (st, Inl Single_action)
      else goto_walk env (by_ordinal_of actions) (sorted_ordinals_of actions) [] (J_obj []) st)"
  by (rule engine_is_goto_program_eq)

subsection \<open>Failing event writes\<close>

definition filter_log :: "(run_event \<Rightarrow> bool) \<Rightarrow> 'w wf \<Rightarrow> 'w wf" where
  "filter_log lost st = st\<lparr>wf_events := filter (\<lambda>e. \<not> lost e) (wf_events st)\<rparr>"

lemma filter_log_simps [simp]:
  "wf_steps (filter_log lost st) = wf_steps st" "wf_world (filter_log lost st) = wf_world st"
  "record_event lost ev (filter_log lost st) = filter_log lost (record_event (\<lambda>_. False) ev st)"
  "begin_step_run a (filter_log lost st) = filter_log lost (begin_step_run a st)"
  "mark_step_status k s out err (filter_log lost st) = filter_log lost (mark_step_status k s out err st)"
  "(filter_log lost st)\<lparr>wf_world := w\<rparr> = filter_log lost (st\<lparr>wf_world := w\<rparr>)"
  by (simp_all add: filter_log_def record_event_def begin_step_run_def mark_step_status_def)

lemma run_step_filter_log:
  "run_step (env\<lparr>we_lost := lost\<rparr>) a prior (filter_log lost st) =
     (case run_step (env\<lparr>we_lost := \<lambda>_. False\<rparr>) a prior st of (st', res) \<Rightarrow> (filter_log lost st', res))"
  unfolding run_step_def Let_def
  by (auto simp: emit_step_started_def emit_step_finished_def emit_approval_requested_def emit_error_def
      make_context_def split: option.splits prod.splits sum.splits step_exc.splits)

lemma walk_filter_log:
  "walk (env\<lparr>we_lost := lost\<rparr>) b ords skipped rest prior out (filter_log lost st) =
     (case walk (env\<lparr>we_lost := \<lambda>_. False\<rparr>) b ords skipped rest prior out st of
        (st', res) \<Rightarrow> (filter_log lost st', res))"
  by (induction rest arbitrary: skipped prior out st)
    (auto simp: run_step_filter_log split: prod.splits sum.splits)

text \<open>the event log is observability, not control: when any event writes fail, the step rows, the
  world and the result of the run are those of a run without failures, and the log is that run's log
  without the lost events.\<close>

theorem lost_events_change_nothing:
  "execute_workflow (env\<lparr>we_lost := lost\<rparr>) actions (filter_log lost st) =
     (case execute_workflow (env\<lparr>we_lost := \<lambda>_. False\<rparr>) actions st of
        (st', res) \<Rightarrow> (filter_log lost st', res))"
  by (simp add: execute_workflow_def walk_filter_log)

subsection \<open>What a run leaves behind\<close>

text \<open>How a run's error shows in the row of its last step; \<open>None\<close> when the error starts no step.\<close>

fun failure_status :: "wf_error \<Rightarrow> step_status option" where
  "failure_status Single_action = None"
| "failure_status (Unknown_step_kind _) = None"
| "failure_status (Async_step_in_multi_step _ _) = Some Step_failed"
| "failure_status (Step_raised (Contract_breach _ _)) = Some Awaiting_approval"
| "failure_status (Step_raised (Step_exception _ _ _)) = Some Step_failed"

definition row_of :: "nat \<Rightarrow> action \<Rightarrow> step_status \<Rightarrow> json option \<Rightarrow> string option \<Rightarrow> step_row" where
  "row_of k a status out err =
     \<lparr>st_id = k, st_action_id = ac_id a, st_ordinal = ac_ordinal a, st_kind = ac_type a,
      st_status = status, st_input = ac_config a, st_output = out, st_error = err,
      st_ended = (status \<in> {Succeeded, Step_failed})\<rparr>"

definition ids_ok :: "'w wf \<Rightarrow> bool" where
  "ids_ok st \<longleftrightarrow> map st_id (wf_steps st) = [0..<length (wf_steps st)]"

lemma mark_new_row:
  assumes "ids_ok st"
  shows "wf_steps (mark_step_status (length (wf_steps st)) status out err (begin_step_run a st\<lparr>wf_world := w\<rparr>)) =
     wf_steps st @ [row_of (length (wf_steps st)) a status out err]"
proof -
  have "set (map st_id (wf_steps st)) = {0..<length (wf_steps st)}"
    using assms by (simp add: ids_ok_def del: set_map)
  then have "st_id r < length (wf_steps st)" if "r \<in> set (wf_steps st)" for r
    using that by (metis atLeastLessThan_iff image_eqI list.set_map)
  then have "\<forall>r \<in> set (wf_steps st). st_id r \<noteq> length (wf_steps st)" by fastforce
  then show ?thesis
    by (auto simp: mark_step_status_def begin_step_run_def row_of_def map_idI)
qed

lemma record_event_steps [simp]:
  "wf_steps (record_event lost ev st) = wf_steps st"
  "mark_step_status k s out err (record_event lost ev st) = record_event lost ev (mark_step_status k s out err st)"
  "(record_event lost ev st)\<lparr>wf_world := w\<rparr> = record_event lost ev (st\<lparr>wf_world := w\<rparr>)"
  by (simp_all add: record_event_def mark_step_status_def)

lemmas emit_defs = emit_step_started_def emit_step_finished_def emit_approval_requested_def emit_error_def

text \<open>The row a step adds, on each of its outcomes.\<close>

lemma run_step_rows:
  assumes "ids_ok st" and "run_step env a prior st = (st', res)"
  shows "case res of
      Inr result \<Rightarrow> wf_steps st' =
        wf_steps st @ [row_of (length (wf_steps st)) a Succeeded (Some (sr_output result)) None]
    | Inl e \<Rightarrow> (case failure_status e of
        None \<Rightarrow> wf_steps st' = wf_steps st
      | Some s \<Rightarrow> \<exists>err. wf_steps st' = wf_steps st @ [row_of (length (wf_steps st)) a s None err])"
  using assms mark_new_row[OF assms(1)]
  by (auto simp: run_step_def Let_def emit_defs split: option.splits prod.splits sum.splits
      step_exc.splits if_splits)

text \<open>The rows of a run, in order: ids in sequence, ordinals strictly increasing, all but the last
  succeeded; the last one shows how the run ended.\<close>

definition run_ok :: "step_row list \<Rightarrow> (wf_error, json) result \<Rightarrow> bool" where
  "run_ok rows res \<longleftrightarrow>
     map st_id rows = [0..<length rows] \<and> sorted_wrt (<) (map st_ordinal rows)
     \<and> list_all (\<lambda>r. st_status r = Succeeded) (butlast rows)
     \<and> (case res of
          Inr out \<Rightarrow> rows \<noteq> [] \<and> st_status (last rows) = Succeeded \<and> st_output (last rows) = Some out
        | Inl e \<Rightarrow> (case failure_status e of
            None \<Rightarrow> list_all (\<lambda>r. st_status r = Succeeded) rows
          | Some s \<Rightarrow> rows \<noteq> [] \<and> st_status (last rows) = s))"

definition so_far_ok :: "step_row list \<Rightarrow> int list \<Rightarrow> json \<Rightarrow> bool" where
  "so_far_ok rows rest out \<longleftrightarrow>
     map st_id rows = [0..<length rows] \<and> sorted_wrt (<) (map st_ordinal rows @ rest)
     \<and> list_all (\<lambda>r. st_status r = Succeeded) rows
     \<and> (rows \<noteq> [] \<longrightarrow> st_output (last rows) = Some out)"

lemma so_far_ok_step:
  "so_far_ok rows (n # rest) out \<Longrightarrow> ac_ordinal a = n \<Longrightarrow> sublist rest' rest \<Longrightarrow>
     so_far_ok (rows @ [row_of (length rows) a Succeeded (Some out') None]) rest' out'"
  by (auto simp: so_far_ok_def row_of_def sorted_wrt_append sublist_def)

lemma so_far_ok_fail:
  "so_far_ok rows (n # rest) out \<Longrightarrow> ac_ordinal a = n \<Longrightarrow> failure_status e = Some s \<Longrightarrow>
     run_ok (rows @ [row_of (length rows) a s None err]) (Inl e)"
  by (auto simp: so_far_ok_def run_ok_def row_of_def sorted_wrt_append)

lemma goto_rest_sublist:
  "sublist (case n of None \<Rightarrow> rest
      | Some target \<Rightarrow> if target \<in> set rest then dropWhile (\<lambda>x. x < target) rest else rest) rest"
  by (auto split: option.splits intro: suffix_imp_sublist suffix_dropWhile)

lemma goto_walk_run_ok:
  "so_far_ok (wf_steps st) rest out \<Longrightarrow> wf_steps st \<noteq> [] \<or> rest \<noteq> [] \<Longrightarrow>
   (\<And>o'. o' \<in> set rest \<Longrightarrow> ac_ordinal (the (b o')) = o') \<Longrightarrow>
   goto_walk env b rest prior out st = (st', res) \<Longrightarrow> run_ok (wf_steps st') res"
proof (induction env b rest prior out st rule: goto_walk.induct)
  case (1 env b prior out st)
  then show ?case by (auto simp: so_far_ok_def run_ok_def list_all_iff dest: in_set_butlastD)
next
  case (2 env b ordinal rest prior out st)
  obtain st1 r where step: "run_step env (the (b ordinal)) prior st = (st1, r)" by fastforce
  have ids: "ids_ok st" using 2(2) by (simp add: so_far_ok_def ids_ok_def)
  have ord: "ac_ordinal (the (b ordinal)) = ordinal" using 2(4) by simp
  note rows = run_step_rows[OF ids step]
  show ?case
  proof (cases r)
    case (Inl e)
    then have fin: "st' = st1" "res = Inl e" using 2(5) step by auto
    show ?thesis
    proof (cases "failure_status e")
      case None
      with rows Inl fin 2(2) show ?thesis
        by (auto simp: so_far_ok_def run_ok_def sorted_wrt_append list_all_iff dest: in_set_butlastD)
    next
      case (Some s)
      with rows Inl obtain err where "wf_steps st1 = wf_steps st @ [row_of (length (wf_steps st)) (the (b ordinal)) s None err]"
        by auto
      with so_far_ok_fail[OF 2(2) ord Some] fin show ?thesis by simp
    qed
  next
    case (Inr result)
    let ?rest = "case sr_next_ordinal result of None \<Rightarrow> rest
      | Some target \<Rightarrow> if target \<in> set rest then dropWhile (\<lambda>x. x < target) rest else rest"
    have "so_far_ok (wf_steps st1) ?rest (sr_output result)"
      using so_far_ok_step[OF 2(2) ord goto_rest_sublist] rows Inr by simp
    moreover have "wf_steps st1 \<noteq> [] \<or> ?rest \<noteq> []" using rows Inr by simp
    moreover have "\<And>o'. o' \<in> set ?rest \<Longrightarrow> ac_ordinal (the (b o')) = o'"
      using 2(4) set_mono_sublist[OF goto_rest_sublist] by fastforce
    ultimately show ?thesis
      using 2(1)[OF step[symmetric] Inr] 2(5) step Inr by simp
  qed
qed

text \<open>Every row is a step of the action at its ordinal.\<close>

definition rows_from :: "(int \<rightharpoonup> action) \<Rightarrow> int list \<Rightarrow> step_row list \<Rightarrow> bool" where
  "rows_from b ords rows \<longleftrightarrow>
     list_all (\<lambda>r. st_ordinal r \<in> set ords \<and> st_action_id r = ac_id (the (b (st_ordinal r)))
        \<and> st_kind r = ac_type (the (b (st_ordinal r)))) rows"

lemma run_step_append:
  assumes "ids_ok st" and "run_step env a prior st = (st', res)"
  obtains "wf_steps st' = wf_steps st"
  | s out err where "wf_steps st' = wf_steps st @ [row_of (length (wf_steps st)) a s out err]"
  using run_step_rows[OF assms] by (auto split: sum.splits option.splits)

lemma run_step_ids: "ids_ok st \<Longrightarrow> run_step env a prior st = (st', res) \<Longrightarrow> ids_ok st'"
  by (rule run_step_append[of st env a prior st' res]) (auto simp: ids_ok_def row_of_def)

lemma goto_walk_rows_from:
  "ids_ok st \<Longrightarrow> set rest \<subseteq> set ords \<Longrightarrow> (\<And>n. n \<in> set ords \<Longrightarrow> ac_ordinal (the (b n)) = n) \<Longrightarrow>
   rows_from b ords (wf_steps st) \<Longrightarrow> goto_walk env b rest prior out st = (st', res) \<Longrightarrow>
   rows_from b ords (wf_steps st')"
proof (induction env b rest prior out st rule: goto_walk.induct)
  case (2 env b ordinal rest prior out st)
  obtain st1 r where step: "run_step env (the (b ordinal)) prior st = (st1, r)" by fastforce
  have rows: "rows_from b ords (wf_steps st1)"
    using 2(2-5) by (rule_tac run_step_append[OF 2(2) step]) (auto simp: rows_from_def row_of_def)
  show ?case
  proof (cases r)
    case (Inl e)
    with rows step 2(6) show ?thesis by auto
  next
    case (Inr result)
    have "set (case sr_next_ordinal result of None \<Rightarrow> rest
        | Some target \<Rightarrow> if target \<in> set rest then dropWhile (\<lambda>x. x < target) rest else rest) \<subseteq> set ords"
      using 2(3) set_mono_sublist[OF goto_rest_sublist[where n = "sr_next_ordinal result" and rest = rest]] by force
    with 2(1)[OF step[symmetric] Inr run_step_ids[OF 2(2) step]] 2(4,6) rows step Inr show ?thesis
      by simp
  qed
qed simp

lemma by_ordinal_of_ordinal:
  assumes "n \<in> set (sorted_ordinals_of actions)"
  shows "ac_ordinal (the (by_ordinal_of actions n)) = n \<and> the (by_ordinal_of actions n) \<in> set actions"
proof -
  have "n \<in> fst ` set (rev (map (\<lambda>a. (ac_ordinal a, a)) actions))"
    using assms by (force simp: sorted_ordinals_of_def)
  then obtain a where "by_ordinal_of actions n = Some a"
    unfolding by_ordinal_of_def by (metis map_of_eq_None_iff not_None_eq)
  moreover from this have "(n, a) \<in> set (rev (map (\<lambda>a. (ac_ordinal a, a)) actions))"
    unfolding by_ordinal_of_def by (rule map_of_SomeD)
  ultimately show ?thesis by auto
qed

lemma sorted_ordinals_ne: "actions \<noteq> [] \<Longrightarrow> sorted_ordinals_of actions \<noteq> []"
proof -
  assume "actions \<noteq> []"
  then have "set (sorted_ordinals_of actions) \<noteq> {}" by (simp add: sorted_ordinals_of_def)
  then show ?thesis by fastforce
qed

text \<open>The rows of a run.  A run of a multi-step automation executes each action at most once, in
  strictly increasing order of ordinal, and leaves one row per executed step; every row before the
  last succeeded, no row is left running, the result is the output of the last step, and when the
  run raises the last row is failed (an exception, an asynchronous step) or awaits approval (a
  contract breach).\<close>

theorem workflow_rows:
  assumes "execute_workflow env actions st = (st', res)" and "wf_steps st = []" and "1 < length actions"
  shows "run_ok (wf_steps st') res
    \<and> list_all (\<lambda>r. \<exists>a \<in> set actions. st_action_id r = ac_id a \<and> st_ordinal r = ac_ordinal a
         \<and> st_kind r = ac_type a) (wf_steps st')"
proof -
  let ?o = "sorted_ordinals_of actions" and ?b = "by_ordinal_of actions"
  have go: "goto_walk env ?b ?o [] (J_obj []) st = (st', res)"
    using assms by (simp add: engine_is_goto_program_eq)
  have "so_far_ok (wf_steps st) ?o (J_obj [])"
    using assms(2) sorted_ordinals_strict by (simp add: so_far_ok_def)
  moreover have "?o \<noteq> []" using assms(3) by (intro sorted_ordinals_ne) auto
  ultimately have "run_ok (wf_steps st') res"
    using goto_walk_run_ok[OF _ _ _ go] by_ordinal_of_ordinal by blast
  moreover have "rows_from ?b ?o (wf_steps st')"
    using goto_walk_rows_from[OF _ _ _ _ go, of ?o] assms(2) by_ordinal_of_ordinal
    by (simp add: ids_ok_def rows_from_def)
  then have "list_all (\<lambda>r. \<exists>a \<in> set actions. st_action_id r = ac_id a \<and> st_ordinal r = ac_ordinal a
         \<and> st_kind r = ac_type a) (wf_steps st')"
    using by_ordinal_of_ordinal by (fastforce simp: rows_from_def list_all_iff)
  ultimately show ?thesis by simp
qed

subsection \<open>The log of a run\<close>

fun ev_shape :: "run_event \<Rightarrow> (nat \<times> step_status option) option" where
  "ev_shape (Step_started k _ _) = Some (k, None)"
| "ev_shape (Step_finished k _ _ s _) = Some (k, Some s)"
| "ev_shape _ = None"

definition step_log :: "run_event list \<Rightarrow> (nat \<times> step_status option) list" where
  "step_log evs = concat (map (\<lambda>e. case ev_shape e of None \<Rightarrow> [] | Some x \<Rightarrow> [x]) evs)"

definition log_of_rows :: "step_row list \<Rightarrow> (nat \<times> step_status option) list" where
  "log_of_rows rows = concat (map (\<lambda>r. [(st_id r, None), (st_id r, Some (st_status r))]) rows)"

lemma mark_step_status_events [simp]:
  "wf_events (mark_step_status k s out err st) = wf_events st"
  by (simp add: mark_step_status_def)

lemma begin_step_run_events [simp]: "wf_events (begin_step_run a st) = wf_events st"
  by (simp add: begin_step_run_def)

lemma run_step_log:
  assumes "ids_ok st" and "we_lost env = (\<lambda>_. False)" and "run_step env a prior st = (st', res)"
    and "step_log (wf_events st) = log_of_rows (wf_steps st)"
  shows "step_log (wf_events st') = log_of_rows (wf_steps st')"
proof -
  let ?k = "length (wf_steps st)"
  have "step_log (wf_events st') = step_log (wf_events st) @ (case res of
      Inr result \<Rightarrow> [(?k, None), (?k, Some Succeeded)]
    | Inl e \<Rightarrow> (case failure_status e of None \<Rightarrow> [] | Some s \<Rightarrow> [(?k, None), (?k, Some s)]))"
    using assms(2,3) unfolding run_step_def Let_def emit_defs record_event_def
    by (auto simp: step_log_def split: option.splits prod.splits sum.splits step_exc.splits if_splits)
  with run_step_rows[OF assms(1,3)] assms(4) show ?thesis
    by (auto simp: log_of_rows_def row_of_def split: sum.splits option.splits)
qed

lemma goto_walk_log:
  "ids_ok st \<Longrightarrow> we_lost env = (\<lambda>_. False) \<Longrightarrow> goto_walk env b rest prior out st = (st', res) \<Longrightarrow>
   step_log (wf_events st) = log_of_rows (wf_steps st) \<Longrightarrow>
   step_log (wf_events st') = log_of_rows (wf_steps st')"
proof (induction env b rest prior out st rule: goto_walk.induct)
  case (2 env b ordinal rest prior out st)
  obtain st1 r where step: "run_step env (the (b ordinal)) prior st = (st1, r)" by fastforce
  show ?case
  proof (cases r)
    case (Inl e)
    with run_step_log[OF 2(2,3) step 2(5)] 2(4) step show ?thesis by auto
  next
    case (Inr result)
    with 2(1)[OF step[symmetric] Inr run_step_ids[OF 2(2) step] 2(3)] 2(4)
      run_step_log[OF 2(2,3) step 2(5)] step show ?thesis by simp
  qed
qed simp

text \<open>the log brackets the steps.  When no event write fails, the step events of a run are, for each
  row in order, one start and one finish with the status of the row: no step is reported twice,
  left open, or finished with another status than its row has.\<close>

theorem workflow_log:
  assumes "execute_workflow env actions st = (st', res)" and "we_lost env = (\<lambda>_. False)"
    and "wf_steps st = []" and "wf_events st = []"
  shows "step_log (wf_events st') = log_of_rows (wf_steps st')"
proof (cases "length actions \<le> 1")
  case True
  with assms show ?thesis by (simp add: execute_workflow_def step_log_def log_of_rows_def)
next
  case False
  then have "goto_walk env (by_ordinal_of actions) (sorted_ordinals_of actions) [] (J_obj []) st = (st', res)"
    using assms(1) by (simp add: engine_is_goto_program_eq)
  from goto_walk_log[OF _ assms(2) this] assms(3,4) show ?thesis
    by (simp add: ids_ok_def step_log_def log_of_rows_def)
qed

subsection \<open>A run\<close>

text \<open>Three actions: one that always succeeds and asks to jump to ordinal 5, one at ordinal 3 that is
  passed over, and one at 5 that breaches its contract.\<close>

definition w_actions :: "action list" where
  "w_actions = [\<lparr>ac_id = 11, ac_ordinal = 1, ac_type = ''branch'', ac_config = J_null, ac_app_action_id = None,
        ac_parent_action_id = None, ac_branch_condition = J_null\<rparr>,
     \<lparr>ac_id = 13, ac_ordinal = 3, ac_type = ''deliver'', ac_config = J_null, ac_app_action_id = None,
        ac_parent_action_id = None, ac_branch_condition = J_null\<rparr>,
     \<lparr>ac_id = 15, ac_ordinal = 5, ac_type = ''agent.run'', ac_config = J_null, ac_app_action_id = None,
        ac_parent_action_id = None, ac_branch_condition = J_null\<rparr>]"

definition w_registry :: "nat registry" where
  "w_registry = [''branch'' \<mapsto> (\<lambda>w ctx. (w + 1, Inr \<lparr>sr_output = J_str ''jump'', sr_async_handoff = False,
        sr_spend_usd = None, sr_next_ordinal = Some 5\<rparr>)),
     ''agent.run'' \<mapsto> (\<lambda>w ctx. (w, Inl (Contract_breach (Some ''bash'') None)))]"

definition w_env :: "nat wf_env" where
  "w_env = \<lparr>we_registry = w_registry, we_lost = (\<lambda>_. False), we_run_id = 1, we_automation_id = 2,
     we_automation_name = ''w'', we_max_compute_tier = J_int 0, we_event_payload = J_obj []\<rparr>"

definition w_start :: "nat wf" where
  "w_start = \<lparr>wf_steps = [], wf_events = [], wf_world = 0\<rparr>"

theorem workflow_rows_witness:
  "run_ok (wf_steps (fst (execute_workflow w_env w_actions w_start))) (snd (execute_workflow w_env w_actions w_start))"
  using workflow_rows[OF prod.collapse[symmetric], of w_start w_actions w_env]
  by (simp add: w_start_def w_actions_def)

theorem workflow_log_witness:
  "step_log (wf_events (fst (execute_workflow w_env w_actions w_start)))
     = log_of_rows (wf_steps (fst (execute_workflow w_env w_actions w_start)))"
  by (rule workflow_log[OF prod.collapse[symmetric]]) (simp_all add: w_env_def w_start_def)

lemma w_run_rows:
  "map st_ordinal (wf_steps (fst (execute_workflow w_env w_actions w_start))) = [1, 5]
   \<and> wf_world (fst (execute_workflow w_env w_actions w_start)) = 1"
  by code_simp

end
