(* ===== verification/Workflow_Versions.thy ===== *)
theory Workflow_Versions
  imports Workflow "HOL-Library.List_Lexorder" "HOL-Library.Char_ord"
begin

text \<open>
  Versions of a workflow (\<open>services/workflows/versions.py\<close>): the snapshot of a definition and its rows,
  its canonical hash, the writer that inserts a new generation or finds the one with the same
  content, and the reader that gives the engine its actions back.  SHA-256 is an argument, a
  function from canonical JSON to text; theorems that need it assume it has no collisions.

  \<open>snapshot_read\<close> and \<open>snapshot_flush\<close> are the two halves of \<open>snapshot_definition_to_version\<close>, before
  and after the insert reaches the database; another worker may run between them.
\<close>

subsection \<open>Definitions and their rows\<close>

record trigger =
  tr_id :: uuid
  tr_kind :: string
  tr_config :: json
  tr_is_active :: bool
  tr_created_at :: instant

record delivery_target =
  dt_id :: uuid
  dt_destination_id :: uuid
  dt_ordinal :: int
  dt_on_failure :: json
  dt_artifact_filter :: string

text \<open>A decimal column holds the value last assigned to it as the snapshot serializes it: a number read from
  the database as the text \<open>str\<close> gives, a JSON value as it is.\<close>

record automation =
  ad_id :: uuid
  ad_name :: string
  ad_contract :: json
  ad_max_compute_tier :: "int option"
  ad_max_spend_per_run :: json
  ad_max_spend_per_day :: json
  ad_compute_profile :: "string option"
  ad_workspace_scope :: "string option"
  ad_head_version_id :: "uuid option"

record version =
  wv_id :: uuid
  wv_automation_id :: uuid
  wv_generation :: int
  wv_parent_version_id :: "uuid option"
  wv_payload :: json_dict
  wv_payload_sha256 :: string
  wv_rationale :: "string option"

record workflow_db =
  t_actions :: "(uuid \<times> action) list"
  t_triggers :: "(uuid \<times> trigger) list"
  t_targets :: "(uuid \<times> delivery_target) list"
  t_versions :: "version list"

subsection \<open>The snapshot\<close>

definition or_empty :: "json \<Rightarrow> json" where
  "or_empty v = py_or v (J_obj [])"

definition opt_uuid :: "uuid option \<Rightarrow> json" where
  "opt_uuid u = (case u of None \<Rightarrow> J_null | Some x \<Rightarrow> J_str (uuid_str x))"

definition action_dict :: "action \<Rightarrow> json" where
  "action_dict a = J_obj
     [(''id'', J_str (uuid_str (ac_id a))), (''ordinal'', J_int (ac_ordinal a)),
      (''action_type'', J_str (ac_type a)), (''config'', or_empty (ac_config a)),
      (''app_action_id'', opt_uuid (ac_app_action_id a)),
      (''parent_action_id'', opt_uuid (ac_parent_action_id a)),
      (''branch_condition'', ac_branch_condition a)]"

definition trigger_dict :: "trigger \<Rightarrow> json" where
  "trigger_dict t = J_obj
     [(''id'', J_str (uuid_str (tr_id t))), (''kind'', J_str (tr_kind t)),
      (''config'', or_empty (tr_config t)), (''is_active'', J_bool (tr_is_active t))]"

definition target_dict :: "delivery_target \<Rightarrow> json" where
  "target_dict d = J_obj
     [(''id'', J_str (uuid_str (dt_id d))), (''destination_id'', J_str (uuid_str (dt_destination_id d))),
      (''ordinal'', J_int (dt_ordinal d)), (''on_failure'', or_empty (dt_on_failure d)),
      (''artifact_filter'', J_str (dt_artifact_filter d))]"

definition rows_of :: "uuid \<Rightarrow> ('a \<Rightarrow> 'k :: linorder) \<Rightarrow> (uuid \<times> 'a) list \<Rightarrow> 'a list" where
  "rows_of aid key table = sort_key key (map snd (filter (\<lambda>r. fst r = aid) table))"

definition opt_str :: "string option \<Rightarrow> json" where
  "opt_str s = (case s of None \<Rightarrow> J_null | Some x \<Rightarrow> J_str x)"

definition build_payload :: "workflow_db \<Rightarrow> automation \<Rightarrow> json_dict" where
  "build_payload db defn =
     [(''contract'', or_empty (ad_contract defn)),
      (''max_compute_tier'', J_int (case ad_max_compute_tier defn of None \<Rightarrow> 0 | Some n \<Rightarrow> n)),
      (''max_spend_per_run_usd'', ad_max_spend_per_run defn),
      (''max_spend_per_day_usd'', ad_max_spend_per_day defn),
      (''compute_profile'', py_or (opt_str (ad_compute_profile defn)) (J_str ''persistent_workspace'')),
      (''workspace_scope'', py_or (opt_str (ad_workspace_scope defn)) (J_str ''none'')),
      (''name'', J_str (ad_name defn)),
      (''actions'', J_list (map action_dict (rows_of (ad_id defn) ac_ordinal (t_actions db)))),
      (''triggers'', J_list (map trigger_dict (rows_of (ad_id defn) tr_created_at (t_triggers db)))),
      (''delivery_targets'', J_list (map target_dict (rows_of (ad_id defn) dt_ordinal (t_targets db))))]"

text \<open>\<open>json.dumps(payload, sort_keys=True)\<close> distinguishes values up to the order of their keys.\<close>

fun canon :: "json \<Rightarrow> json" where
  "canon (J_list xs) = J_list (map canon xs)"
| "canon (J_obj d) = J_obj (sort_key fst (map (\<lambda>kv. (fst kv, canon (snd kv))) d))"
| "canon v = v"

definition canonical_sha256 :: "(json \<Rightarrow> string) \<Rightarrow> json_dict \<Rightarrow> string" where
  "canonical_sha256 sha256 payload = sha256 (canon (J_obj payload))"

subsection \<open>The writer\<close>

definition version_with_sha :: "version list \<Rightarrow> uuid \<Rightarrow> string \<Rightarrow> version option" where
  "version_with_sha versions aid sha =
     find (\<lambda>v. wv_automation_id v = aid \<and> wv_payload_sha256 v = sha) versions"

definition latest_version :: "version list \<Rightarrow> uuid \<Rightarrow> version option" where
  "latest_version versions aid =
     (case filter (\<lambda>v. wv_automation_id v = aid) versions of
        [] \<Rightarrow> None
      | v # vs \<Rightarrow> Some (fold (\<lambda>x best. if wv_generation best < wv_generation x then x else best) vs v))"

datatype snapshot_plan =
    Found version
  | Insert version

definition snapshot_read ::
  "(json \<Rightarrow> string) \<Rightarrow> workflow_db \<Rightarrow> automation \<Rightarrow> uuid \<Rightarrow> string option \<Rightarrow> snapshot_plan" where
  "snapshot_read sha256 db defn new_id rationale =
     (let payload = build_payload db defn; sha = canonical_sha256 sha256 payload
      in case version_with_sha (t_versions db) (ad_id defn) sha of
           Some existing \<Rightarrow> Found existing
         | None \<Rightarrow>
             (let parent = latest_version (t_versions db) (ad_id defn);
                  next_generation = (case parent of None \<Rightarrow> 1 | Some p \<Rightarrow> wv_generation p + 1)
              in Insert \<lparr>wv_id = new_id, wv_automation_id = ad_id defn, wv_generation = next_generation,
                         wv_parent_version_id = map_option wv_id parent, wv_payload = payload,
                         wv_payload_sha256 = sha, wv_rationale = rationale\<rparr>))"

text \<open>The flush: the unique key on automation and hash refuses the row when another worker has inserted
  the same content since the read; then that worker's row is the result.\<close>

definition snapshot_flush :: "version list \<Rightarrow> snapshot_plan \<Rightarrow> version list \<times> version \<times> bool" where
  "snapshot_flush versions plan =
     (case plan of
        Found existing \<Rightarrow> (versions, existing, False)
      | Insert v \<Rightarrow>
          (case version_with_sha versions (wv_automation_id v) (wv_payload_sha256 v) of
             Some winner \<Rightarrow> (versions, winner, False)
           | None \<Rightarrow> (versions @ [v], v, True)))"

definition set_head :: "bool \<Rightarrow> version \<Rightarrow> automation \<Rightarrow> automation" where
  "set_head update_head v defn =
     (if update_head then defn\<lparr>ad_head_version_id := Some (wv_id v)\<rparr> else defn)"

definition snapshot_definition ::
  "(json \<Rightarrow> string) \<Rightarrow> workflow_db \<Rightarrow> automation \<Rightarrow> uuid \<Rightarrow> string option \<Rightarrow> bool
   \<Rightarrow> workflow_db \<times> automation \<times> version \<times> bool" where
  "snapshot_definition sha256 db defn new_id rationale update_head =
     (let (versions, v, inserted) = snapshot_flush (t_versions db) (snapshot_read sha256 db defn new_id rationale)
      in (db\<lparr>t_versions := versions\<rparr>, set_head update_head v defn, v, inserted))"

definition version_by_id :: "version list \<Rightarrow> uuid \<Rightarrow> version option" where
  "version_by_id versions k = find (\<lambda>v. wv_id v = k) versions"

definition get_head_version :: "workflow_db \<Rightarrow> automation option \<Rightarrow> version option" where
  "get_head_version db defn =
     (case defn of None \<Rightarrow> None
      | Some d \<Rightarrow> (case ad_head_version_id d of None \<Rightarrow> None | Some k \<Rightarrow> version_by_id (t_versions db) k))"

definition ensure_head_version ::
  "(json \<Rightarrow> string) \<Rightarrow> workflow_db \<Rightarrow> automation \<Rightarrow> uuid \<Rightarrow> workflow_db \<times> automation \<times> version" where
  "ensure_head_version sha256 db defn new_id =
     (case get_head_version db (Some defn) of
        Some existing \<Rightarrow> (db, defn, existing)
      | None \<Rightarrow>
          (let (db', defn', v, inserted) = snapshot_definition sha256 db defn new_id
                 (Some ''G1 bootstrap (lazy-created on first dispatch)'') True
           in (db', defn', v)))"

subsection \<open>The reader\<close>

text \<open>One entry of the payload: skipped when it is no dict; \<open>None\<close> when a conversion raises.  \<open>str_of\<close> is
  \<open>str\<close> of a value that is no string.\<close>

definition json_str :: "(json \<Rightarrow> string) \<Rightarrow> json \<Rightarrow> string" where
  "json_str str_of v = (case v of J_str s \<Rightarrow> s | _ \<Rightarrow> str_of v)"

definition read_opt_uuid :: "(json \<Rightarrow> string) \<Rightarrow> json \<Rightarrow> uuid option option" where
  "read_opt_uuid str_of v =
     (if truthy v then map_option Some (parse_uuid (json_str str_of v)) else Some None)"

definition materialize_entry :: "(json \<Rightarrow> string) \<Rightarrow> uuid \<Rightarrow> json_dict \<Rightarrow> action option" where
  "materialize_entry str_of fresh entry =
     (case (int_of_json (jget_default entry ''ordinal'' (J_int 0)), or_empty (jget entry ''config''),
            read_opt_uuid str_of (jget entry ''app_action_id''),
            read_opt_uuid str_of (jget entry ''parent_action_id'')) of
        (Some ordinal, J_obj config, Some app_action_id, Some parent_action_id) \<Rightarrow>
          Some \<lparr>ac_id = (case parse_uuid (json_str str_of (jget entry ''id'')) of None \<Rightarrow> fresh | Some u \<Rightarrow> u),
                ac_ordinal = ordinal,
                ac_type = json_str str_of (jget_default entry ''action_type'' (J_str '''')),
                ac_config = J_obj config, ac_app_action_id = app_action_id,
                ac_parent_action_id = parent_action_id,
                ac_branch_condition = jget entry ''branch_condition''\<rparr>
      | _ \<Rightarrow> None)"

fun materialize_entries :: "(json \<Rightarrow> string) \<Rightarrow> (nat \<Rightarrow> uuid) \<Rightarrow> nat \<Rightarrow> json list \<Rightarrow> action list option" where
  "materialize_entries str_of fresh n [] = Some []"
| "materialize_entries str_of fresh n (J_obj entry # rest) =
     (case materialize_entry str_of (fresh n) entry of
        None \<Rightarrow> None
      | Some a \<Rightarrow> map_option ((#) a) (materialize_entries str_of fresh (Suc n) rest))"
| "materialize_entries str_of fresh n (_ # rest) = materialize_entries str_of fresh (Suc n) rest"

definition materialize_actions ::
  "(json \<Rightarrow> string) \<Rightarrow> (nat \<Rightarrow> uuid) \<Rightarrow> version \<Rightarrow> action list option" where
  "materialize_actions str_of fresh v =
     map_option (sort_key ac_ordinal)
       (materialize_entries str_of fresh 0
          (case jget (wv_payload v) ''actions'' of J_list xs \<Rightarrow> xs | _ \<Rightarrow> []))"

text \<open>The actions \<open>execute_workflow\<close> walks: those of the version the run is bound to, or the live rows when
  it is bound to none or to one that is gone.\<close>

definition live_actions :: "workflow_db \<Rightarrow> uuid \<Rightarrow> action list" where
  "live_actions db aid = rows_of aid ac_ordinal (t_actions db)"

definition select_actions ::
  "(json \<Rightarrow> string) \<Rightarrow> (nat \<Rightarrow> uuid) \<Rightarrow> workflow_db \<Rightarrow> uuid \<Rightarrow> uuid option \<Rightarrow> action list option" where
  "select_actions str_of fresh db aid workflow_version_id =
     (case workflow_version_id of
        None \<Rightarrow> Some (live_actions db aid)
      | Some k \<Rightarrow>
          (case version_by_id (t_versions db) k of
             None \<Rightarrow> Some (live_actions db aid)
           | Some v \<Rightarrow> materialize_actions str_of fresh v))"

subsection \<open>Reading back a snapshot\<close>

text \<open>What the columns of an action row guarantee: ids of 128 bits and a JSON object as configuration.\<close>

fun is_obj :: "json \<Rightarrow> bool" where
  "is_obj (J_obj _) = True"
| "is_obj _ = False"

definition action_row_ok :: "action \<Rightarrow> bool" where
  "action_row_ok a \<longleftrightarrow> valid_uuid (ac_id a) \<and> is_obj (ac_config a)
     \<and> pred_option valid_uuid (ac_app_action_id a) \<and> pred_option valid_uuid (ac_parent_action_id a)"

lemma read_opt_uuid_str: "pred_option valid_uuid u \<Longrightarrow> read_opt_uuid str_of (opt_uuid u) = Some u"
  by (cases u) (simp_all add: read_opt_uuid_def opt_uuid_def json_str_def)

lemma or_empty_obj [simp]: "or_empty (J_obj d) = J_obj d" "or_empty (or_empty v) = or_empty v"
  by (simp_all add: or_empty_def py_or_def)

lemma materialize_action_dict:
  assumes "action_row_ok a" and "action_dict a = J_obj entry"
  shows "materialize_entry str_of f entry = Some a"
proof -
  obtain cfg where "ac_config a = J_obj cfg"
    using assms(1) by (cases "ac_config a") (auto simp: action_row_ok_def)
  then show ?thesis
    using assms
    by (cases a) (auto simp: materialize_entry_def action_dict_def action_row_ok_def jget_def
        jget_default_def read_opt_uuid_str json_str_def)
qed

lemma materialize_action_dicts:
  "list_all action_row_ok as \<Longrightarrow> materialize_entries str_of fresh n (map action_dict as) = Some as"
proof (induction as arbitrary: n)
  case (Cons a as)
  obtain entry where e: "action_dict a = J_obj entry" by (simp add: action_dict_def)
  with Cons materialize_action_dict[OF _ e] show ?case by simp
qed simp

lemma sort_rows_of: "sort_key key (rows_of aid key table) = rows_of aid key table"
  unfolding rows_of_def by (rule sort_key_id_if_sorted) simp

lemma materialize_build_payload:
  assumes "list_all action_row_ok (live_actions db (ad_id defn))" and "wv_payload v = build_payload db defn"
  shows "materialize_actions str_of fresh v = Some (live_actions db (ad_id defn))"
  using materialize_action_dicts[OF assms(1)] assms(2)
  by (simp add: materialize_actions_def build_payload_def jget_def live_actions_def sort_rows_of)

lemma version_by_id_append:
  "wv_id v \<notin> wv_id ` set vs \<Longrightarrow> version_by_id ((vs @ [v]) @ later) (wv_id v) = Some v"
  by (induction vs) (auto simp: version_by_id_def)

lemma find_snoc:
  "find P (xs @ [x]) = (case find P xs of None \<Rightarrow> if P x then Some x else None | Some y \<Rightarrow> Some y)"
  by (induction xs) auto

lemma find_Some_iff2: "find P xs = Some x \<Longrightarrow> x \<in> set xs \<and> P x"
  by (induction xs) (auto split: if_splits)


subsection \<open>The chain of generations\<close>

definition generations_ok :: "version list \<Rightarrow> bool" where
  "generations_ok vs \<longleftrightarrow> distinct (map wv_payload_sha256 vs)
     \<and> (\<forall>k < length vs. wv_generation (vs ! k) = int k + 1
          \<and> wv_parent_version_id (vs ! k) = (if k = 0 then None else Some (wv_id (vs ! (k - 1)))))"

definition versions_of :: "uuid \<Rightarrow> version list \<Rightarrow> version list" where
  "versions_of aid = filter (\<lambda>v. wv_automation_id v = aid)"

definition versions_ok :: "(json \<Rightarrow> string) \<Rightarrow> version list \<Rightarrow> bool" where
  "versions_ok sha256 vs \<longleftrightarrow> (\<forall>aid. generations_ok (versions_of aid vs))
     \<and> (\<forall>v \<in> set vs. wv_payload_sha256 v = canonical_sha256 sha256 (wv_payload v))"

lemma fold_latest:
  "sorted_wrt (\<lambda>x y. wv_generation x < wv_generation y) (v # vs) \<Longrightarrow>
     fold (\<lambda>x best. if wv_generation best < wv_generation x then x else best) vs v = last (v # vs)"
  by (induction vs arbitrary: v) auto

lemma latest_version_last:
  assumes "generations_ok (versions_of aid vs)"
  shows "latest_version vs aid = (if versions_of aid vs = [] then None else Some (last (versions_of aid vs)))"
proof (cases "versions_of aid vs")
  case Nil
  then show ?thesis by (simp add: latest_version_def versions_of_def)
next
  case (Cons v rest)
  have "sorted_wrt (\<lambda>x y. wv_generation x < wv_generation y) (versions_of aid vs)"
    using assms by (simp add: generations_ok_def sorted_wrt_iff_nth_less)
  with Cons show ?thesis
    using fold_latest[of v rest] by (simp add: latest_version_def versions_of_def)
qed

lemma version_with_sha_None:
  "version_with_sha vs aid sha = None \<longleftrightarrow> sha \<notin> wv_payload_sha256 ` set (versions_of aid vs)"
  by (auto simp: version_with_sha_def versions_of_def find_None_iff)

lemma generations_ok_snoc:
  assumes "generations_ok vs" and "wv_payload_sha256 v \<notin> wv_payload_sha256 ` set vs"
    and "wv_generation v = int (length vs) + 1"
    and "wv_parent_version_id v = (if vs = [] then None else Some (wv_id (last vs)))"
  shows "generations_ok (vs @ [v])"
  using assms by (auto simp: generations_ok_def nth_append last_conv_nth less_Suc_eq)

lemma snapshot_definition_ok:
  assumes ok: "versions_ok sha256 (t_versions db)"
    and run: "snapshot_definition sha256 db defn new_id rationale update_head = (db', defn', v, inserted)"
  shows "versions_ok sha256 (t_versions db') \<and> v \<in> set (t_versions db')
    \<and> wv_automation_id v = ad_id defn
    \<and> wv_payload_sha256 v = canonical_sha256 sha256 (build_payload db defn)
    \<and> t_versions db' = (if inserted then t_versions db @ [v] else t_versions db)"
proof (cases "version_with_sha (t_versions db) (ad_id defn) (canonical_sha256 sha256 (build_payload db defn))")
  case (Some existing)
  with run have "db' = db" "v = existing" "\<not> inserted"
    by (auto simp: snapshot_definition_def snapshot_read_def snapshot_flush_def)
  with Some ok find_Some_iff2[OF Some[unfolded version_with_sha_def]] show ?thesis by simp
next
  case None
  with run have ins: inserted "t_versions db' = t_versions db @ [v]" "wv_automation_id v = ad_id defn"
      "wv_payload v = build_payload db defn"
      "wv_payload_sha256 v = canonical_sha256 sha256 (build_payload db defn)"
      "wv_generation v = (case latest_version (t_versions db) (ad_id defn) of None \<Rightarrow> 1 | Some p \<Rightarrow> wv_generation p + 1)"
      "wv_parent_version_id v = map_option wv_id (latest_version (t_versions db) (ad_id defn))"
    by (auto simp: snapshot_definition_def snapshot_read_def snapshot_flush_def Let_def)
  let ?L = "versions_of (ad_id defn) (t_versions db)"
  have gen: "generations_ok ?L" using ok by (simp add: versions_ok_def)
  then have "?L \<noteq> [] \<Longrightarrow> wv_generation (last ?L) = int (length ?L)"
    by (auto simp: generations_ok_def last_conv_nth of_nat_diff Suc_le_eq)
  then have "generations_ok (?L @ [v])"
    using generations_ok_snoc[OF gen, of v] ins None latest_version_last[OF gen]
    by (auto simp: version_with_sha_None split: if_splits)
  then show ?thesis
    using ok ins by (auto simp: versions_ok_def versions_of_def)
qed

text \<open>Any sequence of snapshots, of any definitions over any live rows.\<close>

definition snapshot_step ::
  "(json \<Rightarrow> string) \<Rightarrow> version list \<Rightarrow> workflow_db \<times> automation \<times> uuid \<times> string option \<Rightarrow> version list" where
  "snapshot_step sha256 versions op =
     (case op of (db, defn, new_id, rationale) \<Rightarrow>
        t_versions (fst (snapshot_definition sha256 (db\<lparr>t_versions := versions\<rparr>) defn new_id rationale True)))"

lemma snapshot_run_ok: "versions_ok sha256 vs \<Longrightarrow> versions_ok sha256 (foldl (snapshot_step sha256) vs ops)"
proof (induction ops arbitrary: vs)
  case (Cons op ops)
  obtain db defn new_id rationale where op: "op = (db, defn, new_id, rationale)" using prod_cases4 by blast
  obtain db' defn' v ins where "snapshot_definition sha256 (db\<lparr>t_versions := vs\<rparr>) defn new_id rationale True
      = (db', defn', v, ins)" using prod_cases4 by blast
  with snapshot_definition_ok[OF _ this] Cons.prems have "versions_ok sha256 (snapshot_step sha256 vs op)"
    by (auto simp: snapshot_step_def op split: if_splits)
  from Cons.IH[OF this] show ?case by simp
qed simp

text \<open>The history of a workflow.  After any sequence of snapshots, the versions of each automation
  are numbered 1, 2, 3 and so on in the order they were written, each one's parent is the one before
  it, no two have the same content hash, and every hash is that of the stored payload.\<close>

theorem version_history_ok: "versions_ok sha256 (foldl (snapshot_step sha256) [] ops)"
  by (rule snapshot_run_ok) (simp add: versions_ok_def versions_of_def generations_ok_def)

subsection \<open>Two writers at once\<close>

text \<open>concurrent snapshots of one automation, both read before either inserts.  With the same content
  the unique key keeps one row and both writers get it; with different contents both rows are
  inserted, and they carry the same generation number and the same parent.\<close>

theorem concurrent_snapshots:
  assumes "snapshot_read sha256 db defn1 id1 r1 = Insert a" and "snapshot_read sha256 db defn2 id2 r2 = Insert b"
    and "ad_id defn1 = ad_id defn2"
    and "snapshot_flush (t_versions db) (Insert a) = (vs1, v1, i1)"
    and "snapshot_flush vs1 (Insert b) = (vs2, v2, i2)"
  shows "if wv_payload_sha256 a = wv_payload_sha256 b
    then vs2 = t_versions db @ [a] \<and> v2 = v1 \<and> \<not> i2
    else vs2 = t_versions db @ [a, b] \<and> wv_generation a = wv_generation b
         \<and> wv_parent_version_id a = wv_parent_version_id b"
proof -
  have a: "wv_automation_id a = ad_id defn1"
      "version_with_sha (t_versions db) (wv_automation_id a) (wv_payload_sha256 a) = None"
    and b: "wv_automation_id b = ad_id defn1"
      "version_with_sha (t_versions db) (wv_automation_id b) (wv_payload_sha256 b) = None"
    and same: "wv_generation a = wv_generation b" "wv_parent_version_id a = wv_parent_version_id b"
    using assms(1-3) by (auto simp: snapshot_read_def Let_def split: option.splits)
  have "vs1 = t_versions db @ [a]" "v1 = a" using assms(4) a by (auto simp: snapshot_flush_def)
  moreover have "version_with_sha (t_versions db @ [a]) (wv_automation_id b) (wv_payload_sha256 b) =
      (if wv_payload_sha256 a = wv_payload_sha256 b then Some a else None)"
    using a b by (auto simp: version_with_sha_def find_snoc)
  ultimately show ?thesis using assms(5) same by (auto simp: snapshot_flush_def)
qed

definition w_def :: automation where
  "w_def = \<lparr>ad_id = 2, ad_name = ''w'', ad_contract = J_obj [], ad_max_compute_tier = None,
     ad_max_spend_per_run = J_null, ad_max_spend_per_day = J_null, ad_compute_profile = None,
     ad_workspace_scope = None, ad_head_version_id = None\<rparr>"

definition w_db :: workflow_db where
  "w_db = \<lparr>t_actions = map (\<lambda>a. (2, a\<lparr>ac_config := J_obj []\<rparr>)) w_actions, t_triggers = [], t_targets = [], t_versions = []\<rparr>"

text \<open>A stand-in for the hash: the number of actions and the name.\<close>

definition w_sha :: "json \<Rightarrow> string" where
  "w_sha v = (case v of J_obj d \<Rightarrow> (case jget d ''name'' of J_str s \<Rightarrow> s | _ \<Rightarrow> []) | _ \<Rightarrow> [])"


theorem concurrent_snapshots_witness:
  "\<exists>a b. snapshot_read w_sha w_db w_def 7 None = Insert a
     \<and> snapshot_read w_sha w_db (w_def\<lparr>ad_name := ''x''\<rparr>) 8 None = Insert b
     \<and> wv_generation a = wv_generation b
     \<and> fst (snapshot_flush (fst (snapshot_flush (t_versions w_db) (Insert a))) (Insert b)) = [a, b]"
proof -
  have "version_with_sha (t_versions w_db) aid sha = None" for aid sha
    by (simp add: w_db_def version_with_sha_def)
  moreover have "canonical_sha256 w_sha (build_payload w_db w_def) = ''w''"
    "canonical_sha256 w_sha (build_payload w_db (w_def\<lparr>ad_name := ''x''\<rparr>)) = ''x''"
    by code_simp+
  ultimately obtain a b where a: "snapshot_read w_sha w_db w_def 7 None = Insert a"
      and b: "snapshot_read w_sha w_db (w_def\<lparr>ad_name := ''x''\<rparr>) 8 None = Insert b"
      and sha: "wv_payload_sha256 a = ''w''" "wv_payload_sha256 b = ''x''"
    by (simp add: snapshot_read_def Let_def)
  obtain vs1 v1 i1 where f1: "snapshot_flush (t_versions w_db) (Insert a) = (vs1, v1, i1)"
    using prod_cases3 by blast
  obtain vs2 v2 i2 where f2: "snapshot_flush vs1 (Insert b) = (vs2, v2, i2)"
    using prod_cases3 by blast
  have same: "ad_id w_def = ad_id (w_def\<lparr>ad_name := ''x''\<rparr>)" by simp
  have "wv_generation a = wv_generation b \<and> vs2 = [a, b]"
    using concurrent_snapshots[OF a b same f1 f2] sha by (simp add: w_db_def)
  with a b f1 f2 show ?thesis by (intro exI[of _ a] exI[of _ b]) simp
qed

end
