(* ===== verification/Dispatch.thy ===== *)
theory Dispatch
  imports Contract Run_Budget Workflow_Versions
begin

text \<open>
  The dispatcher of automation runs (\<open>services/automations/dispatcher.py\<close>, \<open>checkpoint.py\<close>,
  \<open>approval_pressure.py\<close>): the run row of an automation and an event, the branch on the status of a row
  that is already there, the preflight checks, the budget, the route to an executor, the pause for an
  approval with its checkpoint, the final status, and the resumption of a paused run.

  Conventions: one call reads the clock once; the reasons stored in \<open>paused_reason\<close> are values of the
  type \<open>reason\<close>, one constructor for each text; the checkpoint column holds the checkpoint record
  itself.  The executors of the actions, which change nothing but the world \<open>'w\<close>, and the subscribers of
  run events are arguments; so are Redis, SHA-256 and the decimal parser.  \<open>None\<close> as the result of an
  operation is an exception out of it.
\<close>

subsection \<open>Rows\<close>

datatype reason =
    Existing_run string
  | Unknown_status string
  | Automation_not_found
  | Automation_not_active
  | Contract_bad contract_invalid
  | Inheritance_violation inheritance_error
  | Workspace_lookup_failed
  | No_actions
  | Budget_exceeded_for uuid usd usd
  | Parent_cycle "uuid list"
  | Budget_invalid
  | Budget_failed
  | Dispatcher_unavailable string
  | Action_failed string
  | Unknown_action_type string
  | Delivery_failed
  | Delivery_failed_on_resume
  | Breach "string option" "string option"
  | Checkpoint_unavailable
  | Capacity_exceeded int
  | Capacity_exceeded_max_retries
  | Definition_removed
  | No_actions_on_resume
  | Unknown_strategy string
  | Resumed_via string
  | Heartbeat_lost
  | Heartbeat_lost_no_event
  | Exhausted_retries
  | Approval_timed_out
  | Cancelled_by_response
  | Denied_by_response
  | Denied_and_disabled

record checkpoint =
  cp_run_id :: uuid
  cp_automation_id :: uuid
  cp_action_type :: string
  cp_pause_reason :: reason
  cp_resume_strategy :: string
  cp_action_state :: json_dict
  cp_budget :: "budget_allocation option"
  cp_contract :: json_dict

record run =
  rn_id :: uuid
  rn_automation_id :: uuid
  rn_event_id :: "uuid option"
  rn_status :: string
  rn_retry_count :: int
  rn_lease_term :: "int option"
  rn_worker_id :: "string option"
  rn_heartbeat_at :: "instant option"
  rn_contract_breaches :: int
  rn_paused_reason :: "reason option"
  rn_raw_output :: "json option"
  rn_checkpoint :: "checkpoint option"
  rn_started_at :: "instant option"
  rn_ended_at :: "instant option"
  rn_workflow_version_id :: "uuid option"

text \<open>The definition row: the columns the versions read, and those of the dispatcher.\<close>

record automation_row = automation +
  ad_owner_user_id :: uuid
  ad_team_id :: "uuid option"
  ad_parent_automation_id :: "uuid option"
  ad_workspace_project_id :: "uuid option"
  ad_target_project_id :: "uuid option"
  ad_is_active :: bool

record approval_request =
  ar_id :: uuid
  ar_run_id :: uuid
  ar_requested_at :: instant
  ar_expires_at :: "instant option"
  ar_reason :: string
  ar_options :: "string list"
  ar_resolved_at :: "instant option"
  ar_choice :: "string option"

record delivery_receipt =
  re_run_id :: uuid
  re_destination_id :: uuid
  re_ordinal :: int
  re_preview :: "string option"

record event_row =
  ev_payload :: json_dict
  ev_processed_at :: "instant option"

record ('w, 's) dispatch_db =
  db_runs :: "run list"
  db_defs :: "uuid \<rightharpoonup> automation_row"
  db_flow :: workflow_db
  db_approvals :: "approval_request list"
  db_receipts :: "delivery_receipt list"
  db_events :: "uuid \<rightharpoonup> event_row"
  db_personal_team :: "uuid \<rightharpoonup> uuid"
  db_workspaces :: "uuid \<rightharpoonup> uuid"
  db_audit :: "(uuid \<times> uuid \<times> reason) list"
  db_finished :: "(uuid \<times> string \<times> reason option) list"
  db_budget :: "'s option"
  db_inflight :: "int option"
  db_deferred :: "(uuid \<times> uuid \<times> string \<times> int) list"
  db_world :: 'w

text \<open>What an executor raises: a contract breach with the tool and the kind and reason of the gate's
  decision, one of the dispatcher's errors (\<open>ActionDispatchFailed\<close> for an unknown action type),
  \<open>NotImplementedError\<close>, or anything else.\<close>

datatype exec_exc =
    Contract_breach_exc string "string option" "string option"
  | Dispatcher_error string
  | Action_dispatch_failed string
  | Not_implemented_error string
  | Other_exception string

type_synonym 'w executor =
  "'w \<Rightarrow> run \<Rightarrow> automation_row \<Rightarrow> action \<Rightarrow> json_dict \<Rightarrow> budget_allocation option \<Rightarrow> 'w \<times> (exec_exc, json) result"

text \<open>Everything a dispatch does not change.  \<open>en_tool\<close> looks a tool up: \<open>None\<close> when it is not registered,
  else its \<open>state_serializable\<close>.  \<open>en_fanout\<close> notifies the subscribers of a failed run; \<open>en_enqueue\<close> hands an agent task with its payload
  and its budget to the task queue.\<close>

record ('w, 's) dispatch_env =
  en_sha256 :: "json \<Rightarrow> string"
  en_dec :: decimal_parser
  en_redis :: "('s, budget_key, int) redis_api"
  en_mint :: "uuid \<Rightarrow> (string \<times> string) option"
  en_str :: "json \<Rightarrow> string"
  en_format :: "string \<Rightarrow> json_dict \<Rightarrow> string option"
  en_tool :: "string \<Rightarrow> bool option"
  en_fanout :: "'w \<Rightarrow> uuid \<Rightarrow> uuid \<Rightarrow> string \<Rightarrow> 'w"
  en_engine :: "'w executor"
  en_agent_run :: "'w executor"
  en_agent_run_tier1 :: "'w executor"
  en_app_invoke :: "'w executor"
  en_gateway_send :: "'w executor"
  en_enqueue :: "'w \<Rightarrow> json_dict \<Rightarrow> budget_allocation option \<Rightarrow> 'w"
  en_pool_size :: int
  en_env_cap :: "string option"
  en_arq_pool :: bool

subsection \<open>Results\<close>

datatype dispatch_status = D_succeeded | D_failed | D_paused | D_retried_existing | D_noop_terminal | D_noop_inflight

record dispatch_result =
  dr_status :: dispatch_status
  dr_run_id :: uuid
  dr_run_status :: string
  dr_reason :: "reason option"

definition terminal_statuses :: "string list" where
  "terminal_statuses = [''succeeded'', ''failed'', ''expired'', ''cancelled'']"

definition inflight_statuses :: "string list" where
  "inflight_statuses = [''running'', ''preflight'']"

definition retryable_statuses :: "string list" where
  "retryable_statuses = [''paused'', ''expired'', ''cancelled'', ''failed_preflight'']"

subsection \<open>The run row\<close>

text \<open>\<open>UPDATE automation_runs SET ... WHERE id = k\<close>.\<close>

definition update_run :: "uuid \<Rightarrow> (run \<Rightarrow> run) \<Rightarrow> ('w, 's) dispatch_db \<Rightarrow> ('w, 's) dispatch_db" where
  "update_run k f db = db\<lparr>db_runs := map (\<lambda>r. if rn_id r = k then f r else r) (db_runs db)\<rparr>"

definition run_by_id :: "('w, 's) dispatch_db \<Rightarrow> uuid \<Rightarrow> run option" where
  "run_by_id db k = find (\<lambda>r. rn_id r = k) (db_runs db)"

definition run_for :: "('w, 's) dispatch_db \<Rightarrow> uuid \<Rightarrow> uuid \<Rightarrow> run option" where
  "run_for db automation_id event_id =
     find (\<lambda>r. rn_automation_id r = automation_id \<and> rn_event_id r = Some event_id) (db_runs db)"

definition fresh_run :: "uuid \<Rightarrow> uuid \<Rightarrow> uuid \<Rightarrow> string \<Rightarrow> instant \<Rightarrow> run" where
  "fresh_run new_id automation_id event_id worker_id now =
     \<lparr>rn_id = new_id, rn_automation_id = automation_id, rn_event_id = Some event_id,
      rn_status = ''queued'', rn_retry_count = 0, rn_lease_term = None, rn_worker_id = Some worker_id,
      rn_heartbeat_at = Some now, rn_contract_breaches = 0, rn_paused_reason = None,
      rn_raw_output = None, rn_checkpoint = None, rn_started_at = None, rn_ended_at = None,
      rn_workflow_version_id = None\<rparr>"

text \<open>The insert does nothing on a conflict of the key (automation, event); the row that is there is then
  the result.\<close>

definition upsert_run ::
  "('w, 's) dispatch_db \<Rightarrow> uuid \<Rightarrow> uuid \<Rightarrow> uuid \<Rightarrow> string \<Rightarrow> instant \<Rightarrow> ('w, 's) dispatch_db \<times> run \<times> bool" where
  "upsert_run db new_id automation_id event_id worker_id now =
     (case run_for db automation_id event_id of
        None \<Rightarrow> (let r = fresh_run new_id automation_id event_id worker_id now
                 in (db\<lparr>db_runs := db_runs db @ [r]\<rparr>, r, True))
      | Some existing \<Rightarrow> (db, existing, False))"

definition update_run_heartbeat :: "uuid \<Rightarrow> string option \<Rightarrow> instant \<Rightarrow> ('w, 's) dispatch_db \<Rightarrow> ('w, 's) dispatch_db" where
  "update_run_heartbeat k worker_id now =
     update_run k (\<lambda>r. r\<lparr>rn_heartbeat_at := Some now,
                         rn_worker_id := (case worker_id of None \<Rightarrow> rn_worker_id r | Some w \<Rightarrow> Some w)\<rparr>)"

text \<open>\<open>emit_run_finished\<close>: the event of the run and, unless it succeeded, its subscribers.\<close>

definition emit_run_finished ::
  "('w, 's) dispatch_env \<Rightarrow> run \<Rightarrow> string \<Rightarrow> reason option \<Rightarrow> ('w, 's) dispatch_db \<Rightarrow> ('w, 's) dispatch_db" where
  "emit_run_finished env run status reason db =
     db\<lparr>db_finished := db_finished db @ [(rn_id run, status, reason)],
        db_world := (if status \<noteq> ''succeeded''
                     then en_fanout env (db_world db) (rn_automation_id run) (rn_id run) status
                     else db_world db)\<rparr>"

definition end_run :: "string \<Rightarrow> reason \<Rightarrow> instant \<Rightarrow> run \<Rightarrow> run" where
  "end_run status reason now r =
     r\<lparr>rn_status := status, rn_paused_reason := Some reason, rn_ended_at := Some now,
       rn_heartbeat_at := Some now\<rparr>"

definition mark_failed_preflight ::
  "('w, 's) dispatch_env \<Rightarrow> instant \<Rightarrow> run \<Rightarrow> reason \<Rightarrow> dispatch_status \<Rightarrow> ('w, 's) dispatch_db
   \<Rightarrow> ('w, 's) dispatch_db \<times> dispatch_result option" where
  "mark_failed_preflight env now run reason paused_status db =
     (emit_run_finished env run ''failed_preflight'' (Some reason)
        (update_run (rn_id run) (end_run ''failed_preflight'' reason now) db),
      Some \<lparr>dr_status = paused_status, dr_run_id = rn_id run, dr_run_status = ''failed_preflight'',
            dr_reason = Some reason\<rparr>)"

definition finalize_failure ::
  "('w, 's) dispatch_env \<Rightarrow> instant \<Rightarrow> run \<Rightarrow> reason \<Rightarrow> ('w, 's) dispatch_db
   \<Rightarrow> ('w, 's) dispatch_db \<times> dispatch_result option" where
  "finalize_failure env now run reason db =
     (emit_run_finished env run ''failed'' (Some reason)
        (update_run (rn_id run) (end_run ''failed'' reason now) db),
      Some \<lparr>dr_status = D_failed, dr_run_id = rn_id run, dr_run_status = ''failed'',
            dr_reason = Some reason\<rparr>)"

subsection \<open>Phase A: claim the run\<close>

definition requeue :: "string \<Rightarrow> instant \<Rightarrow> run \<Rightarrow> run" where
  "requeue worker_id now r =
     r\<lparr>rn_status := ''queued'', rn_retry_count := rn_retry_count r + 1, rn_worker_id := Some worker_id,
       rn_heartbeat_at := Some now, rn_paused_reason := None\<rparr>"

text \<open>What to do with a run that was there already: end the call with a result, or enter the flow.\<close>

definition replay_decision :: "bool \<Rightarrow> run \<Rightarrow> dispatch_result option" where
  "replay_decision force_retry run =
     (let noop = (\<lambda>status reason. Some \<lparr>dr_status = status, dr_run_id = rn_id run,
                    dr_run_status = rn_status run, dr_reason = Some reason\<rparr>)
      in if rn_status run \<in> set terminal_statuses \<and> \<not> force_retry
         then noop D_noop_terminal (Existing_run (rn_status run))
         else if rn_status run \<in> set inflight_statuses \<or> rn_status run = ''queued''
         then noop D_noop_inflight (Existing_run (rn_status run))
         else if rn_status run \<in> set retryable_statuses \<or> force_retry then None
         else noop D_noop_inflight (Unknown_status (rn_status run)))"

text \<open>Phase A: the run to work on, or the result of a call that does nothing.\<close>

definition claim_run ::
  "('w, 's) dispatch_db \<Rightarrow> uuid \<Rightarrow> uuid \<Rightarrow> uuid \<Rightarrow> string \<Rightarrow> bool \<Rightarrow> instant
   \<Rightarrow> ('w, 's) dispatch_db \<times> (dispatch_result, run) result" where
  "claim_run db new_id automation_id event_id worker_id force_retry now =
     (case upsert_run db new_id automation_id event_id worker_id now of
        (db1, run, True) \<Rightarrow> (db1, Inr run)
      | (db1, run, False) \<Rightarrow>
          (case replay_decision force_retry run of
             Some result \<Rightarrow> (db1, Inl result)
           | None \<Rightarrow>
               (update_run (rn_id run) (requeue worker_id now) db1, Inr (requeue worker_id now run))))"

subsection \<open>Phase B: preflight\<close>

text \<open>The run gets the head version of its definition, unless it has one.\<close>

definition stamp_version ::
  "('w, 's) dispatch_env \<Rightarrow> uuid \<Rightarrow> run \<Rightarrow> automation_row \<Rightarrow> ('w, 's) dispatch_db
   \<Rightarrow> ('w, 's) dispatch_db \<times> run \<times> automation_row" where
  "stamp_version env new_version_id run defn db =
     (if rn_workflow_version_id run \<noteq> None then (db, run, defn)
      else (case ensure_head_version (en_sha256 env) (db_flow db) (automation.truncate defn) new_version_id of
         (flow, defn0, v) \<Rightarrow>
           (let defn' = defn\<lparr>ad_head_version_id := ad_head_version_id defn0\<rparr>;
                stamp = rn_workflow_version_id_update (\<lambda>_. Some (wv_id v))
            in (update_run (rn_id run) stamp
                  (db\<lparr>db_flow := flow, db_defs := (db_defs db)(ad_id defn \<mapsto> defn')\<rparr>),
                stamp run, defn'))))"

text \<open>The inheritance check against the parent's contract: \<open>Some (Some r)\<close> is a violation, \<open>None\<close> the
  decimal module's exception, which the dispatcher does not catch.\<close>

definition check_parent_contract ::
  "('w, 's) dispatch_env \<Rightarrow> automation_row \<Rightarrow> ('w, 's) dispatch_db \<Rightarrow> reason option option" where
  "check_parent_contract env defn db =
     (case Option.bind (ad_parent_automation_id defn) (db_defs db) of
        None \<Rightarrow> Some None
      | Some parent_def \<Rightarrow>
          (case ad_contract parent_def of
             J_obj parent \<Rightarrow>
               (case validate_child_contract (en_dec env) (J_obj parent) (ad_contract defn) None of
                  None \<Rightarrow> Some None
                | Some Invalid_operation \<Rightarrow> None
                | Some e \<Rightarrow> Some (Some (Inheritance_violation e)))
           | _ \<Rightarrow> Some None))"

text \<open>\<open>ensure_user_automation_workspace\<close>: one workspace project for each user.\<close>

definition ensure_user_automation_workspace ::
  "uuid \<Rightarrow> uuid \<Rightarrow> ('w, 's) dispatch_db \<Rightarrow> (reason, ('w, 's) dispatch_db \<times> uuid) result" where
  "ensure_user_automation_workspace new_project_id user_id db =
     (case db_workspaces db user_id of
        Some project \<Rightarrow> Inr (db, project)
      | None \<Rightarrow>
          (case db_personal_team db user_id of
             None \<Rightarrow> Inl Workspace_lookup_failed
           | Some team \<Rightarrow>
               Inr (db\<lparr>db_workspaces := (db_workspaces db)(user_id \<mapsto> new_project_id)\<rparr>, new_project_id)))"

definition bind_workspace ::
  "uuid \<Rightarrow> automation_row \<Rightarrow> ('w, 's) dispatch_db \<Rightarrow> (reason, ('w, 's) dispatch_db \<times> automation_row) result" where
  "bind_workspace new_project_id defn db =
     (if ad_workspace_scope defn = Some ''user_automation_workspace'' \<and> ad_workspace_project_id defn = None
      then (case ensure_user_automation_workspace new_project_id (ad_owner_user_id defn) db of
              Inl e \<Rightarrow> Inl e
            | Inr (db', project) \<Rightarrow>
                (let defn' = defn\<lparr>ad_workspace_project_id := Some project\<rparr>
                 in Inr (db'\<lparr>db_defs := (db_defs db')(ad_id defn \<mapsto> defn')\<rparr>, defn')))
      else Inr (db, defn))"

text \<open>\<open>_audit_budget_rejection\<close>: nothing to write for an automation without team.\<close>

definition audit_budget_rejection ::
  "automation_row \<Rightarrow> run \<Rightarrow> reason \<Rightarrow> ('w, 's) dispatch_db \<Rightarrow> ('w, 's) dispatch_db" where
  "audit_budget_rejection defn run reason db =
     (case ad_team_id defn of
        None \<Rightarrow> db
      | Some team \<Rightarrow> db\<lparr>db_audit := db_audit db @ [(team, rn_id run, reason)]\<rparr>)"

text \<open>Phase B.5: \<open>None\<close> when the run needs no budget.  The daily caps and the parent links are those of the
  definition rows; the contract is an object by now.\<close>

definition contract_of :: "automation_row \<Rightarrow> json_dict" where
  "contract_of defn = (case ad_contract defn of J_obj d \<Rightarrow> d | _ \<Rightarrow> [])"

definition needs_run_budget :: "automation_row \<Rightarrow> action list \<Rightarrow> bool" where
  "needs_run_budget defn actions \<longleftrightarrow>
     list_ex (\<lambda>a. ac_type a = ''agent.run'') actions
     \<and> jget (contract_of defn) ''max_spend_per_run_usd'' \<noteq> J_null"

definition reserve_budget ::
  "('w, 's) dispatch_env \<Rightarrow> instant \<Rightarrow> run \<Rightarrow> automation_row \<Rightarrow> action list \<Rightarrow> ('w, 's) dispatch_db
   \<Rightarrow> ('w, 's) dispatch_db \<times> (budget_error, budget_allocation option) result" where
  "reserve_budget env now run defn actions db =
     (if \<not> needs_run_budget defn actions then (db, Inr None)
      else (case allocate_run_budget (en_redis env) now
                   (\<lambda>a. Option.bind (db_defs db a) ad_parent_automation_id)
                   (\<lambda>a. Option.bind (db_defs db a) (\<lambda>d. (case ad_max_spend_per_day d of J_str x \<Rightarrow> en_dec env x | _ \<Rightarrow> None)))
                   (en_mint env (rn_id run)) (ad_id defn)
                   (json_decimal (en_dec env) (jget (contract_of defn) ''max_spend_per_run_usd''))
                   (ad_parent_automation_id defn) False (ac_type (hd actions) = ''agent.run'') (db_budget db) of
              (store, r) \<Rightarrow>
                (db\<lparr>db_budget := store\<rparr>, case r of Inl e \<Rightarrow> Inl e | Inr allocation \<Rightarrow> Inr (Some allocation))))"

text \<open>How each budget error ends the preflight.\<close>

definition budget_failure ::
  "('w, 's) dispatch_env \<Rightarrow> instant \<Rightarrow> run \<Rightarrow> automation_row \<Rightarrow> budget_error \<Rightarrow> ('w, 's) dispatch_db
   \<Rightarrow> ('w, 's) dispatch_db \<times> dispatch_result option" where
  "budget_failure env now run defn e db =
     (case e of
        DailyBudgetExceeded a requested remaining \<Rightarrow>
          (let reason = Budget_exceeded_for a requested remaining
           in mark_failed_preflight env now run reason D_paused (audit_budget_rejection defn run reason db))
      | CycleDetected chain \<Rightarrow> mark_failed_preflight env now run (Parent_cycle chain) D_failed db
      | ValueError \<Rightarrow> mark_failed_preflight env now run Budget_invalid D_failed db
      | MintFailed \<Rightarrow> mark_failed_preflight env now run Budget_failed D_failed db)"

subsection \<open>Phase C: the route to an executor\<close>

definition route_action ::
  "('w, 's) dispatch_env \<Rightarrow> run \<Rightarrow> automation_row \<Rightarrow> action list \<Rightarrow> json_dict \<Rightarrow> budget_allocation option \<Rightarrow> 'w
   \<Rightarrow> 'w \<times> (exec_exc, json) result" where
  "route_action env run defn actions event_payload allocation w =
     (let action = hd actions
      in if length actions > 1 then en_engine env w run defn action event_payload allocation
         else if ac_type action = ''agent.run''
         then (if ad_max_compute_tier defn = Some 1
               then en_agent_run_tier1 env w run defn action event_payload allocation
               else en_agent_run env w run defn action event_payload allocation)
         else if ac_type action = ''app.invoke'' then en_app_invoke env w run defn action event_payload None
         else if ac_type action = ''gateway.send'' then en_gateway_send env w run defn action event_payload None
         else (w, Inl (Action_dispatch_failed (ac_type action))))"

definition exec_failure_reason :: "exec_exc \<Rightarrow> reason" where
  "exec_failure_reason e =
     (case e of
        Contract_breach_exc tool kind why \<Rightarrow> Breach kind why
      | Dispatcher_error msg \<Rightarrow> Action_failed msg
      | Action_dispatch_failed t \<Rightarrow> Unknown_action_type t
      | Not_implemented_error msg \<Rightarrow> Dispatcher_unavailable msg
      | Other_exception msg \<Rightarrow> Action_failed (take 1000 msg))"

definition load_event_payload :: "('w, 's) dispatch_db \<Rightarrow> uuid \<Rightarrow> json_dict" where
  "load_event_payload db event_id = (case db_events db event_id of None \<Rightarrow> [] | Some e \<Rightarrow> ev_payload e)"

subsection \<open>Pausing for an approval\<close>

text \<open>\<open>list(v or [])\<close>: \<open>None\<close> for a value that is not iterable.\<close>

definition py_list :: "json \<Rightarrow> json option" where
  "py_list v =
     (if \<not> truthy v then Some (J_list [])
      else (case v of
          J_list xs \<Rightarrow> Some (J_list xs)
        | J_str s \<Rightarrow> Some (J_list (map (\<lambda>c. J_str [c]) s))
        | J_obj d \<Rightarrow> Some (J_list (map (\<lambda>kv. J_str (fst kv)) d))
        | _ \<Rightarrow> None))"

definition detect_non_serializable_tools :: "(string \<Rightarrow> bool option) \<Rightarrow> string \<Rightarrow> json list" where
  "detect_non_serializable_tools lookup tool_name =
     (if tool_name = [] then []
      else (case lookup tool_name of
          None \<Rightarrow> [J_str tool_name]
        | Some serializable \<Rightarrow> if serializable then [] else [J_str tool_name]))"

definition render_simple_template :: "(string \<Rightarrow> json_dict \<Rightarrow> string option) \<Rightarrow> string \<Rightarrow> json_dict \<Rightarrow> string" where
  "render_simple_template format template context =
     (if template = [] then []
      else (case format template context of None \<Rightarrow> template | Some s \<Rightarrow> s))"

definition agent_state ::
  "('w, 's) dispatch_env \<Rightarrow> json_dict \<Rightarrow> json_dict \<Rightarrow> string \<Rightarrow> json_dict option" where
  "agent_state env config event_payload tool_name =
     (case (py_list (py_or (jget config ''message_history'') (jget event_payload ''message_history'')),
            py_list (jget config ''tool_result_trail''),
            int_of_json (py_or (jget_default config ''current_step'' (J_int 0)) (J_int 0))) of
        (Some history, Some trail, Some step) \<Rightarrow>
          Some [(''message'', py_or (jget config ''message'') (jget_default event_payload ''message'' (J_str ''''))),
                (''message_history'', history), (''tool_result_trail'', trail), (''current_step'', J_int step),
                (''in_flight_non_serializable_tools'',
                   J_list (detect_non_serializable_tools (en_tool env) tool_name)),
                (''breach_tool_name'', J_str tool_name), (''breach_tool_params'', J_obj []),
                (''agent_id'', jget config ''agent_id''), (''model_name'', jget config ''model_name''),
                (''view_context'', jget config ''view_context'')]
      | _ \<Rightarrow> None)"

text \<open>\<open>str(config.get(key, "") or "")\<close>.\<close>

definition opt_text :: "('w, 's) dispatch_env \<Rightarrow> json_dict \<Rightarrow> string \<Rightarrow> string" where
  "opt_text env config key =
     json_str (en_str env) (py_or (jget_default config key (J_str '''')) (J_str ''''))"

text \<open>The configuration is an object (\<open>dict(config)\<close> raises on other values); the template of
  \<open>gateway.send\<close> is text.\<close>

definition build_action_state ::
  "('w, 's) dispatch_env \<Rightarrow> action \<Rightarrow> json_dict \<Rightarrow> string \<Rightarrow> json_dict option" where
  "build_action_state env action event_payload tool_name =
     (case or_empty (ac_config action) of
        J_obj config \<Rightarrow>
          (if ac_type action = ''agent.run'' then agent_state env config event_payload tool_name
           else if ac_type action = ''app.invoke''
           then Some [(''input'', jget_default config ''input'' (J_obj event_payload)),
                      (''app_action_id'', opt_uuid (ac_app_action_id action)),
                      (''partial_output'', jget config ''partial_output'')]
           else if ac_type action = ''gateway.send''
           then (case py_or (py_or (jget config ''body_template'') (jget config ''body'')) (J_str '''') of
                   J_str template \<Rightarrow>
                     Some [(''body_template'', J_str template),
                           (''body'', J_str (render_simple_template (en_format env) template event_payload)),
                           (''destination_id'', J_str (opt_text env config ''channel_config_id'')),
                           (''session_key'', J_str (opt_text env config ''session_key'')),
                           (''event_payload'', J_obj event_payload)]
                 | _ \<Rightarrow> None)
           else Some [(''raw_action_type'', J_str (ac_type action))])
      | _ \<Rightarrow> None)"

definition determine_resume_strategy :: "string \<Rightarrow> json_dict \<Rightarrow> string" where
  "determine_resume_strategy action_type action_state =
     (if action_type \<in> set [''app.invoke'', ''gateway.send''] then ''redispatch''
      else if action_type = ''agent.run''
      then (if truthy (jget action_state ''in_flight_non_serializable_tools'')
            then ''restart_from_checkpoint'' else ''agent_continue'')
      else ''restart_from_checkpoint'')"

definition valid_action_types :: "string list" where
  "valid_action_types = [''agent.run'', ''app.invoke'', ''gateway.send'']"

text \<open>\<open>None\<close>: \<open>ValueError\<close> for a type of action that has no checkpoint.\<close>

definition serialize_checkpoint ::
  "run \<Rightarrow> string \<Rightarrow> json_dict \<Rightarrow> reason \<Rightarrow> json_dict \<Rightarrow> budget_allocation option \<Rightarrow> ('w, 's) dispatch_db
   \<Rightarrow> (('w, 's) dispatch_db \<times> checkpoint) option" where
  "serialize_checkpoint run action_type action_state pause_reason contract allocation db =
     (if action_type \<notin> set valid_action_types then None
      else (let cp = \<lparr>cp_run_id = rn_id run, cp_automation_id = rn_automation_id run,
                      cp_action_type = action_type, cp_pause_reason = pause_reason,
                      cp_resume_strategy = determine_resume_strategy action_type action_state,
                      cp_action_state = action_state, cp_budget = allocation, cp_contract = contract\<rparr>
            in Some (update_run (rn_id run) (rn_checkpoint_update (\<lambda>_. Some cp)) db, cp)))"

definition base_approval_options :: "string list" where
  "base_approval_options =
     [''allow_once'', ''allow_for_run'', ''allow_for_automation'', ''deny'', ''deny_and_disable_automation'']"

definition restart_only_options :: "string list" where
  "restart_only_options = [''cancel_run'', ''restart_from_last_checkpoint'']"

definition approval_options :: "checkpoint \<Rightarrow> string list" where
  "approval_options cp =
     (if cp_resume_strategy cp = ''restart_from_checkpoint''
      then restart_only_options @ filter (prefix ''deny'') base_approval_options
      else base_approval_options)"

definition checkpoint_and_pause ::
  "('w, 's) dispatch_env \<Rightarrow> instant \<Rightarrow> uuid \<Rightarrow> run \<Rightarrow> automation_row \<Rightarrow> action \<Rightarrow> json_dict
   \<Rightarrow> string \<times> string option \<times> string option \<Rightarrow> budget_allocation option \<Rightarrow> ('w, 's) dispatch_db
   \<Rightarrow> (('w, 's) dispatch_db \<times> dispatch_result) option" where
  "checkpoint_and_pause env now request_id run defn action event_payload breach allocation db =
     (case breach of (tool_name, kind, why) \<Rightarrow>
        (case (int_of_json (jget_default (contract_of defn) ''approval_timeout_seconds'' (J_int 900)),
               build_action_state env action event_payload tool_name) of
           (Some timeout_seconds, Some action_state) \<Rightarrow>
             (case serialize_checkpoint run (ac_type action) action_state (Breach kind why)
                     (contract_of defn) allocation db of
                None \<Rightarrow> None
              | Some (db1, cp) \<Rightarrow>
                  (let request = \<lparr>ar_id = request_id, ar_run_id = rn_id run, ar_requested_at = now,
                         ar_expires_at = Some (now + timeout_seconds),
                         ar_reason = (case kind of None \<Rightarrow> ''contract_violation''
                                      | Some k \<Rightarrow> if k = [] then ''contract_violation'' else k),
                         ar_options = approval_options cp, ar_resolved_at = None, ar_choice = None\<rparr>;
                       db2 = db1\<lparr>db_approvals := db_approvals db1 @ [request]\<rparr>;
                       db3 = update_run (rn_id run)
                         (\<lambda>r. r\<lparr>rn_status := ''waiting_approval'', rn_paused_reason := Some (Breach kind why),
                               rn_heartbeat_at := Some now,
                               rn_contract_breaches := rn_contract_breaches r + 1\<rparr>) db2
                   in Some (db3, \<lparr>dr_status = D_paused, dr_run_id = rn_id run,
                                  dr_run_status = ''waiting_approval'', dr_reason = Some (Breach kind why)\<rparr>)))
         | _ \<Rightarrow> None))"

text \<open>The cap on runs that hold a worker while they wait, and its slot: \<open>None\<close> is no Redis.\<close>

definition compute_cap :: "string option \<Rightarrow> int \<Rightarrow> int" where
  "compute_cap env_override arq_pool_size =
     (let computed = (if arq_pool_size \<le> 0 then 2 else max 2 (arq_pool_size div 4))
      in case env_override of
           None \<Rightarrow> computed
         | Some s \<Rightarrow>
             if s = [] then computed
             else (case int_of_str s of
                     None \<Rightarrow> computed
                   | Some cap \<Rightarrow> if cap < 1 then 1 else cap))"

definition try_acquire_pressure_slot :: "int \<Rightarrow> int option \<Rightarrow> int option \<times> bool" where
  "try_acquire_pressure_slot cap inflight =
     (case inflight of
        None \<Rightarrow> (None, True)
      | Some cur \<Rightarrow> if cur < cap then (Some (cur + 1), True) else (Some cur, False))"

definition release_pressure_slot :: "int option \<Rightarrow> int option" where
  "release_pressure_slot inflight =
     map_option (\<lambda>cur. if cur - 1 < 0 then 0 else cur - 1) inflight"

abbreviation "max_defer_attempts \<equiv> (3 :: int)"

text \<open>\<open>schedule_deferred_retry\<close>: the job is a later \<open>dispatch_automation_task\<close> of the same event.\<close>

definition schedule_deferred_retry ::
  "bool \<Rightarrow> uuid \<Rightarrow> uuid \<Rightarrow> string \<Rightarrow> int \<Rightarrow> ('w, 's) dispatch_db \<Rightarrow> ('w, 's) dispatch_db \<times> bool" where
  "schedule_deferred_retry pool automation_id event_id worker_id attempt db =
     (if \<not> pool \<or> attempt \<ge> max_defer_attempts then (db, False)
      else (db\<lparr>db_deferred := db_deferred db @ [(automation_id, event_id, worker_id, attempt)]\<rparr>, True))"

definition handle_checkpoint_pressure_fallback ::
  "('w, 's) dispatch_env \<Rightarrow> instant \<Rightarrow> run \<Rightarrow> uuid \<Rightarrow> uuid \<Rightarrow> string \<Rightarrow> ('w, 's) dispatch_db
   \<Rightarrow> ('w, 's) dispatch_db \<times> dispatch_result option" where
  "handle_checkpoint_pressure_fallback env now run automation_id event_id worker_id db =
     (case try_acquire_pressure_slot (compute_cap (en_env_cap env) (en_pool_size env)) (db_inflight db) of
        (inflight, True) \<Rightarrow>
          (case finalize_failure env now run Checkpoint_unavailable (db\<lparr>db_inflight := inflight\<rparr>) of
             (db1, result) \<Rightarrow> (db1\<lparr>db_inflight := release_pressure_slot (db_inflight db1)\<rparr>, result))
      | (inflight, False) \<Rightarrow>
          (let attempt = rn_retry_count run
           in case schedule_deferred_retry (en_arq_pool env) automation_id event_id worker_id attempt
                     (db\<lparr>db_inflight := inflight\<rparr>) of
                (db1, True) \<Rightarrow>
                  (update_run (rn_id run)
                     (\<lambda>r. r\<lparr>rn_status := ''queued'', rn_paused_reason := Some (Capacity_exceeded attempt),
                           rn_retry_count := rn_retry_count r + 1, rn_heartbeat_at := Some now\<rparr>) db1,
                   Some \<lparr>dr_status = D_paused, dr_run_id = rn_id run, dr_run_status = ''queued'',
                         dr_reason = Some (Capacity_exceeded attempt)\<rparr>)
              | (db1, False) \<Rightarrow> finalize_failure env now run Capacity_exceeded_max_retries db1))"

subsection \<open>Phase D: delivery and the final status\<close>

text \<open>One receipt for each delivery target.  \<open>None\<close>: the body is no text, and the slice or the encoding
  raises before the commit.\<close>

definition deliver_and_finalize ::
  "run \<Rightarrow> automation_row \<Rightarrow> json \<Rightarrow> ('w, 's) dispatch_db \<Rightarrow> ('w, 's) dispatch_db option" where
  "deliver_and_finalize run defn action_result db =
     (case action_result of
        J_obj d \<Rightarrow>
          (let targets = rows_of (ad_id defn) dt_ordinal (t_targets (db_flow db));
               receipts = (\<lambda>preview. map (\<lambda>t. \<lparr>re_run_id = rn_id run, re_destination_id = dt_destination_id t,
                                      re_ordinal = dt_ordinal t, re_preview = preview\<rparr>) targets)
           in case py_or (jget d ''body'') (J_str '''') of
                J_str body \<Rightarrow>
                  Some (db\<lparr>db_receipts := db_receipts db
                            @ receipts (if body = [] then None else Some (take 2000 body))\<rparr>)
              | _ \<Rightarrow> if targets = [] then Some db else None)
      | _ \<Rightarrow> None)"

definition mark_processed :: "uuid \<Rightarrow> instant \<Rightarrow> ('w, 's) dispatch_db \<Rightarrow> ('w, 's) dispatch_db" where
  "mark_processed event_id now db =
     db\<lparr>db_events := (db_events db)(event_id :=
          map_option (ev_processed_at_update (\<lambda>_. Some now)) (db_events db event_id))\<rparr>"

definition is_async_handoff :: "json \<Rightarrow> bool" where
  "is_async_handoff action_result =
     (case action_result of J_obj d \<Rightarrow> jget d ''enqueued'' = J_bool True | _ \<Rightarrow> False)"

definition succeed :: "instant \<Rightarrow> json \<Rightarrow> run \<Rightarrow> run" where
  "succeed now action_result r =
     r\<lparr>rn_status := ''succeeded'', rn_ended_at := Some now, rn_heartbeat_at := Some now,
       rn_raw_output := Some action_result\<rparr>"

definition record_outcome :: "instant \<Rightarrow> run \<Rightarrow> json \<Rightarrow> ('w, 's) dispatch_db \<Rightarrow> ('w, 's) dispatch_db" where
  "record_outcome now run action_result db =
     (if is_async_handoff action_result
      then update_run (rn_id run) (\<lambda>r. r\<lparr>rn_heartbeat_at := Some now, rn_raw_output := Some action_result\<rparr>) db
      else update_run (rn_id run)
             (\<lambda>r. if rn_status r \<in> set [''queued'', ''preflight'', ''running'']
                  then succeed now action_result r else r) db)"

subsection \<open>The whole dispatch\<close>

text \<open>Phases C and D for a run that is past the preflight.\<close>

definition execute_and_finish ::
  "('w, 's) dispatch_env \<Rightarrow> instant \<Rightarrow> uuid \<Rightarrow> run \<Rightarrow> automation_row \<Rightarrow> action list \<Rightarrow> uuid \<Rightarrow> string
   \<Rightarrow> budget_allocation option \<Rightarrow> ('w, 's) dispatch_db \<Rightarrow> ('w, 's) dispatch_db \<times> dispatch_result option" where
  "execute_and_finish env now request_id run defn actions event_id worker_id allocation db =
     (let event_payload = load_event_payload db event_id
      in case route_action env run defn actions event_payload allocation (db_world db) of
           (w, Inl e) \<Rightarrow>
             (let db1 = db\<lparr>db_world := w\<rparr>
              in case e of
                   Contract_breach_exc tool kind why \<Rightarrow>
                     (case checkpoint_and_pause env now request_id run defn (hd actions) event_payload
                             (tool, kind, why) allocation db1 of
                        Some (db2, result) \<Rightarrow> (db2, Some result)
                      | None \<Rightarrow>
                          handle_checkpoint_pressure_fallback env now run (rn_automation_id run) event_id
                            worker_id db1)
                 | _ \<Rightarrow> finalize_failure env now run (exec_failure_reason e) db1)
         | (w, Inr action_result) \<Rightarrow>
             (let db1 = db\<lparr>db_world := w\<rparr>
              in case deliver_and_finalize run defn action_result db1 of
                   None \<Rightarrow> finalize_failure env now run Delivery_failed db1
                 | Some db2 \<Rightarrow>
                     (mark_processed event_id now (record_outcome now run action_result db2),
                      Some \<lparr>dr_status = D_succeeded, dr_run_id = rn_id run,
                            dr_run_status = (if is_async_handoff action_result then ''running'' else ''succeeded''),
                            dr_reason = None\<rparr>)))"

text \<open>Phase B from the preflight mark on, for a definition that passed its checks.\<close>

definition budget_and_execute ::
  "('w, 's) dispatch_env \<Rightarrow> instant \<Rightarrow> uuid \<Rightarrow> run \<Rightarrow> automation_row \<Rightarrow> uuid \<Rightarrow> string
   \<Rightarrow> ('w, 's) dispatch_db \<Rightarrow> ('w, 's) dispatch_db \<times> dispatch_result option" where
  "budget_and_execute env now request_id run defn event_id worker_id db =
     (let db1 = update_run (rn_id run) (\<lambda>r. r\<lparr>rn_status := ''preflight'', rn_heartbeat_at := Some now\<rparr>) db;
          db2 = update_run_heartbeat (rn_id run) (Some worker_id) now db1;
          actions = live_actions (db_flow db2) (ad_id defn)
      in if actions = [] then mark_failed_preflight env now run No_actions D_failed db2
         else (case reserve_budget env now run defn actions db2 of
                 (db3, Inl e) \<Rightarrow> budget_failure env now run defn e db3
               | (db3, Inr allocation) \<Rightarrow>
                   (let start = (\<lambda>r. r\<lparr>rn_status := ''running'', rn_started_at := Some now,
                                      rn_heartbeat_at := Some now\<rparr>);
                        db4 = update_run (rn_id run) start db3
                    in case run_by_id db4 (rn_id run) of
                         None \<Rightarrow> (db4, None)
                       | Some run' \<Rightarrow>
                           execute_and_finish env now request_id run' defn actions event_id worker_id allocation db4)))"

definition enter_flow ::
  "('w, 's) dispatch_env \<Rightarrow> (nat \<Rightarrow> uuid) \<Rightarrow> instant \<Rightarrow> run \<Rightarrow> uuid \<Rightarrow> uuid \<Rightarrow> string
   \<Rightarrow> ('w, 's) dispatch_db \<Rightarrow> ('w, 's) dispatch_db \<times> dispatch_result option" where
  "enter_flow env fresh now run automation_id event_id worker_id db =
     (case db_defs db automation_id of
        None \<Rightarrow> mark_failed_preflight env now run Automation_not_found D_paused db
      | Some defn0 \<Rightarrow>
          if \<not> ad_is_active defn0 then mark_failed_preflight env now run Automation_not_active D_paused db
          else (case stamp_version env (fresh 1) run defn0 db of
             (db1, run1, defn1) \<Rightarrow>
               (case validate_contract (en_dec env) (ad_contract defn1) of
                  Some e \<Rightarrow> mark_failed_preflight env now run1 (Contract_bad e) D_failed db1
                | None \<Rightarrow>
                    (case check_parent_contract env defn1 db1 of
                       None \<Rightarrow> (db1, None)
                     | Some (Some why) \<Rightarrow> mark_failed_preflight env now run1 why D_failed db1
                     | Some None \<Rightarrow>
                         (case bind_workspace (fresh 2) defn1 db1 of
                            Inl why \<Rightarrow> mark_failed_preflight env now run1 why D_failed db1
                          | Inr (db2, defn2) \<Rightarrow>
                              budget_and_execute env now (fresh 3) run1 defn2 event_id worker_id db2)))))"

definition dispatch_automation ::
  "('w, 's) dispatch_env \<Rightarrow> (nat \<Rightarrow> uuid) \<Rightarrow> instant \<Rightarrow> uuid \<Rightarrow> uuid \<Rightarrow> string \<Rightarrow> bool
   \<Rightarrow> ('w, 's) dispatch_db \<Rightarrow> ('w, 's) dispatch_db \<times> dispatch_result option" where
  "dispatch_automation env fresh now automation_id event_id worker_id force_retry db =
     (case claim_run db (fresh 0) automation_id event_id worker_id force_retry now of
        (db1, Inl result) \<Rightarrow> (db1, Some result)
      | (db1, Inr run) \<Rightarrow> enter_flow env fresh now run automation_id event_id worker_id db1)"

subsection \<open>Resuming\<close>

definition resume_redispatch ::
  "('w, 's) dispatch_env \<Rightarrow> run \<Rightarrow> automation_row \<Rightarrow> action \<Rightarrow> checkpoint \<Rightarrow> 'w \<Rightarrow> 'w \<times> (exec_exc, json) result" where
  "resume_redispatch env run defn action cp w =
     (let state = cp_action_state cp
      in if ac_type action = ''app.invoke''
         then en_app_invoke env w run defn action
                (case jget state ''input'' of J_obj d \<Rightarrow> d | _ \<Rightarrow> []) None
         else if ac_type action = ''gateway.send''
         then en_gateway_send env w run defn action
                (case jget state ''event_payload'' of J_obj d \<Rightarrow> d | _ \<Rightarrow> []) None
         else (w, Inl (Dispatcher_error ''_resume_redispatch: unsupported action_type'')))"

text \<open>The payload of the agent task.  The reason a restart carries is a text and left out.\<close>

definition resume_payload ::
  "run \<Rightarrow> automation_row \<Rightarrow> json_dict \<Rightarrow> checkpoint \<Rightarrow> json_dict" where
  "resume_payload run defn config cp =
     (let state = cp_action_state cp
      in [(''task_id'', J_str (uuid_str (rn_id run))), (''user_id'', J_str (uuid_str (ad_owner_user_id defn))),
          (''chat_id'', jget_default config ''chat_id'' (J_str '''')),
          (''message'', py_or (jget state ''message'') (jget_default config ''message'' (J_str ''''))),
          (''project_id'', case ad_target_project_id defn of None \<Rightarrow> J_str '''' | Some p \<Rightarrow> J_str (uuid_str p)),
          (''agent_id'', py_or (jget state ''agent_id'') (jget config ''agent_id'')),
          (''model_name'', py_or (jget state ''model_name'') (jget_default config ''model_name'' (J_str ''''))),
          (''view_context'', py_or (jget state ''view_context'') (jget config ''view_context'')),
          (''automation_run_id'', J_str (uuid_str (rn_id run))),
          (''automation_id'', J_str (uuid_str (ad_id defn))), (''contract'', ad_contract defn),
          (''resume'', J_bool True), (''resume_strategy'', J_str (cp_resume_strategy cp))]
         @ (if cp_resume_strategy cp = ''agent_continue''
            then [(''message_history'', py_or (jget state ''message_history'') (J_list [])),
                  (''tool_result_trail'', py_or (jget state ''tool_result_trail'') (J_list [])),
                  (''current_step'', jget_default state ''current_step'' (J_int 0))]
            else []))"

definition resume_agent ::
  "('w, 's) dispatch_env \<Rightarrow> run \<Rightarrow> automation_row \<Rightarrow> action \<Rightarrow> checkpoint \<Rightarrow> 'w \<Rightarrow> 'w \<times> (exec_exc, json) result" where
  "resume_agent env run defn action cp w =
     (case or_empty (ac_config action) of
        J_obj config \<Rightarrow>
          (en_enqueue env w (resume_payload run defn config cp) (cp_budget cp),
           Inr (J_obj [(''action_type'', J_str ''agent.run''), (''task_id'', J_str (uuid_str (rn_id run))),
                       (''enqueued'', J_bool True), (''resume_strategy'', J_str (cp_resume_strategy cp))]))
      | _ \<Rightarrow> (w, Inl (Other_exception ''AttributeError'')))"

definition resume_with_strategy ::
  "('w, 's) dispatch_env \<Rightarrow> run \<Rightarrow> automation_row \<Rightarrow> action \<Rightarrow> checkpoint \<Rightarrow> 'w
   \<Rightarrow> ('w \<times> (exec_exc, json) result) option" where
  "resume_with_strategy env run defn action cp w =
     (if cp_resume_strategy cp = ''redispatch'' then Some (resume_redispatch env run defn action cp w)
      else if cp_resume_strategy cp \<in> set [''agent_continue'', ''restart_from_checkpoint'']
      then Some (resume_agent env run defn action cp w)
      else None)"

text \<open>The end of a resumption by redispatch: the status is written without a guard.\<close>

definition finish_redispatch ::
  "('w, 's) dispatch_env \<Rightarrow> instant \<Rightarrow> run \<Rightarrow> automation_row \<Rightarrow> json \<Rightarrow> ('w, 's) dispatch_db
   \<Rightarrow> ('w, 's) dispatch_db \<times> dispatch_result option" where
  "finish_redispatch env now run defn action_result db =
     (case deliver_and_finalize run defn action_result db of
        None \<Rightarrow> finalize_failure env now run Delivery_failed_on_resume db
      | Some db1 \<Rightarrow>
          (update_run (rn_id run) (succeed now action_result) db1,
           Some \<lparr>dr_status = D_succeeded, dr_run_id = rn_id run, dr_run_status = ''succeeded'',
                 dr_reason = None\<rparr>))"

text \<open>The first action of the automation is the one that is resumed.\<close>

definition resume_flow ::
  "('w, 's) dispatch_env \<Rightarrow> uuid \<Rightarrow> instant \<Rightarrow> run \<Rightarrow> automation_row \<Rightarrow> action \<Rightarrow> checkpoint
   \<Rightarrow> ('w, 's) dispatch_db \<Rightarrow> ('w, 's) dispatch_db \<times> dispatch_result option" where
  "resume_flow env request_id now run defn action cp db =
     (case resume_with_strategy env run defn action cp (db_world db) of
        None \<Rightarrow> finalize_failure env now run (Unknown_strategy (cp_resume_strategy cp)) db
      | Some (w, Inl e) \<Rightarrow>
          (let db1 = db\<lparr>db_world := w\<rparr>
           in case e of
                Contract_breach_exc tool kind why \<Rightarrow>
                  (case checkpoint_and_pause env now request_id run defn action (cp_action_state cp)
                          (tool, kind, why) (cp_budget cp) db1 of
                     Some (db2, result) \<Rightarrow> (db2, Some result)
                   | None \<Rightarrow> (db1, None))
              | _ \<Rightarrow> finalize_failure env now run (exec_failure_reason e) db1)
      | Some (w, Inr action_result) \<Rightarrow>
          (let db1 = db\<lparr>db_world := w\<rparr>
           in if cp_resume_strategy cp = ''redispatch''
              then finish_redispatch env now run defn action_result db1
              else (db1, Some \<lparr>dr_status = D_succeeded, dr_run_id = rn_id run, dr_run_status = rn_status run,
                              dr_reason = Some (Resumed_via (cp_resume_strategy cp))\<rparr>)))"

definition resume_run ::
  "('w, 's) dispatch_env \<Rightarrow> uuid \<Rightarrow> instant \<Rightarrow> checkpoint \<Rightarrow> ('w, 's) dispatch_db
   \<Rightarrow> ('w, 's) dispatch_db \<times> dispatch_result option" where
  "resume_run env request_id now cp db =
     (case run_by_id db (cp_run_id cp) of
        None \<Rightarrow> (db, None)
      | Some run \<Rightarrow>
          if rn_status run \<notin> set [''waiting_approval'', ''queued'', ''paused'']
          then (db, Some \<lparr>dr_status = D_noop_terminal, dr_run_id = rn_id run, dr_run_status = rn_status run,
                          dr_reason = Some (Existing_run (rn_status run))\<rparr>)
          else (case db_defs db (cp_automation_id cp) of
             None \<Rightarrow> finalize_failure env now run Definition_removed db
           | Some defn \<Rightarrow>
               (case live_actions (db_flow db) (cp_automation_id cp) of
                  [] \<Rightarrow> finalize_failure env now run No_actions_on_resume db
                | action # _ \<Rightarrow>
                    (let start = (\<lambda>r. r\<lparr>rn_status := ''running'', rn_heartbeat_at := Some now\<rparr>);
                         db1 = update_run (rn_id run) start db
                     in resume_flow env request_id now (start run) defn action cp db1))))"

text \<open>The worker task \<open>resume_automation_run\<close>: nothing to do, and no result, for a run without checkpoint.\<close>

definition resume_automation_run ::
  "('w, 's) dispatch_env \<Rightarrow> uuid \<Rightarrow> instant \<Rightarrow> uuid \<Rightarrow> ('w, 's) dispatch_db
   \<Rightarrow> ('w, 's) dispatch_db \<times> dispatch_result option" where
  "resume_automation_run env request_id now k db =
     (case Option.bind (run_by_id db k) rn_checkpoint of
        None \<Rightarrow> (db, None)
      | Some cp \<Rightarrow> resume_run env request_id now cp db)"

end
