(* ===== verification/Lease.thy ===== *)
theory Lease
  imports Prelude
begin

text \<open>
  The controller-plane lease: the protocol of \<open>services/automations/lease/__init__.py\<close> as the locale
  \<open>lease_backend\<close>, the default backend \<open>DBLease\<close> (\<open>lease/db.py\<close>) and the Kubernetes backend \<open>K8sLease\<close>
  (\<open>lease/k8s.py\<close>), each an interpretation of the protocol.  What holds of any interleaving of
  operations of any number of holders is proved once, in the locale.

  Every operation takes a flag that says whether the database or the API server fails it, and the
  instant at which it runs.
\<close>

subsection \<open>Tokens\<close>

record lease_token =
  tk_name :: string
  tk_holder :: string
  tk_term :: int
  tk_expires :: instant

subsection \<open>The database backend\<close>

record lease_row =
  lr_holder :: "string option"
  lr_term :: int
  lr_expires :: "instant option"

type_synonym lease_table = "string \<rightharpoonup> lease_row"

text \<open>\<open>DBLease.acquire\<close>, one transaction on the locked row.  A failure rolls back and returns no token.\<close>

definition db_acquire ::
  "lease_table \<Rightarrow> bool \<Rightarrow> instant \<Rightarrow> string \<Rightarrow> string \<Rightarrow> int \<Rightarrow> lease_table \<times> lease_token option" where
  "db_acquire s fails now name holder_id ttl_seconds =
     (let new_expiry = now + ttl_seconds
      in if fails then (s, None)
         else (case s name of
            None \<Rightarrow>
              (s(name \<mapsto> \<lparr>lr_holder = Some holder_id, lr_term = 1, lr_expires = Some new_expiry\<rparr>),
               Some \<lparr>tk_name = name, tk_holder = holder_id, tk_term = 1, tk_expires = new_expiry\<rparr>)
          | Some row \<Rightarrow>
              (let expired = (case lr_expires row of None \<Rightarrow> True | Some e \<Rightarrow> e < now);
                   same_holder = (lr_holder row = Some holder_id)
               in if \<not> expired \<and> \<not> same_holder then (s, None)
                  else (let new_term = lr_term row + 1
                        in (s(name \<mapsto> \<lparr>lr_holder = Some holder_id, lr_term = new_term,
                                       lr_expires = Some new_expiry\<rparr>),
                            Some \<lparr>tk_name = name, tk_holder = holder_id, tk_term = new_term,
                                  tk_expires = new_expiry\<rparr>)))))"

text \<open>Whether the \<open>WHERE\<close> clause of renew and release matches a row.\<close>

definition db_holds :: "lease_table \<Rightarrow> lease_token \<Rightarrow> bool" where
  "db_holds s tk =
     (case s (tk_name tk) of
        None \<Rightarrow> False
      | Some row \<Rightarrow> lr_holder row = Some (tk_holder tk) \<and> lr_term row = tk_term tk)"

definition db_renew :: "lease_table \<Rightarrow> bool \<Rightarrow> instant \<Rightarrow> lease_token \<Rightarrow> lease_table \<times> bool" where
  "db_renew s fails now tk =
     (let new_expiry = now + 60
      in if fails then (s, False)
         else if db_holds s tk
         then (s(tk_name tk := map_option (\<lambda>row. row\<lparr>lr_expires := Some new_expiry\<rparr>) (s (tk_name tk))), True)
         else (s, False))"

definition db_release :: "lease_table \<Rightarrow> bool \<Rightarrow> instant \<Rightarrow> lease_token \<Rightarrow> lease_table" where
  "db_release s fails now tk =
     (if fails then s
      else if db_holds s tk
      then s(tk_name tk := map_option (\<lambda>row. row\<lparr>lr_holder := None, lr_expires := None\<rparr>) (s (tk_name tk)))
      else s)"

definition db_current :: "lease_table \<Rightarrow> string \<Rightarrow> (string \<times> int) option" where
  "db_current s n =
     (case s n of None \<Rightarrow> None | Some row \<Rightarrow> map_option (\<lambda>h. (h, lr_term row)) (lr_holder row))"

definition db_term :: "lease_table \<Rightarrow> string \<Rightarrow> int" where
  "db_term s n = (case s n of None \<Rightarrow> 0 | Some row \<Rightarrow> lr_term row)"

definition db_live :: "lease_table \<Rightarrow> instant \<Rightarrow> string \<Rightarrow> string \<Rightarrow> bool" where
  "db_live s now n h =
     (case s n of
        None \<Rightarrow> False
      | Some row \<Rightarrow> lr_holder row = Some h
          \<and> (case lr_expires row of None \<Rightarrow> False | Some e \<Rightarrow> \<not> e < now))"

subsection \<open>The Kubernetes backend\<close>

record k8s_lease =
  kl_holder_identity :: "string option"
  kl_lease_duration_seconds :: int
  kl_renew_time :: "instant option"
  kl_lease_transitions :: int

type_synonym k8s_leases = "string \<rightharpoonup> k8s_lease"

text \<open>\<open>fails\<close> covers an error of the read and of the create or replace call, a write conflict included:
  the API server refuses a replace of an object that has changed since it was read.\<close>

definition k8s_acquire ::
  "k8s_leases \<Rightarrow> bool \<Rightarrow> instant \<Rightarrow> string \<Rightarrow> string \<Rightarrow> int \<Rightarrow> k8s_leases \<times> lease_token option" where
  "k8s_acquire s fails now name holder_id ttl_seconds =
     (let new_expiry = now + ttl_seconds
      in if fails then (s, None)
         else (case s name of
            None \<Rightarrow>
              (s(name \<mapsto> \<lparr>kl_holder_identity = Some holder_id, kl_lease_duration_seconds = ttl_seconds,
                          kl_renew_time = Some now, kl_lease_transitions = 1\<rparr>),
               Some \<lparr>tk_name = name, tk_holder = holder_id, tk_term = 1, tk_expires = new_expiry\<rparr>)
          | Some spec \<Rightarrow>
              (let expires_at = map_option (\<lambda>r. r + kl_lease_duration_seconds spec) (kl_renew_time spec);
                   expired = (case expires_at of None \<Rightarrow> True | Some e \<Rightarrow> e < now);
                   same_holder = (kl_holder_identity spec = Some holder_id)
               in if \<not> expired \<and> \<not> same_holder then (s, None)
                  else (let new_transitions = kl_lease_transitions spec + 1
                        in (s(name \<mapsto> \<lparr>kl_holder_identity = Some holder_id,
                                       kl_lease_duration_seconds = ttl_seconds,
                                       kl_renew_time = Some now, kl_lease_transitions = new_transitions\<rparr>),
                            Some \<lparr>tk_name = name, tk_holder = holder_id, tk_term = new_transitions,
                                  tk_expires = new_expiry\<rparr>)))))"

definition k8s_holds :: "k8s_leases \<Rightarrow> lease_token \<Rightarrow> bool" where
  "k8s_holds s tk =
     (case s (tk_name tk) of
        None \<Rightarrow> False
      | Some spec \<Rightarrow> kl_holder_identity spec = Some (tk_holder tk) \<and> kl_lease_transitions spec = tk_term tk)"

definition k8s_renew :: "k8s_leases \<Rightarrow> bool \<Rightarrow> instant \<Rightarrow> lease_token \<Rightarrow> k8s_leases \<times> bool" where
  "k8s_renew s fails now tk =
     (if fails then (s, False)
      else if \<not> k8s_holds s tk then (s, False)
      else (s(tk_name tk := map_option (\<lambda>spec. spec\<lparr>kl_renew_time := Some now\<rparr>) (s (tk_name tk))), True))"

definition k8s_release :: "k8s_leases \<Rightarrow> bool \<Rightarrow> instant \<Rightarrow> lease_token \<Rightarrow> k8s_leases" where
  "k8s_release s fails now tk =
     (if fails then s
      else if k8s_holds s tk
      then s(tk_name tk := map_option (\<lambda>spec. spec\<lparr>kl_holder_identity := None, kl_renew_time := None\<rparr>)
                             (s (tk_name tk)))
      else s)"

definition k8s_current :: "k8s_leases \<Rightarrow> string \<Rightarrow> (string \<times> int) option" where
  "k8s_current s n =
     (case s n of None \<Rightarrow> None
      | Some spec \<Rightarrow> map_option (\<lambda>h. (h, kl_lease_transitions spec)) (kl_holder_identity spec))"

definition k8s_term :: "k8s_leases \<Rightarrow> string \<Rightarrow> int" where
  "k8s_term s n = (case s n of None \<Rightarrow> 0 | Some spec \<Rightarrow> kl_lease_transitions spec)"

definition k8s_live :: "k8s_leases \<Rightarrow> instant \<Rightarrow> string \<Rightarrow> string \<Rightarrow> bool" where
  "k8s_live s now n h =
     (case s n of
        None \<Rightarrow> False
      | Some spec \<Rightarrow> kl_holder_identity spec = Some h
          \<and> (case kl_renew_time spec of None \<Rightarrow> False
             | Some r \<Rightarrow> \<not> r + kl_lease_duration_seconds spec < now))"

subsection \<open>Runs: any holders, in any order\<close>

datatype lease_op =
    L_Acquire bool instant string string int
  | L_Renew bool instant lease_token
  | L_Release bool instant lease_token

text \<open>A run keeps the tokens handed out, newest first.\<close>

fun lease_step ::
  "('s \<Rightarrow> bool \<Rightarrow> instant \<Rightarrow> string \<Rightarrow> string \<Rightarrow> int \<Rightarrow> 's \<times> lease_token option)
   \<Rightarrow> ('s \<Rightarrow> bool \<Rightarrow> instant \<Rightarrow> lease_token \<Rightarrow> 's \<times> bool)
   \<Rightarrow> ('s \<Rightarrow> bool \<Rightarrow> instant \<Rightarrow> lease_token \<Rightarrow> 's)
   \<Rightarrow> 's \<times> lease_token list \<Rightarrow> lease_op \<Rightarrow> 's \<times> lease_token list" where
  "lease_step acq ren rel (s, issued) (L_Acquire f now n h ttl) =
     (case acq s f now n h ttl of
        (s', None) \<Rightarrow> (s', issued) | (s', Some tk) \<Rightarrow> (s', tk # issued))"
| "lease_step acq ren rel (s, issued) (L_Renew f now tk) = (fst (ren s f now tk), issued)"
| "lease_step acq ren rel (s, issued) (L_Release f now tk) = (rel s f now tk, issued)"

abbreviation lease_run where
  "lease_run acq ren rel \<equiv> foldl (lease_step acq ren rel)"

subsection \<open>The protocol\<close>

text \<open>\<open>current s n\<close> is the holder and term recorded for lease \<open>n\<close>, \<open>term_of s n\<close> the highest term handed
  out, \<open>live s now n h\<close> says that \<open>h\<close> holds \<open>n\<close> and it has not expired.\<close>

locale lease_backend =
  fixes acquire :: "'s \<Rightarrow> bool \<Rightarrow> instant \<Rightarrow> string \<Rightarrow> string \<Rightarrow> int \<Rightarrow> 's \<times> lease_token option"
    and renew :: "'s \<Rightarrow> bool \<Rightarrow> instant \<Rightarrow> lease_token \<Rightarrow> 's \<times> bool"
    and release :: "'s \<Rightarrow> bool \<Rightarrow> instant \<Rightarrow> lease_token \<Rightarrow> 's"
    and current :: "'s \<Rightarrow> string \<Rightarrow> (string \<times> int) option"
    and term_of :: "'s \<Rightarrow> string \<Rightarrow> int"
    and live :: "'s \<Rightarrow> instant \<Rightarrow> string \<Rightarrow> string \<Rightarrow> bool"
  assumes acquire_token: "acquire s f now n h ttl = (s', Some tk) \<Longrightarrow>
      tk_name tk = n \<and> tk_holder tk = h \<and> term_of s n < tk_term tk
      \<and> term_of s' = (term_of s)(n := tk_term tk) \<and> current s' = (current s)(n \<mapsto> (h, tk_term tk))"
    and acquire_none: "acquire s f now n h ttl = (s', None) \<Longrightarrow>
      current s' = current s \<and> (\<forall>k. term_of s k \<le> term_of s' k)"
    and acquire_blocked: "live s now n h' \<Longrightarrow> h' \<noteq> h \<Longrightarrow> snd (acquire s f now n h ttl) = None"
    and renew_ok: "snd (renew s f now tk) \<longleftrightarrow>
      \<not> f \<and> current s (tk_name tk) = Some (tk_holder tk, tk_term tk)"
    and renew_frame: "current (fst (renew s f now tk)) = current s"
      "term_of (fst (renew s f now tk)) = term_of s"
    and release_frame: "current (release s f now tk) =
        (if \<not> f \<and> current s (tk_name tk) = Some (tk_holder tk, tk_term tk)
         then (current s)(tk_name tk := None) else current s)"
      "term_of (release s f now tk) = term_of s"
begin

text \<open>The invariant of a run that issued the tokens \<open>issued\<close>: terms of one lease decrease along the list
  (they were handed out increasing), none exceeds the highest term, and the recorded term is at least
  that of every issued token of its lease.\<close>

definition issued_inv :: "'s \<times> lease_token list \<Rightarrow> bool" where
  "issued_inv si \<longleftrightarrow> (case si of (s, issued) \<Rightarrow>
     sorted_wrt (\<lambda>a b. tk_name a = tk_name b \<longrightarrow> tk_term b < tk_term a) issued
     \<and> (\<forall>tk \<in> set issued. tk_term tk \<le> term_of s (tk_name tk))
     \<and> (\<forall>tk \<in> set issued. \<forall>h t. current s (tk_name tk) = Some (h, t) \<longrightarrow> tk_term tk \<le> t))"

lemma issued_inv_start: "issued_inv (s, [])"
  by (simp add: issued_inv_def)

lemma lease_step_inv:
  assumes "issued_inv si"
  shows "issued_inv (lease_step acquire renew release si op)"
proof -
  obtain s issued where si: "si = (s, issued)" by fastforce
  show ?thesis
  proof (cases op)
    case (L_Acquire f now n h ttl)
    obtain s' r where run: "acquire s f now n h ttl = (s', r)" by fastforce
    show ?thesis
    proof (cases r)
      case None
      with acquire_none[of s f now n h ttl s'] run assms show ?thesis
        by (auto simp: si L_Acquire issued_inv_def intro: order_trans)
    next
      case (Some tk)
      have new: "tk_name tk = n" "term_of s n < tk_term tk" "term_of s' = (term_of s)(n := tk_term tk)"
        "current s' = (current s)(n \<mapsto> (h, tk_term tk))"
        using acquire_token[of s f now n h ttl s' tk] run Some by auto
      with assms run Some show ?thesis
        by (fastforce simp: si L_Acquire issued_inv_def)
    qed
  next
    case (L_Renew f now tk)
    with assms show ?thesis by (simp add: si issued_inv_def renew_frame)
  next
    case (L_Release f now tk)
    with assms show ?thesis by (auto simp: si issued_inv_def release_frame)
  qed
qed

lemma lease_run_inv: "issued_inv si \<Longrightarrow> issued_inv (lease_run acquire renew release si ops)"
proof (induction ops arbitrary: si)
  case (Cons op ops)
  show ?case using Cons.IH[OF lease_step_inv[OF Cons.prems]] by simp
qed simp

text \<open>Fencing.  After any run, of two tokens of the same lease the later one has the greater term, and
  the earlier one can be renewed no more.\<close>

lemma run_fencing:
  assumes "lease_run acquire renew release (s0, []) ops = (s, issued)"
    and "issued = xs @ newer # ys @ older # zs" and "tk_name newer = tk_name older"
  shows "tk_term older < tk_term newer \<and> \<not> snd (renew s f now older)"
proof -
  have inv: "issued_inv (s, issued)"
    using lease_run_inv[OF issued_inv_start, of s0 ops] assms(1) by simp
  then have lt: "tk_term older < tk_term newer"
    using assms(2,3) by (auto simp: issued_inv_def sorted_wrt_append)
  have "current s (tk_name older) \<noteq> Some (tk_holder older, tk_term older)"
  proof
    assume "current s (tk_name older) = Some (tk_holder older, tk_term older)"
    moreover have "newer \<in> set issued" using assms(2) by simp
    ultimately have "tk_term newer \<le> tk_term older"
      using inv assms(3) unfolding issued_inv_def by force
    with lt show False by simp
  qed
  with lt show ?thesis by (simp add: renew_ok)
qed

lemma run_term_bound:
  assumes "lease_run acquire renew release (s0, []) ops = (s, issued)" and "tk \<in> set issued"
  shows "tk_term tk \<le> term_of s (tk_name tk)"
  using lease_run_inv[OF issued_inv_start, of s0 ops] assms by (simp add: issued_inv_def)

text \<open>Two tokens that can be renewed in the same state are the same lease of the same holder and term.\<close>

lemma renewable_unique:
  "snd (renew s f now a) \<Longrightarrow> snd (renew s f' now' b) \<Longrightarrow> tk_name a = tk_name b \<Longrightarrow>
     tk_holder a = tk_holder b \<and> tk_term a = tk_term b"
  by (simp add: renew_ok)

text \<open>A released token is dead, and releasing it again changes nothing visible.\<close>

lemma release_kills: "\<not> snd (renew (release s False now tk) f' now' tk)"
  by (auto simp: renew_ok release_frame)

lemma release_idempotent:
  "current (release (release s f now tk) f' now' tk) =
     (if f' then current (release s f now tk) else current (release s False now tk))"
  by (auto simp: release_frame)

end

lemmas db_lease_defs [model_defs] = db_acquire_def db_renew_def db_release_def db_holds_def
  db_current_def db_term_def db_live_def

lemmas k8s_lease_defs [model_defs] = k8s_acquire_def k8s_renew_def k8s_release_def k8s_holds_def
  k8s_current_def k8s_term_def k8s_live_def

lemma db_acquire_token:
  "db_acquire s f now n h ttl = (s', Some tk) \<Longrightarrow>
     tk_name tk = n \<and> tk_holder tk = h \<and> db_term s n < tk_term tk
     \<and> db_term s' = (db_term s)(n := tk_term tk)
     \<and> db_current s' = (db_current s)(n \<mapsto> (h, tk_term tk))"
  by (cases "s n"; simp add: db_acquire_def Let_def split: if_splits; clarsimp;
      simp add: db_term_def db_current_def fun_eq_iff)

interpretation db: lease_backend db_acquire db_renew db_release db_current db_term db_live
proof (unfold_locales, goal_cases)
  case (1 s f now n h ttl s' tk)
  then show ?case by (rule db_acquire_token)
next
  case (2 s f now n h ttl s')
  then show ?case
    by (cases "s n") (auto simp: db_acquire_def Let_def split: if_splits)
next
  case (3 s now n h' h f ttl)
  then show ?case
    by (cases "s n") (auto simp: db_acquire_def db_live_def Let_def split: option.splits)
next
  case (4 s f now tk)
  show ?case
    by (cases "s (tk_name tk)") (auto simp: db_renew_def db_holds_def db_current_def Let_def)
next
  case (5 s f now tk)
  show ?case
    by (cases "s (tk_name tk)") (auto simp: db_renew_def db_current_def Let_def fun_eq_iff)
next
  case (6 s f now tk)
  show ?case
    by (cases "s (tk_name tk)") (auto simp: db_renew_def db_term_def Let_def fun_eq_iff)
next
  case (7 s f now tk)
  show ?case
    by (cases "s (tk_name tk)") (auto simp: db_release_def db_holds_def db_current_def fun_eq_iff)
next
  case (8 s f now tk)
  show ?case
    by (cases "s (tk_name tk)") (auto simp: db_release_def db_term_def fun_eq_iff)
qed

lemma k8s_acquire_token:
  "k8s_acquire s f now n h ttl = (s', Some tk) \<Longrightarrow>
     tk_name tk = n \<and> tk_holder tk = h \<and> k8s_term s n < tk_term tk
     \<and> k8s_term s' = (k8s_term s)(n := tk_term tk)
     \<and> k8s_current s' = (k8s_current s)(n \<mapsto> (h, tk_term tk))"
  by (cases "s n"; simp add: k8s_acquire_def Let_def split: if_splits; clarsimp;
      simp add: k8s_term_def k8s_current_def fun_eq_iff)

interpretation k8s: lease_backend k8s_acquire k8s_renew k8s_release k8s_current k8s_term k8s_live
proof (unfold_locales, goal_cases)
  case (1 s f now n h ttl s' tk)
  then show ?case by (rule k8s_acquire_token)
next
  case (2 s f now n h ttl s')
  then show ?case
    by (cases "s n") (auto simp: k8s_acquire_def Let_def split: if_splits)
next
  case (3 s now n h' h f ttl)
  then show ?case
    by (cases "s n") (auto simp: k8s_acquire_def k8s_live_def Let_def split: option.splits)
next
  case (4 s f now tk)
  show ?case
    by (cases "s (tk_name tk)") (auto simp: k8s_renew_def k8s_holds_def k8s_current_def Let_def)
next
  case (5 s f now tk)
  show ?case
    by (cases "s (tk_name tk)") (auto simp: k8s_renew_def k8s_current_def Let_def fun_eq_iff)
next
  case (6 s f now tk)
  show ?case
    by (cases "s (tk_name tk)") (auto simp: k8s_renew_def k8s_term_def Let_def fun_eq_iff)
next
  case (7 s f now tk)
  show ?case
    by (cases "s (tk_name tk)") (auto simp: k8s_release_def k8s_holds_def k8s_current_def fun_eq_iff)
next
  case (8 s f now tk)
  show ?case
    by (cases "s (tk_name tk)") (auto simp: k8s_release_def k8s_term_def fun_eq_iff)
qed

subsection \<open>The Kubernetes backend implements the database backend\<close>

text \<open>A Lease object read as a row of \<open>controller_leases\<close>: it expires one lease duration after its last
  renewal.\<close>

definition k8s_row :: "k8s_lease \<Rightarrow> lease_row" where
  "k8s_row spec = \<lparr>lr_holder = kl_holder_identity spec, lr_term = kl_lease_transitions spec,
     lr_expires = map_option (\<lambda>r. r + kl_lease_duration_seconds spec) (kl_renew_time spec)\<rparr>"

definition k8s_table :: "k8s_leases \<Rightarrow> lease_table" where
  "k8s_table s = map_option k8s_row \<circ> s"

lemma k8s_table_upd: "k8s_table (s(n := x)) = (k8s_table s)(n := map_option k8s_row x)"
  by (simp add: k8s_table_def fun_eq_iff)

lemma k8s_table_apply: "k8s_table s n = map_option k8s_row (s n)"
  by (simp add: k8s_table_def)

lemma k8s_holds_table: "k8s_holds s tk = db_holds (k8s_table s) tk"
  by (cases "s (tk_name tk)") (simp_all add: k8s_holds_def db_holds_def k8s_table_apply k8s_row_def)

lemma k8s_acquire_table:
  "db_acquire (k8s_table s) f now n h ttl =
     (k8s_table (fst (k8s_acquire s f now n h ttl)), snd (k8s_acquire s f now n h ttl))"
  by (cases "s n")
    (simp_all add: k8s_acquire_def db_acquire_def Let_def k8s_table_upd k8s_table_apply k8s_row_def
      split: option.splits)

text \<open>C5: the Kubernetes backend implements the database backend.  Read as rows, acquire and release on
  Lease objects are exactly acquire and release on the table, tokens included, and renew succeeds
  for the same tokens; the renewed expiry is the lease's own duration where the database writes
  sixty seconds.\<close>

theorem k8s_refines_db:
  "db_acquire (k8s_table s) f now n h ttl =
     (k8s_table (fst (k8s_acquire s f now n h ttl)), snd (k8s_acquire s f now n h ttl))
   \<and> db_release (k8s_table s) f now tk = k8s_table (k8s_release s f now tk)
   \<and> snd (db_renew (k8s_table s) f now tk) = snd (k8s_renew s f now tk)
   \<and> db_current (k8s_table (fst (k8s_renew s f now tk))) = db_current (fst (db_renew (k8s_table s) f now tk))"
proof -
  have rel: "db_release (k8s_table s) f now tk = k8s_table (k8s_release s f now tk)"
    by (cases "s (tk_name tk)")
      (simp_all add: db_release_def k8s_release_def k8s_holds_table k8s_table_upd k8s_table_apply
        k8s_row_def fun_eq_iff)
  have ren: "snd (db_renew (k8s_table s) f now tk) = snd (k8s_renew s f now tk)"
    by (simp add: db_renew_def k8s_renew_def k8s_holds_table Let_def)
  have "db_current (k8s_table (fst (k8s_renew s f now tk))) = db_current (k8s_table s)"
    by (cases "s (tk_name tk)")
      (auto simp: k8s_renew_def db_current_def k8s_table_upd k8s_table_apply k8s_row_def fun_eq_iff)
  then show ?thesis
    using k8s_acquire_table rel ren db.renew_frame(1) by simp
qed

subsection \<open>Properties of the two backends\<close>

text \<open>C6: fencing by the database lease.  Whatever any holders do in any order, and whichever of their
  transactions fail: of two tokens handed out for the same lease the later has the greater term,
  and the earlier can never be renewed again.\<close>

theorem db_fencing:
  assumes "lease_run db_acquire db_renew db_release (Map.empty, []) ops = (s, issued)"
    and "issued = xs @ newer # ys @ older # zs" and "tk_name newer = tk_name older"
  shows "tk_term older < tk_term newer \<and> \<not> snd (db_renew s f now older)"
  using assms by (rule db.run_fencing)

definition w_lease_ops :: "lease_op list" where
  "w_lease_ops =
     [L_Acquire False 0 ''controller'' ''a'' 15, L_Acquire False 5 ''controller'' ''b'' 15,
      L_Acquire False 20 ''controller'' ''b'' 15]"

theorem db_fencing_witness:
  "\<not> snd (db_renew (fst (lease_run db_acquire db_renew db_release (Map.empty, []) w_lease_ops)) False 21
       \<lparr>tk_name = ''controller'', tk_holder = ''a'', tk_term = 1, tk_expires = 15\<rparr>)"
proof -
  let ?new = "\<lparr>tk_name = ''controller'', tk_holder = ''b'', tk_term = 2, tk_expires = 35\<rparr>"
  let ?old = "\<lparr>tk_name = ''controller'', tk_holder = ''a'', tk_term = 1, tk_expires = 15\<rparr>"
  let ?r = "lease_run db_acquire db_renew db_release (Map.empty, []) w_lease_ops"
  have "snd ?r = [] @ ?new # [] @ ?old # []"
    by (simp add: w_lease_ops_def db_acquire_def)
  from db_fencing[OF prod.collapse[symmetric] this] show ?thesis by simp
qed

text \<open>Fencing by the Kubernetes lease, on the same terms.\<close>

theorem k8s_fencing:
  assumes "lease_run k8s_acquire k8s_renew k8s_release (Map.empty, []) ops = (s, issued)"
    and "issued = xs @ newer # ys @ older # zs" and "tk_name newer = tk_name older"
  shows "tk_term older < tk_term newer \<and> \<not> snd (k8s_renew s f now older)"
  using assms by (rule k8s.run_fencing)

theorem k8s_fencing_witness:
  "\<not> snd (k8s_renew (fst (lease_run k8s_acquire k8s_renew k8s_release (Map.empty, []) w_lease_ops)) False 21
       \<lparr>tk_name = ''controller'', tk_holder = ''a'', tk_term = 1, tk_expires = 15\<rparr>)"
proof -
  let ?new = "\<lparr>tk_name = ''controller'', tk_holder = ''b'', tk_term = 2, tk_expires = 35\<rparr>"
  let ?old = "\<lparr>tk_name = ''controller'', tk_holder = ''a'', tk_term = 1, tk_expires = 15\<rparr>"
  let ?r = "lease_run k8s_acquire k8s_renew k8s_release (Map.empty, []) w_lease_ops"
  have "snd ?r = [] @ ?new # [] @ ?old # []"
    by (simp add: w_lease_ops_def k8s_acquire_def)
  from k8s_fencing[OF prod.collapse[symmetric] this] show ?thesis by simp
qed

text \<open>A row without a holder has no expiry: acquire sets both, release clears both, renew only touches
  held rows.\<close>

definition lease_ok :: "lease_table \<Rightarrow> bool" where
  "lease_ok s \<longleftrightarrow> (\<forall>n row. s n = Some row \<longrightarrow> (lr_holder row = None \<longleftrightarrow> lr_expires row = None))"

lemma lease_ok_acquire: "lease_ok s \<Longrightarrow> lease_ok (fst (db_acquire s f now n h ttl))"
  by (cases "s n") (simp_all add: lease_ok_def db_acquire_def Let_def)

lemma lease_ok_renew: "lease_ok s \<Longrightarrow> lease_ok (fst (db_renew s f now tk))"
  by (cases "s (tk_name tk)") (auto simp: lease_ok_def db_renew_def db_holds_def Let_def)

lemma lease_ok_release: "lease_ok s \<Longrightarrow> lease_ok (db_release s f now tk)"
  by (cases "s (tk_name tk)") (auto simp: lease_ok_def db_release_def db_holds_def)

lemma lease_ok_step:
  "lease_ok (fst si) \<Longrightarrow> lease_ok (fst (lease_step db_acquire db_renew db_release si op))"
proof (cases si; cases op)
  fix s issued f now n h ttl
  assume "lease_ok (fst si)" "si = (s, issued)" "op = L_Acquire f now n h ttl"
  then show ?thesis
    using lease_ok_acquire[of s f now n h ttl] by (auto split: prod.splits option.splits)
qed (simp_all add: lease_ok_renew lease_ok_release)

lemma lease_ok_run:
  "lease_ok (fst si) \<Longrightarrow> lease_ok (fst (lease_run db_acquire db_renew db_release si ops))"
proof (induction ops arbitrary: si)
  case (Cons op ops)
  show ?case using Cons.IH[OF lease_ok_step[OF Cons.prems]] by simp
qed simp

text \<open>Mutual exclusion and progress.  In every reachable state of the table, an acquire that the
  database does not fail gets a token exactly when no other holder has the lease unexpired; so two
  holders never both lead, and a lease whose holder has died is free for anyone at its expiry.\<close>

theorem db_acquire_iff_free:
  assumes "lease_run db_acquire db_renew db_release (Map.empty, []) ops = (s, issued)"
  shows "snd (db_acquire s f now n h ttl) \<noteq> None \<longleftrightarrow>
    \<not> f \<and> \<not> (\<exists>h'. h' \<noteq> h \<and> db_live s now n h')"
proof -
  have "lease_ok s"
    using lease_ok_run[of "(Map.empty, [])" ops] assms by (simp add: lease_ok_def)
  then have ok: "s n = Some row \<Longrightarrow> (lr_holder row = None \<longleftrightarrow> lr_expires row = None)" for row
    by (simp add: lease_ok_def)
  show ?thesis
  proof (cases "s n")
    case None
    then show ?thesis by (simp add: db_acquire_def db_live_def Let_def)
  next
    case (Some row)
    with ok[OF Some] show ?thesis
      by (cases "lr_holder row"; cases "lr_expires row")
        (auto simp: db_acquire_def db_live_def Let_def)
  qed
qed

theorem db_acquire_iff_free_witness:
  "snd (db_acquire (fst (lease_run db_acquire db_renew db_release (Map.empty, []) w_lease_ops))
      False 36 ''controller'' ''a'' 15) \<noteq> None"
proof -
  let ?r = "lease_run db_acquire db_renew db_release (Map.empty, []) w_lease_ops"
  have "\<not> (\<exists>h'. h' \<noteq> ''a'' \<and> db_live (fst ?r) 36 ''controller'' h')"
    by (simp add: w_lease_ops_def db_acquire_def db_live_def)
  then show ?thesis
    using db_acquire_iff_free[of w_lease_ops "fst ?r" "snd ?r" False 36 "''controller''" "''a''" 15]
    by simp
qed

end
