(* ===== verification/Run_Lifecycle.thy ===== *)
theory Run_Lifecycle
  imports Dispatch Lease
begin

text \<open>
  The life of a run row outside the dispatcher: the sweep of runs whose worker has died
  (\<open>services/automations/heartbeat_sweep.py\<close>), the sweep of unanswered approvals
  (\<open>approval_timeout_sweep.py\<close>), the answer of a user (\<open>routers/automations.py\<close>) and the worker's own
  writes (\<open>worker.py\<close>), together with the dispatcher as the operations of one table of runs.
\<close>

subsection \<open>The lease of a sweep\<close>

datatype lease_lost = Lease_missing | Term_mismatch int int

definition verify_lease_or_raise :: "lease_table \<Rightarrow> int \<Rightarrow> lease_lost option" where
  "verify_lease_or_raise leases current_term =
     (case leases ''controller'' of
        None \<Rightarrow> Some Lease_missing
      | Some row \<Rightarrow> if lr_term row \<noteq> current_term then Some (Term_mismatch (lr_term row) current_term) else None)"

subsection \<open>Runs whose worker has died\<close>

abbreviation "batch_limit \<equiv> (500 :: nat)"

definition is_stale :: "instant \<Rightarrow> run \<Rightarrow> bool" where
  "is_stale cutoff r \<longleftrightarrow> rn_status r = ''running''
     \<and> (case rn_heartbeat_at r of None \<Rightarrow> False | Some h \<Rightarrow> h < cutoff)"

definition close_run :: "string \<Rightarrow> reason \<Rightarrow> int \<Rightarrow> int \<Rightarrow> instant \<Rightarrow> run \<Rightarrow> run" where
  "close_run status reason retry_count current_term now r =
     r\<lparr>rn_status := status, rn_ended_at := Some now, rn_paused_reason := Some reason,
       rn_retry_count := retry_count, rn_lease_term := Some current_term\<rparr>"

type_synonym retry_job = "uuid \<times> uuid \<times> uuid"

text \<open>One row as it was selected: its update and the job to enqueue after the commit.\<close>

definition sweep_row ::
  "int \<Rightarrow> int \<Rightarrow> instant \<Rightarrow> run \<Rightarrow> ('w, 's) dispatch_db \<Rightarrow> ('w, 's) dispatch_db \<times> retry_job list" where
  "sweep_row current_term max_retries now r db =
     (let new_retry_count = rn_retry_count r + 1
      in if new_retry_count \<le> max_retries \<and> rn_event_id r \<noteq> None
         then (update_run (rn_id r) (close_run ''expired'' Heartbeat_lost new_retry_count current_term now) db,
               [(rn_id r, rn_automation_id r, the (rn_event_id r))])
         else (update_run (rn_id r)
                 (close_run ''failed''
                    (if new_retry_count > max_retries then Exhausted_retries else Heartbeat_lost_no_event)
                    new_retry_count current_term now) db, []))"

text \<open>The i-th check of the lease reads \<open>leases i\<close>; a failed check rolls everything back.\<close>

fun sweep_rows ::
  "(nat \<Rightarrow> lease_table) \<Rightarrow> int \<Rightarrow> int \<Rightarrow> instant \<Rightarrow> nat \<Rightarrow> run list \<Rightarrow> ('w, 's) dispatch_db
   \<Rightarrow> (lease_lost, ('w, 's) dispatch_db \<times> retry_job list) result" where
  "sweep_rows leases current_term max_retries now i [] db =
     (case verify_lease_or_raise (leases i) current_term of Some e \<Rightarrow> Inl e | None \<Rightarrow> Inr (db, []))"
| "sweep_rows leases current_term max_retries now i (r # rs) db =
     (case verify_lease_or_raise (leases i) current_term of
        Some e \<Rightarrow> Inl e
      | None \<Rightarrow>
          (case sweep_row current_term max_retries now r db of
             (db1, jobs) \<Rightarrow>
               (case sweep_rows leases current_term max_retries now (Suc i) rs db1 of
                  Inl e \<Rightarrow> Inl e
                | Inr (db2, jobs2) \<Rightarrow> Inr (db2, jobs @ jobs2))))"

definition sweep_stale_running ::
  "(nat \<Rightarrow> lease_table) \<Rightarrow> int \<Rightarrow> int \<Rightarrow> int \<Rightarrow> instant \<Rightarrow> ('w, 's) dispatch_db
   \<Rightarrow> (lease_lost, ('w, 's) dispatch_db \<times> retry_job list) result" where
  "sweep_stale_running leases current_term stale_seconds max_retries now db =
     (let rows = take batch_limit (filter (is_stale (now - stale_seconds)) (db_runs db))
      in if rows = [] then Inr (db, [])
         else sweep_rows leases current_term max_retries now 0 rows db)"

subsection \<open>Unanswered approvals\<close>

definition update_request ::
  "uuid \<Rightarrow> (approval_request \<Rightarrow> approval_request) \<Rightarrow> ('w, 's) dispatch_db \<Rightarrow> ('w, 's) dispatch_db" where
  "update_request k f db =
     db\<lparr>db_approvals := map (\<lambda>q. if ar_id q = k then f q else q) (db_approvals db)\<rparr>"

definition resolve :: "instant \<Rightarrow> string \<Rightarrow> approval_request \<Rightarrow> approval_request" where
  "resolve now choice q = q\<lparr>ar_resolved_at := Some now, ar_choice := Some choice\<rparr>"

definition is_overdue :: "instant \<Rightarrow> approval_request \<Rightarrow> bool" where
  "is_overdue now q \<longleftrightarrow> ar_resolved_at q = None
     \<and> (case ar_expires_at q of None \<Rightarrow> False | Some e \<Rightarrow> e < now)"

definition time_out_request ::
  "int \<Rightarrow> instant \<Rightarrow> approval_request \<Rightarrow> ('w, 's) dispatch_db \<Rightarrow> ('w, 's) dispatch_db" where
  "time_out_request current_term now q db =
     update_run (ar_run_id q)
       (\<lambda>r. r\<lparr>rn_status := ''failed'', rn_ended_at := Some now, rn_paused_reason := Some Approval_timed_out,
             rn_lease_term := Some current_term\<rparr>)
       (update_request (ar_id q) (resolve now ''expired'') db)"

fun time_out_requests ::
  "(nat \<Rightarrow> lease_table) \<Rightarrow> int \<Rightarrow> instant \<Rightarrow> nat \<Rightarrow> approval_request list \<Rightarrow> ('w, 's) dispatch_db
   \<Rightarrow> (lease_lost, ('w, 's) dispatch_db) result" where
  "time_out_requests leases current_term now i [] db =
     (case verify_lease_or_raise (leases i) current_term of Some e \<Rightarrow> Inl e | None \<Rightarrow> Inr db)"
| "time_out_requests leases current_term now i (q # qs) db =
     (case verify_lease_or_raise (leases i) current_term of
        Some e \<Rightarrow> Inl e
      | None \<Rightarrow> time_out_requests leases current_term now (Suc i) qs (time_out_request current_term now q db))"

definition sweep_expired_approvals ::
  "(nat \<Rightarrow> lease_table) \<Rightarrow> int \<Rightarrow> instant \<Rightarrow> ('w, 's) dispatch_db
   \<Rightarrow> (lease_lost, ('w, 's) dispatch_db \<times> nat) result" where
  "sweep_expired_approvals leases current_term now db =
     (let rows = take batch_limit (filter (is_overdue now) (db_approvals db))
      in if rows = [] then Inr (db, 0)
         else (case time_out_requests leases current_term now 0 rows db of
                 Inl e \<Rightarrow> Inl e | Inr db' \<Rightarrow> Inr (db', length rows)))"

subsection \<open>The answer of a user\<close>

datatype respond_error = Not_found | Already_resolved | Choice_not_offered

text \<open>\<open>_merge_scope_modifications\<close>: the keys of the delta overwrite.\<close>

definition merge_scope_modifications :: "json_dict \<Rightarrow> json_dict \<Rightarrow> json_dict" where
  "merge_scope_modifications contract delta = fold (\<lambda>(k, v) merged. jset merged k v) delta contract"

definition resume_choices :: "string list" where
  "resume_choices = [''allow_once'', ''allow_for_run'', ''allow_for_automation'', ''restart_from_last_checkpoint'']"

definition answer_run :: "string \<Rightarrow> instant \<Rightarrow> run \<Rightarrow> run" where
  "answer_run choice now r =
     (if choice \<in> set resume_choices
      then r\<lparr>rn_status := ''queued'', rn_heartbeat_at := Some now, rn_paused_reason := None\<rparr>
      else if choice = ''cancel_run'' then end_run ''cancelled'' Cancelled_by_response now r
      else if choice = ''deny'' then end_run ''failed'' Denied_by_response now r
      else if choice = ''deny_and_disable_automation'' then end_run ''failed'' Denied_and_disabled now r
      else r)"

definition answer_automation :: "string \<Rightarrow> json_dict \<Rightarrow> automation_row \<Rightarrow> automation_row" where
  "answer_automation choice scope_modifications defn =
     (if choice = ''allow_for_automation'' \<and> scope_modifications \<noteq> []
      then defn\<lparr>ad_contract := J_obj (merge_scope_modifications (contract_of defn) scope_modifications)\<rparr>
      else if choice = ''deny_and_disable_automation'' then defn\<lparr>ad_is_active := False\<rparr>
      else defn)"

text \<open>The tables after the answer, and the run to resume.  Loading and authorising the definition come
  first and are left out; \<open>enqueued\<close> is whether the queue takes the job.\<close>

definition respond_to_approval ::
  "bool \<Rightarrow> instant \<Rightarrow> uuid \<Rightarrow> uuid \<Rightarrow> string \<Rightarrow> json_dict \<Rightarrow> ('w, 's) dispatch_db
   \<Rightarrow> (respond_error, ('w, 's) dispatch_db \<times> uuid option) result" where
  "respond_to_approval enqueued now automation_id request_id choice scope_modifications db =
     (case find (\<lambda>q. ar_id q = request_id) (db_approvals db) of
        None \<Rightarrow> Inl Not_found
      | Some request \<Rightarrow>
          (case run_by_id db (ar_run_id request) of
             None \<Rightarrow> Inl Not_found
           | Some run \<Rightarrow>
               if rn_automation_id run \<noteq> automation_id then Inl Not_found
               else if ar_resolved_at request \<noteq> None then Inl Already_resolved
               else if choice \<notin> set (ar_options request) then Inl Choice_not_offered
               else (let db1 = update_request request_id (resolve now choice) db;
                         db2 = db1\<lparr>db_defs := (db_defs db1)(automation_id :=
                                 map_option (answer_automation choice scope_modifications)
                                   (db_defs db1 automation_id))\<rparr>;
                         db3 = update_run (rn_id run) (answer_run choice now) db2
                     in Inr (db3, if choice \<in> set resume_choices \<and> enqueued then Some (rn_id run) else None))))"

subsection \<open>The worker\<close>

definition heartbeat_automation_run :: "uuid \<Rightarrow> instant \<Rightarrow> ('w, 's) dispatch_db \<Rightarrow> ('w, 's) dispatch_db" where
  "heartbeat_automation_run k now =
     update_run k (\<lambda>r. if rn_status r = ''running'' then r\<lparr>rn_heartbeat_at := Some now\<rparr> else r)"

definition non_terminal_statuses :: "string list" where
  "non_terminal_statuses = [''queued'', ''preflight'', ''running'']"

definition finalize_automation_run ::
  "('w, 's) dispatch_env \<Rightarrow> uuid \<Rightarrow> string \<Rightarrow> json \<Rightarrow> instant \<Rightarrow> ('w, 's) dispatch_db \<Rightarrow> ('w, 's) dispatch_db" where
  "finalize_automation_run env k status raw_output now db =
     (let db1 = update_run k
            (\<lambda>r. if rn_status r \<in> set non_terminal_statuses
                 then r\<lparr>rn_status := status, rn_ended_at := Some now, rn_heartbeat_at := Some now,
                        rn_raw_output := Some raw_output\<rparr>
                 else r) db
      in case run_by_id db k of
           None \<Rightarrow> db1
         | Some run \<Rightarrow>
             if rn_status run \<in> set non_terminal_statuses
                \<and> status \<in> set [''failed'', ''failed_preflight'', ''timed_out'', ''expired'']
             then emit_run_finished env run status None db1 else db1)"

text \<open>The statuses \<open>execute_agent_task\<close> finalises with.\<close>

definition worker_statuses :: "string list" where
  "worker_statuses = [''succeeded'', ''failed'', ''cancelled'', ''waiting_approval'']"

subsection \<open>The operations on the table of runs\<close>

text \<open>\<open>Op_edit\<close> is anything else that happens to the database: it leaves the runs alone.\<close>

datatype ('w, 's) op =
    Op_dispatch "nat \<Rightarrow> uuid" uuid uuid string bool
  | Op_resume uuid uuid
  | Op_sweep_stale "nat \<Rightarrow> lease_table" int int int
  | Op_sweep_approvals "nat \<Rightarrow> lease_table" int
  | Op_respond bool uuid uuid string json_dict
  | Op_heartbeat uuid
  | Op_finalize uuid string json
  | Op_edit "('w, 's) dispatch_db"

fun apply_op ::
  "('w, 's) dispatch_env \<Rightarrow> instant \<Rightarrow> ('w, 's) op \<Rightarrow> ('w, 's) dispatch_db \<Rightarrow> ('w, 's) dispatch_db" where
  "apply_op env now (Op_dispatch fresh a e w force) db = fst (dispatch_automation env fresh now a e w force db)"
| "apply_op env now (Op_resume request_id k) db = fst (resume_automation_run env request_id now k db)"
| "apply_op env now (Op_sweep_stale leases t stale retries) db =
     (case sweep_stale_running leases t stale retries now db of Inl _ \<Rightarrow> db | Inr (db', _) \<Rightarrow> db')"
| "apply_op env now (Op_sweep_approvals leases t) db =
     (case sweep_expired_approvals leases t now db of Inl _ \<Rightarrow> db | Inr (db', _) \<Rightarrow> db')"
| "apply_op env now (Op_respond q a k choice delta) db =
     (case respond_to_approval q now a k choice delta db of Inl _ \<Rightarrow> db | Inr (db', _) \<Rightarrow> db')"
| "apply_op env now (Op_heartbeat k) db = heartbeat_automation_run k now db"
| "apply_op env now (Op_finalize k status out) db = finalize_automation_run env k status out now db"
| "apply_op env now (Op_edit new) db = new\<lparr>db_runs := db_runs db\<rparr>"

text \<open>New run ids are new, and the worker finalises with its own statuses.\<close>

fun op_ok :: "('w, 's) op \<Rightarrow> ('w, 's) dispatch_db \<Rightarrow> bool" where
  "op_ok (Op_dispatch fresh a e w force) db = (fresh 0 \<notin> rn_id ` set (db_runs db))"
| "op_ok (Op_finalize k status out) db = (status \<in> set worker_statuses)"
| "op_ok _ db = True"

inductive reachable :: "('w, 's) dispatch_env \<Rightarrow> ('w, 's) dispatch_db \<Rightarrow> bool" for env where
  no_runs: "db_runs db = [] \<Longrightarrow> reachable env db"
| op: "reachable env db \<Longrightarrow> op_ok opn db \<Longrightarrow> reachable env (apply_op env now opn db)"

subsection \<open>Well-formed rows\<close>

definition run_statuses :: "string list" where
  "run_statuses = [''queued'', ''preflight'', ''running'', ''waiting_approval'', ''succeeded'', ''failed'', ''expired'',
     ''cancelled'', ''failed_preflight'']"

definition run_row_ok :: "run \<Rightarrow> bool" where
  "run_row_ok r \<longleftrightarrow> rn_status r \<in> set run_statuses \<and> rn_heartbeat_at r \<noteq> None \<and> 0 \<le> rn_retry_count r
     \<and> (rn_status r \<in> set (''failed_preflight'' # terminal_statuses) \<longrightarrow> rn_ended_at r \<noteq> None)"

definition run_key :: "run \<Rightarrow> uuid \<times> uuid option" where
  "run_key r = (rn_automation_id r, rn_event_id r)"

definition runs_ok :: "run list \<Rightarrow> bool" where
  "runs_ok rs \<longleftrightarrow> distinct (map rn_id rs)
     \<and> distinct (map run_key (filter (\<lambda>r. rn_event_id r \<noteq> None) rs)) \<and> list_all run_row_ok rs"

text \<open>An update of a row that keeps its keys and its well-formedness, and a table that evolves by such
  updates of the rows of \<open>K\<close>.\<close>

definition keeps :: "(run \<Rightarrow> run) \<Rightarrow> bool" where
  "keeps f \<longleftrightarrow> (\<forall>r. rn_id (f r) = rn_id r \<and> run_key (f r) = run_key r \<and> (run_row_ok r \<longrightarrow> run_row_ok (f r)))"

definition evolves :: "uuid set \<Rightarrow> run list \<Rightarrow> run list \<Rightarrow> bool" where
  "evolves K = list_all2 (\<lambda>r r'. rn_id r' = rn_id r \<and> run_key r' = run_key r \<and> (run_row_ok r \<longrightarrow> run_row_ok r')
     \<and> (rn_id r \<notin> K \<longrightarrow> r' = r))"

definition upd :: "uuid \<Rightarrow> (run \<Rightarrow> run) \<Rightarrow> run list \<Rightarrow> run list" where
  "upd k f = map (\<lambda>r. if rn_id r = k then f r else r)"

lemma db_runs_update_run [simp]: "db_runs (update_run k f db) = upd k f (db_runs db)"
  by (simp add: update_run_def upd_def)

lemma evolves_refl [intro, simp]: "evolves K rs rs"
  by (simp add: evolves_def list_all2_refl)

lemma evolves_trans: "evolves K rs rs1 \<Longrightarrow> evolves K rs1 rs2 \<Longrightarrow> evolves K rs rs2"
  unfolding evolves_def by (erule list_all2_trans[rotated], assumption) auto

lemma evolves_mono: "evolves K rs rs' \<Longrightarrow> K \<subseteq> L \<Longrightarrow> evolves L rs rs'"
  unfolding evolves_def by (erule list_all2_mono) auto

lemma evolves_one: "keeps f \<Longrightarrow> k \<in> K \<Longrightarrow> evolves K rs (upd k f rs)"
  unfolding evolves_def upd_def keeps_def by (induction rs) auto

lemma evolves_upd [intro]: "evolves K rs rs' \<Longrightarrow> keeps f \<Longrightarrow> k \<in> K \<Longrightarrow> evolves K rs (upd k f rs')"
  by (erule evolves_trans) (rule evolves_one)

lemma evolves_runs_ok:
  assumes "evolves K rs rs'" and "runs_ok rs"
  shows "runs_ok rs'"
proof -
  have ids: "map rn_id rs' = map rn_id rs"
    using assms(1) unfolding evolves_def by (rule list_all2_map_eq) simp
  have keys: "map run_key (filter (\<lambda>r. rn_event_id r \<noteq> None) rs')
      = map run_key (filter (\<lambda>r. rn_event_id r \<noteq> None) rs)"
    using assms(1) unfolding evolves_def by (induction rule: list_all2_induct) (auto simp: run_key_def)
  have "list_all run_row_ok rs \<Longrightarrow> list_all run_row_ok rs'"
    using assms(1) unfolding evolves_def by (induction rule: list_all2_induct) auto
  then show ?thesis using assms(2) unfolding runs_ok_def ids keys by blast
qed

text \<open>A row outside \<open>K\<close> stays in the table.\<close>

lemma evolves_stays: "evolves K rs rs' \<Longrightarrow> r \<in> set rs \<Longrightarrow> rn_id r \<notin> K \<Longrightarrow> r \<in> set rs'"
  unfolding evolves_def by (induction rule: list_all2_induct) auto

lemmas row_defs = keeps_def run_row_ok_def run_key_def run_statuses_def terminal_statuses_def

lemma keeps_end_run [simp]:
  "keeps (end_run ''failed'' why now)" "keeps (end_run ''failed_preflight'' why now)"
  "keeps (end_run ''cancelled'' why now)"
  by (simp_all add: row_defs end_run_def)

lemma keeps_requeue [simp]: "keeps (requeue w now)"
  by (simp add: row_defs requeue_def)

lemma keeps_succeed [simp]: "keeps (succeed now out)"
  by (simp add: row_defs succeed_def)

lemma keeps_columns [simp]:
  "keeps (rn_workflow_version_id_update g)" "keeps (rn_checkpoint_update h)"
  by (simp_all add: row_defs)

lemma keeps_close_run:
  "0 \<le> n \<Longrightarrow> keeps (close_run ''expired'' why n t now)" "0 \<le> n \<Longrightarrow> keeps (close_run ''failed'' why n t now)"
  by (simp_all add: row_defs close_run_def)

lemma keeps_answer_run [simp]: "keeps (answer_run choice now)"
  by (simp add: row_defs answer_run_def end_run_def)

subsection \<open>The dispatcher on the table of runs\<close>

lemma runs_mark_failed_preflight [simp]:
  "db_runs (fst (mark_failed_preflight env now run why st db)) =
     upd (rn_id run) (end_run ''failed_preflight'' why now) (db_runs db)"
  by (simp add: mark_failed_preflight_def emit_run_finished_def)

lemma runs_finalize_failure [simp]:
  "db_runs (fst (finalize_failure env now run why db)) =
     upd (rn_id run) (end_run ''failed'' why now) (db_runs db)"
  by (simp add: finalize_failure_def emit_run_finished_def)

lemma runs_finalize_failureD:
  "finalize_failure env now run why db = (db', res) \<Longrightarrow>
   db_runs db' = upd (rn_id run) (end_run ''failed'' why now) (db_runs db)"
  using runs_finalize_failure[of env now run why db] by simp

lemma runs_audit [simp]: "db_runs (audit_budget_rejection defn run why db) = db_runs db"
  by (simp add: audit_budget_rejection_def split: option.splits)

lemma runs_budget_failure [intro]:
  "evolves K rs (db_runs db) \<Longrightarrow> rn_id run \<in> K \<Longrightarrow>
   evolves K rs (db_runs (fst (budget_failure env now run defn e db)))"
  by (cases e) (auto simp: budget_failure_def Let_def)

lemma runs_reserve_budget [simp]: "db_runs (fst (reserve_budget env now run defn actions db)) = db_runs db"
  by (simp add: reserve_budget_def split: prod.splits)

lemma runs_mark_processed [simp]: "db_runs (mark_processed e now db) = db_runs db"
  by (simp add: mark_processed_def)

lemma runs_deliver: "deliver_and_finalize run defn out db = Some db' \<Longrightarrow> db_runs db' = db_runs db"
  by (auto simp: deliver_and_finalize_def Let_def split: json.splits if_splits)

lemma keeps_record_outcome:
  "keeps (\<lambda>r. r\<lparr>rn_heartbeat_at := Some now, rn_raw_output := Some out\<rparr>)"
  "keeps (\<lambda>r. if rn_status r \<in> set ss then succeed now out r else r)"
  by (simp_all add: row_defs succeed_def)

lemma runs_record_outcome [intro]:
  "evolves K rs (db_runs db) \<Longrightarrow> rn_id run \<in> K \<Longrightarrow> evolves K rs (db_runs (record_outcome now run out db))"
  unfolding record_outcome_def
  by (auto simp del: set_simps list.set intro!: evolves_upd keeps_record_outcome)

lemma keeps_pause:
  "keeps (\<lambda>r. r\<lparr>rn_status := ''waiting_approval'', rn_paused_reason := w, rn_heartbeat_at := Some now,
               rn_contract_breaches := rn_contract_breaches r + 1\<rparr>)"
  "keeps (\<lambda>r. r\<lparr>rn_status := ''queued'', rn_paused_reason := w, rn_retry_count := rn_retry_count r + 1,
               rn_heartbeat_at := Some now\<rparr>)"
  by (simp_all add: row_defs)

lemma runs_serialize_checkpoint:
  "serialize_checkpoint run t state why contract alloc db = Some (db', cp) \<Longrightarrow>
   db_runs db' = upd (rn_id run) (rn_checkpoint_update (\<lambda>_. Some cp)) (db_runs db)"
  by (auto simp: serialize_checkpoint_def Let_def split: if_splits)

lemma runs_checkpoint_and_pause:
  assumes "checkpoint_and_pause env now q run defn a payload breach alloc db = Some (db', res)"
    and "evolves K rs (db_runs db)" and "rn_id run \<in> K"
  shows "evolves K rs (db_runs db')"
proof -
  obtain tool kind why where breach: "breach = (tool, kind, why)" by (cases breach)
  show ?thesis using assms
    by (auto simp: checkpoint_and_pause_def breach Let_def runs_serialize_checkpoint
        split: option.splits intro!: evolves_upd keeps_pause)
qed

lemma runs_schedule_deferred_retry [simp]:
  "db_runs (fst (schedule_deferred_retry pool a e w n db)) = db_runs db"
  by (simp add: schedule_deferred_retry_def)

lemma runs_pressure_fallback [intro]:
  assumes "evolves K rs (db_runs db)" and "rn_id run \<in> K"
  shows "evolves K rs (db_runs (fst (handle_checkpoint_pressure_fallback env now run a e w db)))"
proof -
  obtain inflight got where slot:
    "try_acquire_pressure_slot (compute_cap (en_env_cap env) (en_pool_size env)) (db_inflight db) = (inflight, got)"
    by fastforce
  obtain db1 deferred where retry: "schedule_deferred_retry (en_arq_pool env) a e w (rn_retry_count run)
      (db\<lparr>db_inflight := inflight\<rparr>) = (db1, deferred)"
    by fastforce
  have "db_runs db1 = db_runs db"
    using runs_schedule_deferred_retry[of "en_arq_pool env" a e w "rn_retry_count run" "db\<lparr>db_inflight := inflight\<rparr>"]
    by (simp add: retry)
  then show ?thesis
    using assms by (cases got; cases deferred)
      (auto simp: handle_checkpoint_pressure_fallback_def slot retry Let_def split: prod.splits
        intro!: evolves_upd keeps_pause dest!: runs_finalize_failureD)
qed

lemma runs_execute_and_finish [intro]:
  assumes "evolves K rs (db_runs db)" and "rn_id run \<in> K"
  shows "evolves K rs (db_runs (fst (execute_and_finish env now q run defn actions e w alloc db)))"
proof -
  obtain w' out where route: "route_action env run defn actions (load_event_payload db e) alloc (db_world db) = (w', out)"
    by fastforce
  have world: "evolves K rs (db_runs (db\<lparr>db_world := w'\<rparr>))" using assms(1) by simp
  show ?thesis
  proof (cases out)
    case (Inr result)
    then show ?thesis using assms world
      by (auto simp: execute_and_finish_def route runs_deliver Let_def split: option.splits)
  next
    case (Inl exc)
    note fallback = runs_pressure_fallback[OF world assms(2), of env now "rn_automation_id run" e w]
    show ?thesis using assms world fallback runs_checkpoint_and_pause[OF _ world assms(2)]
      by (cases exc) (auto simp: execute_and_finish_def route Inl Let_def split: option.splits)
  qed
qed

lemma keeps_start:
  "keeps (\<lambda>r. r\<lparr>rn_status := ''preflight'', rn_heartbeat_at := Some now\<rparr>)"
  "keeps (\<lambda>r. r\<lparr>rn_status := ''running'', rn_started_at := Some now, rn_heartbeat_at := Some now\<rparr>)"
  "keeps (\<lambda>r. r\<lparr>rn_status := ''running'', rn_heartbeat_at := Some now\<rparr>)"
  "keeps (\<lambda>r. r\<lparr>rn_heartbeat_at := Some now, rn_worker_id := g r\<rparr>)"
  by (simp_all add: row_defs)

lemma run_by_id_id: "run_by_id db k = Some r \<Longrightarrow> rn_id r = k"
  by (auto simp: run_by_id_def find_Some_iff)

lemma runs_heartbeat [simp]:
  "db_runs (update_run_heartbeat k w now db) = upd k (\<lambda>r. r\<lparr>rn_heartbeat_at := Some now,
     rn_worker_id := (case w of None \<Rightarrow> rn_worker_id r | Some x \<Rightarrow> Some x)\<rparr>) (db_runs db)"
  by (simp add: update_run_heartbeat_def)

lemma runs_budget_and_execute [intro]:
  assumes "evolves K rs (db_runs db)" and "rn_id run \<in> K"
  shows "evolves K rs (db_runs (fst (budget_and_execute env now q run defn e w db)))"
proof -
  define db2 where "db2 = update_run_heartbeat (rn_id run) (Some w) now
    (update_run (rn_id run) (\<lambda>r. r\<lparr>rn_status := ''preflight'', rn_heartbeat_at := Some now\<rparr>) db)"
  define actions where "actions = live_actions (db_flow db2) (ad_id defn)"
  obtain db3 b where budget: "reserve_budget env now run defn actions db2 = (db3, b)" by fastforce
  have two: "evolves K rs (db_runs db2)"
    unfolding db2_def using assms by (auto intro!: evolves_upd keeps_start)
  then have three: "evolves K rs (db_runs db3)"
    using runs_reserve_budget[of env now run defn actions db2] by (simp add: budget)
  then show ?thesis
    using assms two
    by (auto simp: budget_and_execute_def Let_def db2_def[symmetric] actions_def[symmetric] budget
        split: sum.splits option.splits dest!: run_by_id_id
        intro!: evolves_upd keeps_start runs_execute_and_finish runs_budget_failure)
qed

lemma stamp_version_runs:
  assumes "stamp_version env v run defn db = (db', run', defn')"
    and "evolves K rs (db_runs db)" and "rn_id run \<in> K"
  shows "evolves K rs (db_runs db') \<and> rn_id run' = rn_id run"
  using assms by (auto simp: stamp_version_def Let_def intro!: evolves_upd split: if_splits prod.splits)

lemma bind_workspace_runs: "bind_workspace p defn db = Inr (db', defn') \<Longrightarrow> db_runs db' = db_runs db"
  by (auto simp: bind_workspace_def ensure_user_automation_workspace_def Let_def
      split: if_splits sum.splits option.splits)

lemma runs_enter_flow [intro]:
  assumes "evolves K rs (db_runs db)" and "rn_id run \<in> K"
  shows "evolves K rs (db_runs (fst (enter_flow env fresh now run a e w db)))"
proof (cases "db_defs db a")
  case None
  then show ?thesis using assms by (auto simp: enter_flow_def)
next
  case (Some defn)
  obtain db1 run1 defn1 where stamp: "stamp_version env (fresh (Suc 0)) run defn db = (db1, run1, defn1)"
    by (cases "stamp_version env (fresh (Suc 0)) run defn db") auto
  show ?thesis
    using assms stamp_version_runs[OF stamp assms]
    by (auto simp: enter_flow_def Some stamp bind_workspace_runs split: option.splits sum.splits)
qed

lemma runs_enter_flow_own:
  "evolves {rn_id run} (db_runs db) (db_runs (fst (enter_flow env fresh now run a e w db)))"
  by (rule runs_enter_flow) simp_all

text \<open>What claims a run: a row that is there is claimed in one status only, a new row has a new key.\<close>

lemma replay_decision_cases:
  "run_row_ok r \<Longrightarrow> replay_decision False r = None \<longleftrightarrow> rn_status r = ''failed_preflight''"
  by (auto simp: replay_decision_def run_row_ok_def run_statuses_def terminal_statuses_def inflight_statuses_def
      retryable_statuses_def)

lemma dispatch_replay:
  "run_for db a e = Some r \<Longrightarrow> replay_decision force r = Some res \<Longrightarrow>
   dispatch_automation env fresh now a e w force db = (db, Some res)"
  by (simp add: dispatch_automation_def claim_run_def upsert_run_def)

lemma run_for_Some:
  "run_for db a e = Some r \<Longrightarrow> r \<in> set (db_runs db) \<and> rn_automation_id r = a \<and> rn_event_id r = Some e"
  by (auto simp: run_for_def find_Some_iff)

lemma run_for_None: "run_for db a e = None \<Longrightarrow> r \<in> set (db_runs db) \<Longrightarrow> run_key r \<noteq> (a, Some e)"
  by (auto simp: run_for_def find_None_iff run_key_def)

lemma run_row_in: "runs_ok rs \<Longrightarrow> r \<in> set rs \<Longrightarrow> run_row_ok r"
  by (simp add: runs_ok_def list_all_iff)

lemma runs_ok_insert:
  assumes "runs_ok (db_runs db)" and "k \<notin> rn_id ` set (db_runs db)" and "run_for db a e = None"
  shows "runs_ok (db_runs db @ [fresh_run k a e w now])"
proof -
  have "(a, Some e) \<notin> run_key ` set (filter (\<lambda>r. rn_event_id r \<noteq> None) (db_runs db))"
    using run_for_None[OF assms(3)] by (auto dest!: sym[of "(a, Some e)"])
  moreover have "run_row_ok (fresh_run k a e w now)"
    by (simp add: row_defs fresh_run_def)
  ultimately show ?thesis
    using assms(1,2) unfolding runs_ok_def by (auto simp: fresh_run_def run_key_def)
qed

lemma runs_claim:
  assumes "runs_ok (db_runs db)" and "k \<notin> rn_id ` set (db_runs db)"
    and "claim_run db k a e w force now = (db', Inr run)"
  shows "runs_ok (db_runs db')"
    and "\<not> force \<Longrightarrow> r \<in> set (db_runs db) \<Longrightarrow> rn_status r \<in> set terminal_statuses
      \<Longrightarrow> r \<in> set (db_runs db') \<and> rn_id r \<noteq> rn_id run"
proof -
  have "runs_ok (db_runs db') \<and> (\<not> force \<longrightarrow> r \<in> set (db_runs db) \<longrightarrow> rn_status r \<in> set terminal_statuses
      \<longrightarrow> r \<in> set (db_runs db') \<and> rn_id r \<noteq> rn_id run)"
  proof (cases "run_for db a e")
    case None
    with assms show ?thesis
      using runs_ok_insert[OF assms(1,2) None]
      by (auto simp: claim_run_def upsert_run_def Let_def fresh_run_def)
  next
    case (Some old)
    note row = run_for_Some[OF Some]
    have claim: "db' = update_run (rn_id old) (requeue w now) db" "rn_id run = rn_id old"
      "replay_decision force old = None"
      using assms(3) by (auto simp: claim_run_def upsert_run_def Some requeue_def split: option.splits)
    have evo: "evolves {rn_id old} (db_runs db) (db_runs db')"
      by (auto simp: claim(1) intro!: evolves_upd)
    have other: "rn_id r \<noteq> rn_id old"
      if "\<not> force" "r \<in> set (db_runs db)" "rn_status r \<in> set terminal_statuses"
    proof
      assume "rn_id r = rn_id old"
      then have "r = old"
        using assms(1) row that(2) unfolding runs_ok_def by (auto dest: map_inj_on distinct_map[THEN iffD1] inj_onD)
      then show False
        using claim(3) that run_row_in[OF assms(1)] row replay_decision_cases[of old]
        by (auto simp: terminal_statuses_def)
    qed
    show ?thesis
      using evolves_runs_ok[OF evo assms(1)] evolves_stays[OF evo] other claim(2) by auto
  qed
  then show "runs_ok (db_runs db')"
    and "\<not> force \<Longrightarrow> r \<in> set (db_runs db) \<Longrightarrow> rn_status r \<in> set terminal_statuses
      \<Longrightarrow> r \<in> set (db_runs db') \<and> rn_id r \<noteq> rn_id run" by auto
qed

subsection \<open>The other operations on the table of runs\<close>

lemma runs_finish_redispatch:
  assumes "evolves K rs (db_runs db)" and "rn_id run \<in> K"
  shows "evolves K rs (db_runs (fst (finish_redispatch env now run defn out db)))"
  using assms
  by (auto simp: finish_redispatch_def runs_deliver intro!: evolves_upd split: option.splits)

lemma runs_resume_flow:
  assumes "evolves K rs (db_runs db)" and "rn_id run \<in> K"
  shows "evolves K rs (db_runs (fst (resume_flow env q now run defn a cp db)))"
proof (cases "resume_with_strategy env run defn a cp (db_world db)")
  case None
  then show ?thesis using assms by (auto simp: resume_flow_def)
next
  case (Some wo)
  obtain w out where wo: "wo = (w, out)" by (cases wo)
  have world: "evolves K rs (db_runs (db\<lparr>db_world := w\<rparr>))" using assms(1) by simp
  show ?thesis
  proof (cases out)
    case (Inr result)
    then show ?thesis
      using world runs_finish_redispatch[OF world assms(2)] by (auto simp: resume_flow_def Some wo Let_def)
  next
    case (Inl exc)
    show ?thesis
      using assms world runs_checkpoint_and_pause[OF _ world assms(2)]
      by (cases exc) (auto simp: resume_flow_def Some wo Inl Let_def split: option.splits)
  qed
qed

text \<open>A resumption touches one row, and that row was not terminal.\<close>

lemma runs_resume:
  assumes "runs_ok (db_runs db)"
  shows "\<exists>K. evolves K (db_runs db) (db_runs (fst (resume_automation_run env q now k db)))
    \<and> (\<forall>r \<in> set (db_runs db). rn_status r \<in> set terminal_statuses \<longrightarrow> rn_id r \<notin> K)"
proof (cases "Option.bind (run_by_id db k) rn_checkpoint")
  case None
  then show ?thesis by (auto simp: resume_automation_run_def intro!: exI[of _ "{}"])
next
  case (Some cp)
  show ?thesis
  proof (cases "run_by_id db (cp_run_id cp)")
    case None
    with Some show ?thesis by (auto simp: resume_automation_run_def resume_run_def intro!: exI[of _ "{}"])
  next
    case (Some run)
    note cp = \<open>Option.bind (run_by_id db k) rn_checkpoint = Some cp\<close>
    have row: "run \<in> set (db_runs db)" using Some by (auto simp: run_by_id_def find_Some_iff)
    show ?thesis
    proof (cases "rn_status run \<in> set terminal_statuses")
      case True
      then have "rn_status run \<notin> set [''waiting_approval'', ''queued'', ''paused'']"
        by (auto simp: terminal_statuses_def)
      with Some cp show ?thesis
        by (auto simp: resume_automation_run_def resume_run_def simp del: set_simps list.set intro!: exI[of _ "{}"])
    next
      case False
      let ?K = "{rn_id run}"
      have evo: "evolves ?K (db_runs db) (db_runs (fst (resume_run env q now cp db)))"
        using Some by (auto simp: resume_run_def Let_def simp del: set_simps list.set
            intro!: evolves_upd runs_resume_flow keeps_start split: option.splits list.splits)
      have "rn_id r \<notin> ?K" if "r \<in> set (db_runs db)" "rn_status r \<in> set terminal_statuses" for r
        using that False row assms unfolding runs_ok_def by (auto simp: distinct_map inj_on_def)
      then show ?thesis
        using evo cp by (auto simp: resume_automation_run_def intro!: exI[of _ ?K])
    qed
  qed
qed

lemma runs_sweep_row:
  assumes "sweep_row t m now r db = (db', jobs)" and "0 \<le> rn_retry_count r"
  shows "evolves {rn_id r} (db_runs db) (db_runs db')"
  using assms by (auto simp: sweep_row_def Let_def keeps_close_run intro!: evolves_upd split: if_splits)

lemma runs_sweep_rows:
  assumes "sweep_rows leases t m now i rows db = Inr (db', jobs)"
    and "\<forall>r \<in> set rows. 0 \<le> rn_retry_count r"
  shows "evolves (rn_id ` set rows) (db_runs db) (db_runs db')"
  using assms
proof (induction rows arbitrary: i db jobs)
  case Nil
  then show ?case by (simp split: option.splits)
next
  case (Cons r rs)
  obtain db1 jobs1 where row: "sweep_row t m now r db = (db1, jobs1)" by fastforce
  obtain jobs2 where rest: "sweep_rows leases t m now (Suc i) rs db1 = Inr (db', jobs2)"
    using Cons.prems(1) by (auto simp: row split: option.splits sum.splits)
  have "evolves {rn_id r} (db_runs db) (db_runs db1)"
    using runs_sweep_row[OF row] Cons.prems(2) by simp
  moreover have "evolves (rn_id ` set rs) (db_runs db1) (db_runs db')"
    using Cons.IH[OF rest] Cons.prems(2) by simp
  ultimately have "evolves (rn_id ` set (r # rs)) (db_runs db) (db_runs db1)"
    and "evolves (rn_id ` set (r # rs)) (db_runs db1) (db_runs db')"
    by (auto elim!: evolves_mono)
  then show ?case by (rule evolves_trans)
qed

text \<open>Every job is for a run that the sweep has expired.\<close>

lemma upd_in: "r \<in> set rs \<Longrightarrow> rn_id r = k \<Longrightarrow> f r \<in> set (upd k f rs)"
  by (auto simp: upd_def intro!: image_eqI[of _ _ r])

lemma sweep_rows_jobs:
  assumes "sweep_rows leases t m now i rows db = Inr (db', jobs)" and "(k, a, e) \<in> set jobs"
    and "distinct (map rn_id rows)" and "set rows \<subseteq> set (db_runs db)"
    and "\<forall>r \<in> set rows. 0 \<le> rn_retry_count r"
  shows "\<exists>r \<in> set (db_runs db'). rn_id r = k \<and> run_key r = (a, Some e) \<and> rn_status r = ''expired''"
  using assms
proof (induction rows arbitrary: i db jobs)
  case Nil
  then show ?case by (auto split: option.splits)
next
  case (Cons r rs)
  obtain db1 jobs1 where row: "sweep_row t m now r db = (db1, jobs1)" by fastforce
  obtain jobs2 where rest: "sweep_rows leases t m now (Suc i) rs db1 = Inr (db', jobs2)"
    and jobs: "jobs = jobs1 @ jobs2"
    using Cons.prems(1) by (auto simp: row split: option.splits sum.splits)
  have later: "evolves (rn_id ` set rs) (db_runs db1) (db_runs db')"
    using runs_sweep_rows[OF rest] Cons.prems(5) by simp
  show ?case
  proof (cases "(k, a, e) \<in> set jobs1")
    case True
    define r1 where "r1 = close_run ''expired'' Heartbeat_lost (rn_retry_count r + 1) t now r"
    have "db_runs db1 = upd (rn_id r) (close_run ''expired'' Heartbeat_lost (rn_retry_count r + 1) t now) (db_runs db)"
      and id: "k = rn_id r" "(a, Some e) = run_key r"
      using True row by (auto simp: sweep_row_def Let_def run_key_def split: if_splits)
    then have "r1 \<in> set (db_runs db1)"
      using upd_in[of r "db_runs db" "rn_id r"] Cons.prems(4) by (simp add: r1_def)
    then have "r1 \<in> set (db_runs db')"
      using evolves_stays[OF later] Cons.prems(3) by (auto simp: r1_def close_run_def)
    then show ?thesis using id by (auto simp: r1_def close_run_def run_key_def intro!: bexI[of _ r1])
  next
    case False
    have one: "evolves {rn_id r} (db_runs db) (db_runs db1)"
      using runs_sweep_row[OF row] Cons.prems(5) by simp
    have "x \<in> set (db_runs db1)" if "x \<in> set rs" for x
    proof (rule evolves_stays[OF one])
      show "x \<in> set (db_runs db)" using that Cons.prems(4) by auto
      have "rn_id x \<in> rn_id ` set rs" using that by (rule imageI)
      then show "rn_id x \<notin> {rn_id r}" using Cons.prems(3) by auto
    qed
    then have "set rs \<subseteq> set (db_runs db1)" by auto
    then show ?thesis
      using Cons.IH[OF rest] False jobs Cons.prems(2,3,5) by auto
  qed
qed

lemma sweep_stale_jobs:
  assumes ok: "runs_ok (db_runs db)" and "sweep_stale_running leases t stale m now db = Inr (db', jobs)"
    and "(k, a, e) \<in> set jobs"
  shows "\<exists>r \<in> set (db_runs db'). rn_id r = k \<and> run_key r = (a, Some e) \<and> rn_status r = ''expired''"
proof -
  define rows where "rows = take batch_limit (filter (is_stale (now - stale)) (db_runs db))"
  have sub: "set rows \<subseteq> set (db_runs db)" unfolding rows_def by (auto dest!: in_set_takeD)
  have dist: "distinct (map rn_id rows)"
    using ok unfolding rows_def runs_ok_def by (simp add: take_map[symmetric] distinct_take distinct_map_filter)
  have nonneg: "\<forall>r \<in> set rows. 0 \<le> rn_retry_count r"
    using sub run_row_in[OF ok] by (auto simp: run_row_ok_def)
  have "sweep_rows leases t m now 0 rows db = Inr (db', jobs)"
    using assms(2,3) by (auto simp: sweep_stale_running_def rows_def[symmetric] split: if_splits)
  then show ?thesis by (rule sweep_rows_jobs) (use assms(3) dist sub nonneg in auto)
qed

lemma runs_sweep_stale:
  assumes "runs_ok (db_runs db)" and "sweep_stale_running leases t stale m now db = Inr (db', jobs)"
  shows "\<exists>K. evolves K (db_runs db) (db_runs db')
    \<and> (\<forall>r \<in> set (db_runs db). rn_status r \<in> set terminal_statuses \<longrightarrow> rn_id r \<notin> K)"
proof -
  define rows where "rows = take batch_limit (filter (is_stale (now - stale)) (db_runs db))"
  have sub: "set rows \<subseteq> set (db_runs db)" and stale: "\<forall>r \<in> set rows. rn_status r = ''running''"
    unfolding rows_def by (auto dest!: in_set_takeD simp: is_stale_def)
  have nonneg: "\<forall>r \<in> set rows. 0 \<le> rn_retry_count r"
    using sub run_row_in[OF assms(1)] by (auto simp: run_row_ok_def)
  have "evolves (rn_id ` set rows) (db_runs db) (db_runs db')"
    using assms(2) runs_sweep_rows[OF _ nonneg]
    by (auto simp: sweep_stale_running_def rows_def[symmetric] split: if_splits)
  moreover have "rn_id r \<notin> rn_id ` set rows"
    if r: "r \<in> set (db_runs db)" "rn_status r \<in> set terminal_statuses" for r
  proof
    assume "rn_id r \<in> rn_id ` set rows"
    then obtain r' where "r' \<in> set rows" "rn_id r' = rn_id r" by auto
    then have "r' = r"
      using assms(1) sub r(1) unfolding runs_ok_def by (auto simp: distinct_map inj_on_def)
    then show False using stale \<open>r' \<in> set rows\<close> r(2) by (auto simp: terminal_statuses_def)
  qed
  ultimately show ?thesis by blast
qed

lemma keeps_time_out:
  "keeps (\<lambda>r. r\<lparr>rn_status := ''failed'', rn_ended_at := Some now, rn_paused_reason := w, rn_lease_term := t\<rparr>)"
  by (simp add: row_defs)

lemma runs_time_out_requests:
  "time_out_requests leases t now i qs db = Inr db' \<Longrightarrow> evolves UNIV (db_runs db) (db_runs db')"
proof (induction qs arbitrary: i db)
  case Nil
  then show ?case by (simp split: option.splits)
next
  case (Cons q qs)
  have "evolves UNIV (db_runs db) (db_runs (time_out_request t now q db))"
    by (auto simp: time_out_request_def update_request_def intro!: evolves_upd keeps_time_out)
  moreover have "evolves UNIV (db_runs (time_out_request t now q db)) (db_runs db')"
    using Cons by (auto split: option.splits)
  ultimately show ?case by (rule evolves_trans)
qed

lemma keeps_finalize:
  "status \<in> set worker_statuses \<Longrightarrow>
   keeps (\<lambda>r. if rn_status r \<in> set non_terminal_statuses
              then r\<lparr>rn_status := status, rn_ended_at := Some now, rn_heartbeat_at := Some now,
                     rn_raw_output := out\<rparr> else r)"
  "keeps (\<lambda>r. if rn_status r = ''running'' then r\<lparr>rn_heartbeat_at := Some now\<rparr> else r)"
  by (auto simp: row_defs worker_statuses_def)

lemma runs_finalize [simp]:
  "db_runs (finalize_automation_run env k status out now db) =
     upd k (\<lambda>r. if rn_status r \<in> set non_terminal_statuses
              then r\<lparr>rn_status := status, rn_ended_at := Some now, rn_heartbeat_at := Some now,
                     rn_raw_output := Some out\<rparr> else r) (db_runs db)"
  by (simp add: finalize_automation_run_def Let_def emit_run_finished_def del: set_simps list.set
      split: option.splits)

lemma upd_stays: "r \<in> set rs \<Longrightarrow> f r = r \<Longrightarrow> r \<in> set (upd k f rs)"
  by (auto simp: upd_def image_iff intro!: bexI[of _ r])

subsection \<open>Every operation keeps the table well formed\<close>

lemma apply_op_runs_ok:
  assumes ok: "runs_ok (db_runs db)" and "op_ok opn db"
  shows "runs_ok (db_runs (apply_op env now opn db))"
proof (cases opn)
  case (Op_dispatch fresh a e w force)
  obtain db1 c where claim: "claim_run db (fresh 0) a e w force now = (db1, c)" by fastforce
  show ?thesis
  proof (cases c)
    case (Inl result)
    then have "db1 = db"
      using claim by (auto simp: claim_run_def upsert_run_def Let_def split: option.splits)
    with ok Inl claim Op_dispatch show ?thesis by (simp add: dispatch_automation_def)
  next
    case (Inr run)
    have "runs_ok (db_runs db1)"
      using runs_claim(1)[OF ok _ claim[unfolded Inr]] assms(2) Op_dispatch by simp
    then show ?thesis
      using evolves_runs_ok[OF runs_enter_flow_own[of run db1 env fresh now a e w]]
      by (simp add: Op_dispatch dispatch_automation_def claim Inr)
  qed
next
  case (Op_resume q k)
  then show ?thesis using runs_resume[OF ok, of env q now k] evolves_runs_ok[OF _ ok] by auto
next
  case (Op_sweep_stale leases t stale m)
  then show ?thesis using ok runs_sweep_stale[OF ok, of leases t stale m now] evolves_runs_ok[OF _ ok]
    by (force split: sum.splits)
next
  case (Op_sweep_approvals leases t)
  then show ?thesis
    using ok evolves_runs_ok[OF runs_time_out_requests ok]
    by (auto simp: sweep_expired_approvals_def Let_def split: sum.splits if_splits)
next
  case (Op_respond q a k choice delta)
  have "runs_ok (upd i (answer_run choice now) (db_runs db))" for i
    by (rule evolves_runs_ok[OF evolves_one[where K = UNIV] ok]) simp_all
  then show ?thesis
    using ok by (auto simp: Op_respond respond_to_approval_def Let_def update_request_def
        split: sum.splits option.splits if_splits)
next
  case (Op_heartbeat k)
  then show ?thesis
    using evolves_runs_ok[OF evolves_one[where K = UNIV] ok] keeps_finalize(2)
    by (simp add: heartbeat_automation_run_def)
next
  case (Op_finalize k status out)
  then show ?thesis
    using evolves_runs_ok[OF evolves_one[where K = UNIV] ok] keeps_finalize(1) assms(2) by simp
qed (use ok in simp)

lemma reachable_runs_ok: "reachable env db \<Longrightarrow> runs_ok (db_runs db)"
  by (induction rule: reachable.induct) (simp_all add: runs_ok_def[of "[]"] apply_op_runs_ok)

lemma unique_run_for:
  assumes "runs_ok rs"
  shows "length (filter (\<lambda>r. rn_automation_id r = a \<and> rn_event_id r = Some e) rs) \<le> 1"
proof -
  define P where "P = (\<lambda>r::run. rn_automation_id r = a \<and> rn_event_id r = Some e)"
  have same: "filter P rs = filter P (filter (\<lambda>r. rn_event_id r \<noteq> None) rs)"
    by (auto simp: P_def intro!: filter_cong)
  have keys: "distinct (map run_key (filter P (filter (\<lambda>r. rn_event_id r \<noteq> None) rs)))"
    using assms unfolding runs_ok_def by (blast intro: distinct_map_filter[of run_key "filter _ rs"])
  have "\<forall>r \<in> set (filter P rs). run_key r = (a, Some e)" by (auto simp: P_def run_key_def)
  then have "set (map run_key (filter P rs)) \<subseteq> {(a, Some e)}" by auto
  then have "length (map run_key (filter P rs)) \<le> 1"
    using keys[folded same] by (metis card_mono distinct_card finite.emptyI finite.insertI is_singletonI is_singleton_altdef)
  then show ?thesis by (simp add: P_def)
qed

lemma dispatch_terminal_stays:
  assumes ok: "runs_ok (db_runs db)" and fresh: "fresh 0 \<notin> rn_id ` set (db_runs db)"
    and r: "r \<in> set (db_runs db)" "rn_status r \<in> set terminal_statuses"
  shows "r \<in> set (db_runs (fst (dispatch_automation env fresh now a e w False db)))"
proof -
  obtain db1 c where claim: "claim_run db (fresh 0) a e w False now = (db1, c)" by fastforce
  show ?thesis
  proof (cases c)
    case (Inl result)
    then have "db1 = db"
      using claim by (auto simp: claim_run_def upsert_run_def Let_def split: option.splits)
    with r Inl claim show ?thesis by (simp add: dispatch_automation_def)
  next
    case (Inr run)
    have "r \<in> set (db_runs db1) \<and> rn_id r \<noteq> rn_id run"
      using runs_claim(2)[OF ok fresh claim[unfolded Inr] _ r] by simp
    then show ?thesis
      using evolves_stays[OF runs_enter_flow_own[of run db1 env fresh now a e w], of r]
      by (simp add: dispatch_automation_def claim Inr)
  qed
qed

text \<open>The operations that answer an approval, and a dispatch that forces a retry, may reopen a run.\<close>

fun reopens :: "('w, 's) op \<Rightarrow> bool" where
  "reopens (Op_dispatch fresh a e w force) = force"
| "reopens (Op_sweep_approvals leases t) = True"
| "reopens (Op_respond q a k choice delta) = True"
| "reopens _ = False"

lemma apply_op_terminal_stays:
  assumes ok: "runs_ok (db_runs db)" and "op_ok opn db" and "\<not> reopens opn"
    and r: "r \<in> set (db_runs db)" "rn_status r \<in> set terminal_statuses"
  shows "r \<in> set (db_runs (apply_op env now opn db))"
proof (cases opn)
  case (Op_dispatch fresh a e w force)
  then show ?thesis using assms dispatch_terminal_stays[OF ok _ r] by simp
next
  case (Op_resume q k)
  obtain K where "evolves K (db_runs db) (db_runs (fst (resume_automation_run env q now k db)))" "rn_id r \<notin> K"
    using runs_resume[OF ok] r by blast
  then show ?thesis using evolves_stays r(1) by (simp add: Op_resume)
next
  case (Op_sweep_stale leases t stale m)
  then show ?thesis
    using r runs_sweep_stale[OF ok, of leases t stale m now] by (auto split: sum.splits dest: evolves_stays)
next
  case (Op_heartbeat k)
  then show ?thesis
    using r by (auto simp: heartbeat_automation_run_def terminal_statuses_def intro!: upd_stays)
next
  case (Op_finalize k status out)
  have "rn_status r \<notin> set non_terminal_statuses"
    using r(2) by (auto simp: non_terminal_statuses_def terminal_statuses_def)
  then show ?thesis using r(1) by (auto simp: Op_finalize intro!: upd_stays)
qed (use assms in simp_all)

subsection \<open>An example\<close>

text \<open>An automation with one agent action, whose executor enqueues the task.\<close>

definition x_exec :: "nat executor" where
  "x_exec w run defn action payload alloc = (Suc w, Inr (J_obj [(''enqueued'', J_bool True)]))"

definition x_send :: "nat executor" where
  "x_send w run defn action payload alloc = (Suc w, Inr (J_obj [(''delivered'', J_bool True)]))"

definition x_breach :: "nat executor" where
  "x_breach w run defn action payload alloc =
     (w, Inl (Contract_breach_exc ''bash_exec'' (Some ''tool_disallowed'') None))"

definition x_env :: "(nat, budget_key fake_redis) dispatch_env" where
  "x_env = \<lparr>en_sha256 = (\<lambda>_. ''h''), en_dec = (\<lambda>_. None), en_redis = fake_api, en_mint = (\<lambda>_. None),
     en_str = (\<lambda>_. []), en_format = (\<lambda>_ _. None), en_tool = (\<lambda>_. Some True), en_fanout = (\<lambda>w _ _ _. w),
     en_engine = x_breach, en_agent_run = x_exec, en_agent_run_tier1 = x_exec, en_app_invoke = x_send,
     en_gateway_send = x_send, en_enqueue = (\<lambda>w _ _. Suc w), en_pool_size = 10, en_env_cap = None,
     en_arq_pool = True\<rparr>"

definition x_contract :: json where
  "x_contract = J_obj [(''allowed_tools'', J_list []), (''max_compute_tier'', J_int 0)]"

definition x_defn :: automation_row where
  "x_defn = \<lparr>ad_id = 1, ad_name = ''digest'', ad_contract = x_contract, ad_max_compute_tier = Some 0,
     ad_max_spend_per_run = J_null, ad_max_spend_per_day = J_null, ad_compute_profile = None,
     ad_workspace_scope = Some ''none'', ad_head_version_id = None, ad_owner_user_id = 2, ad_team_id = None,
     ad_parent_automation_id = None, ad_workspace_project_id = None, ad_target_project_id = None,
     ad_is_active = True\<rparr>"

definition x_action :: "uuid \<Rightarrow> int \<Rightarrow> string \<Rightarrow> action" where
  "x_action k ordinal kind = \<lparr>ac_id = k, ac_ordinal = ordinal, ac_type = kind, ac_config = J_obj [],
     ac_app_action_id = None, ac_parent_action_id = None, ac_branch_condition = J_null\<rparr>"

definition x_db :: "action list \<Rightarrow> (nat, budget_key fake_redis) dispatch_db" where
  "x_db actions = \<lparr>db_runs = [], db_defs = [1 \<mapsto> x_defn],
     db_flow = \<lparr>t_actions = map (Pair 1) actions, t_triggers = [], t_targets = [], t_versions = []\<rparr>,
     db_approvals = [], db_receipts = [], db_events = [5 \<mapsto> \<lparr>ev_payload = [], ev_processed_at = None\<rparr>],
     db_personal_team = Map.empty, db_workspaces = Map.empty, db_audit = [], db_finished = [],
     db_budget = None, db_inflight = None, db_deferred = [], db_world = 0\<rparr>"

definition x_run :: "action list \<Rightarrow> (nat, budget_key fake_redis) dispatch_db" where
  "x_run actions = fst (dispatch_automation x_env (\<lambda>n. 100 + n) 0 1 5 ''w'' False (x_db actions))"

lemma x_run_running:
  "map (\<lambda>r. (rn_id r, rn_status r, rn_heartbeat_at r)) (db_runs (x_run [x_action 7 0 ''agent.run'']))
     = [(100, ''running'', Some 0)]"
  by code_simp

lemma x_run_reachable: "reachable x_env (x_run actions)"
proof -
  have "reachable x_env (x_db actions)" by (rule no_runs) (simp add: x_db_def)
  then have "reachable x_env (apply_op x_env 0 (Op_dispatch (\<lambda>n. 100 + n) 1 5 ''w'' False) (x_db actions))"
    by (rule op) (simp add: x_db_def)
  then show ?thesis by (simp add: x_run_def)
qed

subsection \<open>Properties\<close>

text \<open>C10: in every state the operations reach, an automation and an event have one run at most, run ids are
  unique, every run has one of nine statuses, a heartbeat and a non-negative retry count, and a run that
  has ended has the time of its end.\<close>

theorem run_table_invariant:
  assumes "reachable env db"
  shows "distinct (map rn_id (db_runs db))
    \<and> length (filter (\<lambda>r. rn_automation_id r = a \<and> rn_event_id r = Some e) (db_runs db)) \<le> 1
    \<and> list_all (\<lambda>r. rn_status r \<in> set run_statuses \<and> rn_heartbeat_at r \<noteq> None \<and> 0 \<le> rn_retry_count r
         \<and> (rn_status r \<in> set (''failed_preflight'' # terminal_statuses) \<longrightarrow> rn_ended_at r \<noteq> None)) (db_runs db)"
  using reachable_runs_ok[OF assms] unique_run_for[OF reachable_runs_ok[OF assms]]
  unfolding runs_ok_def run_row_ok_def by blast

theorem run_table_invariant_witness:
  "db_runs (x_run [x_action 7 0 ''agent.run'']) \<noteq> []
    \<and> distinct (map rn_id (db_runs (x_run [x_action 7 0 ''agent.run''])))"
  using run_table_invariant[OF x_run_reachable[of "[x_action 7 0 ''agent.run'']"]] x_run_running by auto



text \<open>A run that has succeeded, failed, expired or been cancelled stays as it is, whatever happens, short
  of a forced retry and of an answer to (or the end of) one of its approval requests.\<close>

theorem terminal_runs_stay:
  assumes "reachable env db" and "op_ok opn db" and "\<not> reopens opn"
    and "r \<in> set (db_runs db)" and "rn_status r \<in> set terminal_statuses"
  shows "r \<in> set (db_runs (apply_op env now opn db))"
  using apply_op_terminal_stays[OF reachable_runs_ok] assms by blast

theorem terminal_runs_stay_witness:
  "\<exists>r. rn_status r = ''succeeded'' \<and> r \<in> set (db_runs (x_run [x_action 7 0 ''gateway.send'']))
    \<and> r \<in> set (db_runs (apply_op x_env 9 (Op_finalize 100 ''failed'' J_null) (x_run [x_action 7 0 ''gateway.send''])))"
proof -
  have "map rn_status (db_runs (x_run [x_action 7 0 ''gateway.send''])) = [''succeeded'']" by code_simp
  then obtain r where r: "db_runs (x_run [x_action 7 0 ''gateway.send'']) = [r]" "rn_status r = ''succeeded''"
    by (auto simp: map_eq_Cons_conv)
  have "r \<in> set (db_runs (apply_op x_env 9 (Op_finalize 100 ''failed'' J_null)
      (x_run [x_action 7 0 ''gateway.send''])))"
    by (rule terminal_runs_stay[OF x_run_reachable]) (simp_all add: r worker_statuses_def terminal_statuses_def)
  then show ?thesis using r by auto
qed

lemma run_for_unique:
  assumes "runs_ok (db_runs db)" and "r \<in> set (db_runs db)" and "run_key r = (a, Some e)"
  shows "run_for db a e = Some r"
proof (cases "run_for db a e")
  case None
  with run_for_None[OF None assms(2)] assms(3) show ?thesis by simp
next
  case (Some r')
  let ?P = "\<lambda>r. rn_automation_id r = a \<and> rn_event_id r = Some e"
  have "r \<in> set (filter ?P (db_runs db))" "r' \<in> set (filter ?P (db_runs db))"
    using assms(2,3) run_for_Some[OF Some] by (auto simp: run_key_def)
  then have "r' = r"
    using unique_run_for[OF assms(1), of a e] by (cases "filter ?P (db_runs db)") auto
  with Some show ?thesis by simp
qed

text \<open>A run whose worker has died is not recovered.  The sweep marks it expired and enqueues a dispatch of
  its event to run it again; that dispatch, and every later one, finds an expired run, counts it as
  finished and changes nothing.\<close>

theorem lost_run_is_not_retried:
  assumes "reachable env db" and "sweep_stale_running leases t stale m now db = Inr (db', jobs)"
    and "(k, a, e) \<in> set jobs"
  shows "\<exists>why. dispatch_automation env fresh now' a e w False db' =
    (db', Some \<lparr>dr_status = D_noop_terminal, dr_run_id = k, dr_run_status = ''expired'', dr_reason = Some why\<rparr>)"
proof -
  have ok: "runs_ok (db_runs db)" by (rule reachable_runs_ok[OF assms(1)])
  obtain r where r: "r \<in> set (db_runs db')" "rn_id r = k" "run_key r = (a, Some e)" "rn_status r = ''expired''"
    using sweep_stale_jobs[OF ok assms(2,3)] by blast
  have "runs_ok (db_runs db')"
    using runs_sweep_stale[OF ok assms(2)] evolves_runs_ok[OF _ ok] by blast
  then have "run_for db' a e = Some r" by (rule run_for_unique) (use r in auto)
  then show ?thesis
    using r dispatch_replay[of db' a e r False _ env fresh now' w]
    by (auto simp: replay_decision_def terminal_statuses_def Let_def)
qed

definition x_leases :: "nat \<Rightarrow> lease_table" where
  "x_leases i = [''controller'' \<mapsto> \<lparr>lr_holder = Some ''c'', lr_term = 3, lr_expires = Some 2000\<rparr>]"

theorem lost_run_is_not_retried_witness:
  "\<exists>db' why. sweep_stale_running x_leases 3 90 3 1000 (x_run [x_action 7 0 ''agent.run'']) = Inr (db', [(100, 1, 5)])
    \<and> dispatch_automation x_env (\<lambda>n. 200 + n) 1001 1 5 ''w2'' False db' =
     (db', Some \<lparr>dr_status = D_noop_terminal, dr_run_id = 100, dr_run_status = ''expired'', dr_reason = Some why\<rparr>)"
proof -
  have "(case sweep_stale_running x_leases 3 90 3 1000 (x_run [x_action 7 0 ''agent.run'']) of
      Inl _ \<Rightarrow> None | Inr (db', jobs) \<Rightarrow> Some jobs) = Some [(100, 1, 5)]"
    by code_simp
  then obtain db' where swept:
    "sweep_stale_running x_leases 3 90 3 1000 (x_run [x_action 7 0 ''agent.run'']) = Inr (db', [(100, 1, 5)])"
    by (auto split: sum.splits)
  show ?thesis
    using lost_run_is_not_retried[OF x_run_reachable swept, of 100 1 5 "\<lambda>n. 200 + n" 1001 "''w2''"] swept by auto
qed

text \<open>What a pause leaves behind: the checkpoint on the row of the run, and nothing else that a resumption
  reads changed.\<close>

lemma run_by_id_upd:
  assumes "run_by_id db k = Some r" and "\<And>x. rn_id (f x) = rn_id x" and "db_runs db' = upd k f (db_runs db)"
  shows "run_by_id db' k = Some (f r)"
proof -
  have "find (\<lambda>r. rn_id r = k) rs = Some r \<Longrightarrow> find (\<lambda>r. rn_id r = k) (upd k f rs) = Some (f r)" for rs
    by (induction rs) (auto simp: upd_def assms(2) split: if_splits)
  then show ?thesis using assms(1,3) by (simp add: run_by_id_def)
qed

lemma pause_leaves_checkpoint:
  assumes "checkpoint_and_pause env now q run defn a payload breach alloc db = Some (db', res)"
    and "run_by_id db (rn_id run) = Some row"
  shows "\<exists>row' cp. run_by_id db' (rn_id run) = Some row' \<and> rn_checkpoint row' = Some cp
    \<and> rn_status row' = ''waiting_approval'' \<and> cp_run_id cp = rn_id run
    \<and> cp_automation_id cp = rn_automation_id run \<and> cp_budget cp = alloc
    \<and> cp_resume_strategy cp = determine_resume_strategy (ac_type a) (cp_action_state cp)
    \<and> db_defs db' = db_defs db \<and> db_flow db' = db_flow db \<and> db_world db' = db_world db"
proof -
  obtain tool kind why where breach: "breach = (tool, kind, why)" by (cases breach)
  obtain timeout state where parts:
    "int_of_json (jget_default (contract_of defn) ''approval_timeout_seconds'' (J_int 900)) = Some timeout"
    "build_action_state env a payload tool = Some state"
    using assms(1) by (auto simp: checkpoint_and_pause_def breach split: option.splits)
  obtain db1 cp where ser: "serialize_checkpoint run (ac_type a) state (Breach kind why) (contract_of defn) alloc db = Some (db1, cp)"
    using assms(1) by (auto simp: checkpoint_and_pause_def breach parts split: option.splits)
  have cp: "cp_run_id cp = rn_id run" "cp_automation_id cp = rn_automation_id run" "cp_budget cp = alloc"
      "cp_resume_strategy cp = determine_resume_strategy (ac_type a) (cp_action_state cp)"
    and frame: "db_defs db1 = db_defs db" "db_flow db1 = db_flow db" "db_world db1 = db_world db"
    using ser by (auto simp: serialize_checkpoint_def Let_def update_run_def split: if_splits)
  have one: "run_by_id db1 (rn_id run) = Some (row\<lparr>rn_checkpoint := Some cp\<rparr>)"
    using run_by_id_upd[OF assms(2) _ runs_serialize_checkpoint[OF ser]] by simp
  define pause where "pause = (\<lambda>r::run. r\<lparr>rn_status := ''waiting_approval'', rn_paused_reason := Some (Breach kind why),
    rn_heartbeat_at := Some now, rn_contract_breaches := rn_contract_breaches r + 1\<rparr>)"
  have paused: "db_runs db' = upd (rn_id run) pause (db_runs db1)"
    and frame': "db_defs db' = db_defs db1" "db_flow db' = db_flow db1" "db_world db' = db_world db1"
    using assms(1) by (auto simp: checkpoint_and_pause_def breach parts ser Let_def pause_def update_run_def upd_def)
  have "run_by_id db' (rn_id run) = Some (pause (row\<lparr>rn_checkpoint := Some cp\<rparr>))"
    by (rule run_by_id_upd[OF one _ paused]) (simp add: pause_def)
  then show ?thesis using cp frame frame' by (auto simp: pause_def)
qed

lemma fallback_never_waits:
  "handle_checkpoint_pressure_fallback env now run a e w db = (db', Some res) \<Longrightarrow>
   dr_run_status res \<noteq> ''waiting_approval''"
  by (auto simp: handle_checkpoint_pressure_fallback_def finalize_failure_def Let_def split: prod.splits bool.splits)

lemma deliver_without_body:
  "jget out ''body'' = J_null \<Longrightarrow> \<exists>db'. deliver_and_finalize run defn (J_obj out) db = Some db'
     \<and> db_world db' = db_world db \<and> db_runs db' = db_runs db"
  by (simp add: deliver_and_finalize_def py_or_def Let_def)

text \<open>When a workflow of several actions that starts with \<open>app.invoke\<close> breaches its contract and is resumed
  after the approval, the first action runs again, on its own, and the run counts as succeeded: the
  actions after it are not executed, whichever of them the workflow had reached.\<close>

theorem resumed_workflow_runs_first_action_only:
  assumes pause: "execute_and_finish env now q run defn (a # rest) e w alloc db = (dbp, Some res)"
      "dr_run_status res = ''waiting_approval''" "rest \<noteq> []"
    and breach: "en_engine env (db_world db) run defn a (load_event_payload db e) alloc
      = (wb, Inl (Contract_breach_exc tool kind why))"
    and row: "run_by_id db (rn_id run) = Some row" "db_defs db (rn_automation_id run) = Some defn"
      "live_actions (db_flow db) (rn_automation_id run) = a # rest" "ac_type a = ''app.invoke''"
    and invoke: "\<And>r input. en_app_invoke env wb r defn a input None = (wi, Inr (J_obj out))"
      "jget out ''body'' = J_null"
  shows "\<exists>db2 row2. resume_automation_run env q' now' (rn_id run) dbp
      = (db2, Some \<lparr>dr_status = D_succeeded, dr_run_id = rn_id run, dr_run_status = ''succeeded'', dr_reason = None\<rparr>)
    \<and> db_world db2 = wi \<and> run_by_id db2 (rn_id run) = Some row2 \<and> rn_status row2 = ''succeeded''"
proof -
  have paused: "checkpoint_and_pause env now q run defn a (load_event_payload db e) (tool, kind, why) alloc
      (db\<lparr>db_world := wb\<rparr>) = Some (dbp, res)"
    using pause breach fallback_never_waits
    by (fastforce simp: execute_and_finish_def route_action_def Let_def split: option.splits)
  have "run_by_id (db\<lparr>db_world := wb\<rparr>) (rn_id run) = Some row" using row(1) by (simp add: run_by_id_def)
  from pause_leaves_checkpoint[OF paused this] obtain row1 cp where
    row1: "run_by_id dbp (rn_id run) = Some row1" "rn_checkpoint row1 = Some cp" "rn_status row1 = ''waiting_approval''"
    and cp: "cp_run_id cp = rn_id run" "cp_automation_id cp = rn_automation_id run"
      "cp_resume_strategy cp = ''redispatch''"
    and frame: "db_defs dbp = db_defs db" "db_flow dbp = db_flow db" "db_world dbp = wb"
    using row(4) by (auto simp: determine_resume_strategy_def)
  define start where "start = (\<lambda>r::run. r\<lparr>rn_status := ''running'', rn_heartbeat_at := Some now'\<rparr>)"
  define db2 where "db2 = (update_run (rn_id run) start dbp)\<lparr>db_world := wi\<rparr>"
  obtain db3 where db3: "deliver_and_finalize (start row1) defn (J_obj out) db2 = Some db3"
      "db_world db3 = wi" "db_runs db3 = db_runs db2"
    using deliver_without_body[OF invoke(2), of "start row1" defn db2] by (auto simp: db2_def)
  have id: "rn_id row1 = rn_id run" by (rule run_by_id_id[OF row1(1)])
  define db4 where "db4 = update_run (rn_id run) (succeed now' (J_obj out)) db3"
  have result: "resume_automation_run env q' now' (rn_id run) dbp = (db4, Some \<lparr>dr_status = D_succeeded,
      dr_run_id = rn_id run, dr_run_status = ''succeeded'', dr_reason = None\<rparr>)"
    using row row1 cp frame db3(1) id invoke(1)
    by (simp add: resume_automation_run_def resume_run_def resume_flow_def resume_with_strategy_def Let_def
        resume_redispatch_def finish_redispatch_def start_def db2_def db4_def update_run_def)
  have "run_by_id db3 (rn_id run) = Some (start row1)"
    using run_by_id_upd[OF row1(1), of start db3] db3(3) by (simp add: db2_def start_def)
  then have "run_by_id db4 (rn_id run) = Some (succeed now' (J_obj out) (start row1))"
    by (rule run_by_id_upd) (simp add: succeed_def, simp add: db4_def)
  then show ?thesis using result db3(2) by (simp add: db4_def update_run_def succeed_def)
qed

definition x_two :: "action list" where
  "x_two = [x_action 7 0 ''app.invoke'', x_action 8 1 ''gateway.send'']"

definition x_queued :: "(nat, budget_key fake_redis) dispatch_db" where
  "x_queued = (x_db x_two)\<lparr>db_runs := [fresh_run 100 1 5 ''w'' 0]\<rparr>"

definition x_paused :: "(nat, budget_key fake_redis) dispatch_db \<times> dispatch_result option" where
  "x_paused = execute_and_finish x_env 0 103 (fresh_run 100 1 5 ''w'' 0) x_defn x_two 5 ''w'' None x_queued"

theorem resumed_workflow_runs_first_action_only_witness:
  "\<exists>db2 row2. resume_automation_run x_env 104 9 100 (fst x_paused)
      = (db2, Some \<lparr>dr_status = D_succeeded, dr_run_id = 100, dr_run_status = ''succeeded'', dr_reason = None\<rparr>)
    \<and> db_world db2 = 1 \<and> run_by_id db2 100 = Some row2 \<and> rn_status row2 = ''succeeded''"
proof -
  have "map_option dr_run_status (snd x_paused) = Some ''waiting_approval''" by code_simp
  then obtain res where res: "snd x_paused = Some res" "dr_run_status res = ''waiting_approval''" by auto
  define dbp where "dbp = fst x_paused"
  have paused: "x_paused = (dbp, Some res)" by (simp add: prod_eq_iff dbp_def res(1))
  have id: "rn_id (fresh_run 100 1 5 ''w'' 0) = 100" by (simp add: fresh_run_def)
  show ?thesis
    using resumed_workflow_runs_first_action_only[where env = x_env and now = 0 and q = 103
      and run = "fresh_run 100 1 5 ''w'' 0" and defn = x_defn and a = "x_action 7 0 ''app.invoke''"
      and rest = "[x_action 8 1 ''gateway.send'']" and e = 5 and w = "''w''" and alloc = None and db = x_queued
      and wb = 0 and wi = 1 and out = "[(''delivered'', J_bool True)]" and q' = 104 and now' = 9 and dbp = dbp
      and res = res and row = "fresh_run 100 1 5 ''w'' 0" and tool = "''bash_exec''"
      and kind = "Some ''tool_disallowed''" and why = None]
      paused[unfolded x_paused_def] res(2)
    by (simp add: paused x_paused_def x_two_def id x_env_def x_breach_def x_send_def x_queued_def x_db_def
        run_by_id_def fresh_run_def live_actions_def rows_of_def x_action_def jget_def)
qed

end
