(* ===== verification/Intents.thy ===== *)
theory Intents
  imports Lease Json_Value
begin

text \<open>
  Durable intents (\<open>services/automations/intents/__init__.py\<close>), the reconciler that applies them
  (\<open>intents/reconciler.py\<close>) and the producer that records them for idle apps
  (\<open>services/apps/idle_reaper.py\<close>).  The cluster and the Docker daemon are not part of the repository:
  their API is an argument, a function from the cluster and a call to the cluster after it and the
  error the call raised, if it did.  The lease the recording transaction verifies is the table of
  theory \<open>Lease\<close>.
\<close>

subsection \<open>Intents\<close>

datatype intent_status = Pending | Applied | Superseded | Failed

text \<open>What \<open>apply\<close> of a reconciler raises.\<close>

datatype apply_error =
    K8s_conflict string
  | Value_error string
  | Type_error string
  | Not_implemented string
  | Api_error "int option" string

record intent =
  i_id :: uuid
  i_kind :: string
  i_ref :: json_dict
  i_lease_term :: int
  i_status :: intent_status
  i_applied_by :: "int option"
  i_last_error :: "string option"
  i_attempts :: int
  i_created_at :: instant
  i_applied_at :: "instant option"

definition record_intent ::
  "intent list \<Rightarrow> uuid \<Rightarrow> instant \<Rightarrow> string \<Rightarrow> json_dict \<Rightarrow> int \<Rightarrow> intent list" where
  "record_intent rows intent_id now kind target_ref lease_term =
     rows @ [\<lparr>i_id = intent_id, i_kind = kind, i_ref = target_ref, i_lease_term = lease_term,
              i_status = Pending, i_applied_by = None, i_last_error = None, i_attempts = 0,
              i_created_at = now, i_applied_at = None\<rparr>]"

datatype lease_error = Lease_row_missing | Lease_term_mismatch int int

definition record_intent_with_lease ::
  "lease_table \<Rightarrow> intent list \<Rightarrow> uuid \<Rightarrow> instant \<Rightarrow> string \<Rightarrow> int \<Rightarrow> string \<Rightarrow> json_dict
   \<Rightarrow> (lease_error, intent list) result" where
  "record_intent_with_lease leases rows intent_id now name our_term kind target_ref =
     (case leases name of
        None \<Rightarrow> Inl Lease_row_missing
      | Some row \<Rightarrow>
          if lr_term row \<noteq> our_term then Inl (Lease_term_mismatch (lr_term row) our_term)
          else Inr (record_intent rows intent_id now kind target_ref our_term))"

text \<open>\<open>UPDATE controller_intents SET ... WHERE id = :id\<close>.\<close>

definition update_intent :: "uuid \<Rightarrow> (intent \<Rightarrow> intent) \<Rightarrow> intent list \<Rightarrow> intent list" where
  "update_intent k f = map (\<lambda>i. if i_id i = k then f i else i)"

definition mark_applied :: "instant \<Rightarrow> int \<Rightarrow> intent \<Rightarrow> intent" where
  "mark_applied now lease_term i =
     i\<lparr>i_status := Applied, i_applied_at := Some now, i_applied_by := Some lease_term\<rparr>"

definition mark_superseded :: "intent \<Rightarrow> intent" where
  "mark_superseded i = i\<lparr>i_status := Superseded\<rparr>"

definition mark_failed :: "string \<Rightarrow> int \<Rightarrow> intent \<Rightarrow> intent" where
  "mark_failed error attempts i =
     i\<lparr>i_status := Failed, i_last_error := Some (take 1000 error), i_attempts := attempts\<rparr>"

definition mark_retry :: "string \<Rightarrow> int \<Rightarrow> intent \<Rightarrow> intent" where
  "mark_retry error attempts i =
     i\<lparr>i_attempts := attempts, i_last_error := Some (take 1000 error)\<rparr>"

subsection \<open>Reconcilers\<close>

type_synonym 'w reconciler = "'w \<Rightarrow> string \<Rightarrow> json_dict \<Rightarrow> 'w \<times> apply_error option"

definition noop_apply :: "'w reconciler" where
  "noop_apply w kind target_ref = (w, None)"

datatype k8s_call =
    Patch_scale json json int
  | Delete_pod json json int

text \<open>An API exception is its \<open>status\<close> attribute, if it has one, and its text.\<close>

type_synonym 'w k8s_api = "'w \<Rightarrow> k8s_call \<Rightarrow> 'w \<times> (int option \<times> string) option"

definition k8s_raise :: "(int option \<times> string) option \<Rightarrow> apply_error option" where
  "k8s_raise r =
     (case r of None \<Rightarrow> None
      | Some (status, msg) \<Rightarrow> Some (if status = Some 409 then K8s_conflict msg else Api_error status msg))"

definition scale_to_zero :: "'w k8s_api \<Rightarrow> 'w \<Rightarrow> json_dict \<Rightarrow> 'w \<times> apply_error option" where
  "scale_to_zero api w ref =
     (let ns = jget ref ''namespace''; name = py_or (jget ref ''deployment'') (jget ref ''name'')
      in if \<not> truthy ns \<or> \<not> truthy name
         then (w, Some (Value_error ''scale_to_zero needs namespace+deployment''))
         else (let (w', r) = api w (Patch_scale name ns 0) in (w', k8s_raise r)))"

definition scale_up :: "'w k8s_api \<Rightarrow> 'w \<Rightarrow> json_dict \<Rightarrow> 'w \<times> apply_error option" where
  "scale_up api w ref =
     (let ns = jget ref ''namespace''; name = py_or (jget ref ''deployment'') (jget ref ''name'')
      in case int_of_json (jget_default ref ''replicas'' (J_int 1)) of
           None \<Rightarrow> (w, Some (Type_error ''int(replicas)''))
         | Some replicas \<Rightarrow>
             if \<not> truthy ns \<or> \<not> truthy name
             then (w, Some (Value_error ''scale_up needs namespace+deployment''))
             else (let (w', r) = api w (Patch_scale name ns replicas) in (w', k8s_raise r)))"

definition delete_pod :: "'w k8s_api \<Rightarrow> 'w \<Rightarrow> json_dict \<Rightarrow> 'w \<times> apply_error option" where
  "delete_pod api w ref =
     (let ns = jget ref ''namespace''; name = py_or (jget ref ''pod'') (jget ref ''name'')
      in if \<not> truthy ns \<or> \<not> truthy name
         then (w, Some (Value_error ''delete_pod needs namespace+pod''))
         else (case int_of_json (jget_default ref ''grace_period_seconds'' (J_int 0)) of
            None \<Rightarrow> (w, Some (Type_error ''int(grace_period_seconds)''))
          | Some grace \<Rightarrow>
             (let (w', r) = api w (Delete_pod name ns grace)
              in (w', case r of Some (Some st, msg) \<Rightarrow> if st = 404 then None else k8s_raise r
                      | _ \<Rightarrow> k8s_raise r))))"

definition k8s_apply :: "'w k8s_api \<Rightarrow> 'w reconciler" where
  "k8s_apply api w kind target_ref =
     (if kind = ''scale_to_zero'' then scale_to_zero api w target_ref
      else if kind = ''scale_up'' then scale_up api w target_ref
      else if kind = ''delete_pod'' then delete_pod api w target_ref
      else (w, Some (Not_implemented kind)))"

datatype docker_call = D_get json | D_stop json | D_start json | D_kill json | D_remove json

type_synonym 'w docker_api = "'w \<Rightarrow> docker_call \<Rightarrow> 'w \<times> string option"

definition ascii_lower :: "char \<Rightarrow> char" where
  "ascii_lower c =
     (if 65 \<le> (of_char c :: nat) \<and> (of_char c :: nat) \<le> 90 then char_of ((of_char c :: nat) + 32) else c)"

definition docker_raise :: "string option \<Rightarrow> apply_error option" where
  "docker_raise = map_option (Api_error None)"

definition docker_apply :: "'w docker_api \<Rightarrow> 'w reconciler" where
  "docker_apply api w kind target_ref =
     (let cid = py_or (jget target_ref ''container_id'') (jget target_ref ''name'')
      in if \<not> truthy cid then (w, Some (Value_error ''target_ref needs container_id/name''))
         else (case api w (D_get cid) of
            (w1, Some msg) \<Rightarrow>
              if sublist ''Not Found'' msg \<or> sublist ''not found'' (map ascii_lower msg)
              then (w1, None) else (w1, docker_raise (Some msg))
          | (w1, None) \<Rightarrow>
              if kind = ''scale_to_zero'' then (let (w2, r) = api w1 (D_stop cid) in (w2, docker_raise r))
              else if kind = ''scale_up'' then (let (w2, r) = api w1 (D_start cid) in (w2, docker_raise r))
              else if kind = ''delete_pod''
              then (let (w2, _) = api w1 (D_kill cid); (w3, r) = api w2 (D_remove cid)
                    in (w3, docker_raise r))
              else (w1, Some (Not_implemented kind))))"

subsection \<open>One reconcile pass\<close>

abbreviation "max_batch \<equiv> (50 :: nat)"
abbreviation "max_attempts \<equiv> (5 :: int)"

record tick_counts =
  n_applied :: nat
  n_superseded :: nat
  n_retried :: nat
  n_failed :: nat

definition no_counts :: tick_counts where
  "no_counts = \<lparr>n_applied = 0, n_superseded = 0, n_retried = 0, n_failed = 0\<rparr>"

definition pending_batch :: "intent list \<Rightarrow> intent list" where
  "pending_batch rows = take max_batch (sort_key i_created_at (filter (\<lambda>i. i_status i = Pending) rows))"

text \<open>The body of the loop, for one intent as it was read: what it writes to the row, the cluster
  after it, the counts.\<close>

definition intent_outcome ::
  "'w reconciler \<Rightarrow> (apply_error \<Rightarrow> string) \<Rightarrow> instant \<Rightarrow> int \<Rightarrow> 'w \<Rightarrow> intent
   \<Rightarrow> (intent \<Rightarrow> intent) \<times> 'w \<times> (tick_counts \<Rightarrow> tick_counts)" where
  "intent_outcome recon repr now current_term w i =
     (if i_lease_term i \<noteq> current_term
      then (mark_superseded, w, n_superseded_update Suc)
      else (case recon w (i_kind i) (i_ref i) of
         (w', None) \<Rightarrow> (mark_applied now current_term, w', n_applied_update Suc)
       | (w', Some (K8s_conflict _)) \<Rightarrow> (\<lambda>x. x, w', n_retried_update Suc)
       | (w', Some e) \<Rightarrow>
           (let attempts = i_attempts i + 1
            in if attempts \<ge> max_attempts
               then (mark_failed (repr e) attempts, w', n_failed_update Suc)
               else (mark_retry (repr e) attempts, w', n_retried_update Suc))))"

fun tick_loop ::
  "'w reconciler \<Rightarrow> (apply_error \<Rightarrow> string) \<Rightarrow> instant \<Rightarrow> int \<Rightarrow> intent list
   \<Rightarrow> intent list \<times> 'w \<times> tick_counts \<Rightarrow> intent list \<times> 'w \<times> tick_counts" where
  "tick_loop recon repr now current_term [] st = st"
| "tick_loop recon repr now current_term (i # intents) (rows, w, counts) =
     (let (f, w', g) = intent_outcome recon repr now current_term w i
      in tick_loop recon repr now current_term intents (update_intent (i_id i) f rows, w', g counts))"

definition tick ::
  "'w reconciler \<Rightarrow> (apply_error \<Rightarrow> string) \<Rightarrow> instant \<Rightarrow> int \<Rightarrow> intent list \<Rightarrow> 'w
   \<Rightarrow> intent list \<times> 'w \<times> tick_counts" where
  "tick recon repr now current_term rows w =
     tick_loop recon repr now current_term (pending_batch rows) (rows, w, no_counts)"

subsection \<open>The life of an intent\<close>

text \<open>One pass moves an intent it read by one of these steps (\<open>t\<close> is the reconciler's term).\<close>

inductive intent_step :: "int \<Rightarrow> intent \<Rightarrow> intent \<Rightarrow> bool" where
  supersede: "i_status i = Pending \<Longrightarrow> i_lease_term i \<noteq> t \<Longrightarrow> intent_step t i (mark_superseded i)"
| apply_ok: "i_status i = Pending \<Longrightarrow> i_lease_term i = t \<Longrightarrow> intent_step t i (mark_applied now t i)"
| conflict: "i_status i = Pending \<Longrightarrow> i_lease_term i = t \<Longrightarrow> intent_step t i i"
| retry: "i_status i = Pending \<Longrightarrow> i_lease_term i = t \<Longrightarrow> i_attempts i + 1 < max_attempts \<Longrightarrow>
    intent_step t i (mark_retry e (i_attempts i + 1) i)"
| exhaust: "i_status i = Pending \<Longrightarrow> i_lease_term i = t \<Longrightarrow> max_attempts \<le> i_attempts i + 1 \<Longrightarrow>
    intent_step t i (mark_failed e (i_attempts i + 1) i)"

inductive_cases intent_step_elim: "intent_step t i i'"

lemmas mark_defs [model_defs] = mark_applied_def mark_superseded_def mark_failed_def mark_retry_def

lemma intent_step_frame [frame_simps]:
  "intent_step t i i' \<Longrightarrow> i_id i' = i_id i \<and> i_kind i' = i_kind i \<and> i_ref i' = i_ref i
     \<and> i_lease_term i' = i_lease_term i \<and> i_created_at i' = i_created_at i"
  by (erule intent_step_elim) (simp_all add: mark_defs)

lemma outcome_step:
  "i_status i = Pending \<Longrightarrow> intent_step t i (fst (intent_outcome recon repr now t w i) i)"
  by (auto simp: intent_outcome_def Let_def split: prod.splits option.splits apply_error.splits
      intro: intent_step.intros)

lemma outcome_frame:
  "i_id (fst (intent_outcome recon repr now t w i) r) = i_id r"
  by (auto simp: intent_outcome_def Let_def mark_defs split: prod.splits option.splits apply_error.splits)

lemma outcome_world:
  "fst (snd (intent_outcome recon repr now t w i)) =
     (if i_lease_term i = t then fst (recon w (i_kind i) (i_ref i)) else w)"
  by (auto simp: intent_outcome_def Let_def split: prod.splits option.splits apply_error.splits)

text \<open>The calls the reconciler makes for a list of intents, in order.\<close>

definition apply_all :: "'w reconciler \<Rightarrow> int \<Rightarrow> 'w \<Rightarrow> intent list \<Rightarrow> 'w" where
  "apply_all recon t w intents =
     foldl (\<lambda>w i. fst (recon w (i_kind i) (i_ref i))) w (filter (\<lambda>i. i_lease_term i = t) intents)"

lemma tick_loop_world: "fst (snd (tick_loop recon repr now t intents (rows, w, c))) = apply_all recon t w intents"
proof (induction intents arbitrary: rows w c)
  case (Cons i intents)
  show ?case
    using Cons.IH outcome_world[of recon repr now t w i] by (auto simp: apply_all_def split: prod.splits)
qed (simp add: apply_all_def)

lemma tick_loop_rows:
  "distinct (map i_id intents) \<Longrightarrow>
   list_all2 (\<lambda>r r'. i_id r' = i_id r \<and> (i_id r \<notin> i_id ` set intents \<longrightarrow> r' = r)
       \<and> (\<forall>i \<in> set intents. i_id i = i_id r \<longrightarrow> (\<exists>v. r' = fst (intent_outcome recon repr now t v i) r)))
     rows (fst (tick_loop recon repr now t intents (rows, w, c)))"
proof (induction intents arbitrary: rows w c)
  case Nil
  show ?case by (simp add: list_all2_same)
next
  case (Cons i intents)
  obtain f w' g where out: "intent_outcome recon repr now t w i = (f, w', g)"
    using prod_cases3 by blast
  have frame: "i_id (f r) = i_id r" for r
    using outcome_frame[of recon repr now t w i r] out by simp
  have "list_all2 (\<lambda>r r'. i_id r' = i_id r \<and> (i_id r \<notin> i_id ` set intents \<longrightarrow> r' = r)
       \<and> (\<forall>j \<in> set intents. i_id j = i_id r \<longrightarrow> (\<exists>v. r' = fst (intent_outcome recon repr now t v j) r)))
     (update_intent (i_id i) f rows)
     (fst (tick_loop recon repr now t intents (update_intent (i_id i) f rows, w', g c)))"
    using Cons.prems by (intro Cons.IH) simp
  moreover have "\<exists>v. f r = fst (intent_outcome recon repr now t v i) r" for r
    using out by (metis fst_conv)
  moreover have "\<forall>j \<in> set intents. i_id j \<noteq> i_id i"
    using Cons.prems by (auto simp: image_iff)
  ultimately show ?case
    using frame
    unfolding update_intent_def tick_loop.simps out Let_def prod.case list_all2_map1
    by (elim list_all2_mono) (auto split: if_splits)
qed

lemma pending_batch_set: "set (pending_batch rows) \<subseteq> {i \<in> set rows. i_status i = Pending}"
  using set_take_subset by (fastforce simp: pending_batch_def)

lemma pending_batch_distinct: "distinct (map i_id rows) \<Longrightarrow> distinct (map i_id (pending_batch rows))"
proof -
  assume "distinct (map i_id rows)"
  then have "distinct (map i_id (sort_key i_created_at (filter (\<lambda>i. i_status i = Pending) rows)))"
    by (simp add: distinct_map) (auto simp: inj_on_def)
  then show ?thesis by (simp add: pending_batch_def take_map[symmetric])
qed

lemma tick_rows:
  assumes "distinct (map i_id rows)"
  shows "list_all2 (\<lambda>i i'. if i \<in> set (pending_batch rows)
      then intent_step t i i' \<and> (\<exists>v. i' = fst (intent_outcome recon repr now t v i) i) else i' = i)
    rows (fst (tick recon repr now t rows w))"
proof -
  have uniq: "i = r" if "i \<in> set (pending_batch rows)" "r \<in> set rows" "i_id i = i_id r" for i r
    using that assms pending_batch_set[of rows] by (force simp: distinct_map inj_on_def)
  have step: "intent_step t i (fst (intent_outcome recon repr now t v i) i)"
    if "i \<in> set (pending_batch rows)" for i v
    using subsetD[OF pending_batch_set that] by (simp add: outcome_step)
  show ?thesis
    unfolding tick_def
  proof (rule list.rel_mono_strong[OF tick_loop_rows[OF pending_batch_distinct[OF assms]]])
    fix r r'
    assume r: "r \<in> set rows"
      and rel: "i_id r' = i_id r \<and> (i_id r \<notin> i_id ` set (pending_batch rows) \<longrightarrow> r' = r)
        \<and> (\<forall>i \<in> set (pending_batch rows). i_id i = i_id r \<longrightarrow>
             (\<exists>v. r' = fst (intent_outcome recon repr now t v i) r))"
    show "if r \<in> set (pending_batch rows)
        then intent_step t r r' \<and> (\<exists>v. r' = fst (intent_outcome recon repr now t v r) r) else r' = r"
    proof (cases "r \<in> set (pending_batch rows)")
      case True
      then obtain v where "r' = fst (intent_outcome recon repr now t v r) r" using rel by blast
      with True step[OF True] show ?thesis by auto
    next
      case False
      then have "i_id r \<notin> i_id ` set (pending_batch rows)" using uniq[OF _ r] by auto
      with False rel show ?thesis by simp
    qed
  qed
qed

text \<open>C7: one pass refines the intent state machine.  Every row it read (the fifty oldest pending ones)
  moves by one step of \<open>intent_step\<close>, every other row is untouched, and the cluster sees exactly
  the intents of the reconciler's own term among them, once each, oldest first.\<close>

theorem tick_refines_steps:
  assumes "distinct (map i_id rows)"
  shows "list_all2 (\<lambda>i i'. if i \<in> set (pending_batch rows) then intent_step t i i' else i' = i)
      rows (fst (tick recon repr now t rows w))
    \<and> fst (snd (tick recon repr now t rows w)) = apply_all recon t w (pending_batch rows)"
  using list.rel_mono_strong[OF tick_rows[OF assms, where t = t and recon = recon and repr = repr
        and now = now and w = w]]
  by (auto simp: tick_def tick_loop_world split: if_splits intro: list.rel_mono_strong[OF tick_rows[OF assms]])

text \<open>A cluster that refuses every call, and an intent on it.\<close>

definition w_refuse :: "nat k8s_api" where
  "w_refuse w call = (w + 1, Some (Some 403, ''forbidden''))"

definition w_intent :: intent where
  "w_intent = \<lparr>i_id = 1, i_kind = ''delete_pod'',
     i_ref = [(''namespace'', J_str ''apps''), (''pod'', J_str ''p'')], i_lease_term = 2,
     i_status = Pending, i_applied_by = None, i_last_error = None, i_attempts = 0,
     i_created_at = 21, i_applied_at = None\<rparr>"

theorem tick_refines_steps_witness:
  "list_all2 (\<lambda>i i'. if i \<in> set (pending_batch [w_intent]) then intent_step 2 i i' else i' = i)
     [w_intent] (fst (tick (k8s_apply w_refuse) (\<lambda>_. ''403'') 25 2 [w_intent] 0))
   \<and> fst (snd (tick (k8s_apply w_refuse) (\<lambda>_. ''403'') 25 2 [w_intent] 0))
     = apply_all (k8s_apply w_refuse) 2 0 (pending_batch [w_intent])"
  by (rule tick_refines_steps) simp

subsection \<open>The controller plane\<close>

text \<open>The lease table with the tokens handed out, the intents and the cluster, under any interleaving of
  lease operations, recordings and passes, by any holders with any terms.  A recording whose id is
  taken fails on the primary key.\<close>

datatype ctl_op =
    C_Lease lease_op
  | C_Record uuid instant string int string json_dict
  | C_Tick instant int

record 'w ctl =
  c_leases :: lease_table
  c_issued :: "lease_token list"
  c_rows :: "intent list"
  c_world :: 'w

fun ctl_step ::
  "'w reconciler \<Rightarrow> (apply_error \<Rightarrow> string) \<Rightarrow> 'w ctl \<Rightarrow> ctl_op \<Rightarrow> 'w ctl" where
  "ctl_step recon repr st (C_Lease op) =
     (let (s, issued) = lease_step db_acquire db_renew db_release (c_leases st, c_issued st) op
      in st\<lparr>c_leases := s, c_issued := issued\<rparr>)"
| "ctl_step recon repr st (C_Record k now name our_term kind ref) =
     (if k \<in> i_id ` set (c_rows st) then st
      else (case record_intent_with_lease (c_leases st) (c_rows st) k now name our_term kind ref of
              Inl _ \<Rightarrow> st | Inr rows \<Rightarrow> st\<lparr>c_rows := rows\<rparr>))"
| "ctl_step recon repr st (C_Tick now t) =
     (let (rows, w, _) = tick recon repr now t (c_rows st) (c_world st)
      in st\<lparr>c_rows := rows, c_world := w\<rparr>)"

abbreviation ctl_run where
  "ctl_run recon repr \<equiv> foldl (ctl_step recon repr)"

definition ctl_start :: "'w \<Rightarrow> 'w ctl" where
  "ctl_start w = \<lparr>c_leases = Map.empty, c_issued = [], c_rows = [], c_world = w\<rparr>"

text \<open>The invariant of a row: failed exactly when five attempts are used up, applied only by its own term.\<close>

definition intent_ok :: "intent \<Rightarrow> bool" where
  "intent_ok i \<longleftrightarrow> 0 \<le> i_attempts i \<and> i_attempts i \<le> max_attempts
     \<and> (i_status i = Failed \<longleftrightarrow> i_attempts i = max_attempts)
     \<and> (i_applied_by i = (if i_status i = Applied then Some (i_lease_term i) else None))"

definition ctl_inv :: "'w ctl \<Rightarrow> bool" where
  "ctl_inv st \<longleftrightarrow> distinct (map i_id (c_rows st)) \<and> (\<forall>i \<in> set (c_rows st). intent_ok i)"

lemma intent_step_ok: "intent_step t i i' \<Longrightarrow> intent_ok i \<Longrightarrow> intent_ok i'"
  by (erule intent_step_elim) (auto simp: intent_ok_def mark_defs)

lemma tick_inv:
  assumes "distinct (map i_id rows)" and "\<forall>i \<in> set rows. intent_ok i"
  shows "distinct (map i_id (fst (tick recon repr now t rows w)))
    \<and> (\<forall>i \<in> set (fst (tick recon repr now t rows w)). intent_ok i)"
proof -
  note rel = tick_rows[OF assms(1), where t = t and recon = recon and repr = repr and now = now and w = w]
  have "map i_id (fst (tick recon repr now t rows w)) = map i_id rows"
    by (rule list_all2_map_eq[OF rel]) (auto split: if_splits dest: intent_step_frame)
  moreover have "\<forall>i \<in> set (fst (tick recon repr now t rows w)). intent_ok i"
    by (rule list_all2_Ball[OF rel assms(2)]) (auto split: if_splits intro: intent_step_ok)
  ultimately show ?thesis using assms(1) by simp
qed

lemma ctl_step_inv [inv_intros]: "ctl_inv st \<Longrightarrow> ctl_inv (ctl_step recon repr st op)"
proof (cases op)
  case (C_Record k now name our_term kind ref)
  moreover assume "ctl_inv st"
  ultimately show ?thesis
    by (auto simp: ctl_inv_def record_intent_with_lease_def record_intent_def intent_ok_def
        split: option.splits)
next
  case (C_Tick now t)
  moreover assume "ctl_inv st"
  ultimately show ?thesis
    using tick_inv[of "c_rows st" recon repr now t "c_world st"] by (auto simp: ctl_inv_def split: prod.splits)
qed (simp add: ctl_inv_def split: prod.splits)

lemma ctl_run_inv [inv_intros]: "ctl_inv st \<Longrightarrow> ctl_inv (ctl_run recon repr st ops)"
proof (induction ops arbitrary: st)
  case (Cons op ops)
  show ?case using Cons.IH[OF ctl_step_inv[OF Cons.prems]] by simp
qed simp

lemma ctl_start_inv: "ctl_inv (ctl_start w)"
  by (simp add: ctl_inv_def ctl_start_def)


text \<open>A deposed leader cannot record.  After any run of the database lease, the term of a token older
  than another of the same lease is refused by the verification of the recording transaction.\<close>

theorem deposed_cannot_record:
  assumes "lease_run db_acquire db_renew db_release (Map.empty, []) ops = (s, issued)"
    and "issued = xs @ newer # ys @ older # zs" and "tk_name newer = tk_name older"
  shows "\<exists>e. record_intent_with_lease s rows k now (tk_name older) (tk_term older) kind ref = Inl e"
proof -
  have "tk_term older < tk_term newer" using db.run_fencing[OF assms] by simp
  moreover have "tk_term newer \<le> db_term s (tk_name newer)"
    using db.run_term_bound[OF assms(1)] assms(2) by simp
  ultimately show ?thesis
    using assms(3) by (auto simp: record_intent_with_lease_def db_term_def split: option.splits)
qed

theorem deposed_cannot_record_witness:
  "\<exists>e. record_intent_with_lease (fst (lease_run db_acquire db_renew db_release (Map.empty, []) w_lease_ops))
         [] 7 21 ''controller'' 1 ''delete_pod'' [] = Inl e"
proof -
  let ?new = "\<lparr>tk_name = ''controller'', tk_holder = ''b'', tk_term = 2, tk_expires = 35\<rparr>"
  let ?old = "\<lparr>tk_name = ''controller'', tk_holder = ''a'', tk_term = 1, tk_expires = 15\<rparr>"
  let ?r = "lease_run db_acquire db_renew db_release (Map.empty, []) w_lease_ops"
  have "snd ?r = [] @ ?new # [] @ ?old # []"
    by (simp add: w_lease_ops_def db_acquire_def)
  from deposed_cannot_record[OF prod.collapse[symmetric] this] show ?thesis by simp
qed

subsection \<open>Progress of the reconciler\<close>

definition tick_pass ::
  "'w reconciler \<Rightarrow> (apply_error \<Rightarrow> string) \<Rightarrow> int \<Rightarrow> intent list \<times> 'w \<Rightarrow> instant \<Rightarrow> intent list \<times> 'w" where
  "tick_pass recon repr t st now =
     (let (rows, w, _) = tick recon repr now t (fst st) (snd st) in (rows, w))"

definition pending_ids :: "intent list \<Rightarrow> uuid list" where
  "pending_ids rows = map i_id (filter (\<lambda>i. i_status i = Pending) rows)"

lemma pending_batch_all:
  "length (pending_ids rows) \<le> max_batch \<Longrightarrow>
     set (pending_batch rows) = {i \<in> set rows. i_status i = Pending}"
  by (simp add: pending_ids_def pending_batch_def)

lemma outcome_pending:
  assumes "\<And>w k r m. snd (recon w k r) \<noteq> Some (K8s_conflict m)"
    and "i_status (fst (intent_outcome recon repr now t w i) i) = Pending"
  shows "i_attempts (fst (intent_outcome recon repr now t w i) i) = i_attempts i + 1
    \<and> i_attempts i + 1 < max_attempts"
proof -
  obtain w' r where r: "recon w (i_kind i) (i_ref i) = (w', r)" by fastforce
  with assms(1)[of w "i_kind i" "i_ref i"] assms(2) show ?thesis
    by (cases r; cases "the r") (auto simp: intent_outcome_def Let_def mark_defs split: if_splits)
qed

text \<open>After a pass without write conflicts each row that is still pending has one attempt more, and less
  than five.\<close>

lemma tick_pass_progress:
  assumes noconf: "\<And>w k r m. snd (recon w k r) \<noteq> Some (K8s_conflict m)"
    and "distinct (map i_id (fst st))" and "length (pending_ids (fst st)) \<le> max_batch"
    and att: "\<forall>i \<in> set (fst st). i_status i = Pending \<longrightarrow> k \<le> i_attempts i"
  shows "distinct (map i_id (fst (tick_pass recon repr t st now)))
    \<and> length (pending_ids (fst (tick_pass recon repr t st now))) \<le> max_batch
    \<and> (\<forall>i \<in> set (fst (tick_pass recon repr t st now)).
         i_status i = Pending \<longrightarrow> k + 1 \<le> i_attempts i \<and> i_attempts i < max_attempts)"
proof -
  obtain rows w where st: "st = (rows, w)" by fastforce
  have pass: "fst (tick_pass recon repr t st now) = fst (tick recon repr now t rows w)"
    by (simp add: tick_pass_def st split: prod.splits)
  note rel = tick_rows[OF assms(2)[unfolded st fst_conv], where t = t and recon = recon and repr = repr
      and now = now and w = w]
  have "map i_id (fst (tick recon repr now t rows w)) = map i_id rows"
    by (rule list_all2_map_eq[OF rel]) (auto split: if_splits dest: intent_step_frame)
  moreover have "length (pending_ids (fst (tick recon repr now t rows w))) \<le> length (pending_ids rows)"
    unfolding pending_ids_def length_map
    by (rule list_all2_filter_length[OF rel]) (auto split: if_splits elim: intent_step_elim)
  moreover have "\<forall>i \<in> set (fst (tick recon repr now t rows w)).
      i_status i = Pending \<longrightarrow> k + 1 \<le> i_attempts i \<and> i_attempts i < max_attempts"
  proof (rule list_all2_Ball[OF list.rel_mono_strong[OF rel], where P = "\<lambda>i. True"])
    fix i i'
    assume i: "i \<in> set rows" and "if i \<in> set (pending_batch rows) then intent_step t i i'
        \<and> (\<exists>v. i' = fst (intent_outcome recon repr now t v i) i) else i' = i"
    with outcome_pending[OF noconf, where repr = repr and now = now and t = t and i = i] pending_batch_all[of rows] assms(3) att st
    show "i_status i' = Pending \<longrightarrow> k + 1 \<le> i_attempts i' \<and> i_attempts i' < max_attempts"
      by (fastforce split: if_splits)
  qed auto
  ultimately show ?thesis using assms(2,3) unfolding st fst_conv pass[unfolded st] by simp
qed

lemma tick_passes_progress:
  assumes noconf: "\<And>w k r m. snd (recon w k r) \<noteq> Some (K8s_conflict m)"
  shows "distinct (map i_id (fst st)) \<Longrightarrow> length (pending_ids (fst st)) \<le> max_batch \<Longrightarrow>
    \<forall>i \<in> set (fst st). i_status i = Pending \<longrightarrow> k \<le> i_attempts i \<Longrightarrow> nows \<noteq> [] \<Longrightarrow>
    \<forall>i \<in> set (fst (foldl (tick_pass recon repr t) st nows)).
      i_status i = Pending \<longrightarrow> k + int (length nows) \<le> i_attempts i \<and> i_attempts i < max_attempts"
proof (induction nows arbitrary: st k)
  case (Cons now nows)
  note step = tick_pass_progress[OF noconf Cons.prems(1-3), where repr = repr and t = t and now = now]
  show ?case
  proof (cases "nows = []")
    case True
    with step show ?thesis by simp
  next
    case False
    have "\<forall>i \<in> set (fst (foldl (tick_pass recon repr t) (tick_pass recon repr t st now) nows)).
        i_status i = Pending \<longrightarrow> k + 1 + int (length nows) \<le> i_attempts i \<and> i_attempts i < max_attempts"
      using step False by (intro Cons.IH) auto
    then show ?thesis by (auto simp: algebra_simps)
  qed
qed simp

text \<open>No intent stays pending.  Without write conflicts, and with at most fifty pending intents, five
  passes settle every one of them: it is applied, superseded or failed.  Each pass tries every
  pending intent, so five failures in a row are the most one can have.\<close>

theorem reconcile_drains:
  assumes "\<And>w k r m. snd (recon w k r) \<noteq> Some (K8s_conflict m)"
    and "distinct (map i_id rows)" and "length (pending_ids rows) \<le> max_batch"
    and "list_all intent_ok rows" and "length nows = 5"
  shows "pending_ids (fst (foldl (tick_pass recon repr t) (rows, w) nows)) = []"
proof -
  have "\<forall>i \<in> set rows. i_status i = Pending \<longrightarrow> 0 \<le> i_attempts i"
    using assms(4) by (auto simp: list_all_iff intent_ok_def)
  moreover have "nows \<noteq> []" using assms(5) by auto
  ultimately have "\<forall>i \<in> set (fst (foldl (tick_pass recon repr t) (rows, w) nows)).
      i_status i = Pending \<longrightarrow> 0 + int (length nows) \<le> i_attempts i \<and> i_attempts i < max_attempts"
    using assms(2,3) by (intro tick_passes_progress[OF assms(1)]) simp_all
  then show ?thesis using assms(5) by (auto simp: pending_ids_def filter_empty_conv)
qed

lemma w_refuse_no_conflict: "snd (k8s_apply w_refuse w k r) \<noteq> Some (K8s_conflict m)"
  by (auto simp: k8s_apply_def scale_to_zero_def scale_up_def delete_pod_def k8s_raise_def w_refuse_def
      Let_def split: option.splits)

theorem reconcile_drains_witness:
  "pending_ids (fst (foldl (tick_pass (k8s_apply w_refuse) (\<lambda>_. ''403'') 2) ([w_intent], 0) [25, 30, 35, 40, 45])) = []"
  by (rule reconcile_drains[OF w_refuse_no_conflict])
    (simp_all add: w_intent_def pending_ids_def intent_ok_def)

subsection \<open>A pass of a deposed leader\<close>

lemma ctl_step_settled:
  assumes "ctl_inv st" and "i \<in> set (c_rows st)" and "i_status i \<noteq> Pending"
  shows "i \<in> set (c_rows (ctl_step recon repr st op))"
proof (cases op)
  case (C_Lease lop)
  with assms show ?thesis by (simp split: prod.splits)
next
  case (C_Record k now name our_term kind ref)
  with assms show ?thesis
    by (simp add: record_intent_with_lease_def record_intent_def split: option.splits)
next
  case (C_Tick now t)
  have "distinct (map i_id (c_rows st))" using assms(1) by (simp add: ctl_inv_def)
  from tick_rows[OF this, of t recon repr now "c_world st"]
  obtain i' where "i' \<in> set (fst (tick recon repr now t (c_rows st) (c_world st)))"
      "if i \<in> set (pending_batch (c_rows st)) then intent_step t i i' else i' = i"
    using list_all2_in[OF _ assms(2)] by fastforce
  moreover have "i \<notin> set (pending_batch (c_rows st))" using pending_batch_set assms(3) by fastforce
  ultimately show ?thesis using C_Tick by (auto split: prod.splits if_splits)
qed

lemma ctl_run_settled:
  "ctl_inv st \<Longrightarrow> i \<in> set (c_rows st) \<Longrightarrow> i_status i \<noteq> Pending \<Longrightarrow>
     i \<in> set (c_rows (ctl_run recon repr st ops))"
proof (induction ops arbitrary: st)
  case (Cons op ops)
  show ?case
    using Cons.IH[OF ctl_step_inv[OF Cons.prems(1)] ctl_step_settled[OF Cons.prems]] Cons.prems(3) by simp
qed simp

text \<open>a pass of a deposed leader discards the intents of the leader that deposed it.  The check is
  \<open>lease_term != current_term\<close>, so an intent of a newer term is superseded too, and stays so
  whatever runs afterwards: its own leader never applies it.\<close>

theorem deposed_pass_discards:
  assumes "st = ctl_run recon repr (ctl_start w) ops"
    and "i \<in> set (pending_batch (c_rows st))" and "t < i_lease_term i"
  shows "mark_superseded i \<in> set (c_rows (ctl_run recon repr (ctl_step recon repr st (C_Tick now t)) later))"
proof -
  have inv: "ctl_inv st" using ctl_run_inv[OF ctl_start_inv] assms(1) by simp
  then have "distinct (map i_id (c_rows st))" by (simp add: ctl_inv_def)
  note rel = tick_rows[OF this, of t recon repr now "c_world st"]
  have "i \<in> set (c_rows st)" using subsetD[OF pending_batch_set assms(2)] by simp
  from list_all2_in[OF rel this] obtain i' v
    where i': "i' \<in> set (fst (tick recon repr now t (c_rows st) (c_world st)))"
      "i' = fst (intent_outcome recon repr now t v i) i"
    using assms(2) by auto
  then have "i' = mark_superseded i" using assms(3) by (auto simp: intent_outcome_def)
  then have "mark_superseded i \<in> set (c_rows (ctl_step recon repr st (C_Tick now t)))"
    using i'(1) by (auto split: prod.splits)
  then show ?thesis
    by (rule ctl_run_settled[OF ctl_step_inv[OF inv]]) (simp add: mark_superseded_def)
qed

text \<open>The run: \<open>a\<close> leads, loses the lease to \<open>b\<close>, \<open>b\<close> records an intent; then \<open>a\<close>'s reconciler, which
  has not noticed yet, runs its pass.\<close>

definition w_ctl_ops :: "ctl_op list" where
  "w_ctl_ops = map C_Lease w_lease_ops @
     [C_Record 1 21 ''controller'' 2 ''delete_pod'' [(''namespace'', J_str ''apps''), (''pod'', J_str ''p'')]]"

theorem deposed_pass_discards_witness:
  "mark_superseded w_intent \<in> set (c_rows (ctl_run (k8s_apply w_refuse) (\<lambda>_. '''')
     (ctl_step (k8s_apply w_refuse) (\<lambda>_. '''')
        (ctl_run (k8s_apply w_refuse) (\<lambda>_. '''') (ctl_start 0) w_ctl_ops) (C_Tick 22 1))
     [C_Tick 23 2]))"
proof -
  let ?st = "ctl_run (k8s_apply w_refuse) (\<lambda>_. '''') (ctl_start 0) w_ctl_ops"
  have "c_rows ?st = [w_intent]"
    by (simp add: w_ctl_ops_def w_lease_ops_def db_acquire_def ctl_start_def w_intent_def
        record_intent_with_lease_def record_intent_def)
  then have "w_intent \<in> set (pending_batch (c_rows ?st))"
    by (simp add: pending_batch_def w_intent_def)
  then show ?thesis
    by (intro deposed_pass_discards[OF refl]) (simp_all add: w_intent_def)
qed


end
