(* ===== verification/Workflow_Handlers.thy ===== *)
theory Workflow_Handlers
  imports Workflow
begin

text \<open>
  Step handlers (\<open>services/workflows/handlers/\<close>): \<open>branch\<close>, \<open>sub_workflow\<close> and \<open>agent.run\<close>.  The library
  functions the branch condition is evaluated with (\<open>str\<close>, \<open>str.format_map\<close>, \<open>re.search\<close>) and the
  dispatcher that starts runs are arguments.
\<close>

subsection \<open>\<open>branch\<close>\<close>

text \<open>\<open>pl_format\<close> renders a template over named values (\<open>None\<close>: it raised one of the three caught errors);
  \<open>pl_search\<close> searches case-insensitively (\<open>None\<close>: \<open>re.error\<close>).\<close>

record py_lib =
  pl_str :: "json \<Rightarrow> string"
  pl_format :: "string \<Rightarrow> json_dict \<Rightarrow> string option"
  pl_search :: "json \<Rightarrow> string \<Rightarrow> bool option"

text \<open>\<open>re.sub\<close> of \<open>{step.key}\<close> by \<open>{step_key}\<close>, the key a non-empty run of word characters.\<close>

definition is_word :: "char \<Rightarrow> bool" where
  "is_word c \<longleftrightarrow> is_digit c \<or> c = CHR ''_'' \<or> (65 \<le> (of_char c :: nat) \<and> (of_char c :: nat) \<le> 90)
     \<or> (97 \<le> (of_char c :: nat) \<and> (of_char c :: nat) \<le> 122)"

function rewrite_steps :: "string \<Rightarrow> string" where
  "rewrite_steps s =
     (case s of
        [] \<Rightarrow> []
      | c # cs \<Rightarrow>
          (let body = drop 6 s; key = takeWhile is_word body; tail = dropWhile is_word body
           in if take 6 s = ''{step.'' \<and> key \<noteq> [] \<and> tail \<noteq> [] \<and> hd tail = CHR ''}''
              then ''{step_'' @ key @ ''}'' @ rewrite_steps (tl tail)
              else c # rewrite_steps cs))"
  by pat_completeness auto
termination
proof (relation "measure length", goal_cases)
  case (2 s c cs body key tail)
  have "length (dropWhile is_word (drop 6 s)) \<le> length (drop 6 s)" by (rule length_dropWhile_le)
  with 2 show ?case by (cases tail) auto
qed auto

definition render :: "py_lib \<Rightarrow> json \<Rightarrow> step_context \<Rightarrow> json" where
  "render lib value ctx =
     (case value of
        J_str template \<Rightarrow>
          if CHR ''{'' \<notin> set template then value
          else (let flat0 = (case cx_event_payload ctx of J_obj d \<Rightarrow> d | _ \<Rightarrow> []);
                    flat1 = (if cx_prior_outputs ctx = [] then flat0
                             else (case last (cx_prior_outputs ctx) of
                                     J_obj d \<Rightarrow>
                                       jset (fold (\<lambda>(k, v) f. jset f (''step_'' @ k) v) d flat0) ''last_output'' (J_obj d)
                                   | _ \<Rightarrow> flat0));
                    flat2 = jset flat1 ''automation_name'' (J_str (cx_automation_name ctx));
                    flat = jset flat2 ''run_id'' (J_str (uuid_str (cx_run_id ctx)))
                in case pl_format lib (rewrite_steps template) flat of
                     None \<Rightarrow> value
                   | Some s \<Rightarrow> J_str s)
      | _ \<Rightarrow> value)"

definition evaluate :: "py_lib \<Rightarrow> json_dict \<Rightarrow> step_context \<Rightarrow> bool" where
  "evaluate lib condition ctx =
     (let kind = jget condition ''kind''; left = render lib (jget condition ''left'') ctx
      in if kind = J_str ''equals''
         then (let right = render lib (jget condition ''right'') ctx in pl_str lib left = pl_str lib right)
         else if kind = J_str ''exists'' then left \<noteq> J_null \<and> left \<noteq> J_str ''''
         else if kind = J_str ''regex''
         then (let pattern = py_or (py_or (jget condition ''right'') (jget condition ''pattern'')) (J_str '''')
               in case left of
                    J_str s \<Rightarrow> truthy pattern \<and> pl_search lib pattern s = Some True
                  | _ \<Rightarrow> False)
         else False)"

text \<open>\<open>v or {}\<close> where the code goes on to call dict methods: a truthy value that is no dict raises.\<close>

definition dict_or_empty :: "json \<Rightarrow> json_dict option" where
  "dict_or_empty v = (if \<not> truthy v then Some [] else (case v of J_obj d \<Rightarrow> Some d | _ \<Rightarrow> None))"

definition attribute_error :: step_exc where
  "attribute_error = Step_exception ''AttributeError'' ''object has no attribute get'' ''AttributeError()''"

definition value_error :: "string \<Rightarrow> step_exc" where
  "value_error msg = Step_exception ''ValueError'' msg (''ValueError('' @ msg @ '')'')"

text \<open>The ordinal a branch names for an outcome of its condition; a value that is no integer is none.\<close>

definition branch_target :: "json_dict \<Rightarrow> bool \<Rightarrow> int option" where
  "branch_target cfg result =
     (case jget cfg (if result then ''then_ordinal'' else ''else_ordinal'') of
        J_null \<Rightarrow> None | v \<Rightarrow> int_of_json v)"

definition branch_output :: "json_dict \<Rightarrow> bool \<Rightarrow> json" where
  "branch_output cfg result =
     J_obj [(''action_type'', J_str ''branch''), (''condition_result'', J_bool result),
       (''next_ordinal'', case branch_target cfg result of None \<Rightarrow> J_null | Some n \<Rightarrow> J_int n)]"

definition branch_execute :: "py_lib \<Rightarrow> 'w handler" where
  "branch_execute lib w ctx =
     (case dict_or_empty (ac_config (cx_action ctx)) of
        None \<Rightarrow> (w, Inl attribute_error)
      | Some cfg \<Rightarrow>
          (case dict_or_empty (jget cfg ''condition'') of
             None \<Rightarrow> (w, Inl attribute_error)
           | Some condition \<Rightarrow>
               (let result = evaluate lib condition ctx
                in (w, Inr \<lparr>sr_output = branch_output cfg result, sr_async_handoff = False,
                            sr_spend_usd = None, sr_next_ordinal = branch_target cfg result\<rparr>))))"

subsection \<open>\<open>sub_workflow\<close>\<close>

text \<open>What the dispatcher of the child returns: the run, its status, and its row's output if it has one.\<close>

record child_run =
  ch_run_id :: "uuid option"
  ch_status :: json
  ch_raw_output :: "json option"

type_synonym 'w dispatch = "'w \<Rightarrow> uuid \<Rightarrow> json_dict \<Rightarrow> 'w \<times> (step_exc, child_run) result"

definition child_output :: "uuid \<Rightarrow> child_run \<Rightarrow> json" where
  "child_output child_id child =
     J_obj [(''action_type'', J_str ''sub_workflow''),
       (''child_automation_id'', J_str (uuid_str child_id)),
       (''child_run_id'', case ch_run_id child of None \<Rightarrow> J_null | Some r \<Rightarrow> J_str (uuid_str r)),
       (''child_status'', ch_status child),
       (''child_output'', case ch_raw_output child of None \<Rightarrow> J_obj [] | Some out \<Rightarrow> out)]"

definition sub_workflow_execute ::
  "py_lib \<Rightarrow> ('w \<Rightarrow> uuid \<Rightarrow> bool) \<Rightarrow> 'w dispatch \<Rightarrow> 'w handler" where
  "sub_workflow_execute lib exists dispatch w ctx =
     (case dict_or_empty (ac_config (cx_action ctx)) of
        None \<Rightarrow> (w, Inl attribute_error)
      | Some cfg \<Rightarrow>
          (let raw = jget cfg ''child_automation_id''
           in if \<not> truthy raw then (w, Inl (value_error ''child_automation_id required''))
              else (case parse_uuid (pl_str lib raw) of
                 None \<Rightarrow> (w, Inl (value_error ''child_automation_id must be a UUID''))
               | Some child_id \<Rightarrow>
                   if child_id = cx_automation_id ctx then (w, Inl (value_error ''refuses to invoke itself''))
                   else if \<not> exists w child_id then (w, Inl (value_error ''child not found''))
                   else (case dict_or_empty (jget cfg ''input'') of
                      None \<Rightarrow> (w, Inl (value_error ''dict(input)''))
                    | Some payload \<Rightarrow>
                        (case dispatch w child_id payload of
                           (w', Inl e) \<Rightarrow> (w', Inl e)
                         | (w', Inr child) \<Rightarrow>
                             (w', Inr \<lparr>sr_output = child_output child_id child, sr_async_handoff = False,
                                      sr_spend_usd = None, sr_next_ordinal = None\<rparr>))))))"

subsection \<open>\<open>agent.run\<close>\<close>

definition agent_run_execute ::
  "('w \<Rightarrow> step_context \<Rightarrow> 'w \<times> (step_exc, json) result)
   \<Rightarrow> ('w \<Rightarrow> step_context \<Rightarrow> 'w \<times> (step_exc, json) result) \<Rightarrow> 'w handler" where
  "agent_run_execute dispatch_agent_run dispatch_tier1 w ctx =
     (let tier1 = (cx_max_compute_tier ctx = J_int 1 \<or> cx_max_compute_tier ctx = J_bool True)
      in case (if tier1 then dispatch_tier1 w ctx else dispatch_agent_run w ctx) of
           (w', Inl e) \<Rightarrow> (w', Inl e)
         | (w', Inr output) \<Rightarrow>
             (w', Inr \<lparr>sr_output = output,
                sr_async_handoff = (\<not> tier1 \<and> (case output of J_obj d \<Rightarrow> jget d ''enqueued'' = J_bool True | _ \<Rightarrow> False)),
                sr_spend_usd = None, sr_next_ordinal = None\<rparr>))"

subsection \<open>The handlers in the engine\<close>

lemma run_step_branch:
  assumes "we_registry env (ac_type a) = Some (branch_execute lib)"
    and "dict_or_empty (ac_config a) = Some cfg" and "dict_or_empty (jget cfg ''condition'') = Some condition"
    and "result = evaluate lib condition (make_context env a prior)"
  shows "\<exists>st'. run_step env a prior st = (st', Inr \<lparr>sr_output = branch_output cfg result,
      sr_async_handoff = False, sr_spend_usd = None, sr_next_ordinal = branch_target cfg result\<rparr>)
    \<and> wf_world st' = wf_world st"
  using assms
  by (simp add: run_step_def branch_execute_def make_context_def Let_def emit_defs record_event_def
      begin_step_run_def mark_step_status_def)

text \<open>A branch picks the next step.  At a branch the run goes on with the step at the ordinal its
  configuration names for the outcome of the condition when that ordinal lies ahead, dropping the
  steps before it, and with the next step otherwise; a malformed target never fails the run, and
  the branch itself changes nothing outside the engine's tables.\<close>

theorem branch_picks_next:
  assumes "we_registry env (ac_type (the (b ordinal))) = Some (branch_execute lib)"
    and "dict_or_empty (ac_config (the (b ordinal))) = Some cfg"
    and "dict_or_empty (jget cfg ''condition'') = Some condition"
    and "result = evaluate lib condition (make_context env (the (b ordinal)) prior)"
  shows "\<exists>st'. wf_world st' = wf_world st \<and>
    goto_walk env b (ordinal # rest) prior out st =
      goto_walk env b
        (case branch_target cfg result of
           None \<Rightarrow> rest
         | Some target \<Rightarrow> if target \<in> set rest then dropWhile (\<lambda>x. x < target) rest else rest)
        (prior @ [branch_output cfg result]) (branch_output cfg result) st'"
proof -
  from run_step_branch[OF assms(1-4), of st] show ?thesis by auto
qed

definition w_lib :: py_lib where
  "w_lib = \<lparr>pl_str = (\<lambda>v. case v of J_str s \<Rightarrow> s | _ \<Rightarrow> ''?''),
     pl_format = (\<lambda>t d. if t = ''{step_body}'' then (case jget d ''step_body'' of J_str s \<Rightarrow> Some s | _ \<Rightarrow> None) else None),
     pl_search = (\<lambda>p s. None)\<rparr>"

definition w_condition :: json_dict where
  "w_condition = [(''kind'', J_str ''equals''), (''left'', J_str ''{step.body}''), (''right'', J_str ''OK'')]"

definition w_branch_cfg :: json_dict where
  "w_branch_cfg = [(''condition'', J_obj w_condition), (''then_ordinal'', J_int 5), (''else_ordinal'', J_int 3)]"

definition w_branch :: action where
  "w_branch = \<lparr>ac_id = 11, ac_ordinal = 1, ac_type = ''branch'', ac_config = J_obj w_branch_cfg,
     ac_app_action_id = None, ac_parent_action_id = None, ac_branch_condition = J_null\<rparr>"

definition w_branch_env :: "nat wf_env" where
  "w_branch_env = w_env\<lparr>we_registry := [''branch'' \<mapsto> branch_execute w_lib]\<rparr>"

definition w_prior :: "json list" where
  "w_prior = [J_obj [(''body'', J_str ''OK'')]]"

lemma w_branch_facts:
  "dict_or_empty (ac_config w_branch) = Some w_branch_cfg"
  "dict_or_empty (jget w_branch_cfg ''condition'') = Some w_condition"
  "evaluate w_lib w_condition (make_context w_branch_env w_branch w_prior) = True"
  "branch_target w_branch_cfg True = Some 5"
  by code_simp+

theorem branch_picks_next_witness:
  "\<exists>st'. wf_world st' = wf_world w_start \<and>
    goto_walk w_branch_env [1 \<mapsto> w_branch] [1, 3, 5] w_prior (J_obj []) w_start =
      goto_walk w_branch_env [1 \<mapsto> w_branch] [5] (w_prior @ [branch_output w_branch_cfg True])
        (branch_output w_branch_cfg True) st'"
proof -
  have "we_registry w_branch_env (ac_type w_branch) = Some (branch_execute w_lib)"
    by (simp add: w_branch_env_def w_branch_def)
  then show ?thesis
    using branch_picks_next[where env = w_branch_env and b = "[1 \<mapsto> w_branch]" and ordinal = 1
        and lib = w_lib and cfg = w_branch_cfg and condition = w_condition and result = True
        and prior = w_prior and st = w_start and rest = "[3, 5]" and out = "J_obj []"]
    by (simp add: w_branch_facts)
qed

text \<open>A child is only ever dispatched when it exists and is not the workflow itself.\<close>

lemma sub_workflow_dispatches_other:
  assumes "sub_workflow_execute lib exists dispatch w ctx = (w', Inr res)"
  obtains child_id payload child where "child_id \<noteq> cx_automation_id ctx" "exists w child_id"
    "dispatch w child_id payload = (w', Inr child)" "sr_output res = child_output child_id child"
  using assms by (auto simp: sub_workflow_execute_def Let_def split: option.splits if_splits prod.splits sum.splits)

end
