(* ===== verification/Contract_Gate.thy ===== *)
theory Contract_Gate
  imports Contract
begin

text \<open>
  The contract gate (\<open>agent/tools/contract_gate.py\<close>): the decision whether one tool call of an automation
  run may proceed under its contract.  The checks run in the order of \<open>ContractGate.check\<close>; a decision
  carries the breach kind and the estimate, the reason text is left out.  \<open>None\<close> is an exception out of
  the gate (an allow-list that is no list, or holds an unhashable entry).  The spend estimator of the
  billing dispatcher is an argument; at this commit the module has none and the gate falls back to
  its table.
\<close>

subsection \<open>Tool groups\<close>

definition tool_group_aliases :: "(string \<times> string list) list" where
  "tool_group_aliases =
     [(''read'', [''read_file'', ''read_many_files'', ''view_image'', ''glob'', ''grep'', ''list_dir'', ''git_log'',
        ''git_status'', ''git_diff'', ''git_blame'', ''metadata'', ''get_project_info'']),
      (''write'', [''write_file'', ''delete_file'', ''file_undo'']),
      (''edit'', [''patch_file'', ''multi_edit'', ''apply_patch'']),
      (''bash'', [''bash_exec'', ''shell_exec'', ''shell_open'', ''shell_close'', ''write_stdin'',
        ''list_background_processes'', ''read_background_output'', ''python_repl'']),
      (''web'', [''web_fetch'', ''web_search'']),
      (''skill'', [''load_skill'']),
      (''container'', [''container_status'', ''container_start'', ''container_stop'', ''container_restart'',
        ''container_logs'', ''container_health'']),
      (''kanban'', [''kanban_create'', ''kanban_move'', ''kanban_update'', ''kanban_comment'']),
      (''send_message'', [''send_message'']),
      (''app'', [''invoke_app_action''])]"

definition hashable :: "json \<Rightarrow> bool" where
  "hashable v = (case v of J_list _ \<Rightarrow> False | J_obj _ \<Rightarrow> False | _ \<Rightarrow> True)"

definition expand_entry :: "json \<Rightarrow> json list" where
  "expand_entry entry =
     (case entry of
        J_str s \<Rightarrow> (case map_of tool_group_aliases s of
                       None \<Rightarrow> [entry] | Some tools \<Rightarrow> map J_str tools)
      | _ \<Rightarrow> [entry])"

definition expand_tool_aliases :: "json list \<Rightarrow> json list" where
  "expand_tool_aliases allowed_tools = concat (map expand_entry allowed_tools)"

definition connector_only_allowed_tools :: "string list" where
  "connector_only_allowed_tools =
     [''send_message'', ''invoke_app_action'', ''web_fetch'', ''web_search'', ''load_skill'', ''schedule_create'',
      ''schedule_update'', ''schedule_delete'', ''schedule_list'', ''schedule_pause'', ''schedule_resume'']"

subsection \<open>Decisions\<close>

datatype breach_kind =
    Tool_disallowed
  | Mcp_disallowed
  | Skill_disallowed
  | Tier_too_high
  | Budget_exceeded
  | Workspace_required

record decision =
  d_allowed :: bool
  d_estimate_usd :: usd
  d_breach_kind :: "breach_kind option"

definition allow :: decision where
  "allow = \<lparr>d_allowed = True, d_estimate_usd = 0, d_breach_kind = None\<rparr>"

definition deny :: "breach_kind \<Rightarrow> decision" where
  "deny kind = \<lparr>d_allowed = False, d_estimate_usd = 0, d_breach_kind = Some kind\<rparr>"

record tool =
  tl_compute_tier :: int
  tl_delegates_to_model :: bool

datatype estimate = Est_raises | Est_none | Est usd

record run_context =
  rc_compute_profile :: "string option"
  rc_current_spend_usd :: usd
  rc_estimator :: "(string \<Rightarrow> json_dict \<Rightarrow> estimate) option"

subsection \<open>The checks\<close>

text \<open>Each returns the denial, or \<open>None\<close> to go on.\<close>

definition check_compute_profile :: "run_context \<Rightarrow> string \<Rightarrow> decision option" where
  "check_compute_profile rc tool_name =
     (let profile = (case rc_compute_profile rc of None \<Rightarrow> ''persistent_workspace''
                     | Some p \<Rightarrow> if p = [] then ''persistent_workspace'' else p)
      in if profile \<noteq> ''connector_only'' then None
         else if prefix ''mcp__'' tool_name then None
         else if tool_name \<in> set connector_only_allowed_tools then None
         else Some (deny Workspace_required))"

text \<open>\<open>tool_name.split("__", 2)[1]\<close> of a name that starts with \<open>mcp__\<close>.\<close>

fun upto_dunder :: "string \<Rightarrow> string" where
  "upto_dunder [] = []"
| "upto_dunder [c] = [c]"
| "upto_dunder (c # d # cs) = (if c = CHR ''_'' \<and> d = CHR ''_'' then [] else c # upto_dunder (d # cs))"

definition server_slug :: "string \<Rightarrow> string" where
  "server_slug tool_name = upto_dunder (drop 5 tool_name)"

definition hyphenate :: "string \<Rightarrow> string" where
  "hyphenate = map (\<lambda>c. if c = CHR ''_'' then CHR ''-'' else c)"

text \<open>A value of the contract used as a list of hashable entries; \<open>None\<close>: the use raises.\<close>

definition entries :: "json \<Rightarrow> json list option" where
  "entries v = (case v of J_list xs \<Rightarrow> if list_all hashable xs then Some xs else None | _ \<Rightarrow> None)"

text \<open>The check of one named resource of the call against a list of the contract.\<close>

definition check_named :: "json \<Rightarrow> json \<Rightarrow> breach_kind \<Rightarrow> decision option option" where
  "check_named allowed name kind =
     (if allowed = J_null then Some None
      else if name = J_null then Some None
      else (case allowed of
              J_list xs \<Rightarrow> Some (if name \<notin> set xs then Some (deny kind) else None)
            | _ \<Rightarrow> None))"

definition check_allow_lists :: "json_dict \<Rightarrow> string \<Rightarrow> json_dict \<Rightarrow> decision option option" where
  "check_allow_lists contract tool_name params =
     (if prefix ''mcp__'' tool_name
      then (let slug = server_slug tool_name; allowed_mcps = jget contract ''allowed_mcps''
            in if allowed_mcps = J_null then Some None
               else (case entries allowed_mcps of
                  None \<Rightarrow> None
                | Some xs \<Rightarrow>
                    Some (if J_str slug \<notin> set xs \<and> J_str (hyphenate slug) \<notin> set xs
                          then Some (deny Mcp_disallowed) else None)))
      else (let allowed_tools = jget contract ''allowed_tools'';
                tools = (if allowed_tools = J_null then Some None
                         else map_option (\<lambda>xs. if J_str tool_name \<notin> set (expand_tool_aliases xs)
                                               then Some (deny Tool_disallowed) else None)
                                (entries allowed_tools))
            in case tools of
                 None \<Rightarrow> None
               | Some (Some d) \<Rightarrow> Some (Some d)
               | Some None \<Rightarrow>
                   (case check_named (jget contract ''allowed_mcps'')
                           (py_or (jget params ''mcp_name'') (jget params ''server'')) Mcp_disallowed of
                      None \<Rightarrow> None
                    | Some (Some d) \<Rightarrow> Some (Some d)
                    | Some None \<Rightarrow>
                        check_named (jget contract ''allowed_skills'')
                          (py_or (jget params ''skill_name'') (jget params ''skill'')) Skill_disallowed)))"

definition max_tier_of :: "json_dict \<Rightarrow> int" where
  "max_tier_of contract =
     (case int_of_json (jget_default contract ''max_compute_tier'' (J_int 0)) of None \<Rightarrow> 0 | Some n \<Rightarrow> n)"

definition check_compute_tier :: "json_dict \<Rightarrow> tool \<Rightarrow> decision option" where
  "check_compute_tier contract tool =
     (if tl_compute_tier tool > max_tier_of contract then Some (deny Tier_too_high) else None)"

definition default_tool_estimates :: "(string \<times> usd) list" where
  "default_tool_estimates =
     [(''web_fetch'', 1 / 1000), (''web_search'', 5 / 1000), (''invoke_app_action'', 1 / 100), (''mcp_call'', 1 / 100)]"

definition default_estimate :: "string \<Rightarrow> usd" where
  "default_estimate tool_name =
     (case map_of default_tool_estimates tool_name of None \<Rightarrow> 0 | Some e \<Rightarrow> e)"

definition estimate_tool_spend :: "run_context \<Rightarrow> string \<Rightarrow> json_dict \<Rightarrow> usd" where
  "estimate_tool_spend rc tool_name params =
     (case rc_estimator rc of
        None \<Rightarrow> default_estimate tool_name
      | Some estimator \<Rightarrow>
          (case estimator tool_name params of
             Est_raises \<Rightarrow> default_estimate tool_name
           | Est_none \<Rightarrow> 0
           | Est v \<Rightarrow> v))"

definition check_spend_estimate ::
  "decimal_parser \<Rightarrow> json_dict \<Rightarrow> run_context \<Rightarrow> string \<Rightarrow> json_dict \<Rightarrow> tool \<Rightarrow> decision option" where
  "check_spend_estimate dec contract rc tool_name params tool =
     (if tl_delegates_to_model tool then None
      else (case cap_of dec contract ''max_spend_per_run_usd'' of
         None \<Rightarrow> None
       | Some max_per_run \<Rightarrow>
           (let remaining = max_per_run - rc_current_spend_usd rc;
                estimate = estimate_tool_spend rc tool_name params
            in if estimate > remaining
               then Some ((deny Budget_exceeded)\<lparr>d_estimate_usd := estimate\<rparr>) else None)))"

definition gate_check ::
  "decimal_parser \<Rightarrow> json_dict \<Rightarrow> run_context \<Rightarrow> string \<Rightarrow> json_dict \<Rightarrow> tool \<Rightarrow> decision option" where
  "gate_check dec contract rc tool_name params tool =
     (case check_compute_profile rc tool_name of Some d \<Rightarrow> Some d
      | None \<Rightarrow>
          (case check_allow_lists contract tool_name params of
             None \<Rightarrow> None
           | Some (Some d) \<Rightarrow> Some d
           | Some None \<Rightarrow>
               (case check_compute_tier contract tool of Some d \<Rightarrow> Some d
                | None \<Rightarrow>
                    (case check_spend_estimate dec contract rc tool_name params tool of Some d \<Rightarrow> Some d
                     | None \<Rightarrow> Some allow))))"

subsection \<open>What the contract permits\<close>

text \<open>The contract read as a policy, without order or early exits.\<close>

definition in_group :: "string \<Rightarrow> string \<Rightarrow> bool" where
  "in_group entry tool_name \<longleftrightarrow>
     (case map_of tool_group_aliases entry of None \<Rightarrow> entry = tool_name | Some tools \<Rightarrow> tool_name \<in> set tools)"

definition names_ok :: "json \<Rightarrow> json \<Rightarrow> bool" where
  "names_ok allowed name \<longleftrightarrow> allowed = J_null \<or> name = J_null \<or> (\<exists>xs. allowed = J_list xs \<and> name \<in> set xs)"

definition tools_permit :: "json_dict \<Rightarrow> string \<Rightarrow> json_dict \<Rightarrow> bool" where
  "tools_permit contract tool_name params \<longleftrightarrow>
     (if prefix ''mcp__'' tool_name
      then jget contract ''allowed_mcps'' = J_null
        \<or> (\<exists>xs s. jget contract ''allowed_mcps'' = J_list xs \<and> J_str s \<in> set xs
              \<and> (s = server_slug tool_name \<or> s = hyphenate (server_slug tool_name)))
      else (jget contract ''allowed_tools'' = J_null
            \<or> (\<exists>xs s. jget contract ''allowed_tools'' = J_list xs \<and> J_str s \<in> set xs \<and> in_group s tool_name))
        \<and> names_ok (jget contract ''allowed_mcps'') (py_or (jget params ''mcp_name'') (jget params ''server''))
        \<and> names_ok (jget contract ''allowed_skills'') (py_or (jget params ''skill_name'') (jget params ''skill'')))"

definition profile_permits :: "run_context \<Rightarrow> string \<Rightarrow> bool" where
  "profile_permits rc tool_name \<longleftrightarrow>
     rc_compute_profile rc \<noteq> Some ''connector_only'' \<or> prefix ''mcp__'' tool_name
     \<or> tool_name \<in> set connector_only_allowed_tools"

definition budget_permits ::
  "decimal_parser \<Rightarrow> json_dict \<Rightarrow> run_context \<Rightarrow> string \<Rightarrow> json_dict \<Rightarrow> tool \<Rightarrow> bool" where
  "budget_permits dec contract rc tool_name params tool \<longleftrightarrow>
     tl_delegates_to_model tool
     \<or> pred_option (\<lambda>cap. rc_current_spend_usd rc + estimate_tool_spend rc tool_name params \<le> cap)
         (cap_of dec contract ''max_spend_per_run_usd'')"

text \<open>The lists of a contract are null or lists of hashable entries.\<close>

definition lists_ok :: "json_dict \<Rightarrow> bool" where
  "lists_ok contract \<longleftrightarrow>
     (\<forall>k \<in> {''allowed_tools'', ''allowed_mcps'', ''allowed_skills''}.
        jget contract k = J_null \<or> entries (jget contract k) \<noteq> None)"

subsection \<open>The gate decides the policy\<close>

lemma entries_list: "entries v = Some xs \<longleftrightarrow> v = J_list xs \<and> list_all hashable xs"
  by (auto simp: entries_def split: json.splits if_splits)

lemma entries_J_list [simp]: "entries (J_list xs) = (if list_all hashable xs then Some xs else None)"
  by (simp add: entries_def)

lemma expand_entry_member: "J_str t \<in> set (expand_entry x) \<longleftrightarrow> (\<exists>s. x = J_str s \<and> in_group s t)"
  by (cases x) (auto simp: expand_entry_def in_group_def split: option.splits)

lemma expand_member:
  "J_str tool_name \<in> set (expand_tool_aliases xs) \<longleftrightarrow> (\<exists>s. J_str s \<in> set xs \<and> in_group s tool_name)"
  by (auto simp: expand_tool_aliases_def expand_entry_member)

lemma check_named_permits:
  assumes "allowed = J_null \<or> entries allowed \<noteq> None"
  shows "check_named allowed name kind = Some (if names_ok allowed name then None else Some (deny kind))"
  using assms by (cases allowed) (auto simp: check_named_def names_ok_def entries_def)

lemma check_allow_lists_permits:
  assumes "lists_ok contract"
  shows "\<exists>d. check_allow_lists contract tool_name params = Some d
    \<and> (d = None \<longleftrightarrow> tools_permit contract tool_name params)
    \<and> (\<forall>x. d = Some x \<longrightarrow> \<not> d_allowed x)"
proof -
  have ok: "jget contract k = J_null \<or> entries (jget contract k) \<noteq> None"
    if "k \<in> {''allowed_tools'', ''allowed_mcps'', ''allowed_skills''}" for k
    using assms that by (auto simp: lists_ok_def)
  have "jget contract ''allowed_mcps'' = J_null \<or> entries (jget contract ''allowed_mcps'') \<noteq> None"
    and "jget contract ''allowed_skills'' = J_null \<or> entries (jget contract ''allowed_skills'') \<noteq> None"
    by (rule ok; simp)+
  note named = this[THEN check_named_permits]
  show ?thesis
  proof (cases "prefix ''mcp__'' tool_name")
    case True
    with ok[of "''allowed_mcps''"] show ?thesis
      by (auto simp: check_allow_lists_def tools_permit_def Let_def deny_def entries_list split: option.splits)
  next
    case False
    have "jget contract ''allowed_tools'' = J_null
        \<or> (\<exists>xs. jget contract ''allowed_tools'' = J_list xs \<and> entries (J_list xs) = Some xs)"
      using ok[of "''allowed_tools''"] by (auto simp: entries_list)
    with False named show ?thesis
      by (auto simp: check_allow_lists_def tools_permit_def Let_def deny_def expand_member)
  qed
qed

lemma check_compute_profile_permits:
  "check_compute_profile rc tool_name = (if profile_permits rc tool_name then None else Some (deny Workspace_required))"
  by (auto simp: check_compute_profile_def profile_permits_def Let_def split: option.splits)

lemma check_spend_estimate_permits:
  "check_spend_estimate dec contract rc tool_name params tool = None
     \<longleftrightarrow> budget_permits dec contract rc tool_name params tool"
  by (auto simp: check_spend_estimate_def budget_permits_def Let_def split: option.splits)

lemma check_spend_estimate_denies:
  "check_spend_estimate dec contract rc tool_name params tool = Some d \<Longrightarrow> \<not> d_allowed d"
  by (auto simp: check_spend_estimate_def deny_def Let_def split: option.splits if_splits)

lemma gate_check_allows:
  assumes "lists_ok contract"
  shows "\<exists>d. gate_check dec contract rc tool_name params tool = Some d
    \<and> (d_allowed d \<longleftrightarrow> profile_permits rc tool_name \<and> tools_permit contract tool_name params
         \<and> tl_compute_tier tool \<le> max_tier_of contract
         \<and> budget_permits dec contract rc tool_name params tool)"
proof -
  obtain d where lists: "check_allow_lists contract tool_name params = Some d"
      "d = None \<longleftrightarrow> tools_permit contract tool_name params" "\<forall>x. d = Some x \<longrightarrow> \<not> d_allowed x"
    using check_allow_lists_permits[OF assms] by blast
  then show ?thesis
    using check_spend_estimate_permits[of dec contract rc tool_name params tool]
      check_spend_estimate_denies[of dec contract rc tool_name params tool]
    by (cases d) (auto simp: gate_check_def check_compute_profile_permits check_compute_tier_def
        deny_def allow_def split: option.splits)
qed


subsection \<open>Restriction\<close>

text \<open>\<open>restricts c c'\<close>: \<open>c'\<close> is a restriction of \<open>c\<close>.  A null list is the widest.\<close>

definition list_restricts :: "json \<Rightarrow> json \<Rightarrow> bool" where
  "list_restricts wide narrow \<longleftrightarrow>
     wide = J_null \<or> (\<exists>xs ys. wide = J_list xs \<and> narrow = J_list ys \<and> set ys \<subseteq> set xs)"

definition restricts :: "decimal_parser \<Rightarrow> json_dict \<Rightarrow> json_dict \<Rightarrow> bool" where
  "restricts dec wide narrow \<longleftrightarrow>
     list_restricts (jget wide ''allowed_tools'') (jget narrow ''allowed_tools'')
     \<and> list_restricts (jget wide ''allowed_mcps'') (jget narrow ''allowed_mcps'')
     \<and> list_restricts (jget wide ''allowed_skills'') (jget narrow ''allowed_skills'')
     \<and> max_tier_of narrow \<le> max_tier_of wide
     \<and> pred_option (\<lambda>w. \<exists>n. cap_of dec narrow ''max_spend_per_run_usd'' = Some n \<and> n \<le> w)
          (cap_of dec wide ''max_spend_per_run_usd'')"

lemma names_ok_mono: "list_restricts wide narrow \<Longrightarrow> names_ok narrow name \<Longrightarrow> names_ok wide name"
  by (auto simp: list_restricts_def names_ok_def)

lemma list_member_mono:
  "list_restricts wide narrow \<Longrightarrow> narrow = J_null \<or> (\<exists>xs s. narrow = J_list xs \<and> J_str s \<in> set xs \<and> P s) \<Longrightarrow>
     wide = J_null \<or> (\<exists>xs s. wide = J_list xs \<and> J_str s \<in> set xs \<and> P s)"
  by (auto simp: list_restricts_def)

lemma tools_permit_mono:
  assumes "restricts dec wide narrow" and "tools_permit narrow tool_name params"
  shows "tools_permit wide tool_name params"
proof -
  have lists: "list_restricts (jget wide ''allowed_tools'') (jget narrow ''allowed_tools'')"
      "list_restricts (jget wide ''allowed_mcps'') (jget narrow ''allowed_mcps'')"
      "list_restricts (jget wide ''allowed_skills'') (jget narrow ''allowed_skills'')"
    using assms(1) by (simp_all add: restricts_def)
  show ?thesis
  proof (cases "prefix ''mcp__'' tool_name")
    case True
    with assms(2) list_member_mono[OF lists(2), of "\<lambda>s. s = server_slug tool_name \<or> s = hyphenate (server_slug tool_name)"]
    show ?thesis unfolding tools_permit_def by simp
  next
    case False
    with assms(2) list_member_mono[OF lists(1), of "\<lambda>s. in_group s tool_name"]
      names_ok_mono[OF lists(2)] names_ok_mono[OF lists(3)]
    show ?thesis unfolding tools_permit_def by simp
  qed
qed

lemma budget_permits_mono:
  "restricts dec wide narrow \<Longrightarrow> budget_permits dec narrow rc tool_name params tool \<Longrightarrow>
     budget_permits dec wide rc tool_name params tool"
  by (cases "cap_of dec wide ''max_spend_per_run_usd''") (auto simp: budget_permits_def restricts_def)

text \<open>restricting a contract never widens what the gate allows.  Whatever it allows under a
  restriction it allows under the contract that was restricted.\<close>

theorem gate_monotone:
  assumes "restricts dec wide narrow" and "lists_ok wide" and "lists_ok narrow"
    and "gate_check dec narrow rc tool_name params tool = Some d" and "d_allowed d"
  shows "gate_check dec wide rc tool_name params tool = Some allow"
proof -
  have "profile_permits rc tool_name" "tools_permit wide tool_name params"
      "tl_compute_tier tool \<le> max_tier_of wide" "budget_permits dec wide rc tool_name params tool"
    using gate_check_allows[OF assms(3), of dec rc tool_name params tool] assms(1,4,5)
      tools_permit_mono[OF assms(1)] budget_permits_mono[OF assms(1)]
    by (auto simp: restricts_def)
  moreover from this(2) have "check_allow_lists wide tool_name params = Some None"
    using check_allow_lists_permits[OF assms(2), of tool_name params] by auto
  ultimately show ?thesis
    using check_spend_estimate_permits[of dec wide rc tool_name params tool]
    by (simp add: gate_check_def check_compute_profile_permits check_compute_tier_def)
qed

subsection \<open>Inheritance against the gate\<close>

definition w_rc :: run_context where
  "w_rc = \<lparr>rc_compute_profile = None, rc_current_spend_usd = 0, rc_estimator = None\<rparr>"

definition w_tool :: tool where
  "w_tool = \<lparr>tl_compute_tier = 0, tl_delegates_to_model = False\<rparr>"

text \<open>A true restriction of the example parent: a list with one of its tools and a lower cap.\<close>

definition w_narrow :: json_dict where
  "w_narrow = [(''allowed_tools'', J_list [J_str ''read_file'']), (''max_compute_tier'', J_int 0),
     (''allowed_mcps'', J_list []), (''max_spend_per_run_usd'', J_int 1)]"

lemma w_lists_ok: "lists_ok w_parent" "lists_ok w_narrow" "lists_ok w_child"
  by (simp_all add: lists_ok_def w_parent_def w_narrow_def w_child_def jget_def entries_def hashable_def)


lemma w_narrow_restricts: "restricts w_dec w_parent w_narrow"
  by (simp add: restricts_def list_restricts_def w_parent_def w_narrow_def jget_def max_tier_of_def
      jget_default_def cap_of_def json_decimal_def)

theorem gate_monotone_witness:
  "gate_check w_dec w_parent w_rc ''read_file'' [] w_tool = Some allow"
proof -
  have "gate_check w_dec w_narrow w_rc ''read_file'' [] w_tool = Some allow" by code_simp
  then show ?thesis
    by (rule gate_monotone[OF w_narrow_restricts w_lists_ok(1,2)]) (simp add: allow_def)
qed

text \<open>the inheritance check does not make the child a restriction.  It never looks at the tier, the
  MCP servers or the skills, and takes a null tool list, the widest, for no scopes: there is a valid
  contract and a valid child of it that passes the check, under which the gate allows a shell
  command, a tier-2 tool and an MCP server, each of which it denies under the parent.\<close>

theorem inherited_contract_widens:
  "validate_contract w_dec (J_obj w_parent) = None \<and> validate_contract w_dec (J_obj w_child) = None
   \<and> validate_child_contract w_dec (J_obj w_parent) (J_obj w_child) (Some 5) = None
   \<and> gate_check w_dec w_child w_rc ''bash_exec'' [] w_tool = Some allow
   \<and> gate_check w_dec w_parent w_rc ''bash_exec'' [] w_tool = Some (deny Tool_disallowed)
   \<and> gate_check w_dec w_child w_rc ''read_file'' [] (w_tool\<lparr>tl_compute_tier := 2\<rparr>) = Some allow
   \<and> gate_check w_dec w_parent w_rc ''read_file'' [] (w_tool\<lparr>tl_compute_tier := 2\<rparr>) = Some (deny Tier_too_high)
   \<and> gate_check w_dec w_child w_rc ''mcp__linear__create'' [] w_tool = Some allow
   \<and> gate_check w_dec w_parent w_rc ''mcp__linear__create'' [] w_tool = Some (deny Mcp_disallowed)"
  by code_simp

end
