(* ===== verification/Wallets.thy ===== *)
theory Wallets
  imports Contract
begin

text \<open>
  Spend attribution and settlement of installed apps: who pays for a spend
  (\<open>services/apps/billing_dispatcher.py\<close>) and the sweep of unsettled spends into the wallet ledger
  (\<open>settlement_worker.py\<close>).  The n-th wallet of the table has the id n; the advisory lock of
  \<open>find_or_create_wallet\<close> and the row locks make each settlement atomic, so settlements are one after
  the other here.  Database failures other than the code's own exceptions are not modelled.
\<close>

subsection \<open>Money\<close>

text \<open>\<open>_q\<close>: six decimal places, ties away from zero.\<close>

definition quant :: "usd \<Rightarrow> usd" where
  "quant x = (if 0 \<le> x then of_int \<lfloor>x * 1000000 + 1 / 2\<rfloor> / 1000000
              else - (of_int \<lfloor>- x * 1000000 + 1 / 2\<rfloor> / 1000000))"

definition is_micro :: "usd \<Rightarrow> bool" where
  "is_micro x \<longleftrightarrow> x * 1000000 \<in> \<int>"

lemma quant_micro [simp]: "is_micro (quant x)"
  by (simp add: is_micro_def quant_def)

lemma quant_id: "is_micro x \<Longrightarrow> quant x = x"
proof -
  assume "is_micro x"
  then obtain n where n: "x * 1000000 = of_int n" by (auto simp: is_micro_def elim: Ints_cases)
  have fl: "\<lfloor>of_int m + 1 / 2 :: rat\<rfloor> = m" for m by (simp add: floor_unique)
  have x: "x = of_int n / 1000000" using n by simp
  have "- x * 1000000 = of_int (- n)" using n by simp
  then show ?thesis using fl[of n] fl[of "- n"] n x by (simp add: quant_def)
qed

lemma is_micro_add [simp]: "is_micro x \<Longrightarrow> is_micro y \<Longrightarrow> is_micro (x + y)"
  by (simp add: is_micro_def algebra_simps)

lemma is_micro_diff [simp]: "is_micro x \<Longrightarrow> is_micro y \<Longrightarrow> is_micro (x - y)"
  by (simp add: is_micro_def algebra_simps)

lemma is_micro_uminus [simp]: "is_micro (- x) = is_micro x"
  by (simp add: is_micro_def)

lemma is_micro_0 [simp]: "is_micro 0"
  by (simp add: is_micro_def)

lemma quant_nonneg [simp]: "0 \<le> x \<Longrightarrow> 0 \<le> quant x"
  by (simp add: quant_def)

subsection \<open>Tables\<close>

datatype dimension = Ai_compute | General_compute | Storage | Egress | Mcp_tool_call | Platform_fee

datatype payer = P_creator | P_platform | P_installer | P_byok

datatype owner_type = O_creator | O_platform | O_installer

record wallet =
  wa_owner_type :: owner_type
  wa_owner_user_id :: "uuid option"
  wa_balance_usd :: usd

datatype role = Debit_payer | Credit_creator | Credit_platform_markup

record ledger_entry =
  le_wallet :: nat
  le_delta_usd :: usd
  le_spend :: uuid
  le_role :: role

record spend_record =
  sp_id :: uuid
  sp_app_instance_id :: "uuid option"
  sp_installer_user_id :: "uuid option"
  sp_dimension :: dimension
  sp_payer :: payer
  sp_payer_user_id :: "uuid option"
  sp_amount_usd :: usd
  sp_request_id :: "string option"
  sp_settled :: bool
  sp_settled_at :: "instant option"
  sp_byok_no_op :: bool
  sp_created_at :: instant

text \<open>A wallet mix gives each declared dimension its payer (\<open>None\<close>: the entry names none, or no valid one)
  and its markup as it is stored.\<close>

record mix_entry =
  mx_payer :: "payer option"
  mx_markup_pct :: "json option"

record app_instance =
  in_app_id :: uuid
  in_wallet_mix :: "(dimension \<times> mix_entry) list"

record billing =
  b_instances :: "uuid \<rightharpoonup> app_instance"
  b_creators :: "uuid \<rightharpoonup> uuid"
  b_wallets :: "wallet list"
  b_ledger :: "ledger_entry list"
  b_spends :: "spend_record list"

subsection \<open>Who pays\<close>

datatype billing_error =
    Unknown_dimension
  | Missing_wallet_mix
  | Negative_amount
  | No_creator
  | Unexpected_payer
  | Bad_wallet_owner

definition resolve_payer :: "(dimension \<times> mix_entry) list \<Rightarrow> dimension \<Rightarrow> bool \<Rightarrow> (billing_error, payer) result" where
  "resolve_payer wallet_mix dimension is_byok =
     (if is_byok \<and> dimension = Ai_compute then Inr P_byok
      else (case map_of wallet_mix dimension of
         None \<Rightarrow> Inl Unknown_dimension
       | Some entry \<Rightarrow> (case mx_payer entry of None \<Rightarrow> Inl Unknown_dimension | Some p \<Rightarrow> Inr p)))"

definition load_instance :: "billing \<Rightarrow> uuid \<Rightarrow> (billing_error, app_instance) result" where
  "load_instance db k =
     (case b_instances db k of
        None \<Rightarrow> Inl Missing_wallet_mix
      | Some inst \<Rightarrow> if in_wallet_mix inst = [] then Inl Missing_wallet_mix else Inr inst)"

record spend_outcome =
  so_spend_record_id :: uuid
  so_payer :: payer
  so_amount_usd :: usd
  so_dimension :: dimension

definition outcome_of :: "spend_record \<Rightarrow> spend_outcome" where
  "outcome_of s = \<lparr>so_spend_record_id = sp_id s, so_payer = sp_payer s, so_amount_usd = sp_amount_usd s,
                   so_dimension = sp_dimension s\<rparr>"

definition with_request_id :: "billing \<Rightarrow> string option \<Rightarrow> spend_record option" where
  "with_request_id db request_id =
     (case request_id of None \<Rightarrow> None | Some r \<Rightarrow> find (\<lambda>s. sp_request_id s = Some r) (b_spends db))"

definition record_spend ::
  "billing \<Rightarrow> uuid \<Rightarrow> instant \<Rightarrow> uuid \<Rightarrow> uuid \<Rightarrow> dimension \<Rightarrow> usd \<Rightarrow> bool \<Rightarrow> string option
   \<Rightarrow> billing \<times> (billing_error, spend_outcome) result" where
  "record_spend db new_id now app_instance_id installer_user_id dimension amount is_byok request_id =
     (if amount < 0 then (db, Inl Negative_amount)
      else (case with_request_id db request_id of
         Some existing \<Rightarrow> (db, Inr (outcome_of existing))
       | None \<Rightarrow>
           (case load_instance db app_instance_id of
              Inl e \<Rightarrow> (db, Inl e)
            | Inr inst \<Rightarrow>
                (case resolve_payer (in_wallet_mix inst) dimension is_byok of
                   Inl e \<Rightarrow> (db, Inl e)
                 | Inr payer \<Rightarrow>
                     (let payer_user_id = (if payer = P_creator then b_creators db (in_app_id inst)
                                           else if payer = P_installer then Some installer_user_id else None);
                          row = \<lparr>sp_id = new_id, sp_app_instance_id = Some app_instance_id,
                                 sp_installer_user_id = Some installer_user_id, sp_dimension = dimension,
                                 sp_payer = payer, sp_payer_user_id = payer_user_id,
                                 sp_amount_usd = amount, sp_request_id = request_id, sp_settled = False,
                                 sp_settled_at = None, sp_byok_no_op = False, sp_created_at = now\<rparr>
                      in (db\<lparr>b_spends := b_spends db @ [row]\<rparr>, Inr (outcome_of row)))))))"

subsection \<open>Wallets\<close>

text \<open>The index of the oldest wallet of the owner, if there is one.\<close>

definition find_wallet :: "wallet list \<Rightarrow> owner_type \<Rightarrow> uuid option \<Rightarrow> nat option" where
  "find_wallet wallets owner_type owner_user_id =
     find (\<lambda>k. wa_owner_type (wallets ! k) = owner_type \<and> wa_owner_user_id (wallets ! k) = owner_user_id)
       [0..<length wallets]"

definition find_or_create_wallet ::
  "billing \<Rightarrow> owner_type \<Rightarrow> uuid option \<Rightarrow> (billing_error, billing \<times> nat) result" where
  "find_or_create_wallet db owner_type owner_user_id =
     (if owner_type = O_platform \<and> owner_user_id \<noteq> None then Inl Bad_wallet_owner
      else if owner_type \<noteq> O_platform \<and> owner_user_id = None then Inl Bad_wallet_owner
      else (case find_wallet (b_wallets db) owner_type owner_user_id of
         Some k \<Rightarrow> Inr (db, k)
       | None \<Rightarrow>
           Inr (db\<lparr>b_wallets := b_wallets db @
                     [\<lparr>wa_owner_type = owner_type, wa_owner_user_id = owner_user_id, wa_balance_usd = 0\<rparr>]\<rparr>,
                length (b_wallets db))))"

definition apply_ledger :: "billing \<Rightarrow> nat \<Rightarrow> usd \<Rightarrow> uuid \<Rightarrow> role \<Rightarrow> billing" where
  "apply_ledger db k delta spend role =
     db\<lparr>b_wallets := (b_wallets db)[k := (b_wallets db ! k)\<lparr>wa_balance_usd := quant (wa_balance_usd (b_wallets db ! k) + delta)\<rparr>],
        b_ledger := b_ledger db @ [\<lparr>le_wallet = k, le_delta_usd = delta, le_spend = spend, le_role = role\<rparr>]\<rparr>"

text \<open>Find the wallet and apply one entry to it.\<close>

definition post ::
  "billing \<Rightarrow> owner_type \<Rightarrow> uuid option \<Rightarrow> usd \<Rightarrow> uuid \<Rightarrow> role \<Rightarrow> (billing_error, billing) result" where
  "post db owner_type owner_user_id delta spend role =
     (case find_or_create_wallet db owner_type owner_user_id of
        Inl e \<Rightarrow> Inl e
      | Inr (db', k) \<Rightarrow> Inr (apply_ledger db' k delta spend role))"

subsection \<open>Settlement\<close>

definition update_spend :: "uuid \<Rightarrow> (spend_record \<Rightarrow> spend_record) \<Rightarrow> billing \<Rightarrow> billing" where
  "update_spend k f db = db\<lparr>b_spends := map (\<lambda>s. if sp_id s = k then f s else s) (b_spends db)\<rparr>"

definition creator_of :: "billing \<Rightarrow> spend_record \<Rightarrow> uuid option" where
  "creator_of db spend =
     (case sp_app_instance_id spend of None \<Rightarrow> None
      | Some k \<Rightarrow> (case b_instances db k of None \<Rightarrow> None | Some inst \<Rightarrow> b_creators db (in_app_id inst)))"

definition markup_of :: "decimal_parser \<Rightarrow> billing \<Rightarrow> spend_record \<Rightarrow> usd" where
  "markup_of dec db spend =
     (case sp_app_instance_id spend of None \<Rightarrow> 0
      | Some k \<Rightarrow>
          (case b_instances db k of None \<Rightarrow> 0
           | Some inst \<Rightarrow>
               (case map_of (in_wallet_mix inst) (sp_dimension spend) of None \<Rightarrow> 0
                | Some entry \<Rightarrow>
                    (case mx_markup_pct entry of None \<Rightarrow> 0
                     | Some raw \<Rightarrow> (case json_decimal dec raw of None \<Rightarrow> 0 | Some pct \<Rightarrow> pct)))))"

definition debit_payer ::
  "billing \<Rightarrow> spend_record \<Rightarrow> uuid option \<Rightarrow> usd \<Rightarrow> (billing_error, billing) result" where
  "debit_payer db spend creator gross =
     (case sp_payer spend of
        P_installer \<Rightarrow> post db O_installer (sp_installer_user_id spend) (- gross) (sp_id spend) Debit_payer
      | P_creator \<Rightarrow>
          if creator = None then Inl No_creator
          else post db O_creator creator (- gross) (sp_id spend) Debit_payer
      | P_platform \<Rightarrow> post db O_platform None (- gross) (sp_id spend) Debit_payer
      | P_byok \<Rightarrow> Inl Unexpected_payer)"

definition credit_creator ::
  "billing \<Rightarrow> spend_record \<Rightarrow> uuid option \<Rightarrow> usd \<Rightarrow> (billing_error, billing) result" where
  "credit_creator db spend creator net =
     (if sp_payer spend \<noteq> P_creator \<and> creator \<noteq> None \<and> net > 0
      then post db O_creator creator net (sp_id spend) Credit_creator else Inr db)"

definition credit_platform :: "billing \<Rightarrow> spend_record \<Rightarrow> usd \<Rightarrow> (billing_error, billing) result" where
  "credit_platform db spend markup =
     (if sp_payer spend \<noteq> P_platform \<and> markup > 0
      then post db O_platform None markup (sp_id spend) Credit_platform_markup else Inr db)"

text \<open>\<open>settle_one_spend\<close>; an exception is \<open>Inl\<close>, and the savepoint around it undoes the writes.\<close>

definition settle_one_spend ::
  "decimal_parser \<Rightarrow> instant \<Rightarrow> billing \<Rightarrow> spend_record \<Rightarrow> (billing_error, billing) result" where
  "settle_one_spend dec now db spend =
     (let gross = quant (sp_amount_usd spend); creator = creator_of db spend; pct = markup_of dec db spend
      in if sp_payer spend = P_byok \<and> sp_dimension spend = Ai_compute
         then Inr (update_spend (sp_id spend)
                (\<lambda>s. s\<lparr>sp_settled := True, sp_settled_at := Some now, sp_byok_no_op := True\<rparr>) db)
         else (let markup_amount = quant (gross * pct); net_creator_amount = quant (gross - markup_amount)
               in case debit_payer db spend creator gross of
                    Inl e \<Rightarrow> Inl e
                  | Inr db1 \<Rightarrow>
                      (case credit_creator db1 spend creator net_creator_amount of
                         Inl e \<Rightarrow> Inl e
                       | Inr db2 \<Rightarrow>
                           (case credit_platform db2 spend markup_amount of
                              Inl e \<Rightarrow> Inl e
                            | Inr db3 \<Rightarrow>
                                Inr (update_spend (sp_id spend)
                                  (\<lambda>s. s\<lparr>sp_settled := True, sp_settled_at := Some now\<rparr>) db3)))))"

text \<open>The sweep: the oldest unsettled rows, each in its own savepoint.\<close>

fun settle_rows ::
  "decimal_parser \<Rightarrow> instant \<Rightarrow> spend_record list \<Rightarrow> billing \<times> nat \<times> nat \<Rightarrow> billing \<times> nat \<times> nat" where
  "settle_rows dec now [] st = st"
| "settle_rows dec now (spend # rows) (db, processed, errors) =
     (case settle_one_spend dec now db spend of
        Inl _ \<Rightarrow> settle_rows dec now rows (db, processed, Suc errors)
      | Inr db' \<Rightarrow> settle_rows dec now rows (db', Suc processed, errors))"

definition unsettled_batch :: "nat \<Rightarrow> billing \<Rightarrow> spend_record list" where
  "unsettled_batch limit db = take limit (sort_key sp_created_at (filter (\<lambda>s. \<not> sp_settled s) (b_spends db)))"

definition settle_spend_batch :: "decimal_parser \<Rightarrow> instant \<Rightarrow> nat \<Rightarrow> billing \<Rightarrow> billing \<times> nat \<times> nat" where
  "settle_spend_batch dec now limit db = settle_rows dec now (unsettled_batch limit db) (db, 0, 0)"

subsection \<open>Posting\<close>

text \<open>Every balance is the sum of the wallet's ledger entries, and every entry has a wallet.\<close>

definition wallet_sum :: "ledger_entry list \<Rightarrow> nat \<Rightarrow> usd" where
  "wallet_sum es k = sum_list (map le_delta_usd (filter (\<lambda>e. le_wallet e = k) es))"

definition balances_ok :: "billing \<Rightarrow> bool" where
  "balances_ok db \<longleftrightarrow>
     (\<forall>k < length (b_wallets db). wa_balance_usd (b_wallets db ! k) = wallet_sum (b_ledger db) k)
     \<and> (\<forall>e \<in> set (b_ledger db). le_wallet e < length (b_wallets db) \<and> is_micro (le_delta_usd e))"

lemma is_micro_wallet_sum: "\<forall>e \<in> set es. is_micro (le_delta_usd e) \<Longrightarrow> is_micro (wallet_sum es k)"
  by (induction es) (auto simp: wallet_sum_def)

lemma wallet_sum_snoc: "wallet_sum (es @ [e]) k = wallet_sum es k + (if le_wallet e = k then le_delta_usd e else 0)"
  by (simp add: wallet_sum_def)

lemma wallet_sum_none: "\<forall>e \<in> set es. le_wallet e \<noteq> k \<Longrightarrow> wallet_sum es k = 0"
  by (induction es) (auto simp: wallet_sum_def)

lemma find_wallet_less: "find_wallet wallets t u = Some k \<Longrightarrow> k < length wallets"
  by (auto simp: find_wallet_def find_Some_iff)

lemma find_or_create_wallet_ok:
  assumes "balances_ok db" and "find_or_create_wallet db t u = Inr (db', k)"
  shows "balances_ok db' \<and> k < length (b_wallets db') \<and> b_ledger db' = b_ledger db
    \<and> b_spends db' = b_spends db \<and> b_instances db' = b_instances db \<and> b_creators db' = b_creators db"
proof (cases "find_wallet (b_wallets db) t u")
  case None
  have "wallet_sum (b_ledger db) (length (b_wallets db)) = 0"
    using assms(1) by (intro wallet_sum_none) (auto simp: balances_ok_def)
  with None assms show ?thesis
    by (auto simp: find_or_create_wallet_def balances_ok_def nth_append less_Suc_eq split: if_splits)
next
  case (Some k')
  with assms find_wallet_less[OF Some] show ?thesis
    by (auto simp: find_or_create_wallet_def split: if_splits)
qed

lemma apply_ledger_ok:
  assumes "balances_ok db" and "k < length (b_wallets db)" and "is_micro delta"
  shows "balances_ok (apply_ledger db k delta spend role)"
proof -
  have "is_micro (wallet_sum (b_ledger db) k)"
    using assms(1) by (intro is_micro_wallet_sum) (simp add: balances_ok_def)
  then have "quant (wallet_sum (b_ledger db) k + delta) = wallet_sum (b_ledger db) k + delta"
    using assms(3) by (intro quant_id) simp
  with assms show ?thesis
    by (auto simp: balances_ok_def apply_ledger_def wallet_sum_snoc nth_list_update)
qed

lemma post_ok:
  assumes "balances_ok db" and "is_micro delta" and "post db t u delta spend role = Inr db'"
  shows "balances_ok db' \<and> b_spends db' = b_spends db \<and> b_instances db' = b_instances db
    \<and> b_creators db' = b_creators db
    \<and> (\<exists>k. b_ledger db' = b_ledger db @ [\<lparr>le_wallet = k, le_delta_usd = delta, le_spend = spend, le_role = role\<rparr>])"
  using assms find_or_create_wallet_ok[OF assms(1), of t u] apply_ledger_ok
  by (fastforce simp: post_def apply_ledger_def[of _ _ delta spend role] split: sum.splits
      intro: apply_ledger_ok[unfolded apply_ledger_def])

lemma post_succeeds:
  "(\<exists>db'. post db t u delta spend role = Inr db') \<longleftrightarrow> (t = O_platform \<longleftrightarrow> u = None)"
  by (auto simp: post_def find_or_create_wallet_def split: option.splits)

subsection \<open>One settlement\<close>

text \<open>The legs of a settlement: role and amount of each entry, in order.\<close>

definition settlement_legs :: "spend_record \<Rightarrow> uuid option \<Rightarrow> usd \<Rightarrow> (role \<times> usd) list" where
  "settlement_legs spend creator pct =
     (let gross = quant (sp_amount_usd spend); markup = quant (gross * pct); net = quant (gross - markup)
      in if sp_payer spend = P_byok then []
         else (Debit_payer, - gross)
           # (if sp_payer spend \<noteq> P_creator \<and> creator \<noteq> None \<and> net > 0 then [(Credit_creator, net)] else [])
           @ (if sp_payer spend \<noteq> P_platform \<and> markup > 0 then [(Credit_platform_markup, markup)] else []))"

text \<open>The spends a settlement accepts.\<close>

definition settleable :: "billing \<Rightarrow> spend_record \<Rightarrow> bool" where
  "settleable db spend \<longleftrightarrow>
     (case sp_payer spend of
        P_installer \<Rightarrow> sp_installer_user_id spend \<noteq> None
      | P_creator \<Rightarrow> creator_of db spend \<noteq> None
      | P_platform \<Rightarrow> True
      | P_byok \<Rightarrow> sp_dimension spend = Ai_compute)"

text \<open>What a settlement writes to the row of \<open>spend\<close>.\<close>

definition mark_settled :: "instant \<Rightarrow> spend_record \<Rightarrow> spend_record \<Rightarrow> spend_record" where
  "mark_settled now spend s =
     s\<lparr>sp_settled := True, sp_settled_at := Some now,
       sp_byok_no_op := (if sp_payer spend = P_byok then True else sp_byok_no_op s)\<rparr>"

text \<open>What posting a list of legs for one spend does to the database.\<close>

definition posted :: "billing \<Rightarrow> billing \<Rightarrow> uuid \<Rightarrow> (role \<times> usd) list \<Rightarrow> bool" where
  "posted db db' spend legs \<longleftrightarrow>
     balances_ok db' \<and> b_spends db' = b_spends db \<and> b_instances db' = b_instances db \<and> b_creators db' = b_creators db
     \<and> (\<exists>es. b_ledger db' = b_ledger db @ es \<and> map (\<lambda>e. (le_role e, le_delta_usd e)) es = legs
          \<and> (\<forall>e \<in> set es. le_spend e = spend))"

lemma posted_trans: "posted db db1 s l1 \<Longrightarrow> posted db1 db2 s l2 \<Longrightarrow> posted db db2 s (l1 @ l2)"
  by (fastforce simp: posted_def)

lemma posted_refl: "balances_ok db \<Longrightarrow> posted db db s []"
  by (simp add: posted_def)

lemma post_posted:
  "balances_ok db \<Longrightarrow> is_micro delta \<Longrightarrow> post db t u delta s role = Inr db' \<Longrightarrow> posted db db' s [(role, delta)]"
  using post_ok by (fastforce simp: posted_def)

lemma debit_payer_posted:
  assumes "balances_ok db" and "is_micro gross"
  shows "if sp_payer spend \<noteq> P_byok \<and> (sp_payer spend = P_installer \<longrightarrow> sp_installer_user_id spend \<noteq> None)
      \<and> (sp_payer spend = P_creator \<longrightarrow> creator \<noteq> None)
    then \<exists>db'. debit_payer db spend creator gross = Inr db' \<and> posted db db' (sp_id spend) [(Debit_payer, - gross)]
    else \<exists>e. debit_payer db spend creator gross = Inl e"
proof -
  have post: "if (t = O_platform \<longleftrightarrow> u = None)
      then \<exists>db'. post db t u (- gross) (sp_id spend) Debit_payer = Inr db'
        \<and> posted db db' (sp_id spend) [(Debit_payer, - gross)]
      else \<exists>e. post db t u (- gross) (sp_id spend) Debit_payer = Inl e" for t u
    using post_succeeds[of db t u "- gross" "sp_id spend" Debit_payer] post_posted[OF assms(1), of "- gross"] assms(2)
    by (cases "post db t u (- gross) (sp_id spend) Debit_payer") auto
  show ?thesis
    using post[of O_installer "sp_installer_user_id spend"] post[of O_creator creator] post[of O_platform None]
    by (cases "sp_payer spend") (auto simp: debit_payer_def)
qed

lemma credit_creator_posted:
  assumes "balances_ok db" and "is_micro net"
  shows "\<exists>db'. credit_creator db spend creator net = Inr db' \<and> posted db db' (sp_id spend)
    (if sp_payer spend \<noteq> P_creator \<and> creator \<noteq> None \<and> net > 0 then [(Credit_creator, net)] else [])"
  using post_succeeds[of db O_creator creator net "sp_id spend" Credit_creator] post_posted[OF assms] posted_refl[OF assms(1)]
  by (auto simp: credit_creator_def)

lemma credit_platform_posted:
  assumes "balances_ok db" and "is_micro markup"
  shows "\<exists>db'. credit_platform db spend markup = Inr db' \<and> posted db db' (sp_id spend)
    (if sp_payer spend \<noteq> P_platform \<and> markup > 0 then [(Credit_platform_markup, markup)] else [])"
  using post_succeeds[of db O_platform None markup "sp_id spend" Credit_platform_markup] post_posted[OF assms]
    posted_refl[OF assms(1)]
  by (auto simp: credit_platform_def)

lemma settle_one_outcome:
  assumes ok: "balances_ok db"
  shows "if settleable db spend
    then \<exists>db1. settle_one_spend dec now db spend = Inr (update_spend (sp_id spend) (mark_settled now spend) db1)
        \<and> posted db db1 (sp_id spend) (settlement_legs spend (creator_of db spend) (markup_of dec db spend))
    else \<exists>e. settle_one_spend dec now db spend = Inl e"
proof (cases "sp_payer spend = P_byok")
  case True
  then have "(\<lambda>s. s\<lparr>sp_settled := True, sp_settled_at := Some now, sp_byok_no_op := True\<rparr>) = mark_settled now spend"
    by (simp add: mark_settled_def fun_eq_iff)
  with True debit_payer_posted[OF ok, of "quant (sp_amount_usd spend)" spend "creator_of db spend"]
    posted_refl[OF ok, of "sp_id spend"] show ?thesis
    by (auto simp: settle_one_spend_def settleable_def settlement_legs_def Let_def)
next
  case False
  define gross where "gross = quant (sp_amount_usd spend)"
  define markup where "markup = quant (gross * markup_of dec db spend)"
  define net where "net = quant (gross - markup)"
  define creator where "creator = creator_of db spend"
  have micro: "is_micro gross" "is_micro markup" "is_micro net"
    by (simp_all add: gross_def markup_def net_def)
  have mark: "(\<lambda>s. s\<lparr>sp_settled := True, sp_settled_at := Some now\<rparr>) = mark_settled now spend"
    using False by (simp add: mark_settled_def fun_eq_iff)
  have able: "settleable db spend \<longleftrightarrow> (sp_payer spend = P_installer \<longrightarrow> sp_installer_user_id spend \<noteq> None)
      \<and> (sp_payer spend = P_creator \<longrightarrow> creator \<noteq> None)"
    using False by (cases "sp_payer spend") (auto simp: settleable_def creator_def)
  note debit = debit_payer_posted[OF ok micro(1), of spend creator]
  show ?thesis
  proof (cases "settleable db spend")
    case yes: True
    then obtain db1 where d: "debit_payer db spend creator gross = Inr db1"
        and p1: "posted db db1 (sp_id spend) [(Debit_payer, - gross)]"
      using debit able False by auto
    then have "balances_ok db1" by (simp add: posted_def)
    from credit_creator_posted[OF this micro(3), of spend creator]
    obtain db2 where c: "credit_creator db1 spend creator net = Inr db2" and p2: "posted db1 db2 (sp_id spend)
        (if sp_payer spend \<noteq> P_creator \<and> creator \<noteq> None \<and> net > 0 then [(Credit_creator, net)] else [])" by blast
    then have "balances_ok db2" by (simp add: posted_def)
    from credit_platform_posted[OF this micro(2), of spend]
    obtain db3 where f: "credit_platform db2 spend markup = Inr db3" and p3: "posted db2 db3 (sp_id spend)
        (if sp_payer spend \<noteq> P_platform \<and> markup > 0 then [(Credit_platform_markup, markup)] else [])" by blast
    have "settle_one_spend dec now db spend = Inr (update_spend (sp_id spend) (mark_settled now spend) db3)"
      using False d c f mark
      by (simp add: settle_one_spend_def Let_def gross_def markup_def net_def creator_def)
    moreover have "settlement_legs spend creator (markup_of dec db spend) =
        [(Debit_payer, - gross)]
        @ (if sp_payer spend \<noteq> P_creator \<and> creator \<noteq> None \<and> net > 0 then [(Credit_creator, net)] else [])
        @ (if sp_payer spend \<noteq> P_platform \<and> markup > 0 then [(Credit_platform_markup, markup)] else [])"
      using False by (simp add: settlement_legs_def Let_def gross_def markup_def net_def)
    then have "posted db db3 (sp_id spend) (settlement_legs spend creator (markup_of dec db spend))"
      using posted_trans[OF p1 posted_trans[OF p2 p3]] by (simp only:)
    ultimately show ?thesis using yes by (auto simp: creator_def)
  next
    case no: False
    then obtain e where "debit_payer db spend creator gross = Inl e" using debit able False by auto
    with no False show ?thesis by (simp add: settle_one_spend_def Let_def gross_def creator_def)
  qed
qed

subsection \<open>The invariant\<close>

definition entries_of :: "billing \<Rightarrow> uuid \<Rightarrow> (role \<times> usd) list" where
  "entries_of db k = map (\<lambda>e. (le_role e, le_delta_usd e)) (filter (\<lambda>e. le_spend e = k) (b_ledger db))"

text \<open>Balances are sums of entries; ids are unique; an unsettled spend has no entries and a settled one has
  exactly the legs of one settlement.\<close>

definition spend_ledger_ok :: "billing \<Rightarrow> spend_record \<Rightarrow> bool" where
  "spend_ledger_ok db s \<longleftrightarrow>
     (if sp_settled s then \<exists>creator pct. entries_of db (sp_id s) = settlement_legs s creator pct
      else entries_of db (sp_id s) = [])"

definition billing_inv :: "billing \<Rightarrow> bool" where
  "billing_inv db \<longleftrightarrow> balances_ok db \<and> distinct (map sp_id (b_spends db))
     \<and> (\<forall>e \<in> set (b_ledger db). le_spend e \<in> sp_id ` set (b_spends db))
     \<and> (\<forall>s \<in> set (b_spends db). spend_ledger_ok db s)"

lemma mark_settled_simps [simp]:
  "sp_id (mark_settled now spend s) = sp_id s" "sp_settled (mark_settled now spend s)"
  "settlement_legs (mark_settled now spend s) = settlement_legs s"
  by (simp_all add: mark_settled_def settlement_legs_def Let_def fun_eq_iff)

lemma posted_entries:
  "posted db db' k legs \<Longrightarrow> entries_of db' j = (if j = k then entries_of db j @ legs else entries_of db j)"
proof -
  assume "posted db db' k legs"
  then obtain es where es: "b_ledger db' = b_ledger db @ es" "map (\<lambda>e. (le_role e, le_delta_usd e)) es = legs"
      "\<forall>e \<in> set es. le_spend e = k" by (auto simp: posted_def)
  then have "filter (\<lambda>e. le_spend e = j) es = (if j = k then es else [])"
    by (auto simp: filter_id_iff filter_empty_conv)
  with es show ?thesis by (simp add: entries_of_def)
qed

lemma update_spend_frame [simp]:
  "b_ledger (update_spend k f db) = b_ledger db" "b_wallets (update_spend k f db) = b_wallets db"
  "b_instances (update_spend k f db) = b_instances db" "b_creators (update_spend k f db) = b_creators db"
  "b_spends (update_spend k f db) = map (\<lambda>s. if sp_id s = k then f s else s) (b_spends db)"
  "balances_ok (update_spend k f db) = balances_ok db"
  by (simp_all add: update_spend_def balances_ok_def)

lemma settle_step_inv:
  assumes inv: "billing_inv db" and mem: "spend \<in> set (b_spends db)" "\<not> sp_settled spend"
    and able: "settleable db spend" and run: "settle_one_spend dec now db spend = Inr db'"
  shows "billing_inv db' \<and> b_instances db' = b_instances db \<and> b_creators db' = b_creators db
    \<and> b_spends db' = map (\<lambda>s. if s = spend then mark_settled now spend s else s) (b_spends db)"
proof -
  obtain db1 where db': "db' = update_spend (sp_id spend) (mark_settled now spend) db1"
      and p: "posted db db1 (sp_id spend) (settlement_legs spend (creator_of db spend) (markup_of dec db spend))"
    using settle_one_outcome[of db spend dec now] inv able run by (auto simp: billing_inv_def)
  have same: "sp_id s = sp_id spend \<longleftrightarrow> s = spend" if "s \<in> set (b_spends db)" for s
    using inv mem(1) that by (auto simp: billing_inv_def distinct_map inj_on_def)
  have frame: "balances_ok db1" "b_spends db1 = b_spends db" "b_instances db1 = b_instances db"
      "b_creators db1 = b_creators db" using p by (auto simp: posted_def)
  have spends: "b_spends db' = map (\<lambda>s. if s = spend then mark_settled now spend s else s) (b_spends db)"
    using same by (simp add: db' frame)
  have ids: "map sp_id (b_spends db') = map sp_id (b_spends db)" by (simp add: spends)
  have none: "entries_of db (sp_id spend) = []" using inv mem by (auto simp: billing_inv_def spend_ledger_ok_def)
  have ent: "entries_of db' j = (if j = sp_id spend
      then settlement_legs spend (creator_of db spend) (markup_of dec db spend) else entries_of db j)" for j
    using posted_entries[OF p, of j] none by (simp add: db' entries_of_def)
  have "spend_ledger_ok db' s" if "s \<in> set (b_spends db')" for s
  proof -
    obtain s0 where s0: "s0 \<in> set (b_spends db)" "s = (if s0 = spend then mark_settled now spend s0 else s0)"
      using \<open>s \<in> set (b_spends db')\<close> by (auto simp: spends)
    show ?thesis
    proof (cases "s0 = spend")
      case True
      with s0 ent show ?thesis by (auto simp: spend_ledger_ok_def)
    next
      case False
      then have "sp_id s0 \<noteq> sp_id spend" using same[OF s0(1)] by simp
      moreover have "spend_ledger_ok db s0" using inv s0(1) by (simp add: billing_inv_def)
      ultimately show ?thesis using s0(2) False ent by (simp add: spend_ledger_ok_def)
    qed
  qed
  moreover have "\<forall>e \<in> set (b_ledger db'). le_spend e \<in> sp_id ` set (b_spends db')"
  proof -
    have "sp_id ` set (b_spends db') = sp_id ` set (b_spends db)" using ids by (metis set_map)
    moreover have "sp_id spend \<in> sp_id ` set (b_spends db)" using mem(1) by simp
    ultimately show ?thesis using inv p by (auto simp: db' posted_def billing_inv_def)
  qed
  moreover have "balances_ok db'" using frame by (simp add: db')
  moreover have "distinct (map sp_id (b_spends db'))" using inv ids by (simp add: billing_inv_def)
  ultimately have "billing_inv db'" unfolding billing_inv_def by blast
  moreover have "b_instances db' = b_instances db" "b_creators db' = b_creators db" by (simp_all add: db' frame)
  ultimately show ?thesis using spends by blast
qed

lemma settleable_frame:
  "b_instances db' = b_instances db \<Longrightarrow> b_creators db' = b_creators db \<Longrightarrow> settleable db' s = settleable db s"
  by (simp add: settleable_def creator_of_def cong: payer.case_cong option.case_cong)

text \<open>A sweep over rows read from the table.\<close>

lemma settle_rows_outcome:
  assumes "billing_inv db" and "distinct rows" and "\<forall>s \<in> set rows. s \<in> set (b_spends db) \<and> \<not> sp_settled s"
    and "settle_rows dec now rows (db, p, e) = (db', p', e')"
  shows "billing_inv db'
    \<and> b_spends db' = map (\<lambda>s. if s \<in> set rows \<and> settleable db s then mark_settled now s s else s) (b_spends db)
    \<and> p' = p + length (filter (settleable db) rows) \<and> p' + e' = p + e + length rows"
  using assms
proof (induction rows arbitrary: db p e)
  case (Cons spend rows)
  note out = settle_one_outcome[of db spend dec now]
  have ok: "balances_ok db" using Cons.prems(1) by (simp add: billing_inv_def)
  show ?case
  proof (cases "settleable db spend")
    case True
    then obtain db1 where s1: "settle_one_spend dec now db spend = Inr db1" using out ok by auto
    have spend: "spend \<in> set (b_spends db)" "\<not> sp_settled spend" using Cons.prems(3) by simp_all
    have step: "billing_inv db1" "b_instances db1 = b_instances db" "b_creators db1 = b_creators db"
        "b_spends db1 = map (\<lambda>s. if s = spend then mark_settled now spend s else s) (b_spends db)"
      using settle_step_inv[OF Cons.prems(1) spend True s1] by simp_all
    have rest: "\<forall>s \<in> set rows. s \<in> set (b_spends db1) \<and> \<not> sp_settled s"
      using Cons.prems(2,3) by (force simp: step(4))
    have run: "settle_rows dec now rows (db1, Suc p, e) = (db', p', e')"
      using Cons.prems(4) s1 by simp
    have able: "settleable db1 = settleable db" using settleable_frame[OF step(2,3)] by (simp add: fun_eq_iff)
    have settled: "\<not> (mark_settled now spend spend \<in> set rows)"
      using rest by (metis mark_settled_simps(2))
    from Cons.IH[OF step(1) _ rest run] Cons.prems(2) True settled show ?thesis
      by (auto simp: step(4) able)
  next
    case False
    then obtain err where "settle_one_spend dec now db spend = Inl err" using out ok by auto
    with Cons.IH[OF Cons.prems(1), of p "Suc e"] Cons.prems(2-4) False show ?thesis
      by (auto intro!: map_cong)
  qed
qed simp

lemma unsettled_batch_props:
  assumes "billing_inv db"
  shows "distinct (unsettled_batch limit db)"
    "\<forall>s \<in> set (unsettled_batch limit db). s \<in> set (b_spends db) \<and> \<not> sp_settled s"
proof -
  have "distinct (b_spends db)" using assms by (simp add: billing_inv_def distinct_map)
  then show "distinct (unsettled_batch limit db)" by (simp add: unsettled_batch_def)
  show "\<forall>s \<in> set (unsettled_batch limit db). s \<in> set (b_spends db) \<and> \<not> sp_settled s"
    using set_take_subset by (fastforce simp: unsettled_batch_def)
qed

subsection \<open>Runs\<close>

datatype billing_op =
    B_Record uuid instant uuid uuid dimension usd bool "string option"
  | B_Settle instant nat
  | B_Install uuid app_instance
  | B_Creator uuid uuid

text \<open>Recordings, sweeps, and changes of installations and creators, in any order.  A recording whose id is
  taken fails on the primary key.\<close>

fun billing_step :: "decimal_parser \<Rightarrow> billing \<Rightarrow> billing_op \<Rightarrow> billing" where
  "billing_step dec db (B_Record k now inst installer dm amount is_byok request_id) =
     (if k \<in> sp_id ` set (b_spends db) then db
      else fst (record_spend db k now inst installer dm amount is_byok request_id))"
| "billing_step dec db (B_Settle now limit) = fst (settle_spend_batch dec now limit db)"
| "billing_step dec db (B_Install k inst) = db\<lparr>b_instances := (b_instances db)(k \<mapsto> inst)\<rparr>"
| "billing_step dec db (B_Creator app creator) = db\<lparr>b_creators := (b_creators db)(app \<mapsto> creator)\<rparr>"

abbreviation billing_run where
  "billing_run dec \<equiv> foldl (billing_step dec)"

definition billing_start :: billing where
  "billing_start = \<lparr>b_instances = Map.empty, b_creators = Map.empty, b_wallets = [], b_ledger = [], b_spends = []\<rparr>"

lemma billing_inv_frame:
  "b_wallets db' = b_wallets db \<Longrightarrow> b_ledger db' = b_ledger db \<Longrightarrow> b_spends db' = b_spends db \<Longrightarrow>
     billing_inv db' = billing_inv db"
  by (simp add: billing_inv_def balances_ok_def spend_ledger_ok_def entries_of_def)

lemma record_spend_cases:
  "fst (record_spend db k now inst installer dm amount is_byok request_id) = db
   \<or> (\<exists>row. fst (record_spend db k now inst installer dm amount is_byok request_id) =
         db\<lparr>b_spends := b_spends db @ [row]\<rparr> \<and> sp_id row = k \<and> \<not> sp_settled row)"
  by (auto simp: record_spend_def Let_def split: option.splits sum.splits)

lemma record_spend_inv:
  assumes "billing_inv db" and "k \<notin> sp_id ` set (b_spends db)"
  shows "billing_inv (fst (record_spend db k now inst installer dm amount is_byok request_id))"
  using record_spend_cases[of db k now inst installer dm amount is_byok request_id]
proof
  assume "\<exists>row. fst (record_spend db k now inst installer dm amount is_byok request_id) =
      db\<lparr>b_spends := b_spends db @ [row]\<rparr> \<and> sp_id row = k \<and> \<not> sp_settled row"
  then obtain row where row: "fst (record_spend db k now inst installer dm amount is_byok request_id) =
      db\<lparr>b_spends := b_spends db @ [row]\<rparr>" "sp_id row = k" "\<not> sp_settled row" by blast
  have "filter (\<lambda>e. le_spend e = k) (b_ledger db) = []"
    using assms by (auto simp: billing_inv_def filter_empty_conv)
  with assms row show ?thesis
    by (auto simp: billing_inv_def balances_ok_def spend_ledger_ok_def entries_of_def)
qed (use assms in simp)

lemma settle_spend_batch_inv:
  assumes "billing_inv db"
  shows "billing_inv (fst (settle_spend_batch dec now limit db))"
proof -
  obtain db' p e where run: "settle_rows dec now (unsettled_batch limit db) (db, 0, 0) = (db', p, e)"
    using prod_cases3 by blast
  from settle_rows_outcome[OF assms unsettled_batch_props[OF assms] run] run show ?thesis
    by (simp add: settle_spend_batch_def)
qed

lemma billing_step_inv [inv_intros]: "billing_inv db \<Longrightarrow> billing_inv (billing_step dec db op)"
  by (cases op) (simp_all add: record_spend_inv settle_spend_batch_inv, simp_all cong: billing_inv_frame)

lemma billing_run_inv [inv_intros]: "billing_inv db \<Longrightarrow> billing_inv (billing_run dec db ops)"
proof (induction ops arbitrary: db)
  case (Cons op ops)
  show ?case using Cons.IH[OF billing_step_inv[OF Cons.prems]] by simp
qed simp

lemma billing_start_inv: "billing_inv billing_start"
  by (simp add: billing_inv_def balances_ok_def billing_start_def)

text \<open>C40: the ledger is the truth.  After any recordings, sweeps and installs: every wallet's balance is
  the sum of its ledger entries, no unsettled spend has moved money, and a settled one has the
  entries of exactly one settlement, a debit of the gross amount and at most two credits.\<close>

theorem ledger_invariant: "billing_inv (billing_run dec billing_start ops)"
  by (rule billing_run_inv[OF billing_start_inv])

text \<open>A sweep settles what can be settled.  It never fails as a whole; of the oldest unsettled rows it
  marks exactly those whose payer is known (the installer of an installer-paid spend, the creator of
  a creator-paid one) and which are not key-funded in another dimension than AI compute; the others
  stay as they are, are counted as errors, and are in the way of the next sweep again.\<close>

theorem sweep_settles_settleable:
  assumes "db = billing_run dec billing_start ops"
    and "settle_spend_batch dec now limit db = (db', processed, errors)"
  shows "b_spends db' = map (\<lambda>s. if s \<in> set (unsettled_batch limit db) \<and> settleable db s
        then mark_settled now s s else s) (b_spends db)
    \<and> processed = length (filter (settleable db) (unsettled_batch limit db))
    \<and> processed + errors = length (unsettled_batch limit db)"
proof -
  have inv: "billing_inv db" using billing_run_inv[OF billing_start_inv] assms(1) by simp
  from settle_rows_outcome[OF inv unsettled_batch_props[OF inv] assms(2)[unfolded settle_spend_batch_def]]
  show ?thesis by simp
qed

subsection \<open>The balance of a settlement\<close>

lemma quant_mono: "0 \<le> x \<Longrightarrow> x \<le> y \<Longrightarrow> quant x \<le> quant y"
  by (auto simp: quant_def floor_mono divide_right_mono)

lemma legs_sum:
  assumes "0 \<le> sp_amount_usd spend" and "0 \<le> pct" and "pct \<le> 1" and "sp_payer spend \<noteq> P_byok"
  shows "sum_list (map snd (settlement_legs spend creator pct)) =
    (let gross = quant (sp_amount_usd spend); markup = quant (gross * pct)
     in (if sp_payer spend = P_creator \<or> creator = None then 0 else gross - markup)
        + (if sp_payer spend = P_platform then 0 else markup) - gross)"
proof -
  define gross where "gross = quant (sp_amount_usd spend)"
  define markup where "markup = quant (gross * pct)"
  have gross: "0 \<le> gross" "is_micro gross" using assms(1) by (simp_all add: gross_def)
  have "gross * pct \<le> gross" using gross assms by (simp add: mult_left_le)
  then have "markup \<le> quant gross" using quant_mono[of "gross * pct" gross] gross assms by (simp add: markup_def)
  then have le: "markup \<le> gross" using gross by (simp add: quant_id)
  have ge: "0 \<le> markup" using gross assms by (simp add: markup_def)
  have "quant (gross - markup) = gross - markup" using gross by (simp add: quant_id markup_def)
  then have "settlement_legs spend creator pct = (Debit_payer, - gross)
      # (if sp_payer spend \<noteq> P_creator \<and> creator \<noteq> None \<and> gross - markup > 0 then [(Credit_creator, gross - markup)] else [])
      @ (if sp_payer spend \<noteq> P_platform \<and> markup > 0 then [(Credit_platform_markup, markup)] else [])"
    using assms(4) by (simp add: settlement_legs_def Let_def gross_def markup_def)
  then show ?thesis using le ge by (auto simp: Let_def gross_def[symmetric] markup_def[symmetric])
qed

text \<open>what one settlement does to the money of all wallets together.  With a markup between 0 and 1 it
  nets to zero exactly when an installer pays for an app with a known creator; a creator-paid spend
  loses everything but the markup, a platform-paid one the markup, and without a known creator the
  net amount is credited to nobody.\<close>

theorem settlement_balance:
  assumes "db = billing_run dec billing_start ops" and "settle_one_spend dec now db spend = Inr db'"
    and "0 \<le> sp_amount_usd spend" and "0 \<le> markup_of dec db spend" and "markup_of dec db spend \<le> 1"
    and "sp_payer spend \<noteq> P_byok"
  shows "sum_list (map le_delta_usd (b_ledger db')) - sum_list (map le_delta_usd (b_ledger db)) =
    (let gross = quant (sp_amount_usd spend); markup = quant (gross * markup_of dec db spend);
         creator = creator_of db spend
     in (if sp_payer spend = P_creator \<or> creator = None then 0 else gross - markup)
        + (if sp_payer spend = P_platform then 0 else markup) - gross)"
proof -
  have "balances_ok db" using billing_run_inv[OF billing_start_inv] assms(1) by (simp add: billing_inv_def)
  from settle_one_outcome[OF this, of spend dec now] assms(2)
  obtain db1 where db': "db' = update_spend (sp_id spend) (mark_settled now spend) db1"
      and p: "posted db db1 (sp_id spend) (settlement_legs spend (creator_of db spend) (markup_of dec db spend))"
    by (auto split: if_splits)
  then obtain es where es: "b_ledger db1 = b_ledger db @ es"
      "map (\<lambda>e. (le_role e, le_delta_usd e)) es = settlement_legs spend (creator_of db spend) (markup_of dec db spend)"
    by (auto simp: posted_def)
  have "map le_delta_usd es = map snd (map (\<lambda>e. (le_role e, le_delta_usd e)) es)" by simp
  then have "sum_list (map le_delta_usd es) =
      sum_list (map snd (settlement_legs spend (creator_of db spend) (markup_of dec db spend)))"
    by (simp only: es(2))
  with legs_sum[OF assms(3-6), of "creator_of db spend"] show ?thesis
    by (simp add: db' es(1))
qed

subsection \<open>An app\<close>

text \<open>Storage is paid by the creator at a markup of a tenth, egress by the installer, and AI compute and MCP
  calls are declared key-funded.\<close>

definition w_app :: app_instance where
  "w_app = \<lparr>in_app_id = 9, in_wallet_mix =
     [(Storage, \<lparr>mx_payer = Some P_creator, mx_markup_pct = Some (J_float (1 / 10))\<rparr>),
      (Egress, \<lparr>mx_payer = Some P_installer, mx_markup_pct = None\<rparr>),
      (Mcp_tool_call, \<lparr>mx_payer = Some P_byok, mx_markup_pct = None\<rparr>)]\<rparr>"

definition w_billing_ops :: "billing_op list" where
  "w_billing_ops = [B_Install 1 w_app, B_Creator 9 5, B_Record 100 1 1 3 Storage 1 False None,
     B_Record 101 2 1 3 Mcp_tool_call 2 False None]"

definition w_spend :: spend_record where
  "w_spend = \<lparr>sp_id = 100, sp_app_instance_id = Some 1, sp_installer_user_id = Some 3, sp_dimension = Storage,
     sp_payer = P_creator, sp_payer_user_id = Some 5, sp_amount_usd = 1, sp_request_id = None,
     sp_settled = False, sp_settled_at = None, sp_byok_no_op = False, sp_created_at = 1\<rparr>"

definition w_stuck :: spend_record where
  "w_stuck = \<lparr>sp_id = 101, sp_app_instance_id = Some 1, sp_installer_user_id = Some 3, sp_dimension = Mcp_tool_call,
     sp_payer = P_byok, sp_payer_user_id = None, sp_amount_usd = 2, sp_request_id = None,
     sp_settled = False, sp_settled_at = None, sp_byok_no_op = False, sp_created_at = 2\<rparr>"

definition w_billing :: billing where
  "w_billing = \<lparr>b_instances = [1 \<mapsto> w_app], b_creators = [9 \<mapsto> 5], b_wallets = [], b_ledger = [],
     b_spends = [w_spend, w_stuck]\<rparr>"

lemma w_billing_run: "w_billing = billing_run w_dec billing_start w_billing_ops"
  by (simp add: w_billing_def w_billing_ops_def billing_start_def record_spend_def with_request_id_def
      load_instance_def resolve_payer_def w_app_def w_spend_def w_stuck_def Let_def)

lemma w_billing_facts:
  "unsettled_batch 500 w_billing = [w_spend, w_stuck]" "settleable w_billing w_spend"
  "\<not> settleable w_billing w_stuck" "creator_of w_billing w_spend = Some 5"
  "markup_of w_dec w_billing w_spend = 1 / 10"
  by (simp_all add: unsettled_batch_def w_billing_def w_spend_def w_stuck_def settleable_def creator_of_def
      markup_of_def w_app_def json_decimal_def)

theorem sweep_settles_settleable_witness:
  "b_spends (fst (settle_spend_batch w_dec 7 500 w_billing)) = [mark_settled 7 w_spend w_spend, w_stuck]
   \<and> snd (settle_spend_batch w_dec 7 500 w_billing) = (1, 1)"
proof -
  obtain db' p e where run: "settle_spend_batch w_dec 7 500 w_billing = (db', p, e)"
    using prod_cases3 by blast
  have "w_spend \<noteq> w_stuck" "b_spends w_billing = [w_spend, w_stuck]"
    by (simp_all add: w_spend_def w_stuck_def w_billing_def)
  with sweep_settles_settleable[OF w_billing_run run] run show ?thesis
    by (auto simp: w_billing_facts)
qed

text \<open>The creator is debited a dollar and the platform credited ten cents: ninety cents are gone.\<close>

theorem settlement_balance_witness:
  "\<exists>db'. settle_one_spend w_dec 7 w_billing w_spend = Inr db'
    \<and> sum_list (map le_delta_usd (b_ledger db')) - sum_list (map le_delta_usd (b_ledger w_billing)) = - (9 / 10)"
proof -
  have "balances_ok w_billing" by (simp add: balances_ok_def w_billing_def)
  from settle_one_outcome[OF this, of w_spend w_dec 7]
  obtain db' where run: "settle_one_spend w_dec 7 w_billing w_spend = Inr db'"
    by (auto simp: w_billing_facts(2))
  have "sp_amount_usd w_spend = 1" "sp_payer w_spend = P_creator" by (simp_all add: w_spend_def)
  moreover have "is_micro 1" "is_micro (1 / 10)"
    by (simp_all add: is_micro_def) (metis Ints_numeral mult_numeral_1 numeral_One)?
  ultimately have "sum_list (map le_delta_usd (b_ledger db')) - sum_list (map le_delta_usd (b_ledger w_billing)) = - (9 / 10)"
    using settlement_balance[OF w_billing_run run] by (simp add: w_billing_facts quant_id Let_def)
  with run show ?thesis by blast
qed

end
