(* ===== verification/Py_Text.thy ===== *)
theory Py_Text
  imports Json_Value
begin

text \<open>
  The methods of Python's \<open>str\<close> that the file tools use: white space and \<open>strip\<close>, \<open>splitlines\<close> with
  and without its line ends, \<open>count\<close>, \<open>replace\<close> with a limit, \<open>join\<close>, \<open>re.sub\<close> of white space.
  A character is one of the first 256 code points; the sets of white space and of line ends are
  Python's on those.
\<close>

subsection \<open>White space\<close>

definition is_space :: "char \<Rightarrow> bool" where
  "is_space c \<longleftrightarrow> of_char c \<in> {9, 10, 11, 12, 13, 28, 29, 30, 31, 32, 133, 160 :: nat}"

definition lstrip :: "string \<Rightarrow> string" where
  "lstrip s = dropWhile is_space s"

definition strip :: "string \<Rightarrow> string" where
  "strip s = rev (lstrip (rev (lstrip s)))"

text \<open>\<open>re.sub(r"\s+", " ", s)\<close>.\<close>

function collapse_ws :: "string \<Rightarrow> string" where
  "collapse_ws [] = []"
| "collapse_ws (c # cs) =
     (if is_space c then CHR '' '' # collapse_ws (dropWhile is_space cs) else c # collapse_ws cs)"
  by pat_completeness auto
termination
  by (relation "measure length") (auto simp: less_Suc_eq_le length_dropWhile_le)

definition newline :: string where
  "newline = [CHR 0x0A]"

definition ends_with_newline :: "string \<Rightarrow> bool" where
  "ends_with_newline s \<longleftrightarrow> s \<noteq> [] \<and> last s = CHR 0x0A"

subsection \<open>Case and \<open>str\<close>\<close>

definition ascii_lower :: "char \<Rightarrow> char" where
  "ascii_lower c = (let n = (of_char c :: nat) in if 65 \<le> n \<and> n \<le> 90 then char_of (n + 32) else c)"

text \<open>\<open>str\<close> of a decoded JSON value: that of a value that is no string is an argument.\<close>

type_synonym py_str = "json \<Rightarrow> string"

definition text_of :: "py_str \<Rightarrow> json \<Rightarrow> string" where
  "text_of str j = (case j of J_str s \<Rightarrow> s | _ \<Rightarrow> str j)"

subsection \<open>\<open>splitlines\<close>\<close>

definition is_line_break :: "char \<Rightarrow> bool" where
  "is_line_break c \<longleftrightarrow> of_char c \<in> {10, 11, 12, 13, 28, 29, 30, 133 :: nat}"

text \<open>The lines of a text, each with the characters that end it; the first argument is the line read so
  far, backwards.  A carriage return and the line feed after it are one line end.\<close>

fun line_pieces :: "string \<Rightarrow> string \<Rightarrow> (string \<times> string) list" where
  "line_pieces cur [] = (if cur = [] then [] else [(rev cur, [])])"
| "line_pieces cur [c] =
     (if is_line_break c then [(rev cur, [c])] else [(rev (c # cur), [])])"
| "line_pieces cur (c # d # cs) =
     (if c = CHR 0x0D \<and> d = CHR 0x0A then (rev cur, [c, d]) # line_pieces [] cs
      else if is_line_break c then (rev cur, [c]) # line_pieces [] (d # cs)
      else line_pieces (c # cur) (d # cs))"

definition splitlines :: "string \<Rightarrow> string list" where
  "splitlines s = map fst (line_pieces [] s)"

definition splitlines_keepends :: "string \<Rightarrow> string list" where
  "splitlines_keepends s = map (\<lambda>(b, e). b @ e) (line_pieces [] s)"

lemma concat_line_pieces: "concat (map (\<lambda>(b, e). b @ e) (line_pieces cur s)) = rev cur @ s"
  by (induction cur s rule: line_pieces.induct) auto

lemma concat_splitlines [simp]: "concat (splitlines_keepends s) = s"
  by (simp add: splitlines_keepends_def concat_line_pieces)

subsection \<open>\<open>count\<close>, \<open>replace\<close> and \<open>join\<close>\<close>

text \<open>What stands before the first occurrence of \<open>old\<close>, and what after it.\<close>

fun find_sub :: "string \<Rightarrow> string \<Rightarrow> (string \<times> string) option" where
  "find_sub old [] = (if old = [] then Some ([], []) else None)"
| "find_sub old (c # cs) =
     (if prefix old (c # cs) then Some ([], drop (length old) (c # cs))
      else map_option (\<lambda>(a, b). (c # a, b)) (find_sub old cs))"

lemma find_sub_Some: "find_sub old s = Some (a, b) \<Longrightarrow> s = a @ old @ b"
  by (induction old s arbitrary: a rule: find_sub.induct)
     (auto split: if_splits simp: prefix_def)

lemma find_sub_None: "find_sub old s = None \<Longrightarrow> \<not> sublist old s"
  by (induction old s rule: find_sub.induct)
     (auto split: if_splits simp: sublist_Cons_right)

lemma find_sub_before: "find_sub old s = Some (a, b) \<Longrightarrow> old \<noteq> [] \<Longrightarrow> \<not> sublist old a"
proof (induction old s arbitrary: a rule: find_sub.induct)
  case (2 old c cs)
  show ?case
  proof (cases "prefix old (c # cs)")
    case False
    with "2.prems" obtain a' where *: "a = c # a'" "find_sub old cs = Some (a', b)"
      by auto
    have "\<not> prefix old (c # a')"
      using False prefix_prefix[of old "c # a'" "old @ b"] find_sub_Some[OF *(2)] by auto
    with "2.IH"[OF False *(2) "2.prems"(2)] * show ?thesis by (simp add: sublist_Cons_right)
  qed (use "2.prems" in simp)
qed simp

text \<open>The parts of a text between the occurrences of a non-empty \<open>old\<close>, from left to right and without
  overlap, as \<open>split\<close> finds them; their number less one is \<open>count\<close>.\<close>

function split_sub :: "string \<Rightarrow> string \<Rightarrow> string list" where
  "split_sub old s =
     (case find_sub old s of
        None \<Rightarrow> [s]
      | Some (a, b) \<Rightarrow> if old = [] then [s] else a # split_sub old b)"
  by pat_completeness auto
termination
  by (relation "measure (\<lambda>(old, s). length s)") (auto dest!: find_sub_Some)

declare split_sub.simps [simp del]

definition py_count :: "string \<Rightarrow> string \<Rightarrow> nat" where
  "py_count s old = length (split_sub old s) - 1"

fun py_replace :: "string \<Rightarrow> string \<Rightarrow> string \<Rightarrow> nat \<Rightarrow> string" where
  "py_replace s old new 0 = s"
| "py_replace s old new (Suc k) =
     (case find_sub old s of None \<Rightarrow> s | Some (a, b) \<Rightarrow> a @ new @ py_replace b old new k)"

fun py_join :: "string \<Rightarrow> string list \<Rightarrow> string" where
  "py_join sep [] = []"
| "py_join sep [x] = x"
| "py_join sep (x # y # ys) = x @ sep @ py_join sep (y # ys)"

lemma split_sub_not_Nil [simp]: "split_sub old s \<noteq> []"
  by (subst split_sub.simps) (auto split: option.splits)

lemma py_join_Cons: "ys \<noteq> [] \<Longrightarrow> py_join sep (x # ys) = x @ sep @ py_join sep ys"
  by (cases ys) auto

lemma join_split: "old \<noteq> [] \<Longrightarrow> py_join old (split_sub old s) = s"
proof (induction old s rule: split_sub.induct)
  case (1 old s)
  then show ?case
    by (subst split_sub.simps)
       (auto split: option.splits simp: py_join_Cons dest: find_sub_Some)
qed

lemma split_sub_parts: "old \<noteq> [] \<Longrightarrow> p \<in> set (split_sub old s) \<Longrightarrow> \<not> sublist old p"
proof (induction old s rule: split_sub.induct)
  case (1 old s)
  show ?case
  proof (cases "find_sub old s")
    case None
    with 1(3) have "p = s" by (subst (asm) split_sub.simps) simp
    then show ?thesis using find_sub_None[OF None] by simp
  next
    case (Some ab)
    then obtain a b where ab: "find_sub old s = Some (a, b)" by (cases ab) auto
    then have "p = a \<or> p \<in> set (split_sub old b)"
      using 1(2,3) by (subst (asm) split_sub.simps) auto
    then show ?thesis
      using 1(1)[OF ab refl] 1(2) find_sub_before[OF ab] by auto
  qed
qed

lemma replace_split:
  "old \<noteq> [] \<Longrightarrow> py_replace s old new (py_count s old) = py_join new (split_sub old s)"
  unfolding py_count_def
proof (induction old s rule: split_sub.induct)
  case (1 old s)
  show ?case
  proof (cases "find_sub old s")
    case None
    then show ?thesis by (subst (1 2) split_sub.simps) simp
  next
    case (Some ab)
    then obtain a b where ab: "find_sub old s = Some (a, b)" by (cases ab) auto
    have *: "split_sub old s = a # split_sub old b"
      by (subst split_sub.simps) (simp add: ab 1(2))
    obtain k where k: "length (split_sub old b) = Suc k"
      using split_sub_not_Nil[of old b] by (cases "split_sub old b") auto
    show ?thesis using 1(1)[OF ab refl 1(2) 1(2)] ab k by (simp add: * py_join_Cons)
  qed
qed

end
