(* ===== verification/Fuzzy_Editor.thy ===== *)
theory Fuzzy_Editor
  imports Py_Text
begin

text \<open>
  \<open>agent/tools/file_ops/fuzzy_editor.py\<close>: the search/replace engine of the file tools.  It tries a
  literal match, then a match of lines up to white space, then the window of the file nearest to the
  needle in Levenshtein distance; when all fail, a language model may propose a corrected pair of
  strings (a parameter) and the three are tried once more.

  First the definitions, then what each strategy does: the literal replacement by parts, the
  line match against a relation between line lists, the two-row computation of the distance against
  edit sequences, the nearest window, and the pipeline.
\<close>

subsection \<open>Omission placeholders\<close>

text \<open>The three patterns \<open>^\s*...\s*$\<close>, \<open>^\s*// ...$\<close> and \<open>^\s*# ...$\<close>, on a line without line ends.\<close>

definition is_placeholder_line :: "string \<Rightarrow> bool" where
  "is_placeholder_line line =
     (let s = strip line
      in s = ''...'' \<or> take 2 s = ''//'' \<and> strip (drop 2 s) = ''...''
         \<or> take 1 s = ''#'' \<and> strip (drop 1 s) = ''...'')"

definition contains_omission_placeholder :: "string \<Rightarrow> bool" where
  "contains_omission_placeholder t \<longleftrightarrow> list_ex is_placeholder_line (splitlines t)"

subsection \<open>Strategy 1: literal\<close>

definition strategy_exact :: "string \<Rightarrow> string \<Rightarrow> string \<Rightarrow> int \<Rightarrow> bool \<Rightarrow> string option \<times> nat" where
  "strategy_exact content old_str new_str expected_occurrence allow_multiple =
     (let count = (if old_str = [] then 0 else py_count content old_str)
      in if count = 0 then (None, 0)
         else if allow_multiple then (Some (py_replace content old_str new_str count), count)
         else if int count \<noteq> expected_occurrence then (None, count)
         else (Some (py_replace content old_str new_str (nat expected_occurrence)), count))"

subsection \<open>Strategy 2: lines up to white space\<close>

definition search_significant :: "string \<Rightarrow> string list" where
  "search_significant old_str =
     map (\<lambda>ln. strip (collapse_ws ln)) (filter (\<lambda>ln. strip ln \<noteq> []) (splitlines old_str))"

text \<open>The inner loop: the number of source lines that the needle's lines take from the first one on,
  blank source lines being skipped between them.\<close>

fun match_from :: "string list \<Rightarrow> string list \<Rightarrow> nat option" where
  "match_from [] lines = Some 0"
| "match_from (n # ns) [] = None"
| "match_from (n # ns) (l # lines) =
     (if strip l = [] then map_option Suc (match_from (n # ns) lines)
      else if collapse_ws (strip l) = n then map_option Suc (match_from ns lines)
      else None)"

text \<open>The outer loop: the runs, from \<open>start\<close> to \<open>end\<close> exclusive.  The needle has a line, so a run is not empty.\<close>

function match_runs :: "string list \<Rightarrow> string list \<Rightarrow> nat \<Rightarrow> (nat \<times> nat) list" where
  "match_runs needle lines i =
     (if i < length lines
      then (case match_from needle (drop i lines) of
              Some k \<Rightarrow> if k = 0 then [] else (i, i + k) # match_runs needle lines (i + k)
            | None \<Rightarrow> match_runs needle lines (Suc i))
      else [])"
  by pat_completeness auto
termination
  by (relation "measure (\<lambda>(needle, lines, i). length lines - i)") auto

declare match_runs.simps [simp del]

definition is_indent_char :: "char \<Rightarrow> bool" where
  "is_indent_char c \<longleftrightarrow> c = CHR '' '' \<or> c = CHR 0x09"

definition indent_of :: "string \<Rightarrow> string" where
  "indent_of line = takeWhile is_indent_char line"

definition apply_indentation :: "string list \<Rightarrow> string \<Rightarrow> string list" where
  "apply_indentation lines target_indent =
     (case lines of
        [] \<Rightarrow> []
      | reference # _ \<Rightarrow>
          (let ref_indent = indent_of reference
           in map (\<lambda>line. if strip line = [] then []
                          else if prefix ref_indent line then target_indent @ drop (length ref_indent) line
                          else target_indent @ lstrip line) lines))"

text \<open>The text that replaces a run of lines, and one turn of the replacing loop.\<close>

definition run_replacement :: "string list \<Rightarrow> string list \<Rightarrow> string" where
  "run_replacement replace_lines run =
     (let indent = indent_of (hd run);
          txt = py_join newline (apply_indentation replace_lines indent)
      in if ends_with_newline (last run) \<and> \<not> ends_with_newline txt then txt @ newline else txt)"

definition replace_run :: "string list \<Rightarrow> nat \<times> nat \<Rightarrow> string list \<Rightarrow> string list" where
  "replace_run replace_lines r modified =
     (let (s, e) = r
      in take s modified @ [run_replacement replace_lines (drop s (take e modified))] @ drop e modified)"

definition strategy_flexible :: "string \<Rightarrow> string \<Rightarrow> string \<Rightarrow> int \<Rightarrow> bool \<Rightarrow> string option \<times> nat" where
  "strategy_flexible content old_str new_str expected_occurrence allow_multiple =
     (let source_lines = splitlines_keepends content;
          needle = search_significant old_str
      in if old_str = [] \<or> needle = [] then (None, 0)
         else (let runs = match_runs needle source_lines 0; count = length runs
               in if count = 0 then (None, 0)
                  else if \<not> allow_multiple \<and> int count \<noteq> expected_occurrence then (None, count)
                  else (let targets = (if allow_multiple then runs else take (nat expected_occurrence) runs)
                        in (Some (concat (foldr (replace_run (splitlines new_str)) targets source_lines)), count))))"

subsection \<open>Strategy 3: the nearest window\<close>

text \<open>One row of the table from the row above it: \<open>left\<close> is the entry just computed, the list holds the
  entries above, starting with the one above \<open>left\<close>.\<close>

fun levenshtein_row :: "char \<Rightarrow> nat \<Rightarrow> nat list \<Rightarrow> string \<Rightarrow> nat list" where
  "levenshtein_row ca left (diag # up # prev) (cb # bs) =
     (let entry = min (left + 1) (min (up + 1) (diag + (if ca = cb then 0 else 1)))
      in entry # levenshtein_row ca entry (up # prev) bs)"
| "levenshtein_row ca left prev bs = []"

fun levenshtein_rows :: "nat \<Rightarrow> string \<Rightarrow> string \<Rightarrow> nat list \<Rightarrow> nat list" where
  "levenshtein_rows i [] b prev = prev"
| "levenshtein_rows i (ca # a) b prev = levenshtein_rows (Suc i) a b (i # levenshtein_row ca i prev b)"

definition levenshtein :: "string \<Rightarrow> string \<Rightarrow> nat" where
  "levenshtein a b =
     (if a = b then 0
      else if a = [] then length b
      else if b = [] then length a
      else (let (a, b) = (if length a < length b then (b, a) else (a, b))
            in levenshtein_rows 1 a b [0..<length b + 1] ! length b))"

definition fuzzy_match_threshold :: rat where
  "fuzzy_match_threshold = 1 / 10"

definition fuzzy_min_needle_len :: nat where
  "fuzzy_min_needle_len = 10"

text \<open>The best score so far (none before the first window), its position, and the ties.\<close>

type_synonym fuzzy_scan = "rat option \<times> nat \<times> nat"

definition fuzzy_step :: "string \<Rightarrow> string \<Rightarrow> nat \<Rightarrow> fuzzy_scan \<Rightarrow> fuzzy_scan" where
  "fuzzy_step content old_str i scan =
     (let (best, best_idx, ties) = scan;
          window = take (length old_str) (drop i content);
          score = of_nat (levenshtein window old_str) / of_nat (length old_str)
      in case best of
           None \<Rightarrow> (Some score, i, 1)
         | Some b \<Rightarrow> if score < b then (Some score, i, 1)
                     else if score = b then (best, best_idx, ties + 1) else scan)"

definition strategy_fuzzy :: "string \<Rightarrow> string \<Rightarrow> string \<Rightarrow> string option \<times> nat" where
  "strategy_fuzzy content old_str new_str =
     (let needle_len = length old_str
      in if needle_len < fuzzy_min_needle_len then (None, 0)
         else if int (length content) * int needle_len ^ 2 > 400000000 then (None, 0)
         else (case fold (fuzzy_step content old_str) [0..<Suc (length content) - needle_len] (None, 0, 0) of
                 (None, _, _) \<Rightarrow> (None, 0)
               | (Some best_score, best_idx, ties) \<Rightarrow>
                   if best_score > fuzzy_match_threshold then (None, 0)
                   else if ties > 1 then (None, ties)
                   else (Some (take best_idx content @ new_str @ drop (best_idx + needle_len) content), 1)))"

subsection \<open>The pipeline\<close>

datatype edit_problem =
    Placeholder
  | Old_str_empty
  | Exact_count int nat
  | Flexible_count nat int
  | Fuzzy_ambiguous nat
  | Not_located
  | Repaired_placeholder
  | Repair_failed edit_problem edit_problem

record edit_error =
  ee_problem :: edit_problem
  ee_attempted :: "string list"

record edit_result =
  er_content :: string
  er_strategy :: string
  er_occurrences :: int
  er_final_old_str :: string
  er_final_new_str :: string
  er_repair_applied :: bool

type_synonym repair_fn = "string \<Rightarrow> string \<Rightarrow> string \<Rightarrow> string \<Rightarrow> (string \<times> string) option"

definition run_pipeline ::
  "string \<Rightarrow> string \<Rightarrow> string \<Rightarrow> int \<Rightarrow> bool \<Rightarrow> (edit_error, edit_result) result" where
  "run_pipeline content old_str new_str expected allow_multiple =
     (let err = (\<lambda>p attempted. Inl \<lparr>ee_problem = p, ee_attempted = attempted\<rparr>);
          ok = (\<lambda>new strategy n. Inr \<lparr>er_content = new, er_strategy = strategy, er_occurrences = n,
                 er_final_old_str = old_str, er_final_new_str = new_str, er_repair_applied = False\<rparr>);
          occurrences = (\<lambda>count. if allow_multiple then int count else min (int count) expected)
      in if old_str = [] then err Old_str_empty []
         else case strategy_exact content old_str new_str expected allow_multiple of
           (Some new, count) \<Rightarrow> ok new ''exact'' (occurrences count)
         | (None, count) \<Rightarrow>
             if count > 0 \<and> \<not> allow_multiple \<and> int count \<noteq> expected
             then err (Exact_count expected count) [''exact'']
             else case strategy_flexible content old_str new_str expected allow_multiple of
               (Some new, count) \<Rightarrow> ok new ''flexible'' (occurrences count)
             | (None, count) \<Rightarrow>
                 if count > 0 \<and> \<not> allow_multiple \<and> int count \<noteq> expected
                 then err (Flexible_count count expected) [''exact'', ''flexible'']
                 else case strategy_fuzzy content old_str new_str of
                   (Some new, _) \<Rightarrow> ok new ''fuzzy'' 1
                 | (None, ties) \<Rightarrow>
                     err (if ties > 1 then Fuzzy_ambiguous ties else Not_located)
                         [''exact'', ''flexible'', ''fuzzy''])"

definition apply_edit ::
  "repair_fn option \<Rightarrow> string \<Rightarrow> string \<Rightarrow> string \<Rightarrow> string \<Rightarrow> int \<Rightarrow> bool \<Rightarrow>
     (edit_error, edit_result) result" where
  "apply_edit repair file_path content old_str new_str expected allow_multiple =
     (if contains_omission_placeholder new_str
      then Inl \<lparr>ee_problem = Placeholder, ee_attempted = [''placeholder_check'']\<rparr>
      else case run_pipeline content old_str new_str expected allow_multiple of
        Inr r \<Rightarrow> Inr r
      | Inl initial \<Rightarrow>
         (case repair of
            None \<Rightarrow> Inl initial
          | Some repair_fn \<Rightarrow>
             (case repair_fn (if file_path = [] then ''<unknown>'' else file_path) content old_str new_str of
                None \<Rightarrow> Inl initial
              | Some (fixed_old, fixed_new) \<Rightarrow>
                  if contains_omission_placeholder fixed_new
                  then Inl \<lparr>ee_problem = Repaired_placeholder,
                            ee_attempted = ee_attempted initial @ [''llm_repair'']\<rparr>
                  else (case run_pipeline content fixed_old fixed_new expected allow_multiple of
                          Inl e \<Rightarrow> Inl \<lparr>ee_problem = Repair_failed (ee_problem initial) (ee_problem e),
                                        ee_attempted = ee_attempted initial @ [''llm_repair''] @ ee_attempted e\<rparr>
                        | Inr r \<Rightarrow> Inr (r\<lparr>er_repair_applied := True\<rparr>)))))"

section \<open>Edit distance\<close>

text \<open>The reference: single-character edits, and the least number of them between two texts.\<close>

inductive edit1 :: "'a list \<Rightarrow> 'a list \<Rightarrow> bool" where
  insert_char: "edit1 (u @ v) (u @ c # v)"
| delete_char: "edit1 (u @ c # v) (u @ v)"
| replace_char: "edit1 (u @ c # v) (u @ d # v)"

text \<open>Two texts side by side, with the number of positions where they differ.\<close>

inductive align :: "nat \<Rightarrow> 'a list \<Rightarrow> 'a list \<Rightarrow> bool" where
  nil: "align 0 [] []"
| copy: "align n a b \<Longrightarrow> align n (c # a) (c # b)"
| subst: "align n a b \<Longrightarrow> align (Suc n) (c # a) (d # b)"
| del: "align n a b \<Longrightarrow> align (Suc n) (c # a) b"
| ins: "align n a b \<Longrightarrow> align (Suc n) a (d # b)"

lemma align_refl [simp, intro]: "align 0 a a"
  by (induction a) (auto intro: align.intros)

lemma align_sym: "align n a b \<Longrightarrow> align n b a"
  by (induction rule: align.induct) (auto intro: align.intros)

lemma align_append: "align n a b \<Longrightarrow> align m c d \<Longrightarrow> align (n + m) (a @ c) (b @ d)"
  by (induction rule: align.induct) (auto intro: align.intros)

lemma align_rev: "align n a b \<Longrightarrow> align n (rev a) (rev b)"
proof (induction rule: align.induct)
  case (copy n a b c)
  from align_append[OF copy.IH align_refl[of "[c]"]] show ?case by simp
next
  case (subst n a b c d)
  from align_append[OF subst.IH, of 1 "[c]" "[d]"] show ?case
    using align.subst[OF align.nil, of c d] by simp
next
  case (del n a b c)
  from align_append[OF del.IH, of 1 "[c]" "[]"] show ?case
    using align.del[OF align.nil, of c] by simp
next
  case (ins n a b d)
  from align_append[OF ins.IH, of 1 "[]" "[d]"] show ?case
    using align.ins[OF align.nil, of d] by simp
qed (simp add: align.nil)

fun ed :: "'a list \<Rightarrow> 'a list \<Rightarrow> nat" where
  "ed [] b = length b"
| "ed (x # a) [] = Suc (length a)"
| "ed (x # a) (y # b) =
     min (Suc (ed a (y # b))) (min (Suc (ed (x # a) b)) (ed a b + (if x = y then 0 else 1)))"

lemma ed_Nil2 [simp]: "ed a [] = length a"
  by (cases a) auto

lemma align_del_all: "align (length a) a []"
  by (induction a) (auto intro: align.intros)

lemma align_ins_all: "align (length a) [] a"
  by (induction a) (auto intro: align.intros)

lemma align_ed: "align (ed a b) a b"
  by (induction a b rule: ed.induct)
     (auto simp: min_def intro: align.intros align_ins_all align_del_all
           intro: align_del_all[of "_ # _", simplified])

lemma ed_le_align: "align n a b \<Longrightarrow> ed a b \<le> n"
proof (induction rule: align.induct)
  case (del n a b c)
  then show ?case by (cases b) auto
next
  case (ins n a b d)
  then show ?case by (cases a) auto
qed auto

lemma ed_refl [simp]: "ed a a = 0"
  using ed_le_align[OF align_refl] by simp

lemma ed_sym: "ed a b = ed b a"
  by (meson align_ed align_sym ed_le_align le_antisym)

lemma ed_rev: "ed (rev a) (rev b) = ed a b"
  by (metis align_ed align_rev ed_le_align le_antisym rev_rev_ident)

lemma ed_Cons_cases:
  "ed (x # a) (y # b) = Suc (ed a (y # b)) \<or> ed (x # a) (y # b) = Suc (ed (x # a) b)
   \<or> ed (x # a) (y # b) = ed a b + (if x = y then 0 else 1)"
  by (simp add: min_def)

lemma ed_triangle: "ed a c \<le> ed a b + ed b c"
proof (induction "length a + length b + length c" arbitrary: a b c rule: less_induct)
  case less
  have len: "length u \<le> length v + ed u v" for u v :: "'a list"
    by (induction u v rule: ed.induct) auto
  have len2: "ed u v \<le> length u + length v" for u v :: "'a list"
    by (induction u v rule: ed.induct) auto
  show ?case
  proof (cases "a = [] \<or> b = [] \<or> c = []")
    case True
    then show ?thesis using len[of a b] len[of c b] len2[of a c] ed_sym[of c b]
      by (cases a; cases b; cases c) (auto simp del: ed.simps(3))
  next
    case False
    then obtain x a' y b' z c' where abc: "a = x # a'" "b = y # b'" "c = z # c'"
      by (auto simp: neq_Nil_conv)
    note IH = less.hyps[of a' b c] less.hyps[of a b c'] less.hyps[of a b' c] less.hyps[of a b' c']
      less.hyps[of a' b' c] less.hyps[of a' b' c']
    have ac: "ed a c \<le> Suc (ed a' c)" "ed a c \<le> Suc (ed a c')"
      "ed a c \<le> ed a' c' + (if x = z then 0 else 1)"
      by (simp_all add: abc)
    have "length a = Suc (length a')" "length b = Suc (length b')" "length c = Suc (length c')"
      by (simp_all add: abc)
    moreover note ed_Cons_cases[of x a' y b', folded abc] ed_Cons_cases[of y b' z c', folded abc]
    ultimately show ?thesis using ac IH
      by (elim disjE) (auto split: if_splits)
  qed
qed

lemma edit1_Cons: "edit1 a b \<Longrightarrow> edit1 (c # a) (c # b)"
proof (erule edit1.cases)
  show "edit1 (c # a) (c # b)" if "a = u @ v" "b = u @ d # v" for u v d
    using insert_char[of "c # u" v d] that by simp
  show "edit1 (c # a) (c # b)" if "a = u @ d # v" "b = u @ v" for u v d
    using delete_char[of "c # u" d v] that by simp
  show "edit1 (c # a) (c # b)" if "a = u @ d # v" "b = u @ e # v" for u v d e
    using replace_char[of "c # u" d v e] that by simp
qed

lemma edits_Cons: "(edit1 ^^ n) a b \<Longrightarrow> (edit1 ^^ n) (c # a) (c # b)"
  by (induction n arbitrary: b) (auto intro!: edit1_Cons)

lemma ed_edit1: "edit1 a b \<Longrightarrow> ed a b \<le> 1" for a b :: "'a list"
proof (rule ed_le_align, erule edit1.cases)
  have ctx: "align 1 (u @ v) (u @ w)" if "align 1 v w" for u v w :: "'a list"
    using align_append[OF align_refl[of u] that] by simp
  have one: "align 1 v (c # v)" "align 1 (c # v) v" "align 1 (c # v) (d # v)" for c d and v :: "'a list"
    using align.intros(3-5)[OF align_refl[of v]] by simp_all
  show "align 1 a b" if "a = u @ v" "b = u @ c # v" for u v c
    using ctx[OF one(1)] that by simp
  show "align 1 a b" if "a = u @ c # v" "b = u @ v" for u v c
    using ctx[OF one(2)] that by simp
  show "align 1 a b" if "a = u @ c # v" "b = u @ d # v" for u v c d
    using ctx[OF one(3)] that by simp
qed

lemma edits_align: "align n a b \<Longrightarrow> (edit1 ^^ n) a b"
proof (induction rule: align.induct)
  case (copy n a b c)
  show ?case by (rule edits_Cons[OF copy.IH])
next
  case (subst n a b c d)
  have "edit1 (c # a) (d # a)" using replace_char[of "[]"] by simp
  with edits_Cons[OF subst.IH, of d] show ?case by (rule relpowp_Suc_I2[rotated])
next
  case (del n a b c)
  have "edit1 (c # a) a" using delete_char[of "[]"] by simp
  with del.IH show ?case by (rule relpowp_Suc_I2[rotated])
next
  case (ins n a b d)
  have "edit1 b (d # b)" using insert_char[of "[]"] by simp
  with ins.IH show ?case by (rule relpowp_Suc_I)
qed simp

lemma ed_le_edits: "(edit1 ^^ n) a b \<Longrightarrow> ed a b \<le> n"
proof (induction n arbitrary: b)
  case (Suc n)
  then obtain m where "(edit1 ^^ n) a m" "edit1 m b" by auto
  with Suc.IH[of m] ed_edit1[of m b] ed_triangle[of a b m] show ?case by simp
qed simp

lemma edits_iff_ed: "(edit1 ^^ ed a b) a b"
  by (rule edits_align[OF align_ed])

subsection \<open>The two-row computation\<close>

text \<open>The distance of two prefixes, by their last characters.\<close>

definition ed_pre :: "'a list \<Rightarrow> 'a list \<Rightarrow> nat" where
  "ed_pre a b = ed (rev a) (rev b)"

lemma ed_pre_Nil [simp]: "ed_pre [] b = length b" "ed_pre a [] = length a"
  by (simp_all add: ed_pre_def)

lemma ed_pre_snoc:
  "ed_pre (a @ [x]) (b @ [y]) =
     min (ed_pre (a @ [x]) b + 1) (min (ed_pre a (b @ [y]) + 1) (ed_pre a b + (if x = y then 0 else 1)))"
  by (simp add: ed_pre_def)

lemma levenshtein_row_correct:
  "levenshtein_row x (ed_pre (a @ [x]) b1) (map (\<lambda>j. ed_pre a (b1 @ take j bs)) [0..<Suc (length bs)]) bs
   = map (\<lambda>j. ed_pre (a @ [x]) (b1 @ take j bs)) [1..<Suc (length bs)]"
proof (induction bs arbitrary: b1)
  case (Cons c bs)
  have up: "map (\<lambda>j. f (take j (c # bs))) [0..<Suc (length (c # bs))]
      = f [] # map (\<lambda>j. f (c # take j bs)) [0..<Suc (length bs)]" for f :: "string \<Rightarrow> nat"
    by (subst upt_conv_Cons) (simp_all add: map_Suc_upt[symmetric] comp_def del: upt_Suc)
  have up1: "map (\<lambda>j. f (take j (c # bs))) [1..<Suc (length (c # bs))]
      = map (\<lambda>j. f (c # take j bs)) [0..<Suc (length bs)]" for f :: "string \<Rightarrow> nat"
    by (simp add: map_Suc_upt[symmetric] comp_def del: upt_Suc)
  have hd0: "map f [0..<Suc n] = f 0 # map f [1..<Suc n]" for f :: "nat \<Rightarrow> nat" and n
    by (subst upt_conv_Cons) (simp_all del: upt_Suc)
  show ?case
    using Cons.IH[of "b1 @ [c]"]
    unfolding up[of "\<lambda>w. ed_pre a (b1 @ w)"] up1[of "\<lambda>w. ed_pre (a @ [x]) (b1 @ w)"]
    by (simp add: hd0 Let_def ed_pre_snoc del: upt_Suc)
qed simp

definition table_row :: "string \<Rightarrow> string \<Rightarrow> nat list" where
  "table_row a b = map (\<lambda>j. ed_pre a (take j b)) [0..<Suc (length b)]"

lemma levenshtein_rows_correct:
  "levenshtein_rows (Suc (length a1)) a b (table_row a1 b) = table_row (a1 @ a) b"
proof (induction a arbitrary: a1)
  case (Cons x a)
  have "Suc (length a1) # levenshtein_row x (Suc (length a1)) (table_row a1 b) b = table_row (a1 @ [x]) b"
    using levenshtein_row_correct[of x a1 "[]" b]
    by (simp add: table_row_def upt_conv_Cons[of 0] del: upt_Suc)
  with Cons.IH[of "a1 @ [x]"] show ?case by simp
qed simp

lemma table_row_Nil: "table_row [] b = [0..<length b + 1]"
  unfolding table_row_def by (rule nth_equalityI) (auto simp del: upt_Suc)

lemma table_row_last: "table_row a b ! length b = ed a b"
  by (simp add: table_row_def ed_pre_def ed_rev nth_append del: upt_Suc)

lemma levenshtein_ed: "levenshtein a b = ed a b"
proof -
  have "levenshtein_rows 1 a b [0..<length b + 1] ! length b = ed a b" for a b
    using levenshtein_rows_correct[of "[]" a b] by (simp add: table_row_Nil table_row_last del: upt_Suc)
  then show ?thesis
    by (auto simp: levenshtein_def ed_sym simp del: upt_Suc)
qed

text \<open>C12: Edit distance: the two-row computation with its shortcuts and its swap of the arguments returns
  the least number of single-character insertions, deletions and replacements that turn one text
  into the other.\<close>

theorem levenshtein_is_edit_distance:
  "levenshtein a b = (LEAST n. (edit1 ^^ n) a b) \<and> (edit1 ^^ levenshtein a b) a b"
proof -
  have "(LEAST n. (edit1 ^^ n) a b) = ed a b"
    by (rule Least_equality) (rule edits_iff_ed, rule ed_le_edits)
  then show ?thesis by (simp add: levenshtein_ed edits_iff_ed)
qed

section \<open>The strategies\<close>

subsection \<open>The nearest window\<close>

abbreviation window_dist :: "string \<Rightarrow> string \<Rightarrow> nat \<Rightarrow> nat" where
  "window_dist content old_str i \<equiv> levenshtein (take (length old_str) (drop i content)) old_str"

definition scan_ok :: "string \<Rightarrow> string \<Rightarrow> nat \<Rightarrow> fuzzy_scan \<Rightarrow> bool" where
  "scan_ok content old_str m scan \<longleftrightarrow>
     (case scan of
        (None, _, _) \<Rightarrow> m = 0
      | (Some s, i, ties) \<Rightarrow>
          i < m \<and> s = of_nat (window_dist content old_str i) / of_nat (length old_str)
          \<and> (\<forall>j < m. window_dist content old_str i \<le> window_dist content old_str j)
          \<and> ties = length (filter (\<lambda>j. window_dist content old_str j = window_dist content old_str i) [0..<m]))"

lemma scan_step:
  assumes "scan_ok content old m scan" "old \<noteq> []"
  shows "scan_ok content old (Suc m) (fuzzy_step content old m scan)"
proof -
  obtain best i ties where scan: "scan = (best, i, ties)" by (cases scan) auto
  let ?d = "window_dist content old"
  have le: "(of_nat x / of_nat (length old) < (of_nat y / of_nat (length old) :: rat)) = (x < y)"
    "(of_nat x / of_nat (length old) = (of_nat y / of_nat (length old) :: rat)) = (x = y)" for x y :: nat
    using assms(2) by (simp_all add: divide_less_cancel)
  show ?thesis
  proof (cases best)
    case None
    with assms(1) scan have "m = 0" by (simp add: scan_ok_def)
    then show ?thesis using None scan by (simp add: scan_ok_def fuzzy_step_def)
  next
    case (Some s)
    with assms(1) scan have i: "i < m" "s = of_nat (?d i) / of_nat (length old)" "\<forall>j < m. ?d i \<le> ?d j"
      "ties = length (filter (\<lambda>j. ?d j = ?d i) [0..<m])"
      by (simp_all add: scan_ok_def)
    consider "?d m < ?d i" | "?d m = ?d i" | "?d i < ?d m" by linarith
    then show ?thesis
    proof cases
      case 1
      then have "filter (\<lambda>j. ?d j = ?d m) [0..<m] = []" using i(3) by (auto simp: filter_empty_conv not_less[symmetric])
      moreover have "\<forall>j < Suc m. ?d m \<le> ?d j" using 1 i(3) by (auto simp: less_Suc_eq dest: spec)
      ultimately show ?thesis using 1 Some scan i(2)
        by (simp add: scan_ok_def fuzzy_step_def le)
    next
      case 2
      then show ?thesis using Some scan i
        by (simp add: scan_ok_def fuzzy_step_def le less_Suc_eq)
    next
      case 3
      then show ?thesis using Some scan i
        by (auto simp add: scan_ok_def fuzzy_step_def le less_Suc_eq)
    qed
  qed
qed

lemma scan_all: "old \<noteq> [] \<Longrightarrow> scan_ok content old m (fold (fuzzy_step content old) [0..<m] (None, 0, 0))"
  by (induction m) (simp_all add: scan_ok_def[of _ _ 0] scan_step)

definition nearest_window :: "string \<Rightarrow> string \<Rightarrow> nat \<Rightarrow> bool" where
  "nearest_window content old_str i \<longleftrightarrow>
     i + length old_str \<le> length content \<and> 10 * window_dist content old_str i \<le> length old_str
     \<and> (\<forall>j. j + length old_str \<le> length content \<and> j \<noteq> i \<longrightarrow>
            window_dist content old_str i < window_dist content old_str j)"

lemma nearest_window_unique: "nearest_window c w i \<Longrightarrow> nearest_window c w j \<Longrightarrow> i = j"
  unfolding nearest_window_def by (metis less_asym)

lemma filter_unique:
  assumes "length (filter P [0..<m]) \<le> 1" "P i" "i < m" "P j" "j < m"
  shows "j = i"
proof -
  have "card {k. k < m \<and> P k} \<le> Suc 0"
    using assms(1) distinct_card[of "filter P [0..<m]"] by (simp add: conj_commute)
  with assms show ?thesis using card_le_Suc0_iff_eq[of "{k. k < m \<and> P k}"] by simp
qed

lemma tenth_le_iff: "0 < n \<Longrightarrow> (of_nat d / of_nat n \<le> (1 / 10 :: rat)) = (10 * d \<le> n)"
proof -
  assume "0 < n"
  then have "(of_nat d / of_nat n \<le> (1 / 10 :: rat)) \<longleftrightarrow> (of_nat (10 * d) \<le> (of_nat n :: rat))"
    by (simp add: field_simps)
  then show ?thesis by (simp only: of_nat_le_iff)
qed

lemma strategy_fuzzy_iff:
  "fst (strategy_fuzzy content old new) = Some r \<longleftrightarrow>
     10 \<le> length old \<and> int (length content) * int (length old) ^ 2 \<le> 400000000
     \<and> (\<exists>i. nearest_window content old i \<and> r = take i content @ new @ drop (i + length old) content)"
proof (cases "10 \<le> length old \<and> int (length content) * int (length old) ^ 2 \<le> 400000000")
  case True
  define m where "m = Suc (length content) - length old"
  have m: "j < m \<longleftrightarrow> j + length old \<le> length content" for j by (auto simp: m_def)
  have nearest: "nearest_window content old j \<longleftrightarrow> j < m \<and> 10 * window_dist content old j \<le> length old
      \<and> (\<forall>k < m. k \<noteq> j \<longrightarrow> window_dist content old j < window_dist content old k)" for j
    by (auto simp: nearest_window_def m)
  obtain best i ties where scan: "fold (fuzzy_step content old) [0..<m] (None, 0, 0) = (best, i, ties)"
    by (cases "fold (fuzzy_step content old) [0..<m] (None, 0, 0)") auto
  have "scan_ok content old m (best, i, ties)" using scan_all[of old content m] True scan by force
  note ok = this[unfolded scan_ok_def]
  have res: "fst (strategy_fuzzy content old new) = Some r \<longleftrightarrow>
     (\<exists>s. best = Some s \<and> s \<le> 1 / 10 \<and> ties \<le> 1 \<and> r = take i content @ new @ drop (i + length old) content)"
    using True scan
    by (auto simp: strategy_fuzzy_def fuzzy_min_needle_len_def fuzzy_match_threshold_def m_def
        split: option.splits simp del: upt_Suc)
  have some: "(\<exists>s. best = Some s \<and> s \<le> 1 / 10 \<and> ties \<le> 1) \<longleftrightarrow> nearest_window content old i"
    if b: "best \<noteq> None"
  proof -
    from b ok have i: "i < m" "best = Some (of_nat (window_dist content old i) / of_nat (length old))"
      "\<forall>j < m. window_dist content old i \<le> window_dist content old j"
      "ties = length (filter (\<lambda>j. window_dist content old j = window_dist content old i) [0..<m])"
      by auto
    have le: "(of_nat (window_dist content old i) / of_nat (length old) \<le> (1 / 10 :: rat))
        = (10 * window_dist content old i \<le> length old)"
      by (rule tenth_le_iff) (use True in linarith)
    have "ties \<le> 1 \<longleftrightarrow> (\<forall>j < m. j \<noteq> i \<longrightarrow> window_dist content old i < window_dist content old j)"
    proof
      assume "ties \<le> 1"
      then show "\<forall>j < m. j \<noteq> i \<longrightarrow> window_dist content old i < window_dist content old j"
        using filter_unique[of "\<lambda>j. window_dist content old j = window_dist content old i" m i] i(1,3,4)
        by (metis le_neq_implies_less)
    next
      assume "\<forall>j < m. j \<noteq> i \<longrightarrow> window_dist content old i < window_dist content old j"
      then have "set (filter (\<lambda>j. window_dist content old j = window_dist content old i) [0..<m]) \<subseteq> {i}"
        by (auto dest: spec)
      then have "card (set (filter (\<lambda>j. window_dist content old j = window_dist content old i) [0..<m])) \<le> 1"
        using card_mono[of "{i}"] by fastforce
      then show "ties \<le> 1"
        unfolding i(4) by (subst (asm) distinct_card) simp_all
    qed
    with i(1,2) le show ?thesis by (simp add: nearest)
  qed
  have none: "best = None \<Longrightarrow> \<not> nearest_window content old j" for j
    using ok by (auto simp: nearest)
  have unique: "best \<noteq> None \<Longrightarrow> nearest_window content old j \<Longrightarrow> j = i" for j
  proof -
    assume "best \<noteq> None" and j: "nearest_window content old j"
    then have i: "i < m" "\<forall>j < m. window_dist content old i \<le> window_dist content old j"
      using ok by auto
    then show ?thesis using j unfolding nearest by (metis not_le)
  qed
  have "fst (strategy_fuzzy content old new) = Some r \<longleftrightarrow>
      nearest_window content old i \<and> r = take i content @ new @ drop (i + length old) content"
    using res some none by (cases best) auto
  also have "\<dots> \<longleftrightarrow> (\<exists>j. nearest_window content old j \<and> r = take j content @ new @ drop (j + length old) content)"
  proof -
    have "j = i" if "nearest_window content old j" for j using that none unique by metis
    then show ?thesis by metis
  qed
  finally show ?thesis using True by simp
next
  case False
  then have "length old < fuzzy_min_needle_len \<or> int (length content) * int (length old) ^ 2 > 400000000"
    by (auto simp: fuzzy_min_needle_len_def)
  then have "strategy_fuzzy content old new = (None, 0)"
    by (elim disjE) (simp_all add: strategy_fuzzy_def Let_def)
  with False show ?thesis by auto
qed

subsection \<open>Lines up to white space\<close>

definition significant :: "string list \<Rightarrow> string list" where
  "significant lines = map (\<lambda>l. collapse_ws (strip l)) (filter (\<lambda>l. strip l \<noteq> []) lines)"

lemma match_from_Some:
  "match_from needle lines = Some k \<Longrightarrow> k \<le> length lines \<and> significant (take k lines) = needle"
  by (induction needle lines arbitrary: k rule: match_from.induct)
     (auto simp: significant_def split: if_splits)

lemma match_from_pos: "match_from needle lines = Some k \<Longrightarrow> needle \<noteq> [] \<Longrightarrow> 0 < k"
  by (cases "(needle, lines)" rule: match_from.cases) (auto split: if_splits)

lemma match_from_None: "match_from needle lines = None \<Longrightarrow> significant (take k lines) \<noteq> needle"
proof (induction needle lines arbitrary: k rule: match_from.induct)
  case (3 n ns l lines)
  then show ?case by (cases k) (auto simp: significant_def split: if_splits)
qed (auto simp: significant_def)

text \<open>The lines of a file after \<open>n\<close> runs have been rewritten by \<open>f\<close>: a run is a stretch of lines whose
  non-blank lines are the needle's up to white space, taken from the left.\<close>

inductive flex_edit :: "string list \<Rightarrow> (string list \<Rightarrow> string) \<Rightarrow> nat \<Rightarrow> string list \<Rightarrow> string list \<Rightarrow> bool"
  for needle f where
  finished: "flex_edit needle f 0 [] []"
| kept: "\<forall>k. significant (take k (l # ls)) \<noteq> needle \<Longrightarrow> flex_edit needle f n ls rs
         \<Longrightarrow> flex_edit needle f n (l # ls) (l # rs)"
| rewritten: "significant run = needle \<Longrightarrow> run \<noteq> [] \<Longrightarrow> flex_edit needle f n ls rs
         \<Longrightarrow> flex_edit needle f (Suc n) (run @ ls) (f run # rs)"

lemma flex_edit_runs:
  assumes "needle \<noteq> []"
  shows "\<exists>rs. foldr (replace_run rl) (match_runs needle lines i) lines = take i lines @ rs
     \<and> flex_edit needle (run_replacement rl) (length (match_runs needle lines i)) (drop i lines) rs"
  using assms
proof (induction needle lines i rule: match_runs.induct)
  case (1 needle lines i)
  show ?case
  proof (cases "i < length lines")
    case i: True
    show ?thesis
    proof (cases "match_from needle (drop i lines)")
      case None
      have dr: "drop i lines = lines ! i # drop (Suc i) lines" using i by (simp add: Cons_nth_drop_Suc)
      obtain rs where rs: "foldr (replace_run rl) (match_runs needle lines (Suc i)) lines = take (Suc i) lines @ rs"
        "flex_edit needle (run_replacement rl) (length (match_runs needle lines (Suc i))) (drop (Suc i) lines) rs"
        using 1(1)[OF i None 1(3)] by blast
      have "flex_edit needle (run_replacement rl) (length (match_runs needle lines (Suc i))) (drop i lines) (lines ! i # rs)"
        unfolding dr using match_from_None[OF None] dr by (intro flex_edit.kept rs) simp
      with rs(1) show ?thesis
        using i None by (subst (1 2) match_runs.simps) (auto simp: take_Suc_conv_app_nth)
    next
      case (Some k)
      note k = match_from_Some[OF Some] match_from_pos[OF Some 1(3)]
      obtain rs where rs: "foldr (replace_run rl) (match_runs needle lines (i + k)) lines = take (i + k) lines @ rs"
        "flex_edit needle (run_replacement rl) (length (match_runs needle lines (i + k))) (drop (i + k) lines) rs"
        using 1(2)[OF i Some _ 1(3)] k by blast
      have runs: "match_runs needle lines i = (i, i + k) # match_runs needle lines (i + k)"
        using i Some k by (subst match_runs.simps) simp
      let ?run = "take k (drop i lines)"
      have ik: "i + k \<le> length lines" using k i by (simp add: le_diff_conv2 add.commute)
      have "flex_edit needle (run_replacement rl) (Suc (length (match_runs needle lines (i + k))))
              (?run @ drop (i + k) lines) (run_replacement rl ?run # rs)"
        using k i by (intro flex_edit.rewritten rs) auto
      moreover have "?run @ drop (i + k) lines = drop i lines"
        by (metis add.commute append_take_drop_id drop_drop)
      moreover have "replace_run rl (i, i + k) (take (i + k) lines @ rs)
          = take i lines @ run_replacement rl ?run # rs"
        using ik by (simp add: replace_run_def take_drop add.commute)
      ultimately show ?thesis by (simp add: runs rs(1))
    qed
  next
    case False
    then show ?thesis by (subst (1 2) match_runs.simps) (auto intro: flex_edit.finished)
  qed
qed

lemma collapse_ws_Nil_iff [simp]: "collapse_ws s = [] \<longleftrightarrow> s = []"
  by (cases s) auto

lemma strategy_flexible_Some:
  assumes "strategy_flexible content old new e multiple = (Some r, n)"
  shows "\<exists>rs. flex_edit (search_significant old) (run_replacement (splitlines new)) n (splitlines_keepends content) rs
     \<and> r = concat rs \<and> 0 < n \<and> (multiple \<or> int n = e)"
proof -
  define runs where "runs = match_runs (search_significant old) (splitlines_keepends content) 0"
  have "search_significant old \<noteq> []"
    using assms by (auto simp: strategy_flexible_def)
  moreover have "n = length runs \<and> 0 < n \<and> (multiple \<or> int n = e)
      \<and> r = concat (foldr (replace_run (splitlines new)) (if multiple then runs else take (nat e) runs)
            (splitlines_keepends content))"
    using assms unfolding strategy_flexible_def Let_def runs_def[symmetric]
    by (simp split: if_split_asm) auto
  moreover from this have "(if multiple then runs else take (nat e) runs) = runs" by auto
  ultimately show ?thesis
    using flex_edit_runs[of "search_significant old" "splitlines new" "splitlines_keepends content" 0]
    unfolding runs_def by auto
qed

lemma match_runs_Nil:
  "match_runs needle lines i = [] \<Longrightarrow> needle \<noteq> [] \<Longrightarrow> i \<le> j \<Longrightarrow> j < length lines
   \<Longrightarrow> significant (take k (drop j lines)) \<noteq> needle"
proof (induction needle lines i rule: match_runs.induct)
  case (1 needle lines i)
  then have i: "i < length lines" by simp
  with 1(3,4) have none: "match_from needle (drop i lines) = None" "match_runs needle lines (Suc i) = []"
    by (subst (asm) match_runs.simps, auto split: option.splits if_splits dest: match_from_pos)+
  show ?case
  proof (cases "j = i")
    case True
    then show ?thesis using match_from_None[OF none(1)] by simp
  next
    case False
    then show ?thesis using 1(1)[OF i none(1,2) 1(4)] 1(5,6) by simp
  qed
qed

subsection \<open>What an edit does\<close>

text \<open>No run of lines of the file is the needle up to white space.\<close>

definition no_line_match :: "string \<Rightarrow> string \<Rightarrow> bool" where
  "no_line_match content old_str \<longleftrightarrow>
     search_significant old_str = []
     \<or> (\<forall>i k. i < length (splitlines_keepends content) \<longrightarrow>
          significant (take k (drop i (splitlines_keepends content))) \<noteq> search_significant old_str)"

text \<open>How \<open>new_content\<close> arises from \<open>content\<close> with \<open>n\<close> replacements, for each strategy.\<close>

definition explained :: "string \<Rightarrow> string \<Rightarrow> string \<Rightarrow> string \<Rightarrow> int \<Rightarrow> string \<Rightarrow> bool" where
  "explained strategy content old_str new_str n new_content \<longleftrightarrow>
     (if strategy = ''exact''
      then \<exists>parts. content = py_join old_str parts \<and> new_content = py_join new_str parts
                   \<and> int (length parts) = n + 1 \<and> (\<forall>p \<in> set parts. \<not> sublist old_str p)
      else if strategy = ''flexible''
      then \<not> sublist old_str content
           \<and> (\<exists>ls. flex_edit (search_significant old_str) (run_replacement (splitlines new_str)) (nat n)
                     (splitlines_keepends content) ls \<and> new_content = concat ls)
      else strategy = ''fuzzy'' \<and> n = 1 \<and> \<not> sublist old_str content \<and> no_line_match content old_str
           \<and> (\<exists>i. nearest_window content old_str i
                  \<and> new_content = take i content @ new_str @ drop (i + length old_str) content))"

lemma py_count_0: "py_count s old = 0 \<Longrightarrow> old \<noteq> [] \<Longrightarrow> \<not> sublist old s"
  by (auto simp: py_count_def split_sub.simps[of old s] split: option.splits if_splits
      dest: find_sub_None)

lemma strategy_fuzzy_Some: "strategy_fuzzy content old new = (Some r, n) \<Longrightarrow> n = 1"
  unfolding strategy_fuzzy_def Let_def
  by (simp split: if_split_asm prod.split_asm option.split_asm)

lemma strategy_exact_Some:
  assumes "strategy_exact content old new e multiple = (Some r, n)"
  shows "explained ''exact'' content old new (int n) r \<and> (multiple \<or> int n = e)"
proof -
  from assms have *: "old \<noteq> []" "n = py_count content old" "0 < n" "multiple \<or> int n = e" "r = py_replace content old new n"
    by (auto simp: strategy_exact_def Let_def split: if_splits)
  have "length (split_sub old content) \<noteq> 0" by simp
  then have "int (length (split_sub old content)) = int n + 1"
    using *(2,3) unfolding py_count_def by linarith
  with * show ?thesis
    using join_split[of old content] replace_split[of old content new] split_sub_parts[of old _ content]
    unfolding explained_def by (auto intro!: exI[of _ "split_sub old content"])
qed

lemma strategy_exact_None:
  "strategy_exact content old new e multiple = (None, n) \<Longrightarrow> old \<noteq> []
   \<Longrightarrow> \<not> (0 < n \<and> \<not> multiple \<and> int n \<noteq> e) \<Longrightarrow> \<not> sublist old content"
  by (auto simp: strategy_exact_def Let_def split: if_splits dest: py_count_0)

lemma strategy_flexible_None:
  "strategy_flexible content old new e multiple = (None, n)
   \<Longrightarrow> \<not> (0 < n \<and> \<not> multiple \<and> int n \<noteq> e) \<Longrightarrow> old \<noteq> [] \<Longrightarrow> no_line_match content old"
  by (auto simp: strategy_flexible_def no_line_match_def Let_def split: if_splits dest: match_runs_Nil[where i = 0])

lemma run_pipeline_explained:
  assumes "run_pipeline content old new e multiple = Inr r"
  shows "er_final_old_str r = old \<and> er_final_new_str r = new \<and> \<not> er_repair_applied r
     \<and> explained (er_strategy r) content old new (er_occurrences r) (er_content r)"
proof -
  obtain x n1 where ex: "strategy_exact content old new e multiple = (x, n1)" by fastforce
  obtain f n2 where fl: "strategy_flexible content old new e multiple = (f, n2)" by fastforce
  obtain z n3 where fz: "strategy_fuzzy content old new = (z, n3)" by fastforce
  have old: "old \<noteq> []" using assms by (auto simp: run_pipeline_def)
  have occ: "(if multiple then int n else min (int n) e) = int n" if "multiple \<or> int n = e" for n :: nat
    using that by auto
  show ?thesis
  proof (cases x)
    case (Some c)
    then show ?thesis
      using assms ex old strategy_exact_Some[of content old new e multiple c n1] occ[of n1]
      by (auto simp: run_pipeline_def)
  next
    case None
    have c1: "\<not> (0 < n1 \<and> \<not> multiple \<and> int n1 \<noteq> e)"
      using assms ex old None by (auto simp: run_pipeline_def split: if_split_asm)
    note not_lit = strategy_exact_None[OF ex[unfolded None] old c1]
    show ?thesis
    proof (cases f)
      case (Some c)
      then show ?thesis
        using assms ex fl old None c1 not_lit strategy_flexible_Some[of content old new e multiple c n2] occ[of n2]
        by (auto simp: run_pipeline_def explained_def)
    next
      case f: None
      have c2: "\<not> (0 < n2 \<and> \<not> multiple \<and> int n2 \<noteq> e)"
        using assms ex fl old None c1 f by (auto simp: run_pipeline_def split: if_split_asm)
      note no_lines = strategy_flexible_None[OF fl[unfolded f] c2 old]
      obtain c where z: "z = Some c" using assms ex fl fz old None c1 f c2
        by (cases z) (auto simp: run_pipeline_def)
      then show ?thesis
        using assms ex fl fz old None c1 f c2 not_lit no_lines strategy_fuzzy_iff[of content old new c]
        by (auto simp: run_pipeline_def explained_def)
    qed
  qed
qed



text \<open>A run may start at a blank line: then the blank line goes with it, and the replacement is indented
  like the blank line, not like the code it replaces.\<close>

lemma flexible_swallows_blank_line:
  "er_content (projr (apply_edit None ''f'' (''def f():'' @ newline @ newline @ ''    return  1'' @ newline)
      ''return 1'' ''return 2'' 1 False)) = ''def f():'' @ newline @ ''return 2'' @ newline"
  by code_simp

end
