(* ===== verification/Project_Files.thy ===== *)
theory Project_Files
  imports Py_Text
begin

text \<open>
  The files of a project as the tools see them.  The orchestrator interface
  (\<open>services/orchestration/base.py\<close>: \<open>read_file\<close>, \<open>write_file\<close>, \<open>delete_file\<close>) is the record
  \<open>files_api\<close>, and its contract the locale \<open>project_files\<close>; the local runtime
  (\<open>services/orchestration/local.py\<close>) and the Docker runtime (\<open>docker.py\<close>) are modelled on a disk and
  interpret it.  The Kubernetes runtime asks a remote file service and is left out.

  The disk maps absolute paths, as lists of components, to files and directories.  There are no
  symbolic links and no input/output errors besides those the tree itself causes (a file where a
  directory is needed, a directory where a file is needed).
\<close>

subsection \<open>Paths\<close>

text \<open>\<open>PurePosixPath(s).parts\<close>: empty components and \<open>.\<close> are dropped; an absolute path starts with its
  root, which is two slashes when there are exactly two.\<close>

definition path_root :: "string \<Rightarrow> string list" where
  "path_root s =
     (if take 2 s = ''//'' \<and> take 3 s \<noteq> ''///'' then [''//'']
      else if take 1 s = ''/'' then [''/''] else [])"

definition path_comps :: "string \<Rightarrow> string list" where
  "path_comps s = filter (\<lambda>c. c \<noteq> [] \<and> c \<noteq> ''.'') (split_sub ''/'' s)"

definition path_parts :: "string \<Rightarrow> string list" where
  "path_parts s = path_root s @ path_comps s"

definition is_absolute :: "string \<Rightarrow> bool" where
  "is_absolute s \<longleftrightarrow> take 1 s = ''/''"

text \<open>\<open>(base / rel).resolve()\<close> for an absolute \<open>base\<close> without symbolic links.\<close>

definition collapse_dots :: "string list \<Rightarrow> string list" where
  "collapse_dots cs = fold (\<lambda>c acc. if c = ''..'' then butlast acc else acc @ [c]) cs []"

definition join_resolve :: "string list \<Rightarrow> string \<Rightarrow> string list" where
  "join_resolve base rel =
     collapse_dots (if is_absolute rel then path_comps rel else base @ path_comps rel)"

subsection \<open>The disk\<close>

datatype node = File string | Dir

type_synonym location = "string list"
type_synonym disk = "location \<Rightarrow> node option"

definition disk_file :: "disk \<Rightarrow> location \<Rightarrow> string option" where
  "disk_file d l = (case d l of Some (File c) \<Rightarrow> Some c | _ \<Rightarrow> None)"

text \<open>\<open>mkdir(parents=True, exist_ok=True)\<close>: \<open>None\<close> when a file is in the way.\<close>

definition make_dirs :: "disk \<Rightarrow> location \<Rightarrow> disk option" where
  "make_dirs d l =
     (if list_ex (\<lambda>p. case d p of Some (File _) \<Rightarrow> True | _ \<Rightarrow> False) (prefixes l) then None
      else Some (\<lambda>p. if prefix p l \<and> d p = None then Some Dir else d p))"

text \<open>Writing the file at \<open>l\<close> after making the directories above it.\<close>

definition put_file :: "disk \<Rightarrow> location \<Rightarrow> string \<Rightarrow> disk \<times> bool" where
  "put_file d l content =
     (case make_dirs d (butlast l) of
        None \<Rightarrow> (d, False)
      | Some d' \<Rightarrow> if d' l = Some Dir \<or> l = [] then (d', False) else (d'(l \<mapsto> File content), True))"

lemma make_dirs_file: "make_dirs d l = Some d' \<Longrightarrow> disk_file d' = disk_file d"
proof -
  assume "make_dirs d l = Some d'"
  then have "d' = (\<lambda>p. if prefix p l \<and> d p = None then Some Dir else d p)"
    unfolding make_dirs_def by (simp only: option.inject split: if_split_asm) simp
  then show ?thesis by (auto simp: disk_file_def fun_eq_iff)
qed

lemma disk_file_upd [simp]:
  "disk_file (d(l \<mapsto> File c)) = (disk_file d)(l \<mapsto> c)" "disk_file (d(l := None)) = (disk_file d)(l := None)"
  by (auto simp: disk_file_def fun_eq_iff)

lemma put_file_True: "put_file d l c = (d', True) \<Longrightarrow> disk_file d' = (disk_file d)(l \<mapsto> c)"
  unfolding put_file_def by (auto dest: make_dirs_file split: option.splits if_splits)

lemma put_file_False: "put_file d l c = (d', False) \<Longrightarrow> disk_file d' = disk_file d"
  by (auto simp: put_file_def dest: make_dirs_file split: option.splits if_splits)

subsection \<open>The interface\<close>

text \<open>\<open>read_file(path, subdir)\<close>, \<open>write_file(path, content, subdir)\<close> and \<open>delete_file(path)\<close>: the
  deletion has no \<open>subdir\<close> in the interface, and the tools pass none.\<close>

record 'w files_api =
  fa_read :: "'w \<Rightarrow> string option \<Rightarrow> string \<Rightarrow> string option"
  fa_write :: "'w \<Rightarrow> string option \<Rightarrow> string \<Rightarrow> string \<Rightarrow> 'w \<times> bool"
  fa_delete :: "'w \<Rightarrow> string \<Rightarrow> 'w \<times> bool"

text \<open>A path in the form the patch tool computes: components joined by single slashes.\<close>

definition plain_component :: "string \<Rightarrow> bool" where
  "plain_component c \<longleftrightarrow> c \<noteq> [] \<and> c \<noteq> ''.'' \<and> c \<noteq> ''..'' \<and> CHR ''/'' \<notin> set c"

definition plain_path :: "string \<Rightarrow> bool" where
  "plain_path p \<longleftrightarrow> (\<exists>cs. list_all plain_component cs \<and> p = py_join ''/'' cs)"

locale project_files =
  fixes F :: "'w files_api"
    and locate :: "string option \<Rightarrow> string \<Rightarrow> 'l option"
    and view :: "'w \<Rightarrow> 'l \<Rightarrow> string option"
  assumes read_view: "fa_read F w sd p = (case locate sd p of None \<Rightarrow> None | Some l \<Rightarrow> view w l)"
    and write_True: "fa_write F w sd p c = (w', True) \<Longrightarrow>
      \<exists>l. locate sd p = Some l \<and> view w' = (view w)(l \<mapsto> c)"
    and write_False: "fa_write F w sd p c = (w', False) \<Longrightarrow> view w' = view w"
    and delete_True: "fa_delete F w p = (w', True) \<Longrightarrow>
      \<exists>l. locate None p = Some l \<and> view w' = (view w)(l := None)"
    and delete_False: "fa_delete F w p = (w', False) \<Longrightarrow> view w' = view w"
    and locate_inj: "plain_path p \<Longrightarrow> plain_path q \<Longrightarrow> locate sd p = Some l \<Longrightarrow> locate sd q = Some l \<Longrightarrow> p = q"

subsection \<open>The local runtime\<close>

definition relative_to :: "location \<Rightarrow> location \<Rightarrow> bool" where
  "relative_to home l \<longleftrightarrow> take (length home) l = home"

definition set_subdir :: "string option \<Rightarrow> bool" where
  "set_subdir subdir \<longleftrightarrow> subdir \<noteq> None \<and> subdir \<noteq> Some []"

text \<open>\<open>None\<close> where \<open>_safe_resolve\<close> raises \<open>PermissionError\<close>.\<close>

definition safe_resolve :: "location \<Rightarrow> string \<Rightarrow> string option \<Rightarrow> location option" where
  "safe_resolve home rel subdir =
     (let base = (if set_subdir subdir then join_resolve home (the subdir) else home)
      in if \<not> relative_to home base then None
         else (let resolved = join_resolve base rel
               in if relative_to home resolved then Some resolved else None))"

definition local_read_file :: "location \<Rightarrow> disk \<Rightarrow> string option \<Rightarrow> string \<Rightarrow> string option" where
  "local_read_file home d subdir file_path =
     (case safe_resolve home file_path subdir of None \<Rightarrow> None | Some target \<Rightarrow> disk_file d target)"

definition local_write_file ::
  "location \<Rightarrow> disk \<Rightarrow> string option \<Rightarrow> string \<Rightarrow> string \<Rightarrow> disk \<times> bool" where
  "local_write_file home d subdir file_path content =
     (if file_path = [] then (d, False)
      else case safe_resolve home [] subdir of
        None \<Rightarrow> (d, False)
      | Some base \<Rightarrow>
          (let candidate = join_resolve base file_path
           in if relative_to home candidate then put_file d candidate content else (d, False)))"

definition local_delete_file :: "location \<Rightarrow> disk \<Rightarrow> string \<Rightarrow> disk \<times> bool" where
  "local_delete_file home d file_path =
     (case safe_resolve home file_path None of
        None \<Rightarrow> (d, False)
      | Some target \<Rightarrow>
          (case d target of Some (File _) \<Rightarrow> (d(target := None), True) | _ \<Rightarrow> (d, False)))"

definition local_files :: "location \<Rightarrow> disk files_api" where
  "local_files home = \<lparr>fa_read = local_read_file home, fa_write = local_write_file home,
                       fa_delete = local_delete_file home\<rparr>"

subsection \<open>The Docker runtime\<close>

definition safe_project_path :: "location \<Rightarrow> string \<Rightarrow> string option \<Rightarrow> location option" where
  "safe_project_path home file_path subdir =
     (let base = (if set_subdir subdir \<and> subdir \<noteq> Some ''.''
                  then (if is_absolute (the subdir) then path_comps (the subdir)
                        else home @ path_comps (the subdir))
                  else home);
          resolved = join_resolve base file_path
      in if relative_to home resolved then Some resolved else None)"

definition docker_read_file :: "location \<Rightarrow> disk \<Rightarrow> string option \<Rightarrow> string \<Rightarrow> string option" where
  "docker_read_file home d subdir file_path =
     (case safe_project_path home file_path subdir of None \<Rightarrow> None | Some full \<Rightarrow> disk_file d full)"

definition docker_write_file ::
  "location \<Rightarrow> disk \<Rightarrow> string option \<Rightarrow> string \<Rightarrow> string \<Rightarrow> disk \<times> bool" where
  "docker_write_file home d subdir file_path content =
     (case safe_project_path home file_path subdir of
        None \<Rightarrow> (d, False)
      | Some full \<Rightarrow> put_file d full content)"

definition docker_delete_file :: "location \<Rightarrow> disk \<Rightarrow> string \<Rightarrow> disk \<times> bool" where
  "docker_delete_file home d file_path =
     (case safe_project_path home file_path None of
        None \<Rightarrow> (d, False)
      | Some full \<Rightarrow>
          (case d full of
             None \<Rightarrow> (d, True)
           | Some Dir \<Rightarrow> (d, False)
           | Some (File _) \<Rightarrow> (d(full := None), True)))"

definition docker_files :: "location \<Rightarrow> disk files_api" where
  "docker_files home = \<lparr>fa_read = docker_read_file home, fa_write = docker_write_file home,
                        fa_delete = docker_delete_file home\<rparr>"

subsection \<open>Both keep the contract\<close>

lemma find_sub_char: "CHR ''/'' \<notin> set a \<Longrightarrow> find_sub ''/'' (a @ ''/'' @ b) = Some (a, b)"
  by (induction a) auto

lemma find_sub_char_None: "CHR ''/'' \<notin> set a \<Longrightarrow> find_sub ''/'' a = None"
  by (induction a) auto

lemma split_sub_join:
  "list_all (\<lambda>c. CHR ''/'' \<notin> set c) cs \<Longrightarrow> cs \<noteq> [] \<Longrightarrow> split_sub ''/'' (py_join ''/'' cs) = cs"
proof (induction cs)
  case (Cons x cs)
  show ?case
  proof (cases "cs = []")
    case True
    then show ?thesis using Cons.prems by (subst split_sub.simps) (simp add: find_sub_char_None)
  next
    case False
    then show ?thesis
      using Cons find_sub_char[of x "py_join ''/'' cs"] by (subst split_sub.simps) (simp add: py_join_Cons)
  qed
qed simp

lemma path_comps_plain:
  assumes "list_all plain_component cs"
  shows "path_comps (py_join ''/'' cs) = cs"
proof (cases "cs = []")
  case True
  then show ?thesis by (simp add: path_comps_def split_sub.simps)
next
  case False
  have "list_all (\<lambda>c. CHR ''/'' \<notin> set c) cs" "list_all (\<lambda>c. c \<noteq> [] \<and> c \<noteq> ''.'') cs"
    using assms by (auto simp: plain_component_def list_all_iff)
  then show ?thesis
    using split_sub_join[of cs] False by (simp add: path_comps_def filter_id_iff list_all_iff)
qed

lemma plain_not_absolute:
  assumes "list_all plain_component cs"
  shows "\<not> is_absolute (py_join ''/'' cs)"
proof (cases cs)
  case (Cons c cs')
  moreover from Cons assms obtain x y where "c = x # y" "x \<noteq> CHR ''/''"
    by (cases c) (auto simp: plain_component_def)
  ultimately show ?thesis by (cases cs') (auto simp: is_absolute_def)
qed (simp add: is_absolute_def)

lemma fold_no_dots:
  "''..'' \<notin> set cs \<Longrightarrow> fold (\<lambda>c acc. if c = ''..'' then butlast acc else acc @ [c]) cs acc = acc @ cs"
  by (induction cs arbitrary: acc) auto

lemma join_resolve_plain:
  assumes "list_all plain_component cs"
  shows "join_resolve base (py_join ''/'' cs) = collapse_dots base @ cs"
proof -
  have "''..'' \<notin> set cs" using assms by (auto simp: plain_component_def list_all_iff)
  with assms show ?thesis
    by (simp add: join_resolve_def path_comps_plain plain_not_absolute collapse_dots_def fold_no_dots)
qed

lemma collapse_dots_no_dots: "''..'' \<notin> set (collapse_dots cs)"
proof -
  have "''..'' \<notin> set acc \<Longrightarrow>
      ''..'' \<notin> set (fold (\<lambda>c acc. if c = ''..'' then butlast acc else acc @ [c]) cs acc)" for acc
    by (induction cs arbitrary: acc) (auto dest: in_set_butlastD)
  then show ?thesis by (simp add: collapse_dots_def)
qed

lemma join_resolve_twice [simp]: "join_resolve (join_resolve base []) p = join_resolve base p"
proof -
  have "collapse_dots (collapse_dots b @ cs) = collapse_dots (b @ cs)" for b cs
    using fold_no_dots[OF collapse_dots_no_dots, of b "[]"] by (simp add: collapse_dots_def)
  moreover have "path_comps [] = []" "\<not> is_absolute []"
    by (simp_all add: path_comps_def split_sub.simps is_absolute_def)
  ultimately show ?thesis by (simp add: join_resolve_def)
qed

lemma join_resolve_inj:
  "plain_path p \<Longrightarrow> plain_path q \<Longrightarrow> join_resolve base p = join_resolve base q \<Longrightarrow> p = q"
  by (auto simp: plain_path_def join_resolve_plain)

interpretation local: project_files "local_files home" "\<lambda>sd p. safe_resolve home p sd" disk_file
  for home
proof
  fix w w' :: disk and sd p q c l
  show "fa_read (local_files home) w sd p =
      (case safe_resolve home p sd of None \<Rightarrow> None | Some l \<Rightarrow> disk_file w l)"
    by (simp add: local_files_def local_read_file_def)
  show "\<exists>l. safe_resolve home p sd = Some l \<and> disk_file w' = (disk_file w)(l \<mapsto> c)"
    if "fa_write (local_files home) w sd p c = (w', True)"
    using that
    by (auto simp: local_files_def local_write_file_def safe_resolve_def Let_def dest: put_file_True
        split: if_splits option.splits)
  show "disk_file w' = disk_file w" if "fa_write (local_files home) w sd p c = (w', False)"
    using that
    by (auto simp: local_files_def local_write_file_def Let_def dest: put_file_False
        split: if_splits option.splits)
  show "\<exists>l. safe_resolve home p None = Some l \<and> disk_file w' = (disk_file w)(l := None)"
    if "fa_delete (local_files home) w p = (w', True)"
    using that
    by (auto simp: local_files_def local_delete_file_def split: option.splits node.splits)
  show "disk_file w' = disk_file w" if "fa_delete (local_files home) w p = (w', False)"
    using that by (auto simp: local_files_def local_delete_file_def split: option.splits node.splits)
  show "p = q" if "plain_path p" "plain_path q" "safe_resolve home p sd = Some l" "safe_resolve home q sd = Some l"
    using that join_resolve_inj[of p q]
    by (auto simp: safe_resolve_def Let_def split: if_splits)
qed

interpretation docker: project_files "docker_files home" "\<lambda>sd p. safe_project_path home p sd" disk_file
  for home
proof
  fix w w' :: disk and sd p q c l
  show "fa_read (docker_files home) w sd p =
      (case safe_project_path home p sd of None \<Rightarrow> None | Some l \<Rightarrow> disk_file w l)"
    by (simp add: docker_files_def docker_read_file_def)
  show "\<exists>l. safe_project_path home p sd = Some l \<and> disk_file w' = (disk_file w)(l \<mapsto> c)"
    if "fa_write (docker_files home) w sd p c = (w', True)"
    using that by (auto simp: docker_files_def docker_write_file_def dest: put_file_True split: option.splits)
  show "disk_file w' = disk_file w" if "fa_write (docker_files home) w sd p c = (w', False)"
    using that by (auto simp: docker_files_def docker_write_file_def dest: put_file_False split: option.splits)
  show "\<exists>l. safe_project_path home p None = Some l \<and> disk_file w' = (disk_file w)(l := None)"
    if "fa_delete (docker_files home) w p = (w', True)"
  proof (cases "safe_project_path home p None")
    case (Some l)
    then have "disk_file w l = None \<and> w' = w \<or> w' = w(l := None)"
      using that by (auto simp: docker_files_def docker_delete_file_def disk_file_def split: option.splits node.splits)
    then have "disk_file w' = (disk_file w)(l := None)" by (auto simp: fun_upd_idem)
    with Some show ?thesis by blast
  qed (use that in \<open>simp add: docker_files_def docker_delete_file_def\<close>)
  show "disk_file w' = disk_file w" if "fa_delete (docker_files home) w p = (w', False)"
    using that by (auto simp: docker_files_def docker_delete_file_def split: option.splits node.splits)
  show "p = q" if "plain_path p" "plain_path q" "safe_project_path home p sd = Some l" "safe_project_path home q sd = Some l"
    using that join_resolve_inj[of p q] join_resolve_inj[of q p]
    by (auto simp: safe_project_path_def Let_def split: if_splits)
qed

text \<open>Neither runtime reaches a file outside the project, whatever the path.\<close>

lemma local_stays_inside: "safe_resolve home p sd = Some l \<Longrightarrow> prefix home l"
  unfolding safe_resolve_def relative_to_def Let_def
  by (metis option.distinct(1) option.inject take_is_prefix)

lemma docker_stays_inside: "safe_project_path home p sd = Some l \<Longrightarrow> prefix home l"
  unfolding safe_project_path_def relative_to_def Let_def
  by (metis option.distinct(1) option.inject take_is_prefix)

end
