(* ===== verification/File_Tools.thy ===== *)
theory File_Tools
  imports Fuzzy_Editor Project_Files
begin

text \<open>
  The agent tools that change files: \<open>apply_patch\<close> (\<open>agent/tools/file_ops/apply_patch_tool.py\<close>),
  \<open>patch_file\<close> and \<open>multi_edit\<close> (\<open>edit.py\<close>), \<open>file_undo\<close> (\<open>undo_tool.py\<close>), and the ring buffer of edits
  they share (\<open>edit_history.py\<close>).  The state is the project's files, behind the interface \<open>files_api\<close>,
  and the history.  A tool returns a result or raises; the texts of messages are left out.

  The definitions come first.  In the locale \<open>project_files\<close> it is then proved what each tool does to
  the files over any runtime that keeps the contract, and the properties are stated for the local
  runtime.
\<close>

section \<open>The tools\<close>

subsection \<open>Edit history\<close>

datatype edit_op = Op_write | Op_edit | Op_patch | Op_delete | Op_move_src | Op_move_dst

record history_entry =
  he_path :: string
  he_prev :: "string option"
  he_op :: edit_op

definition default_capacity :: nat where
  "default_capacity = 100"

text \<open>\<open>deque(maxlen=capacity).append\<close>.\<close>

definition record_edit :: "string \<Rightarrow> string option \<Rightarrow> edit_op \<Rightarrow> history_entry list \<Rightarrow> history_entry list" where
  "record_edit path prev op h =
     (let h' = h @ [\<lparr>he_path = path, he_prev = prev, he_op = op\<rparr>]
      in drop (length h' - default_capacity) h')"

fun pop_newest :: "string \<Rightarrow> history_entry list \<Rightarrow> history_entry option \<times> history_entry list" where
  "pop_newest path [] = (None, [])"
| "pop_newest path (e # newest_first) =
     (if he_path e = path then (Some e, newest_first)
      else (let (r, rest) = pop_newest path newest_first in (r, e # rest)))"

definition pop_latest :: "string \<Rightarrow> history_entry list \<Rightarrow> history_entry option \<times> history_entry list" where
  "pop_latest path h = (let (r, rest) = pop_newest path (rev h) in (r, rev rest))"

record 'w workspace =
  ws_files :: 'w
  ws_history :: "history_entry list"

definition record_ws :: "string \<Rightarrow> string option \<Rightarrow> edit_op \<Rightarrow> 'w workspace \<Rightarrow> 'w workspace" where
  "record_ws path prev op ws = ws\<lparr>ws_history := record_edit path prev op (ws_history ws)\<rparr>"

definition ws_write :: "'w files_api \<Rightarrow> string option \<Rightarrow> string \<Rightarrow> string \<Rightarrow> 'w workspace \<Rightarrow> 'w workspace \<times> bool" where
  "ws_write F sd path content ws =
     (let (w, ok) = fa_write F (ws_files ws) sd path content in (ws\<lparr>ws_files := w\<rparr>, ok))"

definition ws_delete :: "'w files_api \<Rightarrow> string \<Rightarrow> 'w workspace \<Rightarrow> 'w workspace \<times> bool" where
  "ws_delete F path ws = (let (w, ok) = fa_delete F (ws_files ws) path in (ws\<lparr>ws_files := w\<rparr>, ok))"

datatype tool_exc = Value_error | Type_error

subsection \<open>\<open>file_undo\<close>\<close>

datatype undo_result = Nothing_to_undo | Undo_failed | Undone

definition file_undo_tool ::
  "'w files_api \<Rightarrow> string option \<Rightarrow> string \<Rightarrow> 'w workspace \<Rightarrow> 'w workspace \<times> (tool_exc, undo_result) result" where
  "file_undo_tool F sd file_path ws =
     (if file_path = [] then (ws, Inl Value_error)
      else case pop_latest file_path (ws_history ws) of
        (None, _) \<Rightarrow> (ws, Inr Nothing_to_undo)
      | (Some entry, rest) \<Rightarrow>
          (let ws = ws\<lparr>ws_history := rest\<rparr>;
               (ws, ok) = (case he_prev entry of
                             None \<Rightarrow> ws_delete F file_path ws
                           | Some prev \<Rightarrow> ws_write F sd file_path prev ws)
           in (ws, Inr (if ok then Undone else Undo_failed))))"

subsection \<open>\<open>apply_patch\<close>\<close>

datatype change_op = Create | Update | Delete | Move

record change =
  ch_index :: nat
  ch_op :: change_op
  ch_path :: string
  ch_source :: "string option"
  ch_new_content :: "string option"
  ch_content :: "string option"
  ch_prev_at_path :: "string option"
  ch_prev_at_source :: "string option"

datatype change_problem =
    Not_an_object | Invalid_op | Create_needs_content | Content_not_string
  | Update_needs_old_str | Update_needs_new_str | Move_needs_from | Missing_path
  | Path_escapes | Create_exists | Update_missing | Edit_failed edit_error
  | Delete_missing | Move_source_missing | Move_destination_exists
  | Path_touched nat | Source_touched nat

datatype 'a verdict = Raised tool_exc | Rejected change_problem | Accepted 'a

text \<open>\<open>_resolve_rel\<close>: \<open>None\<close> where it raises.  A path that starts with a root replaces \<open>cwd\<close>, and the
  root stays a component.\<close>

fun normalize_parts :: "string list \<Rightarrow> string list \<Rightarrow> string list option" where
  "normalize_parts normalized [] = Some normalized"
| "normalize_parts normalized (part # parts) =
     (if part = [] \<or> part = ''.'' then normalize_parts normalized parts
      else if part = ''..'' then (if normalized = [] then None else normalize_parts (butlast normalized) parts)
      else normalize_parts (normalized @ [part]) parts)"

definition resolve_rel :: "string \<Rightarrow> string \<Rightarrow> string option" where
  "resolve_rel cwd path =
     (if path = [] then None
      else (let combined = (if is_absolute path then path_parts path else path_parts cwd @ path_parts path)
            in map_option (py_join ''/'') (normalize_parts [] combined)))"

definition change_op_of :: "string \<Rightarrow> change_op option" where
  "change_op_of s =
     (if s = ''create'' then Some Create else if s = ''update'' then Some Update
      else if s = ''delete'' then Some Delete else if s = ''move'' then Some Move else None)"

fun json_text :: "json \<Rightarrow> string option" where
  "json_text (J_str s) = Some s"
| "json_text _ = None"

text \<open>A list or an object as \<open>op\<close> cannot be looked up in a set: \<open>TypeError\<close>.\<close>

definition validate_entry :: "json \<Rightarrow> nat \<Rightarrow> change verdict" where
  "validate_entry entry index =
     (case entry of
        J_obj e \<Rightarrow>
          (case jget e ''op'' of
             J_list _ \<Rightarrow> Raised Type_error
           | J_obj _ \<Rightarrow> Raised Type_error
           | j \<Rightarrow>
             (case Option.bind (json_text j) change_op_of of
                None \<Rightarrow> Rejected Invalid_op
              | Some op \<Rightarrow>
                  (let problem =
                         (case op of
                            Create \<Rightarrow> (if jget e ''content'' = J_null then Some Create_needs_content
                                       else if json_text (jget e ''content'') = None then Some Content_not_string
                                       else None)
                          | Update \<Rightarrow> (if json_text (jget e ''old_str'') = None then Some Update_needs_old_str
                                       else if json_text (jget e ''new_str'') = None then Some Update_needs_new_str
                                       else None)
                          | Delete \<Rightarrow> None
                          | Move \<Rightarrow> (if json_text (jget e ''from'') \<in> {None, Some []} then Some Move_needs_from
                                     else None));
                       path = json_text (jget e (if op = Move then ''to'' else ''path''));
                       source = (if op = Move then json_text (jget e ''from'') else None)
                   in case problem of
                        Some p \<Rightarrow> Rejected p
                      | None \<Rightarrow>
                          if path \<in> {None, Some []} then Rejected Missing_path
                          else Accepted \<lparr>ch_index = index, ch_op = op, ch_path = the path, ch_source = source,
                                         ch_new_content = None, ch_content = None,
                                         ch_prev_at_path = None, ch_prev_at_source = None\<rparr>)))
      | _ \<Rightarrow> Rejected Not_an_object)"

definition resolve_change :: "string \<Rightarrow> change \<Rightarrow> change verdict" where
  "resolve_change cwd ch =
     (case resolve_rel cwd (ch_path ch) of
        None \<Rightarrow> Rejected Path_escapes
      | Some path \<Rightarrow>
          (case ch_source ch of
             None \<Rightarrow> Accepted (ch\<lparr>ch_path := path\<rparr>)
           | Some s \<Rightarrow>
               (case resolve_rel cwd s of
                  None \<Rightarrow> Rejected Path_escapes
                | Some source \<Rightarrow> Accepted (ch\<lparr>ch_path := path, ch_source := Some source\<rparr>))))"

definition read_change :: "'w files_api \<Rightarrow> string option \<Rightarrow> 'w \<Rightarrow> change \<Rightarrow> change" where
  "read_change F sd w ch =
     ch\<lparr>ch_prev_at_path := fa_read F w sd (ch_path ch),
        ch_prev_at_source := (case ch_source ch of
           None \<Rightarrow> None
         | Some source \<Rightarrow> if source = [] then None else fa_read F w sd source)\<rparr>"

definition plan_update :: "repair_fn \<Rightarrow> json_dict \<Rightarrow> change \<Rightarrow> change verdict" where
  "plan_update llm_repair e ch =
     (case int_of_json (py_or (jget_default e ''expected_occurrence'' (J_int 1)) (J_int 1)) of
        None \<Rightarrow> Raised Value_error
      | Some expected \<Rightarrow>
          (case apply_edit (Some llm_repair) (ch_path ch) (the (ch_prev_at_path ch))
                  (the (json_text (jget e ''old_str''))) (the (json_text (jget e ''new_str'')))
                  expected (truthy (jget_default e ''allow_multiple'' (J_bool False))) of
             Inl err \<Rightarrow> Rejected (Edit_failed err)
           | Inr r \<Rightarrow> Accepted (ch\<lparr>ch_new_content := Some (er_content r)\<rparr>)))"

definition check_change :: "repair_fn \<Rightarrow> json_dict \<Rightarrow> change \<Rightarrow> change verdict" where
  "check_change llm_repair e ch =
     (case ch_op ch of
        Create \<Rightarrow> (if ch_prev_at_path ch \<noteq> None then Rejected Create_exists
                   else Accepted (ch\<lparr>ch_content := json_text (jget e ''content'')\<rparr>))
      | Update \<Rightarrow> (if ch_prev_at_path ch = None then Rejected Update_missing else plan_update llm_repair e ch)
      | Delete \<Rightarrow> (if ch_prev_at_path ch = None then Rejected Delete_missing else Accepted ch)
      | Move \<Rightarrow> (if ch_prev_at_source ch = None then Rejected Move_source_missing
                 else if ch_prev_at_path ch \<noteq> None then Rejected Move_destination_exists
                 else Accepted ch))"

definition verdict_bind :: "'a verdict \<Rightarrow> ('a \<Rightarrow> 'b verdict) \<Rightarrow> 'b verdict" where
  "verdict_bind v f = (case v of Raised e \<Rightarrow> Raised e | Rejected p \<Rightarrow> Rejected p | Accepted x \<Rightarrow> f x)"

text \<open>One entry of the batch, before it is compared with the others.\<close>

definition plan_change ::
  "'w files_api \<Rightarrow> repair_fn \<Rightarrow> string option \<Rightarrow> string \<Rightarrow> 'w \<Rightarrow> json \<Rightarrow> nat \<Rightarrow> change verdict" where
  "plan_change F llm_repair sd cwd w entry i =
     verdict_bind (validate_entry entry i) (\<lambda>ch.
     verdict_bind (resolve_change cwd ch) (\<lambda>ch.
       check_change llm_repair (case entry of J_obj e \<Rightarrow> e | _ \<Rightarrow> []) (read_change F sd w ch)))"

record patch_plan =
  pp_resolved :: "(string \<times> nat) list"
  pp_staged :: "change list"
  pp_errors :: "(nat \<times> change_problem) list"

definition add_error :: "nat \<Rightarrow> change_problem \<Rightarrow> patch_plan \<Rightarrow> patch_plan" where
  "add_error i p plan = plan\<lparr>pp_errors := pp_errors plan @ [(i, p)]\<rparr>"

definition register_change :: "change \<Rightarrow> patch_plan \<Rightarrow> patch_plan" where
  "register_change ch plan =
     (let i = ch_index ch
      in case map_of (pp_resolved plan) (ch_path ch) of
           Some j \<Rightarrow> add_error i (Path_touched j) plan
         | None \<Rightarrow>
             (let plan = plan\<lparr>pp_resolved := (ch_path ch, i) # pp_resolved plan\<rparr>
              in if ch_source ch = None \<or> ch_source ch = Some [] then plan\<lparr>pp_staged := pp_staged plan @ [ch]\<rparr>
                 else case map_of (pp_resolved plan) (the (ch_source ch)) of
                        Some j \<Rightarrow> add_error i (Source_touched j) plan
                      | None \<Rightarrow> plan\<lparr>pp_resolved := (the (ch_source ch), i) # pp_resolved plan,
                                     pp_staged := pp_staged plan @ [ch]\<rparr>))"

fun phase1_validate ::
  "'w files_api \<Rightarrow> repair_fn \<Rightarrow> string option \<Rightarrow> string \<Rightarrow> 'w \<Rightarrow> nat \<Rightarrow> json list \<Rightarrow> patch_plan
     \<Rightarrow> (tool_exc, patch_plan) result" where
  "phase1_validate F llm_repair sd cwd w i [] plan = Inr plan"
| "phase1_validate F llm_repair sd cwd w i (entry # entries) plan =
     (case plan_change F llm_repair sd cwd w entry i of
        Raised e \<Rightarrow> Inl e
      | Rejected p \<Rightarrow> phase1_validate F llm_repair sd cwd w (Suc i) entries (add_error i p plan)
      | Accepted ch \<Rightarrow> phase1_validate F llm_repair sd cwd w (Suc i) entries (register_change ch plan))"

datatype runtime_failure =
    Create_failed string | Update_failed string | Delete_failed string
  | Move_write_failed string | Move_delete_failed string

definition text_or_empty :: "string option \<Rightarrow> string" where
  "text_or_empty x = (case x of None \<Rightarrow> [] | Some s \<Rightarrow> s)"

definition apply_change ::
  "'w files_api \<Rightarrow> string option \<Rightarrow> change \<Rightarrow> 'w workspace \<Rightarrow> 'w workspace \<times> runtime_failure option" where
  "apply_change F sd ch ws =
     (case ch_op ch of
        Create \<Rightarrow>
          (let ws = record_ws (ch_path ch) None Op_write ws;
               (ws, ok) = ws_write F sd (ch_path ch) (text_or_empty (ch_content ch)) ws
           in (ws, if ok then None else Some (Create_failed (ch_path ch))))
      | Update \<Rightarrow>
          (let ws = record_ws (ch_path ch) (ch_prev_at_path ch) Op_patch ws;
               (ws, ok) = ws_write F sd (ch_path ch) (text_or_empty (ch_new_content ch)) ws
           in (ws, if ok then None else Some (Update_failed (ch_path ch))))
      | Delete \<Rightarrow>
          (let ws = record_ws (ch_path ch) (ch_prev_at_path ch) Op_delete ws;
               (ws, ok) = ws_delete F (ch_path ch) ws
           in (ws, if ok then None else Some (Delete_failed (ch_path ch))))
      | Move \<Rightarrow>
          (let source = text_or_empty (ch_source ch);
               ws = record_ws source (ch_prev_at_source ch) Op_move_src ws;
               ws = record_ws (ch_path ch) None Op_move_dst ws;
               (ws, ok) = ws_write F sd (ch_path ch) (text_or_empty (ch_prev_at_source ch)) ws
           in if \<not> ok then (ws, Some (Move_write_failed (ch_path ch)))
              else (let (ws, ok) = ws_delete F source ws
                    in (ws, if ok then None else Some (Move_delete_failed source)))))"

fun phase2_apply ::
  "'w files_api \<Rightarrow> string option \<Rightarrow> change list \<Rightarrow> 'w workspace \<Rightarrow> 'w workspace \<times> runtime_failure option" where
  "phase2_apply F sd [] ws = (ws, None)"
| "phase2_apply F sd (ch # staged) ws =
     (case apply_change F sd ch ws of
        (ws, Some f) \<Rightarrow> (ws, Some f)
      | (ws, None) \<Rightarrow> phase2_apply F sd staged ws)"

datatype patch_result =
    No_changes
  | Cwd_not_string
  | Validation_failed "(nat \<times> change_problem) list"
  | Runtime_failure runtime_failure
  | Applied "change list"

definition no_plan :: patch_plan where
  "no_plan = \<lparr>pp_resolved = [], pp_staged = [], pp_errors = []\<rparr>"

definition apply_patch_tool ::
  "'w files_api \<Rightarrow> repair_fn \<Rightarrow> string option \<Rightarrow> json_dict \<Rightarrow> 'w workspace
     \<Rightarrow> 'w workspace \<times> (tool_exc, patch_result) result" where
  "apply_patch_tool F llm_repair sd params ws =
     (case jget params ''changes'' of
        J_list (c # cs) \<Rightarrow>
          (case py_or (jget_default params ''cwd'' (J_str [])) (J_str []) of
             J_str cwd \<Rightarrow>
               (case phase1_validate F llm_repair sd cwd (ws_files ws) 0 (c # cs) no_plan of
                  Inl e \<Rightarrow> (ws, Inl e)
                | Inr plan \<Rightarrow>
                    if pp_errors plan \<noteq> [] then (ws, Inr (Validation_failed (pp_errors plan)))
                    else (case phase2_apply F sd (pp_staged plan) ws of
                            (ws, Some f) \<Rightarrow> (ws, Inr (Runtime_failure f))
                          | (ws, None) \<Rightarrow> (ws, Inr (Applied (pp_staged plan)))))
           | _ \<Rightarrow> (ws, Inr Cwd_not_string))
      | _ \<Rightarrow> (ws, Inr No_changes))"

subsection \<open>\<open>patch_file\<close> and \<open>multi_edit\<close>\<close>

text \<open>The tools' schemas make every text parameter a string or absent.\<close>

definition resolve_strings :: "json_dict \<Rightarrow> string option \<times> string option" where
  "resolve_strings params =
     (let pick = (\<lambda>k legacy. case json_text (jget params k) of
                    Some s \<Rightarrow> Some s | None \<Rightarrow> json_text (jget params legacy))
      in (pick ''old_str'' ''search'', pick ''new_str'' ''replace''))"

definition int_param :: "json_dict \<Rightarrow> string \<Rightarrow> int \<Rightarrow> int" where
  "int_param params key dflt =
     (case int_of_json (jget_default params key (J_int dflt)) of None \<Rightarrow> dflt | Some n \<Rightarrow> n)"

definition bool_param :: "json_dict \<Rightarrow> string \<Rightarrow> bool \<Rightarrow> bool" where
  "bool_param params key dflt =
     (case jget_default params key (J_bool dflt) of
        J_bool b \<Rightarrow> b
      | J_str s \<Rightarrow> map ascii_lower s \<in> {''true'', ''1'', ''yes''}
      | v \<Rightarrow> truthy v)"

datatype edit_tool_result =
    File_missing
  | Edit_rejected nat edit_error
  | Edit_incomplete nat
  | Save_failed
  | Edited "edit_result list"

definition patch_file_tool ::
  "'w files_api \<Rightarrow> repair_fn option \<Rightarrow> string option \<Rightarrow> string \<Rightarrow> json_dict \<Rightarrow> 'w workspace
     \<Rightarrow> 'w workspace \<times> (tool_exc, edit_tool_result) result" where
  "patch_file_tool F repair sd file_path params ws =
     (case resolve_strings params of
        (Some old_str, Some new_str) \<Rightarrow>
          if file_path = [] then (ws, Inl Value_error)
          else (case fa_read F (ws_files ws) sd file_path of
                  None \<Rightarrow> (ws, Inr File_missing)
                | Some current_content \<Rightarrow>
                    (case apply_edit repair file_path current_content old_str new_str
                            (int_param params ''expected_occurrence'' 1)
                            (bool_param params ''allow_multiple'' False) of
                       Inl e \<Rightarrow> (ws, Inr (Edit_rejected 0 e))
                     | Inr r \<Rightarrow>
                         (let ws = record_ws file_path (Some current_content) Op_edit ws;
                              (ws, ok) = ws_write F sd file_path (er_content r) ws
                          in (ws, Inr (if ok then Edited [r] else Save_failed)))))
      | _ \<Rightarrow> (ws, Inl Value_error))"

text \<open>The loop over the edits: the buffer, the edits applied and the history so far.  Each edit records
  the buffer first; a failed edit takes its own record back.\<close>

fun edit_loop ::
  "repair_fn option \<Rightarrow> string \<Rightarrow> nat \<Rightarrow> json_dict list \<Rightarrow> string \<Rightarrow> edit_result list \<Rightarrow> history_entry list
     \<Rightarrow> history_entry list \<times> (edit_tool_result, string \<times> edit_result list) result" where
  "edit_loop repair file_path i [] buffer applied h = (h, Inr (buffer, applied))"
| "edit_loop repair file_path i (edit # edits) buffer applied h =
     (case resolve_strings edit of
        (Some old_str, Some new_str) \<Rightarrow>
          (let h = record_edit file_path (Some buffer) Op_edit h
           in case apply_edit repair file_path buffer old_str new_str
                     (int_param edit ''expected_occurrence'' 1) (bool_param edit ''allow_multiple'' False) of
                Inl e \<Rightarrow> (snd (pop_latest file_path h), Inl (Edit_rejected i e))
              | Inr r \<Rightarrow> edit_loop repair file_path (Suc i) edits (er_content r) (applied @ [r]) h)
      | _ \<Rightarrow> (h, Inl (Edit_incomplete i)))"

definition multi_edit_tool ::
  "'w files_api \<Rightarrow> repair_fn option \<Rightarrow> string option \<Rightarrow> string \<Rightarrow> json_dict list \<Rightarrow> 'w workspace
     \<Rightarrow> 'w workspace \<times> (tool_exc, edit_tool_result) result" where
  "multi_edit_tool F repair sd file_path edits ws =
     (if file_path = [] \<or> edits = [] then (ws, Inl Value_error)
      else case fa_read F (ws_files ws) sd file_path of
        None \<Rightarrow> (ws, Inr File_missing)
      | Some current_content \<Rightarrow>
          (case edit_loop repair file_path 0 edits current_content [] (ws_history ws) of
             (h, Inl failure) \<Rightarrow> (ws\<lparr>ws_history := h\<rparr>, Inr failure)
           | (h, Inr (buffer, applied)) \<Rightarrow>
               (let (ws, ok) = ws_write F sd file_path buffer (ws\<lparr>ws_history := h\<rparr>)
                in (ws, Inr (if ok then Edited applied else Save_failed)))))"

section \<open>History\<close>

lemma record_edit_bound: "length h \<le> default_capacity \<Longrightarrow> length (record_edit p c op h) \<le> default_capacity"
  by (simp add: record_edit_def Let_def)

lemma record_edit_snoc:
  "length h < default_capacity \<Longrightarrow> record_edit p c op h = h @ [\<lparr>he_path = p, he_prev = c, he_op = op\<rparr>]"
  by (simp add: record_edit_def Let_def)

lemma pop_newest_split:
  "pop_newest p es = (Some e, rest) \<Longrightarrow> \<exists>a b. es = a @ e # b \<and> rest = a @ b \<and> he_path e = p \<and> p \<notin> he_path ` set a"
proof (induction p es arbitrary: rest rule: pop_newest.induct)
  case (2 path x es)
  show ?case
  proof (cases "he_path x = path")
    case True
    with 2(2) have "e = x" "rest = es" by auto
    with True show ?thesis by (intro exI[of _ "[]"] exI[of _ es]) auto
  next
    case False
    with 2(2) obtain r' where r: "pop_newest path es = (Some e, r')" "rest = x # r'"
      by (auto split: prod.splits)
    from 2(1)[OF False r(1)] obtain a b where "es = a @ e # b" "r' = a @ b" "he_path e = path" "path \<notin> he_path ` set a"
      by auto
    with r False show ?thesis by (intro exI[of _ "x # a"] exI[of _ b]) auto
  qed
qed simp

lemma pop_newest_append:
  "p \<notin> he_path ` set a \<Longrightarrow> he_path e = p \<Longrightarrow> pop_newest p (a @ e # b) = (Some e, a @ b)"
  by (induction a) auto

text \<open>The newest entry of a path is the last one recorded for it.\<close>

lemma pop_latest_newest:
  "p \<notin> he_path ` set b \<Longrightarrow> he_path e = p \<Longrightarrow> pop_latest p (a @ e # b) = (Some e, a @ b)"
  by (simp add: pop_latest_def pop_newest_append)

lemma pop_record:
  "length h < default_capacity \<Longrightarrow>
   pop_latest p (record_edit p c op h) = (Some \<lparr>he_path = p, he_prev = c, he_op = op\<rparr>, h)"
  using pop_latest_newest[of p "[]" "\<lparr>he_path = p, he_prev = c, he_op = op\<rparr>" h] by (simp add: record_edit_snoc)

lemma pop_newest_None: "pop_newest p es = (None, rest) \<Longrightarrow> rest = es"
  by (induction p es arbitrary: rest rule: pop_newest.induct) (auto split: prod.splits if_splits)

lemma pop_latest_bound: "length (snd (pop_latest p h)) \<le> length h"
proof (cases "pop_newest p (rev h)")
  case (Pair r rest)
  then show ?thesis
    using pop_newest_split[of p "rev h" "the r" rest] pop_newest_None[of p "rev h" rest]
    by (cases r) (auto simp: pop_latest_def dest: arg_cong[of _ _ length])
qed

section \<open>The patch tool\<close>

subsection \<open>Paths\<close>

lemma normalize_parts_plain:
  "normalize_parts acc parts = Some out \<Longrightarrow> list_all plain_component acc
   \<Longrightarrow> (\<forall>p \<in> set parts. CHR ''/'' \<notin> set p) \<Longrightarrow> list_all plain_component out"
proof (induction acc parts rule: normalize_parts.induct)
  case (2 acc part parts)
  have "list_all plain_component (butlast acc)"
    using "2.prems"(2) by (auto simp: list_all_iff dest: in_set_butlastD)
  moreover have "plain_component part" if "part \<noteq> []" "part \<noteq> ''.''" "part \<noteq> ''..''"
    using that "2.prems"(3) by (simp add: plain_component_def)
  ultimately show ?case using 2 by (auto split: if_splits)
qed simp

lemma find_sub_parts_free:
  "find_sub ''/'' s = Some (a, b) \<Longrightarrow> CHR ''/'' \<notin> set a"
  using find_sub_before[of "''/''" s a b] by (auto simp: in_set_conv_decomp sublist_def)

lemma split_parts_free: "p \<in> set (split_sub ''/'' s) \<Longrightarrow> CHR ''/'' \<notin> set p"
  using split_sub_parts[of "''/''" p s] by (auto simp: in_set_conv_decomp sublist_def)

lemma resolve_rel_plain:
  assumes "resolve_rel cwd path = Some p" "\<not> is_absolute cwd" "\<not> is_absolute path"
  shows "plain_path p"
proof -
  have root: "path_root s = []" if "\<not> is_absolute s" for s
    using that by (cases s) (auto simp: path_root_def is_absolute_def)
  from assms obtain out where out: "p = py_join ''/'' out"
      "normalize_parts [] (path_comps cwd @ path_comps path) = Some out"
    by (auto simp: resolve_rel_def path_parts_def root split: if_splits)
  have "\<forall>c \<in> set (path_comps cwd @ path_comps path). CHR ''/'' \<notin> set c"
    by (auto simp: path_comps_def dest: split_parts_free)
  with normalize_parts_plain[OF out(2)] out(1) show ?thesis by (auto simp: plain_path_def)
qed

subsection \<open>What a plan says\<close>

text \<open>The paths a change touches, what it makes of them, and what it records.\<close>

definition change_writes :: "change \<Rightarrow> (string \<times> string option) list" where
  "change_writes ch =
     (case ch_op ch of
        Create \<Rightarrow> [(ch_path ch, ch_content ch)]
      | Update \<Rightarrow> [(ch_path ch, ch_new_content ch)]
      | Delete \<Rightarrow> [(ch_path ch, None)]
      | Move \<Rightarrow> [(ch_path ch, ch_prev_at_source ch), (text_or_empty (ch_source ch), None)])"

definition change_records :: "change \<Rightarrow> history_entry list" where
  "change_records ch =
     (let entry = (\<lambda>p c op. \<lparr>he_path = p, he_prev = c, he_op = op\<rparr>)
      in case ch_op ch of
           Create \<Rightarrow> [entry (ch_path ch) None Op_write]
         | Update \<Rightarrow> [entry (ch_path ch) (ch_prev_at_path ch) Op_patch]
         | Delete \<Rightarrow> [entry (ch_path ch) (ch_prev_at_path ch) Op_delete]
         | Move \<Rightarrow> [entry (text_or_empty (ch_source ch)) (ch_prev_at_source ch) Op_move_src,
                     entry (ch_path ch) None Op_move_dst])"

definition touched :: "change list \<Rightarrow> string list" where
  "touched chs = concat (map (\<lambda>ch. map fst (change_writes ch)) chs)"

lemma touched_simps [simp]:
  "touched [] = []" "touched (ch # chs) = map fst (change_writes ch) @ touched chs"
  "touched (chs @ chs') = touched chs @ touched chs'"
  by (simp_all add: touched_def)

text \<open>\<open>new\<close> is an edit of \<open>old\<close>.\<close>

definition edit_of :: "repair_fn \<Rightarrow> string \<Rightarrow> string \<Rightarrow> string \<Rightarrow> bool" where
  "edit_of llm_repair path old new \<longleftrightarrow>
     (\<exists>old_str new_str expected multiple r.
        apply_edit (Some llm_repair) path old old_str new_str expected multiple = Inr r \<and> new = er_content r)"

text \<open>A change that passed its checks on the files \<open>w\<close>.\<close>

definition well_planned :: "'w files_api \<Rightarrow> repair_fn \<Rightarrow> string option \<Rightarrow> 'w \<Rightarrow> change \<Rightarrow> bool" where
  "well_planned F llm_repair sd w ch \<longleftrightarrow>
     ch_prev_at_path ch = fa_read F w sd (ch_path ch)
     \<and> (case ch_op ch of
          Create \<Rightarrow> ch_source ch = None \<and> ch_prev_at_path ch = None \<and> ch_content ch \<noteq> None
        | Update \<Rightarrow> ch_source ch = None
            \<and> (\<exists>old new. ch_prev_at_path ch = Some old \<and> ch_new_content ch = Some new
                  \<and> edit_of llm_repair (ch_path ch) old new)
        | Delete \<Rightarrow> ch_source ch = None \<and> ch_prev_at_path ch \<noteq> None
        | Move \<Rightarrow> ch_prev_at_path ch = None
            \<and> (\<exists>s c. ch_source ch = Some s \<and> s \<noteq> [] \<and> ch_prev_at_source ch = Some c \<and> fa_read F w sd s = Some c))"

lemma validate_entry_accepted:
  assumes "validate_entry entry i = Accepted ch"
  shows "ch_index ch = i \<and> (ch_source ch = None) = (ch_op ch \<noteq> Move)
     \<and> (ch_op ch = Create \<longrightarrow> json_text (jget (case entry of J_obj e \<Rightarrow> e | _ \<Rightarrow> []) ''content'') \<noteq> None)"
  using assms unfolding validate_entry_def Let_def
  by (cases entry) (auto split: json.splits option.splits change_op.splits if_splits)

lemma plan_update_accepted:
  assumes "plan_update llm_repair e ch = Accepted ch'"
  shows "\<exists>new. ch' = ch\<lparr>ch_new_content := Some new\<rparr>
     \<and> edit_of llm_repair (ch_path ch) (the (ch_prev_at_path ch)) new"
proof -
  from assms obtain n r where
    "apply_edit (Some llm_repair) (ch_path ch) (the (ch_prev_at_path ch))
       (the (json_text (jget e ''old_str''))) (the (json_text (jget e ''new_str''))) n
       (truthy (jget_default e ''allow_multiple'' (J_bool False))) = Inr r"
    "ch' = ch\<lparr>ch_new_content := Some (er_content r)\<rparr>"
    by (auto simp: plan_update_def split: option.splits sum.splits)
  then show ?thesis unfolding edit_of_def by blast
qed

lemma plan_change_well:
  assumes "plan_change F llm_repair sd cwd w entry i = Accepted ch"
  shows "well_planned F llm_repair sd w ch \<and> ch_index ch = i"
proof -
  let ?e = "case entry of J_obj e \<Rightarrow> e | _ \<Rightarrow> []"
  from assms obtain ch0 ch1 where
    v: "validate_entry entry i = Accepted ch0" and r: "resolve_change cwd ch0 = Accepted ch1"
    and c: "check_change llm_repair ?e (read_change F sd w ch1) = Accepted ch"
    by (auto simp: plan_change_def verdict_bind_def split: verdict.splits)
  note v' = validate_entry_accepted[OF v]
  have r': "ch_op ch1 = ch_op ch0" "ch_index ch1 = ch_index ch0" "(ch_source ch1 = None) = (ch_source ch0 = None)"
    using r by (auto simp: resolve_change_def split: option.splits)
  show ?thesis
  proof (cases "ch_op ch0 = Update")
    case True
    with c v' r' have "plan_update llm_repair ?e (read_change F sd w ch1) = Accepted ch"
      "ch_prev_at_path (read_change F sd w ch1) \<noteq> None"
      by (auto simp: check_change_def read_change_def split: if_splits)
    with plan_update_accepted[OF this(1)] True v' r' show ?thesis
      by (auto simp: read_change_def well_planned_def)
  next
    case False
    with c v' r' show ?thesis
      by (auto simp: check_change_def read_change_def well_planned_def
          split: change_op.splits if_splits option.splits)
  qed
qed

lemma touched_path: "well_planned F llm_repair sd w ch \<Longrightarrow>
  map fst (change_writes ch) = ch_path ch # (case ch_source ch of None \<Rightarrow> [] | Some s \<Rightarrow> [s])
  \<and> ch_source ch \<noteq> Some []"
  by (auto simp: well_planned_def change_writes_def text_or_empty_def split: change_op.splits)

definition plan_ok :: "'w files_api \<Rightarrow> repair_fn \<Rightarrow> string option \<Rightarrow> 'w \<Rightarrow> patch_plan \<Rightarrow> bool" where
  "plan_ok F llm_repair sd w plan \<longleftrightarrow>
     (\<forall>ch \<in> set (pp_staged plan). well_planned F llm_repair sd w ch)
     \<and> distinct (touched (pp_staged plan))
     \<and> set (touched (pp_staged plan)) \<subseteq> fst ` set (pp_resolved plan)"

lemma plan_ok_error [simp]: "plan_ok F llm_repair sd w (add_error i p plan) = plan_ok F llm_repair sd w plan"
  by (simp add: plan_ok_def add_error_def)

lemma register_change_ok:
  assumes "plan_ok F llm_repair sd w plan" "well_planned F llm_repair sd w ch"
  shows "plan_ok F llm_repair sd w (register_change ch plan)"
proof -
  note t = touched_path[OF assms(2)]
  have fresh: "p \<notin> set (touched (pp_staged plan))" if "map_of (pp_resolved plan) p = None" for p
    using assms(1) that unfolding plan_ok_def map_of_eq_None_iff by blast
  show ?thesis
  proof (cases "map_of (pp_resolved plan) (ch_path ch)")
    case None
    show ?thesis
    proof (cases "ch_source ch")
      case None': None
      with None assms t fresh[OF None] show ?thesis
        by (auto simp: register_change_def plan_ok_def Let_def)
    next
      case (Some s)
      with None assms t fresh[OF None] fresh[of s] show ?thesis
        by (auto simp: register_change_def plan_ok_def Let_def add_error_def split: option.splits if_splits)
    qed
  qed (use assms in \<open>simp add: register_change_def\<close>)
qed

lemma phase1_ok:
  "phase1_validate F llm_repair sd cwd w i entries plan = Inr plan' \<Longrightarrow> plan_ok F llm_repair sd w plan
   \<Longrightarrow> plan_ok F llm_repair sd w plan'"
  by (induction F llm_repair sd cwd w i entries plan rule: phase1_validate.induct)
     (auto split: verdict.splits intro: register_change_ok dest: plan_change_well)

lemma no_plan_ok [simp]: "plan_ok F llm_repair sd w no_plan"
  by (simp add: plan_ok_def no_plan_def)

subsection \<open>What the second phase does\<close>

text \<open>The files after the writes \<open>ps\<close>, in any order when their places differ.\<close>

definition overwrite ::
  "(string \<Rightarrow> 'l option) \<Rightarrow> (string \<times> string option) list \<Rightarrow> ('l \<Rightarrow> string option) \<Rightarrow> 'l \<Rightarrow> string option" where
  "overwrite loc ps v = fold (\<lambda>(p, c) v. case loc p of None \<Rightarrow> v | Some l \<Rightarrow> v(l := c)) ps v"

lemma overwrite_simps [simp]:
  "overwrite loc [] v = v"
  "overwrite loc ((p, c) # ps) v = overwrite loc ps (case loc p of None \<Rightarrow> v | Some l \<Rightarrow> v(l := c))"
  "overwrite loc (ps @ qs) v = overwrite loc qs (overwrite loc ps v)"
  by (simp_all add: overwrite_def)

lemma overwrite_other: "(\<forall>p \<in> fst ` set ps. loc p \<noteq> Some l) \<Longrightarrow> overwrite loc ps v l = v l"
  by (induction ps arbitrary: v) (auto split: option.splits)

lemma overwrite_lookup:
  "(p, c) \<in> set ps \<Longrightarrow> distinct (map fst ps) \<Longrightarrow> loc p = Some l
   \<Longrightarrow> (\<forall>q \<in> fst ` set ps. loc q = Some l \<longrightarrow> q = p) \<Longrightarrow> overwrite loc ps v l = c"
proof (induction ps arbitrary: v)
  case (Cons x ps)
  obtain q d where x: "x = (q, d)" by (cases x) auto
  show ?case
  proof (cases "q = p")
    case True
    then have "(p, c) = (q, d)" using Cons.prems(1,2) x by (auto simp: image_iff)
    moreover have "\<forall>r \<in> fst ` set ps. loc r \<noteq> Some l"
    proof
      fix r assume r: "r \<in> fst ` set ps"
      moreover have "p \<notin> fst ` set ps" using Cons.prems(2) x True by simp
      ultimately have "r \<noteq> p" by blast
      moreover have "loc r = Some l \<longrightarrow> r = p" 
        by (rule bspec[OF Cons.prems(4)]) (use r in simp)
      ultimately show "loc r \<noteq> Some l" by blast
    qed
    ultimately show ?thesis using Cons.prems(3) x by (simp add: overwrite_other)
  next
    case False
    have "(p, c) \<in> set ps" using Cons.prems(1) x False by simp
    moreover have "distinct (map fst ps)" using Cons.prems(2) by simp
    moreover have "\<forall>r \<in> fst ` set ps. loc r = Some l \<longrightarrow> r = p"
      by (rule ballI, rule bspec[OF Cons.prems(4)]) simp
    ultimately show ?thesis unfolding x overwrite_simps by (rule Cons.IH[OF _ _ Cons.prems(3)])
  qed
qed simp

definition record_all :: "history_entry list \<Rightarrow> history_entry list \<Rightarrow> history_entry list" where
  "record_all es h = fold (\<lambda>e. record_edit (he_path e) (he_prev e) (he_op e)) es h"

lemma record_all_simps [simp]:
  "record_all [] h = h" "record_all (e # es) h = record_all es (record_edit (he_path e) (he_prev e) (he_op e) h)"
  "record_all (es @ fs) h = record_all fs (record_all es h)"
  by (simp_all add: record_all_def)

lemma record_all_fits: "length (record_all es h) < default_capacity \<Longrightarrow> record_all es h = h @ es"
proof (induction es rule: rev_induct)
  case (snoc e es)
  then have "length (record_all es h) < default_capacity"
    by (simp add: record_edit_def Let_def default_capacity_def)
  with snoc.IH show ?case by (simp add: record_edit_snoc)
qed simp

lemma ws_simps [simp]:
  "ws_history (fst (ws_write F sd p c ws)) = ws_history ws" "ws_history (fst (ws_delete F p ws)) = ws_history ws"
  "ws_files (record_ws p q op ws) = ws_files ws"
  "ws_history (record_ws p q op ws) = record_edit p q op (ws_history ws)"
  by (simp_all add: ws_write_def ws_delete_def record_ws_def split: prod.splits)

lemma apply_change_history:
  assumes "apply_change F sd ch ws = (ws', f)"
  shows "ws_history ws' = record_all (change_records ch) (ws_history ws)"
proof -
  have w: "ws_write F sd p c ws = (ws', b) \<Longrightarrow> ws_history ws' = ws_history ws"
    and d: "ws_delete F p ws = (ws', b) \<Longrightarrow> ws_history ws' = ws_history ws" for p c ws ws' b
    using ws_simps(1)[of F sd p c ws] ws_simps(2)[of F p ws] by auto
  from assms show ?thesis
    unfolding apply_change_def change_records_def Let_def
    by (auto split: change_op.splits prod.splits if_splits dest!: w d)
qed

context project_files
begin

lemma ws_write_True:
  "ws_write F sd p c ws = (ws', True) \<Longrightarrow>
   \<exists>l. locate sd p = Some l \<and> view (ws_files ws') = (view (ws_files ws))(l \<mapsto> c)"
  by (auto simp: ws_write_def split: prod.splits dest: write_True)

lemma ws_write_False: "ws_write F sd p c ws = (ws', False) \<Longrightarrow> view (ws_files ws') = view (ws_files ws)"
  by (auto simp: ws_write_def split: prod.splits dest: write_False)

lemma ws_delete_True:
  "ws_delete F p ws = (ws', True) \<Longrightarrow>
   \<exists>l. locate None p = Some l \<and> view (ws_files ws') = (view (ws_files ws))(l := None)"
  by (auto simp: ws_delete_def split: prod.splits dest: delete_True)

lemma ws_delete_False: "ws_delete F p ws = (ws', False) \<Longrightarrow> view (ws_files ws') = view (ws_files ws)"
  by (auto simp: ws_delete_def split: prod.splits dest: delete_False)

lemmas ws_effects = ws_write_True ws_write_False ws_delete_True ws_delete_False

lemma apply_change_done:
  assumes "apply_change F None ch ws = (ws', None)" "well_planned F llm_repair sd w ch"
  shows "view (ws_files ws') = overwrite (locate None) (change_writes ch) (view (ws_files ws))
     \<and> (\<forall>p \<in> fst ` set (change_writes ch). locate None p \<noteq> None)"
  using assms
  by (cases "ch_op ch")
     (auto simp: apply_change_def change_writes_def well_planned_def text_or_empty_def Let_def
        split: prod.splits if_splits dest!: ws_effects)

lemma apply_change_frame:
  assumes "apply_change F None ch ws = (ws', f)" "\<forall>p \<in> fst ` set (change_writes ch). locate None p \<noteq> Some l"
  shows "view (ws_files ws') l = view (ws_files ws) l"
proof -
  have b: "(x = True \<Longrightarrow> P) \<Longrightarrow> (x = False \<Longrightarrow> P) \<Longrightarrow> P" for x P by blast
  have w: "view (ws_files ws2) l = view (ws_files ws1) l"
    if "ws_write F None p c ws1 = (ws2, ok)" "locate None p \<noteq> Some l" for ws1 ws2 p c ok
    using that ws_write_True[of None p c ws1 ws2] ws_write_False[of None p c ws1 ws2] by (cases ok) auto
  have d: "view (ws_files ws2) l = view (ws_files ws1) l"
    if "ws_delete F p ws1 = (ws2, ok)" "locate None p \<noteq> Some l" for ws1 ws2 p ok
    using that ws_delete_True[of p ws1 ws2] ws_delete_False[of p ws1 ws2] by (cases ok) auto
  show ?thesis
    using assms unfolding apply_change_def change_writes_def Let_def
    by (auto split: change_op.splits prod.splits if_splits dest!: w d)
qed

lemma phase2_done:
  assumes "phase2_apply F None staged ws = (ws', None)" "\<forall>ch \<in> set staged. well_planned F llm_repair sd w ch"
  shows "view (ws_files ws') = overwrite (locate None) (concat (map change_writes staged)) (view (ws_files ws))
     \<and> (\<forall>p \<in> set (touched staged). locate None p \<noteq> None)"
  using assms
proof (induction staged arbitrary: ws)
  case (Cons ch staged)
  then obtain ws1 where 1: "apply_change F None ch ws = (ws1, None)" "phase2_apply F None staged ws1 = (ws', None)"
    by (auto split: prod.splits option.splits)
  from Cons.IH[OF 1(2)] Cons.prems(2) apply_change_done[OF 1(1), of llm_repair sd w] show ?case by auto
qed simp

lemma phase2_prefix:
  assumes "phase2_apply F None staged ws = (ws', f)"
  shows "\<exists>chs. prefix chs staged \<and> (f = None \<longrightarrow> chs = staged)
     \<and> ws_history ws' = record_all (concat (map change_records chs)) (ws_history ws)
     \<and> (\<forall>l. (\<forall>p \<in> set (touched chs). locate None p \<noteq> Some l) \<longrightarrow> view (ws_files ws') l = view (ws_files ws) l)"
  using assms
proof (induction staged arbitrary: ws)
  case (Cons ch staged)
  obtain ws1 g where 1: "apply_change F None ch ws = (ws1, g)" by fastforce
  note h = apply_change_history[OF 1] and frame = apply_change_frame[OF 1]
  show ?case
  proof (cases g)
    case None
    with 1 Cons.prems have "phase2_apply F None staged ws1 = (ws', f)" by simp
    from Cons.IH[OF this] obtain chs where "prefix chs staged" "f = None \<longrightarrow> chs = staged"
      "ws_history ws' = record_all (concat (map change_records chs)) (ws_history ws1)"
      "\<forall>l. (\<forall>p \<in> set (touched chs). locate None p \<noteq> Some l) \<longrightarrow> view (ws_files ws') l = view (ws_files ws1) l"
      by blast
    then show ?thesis using h frame by (intro exI[of _ "ch # chs"]) auto
  next
    case (Some x)
    with 1 Cons.prems have "ws' = ws1" "f = Some x" by auto
    then show ?thesis using h frame by (intro exI[of _ "[ch]"]) auto
  qed
qed simp

text \<open>How a call of the patch tool ends.\<close>

lemma patch_cases:
  assumes "apply_patch_tool F llm_repair None params ws = (ws', out)"
  obtains (untouched) "ws' = ws" "\<forall>f. out \<noteq> Inr (Runtime_failure f)" "\<forall>chs. out \<noteq> Inr (Applied chs)"
  | (phase2) staged f where
      "\<forall>ch \<in> set staged. well_planned F llm_repair None (ws_files ws) ch" "distinct (touched staged)"
      "phase2_apply F None staged ws = (ws', f)"
      "out = Inr (case f of None \<Rightarrow> Applied staged | Some x \<Rightarrow> Runtime_failure x)"
proof -
  have ok: "plan_ok F llm_repair None (ws_files ws) plan"
    if "phase1_validate F llm_repair None cwd (ws_files ws) 0 cs no_plan = Inr plan" for cwd cs plan
    by (rule phase1_ok[OF that no_plan_ok])
  have "ws' = ws \<and> (\<forall>f. out \<noteq> Inr (Runtime_failure f)) \<and> (\<forall>chs. out \<noteq> Inr (Applied chs))
    \<or> (\<exists>cwd cs plan f. phase1_validate F llm_repair None cwd (ws_files ws) 0 cs no_plan = Inr plan
          \<and> phase2_apply F None (pp_staged plan) ws = (ws', f)
          \<and> out = Inr (case f of None \<Rightarrow> Applied (pp_staged plan) | Some x \<Rightarrow> Runtime_failure x))"
    using assms unfolding apply_patch_tool_def
    by (auto simp del: phase1_validate.simps phase2_apply.simps
        split: json.splits list.splits sum.splits if_splits prod.splits option.splits)
  then show thesis
    using untouched phase2 ok unfolding plan_ok_def by blast
qed

lemma patch_applied:
  assumes "apply_patch_tool F llm_repair None params ws = (ws', Inr (Applied chs))"
    and "\<forall>p \<in> set (touched chs). plain_path p"
  shows "\<forall>(p, c) \<in> set (concat (map change_writes chs)). fa_read F (ws_files ws') None p = c"
    and "\<forall>l. (\<forall>p \<in> set (touched chs). locate None p \<noteq> Some l) \<longrightarrow> view (ws_files ws') l = view (ws_files ws) l"
    and "\<forall>ch \<in> set chs. well_planned F llm_repair None (ws_files ws) ch"
    and "distinct (touched chs)"
proof -
  from assms(1) have well: "\<forall>ch \<in> set chs. well_planned F llm_repair None (ws_files ws) ch"
      and dist: "distinct (touched chs)" and p2: "phase2_apply F None chs ws = (ws', None)"
    by (rule patch_cases; auto split: option.splits)+
  note fin = phase2_done[OF p2 well]
  have t: "touched chs = map fst (concat (map change_writes chs))"
    by (simp add: touched_def map_concat comp_def)
  show "\<forall>l. (\<forall>p \<in> set (touched chs). locate None p \<noteq> Some l) \<longrightarrow> view (ws_files ws') l = view (ws_files ws) l"
    using fin overwrite_other[of "concat (map change_writes chs)" "locate None" _ "view (ws_files ws)"]
    unfolding t set_map by simp
  show "\<forall>(p, c) \<in> set (concat (map change_writes chs)). fa_read F (ws_files ws') None p = c"
  proof clarify
    fix p c assume pc: "(p, c) \<in> set (concat (map change_writes chs))"
    then have p: "p \<in> set (touched chs)" unfolding t by force
    then obtain l where l: "locate None p = Some l" using fin by blast
    have "\<forall>q \<in> fst ` set (concat (map change_writes chs)). locate None q = Some l \<longrightarrow> q = p"
    proof (intro ballI impI)
      fix q assume "q \<in> fst ` set (concat (map change_writes chs))" and q: "locate None q = Some l"
      then have "q \<in> set (touched chs)" unfolding t by simp
      with q l p assms(2) show "q = p" by (intro locate_inj[of q p None l]) blast+
    qed
    with overwrite_lookup[of p c _ "locate None" l, OF pc dist[unfolded t] l] show "fa_read F (ws_files ws') None p = c"
      using fin l by (simp add: read_view)
  qed
  show "\<forall>ch \<in> set chs. well_planned F llm_repair None (ws_files ws) ch" by (rule well)
  show "distinct (touched chs)" by (rule dist)
qed

lemma records_of_change:
  assumes "well_planned F llm_repair sd w ch" "e \<in> set (change_records ch)"
  shows "he_path e \<in> fst ` set (change_writes ch) \<and> he_prev e = fa_read F w sd (he_path e)"
  using assms
  by (auto simp: well_planned_def change_records_def change_writes_def text_or_empty_def Let_def split: change_op.splits)

lemma records_distinct:
  "distinct (touched chs) \<Longrightarrow> distinct (map he_path (concat (map change_records chs)))
   \<and> set (map he_path (concat (map change_records chs))) = set (touched chs)"
proof (induction chs)
  case (Cons ch chs)
  moreover have "distinct (map fst (change_writes ch)) \<Longrightarrow> distinct (map he_path (change_records ch))"
    "set (map he_path (change_records ch)) = set (map fst (change_writes ch))"
    by (auto simp: change_records_def change_writes_def Let_def split: change_op.splits)
  ultimately show ?case by (simp del: set_map)
qed simp

text \<open>The undo of a path the batch recorded.\<close>

lemma undo_restores:
  assumes patch: "apply_patch_tool F llm_repair None params ws = (ws', out)"
    and fits: "length (ws_history ws') < default_capacity"
    and e: "e \<in> set (drop (length (ws_history ws)) (ws_history ws'))"
    and undo: "file_undo_tool F None (he_path e) ws' = (ws'', Inr Undone)"
  shows "fa_read F (ws_files ws'') None (he_path e) = fa_read F (ws_files ws) None (he_path e)"
    and "\<forall>l. locate None (he_path e) \<noteq> Some l \<longrightarrow> view (ws_files ws'') l = view (ws_files ws') l"
proof -
  from patch have "\<exists>chs. ws_history ws' = record_all (concat (map change_records chs)) (ws_history ws)
      \<and> distinct (touched chs) \<and> (\<forall>ch \<in> set chs. well_planned F llm_repair None (ws_files ws) ch)"
  proof (cases rule: patch_cases)
    case untouched
    then show ?thesis by (intro exI[of _ "[]"]) simp
  next
    case (phase2 staged f)
    from phase2_prefix[OF phase2(3)] obtain chs where chs: "prefix chs staged"
      "ws_history ws' = record_all (concat (map change_records chs)) (ws_history ws)" by blast
    then obtain rest where "staged = chs @ rest" by (auto simp: prefix_def)
    with phase2(1,2) chs(2) show ?thesis by (intro exI[of _ chs]) auto
  qed
  then obtain chs where h: "ws_history ws' = record_all (concat (map change_records chs)) (ws_history ws)"
    and chs: "distinct (touched chs)" "\<forall>ch \<in> set chs. well_planned F llm_repair None (ws_files ws) ch"
    by blast
  have h': "ws_history ws' = ws_history ws @ concat (map change_records chs)"
    using record_all_fits fits h by metis
  with e have "e \<in> set (concat (map change_records chs))" by simp
  then obtain a b where ab: "concat (map change_records chs) = a @ e # b"
    by (meson split_list)
  have "he_path e \<notin> he_path ` set b" using records_distinct[OF chs(1)] ab by simp
  then have pop: "pop_latest (he_path e) (ws_history ws') = (Some e, ws_history ws @ a @ b)"
    using pop_latest_newest[of "he_path e" b e "ws_history ws @ a"] h' ab by simp
  have prev: "he_prev e = fa_read F (ws_files ws) None (he_path e)"
    using \<open>e \<in> set (concat (map change_records chs))\<close> chs(2) records_of_change by auto
  let ?ws = "ws'\<lparr>ws_history := ws_history ws @ a @ b\<rparr>"
  have "\<exists>l. locate None (he_path e) = Some l \<and> view (ws_files ws'') = (view (ws_files ws'))(l := he_prev e)"
  proof (cases "he_prev e")
    case None
    with undo pop obtain x where "ws_delete F (he_path e) ?ws = (ws'', True)"
      by (auto simp: file_undo_tool_def split: if_splits prod.splits)
    from ws_delete_True[OF this] None show ?thesis by simp
  next
    case (Some c)
    with undo pop have "ws_write F None (he_path e) c ?ws = (ws'', True)"
      by (auto simp: file_undo_tool_def split: if_splits prod.splits)
    from ws_write_True[OF this] Some show ?thesis by simp
  qed
  then show "fa_read F (ws_files ws'') None (he_path e) = fa_read F (ws_files ws) None (he_path e)"
    "\<forall>l. locate None (he_path e) \<noteq> Some l \<longrightarrow> view (ws_files ws'') l = view (ws_files ws') l"
    using prev by (auto simp: read_view)
qed

end

subsection \<open>The local runtime\<close>



section \<open>Edits of one file\<close>

fun undo_times ::
  "'w files_api \<Rightarrow> string option \<Rightarrow> string \<Rightarrow> nat \<Rightarrow> 'w workspace \<Rightarrow> 'w workspace \<times> bool" where
  "undo_times F sd p 0 ws = (ws, True)"
| "undo_times F sd p (Suc k) ws =
     (case file_undo_tool F sd p ws of
        (ws, Inr Undone) \<Rightarrow> undo_times F sd p k ws
      | (ws, _) \<Rightarrow> (ws, False))"

abbreviation edit_entry :: "string \<Rightarrow> string \<Rightarrow> history_entry" where
  "edit_entry p c \<equiv> \<lparr>he_path = p, he_prev = Some c, he_op = Op_edit\<rparr>"

text \<open>What the loop records: the buffer before each edit.\<close>

lemma edit_loop_history:
  assumes "edit_loop repair p i edits buffer applied h = (h', Inr (buffer', rs))"
  shows "\<exists>bs. length bs = length edits \<and> h' = record_all (map (edit_entry p) bs) h
     \<and> (edits = [] \<longrightarrow> buffer' = buffer) \<and> (edits \<noteq> [] \<longrightarrow> hd bs = buffer)
     \<and> length rs = length applied + length edits \<and> (edits \<noteq> [] \<longrightarrow> buffer' = er_content (last rs))"
  using assms
proof (induction repair p i edits buffer applied h rule: edit_loop.induct)
  case (2 repair p i edit edits buffer applied h)
  from "2.prems" obtain old new r where s: "resolve_strings edit = (Some old, Some new)"
    and r: "apply_edit repair p buffer old new (int_param edit ''expected_occurrence'' 1)
        (bool_param edit ''allow_multiple'' False) = Inr r"
    and l: "edit_loop repair p (Suc i) edits (er_content r) (applied @ [r]) (record_edit p (Some buffer) Op_edit h)
        = (h', Inr (buffer', rs))"
    by (auto simp: Let_def split: prod.splits option.splits sum.splits)
  from "2.IH"[OF s[symmetric] refl refl refl r l] obtain bs where bs: "length bs = length edits"
    "h' = record_all (map (edit_entry p) bs) (record_edit p (Some buffer) Op_edit h)"
    "edits = [] \<longrightarrow> buffer' = er_content r" "length rs = length (applied @ [r]) + length edits"
    "edits \<noteq> [] \<longrightarrow> buffer' = er_content (last rs)" by blast
  have "edits = [] \<Longrightarrow> rs = applied @ [r]" using l by auto
  with bs show ?case by (intro exI[of _ "buffer # bs"]) auto
qed auto

lemma edit_loop_failure: "edit_loop repair p i edits buffer applied h \<noteq> (h', Inl (Edited rs))"
  by (induction repair p i edits buffer applied h rule: edit_loop.induct)
     (auto simp: Let_def split: option.splits sum.splits prod.splits)

context project_files
begin

lemma undo_times_entries:
  "undo_times F sd p (length bs) ws = (ws', True) \<Longrightarrow> ws_history ws = h @ map (edit_entry p) bs
   \<Longrightarrow> ws_history ws' = h \<and> (bs \<noteq> [] \<longrightarrow> fa_read F (ws_files ws') sd p = Some (hd bs))"
proof (induction bs arbitrary: ws rule: rev_induct)
  case (snoc b bs)
  have pop: "pop_latest p (ws_history ws) = (Some (edit_entry p b), h @ map (edit_entry p) bs)"
    using pop_latest_newest[of p "[]" "edit_entry p b" "h @ map (edit_entry p) bs"] snoc.prems(2) by simp
  from snoc.prems(1) obtain ws1 where u: "file_undo_tool F sd p ws = (ws1, Inr Undone)"
    and rest: "undo_times F sd p (length bs) ws1 = (ws', True)"
    by (auto split: prod.splits sum.splits undo_result.splits)
  from u pop have w: "ws_write F sd p b (ws\<lparr>ws_history := h @ map (edit_entry p) bs\<rparr>) = (ws1, True)"
    by (auto simp: file_undo_tool_def split: if_splits prod.splits)
  then have hist: "ws_history ws1 = h @ map (edit_entry p) bs"
    using ws_simps(1)[of F sd p b "ws\<lparr>ws_history := h @ map (edit_entry p) bs\<rparr>"] by simp
  from ws_write_True[OF w] have "fa_read F (ws_files ws1) sd p = Some b" by (auto simp: read_view)
  with snoc.IH[OF rest hist] rest show ?case by (cases "bs = []") auto
qed simp

lemma multi_edit_undo:
  assumes "multi_edit_tool F repair sd p edits ws = (ws', Inr (Edited rs))"
    and "length (ws_history ws') < default_capacity"
    and "undo_times F sd p (length edits) ws' = (ws'', True)"
  shows "fa_read F (ws_files ws') sd p = Some (er_content (last rs)) \<and> length rs = length edits
     \<and> fa_read F (ws_files ws'') sd p = fa_read F (ws_files ws) sd p \<and> ws_history ws'' = ws_history ws"
proof -
  from assms(1) obtain c h buffer where c: "edits \<noteq> []" "fa_read F (ws_files ws) sd p = Some c"
    and l: "edit_loop repair p 0 edits c [] (ws_history ws) = (h, Inr (buffer, rs))"
    and w: "ws_write F sd p buffer (ws\<lparr>ws_history := h\<rparr>) = (ws', True)"
    by (auto simp: multi_edit_tool_def edit_loop_failure split: if_splits option.splits prod.splits sum.splits)
  from edit_loop_history[OF l] c(1) obtain bs where bs: "length bs = length edits"
    "h = record_all (map (edit_entry p) bs) (ws_history ws)" "hd bs = c" "length rs = length edits"
    "buffer = er_content (last rs)"
    by auto
  have hw: "ws_history ws' = h" using ws_simps(1)[of F sd p buffer "ws\<lparr>ws_history := h\<rparr>"] w by simp
  then have "ws_history ws' = ws_history ws @ map (edit_entry p) bs"
    using record_all_fits[of "map (edit_entry p) bs" "ws_history ws"] assms(2) bs(2) by simp
  from undo_times_entries[OF assms(3)[folded bs(1)] this] ws_write_True[OF w] bs c show ?thesis
    by (auto simp: read_view)
qed

end

text \<open>Undoing a batch of edits: a successful \<open>multi_edit\<close> leaves the result of its last edit in
  the file, and as many undos as it had edits bring back the file and the history from before.\<close>

theorem multi_edit_undone:
  assumes "multi_edit_tool (local_files home) repair sd p edits ws = (ws', Inr (Edited rs))"
    and "length (ws_history ws') < default_capacity"
    and "undo_times (local_files home) sd p (length edits) ws' = (ws'', True)"
  shows "local_read_file home (ws_files ws') sd p = Some (er_content (last rs)) \<and> length rs = length edits
     \<and> local_read_file home (ws_files ws'') sd p = local_read_file home (ws_files ws) sd p
     \<and> ws_history ws'' = ws_history ws"
  using local.multi_edit_undo[OF assms] by (simp add: local_files_def)

subsection \<open>Examples\<close>

definition x_disk :: disk where
  "x_disk = [[''p''] \<mapsto> Dir, [''p'', ''a''] \<mapsto> File ''one'', [''p'', ''b''] \<mapsto> File ''two'',
             [''p'', ''web''] \<mapsto> Dir, [''p'', ''web'', ''a''] \<mapsto> File ''three'']"

definition x_ws :: "disk workspace" where
  "x_ws = \<lparr>ws_files = x_disk, ws_history = []\<rparr>"

definition x_entry :: "string \<Rightarrow> (string \<times> string) list \<Rightarrow> json" where
  "x_entry op kvs = J_obj ((''op'', J_str op) # map (\<lambda>(k, v). (k, J_str v)) kvs)"

definition no_repair :: repair_fn where
  "no_repair _ _ _ _ = None"

definition x_params :: json_dict where
  "x_params = [(''changes'', J_list [x_entry ''create'' [(''path'', ''c/d''), (''content'', ''new'')],
       x_entry ''update'' [(''path'', ''a''), (''old_str'', ''one''), (''new_str'', ''1'')],
       x_entry ''move'' [(''from'', ''b''), (''to'', ''e'')]])]"


text \<open>An absolute path passes the validation, and the write it asks for fails after the first change of
  the batch was made.\<close>

definition x_absolute :: json_dict where
  "x_absolute = [(''changes'', J_list [x_entry ''create'' [(''path'', ''c''), (''content'', ''new'')],
       x_entry ''create'' [(''path'', ''/etc/d''), (''content'', ''new'')]])]"

lemma absolute_path_breaks_batch:
  "let (ws, out) = apply_patch_tool (local_files [''p'']) no_repair None x_absolute x_ws
   in out = Inr (Runtime_failure (Create_failed ''//etc/d'')) \<and> disk_file (ws_files ws) [''p'', ''c''] = Some ''new''"
  by code_simp


text \<open>With a container directory, the deletion looks at the project root: the file the batch read stays,
  and the file of that name at the root goes.\<close>

lemma delete_misses_subdir:
  "let (ws, out) = apply_patch_tool (local_files [''p'']) no_repair (Some ''web'')
         [(''changes'', J_list [x_entry ''delete'' [(''path'', ''a'')]])] x_ws
   in disk_file (ws_files ws) [''p'', ''web'', ''a''] = Some ''three'' \<and> disk_file (ws_files ws) [''p'', ''a''] = None
      \<and> (case out of Inr (Applied _) \<Rightarrow> True | _ \<Rightarrow> False)"
  by code_simp

definition x_edit :: "string \<Rightarrow> string \<Rightarrow> json_dict" where
  "x_edit old new = [(''old_str'', J_str old), (''new_str'', J_str new)]"

lemma multi_edit_undone_witness:
  "let ws = fst (multi_edit_tool (local_files [''p'']) None None ''a'' [x_edit ''one'' ''1'', x_edit ''1'' ''uno''] x_ws);
       ws' = fst (undo_times (local_files [''p'']) None ''a'' 2 ws)
   in local_read_file [''p''] (ws_files ws') None ''a'' = local_read_file [''p''] x_disk None ''a''"
proof -
  let ?m = "multi_edit_tool (local_files [''p'']) None None ''a'' [x_edit ''one'' ''1'', x_edit ''1'' ''uno''] x_ws"
  let ?u = "undo_times (local_files [''p'']) None ''a'' (length [x_edit ''one'' ''1'', x_edit ''1'' ''uno'']) (fst ?m)"
  have "case snd ?m of Inr (Edited _) \<Rightarrow> True | _ \<Rightarrow> False" by code_simp
  then obtain rs where "?m = (fst ?m, Inr (Edited rs))"
    by (auto simp: prod_eq_iff split: sum.splits edit_tool_result.splits)
  moreover have "length (ws_history (fst ?m)) < default_capacity" by code_simp
  moreover have "snd ?u" by code_simp
  then have "?u = (fst ?u, True)" by (simp add: prod_eq_iff)
  ultimately have "local_read_file [''p''] (ws_files (fst ?u)) None ''a'' = local_read_file [''p''] (ws_files x_ws) None ''a''"
    using multi_edit_undone by blast
  then show ?thesis by (simp add: x_ws_def Let_def numeral_2_eq_2)
qed

text \<open>A batch of edits whose third edit fails writes nothing, but keeps the records of the first two: the
  undo that follows writes the text between them, which was never in the file.\<close>

lemma failed_multi_edit_undo:
  "let (ws, out) = multi_edit_tool (local_files [''p'']) None None ''a''
         [x_edit ''one'' ''1'', x_edit ''1'' ''uno'', x_edit ''absent'' ''x''] x_ws;
       (ws', out') = file_undo_tool (local_files [''p'']) None ''a'' ws
   in (case out of Inr (Edit_rejected i _) \<Rightarrow> i = 2 | _ \<Rightarrow> False) \<and> disk_file (ws_files ws) [''p'', ''a''] = Some ''one''
      \<and> out' = Inr Undone \<and> disk_file (ws_files ws') [''p'', ''a''] = Some ''1''"
  by code_simp

end
