(* ===== verification/Local_Ports.thy ===== *)
theory Local_Ports
  imports Py_Text "HOL-Library.Multiset" "HOL-Library.Char_ord" "HOL-Library.List_Lexorder" "HOL-Library.Product_Lexorder"
begin

text \<open>
  \<open>services/orchestration/local_ports.py\<close>: the allocator of host ports for the dev servers of the
  local runtime.  The state is the allocator object (range, assignments in insertion order, whether
  the cache file was read) and the cache file; every operation holds the allocator's lock, so
  operations happen one after the other.  A write of the cache file may fail (\<open>disk_ok\<close>), which the code
  only logs; a restart makes a new allocator on the same file.

  The lemmas: every operation keeps the ports in the range and distinct, allocation takes the least
  free port and fails only when all are taken, and a restart reads back what was last written.
\<close>

subsection \<open>State\<close>

type_synonym port_key = "string \<times> string"

record assignment =
  as_port :: int
  as_pid :: int

datatype cache_file = No_file | Unreadable_file | Cache json

record allocator =
  pa_range_start :: int
  pa_range_end :: int
  pa_assignments :: "(port_key \<times> assignment) list"
  pa_loaded :: bool
  pa_file :: cache_file

datatype port_error = Bad_range | Attribute_error | Not_iterable | Exhausted nat

text \<open>\<open>PortAllocator(...)\<close> on a cache directory that holds \<open>file\<close>.\<close>

definition new_allocator :: "cache_file \<Rightarrow> int \<Rightarrow> int \<Rightarrow> (port_error, allocator) result" where
  "new_allocator file range_start range_end =
     (if range_end < range_start then Inl Bad_range
      else Inr \<lparr>pa_range_start = range_start, pa_range_end = range_end, pa_assignments = [],
                pa_loaded = False, pa_file = file\<rparr>)"

subsection \<open>The cache file\<close>

text \<open>One entry of the file: \<open>None\<close> where it is skipped, an error where \<open>entry.get\<close> raises.\<close>

definition load_entry :: "py_str \<Rightarrow> int \<Rightarrow> int \<Rightarrow> json \<Rightarrow> (port_error, (port_key \<times> assignment) option) result" where
  "load_entry str range_start range_end entry =
     (case entry of
        J_obj e \<Rightarrow>
          (case (int_of_json (jget_default e ''pid'' (J_int 0)), map_of e ''project_id'',
                 map_of e ''container_name'', Option.bind (map_of e ''port'') int_of_json) of
             (Some pid, Some project, Some container, Some port) \<Rightarrow>
               Inr (if range_start \<le> port \<and> port \<le> range_end
                    then Some ((text_of str project, text_of str container), \<lparr>as_port = port, as_pid = pid\<rparr>)
                    else None)
           | _ \<Rightarrow> Inr None)
      | _ \<Rightarrow> Inl Attribute_error)"

fun load_entries ::
  "py_str \<Rightarrow> json list \<Rightarrow> allocator \<Rightarrow> allocator \<times> port_error option" where
  "load_entries str [] pa = (pa, None)"
| "load_entries str (entry # entries) pa =
     (case load_entry str (pa_range_start pa) (pa_range_end pa) entry of
        Inl e \<Rightarrow> (pa, Some e)
      | Inr None \<Rightarrow> load_entries str entries pa
      | Inr (Some (key, a)) \<Rightarrow>
          load_entries str entries (pa\<lparr>pa_assignments := AList.update key a (pa_assignments pa)\<rparr>))"

definition ensure_loaded :: "py_str \<Rightarrow> allocator \<Rightarrow> allocator \<times> port_error option" where
  "ensure_loaded str pa =
     (if pa_loaded pa then (pa, None)
      else (let pa = pa\<lparr>pa_loaded := True\<rparr>
            in case pa_file pa of
                 No_file \<Rightarrow> (pa, None)
               | Unreadable_file \<Rightarrow> (pa, None)
               | Cache (J_obj d) \<Rightarrow>
                   (case jget_default d ''assignments'' (J_list []) of
                      J_list entries \<Rightarrow> load_entries str entries pa
                    | J_str [] \<Rightarrow> (pa, None)
                    | J_obj [] \<Rightarrow> (pa, None)
                    | J_str _ \<Rightarrow> (pa, Some Attribute_error)
                    | J_obj _ \<Rightarrow> (pa, Some Attribute_error)
                    | _ \<Rightarrow> (pa, Some Not_iterable))
               | Cache _ \<Rightarrow> (pa, None)))"

definition dump_entry :: "port_key \<times> assignment \<Rightarrow> json" where
  "dump_entry x =
     (let (key, a) = x
      in J_obj [(''project_id'', J_str (fst key)), (''container_name'', J_str (snd key)),
                (''port'', J_int (as_port a)), (''pid'', J_int (as_pid a))])"

definition dump_of :: "int \<Rightarrow> int \<Rightarrow> (port_key \<times> assignment) list \<Rightarrow> json" where
  "dump_of range_start range_end entries =
     J_obj [(''range'', J_obj [(''start'', J_int range_start), (''end'', J_int range_end)]),
            (''assignments'', J_list (map dump_entry entries))]"

definition dump_file :: "allocator \<Rightarrow> json" where
  "dump_file pa = dump_of (pa_range_start pa) (pa_range_end pa) (sort_key fst (pa_assignments pa))"

definition persist :: "bool \<Rightarrow> allocator \<Rightarrow> allocator" where
  "persist disk_ok pa = (if disk_ok then pa\<lparr>pa_file := Cache (dump_file pa)\<rparr> else pa)"

subsection \<open>Operations\<close>

definition used_ports :: "allocator \<Rightarrow> int set" where
  "used_ports pa = (as_port \<circ> snd) ` set (pa_assignments pa)"

fun first_free :: "int set \<Rightarrow> int list \<Rightarrow> int option" where
  "first_free used [] = None"
| "first_free used (c # cs) = (if c \<in> used then first_free used cs else Some c)"

definition allocate ::
  "py_str \<Rightarrow> bool \<Rightarrow> int \<Rightarrow> port_key \<Rightarrow> allocator \<Rightarrow> allocator \<times> (port_error, int) result" where
  "allocate str disk_ok pid key pa =
     (case ensure_loaded str pa of
        (pa, Some e) \<Rightarrow> (pa, Inl e)
      | (pa, None) \<Rightarrow>
          (case map_of (pa_assignments pa) key of
             Some existing \<Rightarrow> (pa, Inr (as_port existing))
           | None \<Rightarrow>
               (case first_free (used_ports pa) [pa_range_start pa..pa_range_end pa] of
                  Some candidate \<Rightarrow>
                    (persist disk_ok (pa\<lparr>pa_assignments :=
                       AList.update key \<lparr>as_port = candidate, as_pid = pid\<rparr> (pa_assignments pa)\<rparr>),
                     Inr candidate)
                | None \<Rightarrow> (pa, Inl (Exhausted (card (used_ports pa)))))))"

definition drop_where ::
  "py_str \<Rightarrow> bool \<Rightarrow> (port_key \<times> assignment \<Rightarrow> bool) \<Rightarrow> allocator \<Rightarrow> allocator \<times> (port_error, nat) result" where
  "drop_where str disk_ok victim pa =
     (case ensure_loaded str pa of
        (pa, Some e) \<Rightarrow> (pa, Inl e)
      | (pa, None) \<Rightarrow>
          (let victims = filter victim (pa_assignments pa)
           in if victims = [] then (pa, Inr 0)
              else (persist disk_ok (pa\<lparr>pa_assignments := filter (\<lambda>x. \<not> victim x) (pa_assignments pa)\<rparr>),
                    Inr (length victims))))"

definition release :: "py_str \<Rightarrow> bool \<Rightarrow> port_key \<Rightarrow> allocator \<Rightarrow> allocator \<times> (port_error, nat) result" where
  "release str disk_ok key = drop_where str disk_ok (\<lambda>x. fst x = key)"

definition release_project :: "py_str \<Rightarrow> bool \<Rightarrow> string \<Rightarrow> allocator \<Rightarrow> allocator \<times> (port_error, nat) result" where
  "release_project str disk_ok project = drop_where str disk_ok (\<lambda>x. fst (fst x) = project)"

definition reclaim_dead :: "py_str \<Rightarrow> bool \<Rightarrow> (int \<Rightarrow> bool) \<Rightarrow> allocator \<Rightarrow> allocator \<times> (port_error, nat) result" where
  "reclaim_dead str disk_ok pid_check = drop_where str disk_ok (\<lambda>x. \<not> pid_check (as_pid (snd x)))"

definition get_port :: "py_str \<Rightarrow> port_key \<Rightarrow> allocator \<Rightarrow> allocator \<times> (port_error, int option) result" where
  "get_port str key pa =
     (case ensure_loaded str pa of
        (pa, Some e) \<Rightarrow> (pa, Inl e)
      | (pa, None) \<Rightarrow> (pa, Inr (map_option as_port (map_of (pa_assignments pa) key))))"

definition restart :: "allocator \<Rightarrow> allocator" where
  "restart pa = pa\<lparr>pa_assignments := [], pa_loaded := False\<rparr>"

subsection \<open>Reading back what was written\<close>

definition good_entries :: "int \<Rightarrow> int \<Rightarrow> (port_key \<times> assignment) list \<Rightarrow> bool" where
  "good_entries lo hi xs \<longleftrightarrow>
     distinct (map fst xs) \<and> distinct (map (as_port \<circ> snd) xs) \<and> (\<forall>x \<in> set xs. lo \<le> as_port (snd x) \<and> as_port (snd x) \<le> hi)"

lemma load_dump_entry:
  "lo \<le> as_port a \<Longrightarrow> as_port a \<le> hi \<Longrightarrow> load_entry str lo hi (dump_entry (key, a)) = Inr (Some (key, a))"
  by (simp add: load_entry_def dump_entry_def jget_default_def text_of_def)

lemma update_new: "k \<notin> fst ` set xs \<Longrightarrow> AList.update k v xs = xs @ [(k, v)]"
  by (induction xs) auto

lemma load_dump_entries:
  "good_entries (pa_range_start pa) (pa_range_end pa) xs \<Longrightarrow> fst ` set (pa_assignments pa) \<inter> fst ` set xs = {}
   \<Longrightarrow> load_entries str (map dump_entry xs) pa = (pa\<lparr>pa_assignments := pa_assignments pa @ xs\<rparr>, None)"
proof (induction xs arbitrary: pa)
  case (Cons x xs)
  obtain key a where x: "x = (key, a)" by (cases x) auto
  let ?pa = "pa\<lparr>pa_assignments := pa_assignments pa @ [(key, a)]\<rparr>"
  have "load_entries str (map dump_entry xs) ?pa = (?pa\<lparr>pa_assignments := pa_assignments ?pa @ xs\<rparr>, None)"
    using Cons.prems x by (intro Cons.IH) (auto simp: good_entries_def)
  then show ?case
    using Cons.prems x by (auto simp: good_entries_def load_dump_entry update_new)
qed simp

lemma distinct_map_sort: "distinct (map g (sort_key f xs)) = distinct (map g xs)"
proof -
  have "mset (map g (sort_key f xs)) = mset (map g xs)" by (simp only: mset_map mset_sort)
  then show ?thesis by (rule mset_eq_imp_distinct_iff)
qed

lemma good_entries_sort [simp]: "good_entries lo hi (sort_key f xs) = good_entries lo hi xs"
  by (simp add: good_entries_def distinct_map_sort)

lemma map_of_sort: "distinct (map fst xs) \<Longrightarrow> map_of (sort_key fst xs) = map_of xs"
  by (subst map_of_inject_set) (simp_all add: distinct_map_sort)

definition good_file :: "int \<Rightarrow> int \<Rightarrow> cache_file \<Rightarrow> (port_key \<times> assignment) list \<Rightarrow> bool" where
  "good_file lo hi file xs \<longleftrightarrow>
     good_entries lo hi xs \<and> (file = No_file \<and> xs = [] \<or> file = Cache (dump_of lo hi xs))"

definition ports_ok :: "allocator \<Rightarrow> bool" where
  "ports_ok pa \<longleftrightarrow>
     pa_range_start pa \<le> pa_range_end pa \<and> good_entries (pa_range_start pa) (pa_range_end pa) (pa_assignments pa)
     \<and> (\<exists>xs. good_file (pa_range_start pa) (pa_range_end pa) (pa_file pa) xs)
     \<and> (\<not> pa_loaded pa \<longrightarrow> pa_assignments pa = [])"

lemma dump_of_inj: "dump_of lo hi xs = dump_of lo hi ys \<Longrightarrow> xs = ys"
proof -
  assume "dump_of lo hi xs = dump_of lo hi ys"
  then have "map dump_entry xs = map dump_entry ys" by (simp add: dump_of_def)
  moreover have "inj dump_entry"
    by (rule injI) (auto simp: dump_entry_def prod_eq_iff Let_def intro: assignment.equality)
  ultimately show ?thesis by (simp add: inj_map_eq_map)
qed

lemma load_good_file:
  assumes "good_file (pa_range_start pa) (pa_range_end pa) (pa_file pa) xs" "\<not> pa_loaded pa" "pa_assignments pa = []"
  shows "ensure_loaded str pa = (pa\<lparr>pa_assignments := xs, pa_loaded := True\<rparr>, None)"
proof (cases "pa_file pa = No_file")
  case True
  with assms show ?thesis by (simp add: ensure_loaded_def good_file_def)
next
  case False
  with assms(1) have xs: "good_entries (pa_range_start pa) (pa_range_end pa) xs"
    "pa_file pa = Cache (dump_of (pa_range_start pa) (pa_range_end pa) xs)" by (auto simp: good_file_def)
  with load_dump_entries[of "pa\<lparr>pa_loaded := True\<rparr>" xs str] assms(2,3) show ?thesis
    by (simp add: ensure_loaded_def dump_of_def jget_default_def)
qed

lemma ensure_loaded_ok:
  assumes "ports_ok pa"
  obtains xs where "ensure_loaded str pa = (pa\<lparr>pa_assignments := xs, pa_loaded := True\<rparr>, None)"
    "good_entries (pa_range_start pa) (pa_range_end pa) xs"
    "if pa_loaded pa then xs = pa_assignments pa else good_file (pa_range_start pa) (pa_range_end pa) (pa_file pa) xs"
proof (cases "pa_loaded pa")
  case True
  with assms show ?thesis by (intro that[of "pa_assignments pa"]) (auto simp: ensure_loaded_def ports_ok_def)
next
  case False
  with assms obtain xs where xs: "good_file (pa_range_start pa) (pa_range_end pa) (pa_file pa) xs"
    by (auto simp: ports_ok_def)
  with False assms load_good_file[OF xs, of str] show ?thesis
    by (intro that[of xs]) (auto simp: ports_ok_def good_file_def)
qed

subsection \<open>Each operation keeps the invariant\<close>

lemma persist_simps [simp]:
  "pa_range_start (persist b pa) = pa_range_start pa" "pa_range_end (persist b pa) = pa_range_end pa"
  "pa_assignments (persist b pa) = pa_assignments pa" "pa_loaded (persist b pa) = pa_loaded pa"
  "pa_file (persist b pa) = (if b then Cache (dump_file pa) else pa_file pa)"
  by (simp_all add: persist_def)

lemma persist_ok:
  assumes "ports_ok pa" "pa_loaded pa"
  shows "ports_ok (persist b pa)"
proof -
  have "good_file (pa_range_start pa) (pa_range_end pa) (Cache (dump_file pa)) (sort_key fst (pa_assignments pa))"
    using assms by (simp add: ports_ok_def good_file_def dump_file_def)
  with assms show ?thesis by (auto simp: ports_ok_def)
qed

lemma first_free_Some: "first_free used cs = Some c \<Longrightarrow> c \<in> set cs \<and> c \<notin> used"
  by (induction cs) (auto split: if_splits)

lemma first_free_least:
  "first_free used cs = Some c \<Longrightarrow> sorted cs \<Longrightarrow> x \<in> set cs \<Longrightarrow> x \<notin> used \<Longrightarrow> c \<le> x"
  by (induction cs) (auto split: if_splits)

lemma first_free_None: "first_free used cs = None \<longleftrightarrow> set cs \<subseteq> used"
  by (induction cs) auto

lemma good_entries_add:
  "good_entries lo hi xs \<Longrightarrow> map_of xs key = None \<Longrightarrow> lo \<le> as_port a \<Longrightarrow> as_port a \<le> hi
   \<Longrightarrow> as_port a \<notin> (as_port \<circ> snd) ` set xs \<Longrightarrow> good_entries lo hi (AList.update key a xs)"
  by (auto simp: good_entries_def map_of_eq_None_iff update_new)

lemma good_entries_filter: "good_entries lo hi xs \<Longrightarrow> good_entries lo hi (filter P xs)"
  by (auto simp: good_entries_def distinct_map_filter)

lemma loaded_ok:
  "ports_ok pa \<Longrightarrow> good_entries (pa_range_start pa) (pa_range_end pa) (pa_assignments pa')
   \<Longrightarrow> pa_range_start pa' = pa_range_start pa \<Longrightarrow> pa_range_end pa' = pa_range_end pa
   \<Longrightarrow> pa_file pa' = pa_file pa \<Longrightarrow> pa_loaded pa' \<Longrightarrow> ports_ok pa'"
  by (auto simp: ports_ok_def)

lemma drop_where_ok: "ports_ok pa \<Longrightarrow> ports_ok (fst (drop_where str b victim pa))"
  by (frule ensure_loaded_ok[of _ str])
     (auto simp: drop_where_def Let_def intro!: persist_ok good_entries_filter intro: loaded_ok)

lemma get_port_ok: "ports_ok pa \<Longrightarrow> ports_ok (fst (get_port str key pa))"
  by (frule ensure_loaded_ok[of _ str]) (auto simp: get_port_def intro: loaded_ok)

lemma restart_ok: "ports_ok pa \<Longrightarrow> ports_ok (restart pa)"
  by (auto simp: ports_ok_def restart_def good_entries_def)

lemma new_allocator_ok: "new_allocator No_file lo hi = Inr pa \<Longrightarrow> ports_ok pa"
  by (auto simp: new_allocator_def ports_ok_def good_entries_def good_file_def split: if_splits)

subsection \<open>Allocation\<close>

text \<open>Who has which port, as any operation sees it (after reading the file if need be).\<close>

definition assigned :: "py_str \<Rightarrow> allocator \<Rightarrow> port_key \<Rightarrow> int option" where
  "assigned str pa key = map_option as_port (map_of (pa_assignments (fst (ensure_loaded str pa))) key)"

lemma assigned_loaded: "pa_loaded pa \<Longrightarrow> assigned str pa key = map_option as_port (map_of (pa_assignments pa) key)"
  by (simp add: assigned_def ensure_loaded_def)

lemma ran_map_of: "distinct (map fst xs) \<Longrightarrow> ran (\<lambda>k. map_option f (map_of xs k)) = (f \<circ> snd) ` set xs"
  by (force simp: ran_def image_iff dest: map_of_SomeD)

definition allocation_result ::
  "int \<Rightarrow> int \<Rightarrow> port_key \<Rightarrow> (port_key \<Rightarrow> int option) \<Rightarrow> (port_error, int) result \<Rightarrow> (port_key \<Rightarrow> int option) \<Rightarrow> bool" where
  "allocation_result lo hi key before r after \<longleftrightarrow>
     (case before key of
        Some p \<Rightarrow> r = Inr p \<and> after = before
      | None \<Rightarrow>
         (case r of
            Inr p \<Rightarrow> lo \<le> p \<and> p \<le> hi \<and> p \<notin> ran before \<and> {lo..<p} \<subseteq> ran before \<and> after = before(key \<mapsto> p)
          | Inl e \<Rightarrow> e = Exhausted (nat (hi - lo + 1)) \<and> ran before = {lo..hi} \<and> after = before))"

lemma allocate_spec:
  assumes "ports_ok pa" "allocate str b pid key pa = (pa', r)"
  shows "ports_ok pa' \<and> pa_loaded pa'
     \<and> allocation_result (pa_range_start pa) (pa_range_end pa) key (assigned str pa) r (assigned str pa')"
proof -
  obtain xs where xs: "ensure_loaded str pa = (pa\<lparr>pa_assignments := xs, pa_loaded := True\<rparr>, None)"
    and good: "good_entries (pa_range_start pa) (pa_range_end pa) xs"
    by (rule ensure_loaded_ok[OF assms(1), of str])
  let ?pa = "pa\<lparr>pa_assignments := xs, pa_loaded := True\<rparr>" and ?lo = "pa_range_start pa" and ?hi = "pa_range_end pa"
  have ok: "ports_ok ?pa" by (rule loaded_ok[OF assms(1)]) (use good in simp_all)
  have before: "assigned str pa = (\<lambda>k. map_option as_port (map_of xs k))"
    by (simp add: assigned_def xs fun_eq_iff)
  have used: "used_ports ?pa = ran (assigned str pa)"
    using good ran_map_of[of xs as_port] by (simp add: used_ports_def before good_entries_def)
  have le: "?lo \<le> ?hi" using assms(1) by (simp add: ports_ok_def)
  have rng: "ran (assigned str pa) \<subseteq> {?lo..?hi}"
    using good by (auto simp: used[symmetric] used_ports_def good_entries_def)
  show ?thesis
  proof (cases "map_of xs key")
    case (Some a)
    then have "pa' = ?pa" "r = Inr (as_port a)" using assms(2) by (simp_all add: allocate_def xs)
    with ok Some show ?thesis by (simp add: allocation_result_def before assigned_loaded fun_eq_iff)
  next
    case None
    show ?thesis
    proof (cases "first_free (used_ports ?pa) [?lo..?hi]")
      case None': None
      then have all: "ran (assigned str pa) = {?lo..?hi}" using rng by (auto simp: first_free_None used)
      then have "card (used_ports ?pa) = nat (?hi - ?lo + 1)" by (simp add: used)
      moreover have "pa' = ?pa" "r = Inl (Exhausted (card (used_ports ?pa)))"
        using assms(2) None None' by (auto simp add: allocate_def xs)
      ultimately show ?thesis using ok None all
        by (simp add: allocation_result_def before assigned_loaded fun_eq_iff)
    next
      case (Some c)
      let ?a = "\<lparr>as_port = c, as_pid = pid\<rparr>"
      let ?new = "?pa\<lparr>pa_assignments := AList.update key ?a xs\<rparr>"
      have pa': "pa' = persist b ?new" "r = Inr c" using assms(2) None Some by (simp_all add: allocate_def xs)
      have c: "?lo \<le> c" "c \<le> ?hi" "c \<notin> ran (assigned str pa)"
        using first_free_Some[OF Some] by (auto simp: used)
      have least: "{?lo..<c} \<subseteq> ran (assigned str pa)"
        using first_free_least[OF Some] c(2) by (force simp: used)
      have "c \<notin> (as_port \<circ> snd) ` set xs" using c(3) by (simp add: used[symmetric] used_ports_def)
      then have "good_entries ?lo ?hi (AList.update key ?a xs)"
        using good None c by (intro good_entries_add) auto
      then have "ports_ok ?new" by (intro loaded_ok[OF ok]) simp_all
      then have "ports_ok pa'" "pa_loaded pa'" by (simp_all add: pa' persist_ok)
      moreover have "assigned str pa' = (assigned str pa)(key \<mapsto> c)"
        using \<open>pa_loaded pa'\<close> by (auto simp: fun_eq_iff assigned_loaded pa' before update_conv')
      ultimately show ?thesis using c least None
        by (simp add: allocation_result_def pa'(2)) (simp add: before)
    qed
  qed
qed

datatype port_op =
    Allocate bool int port_key
  | Release bool port_key
  | Release_project bool string
  | Reclaim_dead bool "int \<Rightarrow> bool"
  | Get_port port_key
  | Restart

fun apply_port_op :: "py_str \<Rightarrow> port_op \<Rightarrow> allocator \<Rightarrow> allocator" where
  "apply_port_op str (Allocate b pid key) pa = fst (allocate str b pid key pa)"
| "apply_port_op str (Release b key) pa = fst (release str b key pa)"
| "apply_port_op str (Release_project b p) pa = fst (release_project str b p pa)"
| "apply_port_op str (Reclaim_dead b alive) pa = fst (reclaim_dead str b alive pa)"
| "apply_port_op str (Get_port key) pa = fst (get_port str key pa)"
| "apply_port_op str Restart pa = restart pa"

fun writes_ok :: "port_op \<Rightarrow> bool" where
  "writes_ok (Allocate b _ _) = b"
| "writes_ok (Release b _) = b"
| "writes_ok (Release_project b _) = b"
| "writes_ok (Reclaim_dead b _) = b"
| "writes_ok _ = True"

definition run_ports :: "py_str \<Rightarrow> int \<Rightarrow> int \<Rightarrow> port_op list \<Rightarrow> allocator" where
  "run_ports str lo hi ops = fold (apply_port_op str) ops (projr (new_allocator No_file lo hi))"

lemma ops_ok: "ports_ok pa \<Longrightarrow> ports_ok (apply_port_op str op pa)"
  by (cases op)
     (auto simp: release_def release_project_def reclaim_dead_def drop_where_ok get_port_ok restart_ok
       dest: allocate_spec[OF _ prod.collapse[symmetric]])

lemma range_kept:
  "ports_ok pa \<Longrightarrow> pa_range_start (apply_port_op str op pa) = pa_range_start pa
   \<and> pa_range_end (apply_port_op str op pa) = pa_range_end pa"
  by (frule ensure_loaded_ok[of _ str], cases op)
     (auto simp: release_def release_project_def reclaim_dead_def drop_where_def get_port_def allocate_def
       restart_def Let_def split: option.splits)

lemma run_ports_ok:
  "lo \<le> hi \<Longrightarrow> ports_ok (run_ports str lo hi ops) \<and> pa_range_start (run_ports str lo hi ops) = lo
   \<and> pa_range_end (run_ports str lo hi ops) = hi"
proof (induction ops rule: rev_induct)
  case Nil
  then have "new_allocator No_file lo hi = Inr (projr (new_allocator No_file lo hi))"
    by (simp add: new_allocator_def)
  from new_allocator_ok[OF this] Nil show ?case by (simp add: run_ports_def new_allocator_def)
next
  case (snoc op ops)
  then show ?case using ops_ok range_kept[of "run_ports str lo hi ops" str op] by (simp add: run_ports_def)
qed

text \<open>C16: Ports are exclusive and in bounds: after any operations and restarts, with any writes of the cache
  file lost, every assigned port is in the range, no two dev servers have the same one, and there are
  never more assignments than ports.  Allocation then returns the port the server has, or the least
  port nobody has, changing nothing else; it fails only when every port of the range is taken.\<close>

theorem ports_exclusive:
  assumes "lo \<le> hi" "allocate str b pid key (run_ports str lo hi ops) = (pa', r)"
  shows "ran (assigned str (run_ports str lo hi ops)) \<subseteq> {lo..hi}
     \<and> inj_on (assigned str (run_ports str lo hi ops)) (dom (assigned str (run_ports str lo hi ops)))
     \<and> length (pa_assignments (run_ports str lo hi ops)) \<le> nat (hi - lo + 1)
     \<and> allocation_result lo hi key (assigned str (run_ports str lo hi ops)) r (assigned str pa')"
proof -
  let ?pa = "run_ports str lo hi ops"
  have ok: "ports_ok ?pa" "pa_range_start ?pa = lo" "pa_range_end ?pa = hi" using run_ports_ok[OF assms(1)] by auto
  obtain xs where xs: "ensure_loaded str ?pa = (?pa\<lparr>pa_assignments := xs, pa_loaded := True\<rparr>, None)"
    "good_entries lo hi xs" using ensure_loaded_ok[OF ok(1), of str] ok by metis
  have a: "assigned str ?pa = (\<lambda>k. map_option as_port (map_of xs k))" by (simp add: assigned_def xs fun_eq_iff)
  have "inj_on (as_port \<circ> snd) (set xs)" using xs(2) by (simp add: good_entries_def distinct_map)
  then have "inj_on (assigned str ?pa) (dom (assigned str ?pa))"
    unfolding a inj_on_def by (force dest: map_of_SomeD)
  moreover have "ran (assigned str ?pa) \<subseteq> {lo..hi}"
    using xs(2) ran_map_of[of xs as_port] by (auto simp: a good_entries_def)
  moreover have "length (pa_assignments ?pa) \<le> nat (hi - lo + 1)"
  proof -
    have g: "good_entries lo hi (pa_assignments ?pa)" using ok by (simp add: ports_ok_def)
    then have "length (pa_assignments ?pa) = card ((as_port \<circ> snd) ` set (pa_assignments ?pa))"
      using distinct_card[of "map (as_port \<circ> snd) (pa_assignments ?pa)"] by (simp add: good_entries_def)
    also have "\<dots> \<le> card {lo..hi}" using g by (intro card_mono) (auto simp: good_entries_def)
    finally show ?thesis by simp
  qed
  ultimately show ?thesis using allocate_spec[OF ok(1) assms(2)] ok by simp
qed

lemma ports_exclusive_witness:
  "let pa = run_ports (\<lambda>_. []) 42000 42001 [Allocate True 7 (''p'', ''api''), Restart, Get_port (''p'', ''api'')];
       out = allocate (\<lambda>_. []) True 7 (''p'', ''web'') pa
   in snd out = Inr 42001
      \<and> allocation_result 42000 42001 (''p'', ''web'') (assigned (\<lambda>_. []) pa) (snd out) (assigned (\<lambda>_. []) (fst out))"
  (is "let pa = ?pa; out = _ in _")
proof -
  let ?out = "allocate (\<lambda>_. []) True 7 (''p'', ''web'') ?pa"
  have "snd ?out = Inr 42001" by code_simp
  moreover have "(42000::int) \<le> 42001" by simp
  note ports_exclusive[OF this prod.collapse[symmetric], where str = "\<lambda>_. []" and key = "(''p'', ''web'')"]
  ultimately show ?thesis unfolding Let_def by blast
qed

subsection \<open>Restarts\<close>

lemma ensure_loaded_fst:
  "ports_ok pa \<Longrightarrow> pa_loaded (fst (ensure_loaded str pa)) \<and> pa_file (fst (ensure_loaded str pa)) = pa_file pa"
  by (frule ensure_loaded_ok[of _ str]) auto

text \<open>The cache file says what the allocator says.\<close>

definition synced :: "allocator \<Rightarrow> bool" where
  "synced pa \<longleftrightarrow>
     (\<exists>xs. good_file (pa_range_start pa) (pa_range_end pa) (pa_file pa) xs
           \<and> (pa_loaded pa \<longrightarrow> map_of xs = map_of (pa_assignments pa)))"

lemma synced_persist:
  "good_entries (pa_range_start pa) (pa_range_end pa) (pa_assignments pa) \<Longrightarrow> synced (persist True pa)"
  unfolding synced_def
  by (rule exI[of _ "sort_key fst (pa_assignments pa)"])
     (auto simp: good_file_def dump_file_def map_of_sort good_entries_def distinct_map_sort)

lemma synced_load: "ports_ok pa \<Longrightarrow> synced pa \<Longrightarrow> synced (fst (ensure_loaded str pa))"
proof -
  assume ok: "ports_ok pa" and "synced pa"
  then obtain xs where xs: "good_file (pa_range_start pa) (pa_range_end pa) (pa_file pa) xs"
    "pa_loaded pa \<longrightarrow> map_of xs = map_of (pa_assignments pa)" by (auto simp: synced_def)
  show ?thesis
  proof (cases "pa_loaded pa")
    case True
    with \<open>synced pa\<close> show ?thesis by (simp add: ensure_loaded_def)
  next
    case False
    with ok load_good_file[OF xs(1), of str] xs(1) show ?thesis
      by (auto simp: ports_ok_def synced_def)
  qed
qed

lemma synced_restart: "synced pa \<Longrightarrow> synced (restart pa)"
  by (auto simp: synced_def restart_def)

lemma assigned_restart:
  assumes "ports_ok pa" "synced pa"
  shows "assigned str (restart pa) = assigned str pa"
proof -
  from assms(2) obtain xs where xs: "good_file (pa_range_start pa) (pa_range_end pa) (pa_file pa) xs"
    "pa_loaded pa \<longrightarrow> map_of xs = map_of (pa_assignments pa)" by (auto simp: synced_def)
  have "assigned str (restart pa) = (\<lambda>k. map_option as_port (map_of xs k))"
    using load_good_file[of "restart pa" xs str] xs(1) by (auto simp: assigned_def restart_def fun_eq_iff)
  also have "\<dots> = assigned str pa"
  proof (cases "pa_loaded pa")
    case True
    with xs(2) show ?thesis by (simp add: assigned_loaded fun_eq_iff)
  next
    case False
    with assms(1) load_good_file[OF xs(1), of str] show ?thesis
      by (auto simp: ports_ok_def assigned_def fun_eq_iff)
  qed
  finally show ?thesis .
qed

lemma synced_op:
  assumes "ports_ok pa" "synced pa" "writes_ok op"
  shows "synced (apply_port_op str op pa)"
proof -
  obtain xs where xs: "ensure_loaded str pa = (pa\<lparr>pa_assignments := xs, pa_loaded := True\<rparr>, None)"
    and good: "good_entries (pa_range_start pa) (pa_range_end pa) xs"
    by (rule ensure_loaded_ok[OF assms(1), of str])
  have loaded: "synced (pa\<lparr>pa_assignments := xs, pa_loaded := True\<rparr>)"
    using synced_load[OF assms(1,2), of str] xs by simp
  have dropped: "synced (fst (drop_where str True victim pa))" for victim
    using loaded good by (auto simp: drop_where_def xs Let_def intro!: synced_persist good_entries_filter)
  show ?thesis
  proof (cases op)
    case (Allocate b pid key)
    with assms(3) have b by simp
    obtain pa' r where al: "allocate str True pid key pa = (pa', r)" by fastforce
    have g: "good_entries (pa_range_start pa') (pa_range_end pa') (pa_assignments pa')"
      using allocate_spec[OF assms(1) al] by (simp add: ports_ok_def)
    have "pa' = pa\<lparr>pa_assignments := xs, pa_loaded := True\<rparr> \<or> (\<exists>pa2. pa' = persist True pa2)"
      using al by (auto simp: allocate_def xs split: option.splits)
    then have "synced pa'" using loaded g by (auto intro: synced_persist)
    with al \<open>b\<close> Allocate show ?thesis by simp
  qed (use assms dropped loaded synced_restart in \<open>auto simp: release_def release_project_def reclaim_dead_def get_port_def xs\<close>)
qed

text \<open>Nothing is lost over a restart: when the writes of the cache file succeed, a new allocator on
  the same file knows exactly the assignments of the old one.\<close>

theorem restart_remembers:
  assumes "lo \<le> hi" "list_all writes_ok ops"
  shows "assigned str (run_ports str lo hi (ops @ [Restart])) = assigned str (run_ports str lo hi ops)"
proof -
  have "synced (run_ports str lo hi ops)" using assms(2)
  proof (induction ops rule: rev_induct)
    case Nil
    show ?case using assms(1)
      by (auto simp: run_ports_def new_allocator_def synced_def good_file_def good_entries_def)
  next
    case (snoc op ops)
    then show ?case using synced_op run_ports_ok[OF assms(1), of str ops] by (simp add: run_ports_def)
  qed
  then show ?thesis using assigned_restart run_ports_ok[OF assms(1), of str ops] by (simp add: run_ports_def)
qed

lemma restart_remembers_witness:
  "assigned (\<lambda>_. []) (run_ports (\<lambda>_. []) 42000 42009 [Allocate True 7 (''p'', ''api''), Allocate True 7 (''p'', ''web''),
     Release True (''p'', ''api''), Restart]) (''p'', ''web'') = Some 42001"
proof -
  let ?ops = "[Allocate True 7 (''p'', ''api''), Allocate True 7 (''p'', ''web''), Release True (''p'', ''api'')]"
  have "assigned (\<lambda>_. []) (run_ports (\<lambda>_. []) 42000 42009 ?ops) (''p'', ''web'') = Some 42001" by code_simp
  with restart_remembers[of 42000 42009 ?ops "\<lambda>_. []"] show ?thesis by simp
qed

text \<open>The pid of an assignment is the one of the process that made it: a restarted runtime that asks for
  its port again gets it, but the assignment still counts as dead, and after the sweep of dead
  assignments the next server gets the same port.\<close>

lemma reallocated_port_is_reclaimed:
  "let pa = run_ports (\<lambda>_. []) 42000 42009 [Allocate True 7 (''p'', ''api''), Restart];
       (pa1, mine) = allocate (\<lambda>_. []) True 8 (''p'', ''api'') pa;
       (pa2, n) = reclaim_dead (\<lambda>_. []) True (\<lambda>pid. pid = 8) pa1;
       (pa3, other) = allocate (\<lambda>_. []) True 8 (''q'', ''web'') pa2
   in mine = Inr 42000 \<and> n = Inr 1 \<and> other = Inr 42000"
  by code_simp

end
