(* ===== verification/Pending_Input.thy ===== *)
theory Pending_Input
  imports Json_Value
begin

text \<open>
  \<open>agent/tools/approval_manager.py\<close>: the manager of everything an agent waits for from a user, tool
  approvals and structured input.  The state is the manager's three dictionaries and the request
  objects they share with the coroutines that wait (an object is named by its place in the list of
  all requests made).  A coroutine runs without interruption between two \<open>await\<close>s, so the steps below
  are the code between them, and any sequence of steps is an interleaving of the agents, the router
  and the Redis subscriber; the transport itself is left out, a delivery is a step.

  The lemmas: where an answer ends up in each order of the steps, what the session approvals
  remember, and how long the wait for an approval lasts.
\<close>

section \<open>The manager\<close>

record request =
  rq_input_id :: string
  rq_kind :: string
  rq_session_id :: string
  rq_tool_name :: "string option"
  rq_event :: bool
  rq_response :: json

record manager =
  pm_requests :: "request list"
  pm_pending :: "string \<Rightarrow> nat option"
  pm_cached :: "string \<Rightarrow> json option"
  pm_approved :: "string \<Rightarrow> string set"

definition new_manager :: manager where
  "new_manager = \<lparr>pm_requests = [], pm_pending = Map.empty, pm_cached = Map.empty, pm_approved = (\<lambda>_. {})\<rparr>"

definition allow_all :: json where
  "allow_all = J_str ''allow_all''"

definition cancelled :: json where
  "cancelled = J_str ''__cancelled__''"

definition answer :: "json \<Rightarrow> request \<Rightarrow> request" where
  "answer response req = req\<lparr>rq_response := response, rq_event := True\<rparr>"

definition approve_tool_for_session :: "string \<Rightarrow> string \<Rightarrow> manager \<Rightarrow> manager" where
  "approve_tool_for_session session tool pm =
     pm\<lparr>pm_approved := (pm_approved pm)(session := insert tool (pm_approved pm session))\<rparr>"

definition is_tool_approved :: "string \<Rightarrow> string \<Rightarrow> manager \<Rightarrow> bool" where
  "is_tool_approved session tool pm \<longleftrightarrow> tool \<in> pm_approved pm session"

definition clear_session_approvals :: "string \<Rightarrow> manager \<Rightarrow> manager" where
  "clear_session_approvals session pm = pm\<lparr>pm_approved := (pm_approved pm)(session := {})\<rparr>"

definition deliver :: "string \<Rightarrow> json \<Rightarrow> manager \<Rightarrow> manager" where
  "deliver input_id response pm =
     (case pm_pending pm input_id of
        None \<Rightarrow> pm\<lparr>pm_cached := (pm_cached pm)(input_id \<mapsto> response)\<rparr>
      | Some i \<Rightarrow>
          (let req = pm_requests pm ! i;
               pm = pm\<lparr>pm_requests := (pm_requests pm)[i := answer response req],
                       pm_pending := (pm_pending pm)(input_id := None)\<rparr>
           in case rq_tool_name req of
                Some tool \<Rightarrow> if rq_kind req = ''approval'' \<and> response = allow_all \<and> tool \<noteq> []
                             then approve_tool_for_session (rq_session_id req) tool pm else pm
              | None \<Rightarrow> pm))"

text \<open>Registering a request; an answer that is already there is used at once.\<close>

definition register :: "request \<Rightarrow> (json \<Rightarrow> manager \<Rightarrow> manager) \<Rightarrow> manager \<Rightarrow> manager" where
  "register req use pm =
     (let i = length (pm_requests pm); input_id = rq_input_id req
      in case pm_cached pm input_id of
           None \<Rightarrow> pm\<lparr>pm_requests := pm_requests pm @ [req], pm_pending := (pm_pending pm)(input_id \<mapsto> i)\<rparr>
         | Some response \<Rightarrow>
             use response (pm\<lparr>pm_requests := pm_requests pm @ [answer response req],
                              pm_pending := (pm_pending pm)(input_id := None),
                              pm_cached := (pm_cached pm)(input_id := None)\<rparr>))"

text \<open>The fresh id is an argument.\<close>

definition request_approval :: "string \<Rightarrow> string \<Rightarrow> string \<Rightarrow> manager \<Rightarrow> manager \<times> nat" where
  "request_approval approval_id tool session pm =
     (register \<lparr>rq_input_id = approval_id, rq_kind = ''approval'', rq_session_id = session,
                rq_tool_name = Some tool, rq_event = False, rq_response = J_null\<rparr>
               (\<lambda>response pm. if response = allow_all then approve_tool_for_session session tool pm else pm) pm,
      length (pm_requests pm))"

definition create_input_request :: "string \<Rightarrow> string \<Rightarrow> string \<Rightarrow> manager \<Rightarrow> manager \<times> nat" where
  "create_input_request input_id kind session pm =
     (register \<lparr>rq_input_id = input_id, rq_kind = kind, rq_session_id = session,
                rq_tool_name = None, rq_event = False, rq_response = J_null\<rparr>
               (\<lambda>_ pm. pm) pm,
      length (pm_requests pm))"

definition submit_input :: "string \<Rightarrow> json \<Rightarrow> manager \<Rightarrow> manager" where
  "submit_input input_id response pm =
     (if pm_pending pm input_id = None \<and> pm_cached pm input_id = None
      then pm\<lparr>pm_cached := (pm_cached pm)(input_id \<mapsto> response)\<rparr>
      else deliver input_id response pm)"

definition cancel_input :: "string \<Rightarrow> manager \<Rightarrow> manager" where
  "cancel_input input_id pm = submit_input input_id cancelled pm"

text \<open>\<open>await_input\<close> up to its \<open>await\<close>: it returns at once, or waits for the event of a request.\<close>

datatype await_state = Returned "json option" | Waiting nat

definition await_begin :: "string \<Rightarrow> manager \<Rightarrow> manager \<times> await_state" where
  "await_begin input_id pm =
     (case pm_pending pm input_id of
        Some i \<Rightarrow> (pm, Waiting i)
      | None \<Rightarrow>
          (case pm_cached pm input_id of
             Some response \<Rightarrow> (pm\<lparr>pm_cached := (pm_cached pm)(input_id := None)\<rparr>, Returned (Some response))
           | None \<Rightarrow> (pm, Returned None)))"

text \<open>The wake-up: the event was set, or the time is over.\<close>

definition await_wake :: "nat \<Rightarrow> manager \<Rightarrow> json option" where
  "await_wake i pm =
     (if i < length (pm_requests pm) \<and> rq_event (pm_requests pm ! i)
      then Some (rq_response (pm_requests pm ! i)) else None)"

definition await_timeout :: "string \<Rightarrow> manager \<Rightarrow> manager" where
  "await_timeout input_id pm = pm\<lparr>pm_pending := (pm_pending pm)(input_id := None)\<rparr>"

subsection \<open>The wait for an approval\<close>

text \<open>What the loop finds at its \<open>k\<close>-th poll: the response when the event is set, and whether the task was
  cancelled.\<close>

record poll =
  po_response :: "json option"
  po_cancelled :: bool

function wait_loop :: "(nat \<Rightarrow> poll) \<Rightarrow> bool \<Rightarrow> rat \<Rightarrow> rat \<Rightarrow> nat \<Rightarrow> rat \<Rightarrow> json option" where
  "wait_loop polls has_task timeout_seconds poll_interval k elapsed =
     (if elapsed < timeout_seconds \<and> 0 < poll_interval
      then (case po_response (polls k) of
              Some r \<Rightarrow> Some r
            | None \<Rightarrow>
                if has_task \<and> po_cancelled (polls k) then Some (J_str ''cancel'')
                else wait_loop polls has_task timeout_seconds poll_interval (Suc k) (elapsed + poll_interval))
      else None)"
  by pat_completeness auto
termination
proof (relation "measure (\<lambda>(polls, has_task, timeout, interval, k, elapsed). nat \<lceil>(timeout - elapsed) / interval\<rceil>)", goal_cases)
  case (2 polls has_task timeout interval k elapsed)
  let ?x = "(timeout - elapsed) / interval"
  have "(timeout - (elapsed + interval)) / interval = ?x - 1"
    using 2 by (simp add: field_simps)
  moreover have "0 < ?x" using 2 by simp
  then have "0 < \<lceil>?x\<rceil>" by linarith
  moreover have "\<lceil>?x - 1\<rceil> = \<lceil>?x\<rceil> - 1" by (rule ceiling_diff_one)
  ultimately show ?case by simp
qed simp

declare wait_loop.simps [simp del]

definition wait_for_approval_or_cancel :: "(nat \<Rightarrow> poll) \<Rightarrow> bool \<Rightarrow> rat \<Rightarrow> rat \<Rightarrow> json option" where
  "wait_for_approval_or_cancel polls has_task timeout_seconds poll_interval =
     wait_loop polls has_task timeout_seconds poll_interval 0 0"

text \<open>\<open>_approval_handler\<close> of \<open>worker.py\<close>: what the agent may do with the tool.\<close>

definition approval_handler :: "manager \<Rightarrow> string \<Rightarrow> string \<Rightarrow> (nat \<Rightarrow> poll) \<Rightarrow> bool \<Rightarrow> json" where
  "approval_handler pm session tool polls has_task =
     (if is_tool_approved session tool pm then J_str ''allow_once''
      else (case wait_for_approval_or_cancel polls has_task 300 1 of
              None \<Rightarrow> J_str ''stop''
            | Some r \<Rightarrow> py_or r (J_str ''stop'')))"

section \<open>Where an answer goes\<close>

lemma upd_same [simp]: "m x = None \<Longrightarrow> m(x := None) = m"
  by auto

lemma deliver_fresh: "pm_pending pm k = None \<Longrightarrow> deliver k r pm = pm\<lparr>pm_cached := (pm_cached pm)(k \<mapsto> r)\<rparr>"
  by (simp add: deliver_def)

text \<open>The order of an approval and its request does not matter: an answer that arrives before the
  request is registered leaves the manager in the same state as one that arrives after it, the
  session's approvals included, and the agent that waits on the request wakes up with it.\<close>

theorem approval_order_irrelevant:
  assumes "pm_pending pm approval_id = None" "pm_cached pm approval_id = None" "tool \<noteq> []"
  shows "fst (request_approval approval_id tool session (deliver approval_id r pm))
         = deliver approval_id r (fst (request_approval approval_id tool session pm))
     \<and> await_wake (snd (request_approval approval_id tool session pm))
         (deliver approval_id r (fst (request_approval approval_id tool session pm))) = Some r"
  using assms
  by (auto simp: request_approval_def register_def deliver_def answer_def await_wake_def Let_def
      approve_tool_for_session_def)

lemma approval_order_irrelevant_witness:
  "await_wake 0 (deliver ''i'' allow_all (fst (request_approval ''i'' ''bash'' ''s'' new_manager))) = Some allow_all"
  using approval_order_irrelevant[of new_manager "''i''" "''bash''" "''s''" allow_all]
  by (simp add: new_manager_def request_approval_def)

text \<open>Structured input is waited for by its id, and there the order matters: an answer after the wait
  began reaches the agent; one between the registration and the wait, and one before the
  registration, are lost: the wait returns at once as if the time were over.\<close>

theorem early_input_is_lost:
  assumes "pm_pending pm input_id = None" "pm_cached pm input_id = None"
  shows "snd (await_begin input_id (fst (create_input_request input_id kind session pm)))
         = Waiting (snd (create_input_request input_id kind session pm))
     \<and> await_wake (snd (create_input_request input_id kind session pm))
         (submit_input input_id r (fst (create_input_request input_id kind session pm))) = Some r
     \<and> snd (await_begin input_id (submit_input input_id r (fst (create_input_request input_id kind session pm))))
         = Returned None
     \<and> snd (await_begin input_id (fst (create_input_request input_id kind session (submit_input input_id r pm))))
         = Returned None"
  using assms
  by (auto simp: create_input_request_def register_def submit_input_def deliver_def answer_def await_wake_def
      await_begin_def Let_def)

lemma early_input_is_lost_witness:
  "snd (await_begin ''i'' (submit_input ''i'' (J_obj [(''KEY'', J_str ''v'')])
     (fst (create_input_request ''i'' ''node_config'' ''s'' new_manager)))) = Returned None"
  using early_input_is_lost[of new_manager "''i''"] by (simp add: new_manager_def)

section \<open>What a session has approved\<close>

datatype input_op =
    Request_approval string string string
  | Create_input string string string
  | Deliver string json
  | Submit string json
  | Cancel string
  | Await_begin string
  | Await_timeout string
  | Approve string string
  | Clear string

fun apply_input_op :: "input_op \<Rightarrow> manager \<Rightarrow> manager" where
  "apply_input_op (Request_approval k tool session) pm = fst (request_approval k tool session pm)"
| "apply_input_op (Create_input k kind session) pm = fst (create_input_request k kind session pm)"
| "apply_input_op (Deliver k r) pm = deliver k r pm"
| "apply_input_op (Submit k r) pm = submit_input k r pm"
| "apply_input_op (Cancel k) pm = cancel_input k pm"
| "apply_input_op (Await_begin k) pm = fst (await_begin k pm)"
| "apply_input_op (Await_timeout k) pm = await_timeout k pm"
| "apply_input_op (Approve session tool) pm = approve_tool_for_session session tool pm"
| "apply_input_op (Clear session) pm = clear_session_approvals session pm"

definition run_inputs :: "input_op list \<Rightarrow> manager" where
  "run_inputs ops = fold apply_input_op ops new_manager"

text \<open>The user answers ``allow all'' to the pending approval \<open>k\<close> of this tool in this session.\<close>

definition answers_allow_all :: "string \<Rightarrow> json \<Rightarrow> manager \<Rightarrow> string \<Rightarrow> string \<Rightarrow> bool" where
  "answers_allow_all k r pm session tool \<longleftrightarrow>
     r = allow_all \<and> tool \<noteq> []
     \<and> (\<exists>i. pm_pending pm k = Some i \<and> rq_kind (pm_requests pm ! i) = ''approval''
            \<and> rq_session_id (pm_requests pm ! i) = session \<and> rq_tool_name (pm_requests pm ! i) = Some tool)"

fun grants :: "input_op \<Rightarrow> manager \<Rightarrow> string \<Rightarrow> string \<Rightarrow> bool" where
  "grants (Approve s t) pm session tool \<longleftrightarrow> s = session \<and> t = tool"
| "grants (Request_approval k t s) pm session tool \<longleftrightarrow> s = session \<and> t = tool \<and> pm_cached pm k = Some allow_all"
| "grants (Deliver k r) pm session tool \<longleftrightarrow> answers_allow_all k r pm session tool"
| "grants (Submit k r) pm session tool \<longleftrightarrow> answers_allow_all k r pm session tool"
| "grants _ pm session tool \<longleftrightarrow> False"

lemma approved_deliver:
  "is_tool_approved session tool (deliver k r pm) \<longleftrightarrow>
     is_tool_approved session tool pm \<or> answers_allow_all k r pm session tool"
  by (auto simp: deliver_def answers_allow_all_def is_tool_approved_def approve_tool_for_session_def Let_def
      split: option.splits)

lemma not_cancelled [simp]: "cancelled \<noteq> allow_all"
  by (simp add: cancelled_def allow_all_def)

lemma approved_step:
  "is_tool_approved session tool (apply_input_op op pm) \<longleftrightarrow>
     grants op pm session tool \<or> is_tool_approved session tool pm \<and> op \<noteq> Clear session"
proof (cases op)
  case (Request_approval k t s)
  then show ?thesis
    by (auto simp: request_approval_def register_def is_tool_approved_def approve_tool_for_session_def Let_def
        split: option.splits)
next
  case (Create_input k kind s)
  then show ?thesis
    by (auto simp: create_input_request_def register_def is_tool_approved_def Let_def split: option.splits)
next
  case (Deliver k r)
  then show ?thesis by (simp add: approved_deliver disj_commute)
next
  case (Submit k r)
  then show ?thesis
    by (auto simp: submit_input_def approved_deliver) (auto simp: is_tool_approved_def answers_allow_all_def)
next
  case (Cancel k)
  then show ?thesis
    by (auto simp: cancel_input_def submit_input_def approved_deliver)
       (auto simp: is_tool_approved_def answers_allow_all_def)
next
  case (Await_begin k)
  then show ?thesis by (auto simp: await_begin_def is_tool_approved_def split: option.splits)
qed (auto simp: is_tool_approved_def await_timeout_def approve_tool_for_session_def
    clear_session_approvals_def)

text \<open>C17: A tool is approved for a session exactly when, at some step, the session's user answered
  ``allow all'' to a request for that tool (or the session approved it outright), and the session's
  approvals were not cleared since: no answer of another session, to another tool, or to another kind
  of request grants it.\<close>

theorem approvals_have_a_cause:
  "is_tool_approved session tool (run_inputs ops) \<longleftrightarrow>
     (\<exists>a op b. ops = a @ op # b \<and> grants op (run_inputs a) session tool \<and> Clear session \<notin> set b)"
proof (induction ops rule: rev_induct)
  case Nil
  show ?case by (simp add: run_inputs_def new_manager_def is_tool_approved_def)
next
  case (snoc x ops)
  have "is_tool_approved session tool (run_inputs (ops @ [x])) \<longleftrightarrow>
      grants x (run_inputs ops) session tool \<or> is_tool_approved session tool (run_inputs ops) \<and> x \<noteq> Clear session"
    by (simp add: run_inputs_def approved_step)
  also have "\<dots> \<longleftrightarrow> (\<exists>a op b. ops @ [x] = a @ op # b \<and> grants op (run_inputs a) session tool \<and> Clear session \<notin> set b)"
    (is "_ \<longleftrightarrow> ?R")
  proof
    assume "grants x (run_inputs ops) session tool \<or> is_tool_approved session tool (run_inputs ops) \<and> x \<noteq> Clear session"
    then show ?R
    proof
      assume "grants x (run_inputs ops) session tool"
      then show ?R by (intro exI[of _ ops] exI[of _ x] exI[of _ "[]"]) simp
    next
      assume *: "is_tool_approved session tool (run_inputs ops) \<and> x \<noteq> Clear session"
      with snoc.IH obtain a op b where "ops = a @ op # b" "grants op (run_inputs a) session tool" "Clear session \<notin> set b"
        by blast
      then have "ops @ [x] = a @ op # (b @ [x])" "Clear session \<notin> set (b @ [x])" using * by auto
      with \<open>grants op (run_inputs a) session tool\<close> show ?R by blast
    qed
  next
    assume ?R
    then obtain a op b where r: "ops @ [x] = a @ op # b" "grants op (run_inputs a) session tool" "Clear session \<notin> set b"
      by blast
    show "grants x (run_inputs ops) session tool \<or> is_tool_approved session tool (run_inputs ops) \<and> x \<noteq> Clear session"
    proof (cases b rule: rev_cases)
      case Nil
      with r show ?thesis by simp
    next
      case (snoc b' y)
      with r have "ops = a @ op # b'" "x = y" by auto
      with r snoc snoc.IH show ?thesis by auto
    qed
  qed
  finally show ?case .
qed

section \<open>The wait for an approval\<close>

text \<open>What the first poll that ends the wait makes it return.\<close>

definition poll_ends :: "bool \<Rightarrow> poll \<Rightarrow> bool" where
  "poll_ends has_task p \<longleftrightarrow> po_response p \<noteq> None \<or> has_task \<and> po_cancelled p"

definition poll_result :: "poll \<Rightarrow> json" where
  "poll_result p = (case po_response p of Some r \<Rightarrow> r | None \<Rightarrow> J_str ''cancel'')"

lemma wait_loop_find:
  "k \<le> n \<Longrightarrow> wait_loop polls has_task (of_nat n) 1 k (of_nat k)
     = map_option (\<lambda>k. poll_result (polls k)) (find (\<lambda>k. poll_ends has_task (polls k)) [k..<n])"
proof (induction "n - k" arbitrary: k)
  case 0
  then show ?case by (subst wait_loop.simps) simp
next
  case (Suc d)
  then have "k < n" by linarith
  then have "[k..<n] = k # [Suc k..<n]" by (rule upt_conv_Cons)
  moreover have "of_nat (Suc k) = (of_nat k + 1 :: rat)" by simp
  then have "wait_loop polls has_task (of_nat n) 1 (Suc k) (of_nat k + 1)
     = map_option (\<lambda>k. poll_result (polls k)) (find (\<lambda>k. poll_ends has_task (polls k)) [Suc k..<n])"
    using Suc.hyps(1)[of "Suc k"] Suc.hyps(2) \<open>k < n\<close> by (metis Suc_diff_Suc Suc_inject Suc_leI)
  ultimately show ?case
    using \<open>k < n\<close> Suc.hyps(2)
    by (subst wait_loop.simps) (cases "po_response (polls k)"; simp add: poll_ends_def poll_result_def)
qed

text \<open>The gate in front of a tool is closed by default and opens in bounded time: unless the session
  approved the tool, the handler looks at most three hundred times; the first look that finds an
  answer or a cancellation decides, and with neither the tool is stopped.\<close>

theorem approval_handler_decides:
  "approval_handler pm session tool polls has_task =
     (if is_tool_approved session tool pm then J_str ''allow_once''
      else case find (\<lambda>k. poll_ends has_task (polls k)) [0..<300] of
             None \<Rightarrow> J_str ''stop''
           | Some k \<Rightarrow> py_or (poll_result (polls k)) (J_str ''stop''))"
  using wait_loop_find[of 0 300 polls has_task]
  by (simp add: approval_handler_def wait_for_approval_or_cancel_def split: option.splits)

end
