(* ===== verification/Trigger_Events.thy ===== *)
theory Trigger_Events
  imports Run_Lifecycle Py_Text
begin

text \<open>
  What starts a run: the events of triggers and their way to the task queue.  The cron producer of the
  controller (\<open>services/automations/cron_producer.py\<close>), signed webhooks (\<open>routers/app_triggers.py\<close>) and
  gateway commands (\<open>services/gateway/triggers/common.py\<close>) write a row of \<open>automation_events\<close>, commit it
  and enqueue a dispatch; the recovery drain (\<open>services/apps/schedule_triggers.py\<close>, called by
  \<open>missed_event_drain.py\<close>) and the sweep of a new leader (\<open>sweep_on_acquire.py\<close>) enqueue what was left behind.

  The state is the tables of triggers and events, the definitions and owners they refer to, and the
  list of jobs the queue has accepted.  \<open>trigger_op\<close> is any of the operations, and a run any sequence of
  them with any clocks, lock conflicts, failures of the queue and deaths of the process.  Arguments:
  croniter with the time zones, \<open>isoformat\<close>, HMAC-SHA256, \<open>json.loads\<close>.

  The lemmas are about the relation \<open>advances\<close>: what one operation may do to the events and the queue.
\<close>

subsection \<open>Tables\<close>

record owner_row =
  ow_is_deleted :: bool
  ow_is_suspended :: bool

record trigger_row =
  tg_id :: uuid
  tg_automation_id :: uuid
  tg_kind :: string
  tg_config :: json
  tg_next_run_at :: "instant option"
  tg_last_run_at :: "instant option"
  tg_is_active :: bool

text \<open>The texts of the idempotency keys, by what they are built from.\<close>

datatype idem_key = Cron_key uuid instant | Webhook_key uuid json string

record trigger_event = event_row +
  te_id :: uuid
  te_automation_id :: uuid
  te_trigger_id :: "uuid option"
  te_kind :: string
  te_key :: "idem_key option"
  te_received_at :: instant
  te_dispatched_at :: "instant option"
  te_failed_at :: "instant option"
  te_last_error :: "string option"

text \<open>A job of \<open>dispatch_automation_task\<close>; its job id is the event's.\<close>

record dispatch_job =
  dj_automation :: uuid
  dj_event :: uuid
  dj_worker :: string

record trigger_db =
  tb_triggers :: "trigger_row list"
  tb_defs :: "uuid \<rightharpoonup> automation_row"
  tb_owners :: "uuid \<rightharpoonup> owner_row"
  tb_events :: "trigger_event list"
  tb_jobs :: "dispatch_job list"

subsection \<open>Stamps\<close>

definition update_event :: "uuid \<Rightarrow> (trigger_event \<Rightarrow> trigger_event) \<Rightarrow> trigger_db \<Rightarrow> trigger_db" where
  "update_event k f db = db\<lparr>tb_events := map (\<lambda>e. if te_id e = k then f e else e) (tb_events db)\<rparr>"

definition mark_dispatched :: "instant \<Rightarrow> trigger_event \<Rightarrow> trigger_event" where
  "mark_dispatched now e = e\<lparr>te_dispatched_at := Some now\<rparr>"

definition mark_failed :: "instant \<Rightarrow> string \<Rightarrow> trigger_event \<Rightarrow> trigger_event" where
  "mark_failed now error e = e\<lparr>te_failed_at := Some now, te_last_error := Some (take 1000 error)\<rparr>"

definition ingest_trigger_event ::
  "uuid \<Rightarrow> uuid \<Rightarrow> uuid option \<Rightarrow> string \<Rightarrow> json_dict \<Rightarrow> idem_key option \<Rightarrow> instant \<Rightarrow> trigger_event" where
  "ingest_trigger_event event_id automation_id trigger_id kind payload key now =
     \<lparr>ev_payload = payload, ev_processed_at = None, te_id = event_id, te_automation_id = automation_id,
      te_trigger_id = trigger_id, te_kind = kind, te_key = key, te_received_at = now,
      te_dispatched_at = None, te_failed_at = None, te_last_error = None\<rparr>"

subsection \<open>The cron producer\<close>

datatype slot = Next_slot instant | Bad_schedule | Schedule_raises

text \<open>\<open>ce_slot\<close> is croniter in the time zone of the trigger: the first instant of the schedule after the
  given one, \<open>Bad_schedule\<close> where the zone or the expression is refused with one of the caught exceptions,
  \<open>Schedule_raises\<close> with any other.\<close>

record cron_env =
  ce_slot :: "json \<Rightarrow> json \<Rightarrow> instant \<Rightarrow> slot"
  ce_iso :: "instant \<Rightarrow> string"

abbreviation "cron_max_batch \<equiv> (100 :: nat)"

definition is_due :: "trigger_db \<Rightarrow> uuid set \<Rightarrow> instant \<Rightarrow> trigger_row \<Rightarrow> bool" where
  "is_due db locked now t \<longleftrightarrow>
     tg_kind t = ''cron'' \<and> tg_is_active t \<and> tg_id t \<notin> locked
     \<and> (case tb_defs db (tg_automation_id t) of
          None \<Rightarrow> False
        | Some d \<Rightarrow> ad_is_active d \<and> tb_owners db (ad_owner_user_id d) \<noteq> None)
     \<and> (case tg_next_run_at t of None \<Rightarrow> True | Some n \<Rightarrow> n \<le> now)"

text \<open>\<open>ORDER BY next_run_at ASC\<close> puts the rows without one last.\<close>

definition claim_due :: "trigger_db \<Rightarrow> uuid set \<Rightarrow> instant \<Rightarrow> trigger_row list" where
  "claim_due db locked now =
     (let rows = filter (is_due db locked now) (tb_triggers db)
      in take cron_max_batch
           (sort_key (\<lambda>t. the (tg_next_run_at t)) (filter (\<lambda>t. tg_next_run_at t \<noteq> None) rows)
            @ filter (\<lambda>t. tg_next_run_at t = None) rows))"

definition owner_of :: "trigger_db \<Rightarrow> trigger_row \<Rightarrow> owner_row" where
  "owner_of db t = the (tb_owners db (ad_owner_user_id (the (tb_defs db (tg_automation_id t)))))"

definition owner_blocked :: "owner_row \<Rightarrow> string option" where
  "owner_blocked owner = (if ow_is_deleted owner then Some ''owner_deleted''
                      else if ow_is_suspended owner then Some ''owner_suspended'' else None)"

definition cron_event ::
  "cron_env \<Rightarrow> instant \<Rightarrow> uuid \<Rightarrow> trigger_row \<Rightarrow> json \<Rightarrow> json \<Rightarrow> string option \<Rightarrow> trigger_event" where
  "cron_event ce now event_id t cron_expr tz_name blocked =
     (let e = ingest_trigger_event event_id (tg_automation_id t) (Some (tg_id t)) ''cron''
                ([(''fired_at'', J_str (ce_iso ce now)), (''cron_expression'', cron_expr),
                  (''timezone'', tz_name), (''kind'', J_str ''cron'')]
                 @ (case blocked of None \<Rightarrow> [] | Some reason \<Rightarrow> [(''skipped_reason'', J_str reason)]))
                (Some (Cron_key (tg_id t) now)) now
      in case blocked of
           None \<Rightarrow> e
         | Some reason \<Rightarrow> e\<lparr>te_dispatched_at := Some now, te_failed_at := Some now, te_last_error := Some reason\<rparr>)"

text \<open>One claimed row: its update, the event to insert and whether to enqueue it.  \<open>None\<close> where an exception
  leaves the tick.\<close>

definition fire_row ::
  "cron_env \<Rightarrow> instant \<Rightarrow> uuid \<Rightarrow> owner_row \<Rightarrow> trigger_row \<Rightarrow> (trigger_row \<times> trigger_event option) option" where
  "fire_row ce now event_id owner t =
     (case (if truthy (tg_config t) then tg_config t else J_obj []) of
        J_obj cfg \<Rightarrow>
          (let cron_expr = py_or (jget cfg ''cron_expression'') (jget cfg ''expression'');
               tz_name = py_or (jget cfg ''timezone'') (J_str ''UTC'')
           in if \<not> truthy cron_expr then Some (t\<lparr>tg_is_active := False\<rparr>, None)
              else (case ce_slot ce cron_expr tz_name now of
                      Bad_schedule \<Rightarrow> Some (t\<lparr>tg_is_active := False\<rparr>, None)
                    | Schedule_raises \<Rightarrow> None
                    | Next_slot new_next \<Rightarrow>
                        if tg_next_run_at t = None then Some (t\<lparr>tg_next_run_at := Some new_next\<rparr>, None)
                        else Some (t\<lparr>tg_next_run_at := Some new_next, tg_last_run_at := Some now\<rparr>,
                                   Some (cron_event ce now event_id t cron_expr tz_name (owner_blocked owner)))))
      | _ \<Rightarrow> None)"

text \<open>The i-th row gets the i-th fresh id.\<close>

fun fire_rows ::
  "cron_env \<Rightarrow> trigger_db \<Rightarrow> instant \<Rightarrow> (nat \<Rightarrow> uuid) \<Rightarrow> nat \<Rightarrow> trigger_row list
   \<Rightarrow> (trigger_row list \<times> trigger_event list) option" where
  "fire_rows ce db now fresh i [] = Some ([], [])"
| "fire_rows ce db now fresh i (t # ts) =
     (case fire_row ce now (fresh i) (owner_of db t) t of
        None \<Rightarrow> None
      | Some (t', e) \<Rightarrow>
          (case fire_rows ce db now fresh (Suc i) ts of
             None \<Rightarrow> None
           | Some (ts', es) \<Rightarrow> Some (t' # ts', (case e of None \<Rightarrow> es | Some x \<Rightarrow> x # es))))"

definition update_triggers :: "trigger_row list \<Rightarrow> trigger_row list \<Rightarrow> trigger_row list" where
  "update_triggers changed =
     map (\<lambda>t. case find (\<lambda>t'. tg_id t' = tg_id t) changed of None \<Rightarrow> t | Some t' \<Rightarrow> t')"

text \<open>The enqueue calls in order; the i-th raises where \<open>enq i\<close> is the text of an exception.\<close>

definition job_of :: "string \<Rightarrow> trigger_event \<Rightarrow> dispatch_job" where
  "job_of worker e = \<lparr>dj_automation = te_automation_id e, dj_event = te_id e, dj_worker = worker\<rparr>"

fun enqueue_all :: "(nat \<Rightarrow> string option) \<Rightarrow> nat \<Rightarrow> dispatch_job list \<Rightarrow> dispatch_job list" where
  "enqueue_all enq i [] = []"
| "enqueue_all enq i (j # js) =
     (if enq i = None then j # enqueue_all enq (Suc i) js else enqueue_all enq (Suc i) js)"

datatype tick_exc = Tick_lease_lost lease_lost | Row_raises | Duplicate_key

definition event_keys :: "trigger_event list \<Rightarrow> idem_key list" where
  "event_keys es = List.map_filter te_key es"

definition cron_tick ::
  "cron_env \<Rightarrow> lease_table \<Rightarrow> int \<Rightarrow> instant \<Rightarrow> uuid set \<Rightarrow> (nat \<Rightarrow> uuid) \<Rightarrow> (nat \<Rightarrow> string option) \<Rightarrow> trigger_db
   \<Rightarrow> trigger_db \<times> (tick_exc, nat) result" where
  "cron_tick ce leases current_term now locked fresh enq db =
     (case verify_lease_or_raise leases current_term of
        Some lost \<Rightarrow> (db, Inl (Tick_lease_lost lost))
      | None \<Rightarrow>
          (case fire_rows ce db now fresh 0 (claim_due db locked now) of
             None \<Rightarrow> (db, Inl Row_raises)
           | Some (changed, es) \<Rightarrow>
               if \<not> distinct (event_keys (tb_events db @ es)) then (db, Inl Duplicate_key)
               else (let jobs = enqueue_all enq 0 (map (job_of ''controller-cron'')
                                  (filter (\<lambda>e. te_dispatched_at e = None) es))
                     in (db\<lparr>tb_triggers := update_triggers changed (tb_triggers db),
                            tb_events := tb_events db @ es, tb_jobs := tb_jobs db @ jobs\<rparr>,
                         Inr (length jobs)))))"

subsection \<open>Recovery\<close>

definition is_orphan :: "instant \<Rightarrow> trigger_event \<Rightarrow> bool" where
  "is_orphan cutoff e \<longleftrightarrow> te_dispatched_at e = None \<and> te_failed_at e = None \<and> te_received_at e < cutoff"

abbreviation "recovery_grace \<equiv> (5 :: int)"
abbreviation "recovery_limit \<equiv> (100 :: nat)"

text \<open>One event of the drain; \<open>pool\<close> is whether there is an ARQ pool.  A call that raises is rolled back to
  the savepoint and the event is marked.\<close>

definition recover_event ::
  "bool \<Rightarrow> string option \<Rightarrow> instant \<Rightarrow> trigger_event \<Rightarrow> trigger_db \<Rightarrow> trigger_db" where
  "recover_event pool enq now e db =
     (case tb_defs db (te_automation_id e) of
        None \<Rightarrow> update_event (te_id e) (mark_failed now ''automation missing'') db
      | Some d \<Rightarrow>
          if \<not> ad_is_active d then update_event (te_id e) (mark_failed now ''automation inactive'') db
          else if \<not> pool then update_event (te_id e) (mark_failed now ''no arq pool available'') db
          else (case enq of
                  Some exc \<Rightarrow> update_event (te_id e) (mark_failed now exc) db
                | None \<Rightarrow> update_event (te_id e) (mark_dispatched now)
                            (db\<lparr>tb_jobs := tb_jobs db @ [job_of ''trigger-recovery-sweep'' e]\<rparr>)))"

fun recover_events ::
  "bool \<Rightarrow> (nat \<Rightarrow> string option) \<Rightarrow> instant \<Rightarrow> nat \<Rightarrow> trigger_event list \<Rightarrow> trigger_db \<Rightarrow> trigger_db" where
  "recover_events pool enq now i [] db = db"
| "recover_events pool enq now i (e # es) db =
     recover_events pool enq now (Suc i) es (recover_event pool (enq i) now e db)"

definition orphans :: "trigger_db \<Rightarrow> uuid set \<Rightarrow> instant \<Rightarrow> trigger_event list" where
  "orphans db locked now =
     take recovery_limit
       (sort_key te_received_at
          (filter (\<lambda>e. is_orphan (now - recovery_grace) e \<and> te_id e \<notin> locked) (tb_events db)))"

definition process_trigger_events_batch ::
  "bool \<Rightarrow> (nat \<Rightarrow> string option) \<Rightarrow> uuid set \<Rightarrow> instant \<Rightarrow> trigger_db \<Rightarrow> trigger_db" where
  "process_trigger_events_batch pool enq locked now db =
     recover_events pool enq now 0 (orphans db locked now) db"

text \<open>The one-shot sweep of a new leader: the events are stamped and committed, then enqueued.\<close>

abbreviation "sweep_stale_seconds \<equiv> (60 :: int)"
abbreviation "sweep_limit \<equiv> (500 :: nat)"

definition sweep_once :: "(nat \<Rightarrow> string option) \<Rightarrow> instant \<Rightarrow> trigger_db \<Rightarrow> trigger_db \<times> nat" where
  "sweep_once enq now db =
     (let stale = take sweep_limit (filter (is_orphan (now - sweep_stale_seconds)) (tb_events db));
          stamped = map (\<lambda>e. if te_id e \<in> te_id ` set stale \<and> te_dispatched_at e = None
                             then mark_dispatched now e else e) (tb_events db);
          jobs = enqueue_all enq 0 (map (job_of ''controller-sweep'') stale)
      in (db\<lparr>tb_events := stamped, tb_jobs := tb_jobs db @ jobs\<rparr>, length jobs))"

subsection \<open>Webhooks\<close>

record webhook_request =
  wh_content_length :: "string option"
  wh_signature :: string
  wh_key_id :: string
  wh_body :: string
  wh_host :: string

record webhook_env =
  we_hmac :: "string \<Rightarrow> string \<Rightarrow> string"
  we_parse :: "string \<Rightarrow> json option"
  we_decode :: "string \<Rightarrow> string"
  we_str :: py_str

datatype http_error =
    Payload_too_large | Trigger_not_found | Webhook_misconfigured | Invalid_signature
  | Automation_paused | Dedup_lost_row | Queue_unavailable | Enqueue_failed | Process_died

datatype accepted = Enqueued uuid | Replay uuid

definition max_webhook_body_bytes :: int where
  "max_webhook_body_bytes = 1024 * 1024"

definition read_capped_body :: "webhook_request \<Rightarrow> (http_error, string) result" where
  "read_capped_body req =
     (let declared = (case wh_content_length req of
                        None \<Rightarrow> -1
                      | Some s \<Rightarrow> if s = [] then -1 else (case int_of_str s of None \<Rightarrow> -1 | Some n \<Rightarrow> n))
      in if declared > max_webhook_body_bytes then Inl Payload_too_large
         else if int (length (wh_body req)) > max_webhook_body_bytes then Inl Payload_too_large
         else Inr (wh_body req))"

text \<open>\<open>s.split("=", 1)[1]\<close>.\<close>

definition normalize_sig :: "string \<Rightarrow> string" where
  "normalize_sig provided =
     (let s = strip provided
      in if prefix ''sha256='' (map ascii_lower s) then drop 1 (dropWhile (\<lambda>c. c \<noteq> CHR ''='') s) else s)"

definition secret_of_entry :: "py_str \<Rightarrow> json \<Rightarrow> (json \<times> string) option" where
  "secret_of_entry str entry =
     (case entry of
        J_obj e \<Rightarrow>
          if \<not> truthy (jget e ''secret'') \<or> truthy (jget e ''revoked_at'') then None
          else Some (py_or (jget e ''kid'') (J_str ''v?''), text_of str (jget e ''secret''))
      | _ \<Rightarrow> None)"

definition legacy_secret :: "json_dict \<Rightarrow> (json \<times> string) list" where
  "legacy_secret trig_cfg =
     (case jget trig_cfg ''webhook_secret'' of
        J_str s \<Rightarrow> if s \<noteq> [] then [(J_str ''legacy'', s)] else []
      | _ \<Rightarrow> [])"

definition candidate_secrets :: "py_str \<Rightarrow> json_dict \<Rightarrow> (json \<times> string) list" where
  "candidate_secrets str trig_cfg =
     (case jget trig_cfg ''webhook_secrets'' of
        J_list (e # es) \<Rightarrow> List.map_filter (secret_of_entry str) (e # es)
      | _ \<Rightarrow> legacy_secret trig_cfg)"

definition had_any_secret_field :: "json_dict \<Rightarrow> bool" where
  "had_any_secret_field trig_cfg \<longleftrightarrow>
     (case jget trig_cfg ''webhook_secrets'' of J_list xs \<Rightarrow> xs \<noteq> [] | _ \<Rightarrow> False)
     \<or> (case jget trig_cfg ''webhook_secret'' of J_str _ \<Rightarrow> True | _ \<Rightarrow> False)"

definition verify_webhook_signature ::
  "webhook_env \<Rightarrow> webhook_request \<Rightarrow> string \<Rightarrow> (json \<times> string) list \<Rightarrow> json option" where
  "verify_webhook_signature we req body candidates =
     (let provided_sig = normalize_sig (wh_signature req);
          requested_kid = strip (wh_key_id req);
          matches = (\<lambda>(kid, secret). provided_sig = we_hmac we secret body)
      in if requested_kid \<noteq> []
         then (case find (\<lambda>(kid, _). kid = J_str requested_kid) candidates of
                 None \<Rightarrow> None
               | Some c \<Rightarrow> if matches c then Some (fst c) else None)
         else map_option fst (find matches candidates))"

text \<open>The trigger of a request: by installed app and name, or by automation and token.  Triggers of paused
  automations are found too.\<close>

definition webhook_triggers :: "trigger_db \<Rightarrow> (json_dict \<times> trigger_row) list" where
  "webhook_triggers db =
     List.map_filter (\<lambda>t. if tg_kind t = ''webhook'' \<and> tg_is_active t \<and> tb_defs db (tg_automation_id t) \<noteq> None
                          then (case (if truthy (tg_config t) then tg_config t else J_obj []) of
                                  J_obj cfg \<Rightarrow> Some (cfg, t) | _ \<Rightarrow> None)
                          else None) (tb_triggers db)"

definition resolve_automation_for_webhook :: "py_str \<Rightarrow> trigger_db \<Rightarrow> uuid \<Rightarrow> string \<Rightarrow> trigger_row option" where
  "resolve_automation_for_webhook str db instance_id trigger_name =
     map_option snd (find (\<lambda>(cfg, t).
        (let cfg_name = py_or (jget cfg ''name'') (jget cfg ''trigger_name'')
         in text_of str (jget cfg ''app_instance_id'') = uuid_str instance_id
            \<and> (truthy cfg_name \<longrightarrow> text_of str cfg_name = trigger_name))) (webhook_triggers db))"

definition resolve_automation_for_standalone_webhook :: "trigger_db \<Rightarrow> uuid \<Rightarrow> string \<Rightarrow> trigger_row option" where
  "resolve_automation_for_standalone_webhook db automation_id token =
     (if token = [] then None
      else map_option snd (find (\<lambda>(cfg, t). tg_automation_id t = automation_id
             \<and> jget cfg ''token'' = J_str token) (webhook_triggers db)))"

definition webhook_payload :: "webhook_env \<Rightarrow> string \<Rightarrow> json_dict" where
  "webhook_payload we body =
     (case (if body = [] then Some (J_obj []) else we_parse we body) of
        None \<Rightarrow> [(''_raw'', J_str (take 8192 (we_decode we body)))]
      | Some (J_obj d) \<Rightarrow> d
      | Some parsed \<Rightarrow> [(''_payload'', parsed)])"

text \<open>What becomes of the enqueue call of a handler; the process may die before it or between it and the
  stamp.\<close>

datatype queue_call = No_pool | Raises string | Accepts | Dies_before | Dies_after

definition config_of :: "trigger_row \<Rightarrow> json_dict" where
  "config_of t = (case tg_config t of J_obj c \<Rightarrow> c | _ \<Rightarrow> [])"

definition webhook_event ::
  "webhook_env \<Rightarrow> webhook_request \<Rightarrow> string \<Rightarrow> trigger_row \<Rightarrow> json \<Rightarrow> uuid \<Rightarrow> instant \<Rightarrow> trigger_event" where
  "webhook_event we req body trigger kid new_id now =
     ingest_trigger_event new_id (tg_automation_id trigger) (Some (tg_id trigger)) ''webhook''
       (webhook_payload we body) (Some (Webhook_key (tg_id trigger) kid (normalize_sig (wh_signature req)))) now"

definition ingest_signed_webhook ::
  "webhook_env \<Rightarrow> webhook_request \<Rightarrow> string \<Rightarrow> trigger_row \<Rightarrow> uuid \<Rightarrow> queue_call \<Rightarrow> instant \<Rightarrow> trigger_db
   \<Rightarrow> trigger_db \<times> (http_error, accepted) result" where
  "ingest_signed_webhook we req body trigger new_id queue now db =
     (let cfg = config_of trigger;
          candidates = candidate_secrets (we_str we) cfg
      in if candidates = []
         then (db, Inl (if had_any_secret_field cfg then Invalid_signature else Webhook_misconfigured))
         else (case verify_webhook_signature we req body candidates of
           None \<Rightarrow> (db, Inl Invalid_signature)
         | Some kid \<Rightarrow>
             if \<not> ad_is_active (the (tb_defs db (tg_automation_id trigger))) then (db, Inl Automation_paused)
             else
               (let key = Webhook_key (tg_id trigger) kid (normalize_sig (wh_signature req));
                    e = webhook_event we req body trigger kid new_id now
                in if key \<in> set (event_keys (tb_events db))
                   then (case find (\<lambda>e. te_key e = Some key) (tb_events db) of
                           None \<Rightarrow> (db, Inl Dedup_lost_row)
                         | Some original \<Rightarrow> (db, Inr (Replay (te_id original))))
                   else
                     (let db1 = db\<lparr>tb_events := tb_events db @ [e]\<rparr>;
                          queued = db1\<lparr>tb_jobs := tb_jobs db1 @ [job_of (''webhook-handler:'' @ wh_host req) e]\<rparr>
                      in case queue of
                           No_pool \<Rightarrow> (update_event new_id (mark_failed now ''no arq pool available'') db1,
                                       Inl Queue_unavailable)
                         | Raises exc \<Rightarrow> (update_event new_id (mark_failed now exc) db1, Inl Enqueue_failed)
                         | Dies_before \<Rightarrow> (db1, Inl Process_died)
                         | Dies_after \<Rightarrow> (queued, Inl Process_died)
                         | Accepts \<Rightarrow> (update_event new_id (mark_dispatched now) queued, Inr (Enqueued new_id))))))"

text \<open>The two routes.\<close>

datatype webhook_route = App_trigger uuid string | Standalone uuid string

definition webhook_trigger ::
  "webhook_env \<Rightarrow> webhook_route \<Rightarrow> webhook_request \<Rightarrow> uuid \<Rightarrow> queue_call \<Rightarrow> instant \<Rightarrow> trigger_db
   \<Rightarrow> trigger_db \<times> (http_error, accepted) result" where
  "webhook_trigger we route req new_id queue now db =
     (case read_capped_body req of
        Inl e \<Rightarrow> (db, Inl e)
      | Inr body \<Rightarrow>
          (case (case route of
                   App_trigger instance_id name \<Rightarrow> resolve_automation_for_webhook (we_str we) db instance_id name
                 | Standalone automation_id token \<Rightarrow> resolve_automation_for_standalone_webhook db automation_id token) of
             None \<Rightarrow> (db, Inl Trigger_not_found)
           | Some trigger \<Rightarrow> ingest_signed_webhook we req body trigger new_id queue now db))"

subsection \<open>Gateway commands\<close>

text \<open>Without an ARQ pool the in-process queue takes the job, so there is no \<open>No_pool\<close> case here.\<close>

definition command_payload :: "string \<Rightarrow> uuid option \<Rightarrow> string \<Rightarrow> string list \<Rightarrow> json_dict \<Rightarrow> json_dict" where
  "command_payload platform user raw_text args extra =
     fold (\<lambda>(k, v) d. jset d k v) extra
       [(''kind'', J_str ''gateway_command''), (''platform'', J_str platform),
        (''user_id'', (case user of None \<Rightarrow> J_null | Some u \<Rightarrow> J_str (uuid_str u))),
        (''raw_text'', J_str (take 8192 raw_text)), (''args'', J_list (map J_str args))]"

definition ingest_and_enqueue_command ::
  "uuid \<Rightarrow> string \<Rightarrow> json_dict \<Rightarrow> uuid \<Rightarrow> queue_call \<Rightarrow> instant \<Rightarrow> trigger_db \<Rightarrow> trigger_db" where
  "ingest_and_enqueue_command automation_id platform payload new_id queue now db =
     (let e = ingest_trigger_event new_id automation_id None ''gateway_command'' payload None now;
          db1 = db\<lparr>tb_events := tb_events db @ [e]\<rparr>;
          queued = db1\<lparr>tb_jobs := tb_jobs db1 @ [job_of (''gateway:'' @ platform) e]\<rparr>
      in case queue of
           Raises exc \<Rightarrow> update_event new_id (mark_failed now exc) db1
         | Dies_before \<Rightarrow> db1
         | Dies_after \<Rightarrow> queued
         | _ \<Rightarrow> update_event new_id (mark_dispatched now) queued)"

subsection \<open>Runs\<close>

text \<open>\<open>Configure\<close> is what users and administrators do to triggers, definitions and owners.\<close>

datatype trigger_op =
    Cron_tick lease_table int "uuid set" "nat \<Rightarrow> uuid" "nat \<Rightarrow> string option"
  | Drain bool "nat \<Rightarrow> string option" "uuid set"
  | Sweep "nat \<Rightarrow> string option"
  | Webhook webhook_route webhook_request uuid queue_call
  | Command uuid string json_dict uuid queue_call
  | Configure "trigger_row list" "uuid \<rightharpoonup> automation_row" "uuid \<rightharpoonup> owner_row"

record trigger_env =
  tv_cron :: cron_env
  tv_webhook :: webhook_env

fun apply_trigger_op :: "trigger_env \<Rightarrow> instant \<Rightarrow> trigger_op \<Rightarrow> trigger_db \<Rightarrow> trigger_db" where
  "apply_trigger_op env now (Cron_tick leases t locked fresh enq) db =
     fst (cron_tick (tv_cron env) leases t now locked fresh enq db)"
| "apply_trigger_op env now (Drain pool enq locked) db = process_trigger_events_batch pool enq locked now db"
| "apply_trigger_op env now (Sweep enq) db = fst (sweep_once enq now db)"
| "apply_trigger_op env now (Webhook route req k queue) db =
     fst (webhook_trigger (tv_webhook env) route req k queue now db)"
| "apply_trigger_op env now (Command a platform payload k queue) db =
     ingest_and_enqueue_command a platform payload k queue now db"
| "apply_trigger_op env now (Configure ts defs owners) db =
     db\<lparr>tb_triggers := ts, tb_defs := defs, tb_owners := owners\<rparr>"

text \<open>The ids an operation draws are new.\<close>

fun trigger_op_ok :: "trigger_db \<Rightarrow> trigger_op \<Rightarrow> bool" where
  "trigger_op_ok db (Cron_tick leases t locked fresh enq) = (inj fresh \<and> range fresh \<inter> te_id ` set (tb_events db) = {})"
| "trigger_op_ok db (Webhook route req k queue) = (k \<notin> te_id ` set (tb_events db))"
| "trigger_op_ok db (Command a platform payload k queue) = (k \<notin> te_id ` set (tb_events db))"
| "trigger_op_ok db _ = True"

text \<open>From a database with no events, or from any state that was reached.\<close>

inductive trigger_steps :: "trigger_env \<Rightarrow> trigger_db \<Rightarrow> (instant \<times> trigger_op) list \<Rightarrow> trigger_db \<Rightarrow> bool"
  for env where
  stop: "trigger_steps env db [] db"
| go: "trigger_op_ok db t \<Longrightarrow> trigger_steps env (apply_trigger_op env now t db) ts db' \<Longrightarrow>
       trigger_steps env db ((now, t) # ts) db'"

inductive_cases trigger_stepsE: "trigger_steps env db ops db'"

section \<open>What one operation does to events and jobs\<close>

definition is_settled :: "trigger_event \<Rightarrow> bool" where
  "is_settled e \<longleftrightarrow> te_dispatched_at e \<noteq> None \<or> te_failed_at e \<noteq> None"

text \<open>Events are stamped or added, never removed; a settled event stays as it is; a job is for a new event
  or for one that this operation settles.\<close>

definition stamps :: "(trigger_event \<Rightarrow> trigger_event) \<Rightarrow> bool" where
  "stamps f \<longleftrightarrow> (\<forall>e. te_id (f e) = te_id e \<and> te_key (f e) = te_key e \<and> te_received_at (f e) = te_received_at e
     \<and> te_trigger_id (f e) = te_trigger_id e \<and> te_kind (f e) = te_kind e
     \<and> te_automation_id (f e) = te_automation_id e)"

definition advances :: "trigger_db \<Rightarrow> trigger_db \<Rightarrow> bool" where
  "advances db db' \<longleftrightarrow> (\<exists>f new js.
     tb_events db' = map f (tb_events db) @ new \<and> stamps f
     \<and> (\<forall>e \<in> set (tb_events db). is_settled e \<longrightarrow> f e = e)
     \<and> distinct (map te_id new) \<and> (\<forall>e \<in> set new. te_id e \<notin> te_id ` set (tb_events db))
     \<and> distinct (event_keys (tb_events db @ new))
     \<and> tb_jobs db' = tb_jobs db @ js \<and> distinct (map dj_event js)
     \<and> (\<forall>j \<in> set js. dj_event j \<in> te_id ` set new
          \<or> (\<exists>e \<in> set (tb_events db). te_id e = dj_event j \<and> \<not> is_settled e \<and> is_settled (f e))))"

definition events_ok :: "trigger_db \<Rightarrow> bool" where
  "events_ok db \<longleftrightarrow> distinct (map te_id (tb_events db)) \<and> distinct (event_keys (tb_events db))"

lemma event_keys_simps [simp]:
  "event_keys [] = []" "event_keys (es @ fs) = event_keys es @ event_keys fs"
  "event_keys (e # es) = (case te_key e of None \<Rightarrow> event_keys es | Some k \<Rightarrow> k # event_keys es)"
  by (auto simp: event_keys_def List.map_filter_def split: option.splits)

lemma event_keys_stamps: "stamps f \<Longrightarrow> event_keys (map f es) = event_keys es"
  by (induction es) (auto simp: stamps_def split: option.splits)

lemma stamps_ids [simp]: "stamps f \<Longrightarrow> te_id (f e) = te_id e"
  by (simp add: stamps_def)

lemma stamps_id [simp]: "stamps id" "stamps (\<lambda>e. e)"
  by (simp_all add: stamps_def)

lemma stamps_comp: "stamps f \<Longrightarrow> stamps g \<Longrightarrow> stamps (g \<circ> f)"
  by (simp add: stamps_def)

lemma stamps_marks [simp]: "stamps (mark_dispatched now)" "stamps (mark_failed now why)"
  by (simp_all add: stamps_def mark_dispatched_def mark_failed_def)

lemma stamps_if [intro]: "stamps f \<Longrightarrow> stamps (\<lambda>e. if P e then f e else e)"
  by (simp add: stamps_def)

lemma settled_marks [simp]: "is_settled (mark_dispatched now e)" "is_settled (mark_failed now why e)"
  by (simp_all add: is_settled_def mark_dispatched_def mark_failed_def)

lemma map_te_id [simp]: "stamps f \<Longrightarrow> map te_id (map f es) = map te_id es"
  by simp

lemma advances_events_ok:
  assumes "events_ok db" "advances db db'"
  shows "events_ok db'"
proof -
  obtain f new where ev: "tb_events db' = map f (tb_events db) @ new" "stamps f" "distinct (map te_id new)"
    "\<forall>e \<in> set new. te_id e \<notin> te_id ` set (tb_events db)" "distinct (event_keys (tb_events db @ new))"
    using assms(2) unfolding advances_def by blast
  have "x \<notin> set (map te_id (tb_events db))" if "x \<in> set (map te_id new)" for x
  proof -
    obtain e where "e \<in> set new" "x = te_id e" using \<open>x \<in> set (map te_id new)\<close> by auto
    then show ?thesis using bspec[OF ev(4)] by simp
  qed
  then have "set (map te_id (tb_events db)) \<inter> set (map te_id new) = {}" by (meson disjoint_iff)
  then have "distinct (map te_id (tb_events db'))"
    using assms(1) ev(2,3) unfolding ev(1) map_append map_te_id[OF ev(2)] by (simp add: events_ok_def)
  then show ?thesis using ev(5) by (simp add: events_ok_def ev(1) event_keys_stamps[OF ev(2)])
qed

lemma advancesI:
  assumes "tb_events db' = map f (tb_events db) @ new" "stamps f"
    "\<And>e. e \<in> set (tb_events db) \<Longrightarrow> is_settled e \<Longrightarrow> f e = e"
    "distinct (map te_id new)" "\<And>e. e \<in> set new \<Longrightarrow> te_id e \<notin> te_id ` set (tb_events db)"
    "distinct (event_keys (tb_events db @ new))"
    "tb_jobs db' = tb_jobs db @ js" "distinct (map dj_event js)"
    "\<And>j. j \<in> set js \<Longrightarrow> dj_event j \<in> te_id ` set new
       \<or> (\<exists>e \<in> set (tb_events db). te_id e = dj_event j \<and> \<not> is_settled e \<and> is_settled (f e))"
  shows "advances db db'"
  unfolding advances_def using assms by blast

lemma advances_refl [intro, simp]: "events_ok db \<Longrightarrow> advances db db"
  unfolding advances_def events_ok_def by (intro exI[of _ id] exI[of _ "[]"]) simp

subsection \<open>The tick\<close>

lemma enqueue_all_subseq: "subseq (enqueue_all enq i js) js"
  by (induction enq i js rule: enqueue_all.induct) auto

lemma distinct_subseq: "subseq xs ys \<Longrightarrow> distinct ys \<Longrightarrow> distinct xs"
  by (induction rule: list_emb.induct) (auto dest: list_emb_set)

lemma subseq_set: "subseq xs ys \<Longrightarrow> set xs \<subseteq> set ys"
  by (induction rule: list_emb.induct) auto

lemma distinct_jobs:
  assumes "distinct (map te_id es)"
  shows "distinct (map dj_event (enqueue_all enq i (map (job_of w) es)))"
    and "dj_event ` set (enqueue_all enq i (map (job_of w) es)) \<subseteq> te_id ` set es"
proof -
  have ids: "map dj_event (map (job_of w) es) = map te_id es" by (simp add: job_of_def)
  have sub: "subseq (map dj_event (enqueue_all enq i (map (job_of w) es))) (map te_id es)"
    unfolding ids[symmetric] by (intro subseq_map enqueue_all_subseq)
  show "distinct (map dj_event (enqueue_all enq i (map (job_of w) es)))"
    using distinct_subseq[OF sub assms] .
  show "dj_event ` set (enqueue_all enq i (map (job_of w) es)) \<subseteq> te_id ` set es"
    using subseq_set[OF sub] by simp
qed

lemma fire_row_event:
  assumes "fire_row ce now k owner t = Some (t', Some e)"
  shows "te_id e = k \<and> te_key e = Some (Cron_key (tg_id t) now) \<and> te_received_at e = now
    \<and> te_trigger_id e = Some (tg_id t) \<and> te_kind e = ''cron''"
  using assms
  by (auto simp: fire_row_def cron_event_def ingest_trigger_event_def Let_def
      split: json.splits if_splits slot.splits option.splits)

lemma fire_rows_ids:
  "fire_rows ce db now fresh i ts = Some (ts', es) \<Longrightarrow> subseq (map te_id es) (map fresh [i..<i + length ts])"
proof (induction ts arbitrary: i ts' es)
  case (Cons t ts)
  then obtain t1 e ts1 es1 where st: "fire_row ce now (fresh i) (owner_of db t) t = Some (t1, e)"
    "fire_rows ce db now fresh (Suc i) ts = Some (ts1, es1)"
    "es = (case e of None \<Rightarrow> es1 | Some x \<Rightarrow> x # es1)"
    by (auto split: option.splits)
  have up: "map fresh [i..<i + length (t # ts)] = fresh i # map fresh [Suc i..<Suc i + length ts]"
    using upt_conv_Cons[of i "i + length (t # ts)"] by (simp del: upt_Suc)
  show ?case using Cons.IH[OF st(2)] st(1,3) fire_row_event[of ce now "fresh i" "owner_of db t" t]
    unfolding up by (cases e) (auto simp del: upt_Suc)
qed simp

lemma tick_advances:
  assumes "events_ok db" "inj fresh" "range fresh \<inter> te_id ` set (tb_events db) = {}"
  shows "advances db (fst (cron_tick ce leases t now locked fresh enq db))"
proof (cases "snd (cron_tick ce leases t now locked fresh enq db)")
  case (Inl e)
  then show ?thesis using assms(1)
    by (auto simp: cron_tick_def Let_def split: option.splits if_splits)
next
  case (Inr n)
  then obtain ts es where run: "fire_rows ce db now fresh 0 (claim_due db locked now) = Some (ts, es)"
    "distinct (event_keys (tb_events db @ es))"
    and db': "fst (cron_tick ce leases t now locked fresh enq db) =
      db\<lparr>tb_triggers := update_triggers ts (tb_triggers db), tb_events := tb_events db @ es,
         tb_jobs := tb_jobs db @ enqueue_all enq 0 (map (job_of ''controller-cron'')
                      (filter (\<lambda>e. te_dispatched_at e = None) es))\<rparr>"
    by (auto simp: cron_tick_def Let_def split: option.splits if_splits)
  let ?es = "filter (\<lambda>e. te_dispatched_at e = None) es"
  note sub = fire_rows_ids[OF run(1)]
  have d: "distinct (map te_id es)"
    using distinct_subseq[OF sub] assms(2) by (simp add: distinct_map inj_on_def)
  have fresh: "\<forall>e \<in> set es. te_id e \<notin> te_id ` set (tb_events db)"
  proof -
    have "te_id ` set es \<subseteq> range fresh" using subseq_set[OF sub] by auto
    then show ?thesis using assms(3) by blast
  qed
  have d': "distinct (map te_id ?es)" using d by (simp add: distinct_map_filter)
  show ?thesis
  proof (rule advancesI[where f = id and new = es])
    show "distinct (event_keys (tb_events db @ es))" by (rule run(2))
    show "distinct (map dj_event (enqueue_all enq 0 (map (job_of ''controller-cron'') ?es)))"
      by (rule distinct_jobs(1)[OF d'])
  next
    fix j assume "j \<in> set (enqueue_all enq 0 (map (job_of ''controller-cron'') ?es))"
    then have "dj_event j \<in> te_id ` set ?es" using distinct_jobs(2)[OF d'] by blast
    then show "dj_event j \<in> te_id ` set es \<or>
      (\<exists>e \<in> set (tb_events db). te_id e = dj_event j \<and> \<not> is_settled e \<and> is_settled (id e))" by auto
  qed (use d fresh in \<open>simp_all add: db'\<close>)
qed

subsection \<open>Recovery\<close>

lemma recover_event_cases:
  "\<exists>g js. recover_event pool enq now e db = update_event (te_id e) g (db\<lparr>tb_jobs := tb_jobs db @ js\<rparr>)
     \<and> stamps g \<and> (\<forall>x. is_settled (g x)) \<and> (js = [] \<or> map dj_event js = [te_id e])"
  (is "?P (recover_event pool enq now e db)")
proof -
  have failed: "?P (update_event (te_id e) (mark_failed now why) db)" for why
    by (intro exI[of _ "mark_failed now why"] exI[of _ "[]"]) simp
  have ok: "?P (update_event (te_id e) (mark_dispatched now)
                  (db\<lparr>tb_jobs := tb_jobs db @ [job_of ''trigger-recovery-sweep'' e]\<rparr>))"
    by (intro exI[of _ "mark_dispatched now"] exI[of _ "[job_of ''trigger-recovery-sweep'' e]"]) (simp add: job_of_def)
  show ?thesis
    by (cases "tb_defs db (te_automation_id e)"; cases enq) (simp_all add: recover_event_def failed ok)
qed

lemma recover_events_effect:
  "distinct (map te_id es) \<Longrightarrow>
   \<exists>f js. tb_events (recover_events pool enq now i es db) = map f (tb_events db) \<and> stamps f
     \<and> (\<forall>e. te_id e \<notin> te_id ` set es \<longrightarrow> f e = e) \<and> (\<forall>e. te_id e \<in> te_id ` set es \<longrightarrow> is_settled (f e))
     \<and> tb_jobs (recover_events pool enq now i es db) = tb_jobs db @ js \<and> subseq (map dj_event js) (map te_id es)"
proof (induction es arbitrary: i db)
  case Nil
  show ?case by (intro exI[of _ id] exI[of _ "[]"]) simp
next
  case (Cons e es)
  let ?db1 = "recover_event pool (enq i) now e db"
  obtain g js1 where g: "?db1 = update_event (te_id e) g (db\<lparr>tb_jobs := tb_jobs db @ js1\<rparr>)" "stamps g"
    "\<forall>x. is_settled (g x)" "js1 = [] \<or> map dj_event js1 = [te_id e]"
    using recover_event_cases[of pool "enq i" now e db] by metis
  let ?g = "\<lambda>x. if te_id x = te_id e then g x else x"
  obtain f js where f: "tb_events (recover_events pool enq now (Suc i) es ?db1) = map f (tb_events ?db1)" "stamps f"
    "\<forall>x. te_id x \<notin> te_id ` set es \<longrightarrow> f x = x" "\<forall>x. te_id x \<in> te_id ` set es \<longrightarrow> is_settled (f x)"
    "tb_jobs (recover_events pool enq now (Suc i) es ?db1) = tb_jobs ?db1 @ js" "subseq (map dj_event js) (map te_id es)"
    using Cons.IH[of "Suc i" ?db1] Cons.prems by auto
  have e: "te_id e \<notin> te_id ` set es" using Cons.prems by simp
  show ?case
  proof (intro exI[of _ "f \<circ> ?g"] exI[of _ "js1 @ js"] conjI)
    show "stamps (f \<circ> ?g)" using g(2) f(2) by (intro stamps_comp stamps_if)
    show "\<forall>x. te_id x \<notin> te_id ` set (e # es) \<longrightarrow> (f \<circ> ?g) x = x" using f(3) by simp
    show "\<forall>x. te_id x \<in> te_id ` set (e # es) \<longrightarrow> is_settled ((f \<circ> ?g) x)"
      using f(3,4) g(2,3) e by auto
    show "subseq (map dj_event (js1 @ js)) (map te_id (e # es))" using g(4) f(6) by (auto intro: list_emb_Cons)
  qed (use f(1,5) g(1) in \<open>simp_all add: update_event_def\<close>)
qed

lemma orphan_not_settled: "is_orphan c e \<Longrightarrow> \<not> is_settled e"
  by (simp add: is_orphan_def is_settled_def)

lemma orphans_set:
  "e \<in> set (orphans db locked now) \<Longrightarrow> e \<in> set (tb_events db) \<and> is_orphan (now - recovery_grace) e \<and> te_id e \<notin> locked"
  by (auto simp: orphans_def dest: in_set_takeD)

lemma distinct_orphans: "events_ok db \<Longrightarrow> distinct (map te_id (orphans db locked now))"
  unfolding orphans_def Let_def take_map[symmetric] events_ok_def
  by (intro distinct_take) (metis (no_types, lifting) distinct_map distinct_map_filter distinct_sort set_sort)

lemma id_unique: "distinct (map te_id es) \<Longrightarrow> x \<in> set es \<Longrightarrow> y \<in> set es \<Longrightarrow> te_id x = te_id y \<Longrightarrow> x = y"
  by (auto simp: distinct_map dest: inj_onD)

text \<open>An operation that settles selected unsettled events and enqueues some of them.\<close>

lemma advances_settle:
  assumes "events_ok db" "set sel \<subseteq> set (tb_events db)" "\<And>e. e \<in> set sel \<Longrightarrow> \<not> is_settled e"
    and "tb_events db' = map f (tb_events db)" "stamps f"
    and "\<And>e. te_id e \<notin> te_id ` set sel \<Longrightarrow> f e = e" "\<And>e. e \<in> set sel \<Longrightarrow> is_settled (f e)"
    and "tb_jobs db' = tb_jobs db @ js" "distinct (map dj_event js)" "dj_event ` set js \<subseteq> te_id ` set sel"
  shows "advances db db'"
proof (rule advancesI[where f = f and new = "[]" and js = js])
  fix e assume e: "e \<in> set (tb_events db)" "is_settled e"
  have "te_id e \<notin> te_id ` set sel"
  proof
    assume "te_id e \<in> te_id ` set sel"
    then obtain x where x: "x \<in> set sel" "te_id e = te_id x" by auto
    then have "e = x" using id_unique[of "tb_events db" e x] assms(1,2) e(1) by (auto simp: events_ok_def)
    then show False using assms(3) e(2) x(1) by blast
  qed
  then show "f e = e" by (rule assms(6))
next
  fix j assume "j \<in> set js"
  then obtain e where "e \<in> set sel" "te_id e = dj_event j" using assms(10) by fastforce
  then show "dj_event j \<in> te_id ` set [] \<or>
      (\<exists>e \<in> set (tb_events db). te_id e = dj_event j \<and> \<not> is_settled e \<and> is_settled (f e))"
    using assms(2,3,7) by blast
qed (use assms in \<open>simp_all add: events_ok_def\<close>)

lemma drain_advances:
  assumes "events_ok db"
  shows "advances db (process_trigger_events_batch pool enq locked now db)"
proof -
  let ?sel = "orphans db locked now"
  note d = distinct_orphans[OF assms, of locked now]
  obtain f js where f: "tb_events (process_trigger_events_batch pool enq locked now db) = map f (tb_events db)" "stamps f"
    "\<forall>e. te_id e \<notin> te_id ` set ?sel \<longrightarrow> f e = e" "\<forall>e. te_id e \<in> te_id ` set ?sel \<longrightarrow> is_settled (f e)"
    "tb_jobs (process_trigger_events_batch pool enq locked now db) = tb_jobs db @ js"
    "subseq (map dj_event js) (map te_id ?sel)"
    using recover_events_effect[OF d] unfolding process_trigger_events_batch_def by blast
  have js: "dj_event ` set js \<subseteq> te_id ` set ?sel" using subseq_set[OF f(6)] by simp
  show ?thesis
    by (rule advances_settle[OF assms _ _ f(1,2) _ _ f(5) distinct_subseq[OF f(6) d] js])
      (use f(3,4) orphans_set orphan_not_settled in \<open>blast+\<close>)
qed

lemma sweep_advances:
  assumes "events_ok db"
  shows "advances db (fst (sweep_once enq now db))"
proof -
  define stale where "stale = take sweep_limit (filter (is_orphan (now - sweep_stale_seconds)) (tb_events db))"
  let ?f = "\<lambda>e. if te_id e \<in> te_id ` set stale \<and> te_dispatched_at e = None then mark_dispatched now e else e"
  let ?js = "enqueue_all enq 0 (map (job_of ''controller-sweep'') stale)"
  have in_stale: "e \<in> set (tb_events db) \<and> \<not> is_settled e" if "e \<in> set stale" for e
    using that orphan_not_settled unfolding stale_def by (auto dest!: in_set_takeD)
  have d: "distinct (map te_id stale)"
    unfolding stale_def take_map[symmetric] using assms
    by (intro distinct_take) (simp add: distinct_map_filter events_ok_def)
  have run: "fst (sweep_once enq now db) = db\<lparr>tb_events := map ?f (tb_events db), tb_jobs := tb_jobs db @ ?js\<rparr>"
    by (simp add: sweep_once_def Let_def stale_def)
  show ?thesis unfolding run
  proof (rule advances_settle[where sel = stale and f = ?f and js = ?js])
    show "stamps ?f" by (intro stamps_if) simp
    show "distinct (map dj_event ?js)" "dj_event ` set ?js \<subseteq> te_id ` set stale"
      using distinct_jobs[OF d] by blast+
    show "set stale \<subseteq> set (tb_events db)" using in_stale by blast
    fix e
    show "te_id e \<notin> te_id ` set stale \<Longrightarrow> ?f e = e" by simp
    assume e: "e \<in> set stale"
    then show "\<not> is_settled e" using in_stale by blast
    from e show "is_settled (?f e)" by (simp add: is_settled_def mark_dispatched_def)
  qed (simp_all add: assms)
qed

subsection \<open>New events\<close>

text \<open>A handler inserts one event, stamps it or not, and enqueues at most one job for it.\<close>

lemma advances_insert:
  assumes "events_ok db" "te_id e \<notin> te_id ` set (tb_events db)"
    and "case te_key e of None \<Rightarrow> True | Some k \<Rightarrow> k \<notin> set (event_keys (tb_events db))"
    and "tb_events db' = tb_events db @ [e]" "tb_jobs db' = tb_jobs db @ js" "js = [] \<or> map dj_event js = [te_id e]"
  shows "advances db db'"
  by (rule advancesI[where f = id and new = "[e]" and js = js])
    (use assms in \<open>auto simp: events_ok_def split: option.splits\<close>)

lemma map_other_events: "k \<notin> te_id ` set es \<Longrightarrow> map (\<lambda>x. if te_id x = k then f x else x) es = es"
  by (induction es) auto

lemma update_new_event:
  assumes "k \<notin> te_id ` set (tb_events db)" "te_id e = k"
  shows "tb_events (update_event k f (db\<lparr>tb_events := tb_events db @ [e]\<rparr>)) = tb_events db @ [f e]"
    and "tb_events (update_event k f (db\<lparr>tb_events := tb_events db @ [e], tb_jobs := js\<rparr>)) = tb_events db @ [f e]"
  using assms by (simp_all add: update_event_def map_other_events)

lemma update_event_jobs [simp]: "tb_jobs (update_event k f db) = tb_jobs db"
  by (simp add: update_event_def)

lemma command_advances:
  assumes "events_ok db" "k \<notin> te_id ` set (tb_events db)"
  shows "advances db (ingest_and_enqueue_command a platform payload k queue now db)"
proof -
  define e where "e = ingest_trigger_event k a None ''gateway_command'' payload None now"
  define j where "j = job_of (''gateway:'' @ platform) e"
  have e: "te_id e = k" "te_key e = None" by (simp_all add: e_def ingest_trigger_event_def)
  have j: "dj_event j = k" by (simp add: j_def job_of_def e)
  note upd = update_new_event[OF assms(2) e(1)]
  have run: "ingest_and_enqueue_command a platform payload k queue now db =
     (let db1 = db\<lparr>tb_events := tb_events db @ [e]\<rparr>;
          queued = db\<lparr>tb_events := tb_events db @ [e], tb_jobs := tb_jobs db @ [j]\<rparr>
      in case queue of
           Raises exc \<Rightarrow> update_event k (mark_failed now exc) db1
         | Dies_before \<Rightarrow> db1
         | Dies_after \<Rightarrow> queued
         | _ \<Rightarrow> update_event k (mark_dispatched now) queued)"
    by (simp add: ingest_and_enqueue_command_def Let_def e_def j_def cong: queue_call.case_cong)
  note ins = advances_insert[OF assms(1)]
  show ?thesis
  proof (cases queue)
    case (Raises exc)
    show ?thesis unfolding run
      by (rule ins[of "mark_failed now exc e" _ "[]"]) (use assms(2) e in \<open>simp_all add: Raises upd, simp_all add: mark_failed_def\<close>)
  next
    case Dies_before
    show ?thesis unfolding run by (rule ins[of e _ "[]"]) (use assms(2) e in \<open>simp_all add: Dies_before\<close>)
  next
    case Dies_after
    show ?thesis unfolding run by (rule ins[of e _ "[j]"]) (use assms(2) e j in \<open>simp_all add: Dies_after\<close>)
  next
    case Accepts
    show ?thesis unfolding run
      by (rule ins[of "mark_dispatched now e" _ "[j]"]) (use assms(2) e j in \<open>simp_all add: Accepts upd, simp_all add: mark_dispatched_def\<close>)
  next
    case No_pool
    show ?thesis unfolding run
      by (rule ins[of "mark_dispatched now e" _ "[j]"]) (use assms(2) e j in \<open>simp_all add: No_pool upd, simp_all add: mark_dispatched_def\<close>)
  qed
qed

text \<open>A webhook request changes nothing, or it has inserted one event for a signed request.\<close>

inductive webhook_inserts ::
  "webhook_env \<Rightarrow> webhook_request \<Rightarrow> string \<Rightarrow> trigger_row \<Rightarrow> uuid \<Rightarrow> queue_call \<Rightarrow> trigger_db \<Rightarrow> trigger_db \<Rightarrow> bool"
  for we req body t k queue db db' where
  "verify_webhook_signature we req body (candidate_secrets (we_str we) (config_of t)) = Some kid \<Longrightarrow>
   ad_is_active (the (tb_defs db (tg_automation_id t))) \<Longrightarrow>
   te_id e = k \<Longrightarrow> te_key e = Some (Webhook_key (tg_id t) kid (normalize_sig (wh_signature req))) \<Longrightarrow>
   te_trigger_id e = Some (tg_id t) \<Longrightarrow> te_kind e = ''webhook'' \<Longrightarrow>
   the (te_key e) \<notin> set (event_keys (tb_events db)) \<Longrightarrow>
   tb_events db' = tb_events db @ [e] \<Longrightarrow> tb_jobs db' = tb_jobs db @ js \<Longrightarrow>
   js = [] \<or> map dj_event js = [k] \<Longrightarrow>
   (queue \<in> {No_pool, Dies_before} \<or> (\<exists>exc. queue = Raises exc)) = (js = []) \<Longrightarrow>
   is_settled e = (queue \<notin> {Dies_before, Dies_after}) \<Longrightarrow>
   webhook_inserts we req body t k queue db db'"

lemma ingest_webhook_cases:
  assumes run: "ingest_signed_webhook we req body t k queue now db = (db', r)" and k: "k \<notin> te_id ` set (tb_events db)"
  shows "db' = db \<and> (\<forall>i. r \<noteq> Inr (Enqueued i))
    \<or> webhook_inserts we req body t k queue db db' \<and> (\<forall>i. r = Inr (Enqueued i) \<longrightarrow> i = k \<and> queue = Accepts)"
proof (cases "verify_webhook_signature we req body (candidate_secrets (we_str we) (config_of t))")
  case None
  with run show ?thesis by (auto simp: ingest_signed_webhook_def Let_def split: if_splits)
next
  case (Some kid)
  let ?cands = "candidate_secrets (we_str we) (config_of t)"
  let ?key = "Webhook_key (tg_id t) kid (normalize_sig (wh_signature req))"
  define e where "e = webhook_event we req body t kid k now"
  define j where "j = job_of (''webhook-handler:'' @ wh_host req) e"
  have e: "te_id e = k" "te_key e = Some ?key" "te_trigger_id e = Some (tg_id t)" "te_kind e = ''webhook''"
    "te_dispatched_at e = None" "te_failed_at e = None"
    by (simp_all add: e_def webhook_event_def ingest_trigger_event_def)
  have j: "dj_event j = k" by (simp add: j_def job_of_def e)
  show ?thesis
  proof (cases "?cands = [] \<or> \<not> ad_is_active (the (tb_defs db (tg_automation_id t))) \<or> ?key \<in> set (event_keys (tb_events db))")
    case True
    with run Some show ?thesis
      by (auto simp: ingest_signed_webhook_def Let_def split: option.splits if_splits)
  next
    case False
    let ?db1 = "db\<lparr>tb_events := tb_events db @ [e]\<rparr>"
    let ?queued = "db\<lparr>tb_events := tb_events db @ [e], tb_jobs := tb_jobs db @ [j]\<rparr>"
    have eq: "(db', r) = (case queue of
          No_pool \<Rightarrow> (update_event k (mark_failed now ''no arq pool available'') ?db1, Inl Queue_unavailable)
        | Raises exc \<Rightarrow> (update_event k (mark_failed now exc) ?db1, Inl Enqueue_failed)
        | Dies_before \<Rightarrow> (?db1, Inl Process_died)
        | Dies_after \<Rightarrow> (?queued, Inl Process_died)
        | Accepts \<Rightarrow> (update_event k (mark_dispatched now) ?queued, Inr (Enqueued k)))"
      unfolding run[symmetric] using False Some
      by (simp add: ingest_signed_webhook_def Let_def e_def j_def cong: queue_call.case_cong)
    note upd = update_new_event[OF k e(1)] and ins = webhook_inserts.intros[OF Some]
    show ?thesis
    proof (cases queue)
      case No_pool
      have "webhook_inserts we req body t k queue db db'"
        by (rule ins[where e = "mark_failed now ''no arq pool available'' e" and js = "[]"])
          (use False eq e No_pool in \<open>simp_all add: upd, simp_all add: mark_failed_def is_settled_def\<close>)
      with eq No_pool show ?thesis by simp
    next
      case (Raises exc)
      have "webhook_inserts we req body t k queue db db'"
        by (rule ins[where e = "mark_failed now exc e" and js = "[]"])
          (use False eq e Raises in \<open>simp_all add: upd, simp_all add: mark_failed_def is_settled_def\<close>)
      with eq Raises show ?thesis by simp
    next
      case Dies_before
      have "webhook_inserts we req body t k queue db db'"
        by (rule ins[where e = e and js = "[]"]) (use False eq e Dies_before in \<open>simp_all add: is_settled_def\<close>)
      with eq Dies_before show ?thesis by simp
    next
      case Dies_after
      have "webhook_inserts we req body t k queue db db'"
        by (rule ins[where e = e and js = "[j]"]) (use False eq e j Dies_after in \<open>simp_all add: is_settled_def\<close>)
      with eq Dies_after show ?thesis by simp
    next
      case Accepts
      have "webhook_inserts we req body t k queue db db'"
        by (rule ins[where e = "mark_dispatched now e" and js = "[j]"])
          (use False eq e j Accepts in \<open>simp_all add: upd, simp_all add: mark_dispatched_def is_settled_def\<close>)
      with eq Accepts show ?thesis by simp
    qed
  qed
qed

text \<open>The trigger a request is for.\<close>

definition resolve_route :: "py_str \<Rightarrow> trigger_db \<Rightarrow> webhook_route \<Rightarrow> trigger_row option" where
  "resolve_route str db route =
     (case route of
        App_trigger instance_id name \<Rightarrow> resolve_automation_for_webhook str db instance_id name
      | Standalone automation_id token \<Rightarrow> resolve_automation_for_standalone_webhook db automation_id token)"

lemma webhook_trigger_cases:
  assumes "webhook_trigger we route req k queue now db = (db', r)" "k \<notin> te_id ` set (tb_events db)"
  shows "db' = db \<and> (\<forall>i. r \<noteq> Inr (Enqueued i))
    \<or> (\<exists>t. resolve_route (we_str we) db route = Some t \<and> webhook_inserts we req (wh_body req) t k queue db db'
         \<and> (\<forall>i. r = Inr (Enqueued i) \<longrightarrow> i = k \<and> queue = Accepts))"
proof (cases "read_capped_body req")
  case (Inl x)
  with assms(1) show ?thesis by (auto simp: webhook_trigger_def)
next
  case (Inr body)
  then have body: "body = wh_body req" by (auto simp: read_capped_body_def Let_def split: if_splits)
  show ?thesis
  proof (cases "resolve_route (we_str we) db route")
    case None
    with Inr assms(1) show ?thesis by (auto simp: webhook_trigger_def resolve_route_def)
  next
    case (Some t)
    with Inr assms(1) have "ingest_signed_webhook we req (wh_body req) t k queue now db = (db', r)"
      by (simp add: webhook_trigger_def resolve_route_def body)
    from ingest_webhook_cases[OF this assms(2)] Some show ?thesis by blast
  qed
qed

lemma webhook_advances:
  assumes "events_ok db" "k \<notin> te_id ` set (tb_events db)"
  shows "advances db (fst (webhook_trigger we route req k queue now db))"
proof -
  obtain db' r where run: "webhook_trigger we route req k queue now db = (db', r)" by fastforce
  show ?thesis
  proof (cases "db' = db")
    case True
    with run assms(1) show ?thesis by simp
  next
    case False
    then obtain t where "webhook_inserts we req (wh_body req) t k queue db db'"
      using webhook_trigger_cases[OF run assms(2)] by blast
    then have "advances db db'"
    proof cases
      case (1 kid e js)
      then show ?thesis using advances_insert[OF assms(1), of e db' js] assms(2) by simp
    qed
    then show ?thesis by (simp add: run)
  qed
qed

subsection \<open>Any operation\<close>

lemma op_advances:
  assumes "events_ok db" "trigger_op_ok db op"
  shows "advances db (apply_trigger_op env now op db)"
proof (cases op)
  case (Configure ts defs owners)
  show ?thesis
    by (rule advancesI[where f = id and new = "[]" and js = "[]"]) (use assms(1) in \<open>simp_all add: Configure events_ok_def\<close>)
qed (use assms in \<open>simp_all add: tick_advances drain_advances sweep_advances webhook_advances command_advances\<close>)

lemma steps_events_ok: "trigger_steps env db ops db' \<Longrightarrow> events_ok db \<Longrightarrow> events_ok db'"
  by (induction rule: trigger_steps.induct) (auto intro: advances_events_ok op_advances)

text \<open>A settled event keeps its row and gets no job.\<close>

definition jobs_for :: "uuid \<Rightarrow> trigger_db \<Rightarrow> dispatch_job list" where
  "jobs_for k db = filter (\<lambda>j. dj_event j = k) (tb_jobs db)"

lemma advances_settled:
  assumes "events_ok db" "advances db db'" "e \<in> set (tb_events db)" "is_settled e"
  shows "e \<in> set (tb_events db') \<and> jobs_for (te_id e) db' = jobs_for (te_id e) db"
proof -
  obtain f new js where A: "tb_events db' = map f (tb_events db) @ new"
    "\<forall>e \<in> set (tb_events db). is_settled e \<longrightarrow> f e = e"
    "\<forall>x \<in> set new. te_id x \<notin> te_id ` set (tb_events db)"
    "tb_jobs db' = tb_jobs db @ js"
    "\<forall>j \<in> set js. dj_event j \<in> te_id ` set new
       \<or> (\<exists>x \<in> set (tb_events db). te_id x = dj_event j \<and> \<not> is_settled x \<and> is_settled (f x))"
    using assms(2) unfolding advances_def by blast
  have "e \<in> set (tb_events db')" using A(1,2) assms(3,4) by (metis Un_iff image_eqI set_append set_map)
  moreover have "dj_event j \<noteq> te_id e" if "j \<in> set js" for j
  proof
    assume j: "dj_event j = te_id e"
    from bspec[OF A(5) that] show False
    proof
      assume "dj_event j \<in> te_id ` set new"
      then obtain x where "x \<in> set new" "te_id x = te_id e" using j by auto
      then show False using bspec[OF A(3)] assms(3) by auto
    next
      assume "\<exists>x \<in> set (tb_events db). te_id x = dj_event j \<and> \<not> is_settled x \<and> is_settled (f x)"
      then obtain x where "x \<in> set (tb_events db)" "te_id x = te_id e" "\<not> is_settled x" using j by auto
      then show False using id_unique[of "tb_events db" x e] assms(1,3,4) by (simp add: events_ok_def)
    qed
  qed
  ultimately show ?thesis by (simp add: jobs_for_def A(4))
qed

lemma steps_settled:
  "trigger_steps env db ops db' \<Longrightarrow> events_ok db \<Longrightarrow> e \<in> set (tb_events db) \<Longrightarrow> is_settled e \<Longrightarrow>
   e \<in> set (tb_events db') \<and> jobs_for (te_id e) db' = jobs_for (te_id e) db"
proof (induction rule: trigger_steps.induct)
  case (go db t now ts db')
  note adv = op_advances[OF go.prems(1) go.hyps(1), of env now]
  from advances_settled[OF go.prems(1) adv go.prems(2,3)] go.IH[OF advances_events_ok[OF go.prems(1) adv]] go.prems
  show ?case by simp
qed simp

section \<open>Jobs\<close>

definition jobs_ok :: "trigger_db \<Rightarrow> bool" where
  "jobs_ok db \<longleftrightarrow> (\<forall>j \<in> set (tb_jobs db). dj_event j \<in> te_id ` set (tb_events db))
     \<and> (\<forall>e \<in> set (tb_events db). length (jobs_for (te_id e) db) \<le> (if is_settled e then 2 else 1))"

lemma jobs_for_absent: "jobs_ok db \<Longrightarrow> k \<notin> te_id ` set (tb_events db) \<Longrightarrow> jobs_for k db = []"
  by (auto simp: jobs_ok_def jobs_for_def filter_empty_conv)

lemma distinct_filter_le_1: "distinct (map g js) \<Longrightarrow> length (filter (\<lambda>j. g j = k) js) \<le> 1"
  by (induction js) (auto simp: filter_empty_conv image_iff)

lemma advances_jobs_ok:
  assumes ok: "events_ok db" "jobs_ok db" and adv: "advances db db'"
  shows "jobs_ok db'"
proof -
  obtain f new js where A: "tb_events db' = map f (tb_events db) @ new" "stamps f"
    "\<forall>e \<in> set (tb_events db). is_settled e \<longrightarrow> f e = e"
    "\<forall>x \<in> set new. te_id x \<notin> te_id ` set (tb_events db)"
    "tb_jobs db' = tb_jobs db @ js" "distinct (map dj_event js)"
    "\<forall>j \<in> set js. dj_event j \<in> te_id ` set new
       \<or> (\<exists>x \<in> set (tb_events db). te_id x = dj_event j \<and> \<not> is_settled x \<and> is_settled (f x))"
    using adv unfolding advances_def by blast
  have jf: "jobs_for k db' = jobs_for k db @ filter (\<lambda>j. dj_event j = k) js" for k
    by (simp add: jobs_for_def A(5))
  have one: "length (filter (\<lambda>j. dj_event j = k) js) \<le> 1" for k by (rule distinct_filter_le_1[OF A(6)])
  have ids: "te_id ` set (tb_events db') = te_id ` set (tb_events db) \<union> te_id ` set new"
    using A(2) by (simp add: A(1) image_image image_Un)
  have "length (jobs_for (te_id e') db') \<le> (if is_settled e' then 2 else 1)" if "e' \<in> set (tb_events db')" for e'
  proof (cases "e' \<in> set new")
    case True
    then have "jobs_for (te_id e') db = []" using A(4) jobs_for_absent[OF ok(2)] by blast
    then show ?thesis using one[of "te_id e'"] by (simp add: jf)
  next
    case False
    then obtain e where e: "e \<in> set (tb_events db)" "e' = f e" using \<open>e' \<in> set (tb_events db')\<close> A(1) by auto
    have id: "te_id e' = te_id e" using e(2) A(2) by simp
    have le: "length (jobs_for (te_id e) db) \<le> (if is_settled e then 2 else 1)" using ok(2) e(1) by (simp add: jobs_ok_def)
    show ?thesis
    proof (cases "is_settled e")
      case True
      with advances_settled[OF ok(1) adv e(1)] A(3) e le show ?thesis by simp
    next
      case unsettled: False
      show ?thesis
      proof (cases "is_settled e'")
        case True
        with le unsettled one[of "te_id e"] show ?thesis by (simp add: jf id)
      next
        case False
        have "filter (\<lambda>j. dj_event j = te_id e) js = []"
        proof (rule filter_False, safe)
          fix j assume j: "j \<in> set js" "dj_event j = te_id e"
          from bspec[OF A(7) j(1)] show False
          proof
            assume "dj_event j \<in> te_id ` set new"
            then obtain x where "x \<in> set new" "te_id x = te_id e" using j(2) by auto
            then show False using bspec[OF A(4)] e(1) by auto
          next
            assume "\<exists>x \<in> set (tb_events db). te_id x = dj_event j \<and> \<not> is_settled x \<and> is_settled (f x)"
            then obtain x where "x \<in> set (tb_events db)" "te_id x = te_id e" "is_settled (f x)" using j(2) by auto
            then show False using id_unique[of "tb_events db" x e] ok(1) e False by (simp add: events_ok_def)
          qed
        qed
        with le unsettled show ?thesis by (simp add: jf id False)
      qed
    qed
  qed
  moreover have "dj_event j \<in> te_id ` set (tb_events db')" if "j \<in> set (tb_jobs db')" for j
  proof (cases "j \<in> set js")
    case True
    from bspec[OF A(7) True] show ?thesis
    proof
      assume "\<exists>x \<in> set (tb_events db). te_id x = dj_event j \<and> \<not> is_settled x \<and> is_settled (f x)"
      then obtain x where "x \<in> set (tb_events db)" "dj_event j = te_id x" by auto
      then show ?thesis unfolding ids by simp
    qed (simp add: ids)
  next
    case False
    with that ok(2) A(5) show ?thesis unfolding ids by (simp add: jobs_ok_def)
  qed
  ultimately show ?thesis by (simp add: jobs_ok_def)
qed

lemma steps_jobs_ok: "trigger_steps env db ops db' \<Longrightarrow> events_ok db \<Longrightarrow> jobs_ok db \<Longrightarrow> jobs_ok db'"
  by (induction rule: trigger_steps.induct) (auto intro: advances_jobs_ok op_advances advances_events_ok)


text \<open>A settled event is left alone: once an event is stamped dispatched or failed, no operation
  changes its row or enqueues it again.\<close>

theorem settled_events_stay:
  assumes "trigger_steps env db ops db'" "events_ok db" "e \<in> set (tb_events db)" "is_settled e"
  shows "e \<in> set (tb_events db') \<and> jobs_for (te_id e) db' = jobs_for (te_id e) db"
  using assms by (rule steps_settled)

text \<open>The sweep of a new leader stamps first: where its enqueue calls fail, the events it has taken are lost.\<close>

lemma enqueue_all_failing: "\<forall>i. enq i \<noteq> None \<Longrightarrow> enqueue_all enq i js = []"
  by (induction js arbitrary: i) auto

lemma swept_event_is_lost:
  assumes "events_ok db" "e \<in> set (take sweep_limit (filter (is_orphan (now - sweep_stale_seconds)) (tb_events db)))"
    and "\<forall>i. enq i \<noteq> None" "trigger_steps env (fst (sweep_once enq now db)) ops db'"
  shows "jobs_for (te_id e) db' = jobs_for (te_id e) db"
proof -
  let ?db = "fst (sweep_once enq now db)" and ?e = "mark_dispatched now e"
  have e: "e \<in> set (tb_events db)" "te_dispatched_at e = None"
    using in_set_takeD[OF assms(2)] by (auto simp: is_orphan_def)
  have "?e \<in> set (tb_events ?db)"
    using e assms(2) by (force simp: sweep_once_def Let_def)
  moreover have "events_ok ?db" using advances_events_ok[OF assms(1) sweep_advances[OF assms(1)]] .
  moreover have "tb_jobs ?db = tb_jobs db" by (simp add: sweep_once_def Let_def enqueue_all_failing[OF assms(3)])
  ultimately show ?thesis using steps_settled[OF assms(4), of ?e] by (simp add: jobs_for_def mark_dispatched_def is_settled_def)
qed

section \<open>Recovery\<close>

lemma recover_events_job:
  assumes "e \<in> set es" "tb_defs db (te_automation_id e) = Some d" "ad_is_active d" "\<And>i. enq i = None"
  shows "job_of ''trigger-recovery-sweep'' e \<in> set (tb_jobs (recover_events True enq now i es db))"
  using assms
proof (induction es arbitrary: i db)
  case (Cons x es)
  have defs: "tb_defs (recover_event True (enq i) now x db) = tb_defs db"
    by (simp add: recover_event_def update_event_def split: option.splits)
  have kept: "j \<in> set (tb_jobs db) \<Longrightarrow> j \<in> set (tb_jobs (recover_events True enq now i xs db))" for j i xs db
    by (induction xs arbitrary: i db) (auto simp: recover_event_def update_event_def split: option.splits)
  show ?case
  proof (cases "e = x")
    case True
    with Cons.prems have "job_of ''trigger-recovery-sweep'' e \<in> set (tb_jobs (recover_event True (enq i) now x db))"
      by (simp add: recover_event_def)
    with kept show ?thesis by simp
  next
    case False
    with Cons.IH[of "recover_event True (enq i) now x db" "Suc i"] Cons.prems defs show ?thesis by simp
  qed
qed simp

text \<open>Recovery: a drain whose batch holds all orphans (undispatched, not failed, older than the grace
  period, not locked by another drain) leaves none; with a pool and a queue that takes the calls, each
  of them whose automation is active is in the queue.\<close>

theorem drain_recovers:
  assumes "events_ok db"
    and "length (filter (\<lambda>e. is_orphan (now - recovery_grace) e \<and> te_id e \<notin> locked) (tb_events db)) \<le> recovery_limit"
  shows "orphans (process_trigger_events_batch pool enq locked now db) locked now = []
     \<and> (\<forall>e d. e \<in> set (tb_events db) \<longrightarrow> is_orphan (now - recovery_grace) e \<longrightarrow> te_id e \<notin> locked
          \<longrightarrow> tb_defs db (te_automation_id e) = Some d \<longrightarrow> ad_is_active d \<longrightarrow> pool \<longrightarrow> (\<forall>i. enq i = None)
          \<longrightarrow> job_of ''trigger-recovery-sweep'' e \<in> set (tb_jobs (process_trigger_events_batch pool enq locked now db)))"
proof -
  let ?sel = "orphans db locked now"
  let ?db' = "process_trigger_events_batch pool enq locked now db"
  have all: "e \<in> set ?sel \<longleftrightarrow> e \<in> set (tb_events db) \<and> is_orphan (now - recovery_grace) e \<and> te_id e \<notin> locked" for e
    using assms(2) by (auto simp: orphans_def)
  obtain f where f: "tb_events ?db' = map f (tb_events db)" "stamps f"
    "\<forall>e. te_id e \<notin> te_id ` set ?sel \<longrightarrow> f e = e" "\<forall>e. te_id e \<in> te_id ` set ?sel \<longrightarrow> is_settled (f e)"
    using recover_events_effect[OF distinct_orphans[OF assms(1)]] unfolding process_trigger_events_batch_def by blast
  have "\<not> (is_orphan (now - recovery_grace) e' \<and> te_id e' \<notin> locked)" if "e' \<in> set (tb_events ?db')" for e'
  proof -
    obtain e where e: "e \<in> set (tb_events db)" "e' = f e" using \<open>e' \<in> set (tb_events ?db')\<close> f(1) by auto
    show ?thesis
    proof (cases "te_id e \<in> te_id ` set ?sel")
      case True
      then have "is_settled e'" using f(4) e(2) by simp
      then show ?thesis using orphan_not_settled by blast
    next
      case False
      then have "e' = e" "e \<notin> set ?sel" using f(3) e(2) by auto
      then show ?thesis using all e(1) by simp
    qed
  qed
  then have "orphans ?db' locked now = []" by (simp add: orphans_def filter_empty_conv)
  moreover have "job_of ''trigger-recovery-sweep'' e \<in> set (tb_jobs ?db')"
    if "e \<in> set (tb_events db)" "is_orphan (now - recovery_grace) e" "te_id e \<notin> locked"
      "tb_defs db (te_automation_id e) = Some d" "ad_is_active d" pool "\<forall>i. enq i = None" for e d
    using recover_events_job[of e ?sel db d enq now 0] that all by (simp add: process_trigger_events_batch_def)
  ultimately show ?thesis by blast
qed

lemma steps_keep_event:
  "trigger_steps env db ops db' \<Longrightarrow> events_ok db \<Longrightarrow> e \<in> set (tb_events db) \<Longrightarrow>
   \<exists>e' \<in> set (tb_events db'). te_id e' = te_id e \<and> te_key e' = te_key e"
proof (induction arbitrary: e rule: trigger_steps.induct)
  case (go db t now ts db')
  note adv = op_advances[OF go.prems(1) go.hyps(1), of env now]
  obtain f new where f: "tb_events (apply_trigger_op env now t db) = map f (tb_events db) @ new" "stamps f"
    using adv unfolding advances_def by blast
  then have "f e \<in> set (tb_events (apply_trigger_op env now t db))" using go.prems(2) by simp
  from go.IH[OF advances_events_ok[OF go.prems(1) adv] this] f(2) show ?case by (auto simp: stamps_def)
qed auto

section \<open>Webhooks\<close>

lemma verify_candidate:
  assumes "verify_webhook_signature we req body cands = Some kid"
  shows "\<exists>secret. (kid, secret) \<in> set cands \<and> we_hmac we secret body = normalize_sig (wh_signature req)
     \<and> (strip (wh_key_id req) \<noteq> [] \<longrightarrow> kid = J_str (strip (wh_key_id req)))"
proof (cases "strip (wh_key_id req) = []")
  case True
  then obtain c where c: "find (\<lambda>(kid, secret). normalize_sig (wh_signature req) = we_hmac we secret body) cands = Some c"
    "kid = fst c"
    using assms by (auto simp: verify_webhook_signature_def)
  from find_SomeD[OF c(1)] c(2) True show ?thesis by (cases c) auto
next
  case False
  then obtain c where c: "find (\<lambda>(kid, _). kid = J_str (strip (wh_key_id req))) cands = Some c"
    "kid = fst c" "normalize_sig (wh_signature req) = we_hmac we (snd c) body"
    using assms by (auto simp: verify_webhook_signature_def Let_def split: option.splits if_splits)
  from find_SomeD[OF c(1)] c(2,3) show ?thesis by (cases c) auto
qed

lemma webhook_triggers_row:
  assumes "(cfg, t) \<in> set (webhook_triggers db)"
  shows "t \<in> set (tb_triggers db) \<and> tg_kind t = ''webhook'' \<and> tg_is_active t \<and> cfg = config_of t"
proof -
  obtain u where u: "u \<in> set (tb_triggers db)"
    "(if tg_kind u = ''webhook'' \<and> tg_is_active u \<and> tb_defs db (tg_automation_id u) \<noteq> None
      then (case (if truthy (tg_config u) then tg_config u else J_obj []) of
              J_obj cfg \<Rightarrow> Some (cfg, u) | _ \<Rightarrow> None) else None) = Some (cfg, t)"
    using assms unfolding webhook_triggers_def set_map_filter by blast
  show ?thesis
  proof (cases "truthy (tg_config u)")
    case True
    with u show ?thesis by (cases "tg_config u") (auto simp: config_of_def split: if_split_asm)
  next
    case False
    with u show ?thesis by (cases "tg_config u") (auto simp: config_of_def split: if_split_asm)
  qed
qed

lemma resolve_route_row:
  assumes "resolve_route str db route = Some t"
  shows "t \<in> set (tb_triggers db) \<and> tg_kind t = ''webhook'' \<and> tg_is_active t"
proof -
  obtain P x where "find P (webhook_triggers db) = Some x" "t = snd x"
    using assms
    by (auto simp: resolve_route_def resolve_automation_for_webhook_def
        resolve_automation_for_standalone_webhook_def split: webhook_route.splits if_splits)
  then have "(fst x, t) \<in> set (webhook_triggers db)" by (auto simp: find_Some_iff)
  then show ?thesis using webhook_triggers_row by blast
qed

text \<open>A candidate is an entry that is not revoked, or the single secret of the old shape.\<close>

lemma secret_of_entry_Some:
  "secret_of_entry str entry = Some (kid, secret) \<Longrightarrow>
   \<exists>e. entry = J_obj e \<and> truthy (jget e ''secret'') \<and> \<not> truthy (jget e ''revoked_at'')
     \<and> secret = text_of str (jget e ''secret'')"
  by (cases entry) (auto simp: secret_of_entry_def split: if_split_asm)

lemma legacy_secret_Some:
  "(kid, secret) \<in> set (legacy_secret cfg) \<Longrightarrow> jget cfg ''webhook_secret'' = J_str secret \<and> secret \<noteq> []"
  by (cases "jget cfg ''webhook_secret''") (auto simp: legacy_secret_def split: if_split_asm)

lemma candidate_not_revoked:
  assumes "(kid, secret) \<in> set (candidate_secrets str cfg)"
  shows "(\<exists>es e. jget cfg ''webhook_secrets'' = J_list es \<and> J_obj e \<in> set es
        \<and> truthy (jget e ''secret'') \<and> \<not> truthy (jget e ''revoked_at'') \<and> secret = text_of str (jget e ''secret''))
     \<or> jget cfg ''webhook_secret'' = J_str secret \<and> secret \<noteq> []"
proof (cases "\<exists>e es. jget cfg ''webhook_secrets'' = J_list (e # es)")
  case True
  then obtain e es where es: "jget cfg ''webhook_secrets'' = J_list (e # es)" by blast
  then obtain x where "x \<in> set (e # es)" "secret_of_entry str x = Some (kid, secret)"
    using assms unfolding candidate_secrets_def es json.case list.case set_map_filter by blast
  with secret_of_entry_Some[OF this(2)] es show ?thesis by auto
next
  case False
  then have "candidate_secrets str cfg = legacy_secret cfg"
    by (auto simp: candidate_secrets_def split: json.split list.split)
  with assms legacy_secret_Some show ?thesis by metis
qed


lemma ingest_replay:
  assumes "verify_webhook_signature we req body (candidate_secrets (we_str we) (config_of t)) = Some kid"
    and "candidate_secrets (we_str we) (config_of t) \<noteq> []"
    and "ad_is_active (the (tb_defs db (tg_automation_id t)))"
    and "events_ok db" "e \<in> set (tb_events db)"
    and "te_key e = Some (Webhook_key (tg_id t) kid (normalize_sig (wh_signature req)))"
  shows "ingest_signed_webhook we req body t k queue now db = (db, Inr (Replay (te_id e)))"
proof -
  let ?key = "Webhook_key (tg_id t) kid (normalize_sig (wh_signature req))"
  have key: "?key \<in> set (event_keys es)" if "e \<in> set es" for es
    using that assms(6) by (induction es) (auto split: option.splits)
  have found: "find (\<lambda>x. te_key x = Some ?key) es = Some e" if "e \<in> set es" "distinct (event_keys es)" for es
    using that assms(6)
  proof (induction es)
    case (Cons x es)
    show ?case
    proof (cases "e = x")
      case False
      then have "e \<in> set es" using Cons.prems by simp
      then have "?key \<in> set (event_keys es)" by (induction es) (use assms(6) in \<open>auto split: option.splits\<close>)
      with Cons False \<open>e \<in> set es\<close> show ?thesis by (auto split: option.splits)
    qed (use assms(6) in simp)
  qed simp
  show ?thesis
    using assms(1-3) key[OF assms(5)] found[OF assms(5)] assms(4)
    by (simp add: ingest_signed_webhook_def Let_def events_ok_def)
qed

text \<open>A webhook body runs at most once in the life of its trigger, and not at all when its first delivery
  could not be enqueued: after a request has inserted its event, whatever happened then, the same
  request sent again changes nothing and is answered as an accepted replay; and when the queue had
  refused the first one, the event never gets a job.\<close>

theorem webhook_body_runs_once:
  assumes "webhook_trigger we route req k queue now db = (db1, r)" "db1 \<noteq> db"
    and "k \<notin> te_id ` set (tb_events db)" "events_ok db" "jobs_ok db"
    and "trigger_steps env db1 ops db2"
    and "resolve_route (we_str we) db2 route = resolve_route (we_str we) db route"
    and "tb_defs db2 = tb_defs db"
  shows "webhook_trigger we route req k2 queue2 now2 db2 = (db2, Inr (Replay k))
     \<and> ((\<exists>exc. queue = No_pool \<or> queue = Raises exc) \<longrightarrow> jobs_for k db2 = [])"
proof -
  obtain t where t: "resolve_route (we_str we) db route = Some t" "webhook_inserts we req (wh_body req) t k queue db db1"
    using webhook_trigger_cases[OF assms(1,3)] assms(2) by blast
  have cap: "read_capped_body req = Inr (wh_body req)"
    using assms(1,2) by (cases "read_capped_body req") (auto simp: webhook_trigger_def read_capped_body_def Let_def split: if_splits)
  from t(2) show ?thesis
  proof cases
    case (1 kid e js)
    have adv: "advances db db1" using advances_insert[OF assms(4), of e db1 js] 1 assms(3) by simp
    note ok1 = advances_events_ok[OF assms(4) adv]
    note ok2 = steps_events_ok[OF assms(6) ok1]
    have e1: "e \<in> set (tb_events db1)" using 1 by simp
    obtain e2 where e2: "e2 \<in> set (tb_events db2)" "te_id e2 = te_id e" "te_key e2 = te_key e"
      using steps_keep_event[OF assms(6) ok1 e1] by blast
    have cands: "candidate_secrets (we_str we) (config_of t) \<noteq> []" using verify_candidate[OF 1(1)] by auto
    have "ingest_signed_webhook we req (wh_body req) t k2 queue2 now2 db2 = (db2, Inr (Replay (te_id e2)))"
      by (rule ingest_replay[OF 1(1) cands]) (use 1 e2 ok2 assms(8) in simp_all)
    then have "webhook_trigger we route req k2 queue2 now2 db2 = (db2, Inr (Replay k))"
      using cap t(1) assms(7) e2(2) 1 by (simp add: webhook_trigger_def resolve_route_def)
    moreover have "jobs_for k db2 = []" if "\<exists>exc. queue = No_pool \<or> queue = Raises exc"
    proof -
      have "js = []" "is_settled e" using that 1 by auto
      then have "jobs_for k db1 = []" using 1 jobs_for_absent[OF assms(5,3)] by (simp add: jobs_for_def)
      with steps_settled[OF assms(6) ok1 e1 \<open>is_settled e\<close>] 1 show ?thesis by simp
    qed
    ultimately show ?thesis by blast
  qed
qed

lemma webhook_trigger_triggers [simp]:
  "tb_triggers (fst (webhook_trigger we route req k queue now db)) = tb_triggers db"
  by (auto simp: webhook_trigger_def ingest_signed_webhook_def Let_def update_event_def
      split: sum.splits option.splits queue_call.splits webhook_route.splits)

lemma command_effect:
  assumes "k \<notin> te_id ` set (tb_events db)"
  shows "tb_triggers (ingest_and_enqueue_command a platform payload k queue now db) = tb_triggers db
    \<and> (\<exists>e. tb_events (ingest_and_enqueue_command a platform payload k queue now db) = tb_events db @ [e]
          \<and> te_kind e = ''gateway_command'')"
  using map_other_events[OF assms]
  by (cases queue)
    (simp_all add: ingest_and_enqueue_command_def Let_def update_event_def mark_failed_def mark_dispatched_def
       ingest_trigger_event_def)

section \<open>The schedule\<close>

text \<open>The instants at which a cron trigger has fired, in the order of the events, and the slot its
  configuration gives after an instant.\<close>

definition cron_times :: "uuid \<Rightarrow> trigger_event list \<Rightarrow> instant list" where
  "cron_times k es = map te_received_at (filter (\<lambda>e. te_trigger_id e = Some k \<and> te_kind e = ''cron'') es)"

definition slot_of :: "cron_env \<Rightarrow> json \<Rightarrow> instant \<Rightarrow> slot" where
  "slot_of ce config now =
     (case (if truthy config then config else J_obj []) of
        J_obj cfg \<Rightarrow> ce_slot ce (py_or (jget cfg ''cron_expression'') (jget cfg ''expression''))
                        (py_or (jget cfg ''timezone'') (J_str ''UTC'')) now
      | _ \<Rightarrow> Schedule_raises)"

definition slot_between :: "cron_env \<Rightarrow> json \<Rightarrow> instant \<Rightarrow> instant \<Rightarrow> bool" where
  "slot_between ce config a b \<longleftrightarrow> (\<exists>n. slot_of ce config a = Next_slot n \<and> n \<le> b)"

lemma cron_times_simps [simp]:
  "cron_times k [] = []" "cron_times k (es @ fs) = cron_times k es @ cron_times k fs"
  "cron_times k (e # es) =
     (if te_trigger_id e = Some k \<and> te_kind e = ''cron'' then te_received_at e # cron_times k es else cron_times k es)"
  by (simp_all add: cron_times_def)

lemma cron_times_stamps: "stamps f \<Longrightarrow> cron_times k (map f es) = cron_times k es"
  by (induction es) (auto simp: stamps_def)

lemma fire_row_effect:
  assumes "fire_row ce now k owner t = Some (t', eo)"
  shows "tg_id t' = tg_id t \<and> tg_config t' = tg_config t
    \<and> (eo = None \<and> (tg_next_run_at t' = tg_next_run_at t \<or> tg_next_run_at t = None)
       \<or> (\<exists>n. eo \<noteq> None \<and> slot_of ce (tg_config t) now = Next_slot n \<and> tg_next_run_at t' = Some n
            \<and> tg_next_run_at t \<noteq> None))"
proof (cases "if truthy (tg_config t) then tg_config t else J_obj []")
  case (J_obj cfg)
  with assms show ?thesis
    by (auto simp: fire_row_def slot_of_def Let_def split: if_split_asm slot.split_asm)
qed (use assms in \<open>simp_all add: fire_row_def\<close>)

text \<open>What the tick does for the trigger with id \<open>k\<close>.\<close>

lemma fire_rows_for:
  assumes "fire_rows ce db now fresh i ts = Some (ts', es)" "distinct (map tg_id ts)"
  shows "(k \<notin> tg_id ` set ts \<longrightarrow> cron_times k es = [] \<and> find (\<lambda>t'. tg_id t' = k) ts' = None)
    \<and> (\<forall>t \<in> set ts. tg_id t = k \<longrightarrow> (\<exists>j t' eo. fire_row ce now j (owner_of db t) t = Some (t', eo)
          \<and> find (\<lambda>t'. tg_id t' = k) ts' = Some t' \<and> cron_times k es = (if eo = None then [] else [now])))"
  using assms
proof (induction ts arbitrary: i ts' es)
  case (Cons t ts)
  then obtain t1 eo ts1 es1 where st: "fire_row ce now (fresh i) (owner_of db t) t = Some (t1, eo)"
    "fire_rows ce db now fresh (Suc i) ts = Some (ts1, es1)" "ts' = t1 # ts1"
    "es = (case eo of None \<Rightarrow> es1 | Some x \<Rightarrow> x # es1)"
    by (auto split: option.splits)
  have id: "tg_id t1 = tg_id t" using fire_row_effect[OF st(1)] by simp
  have own: "cron_times k es = (if tg_id t = k \<and> eo \<noteq> None then now # cron_times k es1 else cron_times k es1)"
    using fire_row_event[of ce now "fresh i" "owner_of db t" t t1] st(1,4) by (cases eo) auto
  note IH = Cons.IH[OF st(2)]
  show ?case
  proof (cases "tg_id t = k")
    case True
    then have out: "k \<notin> tg_id ` set ts" using Cons.prems(2) by auto
    have "cron_times k es = (if eo = None then [] else [now])"
      using IH Cons.prems(2) out own True by simp
    moreover have "x = t" if "x \<in> set (t # ts)" "tg_id x = k" for x using that out by auto
    ultimately show ?thesis using True st(1,3) id by auto
  next
    case False
    with IH Cons.prems(2) own st(3) id show ?thesis by simp
  qed
qed simp

lemma claim_due_set: "t \<in> set (claim_due db locked now) \<Longrightarrow> t \<in> set (tb_triggers db) \<and> is_due db locked now t"
  by (auto simp: claim_due_def Let_def dest!: in_set_takeD)

lemma distinct_claim_due:
  assumes "distinct (map tg_id (tb_triggers db))"
  shows "distinct (map tg_id (claim_due db locked now))"
proof -
  have "distinct (claim_due db locked now)"
    unfolding claim_due_def Let_def
    by (rule distinct_take) (use assms in \<open>auto simp: distinct_map\<close>)
  moreover have "inj_on tg_id (set (claim_due db locked now))"
    using assms claim_due_set by (metis distinct_map inj_on_subset subsetI)
  ultimately show ?thesis by (simp add: distinct_map)
qed

definition schedule_ok :: "cron_env \<Rightarrow> trigger_db \<Rightarrow> bool" where
  "schedule_ok ce db \<longleftrightarrow> distinct (map tg_id (tb_triggers db))
     \<and> (\<forall>t \<in> set (tb_triggers db).
          sorted_wrt (slot_between ce (tg_config t)) (cron_times (tg_id t) (tb_events db))
          \<and> (cron_times (tg_id t) (tb_events db) \<noteq> [] \<longrightarrow>
               (\<exists>n. slot_of ce (tg_config t) (last (cron_times (tg_id t) (tb_events db))) = Next_slot n
                  \<and> tg_next_run_at t = Some n)))"

text \<open>Appending a fire that was due.\<close>

lemma sorted_snoc_due:
  assumes later: "\<And>a n. slot_of ce cfg a = Next_slot n \<Longrightarrow> a < n"
    and "sorted_wrt (slot_between ce cfg) ts" "ts \<noteq> []" "slot_of ce cfg (last ts) = Next_slot n" "n \<le> now"
  shows "sorted_wrt (slot_between ce cfg) (ts @ [now])"
proof -
  have "slot_between ce cfg a now" if "a \<in> set ts" for a
  proof (cases "a = last ts")
    case True
    with assms(4,5) show ?thesis by (auto simp: slot_between_def)
  next
    case False
    obtain xs where xs: "ts = xs @ [last ts]" using \<open>ts \<noteq> []\<close> by (metis append_butlast_last_id)
    then have "a \<in> set xs" using that False by (metis Un_iff empty_iff empty_set insert_iff list.simps(15) set_append)
    then have "slot_between ce cfg a (last ts)" using assms(2) xs by (metis list.set_intros(1) sorted_wrt_append)
    moreover have "last ts < n" by (rule later[OF assms(4)])
    ultimately show ?thesis using assms(5) by (auto simp: slot_between_def)
  qed
  with assms(2) show ?thesis by (simp add: sorted_wrt_append)
qed

lemma schedule_tick:
  assumes later: "\<And>cfg a n. slot_of ce cfg a = Next_slot n \<Longrightarrow> a < n" and ok: "schedule_ok ce db"
  shows "schedule_ok ce (fst (cron_tick ce leases term now locked fresh enq db))"
proof (cases "snd (cron_tick ce leases term now locked fresh enq db)")
  case (Inl e)
  then show ?thesis using ok by (auto simp: cron_tick_def Let_def split: option.splits if_splits)
next
  case (Inr n)
  let ?db' = "fst (cron_tick ce leases term now locked fresh enq db)"
  obtain cs es where run: "fire_rows ce db now fresh 0 (claim_due db locked now) = Some (cs, es)"
    "tb_triggers ?db' = update_triggers cs (tb_triggers db)" "tb_events ?db' = tb_events db @ es"
    using Inr by (auto simp: cron_tick_def Let_def split: option.splits if_splits)
  have dist: "distinct (map tg_id (tb_triggers db))" using ok by (simp add: schedule_ok_def)
  note eff = fire_rows_for[OF run(1) distinct_claim_due[OF dist]]
  have row: "tg_id u = tg_id t \<and> tg_config u = tg_config t
      \<and> sorted_wrt (slot_between ce (tg_config t)) (cron_times (tg_id t) (tb_events db @ es))
      \<and> (cron_times (tg_id t) (tb_events db @ es) \<noteq> [] \<longrightarrow>
           (\<exists>n. slot_of ce (tg_config t) (last (cron_times (tg_id t) (tb_events db @ es))) = Next_slot n
              \<and> tg_next_run_at u = Some n))"
    if t: "t \<in> set (tb_triggers db)"
      and u: "u = (case find (\<lambda>t'. tg_id t' = tg_id t) cs of None \<Rightarrow> t | Some t' \<Rightarrow> t')" for t u
  proof -
    let ?T = "cron_times (tg_id t) (tb_events db)"
    have old: "sorted_wrt (slot_between ce (tg_config t)) ?T"
      "?T \<noteq> [] \<Longrightarrow> \<exists>n. slot_of ce (tg_config t) (last ?T) = Next_slot n \<and> tg_next_run_at t = Some n"
      using ok t by (simp_all add: schedule_ok_def)
    show ?thesis
    proof (cases "tg_id t \<in> tg_id ` set (claim_due db locked now)")
      case False
      with eff[of "tg_id t"] u old show ?thesis by simp
    next
      case True
      then obtain t0 where t0: "t0 \<in> set (claim_due db locked now)" "tg_id t0 = tg_id t" by auto
      then have "t0 = t" using claim_due_set t dist by (metis distinct_map inj_onD)
      with t0 have c: "t \<in> set (claim_due db locked now)" by simp
      obtain j t' eo where f: "fire_row ce now j (owner_of db t) t = Some (t', eo)"
        "find (\<lambda>t'. tg_id t' = tg_id t) cs = Some t'" "cron_times (tg_id t) es = (if eo = None then [] else [now])"
        using eff[of "tg_id t"] c by blast
      have u': "u = t'" using u f(2) by simp
      note e = fire_row_effect[OF f(1)]
      show ?thesis
      proof (cases eo)
        case None
        with e f(3) old u' show ?thesis by auto
      next
        case (Some x)
        then obtain n where n: "slot_of ce (tg_config t) now = Next_slot n" "tg_next_run_at t' = Some n"
          "tg_next_run_at t \<noteq> None" using e by auto
        have "sorted_wrt (slot_between ce (tg_config t)) (?T @ [now])"
        proof (cases "?T = []")
          case False
          then obtain m where m: "slot_of ce (tg_config t) (last ?T) = Next_slot m" "tg_next_run_at t = Some m"
            using old(2) by blast
          have "m \<le> now" using claim_due_set[OF c] m(2) by (simp add: is_due_def)
          show ?thesis by (rule sorted_snoc_due[OF _ old(1) False m(1) \<open>m \<le> now\<close>]) (rule later)
        qed simp
        with Some e f(3) n u' show ?thesis by simp
      qed
    qed
  qed
  have ids: "map tg_id (tb_triggers ?db') = map tg_id (tb_triggers db)"
    unfolding run(2) update_triggers_def using row by simp
  show ?thesis
    unfolding schedule_ok_def ids
  proof (intro conjI dist ballI)
    fix u assume "u \<in> set (tb_triggers ?db')"
    then obtain t where t: "t \<in> set (tb_triggers db)"
      "u = (case find (\<lambda>t'. tg_id t' = tg_id t) cs of None \<Rightarrow> t | Some t' \<Rightarrow> t')"
      unfolding run(2) update_triggers_def by auto
    from row[OF t] show "sorted_wrt (slot_between ce (tg_config u)) (cron_times (tg_id u) (tb_events ?db'))"
      "cron_times (tg_id u) (tb_events ?db') \<noteq> [] \<longrightarrow>
         (\<exists>n. slot_of ce (tg_config u) (last (cron_times (tg_id u) (tb_events ?db'))) = Next_slot n
            \<and> tg_next_run_at u = Some n)"
      by (simp_all add: run(3))
  qed
qed

lemma schedule_other:
  assumes "schedule_ok ce db" "tb_triggers db' = tb_triggers db"
    and "tb_events db' = map f (tb_events db) @ new" "stamps f" "\<And>e. e \<in> set new \<Longrightarrow> te_kind e \<noteq> ''cron''"
  shows "schedule_ok ce db'"
proof -
  have "cron_times k new = []" for k using assms(5) by (auto simp: cron_times_def filter_empty_conv)
  then have "cron_times k (tb_events db') = cron_times k (tb_events db)" for k
    by (simp add: assms(3) cron_times_stamps[OF assms(4)])
  with assms(1,2) show ?thesis by (simp add: schedule_ok_def)
qed

lemma recover_events_triggers [simp]: "tb_triggers (recover_events pool enq now i es db) = tb_triggers db"
  by (induction pool enq now i es db rule: recover_events.induct)
    (auto simp: recover_event_def update_event_def split: option.splits)

lemma schedule_op:
  assumes "\<And>cfg a n. slot_of (tv_cron env) cfg a = Next_slot n \<Longrightarrow> a < n"
    and "schedule_ok (tv_cron env) db" "events_ok db" "trigger_op_ok db op" "\<nexists>ts d ow. op = Configure ts d ow"
  shows "schedule_ok (tv_cron env) (apply_trigger_op env now op db)"
proof (cases op)
  case (Cron_tick leases t locked fresh enq)
  then show ?thesis using schedule_tick[OF assms(1,2)] by simp
next
  case (Drain pool enq locked)
  obtain f where "tb_events (process_trigger_events_batch pool enq locked now db) = map f (tb_events db)" "stamps f"
    using recover_events_effect[OF distinct_orphans[OF assms(3)]] unfolding process_trigger_events_batch_def by blast
  then show ?thesis using schedule_other[OF assms(2), of _ f "[]"] by (simp add: Drain process_trigger_events_batch_def)
next
  case (Sweep enq)
  show ?thesis unfolding Sweep apply_trigger_op.simps sweep_once_def Let_def fst_conv
    by (rule schedule_other[OF assms(2), where new = "[]" and f = "\<lambda>e. if te_id e \<in> te_id ` set (take sweep_limit
          (filter (is_orphan (now - sweep_stale_seconds)) (tb_events db))) \<and> te_dispatched_at e = None
        then mark_dispatched now e else e"]) (simp_all add: stamps_if)
next
  case (Webhook route req k queue)
  obtain db' r where run: "webhook_trigger (tv_webhook env) route req k queue now db = (db', r)" by fastforce
  show ?thesis
  proof (cases "db' = db")
    case True
    with run assms(2) show ?thesis by (simp add: Webhook)
  next
    case False
    then obtain t where "webhook_inserts (tv_webhook env) req (wh_body req) t k queue db db'"
      using webhook_trigger_cases[OF run] assms(4) Webhook by auto
    then obtain e where "tb_events db' = tb_events db @ [e]" "te_kind e = ''webhook''"
      by cases auto
    then have "schedule_ok (tv_cron env) db'"
      using schedule_other[OF assms(2), of db' id "[e]"] webhook_trigger_triggers[of "tv_webhook env" route req k queue now db]
      by (simp add: run)
    with run show ?thesis by (simp add: Webhook)
  qed
next
  case (Command a platform payload k queue)
  show ?thesis
    using assms(4) command_effect[of k db a platform payload queue now]
    by (auto simp: Command intro!: schedule_other[OF assms(2), where f = id])
next
  case (Configure ts defs owners)
  with assms(5) show ?thesis by blast
qed

lemma schedule_steps:
  "trigger_steps env db ops db' \<Longrightarrow> (\<And>cfg a n. slot_of (tv_cron env) cfg a = Next_slot n \<Longrightarrow> a < n) \<Longrightarrow>
   \<forall>(now, op) \<in> set ops. \<nexists>ts d ow. op = Configure ts d ow \<Longrightarrow> events_ok db \<Longrightarrow> schedule_ok (tv_cron env) db
   \<Longrightarrow> schedule_ok (tv_cron env) db'"
proof (induction rule: trigger_steps.induct)
  case (go db t now ts db')
  have "schedule_ok (tv_cron env) (apply_trigger_op env now t db)"
    by (rule schedule_op) (use go in auto)
  with go show ?case by (auto intro: advances_events_ok op_advances)
qed simp

text \<open>C20: A cron trigger fires at most once for each slot of its schedule: whatever the ticks, their clocks,
  the leaders and the failures, between any two fires of a trigger lies a slot of its schedule, the
  first one after the earlier fire; a fire for a suspended owner counts too.\<close>

theorem cron_fires_each_slot_once:
  assumes "trigger_steps env db ops db'"
    and "\<And>e tz a n. ce_slot (tv_cron env) e tz a = Next_slot n \<Longrightarrow> a < n"
    and "\<forall>(now, op) \<in> set ops. \<nexists>ts d ow. op = Configure ts d ow"
    and "distinct (map tg_id (tb_triggers db))" "tb_events db = []"
    and "t \<in> set (tb_triggers db')"
  shows "sorted_wrt (slot_between (tv_cron env) (tg_config t)) (cron_times (tg_id t) (tb_events db'))"
proof -
  have "a < n" if "slot_of (tv_cron env) cfg a = Next_slot n" for cfg a n
    using that assms(2) by (auto simp: slot_of_def split: json.splits)
  then have "schedule_ok (tv_cron env) db'"
    by (rule schedule_steps[OF assms(1)]) (use assms(3-5) in \<open>simp_all add: events_ok_def schedule_ok_def\<close>)
  with assms(6) show ?thesis by (simp add: schedule_ok_def)
qed

text \<open>What a tick that returns does for a due trigger with a usable schedule.\<close>

lemma fire_rows_mem:
  assumes "fire_rows ce db now fresh i ts = Some (ts', es)" "t \<in> set ts"
  shows "\<exists>j t' eo. fire_row ce now (fresh j) (owner_of db t) t = Some (t', eo) \<and> t' \<in> set ts' \<and> (\<forall>e. eo = Some e \<longrightarrow> e \<in> set es)"
  using assms
proof (induction ts arbitrary: i ts' es)
  case (Cons x ts)
  then obtain x1 eo ts1 es1 where st: "fire_row ce now (fresh i) (owner_of db x) x = Some (x1, eo)"
    "fire_rows ce db now fresh (Suc i) ts = Some (ts1, es1)" "ts' = x1 # ts1"
    "es = (case eo of None \<Rightarrow> es1 | Some y \<Rightarrow> y # es1)"
    by (auto split: option.splits)
  show ?case
  proof (cases "t = x")
    case True
    with st show ?thesis by (intro exI[of _ i] exI[of _ x1] exI[of _ eo]) auto
  next
    case False
    then have "t \<in> set ts" using Cons.prems(2) by simp
    from Cons.IH[OF st(2) this] obtain j t' eo' where "fire_row ce now (fresh j) (owner_of db t) t = Some (t', eo')"
      "t' \<in> set ts1" "\<forall>e. eo' = Some e \<longrightarrow> e \<in> set es1" by blast
    then show ?thesis
      by (intro exI[of _ j] exI[of _ t'] exI[of _ eo']) (auto simp: st(3,4) split: option.split)
  qed
qed simp

definition usable_schedule :: "trigger_row \<Rightarrow> bool" where
  "usable_schedule t \<longleftrightarrow> (case tg_config t of
     J_obj cfg \<Rightarrow> truthy (py_or (jget cfg ''cron_expression'') (jget cfg ''expression'')) | _ \<Rightarrow> False)"

lemma usable_fires:
  assumes "usable_schedule t" "slot_of ce (tg_config t) now = Next_slot n" "tg_next_run_at t \<noteq> None"
  shows "\<exists>e. fire_row ce now k owner t = Some (t\<lparr>tg_next_run_at := Some n, tg_last_run_at := Some now\<rparr>, Some e)
    \<and> te_key e = Some (Cron_key (tg_id t) now) \<and> te_automation_id e = tg_automation_id t
    \<and> (owner_blocked owner = None \<longrightarrow> te_dispatched_at e = None)"
proof (cases "tg_config t")
  case (J_obj cfg)
  have cfg: "cfg \<noteq> []"
  proof
    assume "cfg = []"
    then show False using assms(1) J_obj by (simp add: usable_schedule_def jget_def py_or_def)
  qed
  with assms J_obj show ?thesis
    by (simp add: usable_schedule_def fire_row_def slot_of_def Let_def cron_event_def ingest_trigger_event_def split: option.split)
qed (use assms(1) in \<open>simp_all add: usable_schedule_def\<close>)

lemma claim_due_all:
  assumes "length (filter (is_due db locked now) (tb_triggers db)) \<le> cron_max_batch" "t \<in> set (tb_triggers db)" "is_due db locked now t"
  shows "t \<in> set (claim_due db locked now)"
proof -
  let ?rows = "filter (is_due db locked now) (tb_triggers db)"
  let ?xs = "sort_key (\<lambda>t. the (tg_next_run_at t)) (filter (\<lambda>t. tg_next_run_at t \<noteq> None) ?rows) @ filter (\<lambda>t. tg_next_run_at t = None) ?rows"
  have "length ?xs = length ?rows"
    using sum_length_filter_compl[of "\<lambda>t. tg_next_run_at t = None" ?rows] by simp
  then have "claim_due db locked now = ?xs" using assms(1) by (simp add: claim_due_def Let_def)
  then show ?thesis using assms(2,3) by auto
qed

lemma enqueue_all_ok: "\<forall>i. enq i = None \<Longrightarrow> enqueue_all enq i js = js"
  by (induction js arbitrary: i) auto

lemma due_trigger_fires:
  assumes "cron_tick ce leases term now locked fresh enq db = (db', Inr fired)"
    and "length (filter (is_due db locked now) (tb_triggers db)) \<le> cron_max_batch"
    and "t \<in> set (tb_triggers db)" "is_due db locked now t" "tg_next_run_at t \<noteq> None"
    and "usable_schedule t" "slot_of ce (tg_config t) now = Next_slot n"
  shows "\<exists>e \<in> set (tb_events db'). te_key e = Some (Cron_key (tg_id t) now) \<and> te_automation_id e = tg_automation_id t
    \<and> (owner_blocked (owner_of db t) = None \<longrightarrow> (\<forall>i. enq i = None) \<longrightarrow> job_of ''controller-cron'' e \<in> set (tb_jobs db'))"
proof -
  obtain changed es where run: "fire_rows ce db now fresh 0 (claim_due db locked now) = Some (changed, es)"
    "db' = db\<lparr>tb_triggers := update_triggers changed (tb_triggers db), tb_events := tb_events db @ es,
       tb_jobs := tb_jobs db @ enqueue_all enq 0 (map (job_of ''controller-cron'') (filter (\<lambda>e. te_dispatched_at e = None) es))\<rparr>"
    using assms(1) by (auto simp: cron_tick_def Let_def split: option.splits if_splits)
  obtain j t' eo where row: "fire_row ce now (fresh j) (owner_of db t) t = Some (t', eo)" "\<forall>e. eo = Some e \<longrightarrow> e \<in> set es"
    using fire_rows_mem[OF run(1) claim_due_all[OF assms(2-4)]] by blast
  obtain e where e: "eo = Some e" "te_key e = Some (Cron_key (tg_id t) now)" "te_automation_id e = tg_automation_id t"
    "owner_blocked (owner_of db t) = None \<longrightarrow> te_dispatched_at e = None"
    using usable_fires[OF assms(6,7,5), of "fresh j" "owner_of db t"] row(1) by auto
  have "job_of ''controller-cron'' e \<in> set (tb_jobs db')"
    if "owner_blocked (owner_of db t) = None" "\<forall>i. enq i = None"
    using that e(1,4) row(2) by (simp add: run(2) enqueue_all_ok)
  with e row(2) show ?thesis by (auto simp: run(2))
qed

section \<open>Concrete runs\<close>

text \<open>A cron trigger and a webhook trigger of one automation; a schedule with a slot every sixty units.\<close>

definition x_cron :: trigger_row where
  "x_cron = \<lparr>tg_id = 10, tg_automation_id = 1, tg_kind = ''cron'',
             tg_config = J_obj [(''cron_expression'', J_str ''* * * * *'')],
             tg_next_run_at = Some 60, tg_last_run_at = None, tg_is_active = True\<rparr>"

definition x_hook :: trigger_row where
  "x_hook = \<lparr>tg_id = 11, tg_automation_id = 1, tg_kind = ''webhook'',
             tg_config = J_obj [(''token'', J_str ''tok''), (''webhook_secret'', J_str ''s'')],
             tg_next_run_at = None, tg_last_run_at = None, tg_is_active = True\<rparr>"

definition x_tdb :: trigger_db where
  "x_tdb = \<lparr>tb_triggers = [x_cron, x_hook], tb_defs = [1 \<mapsto> x_defn],
            tb_owners = [2 \<mapsto> \<lparr>ow_is_deleted = False, ow_is_suspended = False\<rparr>], tb_events = [], tb_jobs = []\<rparr>"

definition x_tenv :: trigger_env where
  "x_tenv = \<lparr>tv_cron = \<lparr>ce_slot = (\<lambda>e tz a. Next_slot ((a div 60 + 1) * 60)), ce_iso = (\<lambda>_. ''t'')\<rparr>,
             tv_webhook = \<lparr>we_hmac = (\<lambda>s b. s @ b), we_parse = (\<lambda>_. None), we_decode = (\<lambda>b. b), we_str = (\<lambda>_. [])\<rparr>\<rparr>"

abbreviation "x_fresh \<equiv> (\<lambda>i. 100 + i) :: nat \<Rightarrow> uuid"
abbreviation "x_tick \<equiv> Cron_tick (x_leases 0) 3 {} x_fresh (\<lambda>_. None)"
abbreviation "x_drain \<equiv> Drain True (\<lambda>_. None) {}"

definition x_ticked :: trigger_db where "x_ticked = apply_trigger_op x_tenv 60 x_tick x_tdb"
definition x_drained :: trigger_db where "x_drained = apply_trigger_op x_tenv 70 x_drain x_ticked"

lemma x_drained_run: "trigger_steps x_tenv x_tdb [(60, x_tick), (70, x_drain)] x_drained"
  unfolding x_drained_def x_ticked_def
  by (intro trigger_steps.intros) (simp_all add: x_tdb_def inj_def)

lemma x_tdb_ok: "events_ok x_tdb" "jobs_ok x_tdb"
  by (simp_all add: x_tdb_def events_ok_def jobs_ok_def)

lemma x_drained_ok: "events_ok x_drained"
  by (rule steps_events_ok[OF x_drained_run x_tdb_ok(1)])


definition x_settled_event :: trigger_event where "x_settled_event = hd (tb_events x_drained)"

theorem settled_events_stay_witness:
  "x_settled_event \<in> set (tb_events (apply_trigger_op x_tenv 200 x_drain x_drained))
   \<and> jobs_for 100 (apply_trigger_op x_tenv 200 x_drain x_drained) = jobs_for 100 x_drained"
proof -
  have "te_id x_settled_event = 100" by code_simp
  moreover have "x_settled_event \<in> set (tb_events (apply_trigger_op x_tenv 200 x_drain x_drained))
     \<and> jobs_for (te_id x_settled_event) (apply_trigger_op x_tenv 200 x_drain x_drained)
       = jobs_for (te_id x_settled_event) x_drained"
  proof (rule settled_events_stay)
    show "trigger_steps x_tenv x_drained [(200, x_drain)] (apply_trigger_op x_tenv 200 x_drain x_drained)"
      by (intro trigger_steps.intros) simp
    have "tb_events x_drained \<noteq> []" by code_simp
    then show "x_settled_event \<in> set (tb_events x_drained)" by (simp add: x_settled_event_def)
    show "is_settled x_settled_event" by code_simp
  qed (rule x_drained_ok)
  ultimately show ?thesis by simp
qed

lemma x_ticked_ok: "events_ok x_ticked"
proof (rule steps_events_ok)
  show "trigger_steps x_tenv x_tdb [(60, x_tick)] x_ticked"
    unfolding x_ticked_def by (intro trigger_steps.intros) (simp add: x_tdb_def inj_def)
qed (rule x_tdb_ok)

theorem drain_recovers_witness:
  "length (orphans x_ticked {} 70) = 1 \<and> orphans (process_trigger_events_batch True (\<lambda>_. None) {} 70 x_ticked) {} 70 = []"
proof -
  have "length (filter (\<lambda>e. is_orphan (70 - recovery_grace) e \<and> te_id e \<notin> {}) (tb_events x_ticked)) \<le> recovery_limit"
    by code_simp
  from drain_recovers[OF x_ticked_ok this]
  have "orphans (process_trigger_events_batch True (\<lambda>_. None) {} 70 x_ticked) {} 70 = []" by blast
  moreover have "length (orphans x_ticked {} 70) = 1" by code_simp
  ultimately show ?thesis by blast
qed

text \<open>Without an ARQ pool, as on the desktop, where a tick hands its jobs to the in-process queue: the job has been
  enqueued, and the drain marks its event failed.\<close>

lemma desktop_drain_fails_enqueued_event:
  "map dj_event (tb_jobs x_ticked) = [100]
   \<and> map (\<lambda>e. (te_dispatched_at e, te_last_error e))
       (tb_events (process_trigger_events_batch False (\<lambda>_. None) {} 70 x_ticked)) = [(None, Some ''no arq pool available'')]"
  by code_simp

definition x_req :: webhook_request where
  "x_req = \<lparr>wh_content_length = Some ''2'', wh_signature = ''sha256=shi'', wh_key_id = [], wh_body = ''hi'', wh_host = ''h''\<rparr>"

definition x_refused :: trigger_db where
  "x_refused = fst (webhook_trigger (tv_webhook x_tenv) (Standalone 1 ''tok'') x_req 7 (Raises ''down'') 5 x_tdb)"

lemma x_refused_changed: "x_refused \<noteq> x_tdb"
proof -
  have "tb_events x_refused \<noteq> []" "tb_events x_tdb = []" by code_simp+
  then show ?thesis by auto
qed


theorem webhook_body_runs_once_witness:
  "webhook_trigger (tv_webhook x_tenv) (Standalone 1 ''tok'') x_req 8 Accepts 9 x_refused = (x_refused, Inr (Replay 7))
   \<and> jobs_for 7 x_refused = []"
proof -
  obtain r where first: "webhook_trigger (tv_webhook x_tenv) (Standalone 1 ''tok'') x_req 7 (Raises ''down'') 5 x_tdb = (x_refused, r)"
    unfolding x_refused_def by (metis prod.collapse)
  have same: "tb_defs x_refused = tb_defs x_tdb" "tb_triggers x_refused = tb_triggers x_tdb"
    unfolding x_refused_def
    by (auto simp: webhook_trigger_def ingest_signed_webhook_def Let_def update_event_def
        split: sum.splits option.splits queue_call.splits webhook_route.splits)
  then have "resolve_route str x_refused (Standalone 1 ''tok'') = resolve_route str x_tdb (Standalone 1 ''tok'')" for str
    by (simp add: resolve_route_def resolve_automation_for_standalone_webhook_def webhook_triggers_def)
  moreover have "7 \<notin> te_id ` set (tb_events x_tdb)" by (simp add: x_tdb_def)
  ultimately show ?thesis
    using webhook_body_runs_once[OF first x_refused_changed _ x_tdb_ok trigger_steps.stop] same(1) by blast
qed

definition x_twice :: trigger_db where
  "x_twice = apply_trigger_op x_tenv 130 (Cron_tick (x_leases 0) 3 {} (\<lambda>i. 200 + i) (\<lambda>_. None)) x_ticked"

theorem cron_fires_each_slot_once_witness:
  "cron_times 10 (tb_events x_twice) = [60, 130]
   \<and> sorted_wrt (slot_between (tv_cron x_tenv) (tg_config x_cron)) (cron_times 10 (tb_events x_twice))"
proof -
  have events: "map te_id (tb_events x_ticked) = [100]" by code_simp
  then have ids: "te_id ` set (tb_events x_ticked) = {100}" by (metis list.set(1,2) set_map)
  have "trigger_op_ok x_tdb x_tick" by (simp add: x_tdb_def inj_def)
  moreover have "trigger_op_ok x_ticked (Cron_tick (x_leases 0) 3 {} (\<lambda>i. 200 + i) (\<lambda>_. None))"
    by (auto simp: inj_def ids)
  ultimately have run: "trigger_steps x_tenv x_tdb
      [(60, x_tick), (130, Cron_tick (x_leases 0) 3 {} (\<lambda>i. 200 + i) (\<lambda>_. None))] x_twice"
    unfolding x_twice_def x_ticked_def by (intro trigger_steps.intros)
  have later: "a < n" if "ce_slot (tv_cron x_tenv) e tz a = Next_slot n" for e tz a n
    using that by (auto simp: x_tenv_def)
  have "map (\<lambda>t. (tg_id t, tg_config t)) (tb_triggers x_twice) = map (\<lambda>t. (tg_id t, tg_config t)) [x_cron, x_hook]"
    by code_simp
  then obtain t where t: "t \<in> set (tb_triggers x_twice)" "tg_id t = 10" "tg_config t = tg_config x_cron"
    by (cases "tb_triggers x_twice") (auto simp: x_cron_def)
  have base: "distinct (map tg_id (tb_triggers x_tdb))" "tb_events x_tdb = []"
    by (simp_all add: x_tdb_def x_cron_def x_hook_def)
  have "sorted_wrt (slot_between (tv_cron x_tenv) (tg_config t)) (cron_times (tg_id t) (tb_events x_twice))"
    by (rule cron_fires_each_slot_once[OF run later _ base t(1)]) auto
  moreover have "cron_times 10 (tb_events x_twice) = [60, 130]" by code_simp
  ultimately show ?thesis by (simp add: t(2,3))
qed

end
