(* ===== verification/Controller.thy ===== *)
theory Controller
  imports Trigger_Events Intents
begin

text \<open>
  The supervisor of the controller plane (\<open>services/automations/controller_main.py\<close>): replicas that
  compete for one lease, and the loops the leader runs: the cron tick followed by the heartbeat and the
  approval sweep, the drain of missed events (\<open>missed_event_drain.py\<close>), the intent reconciler, the renewal.

  A cluster is the state of the lease backend, one supervisor for each holder id, and the tables the
  loops work on.  A step is one transaction of one supervisor, so the interleavings of the replicas are the
  orders of steps; while one sweep runs the lease does not change (\<open>Run_Lifecycle\<close> has the sweeps with
  a lease that does).  The backend is a parameter, with the table \<open>controller_leases\<close> the loops
  verify their term against as a function of its state: the database backend writes that table, the
  Kubernetes backend does not.

  The locale \<open>fenced_controller\<close> extends the protocol \<open>lease_backend\<close> by what the verification of a term
  promises; \<open>live_controller\<close> adds that the newest term passes it.  Both backends interpret the first,
  only the database the second.
\<close>

subsection \<open>Supervisors\<close>

text \<open>Where the tick loop is: before one of its three steps, or returned.\<close>

datatype tick_pc = At_cron | At_heartbeat | At_approvals | Stopped

record supervisor =
  sv_token :: "lease_token option"
  sv_tick :: tick_pc
  sv_reconciling :: bool
  sv_lost :: bool

definition standby :: supervisor where
  "standby = \<lparr>sv_token = None, sv_tick = Stopped, sv_reconciling = False, sv_lost = False\<rparr>"

definition leading :: "lease_token \<Rightarrow> supervisor" where
  "leading token = \<lparr>sv_token = Some token, sv_tick = At_cron, sv_reconciling = True, sv_lost = False\<rparr>"

record ('b, 'w, 's, 'v) cluster =
  cl_lease :: 'b
  cl_sups :: "string \<Rightarrow> supervisor"
  cl_triggers :: trigger_db
  cl_runs :: "('w, 's) dispatch_db"
  cl_intents :: "intent list"
  cl_world :: 'v

record ('b, 'v) controller_env =
  co_acquire :: "'b \<Rightarrow> bool \<Rightarrow> instant \<Rightarrow> string \<Rightarrow> string \<Rightarrow> int \<Rightarrow> 'b \<times> lease_token option"
  co_renew :: "'b \<Rightarrow> bool \<Rightarrow> instant \<Rightarrow> lease_token \<Rightarrow> 'b \<times> bool"
  co_release :: "'b \<Rightarrow> bool \<Rightarrow> instant \<Rightarrow> lease_token \<Rightarrow> 'b"
  co_table :: "'b \<Rightarrow> lease_table"
  co_cron :: cron_env
  co_reconciler :: "'v reconciler"
  co_repr :: "apply_error \<Rightarrow> string"

abbreviation "lease_name \<equiv> ''controller''"
abbreviation "lease_ttl_seconds \<equiv> (60 :: int)"
abbreviation "stale_seconds \<equiv> (90 :: int)"
abbreviation "max_retries \<equiv> (3 :: int)"

definition set_sup :: "string \<Rightarrow> supervisor \<Rightarrow> ('b, 'w, 's, 'v) cluster \<Rightarrow> ('b, 'w, 's, 'v) cluster" where
  "set_sup h s cl = cl\<lparr>cl_sups := (cl_sups cl)(h := s)\<rparr>"

subsection \<open>Becoming the leader\<close>

text \<open>\<open>sweep\<close> is \<open>None\<close> where the sweep at promotion raises, which is logged.\<close>

definition try_acquire ::
  "('b, 'v) controller_env \<Rightarrow> bool \<Rightarrow> (nat \<Rightarrow> string option) option \<Rightarrow> instant \<Rightarrow> string
   \<Rightarrow> ('b, 'w, 's, 'v) cluster \<Rightarrow> ('b, 'w, 's, 'v) cluster" where
  "try_acquire env fails sweep now h cl =
     (if sv_token (cl_sups cl h) \<noteq> None then cl
      else (case co_acquire env (cl_lease cl) fails now lease_name h lease_ttl_seconds of
              (b, None) \<Rightarrow> cl\<lparr>cl_lease := b\<rparr>
            | (b, Some token) \<Rightarrow>
                set_sup h (leading token)
                  (cl\<lparr>cl_lease := b,
                      cl_triggers := (case sweep of None \<Rightarrow> cl_triggers cl
                                      | Some enq \<Rightarrow> fst (sweep_once enq now (cl_triggers cl)))\<rparr>)))"

subsection \<open>The tick loop\<close>

text \<open>\<open>fails\<close> is an exception other than \<open>LeaseLost\<close>: it is logged and the tick goes on with its next step.  The
  loop does not start a tick once the lease is known to be lost.\<close>

definition tick_cron ::
  "('b, 'v) controller_env \<Rightarrow> bool \<Rightarrow> uuid set \<Rightarrow> (nat \<Rightarrow> uuid) \<Rightarrow> (nat \<Rightarrow> string option) \<Rightarrow> instant \<Rightarrow> string
   \<Rightarrow> ('b, 'w, 's, 'v) cluster \<Rightarrow> ('b, 'w, 's, 'v) cluster" where
  "tick_cron env fails locked fresh enq now h cl =
     (let s = cl_sups cl h
      in case sv_token s of
           None \<Rightarrow> cl
         | Some token \<Rightarrow>
             if sv_tick s \<noteq> At_cron \<or> sv_lost s then cl
             else if fails then set_sup h (s\<lparr>sv_tick := At_heartbeat\<rparr>) cl
             else (case cron_tick (co_cron env) (co_table env (cl_lease cl)) (tk_term token) now locked fresh enq
                          (cl_triggers cl) of
                     (db, Inl (Tick_lease_lost _)) \<Rightarrow> set_sup h (s\<lparr>sv_tick := Stopped\<rparr>) (cl\<lparr>cl_triggers := db\<rparr>)
                   | (db, _) \<Rightarrow> set_sup h (s\<lparr>sv_tick := At_heartbeat\<rparr>) (cl\<lparr>cl_triggers := db\<rparr>)))"

definition tick_heartbeat ::
  "('b, 'v) controller_env \<Rightarrow> bool \<Rightarrow> instant \<Rightarrow> string \<Rightarrow> ('b, 'w, 's, 'v) cluster \<Rightarrow> ('b, 'w, 's, 'v) cluster" where
  "tick_heartbeat env fails now h cl =
     (let s = cl_sups cl h
      in case sv_token s of
           None \<Rightarrow> cl
         | Some token \<Rightarrow>
             if sv_tick s \<noteq> At_heartbeat then cl
             else if fails then set_sup h (s\<lparr>sv_tick := At_approvals\<rparr>) cl
             else (case sweep_stale_running (\<lambda>_. co_table env (cl_lease cl)) (tk_term token) stale_seconds max_retries
                          now (cl_runs cl) of
                     Inl _ \<Rightarrow> set_sup h (s\<lparr>sv_tick := Stopped\<rparr>) cl
                   | Inr (runs, _) \<Rightarrow> set_sup h (s\<lparr>sv_tick := At_approvals\<rparr>) (cl\<lparr>cl_runs := runs\<rparr>)))"

definition tick_approvals ::
  "('b, 'v) controller_env \<Rightarrow> bool \<Rightarrow> instant \<Rightarrow> string \<Rightarrow> ('b, 'w, 's, 'v) cluster \<Rightarrow> ('b, 'w, 's, 'v) cluster" where
  "tick_approvals env fails now h cl =
     (let s = cl_sups cl h
      in case sv_token s of
           None \<Rightarrow> cl
         | Some token \<Rightarrow>
             if sv_tick s \<noteq> At_approvals then cl
             else if fails then set_sup h (s\<lparr>sv_tick := At_cron\<rparr>) cl
             else (case sweep_expired_approvals (\<lambda>_. co_table env (cl_lease cl)) (tk_term token) now (cl_runs cl) of
                     Inl _ \<Rightarrow> set_sup h (s\<lparr>sv_tick := Stopped\<rparr>) cl
                   | Inr (runs, _) \<Rightarrow> set_sup h (s\<lparr>sv_tick := At_cron\<rparr>) (cl\<lparr>cl_runs := runs\<rparr>)))"

subsection \<open>The other loops of a leader\<close>

definition drain_pass ::
  "bool \<Rightarrow> (nat \<Rightarrow> string option) \<Rightarrow> uuid set \<Rightarrow> instant \<Rightarrow> string
   \<Rightarrow> ('b, 'w, 's, 'v) cluster \<Rightarrow> ('b, 'w, 's, 'v) cluster" where
  "drain_pass pool enq locked now h cl =
     (if sv_token (cl_sups cl h) = None \<or> sv_lost (cl_sups cl h) then cl
      else cl\<lparr>cl_triggers := process_trigger_events_batch pool enq locked now (cl_triggers cl)\<rparr>)"

definition reconcile_pass ::
  "('b, 'v) controller_env \<Rightarrow> instant \<Rightarrow> string \<Rightarrow> ('b, 'w, 's, 'v) cluster \<Rightarrow> ('b, 'w, 's, 'v) cluster" where
  "reconcile_pass env now h cl =
     (case sv_token (cl_sups cl h) of
        None \<Rightarrow> cl
      | Some token \<Rightarrow>
          if \<not> sv_reconciling (cl_sups cl h) \<or> sv_lost (cl_sups cl h) then cl
          else (case Intents.tick (co_reconciler env) (co_repr env) now (tk_term token) (cl_intents cl) (cl_world cl) of
                  (rows, world, _) \<Rightarrow> cl\<lparr>cl_intents := rows, cl_world := world\<rparr>))"

definition renew_pass ::
  "('b, 'v) controller_env \<Rightarrow> bool \<Rightarrow> instant \<Rightarrow> string \<Rightarrow> ('b, 'w, 's, 'v) cluster \<Rightarrow> ('b, 'w, 's, 'v) cluster" where
  "renew_pass env fails now h cl =
     (case sv_token (cl_sups cl h) of
        None \<Rightarrow> cl
      | Some token \<Rightarrow>
          if sv_lost (cl_sups cl h) then cl
          else (case co_renew env (cl_lease cl) fails now token of
                  (b, ok) \<Rightarrow>
                    (if ok then cl\<lparr>cl_lease := b\<rparr>
                     else set_sup h ((cl_sups cl h)\<lparr>sv_lost := True\<rparr>) (cl\<lparr>cl_lease := b\<rparr>))))"

text \<open>The end of \<open>_run_as_leader\<close>, after the lease is lost or on shutdown: the loops are cancelled, the lease
  is released.\<close>

definition stand_down ::
  "('b, 'v) controller_env \<Rightarrow> bool \<Rightarrow> instant \<Rightarrow> string \<Rightarrow> ('b, 'w, 's, 'v) cluster \<Rightarrow> ('b, 'w, 's, 'v) cluster" where
  "stand_down env fails now h cl =
     (case sv_token (cl_sups cl h) of
        None \<Rightarrow> cl
      | Some token \<Rightarrow> set_sup h standby (cl\<lparr>cl_lease := co_release env (cl_lease cl) fails now token\<rparr>))"

subsection \<open>Runs of a cluster\<close>

text \<open>\<open>Outside\<close> is anything other processes do to the tables; \<open>Die\<close> kills the process.\<close>

datatype ('w, 's) supervisor_step =
    Try_acquire bool "(nat \<Rightarrow> string option) option"
  | Tick_cron bool "uuid set" "nat \<Rightarrow> uuid" "nat \<Rightarrow> string option"
  | Tick_heartbeat bool
  | Tick_approvals bool
  | Drain_pass bool "nat \<Rightarrow> string option" "uuid set"
  | Reconcile_pass
  | Renew_pass bool
  | Stand_down bool
  | Die
  | Outside trigger_db "('w, 's) dispatch_db" "intent list"

fun apply_step ::
  "('b, 'v) controller_env \<Rightarrow> instant \<Rightarrow> string \<Rightarrow> ('w, 's) supervisor_step
   \<Rightarrow> ('b, 'w, 's, 'v) cluster \<Rightarrow> ('b, 'w, 's, 'v) cluster" where
  "apply_step env now h (Try_acquire fails sweep) cl = try_acquire env fails sweep now h cl"
| "apply_step env now h (Tick_cron fails locked fresh enq) cl = tick_cron env fails locked fresh enq now h cl"
| "apply_step env now h (Tick_heartbeat fails) cl = tick_heartbeat env fails now h cl"
| "apply_step env now h (Tick_approvals fails) cl = tick_approvals env fails now h cl"
| "apply_step env now h (Drain_pass pool enq locked) cl = drain_pass pool enq locked now h cl"
| "apply_step env now h Reconcile_pass cl = reconcile_pass env now h cl"
| "apply_step env now h (Renew_pass fails) cl = renew_pass env fails now h cl"
| "apply_step env now h (Stand_down fails) cl = stand_down env fails now h cl"
| "apply_step env now h Die cl = set_sup h standby cl"
| "apply_step env now h (Outside triggers runs intents) cl =
     cl\<lparr>cl_triggers := triggers, cl_runs := runs, cl_intents := intents\<rparr>"

definition controller_run ::
  "('b, 'v) controller_env \<Rightarrow> (instant \<times> string \<times> ('w, 's) supervisor_step) list
   \<Rightarrow> ('b, 'w, 's, 'v) cluster \<Rightarrow> ('b, 'w, 's, 'v) cluster" where
  "controller_run env steps cl = fold (\<lambda>(now, h, stp). apply_step env now h stp) steps cl"

definition idle :: "('b, 'w, 's, 'v) cluster \<Rightarrow> bool" where
  "idle cl \<longleftrightarrow> (\<forall>h. cl_sups cl h = standby)"

text \<open>The two deployments.\<close>

definition db_controller :: "cron_env \<Rightarrow> 'v reconciler \<Rightarrow> (apply_error \<Rightarrow> string) \<Rightarrow> (lease_table, 'v) controller_env" where
  "db_controller cron reconciler repr =
     \<lparr>co_acquire = db_acquire, co_renew = db_renew, co_release = db_release, co_table = (\<lambda>s. s),
      co_cron = cron, co_reconciler = reconciler, co_repr = repr\<rparr>"

text \<open>The table as the migration creates it: no code but the database backend writes it.\<close>

definition k8s_controller :: "cron_env \<Rightarrow> 'v reconciler \<Rightarrow> (apply_error \<Rightarrow> string) \<Rightarrow> (k8s_leases, 'v) controller_env" where
  "k8s_controller cron reconciler repr =
     \<lparr>co_acquire = k8s_acquire, co_renew = k8s_renew, co_release = k8s_release, co_table = (\<lambda>_. Map.empty),
      co_cron = cron, co_reconciler = reconciler, co_repr = repr\<rparr>"

text \<open>The steps of the tick loop.\<close>

definition is_tick :: "('w, 's) supervisor_step \<Rightarrow> bool" where
  "is_tick stp \<longleftrightarrow> (case stp of Tick_cron _ _ _ _ \<Rightarrow> True | Tick_heartbeat _ \<Rightarrow> True | Tick_approvals _ \<Rightarrow> True | _ \<Rightarrow> False)"

lemmas loop_defs = try_acquire_def tick_cron_def tick_heartbeat_def tick_approvals_def drain_pass_def
  reconcile_pass_def renew_pass_def stand_down_def set_sup_def Let_def

section \<open>Fencing\<close>

text \<open>What a backend with its table promises to the loops: a term that passes the verification is the newest one.\<close>

locale fenced_controller =
  lease_backend "co_acquire env" "co_renew env" "co_release env" current term_of live
  for env :: "('b, 'v) controller_env"
    and current :: "'b \<Rightarrow> string \<Rightarrow> (string \<times> int) option"
    and term_of :: "'b \<Rightarrow> string \<Rightarrow> int"
    and live :: "'b \<Rightarrow> instant \<Rightarrow> string \<Rightarrow> string \<Rightarrow> bool" +
  assumes verified_newest: "verify_lease_or_raise (co_table env s) t = None \<Longrightarrow> term_of s lease_name = t"
    and current_newest: "current s n = Some (h, t) \<Longrightarrow> term_of s n = t"

locale live_controller = fenced_controller env current term_of live
  for env :: "('b, 'v) controller_env"
    and current :: "'b \<Rightarrow> string \<Rightarrow> (string \<times> int) option"
    and term_of :: "'b \<Rightarrow> string \<Rightarrow> int"
    and live :: "'b \<Rightarrow> instant \<Rightarrow> string \<Rightarrow> string \<Rightarrow> bool" +
  assumes newest_verified: "term_of s lease_name = t \<Longrightarrow> 0 < t \<Longrightarrow> verify_lease_or_raise (co_table env s) t = None"

text \<open>Tokens in use: each is of its supervisor, no term is above the newest, no two are the same.\<close>

context fenced_controller begin

definition tokens_ok :: "('b, 'w, 's, 'v) cluster \<Rightarrow> bool" where
  "tokens_ok cl \<longleftrightarrow> 0 \<le> term_of (cl_lease cl) lease_name
     \<and> (\<forall>h token. sv_token (cl_sups cl h) = Some token \<longrightarrow>
          tk_name token = lease_name \<and> tk_holder token = h
          \<and> 0 < tk_term token \<and> tk_term token \<le> term_of (cl_lease cl) lease_name)
     \<and> (\<forall>h h' token token'. sv_token (cl_sups cl h) = Some token \<longrightarrow> sv_token (cl_sups cl h') = Some token' \<longrightarrow>
          tk_term token = tk_term token' \<longrightarrow> h = h')"

lemma tokens_ok_same:
  assumes "tokens_ok cl" "term_of (cl_lease cl') lease_name = term_of (cl_lease cl) lease_name"
    and "\<And>h. sv_token (cl_sups cl' h) = sv_token (cl_sups cl h) \<or> sv_token (cl_sups cl' h) = None"
  shows "tokens_ok cl'"
proof -
  have "sv_token (cl_sups cl h) = Some token" if "sv_token (cl_sups cl' h) = Some token" for h token
    using assms(3)[of h] that by simp
  with assms(1) show ?thesis unfolding tokens_ok_def assms(2) by blast
qed

lemma tokens_new:
  assumes "tokens_ok cl" "term_of (cl_lease cl) lease_name < tk_term token"
    and "tk_name token = lease_name" "tk_holder token = h" "term_of (cl_lease cl') lease_name = tk_term token"
    and "\<And>h'. sv_token (cl_sups cl' h') = (if h' = h then Some token else sv_token (cl_sups cl h'))"
  shows "tokens_ok cl'"
proof -
  have old: "tk_term tk < tk_term token" if "sv_token (cl_sups cl h') = Some tk" for h' tk
    using assms(1,2) that unfolding tokens_ok_def by fastforce
  have "0 \<le> term_of (cl_lease cl) lease_name" using assms(1) by (simp add: tokens_ok_def)
  moreover have "tk_name tk = lease_name \<and> tk_holder tk = h' \<and> 0 < tk_term tk \<and> tk_term tk \<le> tk_term token"
    if "sv_token (cl_sups cl' h') = Some tk" for h' tk
  proof (cases "h' = h")
    case False
    then have "sv_token (cl_sups cl h') = Some tk" using that assms(6) by simp
    then show ?thesis using old assms(1) unfolding tokens_ok_def by fastforce
  qed (use that assms calculation in simp)
  moreover have "h' = h''"
    if "sv_token (cl_sups cl' h') = Some tk" "sv_token (cl_sups cl' h'') = Some tk'" "tk_term tk = tk_term tk'" for h' h'' tk tk'
  proof (cases "h' = h"; cases "h'' = h")
    assume "h' \<noteq> h" "h'' \<noteq> h"
    then show ?thesis using that assms(1) unfolding assms(6) tokens_ok_def by simp
  qed (use that old[of h' tk] old[of h'' tk'] in \<open>auto simp: assms(6)\<close>)
  moreover have "0 \<le> term_of (cl_lease cl') lease_name" using calculation(1) assms(2,5) by simp
  ultimately show ?thesis unfolding tokens_ok_def assms(5) by blast
qed

lemma tokens_acquire:
  assumes "tokens_ok cl"
  shows "tokens_ok (try_acquire env fails sweep now h cl)"
proof (cases "sv_token (cl_sups cl h)")
  case free: None
  obtain b r where run: "co_acquire env (cl_lease cl) fails now lease_name h lease_ttl_seconds = (b, r)" by fastforce
  show ?thesis
  proof (cases r)
    case None
    with acquire_none run have "term_of (cl_lease cl) lease_name \<le> term_of b lease_name" by blast
    with assms show ?thesis
      unfolding tokens_ok_def try_acquire_def by (simp add: free None run) (meson order_trans)
  next
    case (Some token)
    with acquire_token[of "cl_lease cl" fails now lease_name h lease_ttl_seconds b token] run
    show ?thesis
      by (intro tokens_new[OF assms, of token h]) (simp_all add: try_acquire_def free set_sup_def leading_def)
  qed
qed (use assms in \<open>simp add: try_acquire_def\<close>)

text \<open>Every other step keeps the terms and gives out no token.\<close>

lemma step_frame:
  assumes "\<nexists>fails sweep. stp = Try_acquire fails sweep"
  shows "term_of (cl_lease (apply_step env now h stp cl)) = term_of (cl_lease cl)
    \<and> (sv_token (cl_sups (apply_step env now h stp cl) h') = sv_token (cl_sups cl h')
       \<or> sv_token (cl_sups (apply_step env now h stp cl) h') = None)"
proof (cases stp)
  case (Renew_pass fails)
  have "term_of b = term_of s" if "co_renew env s fails now tk = (b, ok)" for s tk b ok
    using renew_frame(2)[of s fails now tk] that by simp
  then show ?thesis by (simp add: Renew_pass renew_pass_def set_sup_def split: option.split prod.split)
next
  case (Stand_down fails)
  then show ?thesis by (simp add: stand_down_def set_sup_def standby_def release_frame split: option.split)
qed (use assms in \<open>simp_all add: loop_defs standby_def split: option.split sum.split prod.split tick_exc.split\<close>)

lemma tokens_step: "tokens_ok cl \<Longrightarrow> tokens_ok (apply_step env now h stp cl)"
proof (cases "\<exists>fails sweep. stp = Try_acquire fails sweep")
  case False
  assume "tokens_ok cl"
  then show ?thesis by (rule tokens_ok_same) (use step_frame[OF False, of now h cl] in simp_all)
qed (auto simp: tokens_acquire)

lemma tokens_run: "tokens_ok cl \<Longrightarrow> tokens_ok (controller_run env steps cl)"
  unfolding controller_run_def by (induction steps arbitrary: cl) (auto simp: tokens_step)

lemma tokens_start: "idle cl \<Longrightarrow> 0 \<le> term_of (cl_lease cl) lease_name \<Longrightarrow> tokens_ok cl"
  by (simp add: tokens_ok_def idle_def standby_def)

text \<open>A tick step writes only under the newest term.\<close>

lemma sweeps_fenced:
  assumes "verify_lease_or_raise table t \<noteq> None"
  shows "sweep_stale_running (\<lambda>_. table) t stale retries now db = Inr (db, []) \<or>
           (\<exists>e. sweep_stale_running (\<lambda>_. table) t stale retries now db = Inl e)"
    and "sweep_expired_approvals (\<lambda>_. table) t now db = Inr (db, 0) \<or>
           (\<exists>e. sweep_expired_approvals (\<lambda>_. table) t now db = Inl e)"
proof -
  obtain e where e: "verify_lease_or_raise table t = Some e" using assms by blast
  have "\<exists>e. sweep_rows (\<lambda>_. table) t retries now 0 rows db = Inl e" for rows by (cases rows) (simp_all add: e)
  then show "sweep_stale_running (\<lambda>_. table) t stale retries now db = Inr (db, []) \<or>
      (\<exists>e. sweep_stale_running (\<lambda>_. table) t stale retries now db = Inl e)"
    by (simp add: sweep_stale_running_def Let_def)
  have "\<exists>e. time_out_requests (\<lambda>_. table) t now 0 rows db = Inl e" for rows by (cases rows) (simp_all add: e)
  then obtain e' where "time_out_requests (\<lambda>_. table) t now 0 (take batch_limit (filter (is_overdue now) (db_approvals db))) db = Inl e'"
    by blast
  then show "sweep_expired_approvals (\<lambda>_. table) t now db = Inr (db, 0) \<or>
      (\<exists>e. sweep_expired_approvals (\<lambda>_. table) t now db = Inl e)"
    by (simp add: sweep_expired_approvals_def Let_def)
qed

lemma unverified_cron:
  "verify_lease_or_raise table t \<noteq> None \<Longrightarrow> \<exists>e. cron_tick ce table t now locked fresh enq db = (db, Inl (Tick_lease_lost e))"
  by (auto simp: cron_tick_def)

lemma tick_fenced:
  assumes "is_tick stp" "sv_token (cl_sups cl h) = Some token" "tk_term token \<noteq> term_of (cl_lease cl) lease_name"
  shows "cl_triggers (apply_step env now h stp cl) = cl_triggers cl \<and> cl_runs (apply_step env now h stp cl) = cl_runs cl"
proof -
  have bad: "verify_lease_or_raise (co_table env (cl_lease cl)) (tk_term token) \<noteq> None"
    using verified_newest[of "cl_lease cl" "tk_term token"] assms(3) by auto
  show ?thesis
  proof (cases stp)
    case (Tick_cron fails locked fresh enq)
    obtain e where "cron_tick (co_cron env) (co_table env (cl_lease cl)) (tk_term token) now locked fresh enq (cl_triggers cl)
        = (cl_triggers cl, Inl (Tick_lease_lost e))" using unverified_cron[OF bad] by blast
    then show ?thesis by (simp add: Tick_cron tick_cron_def assms(2) set_sup_def Let_def)
  next
    case (Tick_heartbeat fails)
    then show ?thesis
      using sweeps_fenced(1)[OF bad, of stale_seconds max_retries now "cl_runs cl"]
      by (auto simp: tick_heartbeat_def assms(2) set_sup_def Let_def)
  next
    case (Tick_approvals fails)
    then show ?thesis
      using sweeps_fenced(2)[OF bad, of now "cl_runs cl"]
      by (auto simp: tick_approvals_def assms(2) set_sup_def Let_def)
  qed (use assms(1) in \<open>simp_all add: is_tick_def\<close>)
qed

lemma tick_writer:
  assumes "tokens_ok cl" "is_tick stp"
    and "cl_triggers (apply_step env now h stp cl) \<noteq> cl_triggers cl \<or> cl_runs (apply_step env now h stp cl) \<noteq> cl_runs cl"
  shows "\<exists>token. sv_token (cl_sups cl h) = Some token \<and> tk_term token = term_of (cl_lease cl) lease_name
    \<and> (\<forall>h' other. sv_token (cl_sups cl h') = Some other \<longrightarrow> h' \<noteq> h \<longrightarrow> tk_term other < tk_term token)"
proof (cases "sv_token (cl_sups cl h)")
  case None
  have "apply_step env now h stp cl = cl"
    using assms(2) None
    by (cases stp) (simp_all add: is_tick_def tick_cron_def tick_heartbeat_def tick_approvals_def Let_def)
  with assms(3) show ?thesis by simp
next
  case (Some token)
  with tick_fenced[OF assms(2) Some] assms(3) have newest: "tk_term token = term_of (cl_lease cl) lease_name" by blast
  moreover have "tk_term other < tk_term token" if "sv_token (cl_sups cl h') = Some other" "h' \<noteq> h" for h' other
  proof -
    have "tk_term other \<le> tk_term token" "tk_term other \<noteq> tk_term token"
      using assms(1) that Some newest unfolding tokens_ok_def by auto
    then show ?thesis by simp
  qed
  ultimately show ?thesis using Some by blast
qed

end

text \<open>Where the newest term passes the verification, a tick loop stops only in a deposed leader, which cannot
  renew.\<close>

context live_controller begin

definition stopped_ok :: "('b, 'w, 's, 'v) cluster \<Rightarrow> bool" where
  "stopped_ok cl \<longleftrightarrow> (\<forall>h token. sv_token (cl_sups cl h) = Some token \<longrightarrow> sv_tick (cl_sups cl h) = Stopped \<longrightarrow>
     tk_term token < term_of (cl_lease cl) lease_name)"

lemma verified_sweeps:
  assumes "verify_lease_or_raise table t = None"
  shows "\<exists>x. sweep_stale_running (\<lambda>_. table) t stale retries now db = Inr x"
    and "\<exists>x. sweep_expired_approvals (\<lambda>_. table) t now db = Inr x"
proof -
  have "\<exists>x. sweep_rows (\<lambda>_. table) t retries now i rows db = Inr x" for i rows db
    by (induction rows arbitrary: i db) (auto simp: assms split: prod.split sum.split, metis sum.distinct(1) prod.collapse)
  then show "\<exists>x. sweep_stale_running (\<lambda>_. table) t stale retries now db = Inr x"
    unfolding sweep_stale_running_def Let_def by (metis (no_types))
  have "\<exists>x. time_out_requests (\<lambda>_. table) t now i rows db = Inr x" for i rows db
    by (induction rows arbitrary: i db) (auto simp: assms)
  then obtain x where "time_out_requests (\<lambda>_. table) t now 0 (take batch_limit (filter (is_overdue now) (db_approvals db))) db = Inr x"
    by blast
  then show "\<exists>x. sweep_expired_approvals (\<lambda>_. table) t now db = Inr x"
    by (simp add: sweep_expired_approvals_def Let_def)
qed

lemma stopped_keep:
  assumes "stopped_ok cl" "term_of (cl_lease cl) lease_name \<le> term_of (cl_lease cl') lease_name"
    and "\<And>h. sv_token (cl_sups cl' h) = None \<or> sv_tick (cl_sups cl' h) \<noteq> Stopped
      \<or> sv_token (cl_sups cl' h) = sv_token (cl_sups cl h)
        \<and> (sv_tick (cl_sups cl' h) = sv_tick (cl_sups cl h)
           \<or> (\<forall>token. sv_token (cl_sups cl h) = Some token \<longrightarrow> tk_term token < term_of (cl_lease cl) lease_name))"
  shows "stopped_ok cl'"
proof -
  have "tk_term token < term_of (cl_lease cl) lease_name"
    if "sv_token (cl_sups cl' h) = Some token" "sv_tick (cl_sups cl' h) = Stopped" for h token
    using assms(3)[of h] that assms(1) unfolding stopped_ok_def by auto
  then show ?thesis using assms(2) unfolding stopped_ok_def by (meson less_le_trans)
qed

lemma stopped_acquire:
  assumes "stopped_ok cl"
  shows "stopped_ok (try_acquire env fails sweep now h cl)"
proof (cases "sv_token (cl_sups cl h)")
  case free: None
  obtain b r where run: "co_acquire env (cl_lease cl) fails now lease_name h lease_ttl_seconds = (b, r)" by fastforce
  show ?thesis
  proof (cases r)
    case None
    with acquire_none run have "term_of (cl_lease cl) lease_name \<le> term_of b lease_name" by blast
    with assms show ?thesis by (intro stopped_keep[OF assms]) (simp_all add: try_acquire_def free None run)
  next
    case (Some token)
    with acquire_token[of "cl_lease cl" fails now lease_name h lease_ttl_seconds b token] run
    show ?thesis
      by (intro stopped_keep[OF assms]) (simp_all add: try_acquire_def free set_sup_def leading_def)
  qed
qed (use assms in \<open>simp add: try_acquire_def\<close>)

lemma deposed:
  assumes "tokens_ok cl" "sv_token (cl_sups cl h) = Some token"
    and "verify_lease_or_raise (co_table env (cl_lease cl)) (tk_term token) \<noteq> None"
  shows "tk_term token < term_of (cl_lease cl) lease_name"
proof -
  have "0 < tk_term token" "tk_term token \<le> term_of (cl_lease cl) lease_name"
    using assms(1,2) unfolding tokens_ok_def by auto
  with newest_verified[of "cl_lease cl" "tk_term token"] assms(3) show ?thesis by fastforce
qed

lemma cron_stops:
  "cron_tick ce table t now locked fresh enq db = (db', Inl (Tick_lease_lost e)) \<Longrightarrow> verify_lease_or_raise table t \<noteq> None"
  by (auto simp: cron_tick_def Let_def split: option.splits if_splits)

lemma stopped_tick:
  assumes "tokens_ok cl" "stopped_ok cl" "is_tick stp"
  shows "stopped_ok (apply_step env now h stp cl)"
proof (cases "sv_token (cl_sups cl h)")
  case None
  have "apply_step env now h stp cl = cl"
    using assms(3) None
    by (cases stp) (simp_all add: is_tick_def tick_cron_def tick_heartbeat_def tick_approvals_def Let_def)
  with assms(2) show ?thesis by simp
next
  case (Some token)
  let ?table = "co_table env (cl_lease cl)" and ?t = "tk_term token"
  note old = deposed[OF assms(1) Some]
  have frame: "cl_lease (apply_step env now h stp cl) = cl_lease cl"
    "\<forall>h'. h' \<noteq> h \<longrightarrow> cl_sups (apply_step env now h stp cl) h' = cl_sups cl h'"
    "sv_token (cl_sups (apply_step env now h stp cl) h) = sv_token (cl_sups cl h)"
    using assms(3)
    by (cases stp; simp add: is_tick_def loop_defs Some split: sum.split prod.split tick_exc.split)+
  have stops: "verify_lease_or_raise ?table ?t \<noteq> None"
    if "sv_tick (cl_sups (apply_step env now h stp cl) h) = Stopped" "sv_tick (cl_sups cl h) \<noteq> Stopped"
  proof (cases stp)
    case (Tick_cron fails locked fresh enq)
    with that show ?thesis
      using cron_stops[of "co_cron env" ?table ?t now locked fresh enq "cl_triggers cl"]
      by (auto simp: tick_cron_def Some set_sup_def Let_def split: if_splits sum.splits prod.splits tick_exc.splits)
  next
    case (Tick_heartbeat fails)
    with that show ?thesis
      using verified_sweeps(1)[of ?table ?t stale_seconds max_retries now "cl_runs cl"]
      by (auto simp: tick_heartbeat_def Some set_sup_def Let_def split: if_splits sum.splits)
  next
    case (Tick_approvals fails)
    with that show ?thesis
      using verified_sweeps(2)[of ?table ?t now "cl_runs cl"]
      by (auto simp: tick_approvals_def Some set_sup_def Let_def split: if_splits sum.splits)
  qed (use assms(3) in \<open>simp_all add: is_tick_def\<close>)
  show ?thesis
  proof (rule stopped_keep[OF assms(2)])
    fix h'
    show "sv_token (cl_sups (apply_step env now h stp cl) h') = None \<or> sv_tick (cl_sups (apply_step env now h stp cl) h') \<noteq> Stopped
      \<or> sv_token (cl_sups (apply_step env now h stp cl) h') = sv_token (cl_sups cl h')
        \<and> (sv_tick (cl_sups (apply_step env now h stp cl) h') = sv_tick (cl_sups cl h')
           \<or> (\<forall>token. sv_token (cl_sups cl h') = Some token \<longrightarrow> tk_term token < term_of (cl_lease cl) lease_name))"
    proof (cases "h' = h")
      case True
      then show ?thesis using frame(3) stops old Some by (metis option.inject)
    qed (simp add: frame(2))
  qed (simp add: frame(1))
qed

lemma stopped_step:
  assumes "tokens_ok cl" "stopped_ok cl"
  shows "stopped_ok (apply_step env now h stp cl)"
proof (cases "is_tick stp \<or> (\<exists>fails sweep. stp = Try_acquire fails sweep)")
  case True
  with stopped_tick[OF assms] stopped_acquire[OF assms(2)] show ?thesis by auto
next
  case False
  then have "sv_token (cl_sups (apply_step env now h stp cl) h') = None
      \<or> sv_token (cl_sups (apply_step env now h stp cl) h') = sv_token (cl_sups cl h')
        \<and> sv_tick (cl_sups (apply_step env now h stp cl) h') = sv_tick (cl_sups cl h')" for h'
    by (cases stp) (simp_all add: is_tick_def loop_defs standby_def split: option.split prod.split)
  moreover have "term_of (cl_lease (apply_step env now h stp cl)) = term_of (cl_lease cl)"
    using step_frame[of stp now h cl] False by blast
  ultimately show ?thesis by (intro stopped_keep[OF assms(2)]) (simp, blast)
qed

lemma stopped_run: "tokens_ok cl \<Longrightarrow> stopped_ok cl \<Longrightarrow> stopped_ok (controller_run env steps cl)"
  unfolding controller_run_def by (induction steps arbitrary: cl) (auto simp: tokens_step stopped_step)

lemma stopped_cannot_renew:
  assumes "stopped_ok cl" "tokens_ok cl" "sv_token (cl_sups cl h) = Some token" "sv_tick (cl_sups cl h) = Stopped"
  shows "sv_lost (cl_sups (renew_pass env fails now h cl) h)"
proof -
  have "tk_term token \<noteq> term_of (cl_lease cl) lease_name" using assms(1,3,4) unfolding stopped_ok_def by fastforce
  moreover have "tk_name token = lease_name" using assms(2,3) unfolding tokens_ok_def by blast
  ultimately have "\<not> snd (co_renew env (cl_lease cl) fails now token)"
    using current_newest renew_ok by metis
  then show ?thesis by (auto simp: renew_pass_def assms(3) set_sup_def split: prod.split)
qed

end

section \<open>The two deployments\<close>

lemma controller_sel [simp]:
  "co_acquire (db_controller c r p) = db_acquire" "co_renew (db_controller c r p) = db_renew"
  "co_release (db_controller c r p) = db_release" "co_table (db_controller c r p) = (\<lambda>s. s)"
  "co_acquire (k8s_controller c r p) = k8s_acquire" "co_renew (k8s_controller c r p) = k8s_renew"
  "co_release (k8s_controller c r p) = k8s_release" "co_table (k8s_controller c r p) = (\<lambda>_. Map.empty)"
  by (simp_all add: db_controller_def k8s_controller_def)

interpretation dbc: live_controller "db_controller cron reconciler repr" db_current db_term db_live
  for cron :: cron_env and reconciler :: "'v reconciler" and repr :: "apply_error \<Rightarrow> string"
proof (intro live_controller.intro fenced_controller.intro)
  show "lease_backend (co_acquire (db_controller cron reconciler repr)) (co_renew (db_controller cron reconciler repr))
      (co_release (db_controller cron reconciler repr)) db_current db_term db_live"
    by (simp add: db.lease_backend_axioms)
  show "fenced_controller_axioms (db_controller cron reconciler repr) db_current db_term"
    by unfold_locales (auto simp: verify_lease_or_raise_def db_term_def db_current_def split: option.splits if_splits)
  show "live_controller_axioms (db_controller cron reconciler repr) db_term"
    by unfold_locales (auto simp: verify_lease_or_raise_def db_term_def split: option.splits)
qed

interpretation k8c: fenced_controller "k8s_controller cron reconciler repr" k8s_current k8s_term k8s_live
  for cron :: cron_env and reconciler :: "'v reconciler" and repr :: "apply_error \<Rightarrow> string"
proof (intro fenced_controller.intro)
  show "lease_backend (co_acquire (k8s_controller cron reconciler repr)) (co_renew (k8s_controller cron reconciler repr))
      (co_release (k8s_controller cron reconciler repr)) k8s_current k8s_term k8s_live"
    by (simp add: k8s.lease_backend_axioms)
  show "fenced_controller_axioms (k8s_controller cron reconciler repr) k8s_current k8s_term"
    by unfold_locales (auto simp: verify_lease_or_raise_def k8s_term_def k8s_current_def split: option.splits)
qed


text \<open>A stopped tick loop means a deposed leader: with the database lease, in any run, a leader whose tick
  loop has returned fails its next renewal, whether or not the database fails it, and so stands down.\<close>

theorem stopped_leader_stands_down:
  assumes "cl = controller_run (db_controller cron reconciler repr) steps cl0" "idle cl0" "cl_lease cl0 = Map.empty"
    and "sv_token (cl_sups cl h) = Some token" "sv_tick (cl_sups cl h) = Stopped"
  shows "sv_lost (cl_sups (renew_pass (db_controller cron reconciler repr) fails now h cl) h)"
proof -
  have tok: "dbc.tokens_ok cl0" using dbc.tokens_start[OF assms(2)] assms(3) by (simp add: db_term_def)
  moreover have "dbc.stopped_ok cl0" using assms(2) by (simp add: dbc.stopped_ok_def idle_def standby_def)
  ultimately have "dbc.tokens_ok cl" "dbc.stopped_ok cl" unfolding assms(1) by (blast intro: dbc.tokens_run dbc.stopped_run)+
  then show ?thesis using dbc.stopped_cannot_renew assms(4,5) by blast
qed

text \<open>The steps of the Kubernetes deployment leave the schedule, the set of events and the runs alone.\<close>

definition same_work :: "('b, 'w, 's, 'v) cluster \<Rightarrow> ('b, 'w, 's, 'v) cluster \<Rightarrow> bool" where
  "same_work cl cl' \<longleftrightarrow> tb_triggers (cl_triggers cl') = tb_triggers (cl_triggers cl)
     \<and> map te_id (tb_events (cl_triggers cl')) = map te_id (tb_events (cl_triggers cl)) \<and> cl_runs cl' = cl_runs cl"

lemma recover_event_same:
  "tb_triggers (recover_event pool enq now e db) = tb_triggers db"
  "map te_id (tb_events (recover_event pool enq now e db)) = map te_id (tb_events db)"
  by (auto simp: recover_event_def update_event_def mark_failed_def Trigger_Events.mark_failed_def mark_dispatched_def
      split: option.split)

lemma drain_same:
  "tb_triggers (process_trigger_events_batch pool enq locked now db) = tb_triggers db"
  "map te_id (tb_events (process_trigger_events_batch pool enq locked now db)) = map te_id (tb_events db)"
proof -
  have "tb_triggers (recover_events pool enq now i es db) = tb_triggers db
      \<and> map te_id (tb_events (recover_events pool enq now i es db)) = map te_id (tb_events db)" for i es db
    by (induction es arbitrary: i db) (simp_all add: recover_event_same)
  then show "tb_triggers (process_trigger_events_batch pool enq locked now db) = tb_triggers db"
    "map te_id (tb_events (process_trigger_events_batch pool enq locked now db)) = map te_id (tb_events db)"
    by (simp_all add: process_trigger_events_batch_def)
qed

lemma sweep_same:
  "tb_triggers (fst (sweep_once enq now db)) = tb_triggers db"
  "map te_id (tb_events (fst (sweep_once enq now db))) = map te_id (tb_events db)"
  by (auto simp: sweep_once_def Let_def mark_dispatched_def)

lemma k8s_step_same:
  assumes "k8c.tokens_ok cl" "\<nexists>ts rs is. stp = Outside ts rs is"
  shows "same_work cl (apply_step (k8s_controller cron reconciler repr) now h stp cl)"
proof (cases "is_tick stp")
  case True
  let ?env = "k8s_controller cron reconciler repr"
  have bad: "verify_lease_or_raise (co_table ?env (cl_lease cl)) t \<noteq> None" for t by (simp add: verify_lease_or_raise_def)
  show ?thesis
  proof (cases "sv_token (cl_sups cl h)")
    case None
    then show ?thesis using True
      by (cases stp) (simp_all add: is_tick_def tick_cron_def tick_heartbeat_def tick_approvals_def Let_def same_work_def)
  next
    case (Some token)
    show ?thesis
    proof (cases stp)
      case (Tick_cron fails locked fresh enq)
      obtain e where "cron_tick (co_cron ?env) (co_table ?env (cl_lease cl)) (tk_term token) now locked fresh enq (cl_triggers cl)
          = (cl_triggers cl, Inl (Tick_lease_lost e))" using k8c.unverified_cron[OF bad] by blast
      then show ?thesis by (simp add: Tick_cron tick_cron_def Some set_sup_def Let_def same_work_def)
    next
      case (Tick_heartbeat fails)
      then show ?thesis
        using k8c.sweeps_fenced(1)[OF bad[of "tk_term token"], of stale_seconds max_retries now "cl_runs cl"]
        by (auto simp: tick_heartbeat_def Some set_sup_def Let_def same_work_def)
    next
      case (Tick_approvals fails)
      then show ?thesis
        using k8c.sweeps_fenced(2)[OF bad[of "tk_term token"], of now "cl_runs cl"]
        by (auto simp: tick_approvals_def Some set_sup_def Let_def same_work_def)
    qed (use True in \<open>simp_all add: is_tick_def\<close>)
  qed
next
  case False
  then show ?thesis using assms(2)
    by (cases stp)
      (simp_all add: is_tick_def try_acquire_def drain_pass_def reconcile_pass_def renew_pass_def stand_down_def set_sup_def
        same_work_def drain_same sweep_same split: option.split prod.split)
qed

lemma k8s_run_same:
  "\<forall>(now, h, stp) \<in> set steps. \<nexists>ts rs is. stp = Outside ts rs is \<Longrightarrow> k8c.tokens_ok cl \<Longrightarrow>
   same_work cl (controller_run (k8s_controller cron reconciler repr) steps cl)
   \<and> k8c.tokens_ok (controller_run (k8s_controller cron reconciler repr) steps cl)"
proof (induction steps arbitrary: cl)
  case (Cons s steps)
  obtain now h stp where s: "s = (now, h, stp)" by (cases s)
  have out: "\<nexists>ts rs is. stp = Outside ts rs is" using Cons.prems(1) s by simp
  have "same_work cl (apply_step (k8s_controller cron reconciler repr) now h stp cl)"
    by (rule k8s_step_same[OF Cons.prems(2) out])
  moreover have "k8c.tokens_ok (apply_step (k8s_controller cron reconciler repr) now h stp cl)"
    by (rule k8c.tokens_step[OF Cons.prems(2)])
  ultimately show ?case using Cons.IH Cons.prems(1) by (auto simp: s controller_run_def same_work_def)
qed (simp add: controller_run_def same_work_def)

text \<open>With the Kubernetes lease no leader ever fires: whatever the replicas do and for however long, no
  trigger moves, no event is added and no run is swept, because every tick finds no row in
  \<open>controller_leases\<close>; and yet the holder of the Lease object keeps renewing it, so no other replica takes over.\<close>

theorem k8s_leader_never_fires:
  assumes "cl = controller_run (k8s_controller cron reconciler repr) steps cl0" "idle cl0" "cl_lease cl0 = Map.empty"
    and "\<forall>(now, h, stp) \<in> set steps. \<nexists>ts rs is. stp = Outside ts rs is"
  shows "tb_triggers (cl_triggers cl) = tb_triggers (cl_triggers cl0)
    \<and> map te_id (tb_events (cl_triggers cl)) = map te_id (tb_events (cl_triggers cl0)) \<and> cl_runs cl = cl_runs cl0
    \<and> (\<forall>h token now. sv_token (cl_sups cl h) = Some token \<longrightarrow> k8s_current (cl_lease cl) lease_name = Some (h, tk_term token)
         \<longrightarrow> sv_lost (cl_sups (renew_pass (k8s_controller cron reconciler repr) False now h cl) h) = sv_lost (cl_sups cl h))"
proof -
  have "k8c.tokens_ok cl0" using k8c.tokens_start[OF assms(2)] assms(3) by (simp add: k8s_term_def)
  from k8s_run_same[OF assms(4) this] have same: "same_work cl0 cl" and tok: "k8c.tokens_ok cl"
    unfolding assms(1) by blast+
  have "snd (k8s_renew (cl_lease cl) False now token)"
    if "sv_token (cl_sups cl h) = Some token" "k8s_current (cl_lease cl) lease_name = Some (h, tk_term token)" for h token now
  proof -
    have "tk_name token = lease_name" "tk_holder token = h" using tok that(1) unfolding k8c.tokens_ok_def by auto
    with that(2) show ?thesis by (simp add: k8s.renew_ok)
  qed
  then have "sv_lost (cl_sups (renew_pass (k8s_controller cron reconciler repr) False now h cl) h) = sv_lost (cl_sups cl h)"
    if "sv_token (cl_sups cl h) = Some token" "k8s_current (cl_lease cl) lease_name = Some (h, tk_term token)" for h token now
    using that by (auto simp: renew_pass_def split: prod.split) (metis snd_conv)
  with same show ?thesis unfolding same_work_def by blast
qed


section \<open>Concrete clusters\<close>

definition x_cluster :: "'b \<Rightarrow> ('b, nat, budget_key fake_redis, unit) cluster" where
  "x_cluster lease = \<lparr>cl_lease = lease, cl_sups = (\<lambda>_. standby), cl_triggers = x_tdb, cl_runs = x_db [],
     cl_intents = [], cl_world = ()\<rparr>"

abbreviation "x_controller \<equiv> db_controller (tv_cron x_tenv) (\<lambda>w k r. (w, None)) (\<lambda>_. [])"
abbreviation "x_k8s \<equiv> k8s_controller (tv_cron x_tenv) (\<lambda>w k r. (w, None)) (\<lambda>_. [])"

text \<open>Supervisor a leads; its lease expires and b takes over.\<close>

definition x_leader_steps :: "(instant \<times> string \<times> (nat, budget_key fake_redis) supervisor_step) list" where
  "x_leader_steps = [(0, ''a'', Try_acquire False None)]"

definition x_deposed_steps :: "(instant \<times> string \<times> (nat, budget_key fake_redis) supervisor_step) list" where
  "x_deposed_steps = [(0, ''a'', Try_acquire False None), (61, ''b'', Try_acquire False None),
     (62, ''a'', Tick_cron False {} x_fresh (\<lambda>_. None))]"

lemma x_idle: "idle (x_cluster lease)"
  by (simp add: x_cluster_def idle_def)


theorem stopped_leader_stands_down_witness:
  "sv_lost (cl_sups (renew_pass x_controller False 63 ''a''
      (controller_run x_controller x_deposed_steps (x_cluster Map.empty))) ''a'')"
proof -
  let ?cl = "controller_run x_controller x_deposed_steps (x_cluster Map.empty)"
  have a: "map_option tk_term (sv_token (cl_sups ?cl ''a'')) = Some 1" "sv_tick (cl_sups ?cl ''a'') = Stopped" by code_simp+
  then obtain token where "sv_token (cl_sups ?cl ''a'') = Some token" by auto
  moreover have "cl_lease (x_cluster Map.empty) = Map.empty" by (simp add: x_cluster_def)
  ultimately show ?thesis by (intro stopped_leader_stands_down[OF refl x_idle _ _ a(2)])
qed

text \<open>With the Kubernetes lease the same leader has a due trigger, ticks, and adds nothing.\<close>

theorem k8s_leader_never_fires_witness:
  "map te_id (tb_events (cl_triggers (controller_run x_k8s
      [(0, ''a'', Try_acquire False None), (60, ''a'', Tick_cron False {} x_fresh (\<lambda>_. None)), (61, ''a'', Renew_pass False)]
      (x_cluster Map.empty)))) = []"
proof -
  let ?steps = "[(0, ''a'', Try_acquire False None), (60, ''a'', Tick_cron False {} x_fresh (\<lambda>_. None)), (61, ''a'', Renew_pass False)]
    :: (instant \<times> string \<times> (nat, budget_key fake_redis) supervisor_step) list"
  have "\<forall>(now, h, stp) \<in> set ?steps. \<nexists>ts rs is. stp = Outside ts rs is" by simp
  from k8s_leader_never_fires[OF refl x_idle _ this, of Map.empty] show ?thesis
    by (simp add: x_cluster_def x_tdb_def)
qed


end
