(* ===== verification/Team_Access.thy ===== *)
theory Team_Access
  imports Json_Value
begin

text \<open>
  Who may do what: roles and permissions (\<open>permissions.py\<close>), the membership of teams and projects with
  its invitations (\<open>routers/teams.py\<close>) and the scopes of API keys (\<open>auth_external.py\<close>).

  The state is the directory: users, teams, memberships, projects, project memberships, invitations.  Every
  route that changes it is an operation of a caller, with the caller's permission check and its early
  returns; a run is any sequence of operations of any callers.  Rows are lists with the unique keys of the
  tables as an invariant.  Left out: the audit log (it never fails a request), the e-mails, the copy of the
  library into a new team, the columns that no check reads.
\<close>

subsection \<open>Permissions and roles\<close>

datatype (plugins only: code size) permission =
    TEAM_VIEW | TEAM_EDIT | TEAM_DELETE | TEAM_INVITE | TEAM_REMOVE_MEMBER | TEAM_CHANGE_ROLE | BILLING_VIEW
    | BILLING_MANAGE | BILLING_USAGE | PROJECT_LIST | PROJECT_CREATE | PROJECT_VIEW | PROJECT_EDIT | PROJECT_DELETE
    | PROJECT_SETTINGS | FILE_READ | FILE_WRITE | FILE_DELETE | CONTAINER_VIEW | CONTAINER_CREATE | CONTAINER_EDIT
    | CONTAINER_DELETE | CONTAINER_START_STOP | CHAT_VIEW | CHAT_SEND | CHAT_DELETE | DEPLOYMENT_VIEW
    | DEPLOYMENT_CREATE | DEPLOYMENT_DELETE | GIT_VIEW | GIT_WRITE | KANBAN_VIEW | KANBAN_EDIT | SNAPSHOT_VIEW
    | SNAPSHOT_CREATE | SNAPSHOT_RESTORE | TERMINAL_ACCESS | CREDENTIALS_VIEW | CREDENTIALS_MANAGE | API_KEYS_MANAGE
    | CHANNEL_VIEW | CHANNEL_MANAGE | MCP_VIEW | MCP_MANAGE | CONNECTORS_MANAGE_USER | CONNECTORS_MANAGE_PROJECT
    | AGENT_VIEW | AGENT_MANAGE | AUDIT_VIEW | AUDIT_EXPORT | MARKETPLACE_READ | MODELS_PROXY | USAGE_READ
    | APP_INVOKE | DESKTOP_PAIR | AGENTS_READ | AGENTS_HANDOFF | PROJECTS_SYNC | K8S_PROJECTS | MARKETPLACE_INSTALL

primrec permission_value :: "permission \<Rightarrow> string" where
  "permission_value TEAM_VIEW = ''team.view''"
| "permission_value TEAM_EDIT = ''team.edit''"
| "permission_value TEAM_DELETE = ''team.delete''"
| "permission_value TEAM_INVITE = ''team.invite''"
| "permission_value TEAM_REMOVE_MEMBER = ''team.remove_member''"
| "permission_value TEAM_CHANGE_ROLE = ''team.change_role''"
| "permission_value BILLING_VIEW = ''billing.view''"
| "permission_value BILLING_MANAGE = ''billing.manage''"
| "permission_value BILLING_USAGE = ''billing.usage''"
| "permission_value PROJECT_LIST = ''project.list''"
| "permission_value PROJECT_CREATE = ''project.create''"
| "permission_value PROJECT_VIEW = ''project.view''"
| "permission_value PROJECT_EDIT = ''project.edit''"
| "permission_value PROJECT_DELETE = ''project.delete''"
| "permission_value PROJECT_SETTINGS = ''project.settings''"
| "permission_value FILE_READ = ''file.read''"
| "permission_value FILE_WRITE = ''file.write''"
| "permission_value FILE_DELETE = ''file.delete''"
| "permission_value CONTAINER_VIEW = ''container.view''"
| "permission_value CONTAINER_CREATE = ''container.create''"
| "permission_value CONTAINER_EDIT = ''container.edit''"
| "permission_value CONTAINER_DELETE = ''container.delete''"
| "permission_value CONTAINER_START_STOP = ''container.start_stop''"
| "permission_value CHAT_VIEW = ''chat.view''"
| "permission_value CHAT_SEND = ''chat.send''"
| "permission_value CHAT_DELETE = ''chat.delete''"
| "permission_value DEPLOYMENT_VIEW = ''deployment.view''"
| "permission_value DEPLOYMENT_CREATE = ''deployment.create''"
| "permission_value DEPLOYMENT_DELETE = ''deployment.delete''"
| "permission_value GIT_VIEW = ''git.view''"
| "permission_value GIT_WRITE = ''git.write''"
| "permission_value KANBAN_VIEW = ''kanban.view''"
| "permission_value KANBAN_EDIT = ''kanban.edit''"
| "permission_value SNAPSHOT_VIEW = ''snapshot.view''"
| "permission_value SNAPSHOT_CREATE = ''snapshot.create''"
| "permission_value SNAPSHOT_RESTORE = ''snapshot.restore''"
| "permission_value TERMINAL_ACCESS = ''terminal.access''"
| "permission_value CREDENTIALS_VIEW = ''credentials.view''"
| "permission_value CREDENTIALS_MANAGE = ''credentials.manage''"
| "permission_value API_KEYS_MANAGE = ''api_keys.manage''"
| "permission_value CHANNEL_VIEW = ''channel.view''"
| "permission_value CHANNEL_MANAGE = ''channel.manage''"
| "permission_value MCP_VIEW = ''mcp.view''"
| "permission_value MCP_MANAGE = ''mcp.manage''"
| "permission_value CONNECTORS_MANAGE_USER = ''connectors.manage_user''"
| "permission_value CONNECTORS_MANAGE_PROJECT = ''connectors.manage_project''"
| "permission_value AGENT_VIEW = ''agent.view''"
| "permission_value AGENT_MANAGE = ''agent.manage''"
| "permission_value AUDIT_VIEW = ''audit.view''"
| "permission_value AUDIT_EXPORT = ''audit.export''"
| "permission_value MARKETPLACE_READ = ''marketplace.read''"
| "permission_value MODELS_PROXY = ''models.proxy''"
| "permission_value USAGE_READ = ''usage.read''"
| "permission_value APP_INVOKE = ''app.invoke''"
| "permission_value DESKTOP_PAIR = ''desktop.pair''"
| "permission_value AGENTS_READ = ''agents.read''"
| "permission_value AGENTS_HANDOFF = ''agents.handoff''"
| "permission_value PROJECTS_SYNC = ''projects.sync''"
| "permission_value K8S_PROJECTS = ''k8s.projects''"
| "permission_value MARKETPLACE_INSTALL = ''marketplace.install''"

definition all_permissions :: "permission list" where
  "all_permissions = [
     TEAM_VIEW, TEAM_EDIT, TEAM_DELETE, TEAM_INVITE, TEAM_REMOVE_MEMBER, TEAM_CHANGE_ROLE, BILLING_VIEW,
     BILLING_MANAGE, BILLING_USAGE, PROJECT_LIST, PROJECT_CREATE, PROJECT_VIEW, PROJECT_EDIT, PROJECT_DELETE,
     PROJECT_SETTINGS, FILE_READ, FILE_WRITE, FILE_DELETE, CONTAINER_VIEW, CONTAINER_CREATE, CONTAINER_EDIT,
     CONTAINER_DELETE, CONTAINER_START_STOP, CHAT_VIEW, CHAT_SEND, CHAT_DELETE, DEPLOYMENT_VIEW, DEPLOYMENT_CREATE,
     DEPLOYMENT_DELETE, GIT_VIEW, GIT_WRITE, KANBAN_VIEW, KANBAN_EDIT, SNAPSHOT_VIEW, SNAPSHOT_CREATE,
     SNAPSHOT_RESTORE, TERMINAL_ACCESS, CREDENTIALS_VIEW, CREDENTIALS_MANAGE, API_KEYS_MANAGE, CHANNEL_VIEW,
     CHANNEL_MANAGE, MCP_VIEW, MCP_MANAGE, CONNECTORS_MANAGE_USER, CONNECTORS_MANAGE_PROJECT, AGENT_VIEW,
     AGENT_MANAGE, AUDIT_VIEW, AUDIT_EXPORT, MARKETPLACE_READ, MODELS_PROXY, USAGE_READ, APP_INVOKE, DESKTOP_PAIR,
     AGENTS_READ, AGENTS_HANDOFF, PROJECTS_SYNC, K8S_PROJECTS, MARKETPLACE_INSTALL]"

definition admin_only :: "permission list" where
  "admin_only = [
     TEAM_EDIT, TEAM_DELETE, TEAM_INVITE, TEAM_REMOVE_MEMBER, TEAM_CHANGE_ROLE, BILLING_MANAGE, PROJECT_DELETE,
     CONTAINER_DELETE, DEPLOYMENT_DELETE, API_KEYS_MANAGE, AUDIT_VIEW, AUDIT_EXPORT]"

definition viewer_permissions :: "permission list" where
  "viewer_permissions = [
     TEAM_VIEW, BILLING_VIEW, PROJECT_LIST, PROJECT_VIEW, FILE_READ, CONTAINER_VIEW, CHAT_VIEW, DEPLOYMENT_VIEW,
     GIT_VIEW, KANBAN_VIEW, SNAPSHOT_VIEW, CREDENTIALS_VIEW, CHANNEL_VIEW, MCP_VIEW, CONNECTORS_MANAGE_USER,
     AGENT_VIEW, MARKETPLACE_READ, MODELS_PROXY, USAGE_READ, AGENTS_READ]"

definition role_permissions :: "string \<Rightarrow> permission list option" where
  "role_permissions role =
     (if role = ''admin'' then Some all_permissions
      else if role = ''editor'' then Some (filter (\<lambda>p. p \<notin> set admin_only) all_permissions)
      else if role = ''viewer'' then Some viewer_permissions else None)"

definition has_permission :: "string \<Rightarrow> permission \<Rightarrow> bool" where
  "has_permission role p = (case role_permissions role of None \<Rightarrow> False | Some perms \<Rightarrow> p \<in> set perms)"

subsection \<open>The directory\<close>

record user_row =
  us_id :: uuid
  us_is_superuser :: bool
  us_is_active :: bool
  us_email :: string
  us_default_team :: "uuid option"

record team_info =
  tm_id :: uuid
  tm_slug :: string
  tm_is_personal :: bool
  tm_created_by :: uuid

record membership =
  mb_team :: uuid
  mb_user :: uuid
  mb_role :: string
  mb_is_active :: bool

record project_row =
  pj_id :: uuid
  pj_slug :: string
  pj_team :: uuid
  pj_owner :: uuid
  pj_visibility :: "string option"

record project_member =
  pm_project :: uuid
  pm_user :: uuid
  pm_role :: string
  pm_is_active :: bool

record invitation =
  iv_id :: uuid
  iv_team :: uuid
  iv_email :: string
  iv_role :: string
  iv_token :: string
  iv_type :: string
  iv_invited_by :: uuid
  iv_created_at :: instant
  iv_expires_at :: instant
  iv_accepted_at :: "instant option"
  iv_accepted_by :: "uuid option"
  iv_revoked_at :: "instant option"
  iv_max_uses :: "int option"
  iv_use_count :: int

record directory =
  dr_users :: "user_row list"
  dr_teams :: "team_info list"
  dr_members :: "membership list"
  dr_projects :: "project_row list"
  dr_project_members :: "project_member list"
  dr_invitations :: "invitation list"

text \<open>The HTTP errors of the routes, by their detail.\<close>

datatype team_error =
    Team_not_found | Not_a_member | Role_lacks string permission | Slug_taken | Personal_team | Member_not_found
  | Own_role | Sole_admin | Invitation_not_found | Invitation_revoked | Invitation_expired | Invitation_used_up
  | Already_member | Pending_invitation | Invitation_rate | Too_many_links | Project_not_found
  | Not_in_team | Already_project_member | Project_member_not_found

subsection \<open>Access checks\<close>

definition user_by_id :: "directory \<Rightarrow> uuid \<Rightarrow> user_row option" where
  "user_by_id db u = find (\<lambda>r. us_id r = u) (dr_users db)"

definition is_superuser :: "directory \<Rightarrow> uuid \<Rightarrow> bool" where
  "is_superuser db u = (case user_by_id db u of None \<Rightarrow> False | Some r \<Rightarrow> us_is_superuser r)"

definition get_team_membership :: "directory \<Rightarrow> uuid \<Rightarrow> uuid \<Rightarrow> membership option" where
  "get_team_membership db team u = find (\<lambda>m. mb_team m = team \<and> mb_user m = u \<and> mb_is_active m) (dr_members db)"

definition check_team_permission ::
  "directory \<Rightarrow> uuid \<Rightarrow> uuid \<Rightarrow> permission \<Rightarrow> (team_error, membership) result" where
  "check_team_permission db team u p =
     (if is_superuser db u
      then (case get_team_membership db team u of
              Some m \<Rightarrow> Inr m
            | None \<Rightarrow> Inr \<lparr>mb_team = team, mb_user = u, mb_role = ''admin'', mb_is_active = True\<rparr>)
      else (case get_team_membership db team u of
              None \<Rightarrow> Inl Not_a_member
            | Some m \<Rightarrow> if \<not> has_permission (mb_role m) p then Inl (Role_lacks (mb_role m) p) else Inr m))"

definition project_membership :: "directory \<Rightarrow> uuid \<Rightarrow> uuid \<Rightarrow> project_member option" where
  "project_membership db project u =
     find (\<lambda>m. pm_project m = project \<and> pm_user m = u \<and> pm_is_active m) (dr_project_members db)"

definition get_effective_project_role :: "directory \<Rightarrow> project_row \<Rightarrow> uuid \<Rightarrow> string option" where
  "get_effective_project_role db project u =
     (if is_superuser db u then Some ''admin''
      else (case get_team_membership db (pj_team project) u of
              None \<Rightarrow>
                (case project_membership db (pj_id project) u of
                   Some m \<Rightarrow> Some (pm_role m)
                 | None \<Rightarrow> if pj_owner project = u then Some ''admin'' else None)
            | Some t \<Rightarrow>
                if mb_role t = ''admin'' then Some ''admin''
                else (case project_membership db (pj_id project) u of
                        Some m \<Rightarrow> Some (pm_role m)
                      | None \<Rightarrow>
                          (let visibility = (case pj_visibility project of
                                               None \<Rightarrow> ''team'' | Some v \<Rightarrow> if v = [] then ''team'' else v)
                           in if visibility = ''private''
                              then (if pj_owner project = u then Some ''admin'' else None)
                              else Some (mb_role t)))))"

definition find_project :: "directory \<Rightarrow> string \<Rightarrow> project_row option" where
  "find_project db slug =
     (case parse_uuid slug of
        Some k \<Rightarrow> find (\<lambda>p. pj_id p = k) (dr_projects db)
      | None \<Rightarrow> find (\<lambda>p. pj_slug p = slug) (dr_projects db))"

definition get_project_with_access ::
  "directory \<Rightarrow> string \<Rightarrow> uuid \<Rightarrow> permission \<Rightarrow> (team_error, project_row \<times> string) result" where
  "get_project_with_access db slug u p =
     (case find_project db slug of
        None \<Rightarrow> Inl Project_not_found
      | Some project \<Rightarrow>
          (case get_effective_project_role db project u of
             None \<Rightarrow> Inl Project_not_found
           | Some role \<Rightarrow>
               if \<not> has_permission role p then Inl (Role_lacks role p) else Inr (project, role)))"

text \<open>API keys: \<open>None\<close> for a key without a scope list.  SHA-256 is a parameter.\<close>

record api_key =
  ak_user :: uuid
  ak_hash :: string
  ak_scopes :: "string list option"
  ak_expires_at :: "instant option"
  ak_is_active :: bool

datatype key_error = Key_required | Invalid_key | Key_expired | Owner_inactive

definition get_external_api_user ::
  "(string \<Rightarrow> string) \<Rightarrow> instant \<Rightarrow> directory \<Rightarrow> api_key list \<Rightarrow> string option \<Rightarrow> (key_error, api_key) result" where
  "get_external_api_user sha256 now db keys header =
     (case header of
        None \<Rightarrow> Inl Key_required
      | Some h \<Rightarrow>
          if h = [] then Inl Key_required
          else (let token = (if take 7 h = ''Bearer '' then drop 7 h else h)
                in case find (\<lambda>k. ak_hash k = sha256 token \<and> ak_is_active k) keys of
                     None \<Rightarrow> Inl Invalid_key
                   | Some key \<Rightarrow>
                       if (case ak_expires_at key of None \<Rightarrow> False | Some e \<Rightarrow> e < now) then Inl Key_expired
                       else (case user_by_id db (ak_user key) of
                               None \<Rightarrow> Inl Owner_inactive
                             | Some u \<Rightarrow> if us_is_active u then Inr key else Inl Owner_inactive)))"

definition require_api_scope :: "directory \<Rightarrow> api_key \<Rightarrow> permission \<Rightarrow> bool" where
  "require_api_scope db key p =
     (if (case ak_scopes key of None \<Rightarrow> False | Some scopes \<Rightarrow> permission_value p \<notin> set scopes) then False
      else (case (case user_by_id db (ak_user key) of None \<Rightarrow> None | Some u \<Rightarrow> us_default_team u) of
              None \<Rightarrow> True
            | Some team \<Rightarrow>
                (case get_team_membership db team (ak_user key) of
                   None \<Rightarrow> True
                 | Some m \<Rightarrow> has_permission (mb_role m) p)))"

subsection \<open>Teams and members\<close>

definition resolve_team :: "directory \<Rightarrow> string \<Rightarrow> team_info option" where
  "resolve_team db slug = find (\<lambda>t. tm_slug t = slug) (dr_teams db)"

definition update_member ::
  "uuid \<Rightarrow> uuid \<Rightarrow> (membership \<Rightarrow> membership) \<Rightarrow> directory \<Rightarrow> directory" where
  "update_member team u f db =
     db\<lparr>dr_members := map (\<lambda>m. if mb_team m = team \<and> mb_user m = u then f m else m) (dr_members db)\<rparr>"

definition create_team ::
  "uuid \<Rightarrow> uuid \<Rightarrow> string \<Rightarrow> directory \<Rightarrow> (team_error, directory) result" where
  "create_team caller team_id slug db =
     (if resolve_team db slug \<noteq> None then Inl Slug_taken
      else Inr (db\<lparr>dr_teams := dr_teams db @ [\<lparr>tm_id = team_id, tm_slug = slug, tm_is_personal = False, tm_created_by = caller\<rparr>],
                   dr_members := dr_members db
                     @ [\<lparr>mb_team = team_id, mb_user = caller, mb_role = ''admin'', mb_is_active = True\<rparr>]\<rparr>))"

definition accept_row :: "instant \<Rightarrow> uuid \<Rightarrow> invitation \<Rightarrow> invitation" where
  "accept_row now caller iv =
     (let iv1 = iv\<lparr>iv_use_count := iv_use_count iv + 1\<rparr>
      in if iv_type iv = ''email'' then iv1\<lparr>iv_accepted_at := Some now, iv_accepted_by := Some caller\<rparr> else iv1)"

text \<open>The membership of a user who had left is revived.\<close>

definition join_team :: "invitation \<Rightarrow> uuid \<Rightarrow> directory \<Rightarrow> directory" where
  "join_team iv caller db =
     (case find (\<lambda>m. mb_team m = iv_team iv \<and> mb_user m = caller \<and> \<not> mb_is_active m) (dr_members db) of
        Some inactive \<Rightarrow> update_member (iv_team iv) caller (\<lambda>m. m\<lparr>mb_is_active := True, mb_role := iv_role iv\<rparr>) db
      | None \<Rightarrow>
          db\<lparr>dr_members := dr_members db
               @ [\<lparr>mb_team = iv_team iv, mb_user = caller, mb_role = iv_role iv, mb_is_active = True\<rparr>]\<rparr>)"

definition accept_invitation ::
  "instant \<Rightarrow> uuid \<Rightarrow> string \<Rightarrow> directory \<Rightarrow> (team_error, directory) result" where
  "accept_invitation now caller token db =
     (case find (\<lambda>iv. iv_token iv = token) (dr_invitations db) of
        None \<Rightarrow> Inl Invitation_not_found
      | Some iv \<Rightarrow>
          if iv_revoked_at iv \<noteq> None then Inl Invitation_revoked
          else if iv_expires_at iv < now then Inl Invitation_expired
          else if (case iv_max_uses iv of None \<Rightarrow> False | Some m \<Rightarrow> m \<le> iv_use_count iv) then Inl Invitation_used_up
          else if get_team_membership db (iv_team iv) caller \<noteq> None then Inl Already_member
          else Inr ((join_team iv caller db)\<lparr>dr_invitations :=
                 map (\<lambda>x. if iv_id x = iv_id iv then accept_row now caller x else x) (dr_invitations db)\<rparr>))"

definition update_team :: "uuid \<Rightarrow> string \<Rightarrow> string option \<Rightarrow> directory \<Rightarrow> (team_error, directory) result" where
  "update_team caller slug new_slug db =
     (case resolve_team db slug of
        None \<Rightarrow> Inl Team_not_found
      | Some team \<Rightarrow>
          (case check_team_permission db (tm_id team) caller TEAM_EDIT of
             Inl e \<Rightarrow> Inl e
           | Inr _ \<Rightarrow>
               (case new_slug of
                  None \<Rightarrow> Inr db
                | Some s \<Rightarrow>
                    if s = tm_slug team then Inr db
                    else if resolve_team db s \<noteq> None then Inl Slug_taken
                    else Inr (db\<lparr>dr_teams := map (\<lambda>t. if tm_id t = tm_id team then t\<lparr>tm_slug := s\<rparr> else t) (dr_teams db)\<rparr>))))"

text \<open>The projects of a deleted team go with it by the foreign key, their memberships with them; a user who had it
  as default has none.\<close>

definition delete_team :: "uuid \<Rightarrow> string \<Rightarrow> directory \<Rightarrow> (team_error, directory) result" where
  "delete_team caller slug db =
     (case resolve_team db slug of
        None \<Rightarrow> Inl Team_not_found
      | Some team \<Rightarrow>
          (case check_team_permission db (tm_id team) caller TEAM_DELETE of
             Inl e \<Rightarrow> Inl e
           | Inr _ \<Rightarrow>
               if tm_is_personal team then Inl Personal_team
               else (let gone = map pj_id (filter (\<lambda>p. pj_team p = tm_id team) (dr_projects db))
                     in Inr (db\<lparr>dr_users := map (\<lambda>r. if us_default_team r = Some (tm_id team)
                                                   then r\<lparr>us_default_team := None\<rparr> else r) (dr_users db),
                                dr_teams := filter (\<lambda>t. tm_id t \<noteq> tm_id team) (dr_teams db),
                                dr_members := filter (\<lambda>m. mb_team m \<noteq> tm_id team) (dr_members db),
                                dr_invitations := filter (\<lambda>iv. iv_team iv \<noteq> tm_id team) (dr_invitations db),
                                dr_projects := filter (\<lambda>p. pj_team p \<noteq> tm_id team) (dr_projects db),
                                dr_project_members := filter (\<lambda>m. pm_project m \<notin> set gone) (dr_project_members db)\<rparr>))))"

definition switch_team :: "uuid \<Rightarrow> string \<Rightarrow> directory \<Rightarrow> (team_error, directory) result" where
  "switch_team caller slug db =
     (case resolve_team db slug of
        None \<Rightarrow> Inl Team_not_found
      | Some team \<Rightarrow>
          (case get_team_membership db (tm_id team) caller of
             None \<Rightarrow> Inl Not_a_member
           | Some _ \<Rightarrow> Inr (db\<lparr>dr_users := map (\<lambda>r. if us_id r = caller then r\<lparr>us_default_team := Some (tm_id team)\<rparr> else r)
                                          (dr_users db)\<rparr>)))"

text \<open>A project with its team and project slugs: \<open>_resolve_team\<close> and \<open>_resolve_project_in_team\<close>.\<close>

definition resolve_project ::
  "directory \<Rightarrow> string \<Rightarrow> string \<Rightarrow> (team_error, team_info \<times> project_row) result" where
  "resolve_project db team_slug project_slug =
     (case resolve_team db team_slug of
        None \<Rightarrow> Inl Team_not_found
      | Some team \<Rightarrow>
          (case find (\<lambda>p. pj_team p = tm_id team \<and> pj_slug p = project_slug) (dr_projects db) of
             None \<Rightarrow> Inl Project_not_found
           | Some p \<Rightarrow> Inr (team, p)))"

abbreviation "day \<equiv> (86400 :: int)"

definition new_invitation ::
  "uuid \<Rightarrow> uuid \<Rightarrow> string \<Rightarrow> string \<Rightarrow> string \<Rightarrow> string \<Rightarrow> uuid \<Rightarrow> instant \<Rightarrow> instant \<Rightarrow> int option \<Rightarrow> invitation" where
  "new_invitation k team email role token kind caller now expires_at max_uses =
     \<lparr>iv_id = k, iv_team = team, iv_email = email, iv_role = role, iv_token = token, iv_type = kind,
      iv_invited_by = caller, iv_created_at = now, iv_expires_at = expires_at, iv_accepted_at = None,
      iv_accepted_by = None, iv_revoked_at = None, iv_max_uses = max_uses, iv_use_count = 0\<rparr>"

definition invite_by_email ::
  "instant \<Rightarrow> uuid \<Rightarrow> string \<Rightarrow> string \<Rightarrow> string \<Rightarrow> uuid \<Rightarrow> string \<Rightarrow> directory
   \<Rightarrow> (team_error, directory) result" where
  "invite_by_email now caller slug email role k token db =
     (case resolve_team db slug of
        None \<Rightarrow> Inl Team_not_found
      | Some team \<Rightarrow>
          (case check_team_permission db (tm_id team) caller TEAM_INVITE of
             Inl e \<Rightarrow> Inl e
           | Inr _ \<Rightarrow>
               if (case find (\<lambda>r. us_email r = email) (dr_users db) of
                     None \<Rightarrow> False | Some r \<Rightarrow> get_team_membership db (tm_id team) (us_id r) \<noteq> None)
               then Inl Already_member
               else if filter (\<lambda>iv. iv_team iv = tm_id team \<and> iv_email iv = email \<and> iv_type iv = ''email''
                         \<and> iv_accepted_at iv = None \<and> iv_revoked_at iv = None \<and> now < iv_expires_at iv)
                         (dr_invitations db) \<noteq> [] then Inl Pending_invitation
               else if 50 \<le> length (filter (\<lambda>iv. iv_team iv = tm_id team \<and> iv_invited_by iv = caller
                              \<and> now - day < iv_created_at iv) (dr_invitations db)) then Inl Invitation_rate
               else Inr (db\<lparr>dr_invitations := dr_invitations db
                      @ [new_invitation k (tm_id team) email role token ''email'' caller now (now + 7 * day) None]\<rparr>)))"

definition create_invite_link ::
  "instant \<Rightarrow> uuid \<Rightarrow> string \<Rightarrow> string \<Rightarrow> int option \<Rightarrow> int \<Rightarrow> uuid \<Rightarrow> string \<Rightarrow> directory
   \<Rightarrow> (team_error, directory) result" where
  "create_invite_link now caller slug role max_uses expires_in_days k token db =
     (case resolve_team db slug of
        None \<Rightarrow> Inl Team_not_found
      | Some team \<Rightarrow>
          (case check_team_permission db (tm_id team) caller TEAM_INVITE of
             Inl e \<Rightarrow> Inl e
           | Inr _ \<Rightarrow>
               if 10 \<le> length (filter (\<lambda>iv. iv_team iv = tm_id team \<and> iv_type iv = ''link''
                           \<and> iv_revoked_at iv = None \<and> now < iv_expires_at iv) (dr_invitations db))
               then Inl Too_many_links
               else Inr (db\<lparr>dr_invitations := dr_invitations db
                      @ [new_invitation k (tm_id team) [] role token ''link'' caller now
                           (now + expires_in_days * day) max_uses]\<rparr>)))"

definition revoke_invitation ::
  "instant \<Rightarrow> uuid \<Rightarrow> string \<Rightarrow> uuid \<Rightarrow> directory \<Rightarrow> (team_error, directory) result" where
  "revoke_invitation now caller slug k db =
     (case resolve_team db slug of
        None \<Rightarrow> Inl Team_not_found
      | Some team \<Rightarrow>
          (case check_team_permission db (tm_id team) caller TEAM_INVITE of
             Inl e \<Rightarrow> Inl e
           | Inr _ \<Rightarrow>
               if filter (\<lambda>iv. iv_id iv = k \<and> iv_team iv = tm_id team) (dr_invitations db) = [] then Inl Invitation_not_found
               else Inr (db\<lparr>dr_invitations :=
                      map (\<lambda>iv. if iv_id iv = k then iv\<lparr>iv_revoked_at := Some now\<rparr> else iv) (dr_invitations db)\<rparr>)))"

definition remove_member :: "uuid \<Rightarrow> string \<Rightarrow> uuid \<Rightarrow> directory \<Rightarrow> (team_error, directory) result" where
  "remove_member caller slug u db =
     (case resolve_team db slug of
        None \<Rightarrow> Inl Team_not_found
      | Some team \<Rightarrow>
          (case check_team_permission db (tm_id team) caller TEAM_REMOVE_MEMBER of
             Inl e \<Rightarrow> Inl e
           | Inr _ \<Rightarrow>
               if get_team_membership db (tm_id team) u = None then Inl Member_not_found
               else
                 (let db1 = update_member (tm_id team) u (\<lambda>m. m\<lparr>mb_is_active := False\<rparr>) db;
                      project_ids = map pj_id (filter (\<lambda>p. pj_team p = tm_id team) (dr_projects db))
                  in Inr (db1\<lparr>dr_project_members := map (\<lambda>m. if pm_user m = u \<and> pm_project m \<in> set project_ids
                            then m\<lparr>pm_is_active := False\<rparr> else m) (dr_project_members db1)\<rparr>))))"

definition change_member_role ::
  "uuid \<Rightarrow> string \<Rightarrow> uuid \<Rightarrow> string \<Rightarrow> directory \<Rightarrow> (team_error, directory) result" where
  "change_member_role caller slug u role db =
     (case resolve_team db slug of
        None \<Rightarrow> Inl Team_not_found
      | Some team \<Rightarrow>
          (case check_team_permission db (tm_id team) caller TEAM_CHANGE_ROLE of
             Inl e \<Rightarrow> Inl e
           | Inr _ \<Rightarrow>
               if u = caller then Inl Own_role
               else if get_team_membership db (tm_id team) u = None then Inl Member_not_found
               else Inr (update_member (tm_id team) u (\<lambda>m. m\<lparr>mb_role := role\<rparr>) db)))"

definition team_admins :: "directory \<Rightarrow> uuid \<Rightarrow> membership list" where
  "team_admins db team = filter (\<lambda>m. mb_team m = team \<and> mb_role m = ''admin'' \<and> mb_is_active m) (dr_members db)"

definition leave_team :: "uuid \<Rightarrow> string \<Rightarrow> directory \<Rightarrow> (team_error, directory) result" where
  "leave_team caller slug db =
     (case resolve_team db slug of
        None \<Rightarrow> Inl Team_not_found
      | Some team \<Rightarrow>
          if tm_is_personal team \<and> tm_created_by team = caller then Inl Personal_team
          else (case get_team_membership db (tm_id team) caller of
                  None \<Rightarrow> Inl Not_a_member
                | Some m \<Rightarrow>
                    if mb_role m = ''admin'' \<and> length (team_admins db (tm_id team)) \<le> 1 then Inl Sole_admin
                    else Inr (update_member (tm_id team) caller (\<lambda>m. m\<lparr>mb_is_active := False\<rparr>) db)))"

subsection \<open>Members of a project\<close>

definition update_project_member ::
  "uuid \<Rightarrow> uuid \<Rightarrow> (project_member \<Rightarrow> project_member) \<Rightarrow> directory \<Rightarrow> directory" where
  "update_project_member project u f db =
     db\<lparr>dr_project_members := map (\<lambda>m. if pm_project m = project \<and> pm_user m = u then f m else m) (dr_project_members db)\<rparr>"

definition add_project_member ::
  "uuid \<Rightarrow> string \<Rightarrow> string \<Rightarrow> uuid \<Rightarrow> string \<Rightarrow> directory \<Rightarrow> (team_error, directory) result" where
  "add_project_member caller team_slug project_slug u role db =
     (case resolve_project db team_slug project_slug of
        Inl e \<Rightarrow> Inl e
      | Inr (team, project) \<Rightarrow>
          (case get_project_with_access db project_slug caller PROJECT_SETTINGS of
             Inl e \<Rightarrow> Inl e
           | Inr _ \<Rightarrow>
               if get_team_membership db (tm_id team) u = None then Inl Not_in_team
               else (case find (\<lambda>m. pm_project m = pj_id project \<and> pm_user m = u) (dr_project_members db) of
                       Some m \<Rightarrow>
                         if pm_is_active m then Inl Already_project_member
                         else Inr (update_project_member (pj_id project) u
                                     (\<lambda>m. m\<lparr>pm_is_active := True, pm_role := role\<rparr>) db)
                     | None \<Rightarrow>
                         Inr (db\<lparr>dr_project_members := dr_project_members db
                                @ [\<lparr>pm_project = pj_id project, pm_user = u, pm_role = role, pm_is_active = True\<rparr>]\<rparr>))))"

definition change_project_member_role ::
  "uuid \<Rightarrow> string \<Rightarrow> string \<Rightarrow> uuid \<Rightarrow> string \<Rightarrow> directory \<Rightarrow> (team_error, directory) result" where
  "change_project_member_role caller team_slug project_slug u role db =
     (case resolve_project db team_slug project_slug of
        Inl e \<Rightarrow> Inl e
      | Inr (team, project) \<Rightarrow>
          (case get_project_with_access db project_slug caller PROJECT_SETTINGS of
             Inl e \<Rightarrow> Inl e
           | Inr _ \<Rightarrow>
               if project_membership db (pj_id project) u = None then Inl Project_member_not_found
               else Inr (update_project_member (pj_id project) u (\<lambda>m. m\<lparr>pm_role := role\<rparr>) db)))"

definition remove_project_member ::
  "uuid \<Rightarrow> string \<Rightarrow> string \<Rightarrow> uuid \<Rightarrow> directory \<Rightarrow> (team_error, directory) result" where
  "remove_project_member caller team_slug project_slug u db =
     (case resolve_project db team_slug project_slug of
        Inl e \<Rightarrow> Inl e
      | Inr (team, project) \<Rightarrow>
          (case get_project_with_access db project_slug caller PROJECT_SETTINGS of
             Inl e \<Rightarrow> Inl e
           | Inr _ \<Rightarrow>
               if project_membership db (pj_id project) u = None then Inl Project_member_not_found
               else Inr (update_project_member (pj_id project) u (\<lambda>m. m\<lparr>pm_is_active := False\<rparr>) db)))"

definition update_project_visibility ::
  "uuid \<Rightarrow> string \<Rightarrow> string \<Rightarrow> string \<Rightarrow> directory \<Rightarrow> (team_error, directory) result" where
  "update_project_visibility caller team_slug project_slug visibility db =
     (case resolve_project db team_slug project_slug of
        Inl e \<Rightarrow> Inl e
      | Inr (team, project) \<Rightarrow>
          (case check_team_permission db (tm_id team) caller PROJECT_SETTINGS of
             Inl e \<Rightarrow> Inl e
           | Inr _ \<Rightarrow> Inr (db\<lparr>dr_projects := map (\<lambda>p. if pj_id p = pj_id project
                               then p\<lparr>pj_visibility := Some visibility\<rparr> else p) (dr_projects db)\<rparr>)))"

subsection \<open>Runs\<close>

datatype team_op =
    Create_team uuid string
  | Accept_invitation string
  | Update_team string "string option"
  | Delete_team string
  | Switch_team string
  | Invite_by_email string string string uuid string
  | Create_invite_link string string "int option" int uuid string
  | Revoke_invitation string uuid
  | Remove_member string uuid
  | Change_member_role string uuid string
  | Leave_team string
  | Add_project_member string string uuid string
  | Change_project_member_role string string uuid string
  | Remove_project_member string string uuid
  | Update_project_visibility string string string

fun team_route :: "instant \<Rightarrow> uuid \<Rightarrow> team_op \<Rightarrow> directory \<Rightarrow> (team_error, directory) result" where
  "team_route now caller (Create_team k slug) db = create_team caller k slug db"
| "team_route now caller (Accept_invitation token) db = accept_invitation now caller token db"
| "team_route now caller (Update_team slug new_slug) db = update_team caller slug new_slug db"
| "team_route now caller (Delete_team slug) db = delete_team caller slug db"
| "team_route now caller (Switch_team slug) db = switch_team caller slug db"
| "team_route now caller (Invite_by_email slug email role k token) db =
     invite_by_email now caller slug email role k token db"
| "team_route now caller (Create_invite_link slug role max_uses days k token) db =
     create_invite_link now caller slug role max_uses days k token db"
| "team_route now caller (Revoke_invitation slug k) db = revoke_invitation now caller slug k db"
| "team_route now caller (Remove_member slug u) db = remove_member caller slug u db"
| "team_route now caller (Change_member_role slug u role) db = change_member_role caller slug u role db"
| "team_route now caller (Leave_team slug) db = leave_team caller slug db"
| "team_route now caller (Add_project_member t p u role) db = add_project_member caller t p u role db"
| "team_route now caller (Change_project_member_role t p u role) db = change_project_member_role caller t p u role db"
| "team_route now caller (Remove_project_member t p u) db = remove_project_member caller t p u db"
| "team_route now caller (Update_project_visibility t p v) db = update_project_visibility caller t p v db"

text \<open>A route that fails leaves the directory as it was.\<close>

definition team_step :: "instant \<times> uuid \<times> team_op \<Rightarrow> directory \<Rightarrow> directory" where
  "team_step s db = (case s of (now, caller, op) \<Rightarrow> (case team_route now caller op db of Inl _ \<Rightarrow> db | Inr db' \<Rightarrow> db'))"

definition team_run :: "(instant \<times> uuid \<times> team_op) list \<Rightarrow> directory \<Rightarrow> directory" where
  "team_run steps db = fold team_step steps db"


section \<open>Roles\<close>

lemma all_permissions_all [simp]: "p \<in> set all_permissions"
  by (cases p) (simp_all add: all_permissions_def)

lemma viewer_within_editor: "p \<in> set viewer_permissions \<Longrightarrow> p \<notin> set admin_only"
proof -
  have "list_all (\<lambda>p. p \<notin> set admin_only) viewer_permissions" by code_simp
  then show "p \<in> set viewer_permissions \<Longrightarrow> p \<notin> set admin_only" by (simp add: list_all_iff)
qed

lemma has_permission_simps [simp]:
  "has_permission ''admin'' p"
  "has_permission ''editor'' p \<longleftrightarrow> p \<notin> set admin_only"
  "has_permission ''viewer'' p \<longleftrightarrow> p \<in> set viewer_permissions"
  by (simp_all add: has_permission_def role_permissions_def)

lemma has_permission_role: "has_permission role p \<Longrightarrow> role \<in> {''admin'', ''editor'', ''viewer''}"
  by (auto simp: has_permission_def role_permissions_def split: if_splits)

lemma admin_permission: "p \<in> set admin_only \<Longrightarrow> has_permission role p \<longleftrightarrow> role = ''admin''"
  using viewer_within_editor[of p] by (auto simp: has_permission_def role_permissions_def)

lemma admin_only_mem [simp]:
  "TEAM_REMOVE_MEMBER \<in> set admin_only" "TEAM_CHANGE_ROLE \<in> set admin_only" "TEAM_INVITE \<in> set admin_only"
  "TEAM_DELETE \<in> set admin_only" "TEAM_EDIT \<in> set admin_only" "PROJECT_DELETE \<in> set admin_only"
  "PROJECT_SETTINGS \<notin> set admin_only"
  by (simp_all add: admin_only_def)

text \<open>Roles are ordered: what a viewer may do an editor may do, what an editor may do an admin may do, an
  admin may do everything; the permissions reserved to admins belong to no other role, and a text that
  names no role grants nothing.\<close>

theorem roles_are_ordered:
  assumes "has_permission role p"
  shows "role \<in> {''admin'', ''editor'', ''viewer''} \<and> has_permission ''admin'' p
    \<and> (role = ''viewer'' \<longrightarrow> has_permission ''editor'' p) \<and> (p \<in> set admin_only \<longrightarrow> role = ''admin'')"
  using assms has_permission_role[OF assms] admin_permission[of p role] viewer_within_editor[of p] by (elim insertE) simp_all

theorem roles_are_ordered_witness: "has_permission ''editor'' FILE_READ \<and> FILE_READ \<notin> set admin_only"
proof -
  have "has_permission ''viewer'' FILE_READ" by code_simp
  from roles_are_ordered[OF this] show ?thesis by simp
qed

section \<open>The directory stays well-formed\<close>

text \<open>Updating rows keeps a column the update does not write.\<close>

lemma map_comp_if [simp]:
  "(\<And>x. P x \<Longrightarrow> f (g x) = f x) \<Longrightarrow> map (f \<circ> (\<lambda>x. if P x then g x else x)) xs = map f xs"
  by simp

definition invitation_ok :: "invitation \<Rightarrow> bool" where
  "invitation_ok iv \<longleftrightarrow> 0 \<le> iv_use_count iv \<and> (case iv_max_uses iv of None \<Rightarrow> True | Some m \<Rightarrow> iv_use_count iv \<le> max 0 m)"

lemma new_invitation_id [simp]: "iv_id (new_invitation k t e r tok kind c now x m) = k"
  by (simp add: new_invitation_def)

lemma invitation_ok_simps [simp]:
  "invitation_ok (iv\<lparr>iv_revoked_at := r\<rparr>) = invitation_ok iv"
  "invitation_ok (new_invitation k t e role tok kind c now x m)"
  by (simp_all add: invitation_ok_def new_invitation_def split: option.split)

definition directory_ok :: "directory \<Rightarrow> bool" where
  "directory_ok db \<longleftrightarrow> distinct (map (\<lambda>m. (mb_team m, mb_user m)) (dr_members db))
     \<and> distinct (map (\<lambda>m. (pm_project m, pm_user m)) (dr_project_members db))
     \<and> distinct (map tm_id (dr_teams db)) \<and> distinct (map tm_slug (dr_teams db)) \<and> distinct (map iv_id (dr_invitations db))
     \<and> (\<forall>iv \<in> set (dr_invitations db). invitation_ok iv)"

text \<open>New ids are new.\<close>

fun team_op_ok :: "team_op \<Rightarrow> directory \<Rightarrow> bool" where
  "team_op_ok (Create_team k slug) db \<longleftrightarrow> k \<notin> tm_id ` set (dr_teams db) \<and> k \<notin> mb_team ` set (dr_members db)"
| "team_op_ok (Invite_by_email slug email role k token) db \<longleftrightarrow> k \<notin> iv_id ` set (dr_invitations db)"
| "team_op_ok (Create_invite_link slug role max_uses days k token) db \<longleftrightarrow> k \<notin> iv_id ` set (dr_invitations db)"
| "team_op_ok _ db \<longleftrightarrow> True"

fun team_steps_ok :: "(instant \<times> uuid \<times> team_op) list \<Rightarrow> directory \<Rightarrow> bool" where
  "team_steps_ok [] db \<longleftrightarrow> True"
| "team_steps_ok ((now, caller, op) # steps) db \<longleftrightarrow>
     team_op_ok op db \<and> team_steps_ok steps (team_step (now, caller, op) db)"

lemma update_member_keys [simp]:
  "(\<And>m. mb_team (f m) = mb_team m \<and> mb_user (f m) = mb_user m) \<Longrightarrow>
   map (\<lambda>m. (mb_team m, mb_user m)) (dr_members (update_member t u f db)) = map (\<lambda>m. (mb_team m, mb_user m)) (dr_members db)"
  by (simp add: update_member_def)

lemma update_member_frame [simp]:
  "dr_users (update_member t u f db) = dr_users db" "dr_teams (update_member t u f db) = dr_teams db"
  "dr_projects (update_member t u f db) = dr_projects db"
  "dr_project_members (update_member t u f db) = dr_project_members db"
  "dr_invitations (update_member t u f db) = dr_invitations db"
  by (simp_all add: update_member_def)

lemma update_project_member_keys [simp]:
  "(\<And>m. pm_project (f m) = pm_project m \<and> pm_user (f m) = pm_user m) \<Longrightarrow>
   map (\<lambda>m. (pm_project m, pm_user m)) (dr_project_members (update_project_member t u f db))
     = map (\<lambda>m. (pm_project m, pm_user m)) (dr_project_members db)"
  by (simp add: update_project_member_def)

lemma update_project_member_frame [simp]:
  "dr_users (update_project_member t u f db) = dr_users db" "dr_teams (update_project_member t u f db) = dr_teams db"
  "dr_projects (update_project_member t u f db) = dr_projects db"
  "dr_members (update_project_member t u f db) = dr_members db"
  "dr_invitations (update_project_member t u f db) = dr_invitations db"
  by (simp_all add: update_project_member_def)

text \<open>A row that no unique key rules out may be added.\<close>

lemma no_membership:
  assumes "get_team_membership db t u = None" "find (\<lambda>m. mb_team m = t \<and> mb_user m = u \<and> \<not> mb_is_active m) (dr_members db) = None"
  shows "(t, u) \<notin> (\<lambda>m. (mb_team m, mb_user m)) ` set (dr_members db)"
  using assms by (auto simp: get_team_membership_def find_None_iff)

lemma accept_cases:
  assumes "accept_invitation now caller token db = Inr db'"
  obtains iv where "find (\<lambda>iv. iv_token iv = token) (dr_invitations db) = Some iv"
    "iv_revoked_at iv = None" "now \<le> iv_expires_at iv"
    "\<not> (case iv_max_uses iv of None \<Rightarrow> False | Some m \<Rightarrow> m \<le> iv_use_count iv)"
    "get_team_membership db (iv_team iv) caller = None"
    "db' = (join_team iv caller db)\<lparr>dr_invitations :=
       map (\<lambda>x. if iv_id x = iv_id iv then accept_row now caller x else x) (dr_invitations db)\<rparr>"
proof (cases "find (\<lambda>iv. iv_token iv = token) (dr_invitations db)")
  case (Some iv)
  with assms that[of iv] show thesis by (simp add: accept_invitation_def split: if_split_asm)
qed (use assms in \<open>simp add: accept_invitation_def\<close>)

lemma add_project_cases:
  assumes "team_route now caller (Add_project_member t s u role) db = Inr db'"
  obtains project :: project_row where
    "(\<exists>f. db' = update_project_member (pj_id project) u f db \<and> (\<forall>m. pm_project (f m) = pm_project m \<and> pm_user (f m) = pm_user m))
     \<or> find (\<lambda>m. pm_project m = pj_id project \<and> pm_user m = u) (dr_project_members db) = None
        \<and> db' = db\<lparr>dr_project_members := dr_project_members db
            @ [\<lparr>pm_project = pj_id project, pm_user = u, pm_role = role, pm_is_active = True\<rparr>]\<rparr>"
proof (cases "resolve_project db t s")
  case (Inr tp)
  obtain team project where tp: "tp = (team, project)" by (cases tp)
  have run: "add_project_member caller t s u role db = Inr db'" using assms by simp
  show thesis
  proof (rule that[of project], cases "find (\<lambda>m. pm_project m = pj_id project \<and> pm_user m = u) (dr_project_members db)")
    case None
    with run Inr tp show "(\<exists>f. db' = update_project_member (pj_id project) u f db \<and> (\<forall>m. pm_project (f m) = pm_project m \<and> pm_user (f m) = pm_user m))
     \<or> find (\<lambda>m. pm_project m = pj_id project \<and> pm_user m = u) (dr_project_members db) = None
        \<and> db' = db\<lparr>dr_project_members := dr_project_members db
            @ [\<lparr>pm_project = pj_id project, pm_user = u, pm_role = role, pm_is_active = True\<rparr>]\<rparr>"
      by (simp add: add_project_member_def split: sum.splits if_split_asm)
  next
    case (Some m)
    with run Inr tp have "db' = update_project_member (pj_id project) u (\<lambda>m. m\<lparr>pm_is_active := True, pm_role := role\<rparr>) db"
      by (simp add: add_project_member_def split: sum.splits if_split_asm)
    then show "(\<exists>f. db' = update_project_member (pj_id project) u f db \<and> (\<forall>m. pm_project (f m) = pm_project m \<and> pm_user (f m) = pm_user m))
     \<or> find (\<lambda>m. pm_project m = pj_id project \<and> pm_user m = u) (dr_project_members db) = None
        \<and> db' = db\<lparr>dr_project_members := dr_project_members db
            @ [\<lparr>pm_project = pj_id project, pm_user = u, pm_role = role, pm_is_active = True\<rparr>]\<rparr>"
      by (intro disjI1 exI[of _ "\<lambda>m. m\<lparr>pm_is_active := True, pm_role := role\<rparr>"]) simp
  qed
qed (use assms in \<open>simp add: add_project_member_def\<close>)

lemma route_directory_ok:
  assumes "directory_ok db" "team_op_ok op db" "team_route now caller op db = Inr db'"
  shows "directory_ok db'"
proof (cases op)
  case (Create_team k slug)
  with assms show ?thesis
    by (auto simp: directory_ok_def create_team_def resolve_team_def find_None_iff split: if_splits)
next
  case (Accept_invitation token)
  then have "accept_invitation now caller token db = Inr db'" using assms(3) by simp
  then obtain iv where iv: "find (\<lambda>iv. iv_token iv = token) (dr_invitations db) = Some iv"
    "iv_revoked_at iv = None" "now \<le> iv_expires_at iv"
    "\<not> (case iv_max_uses iv of None \<Rightarrow> False | Some m \<Rightarrow> m \<le> iv_use_count iv)" "get_team_membership db (iv_team iv) caller = None"
    and db': "db' = (join_team iv caller db)\<lparr>dr_invitations :=
                 map (\<lambda>x. if iv_id x = iv_id iv then accept_row now caller x else x) (dr_invitations db)\<rparr>"
    by (rule accept_cases)
  have keys: "distinct (map (\<lambda>m. (mb_team m, mb_user m)) (dr_members db'))"
    using assms(1) no_membership[OF iv(5)] by (auto simp: db' join_team_def directory_ok_def split: option.split)
  have rest: "dr_project_members db' = dr_project_members db" "dr_teams db' = dr_teams db"
    "dr_invitations db' = map (\<lambda>x. if iv_id x = iv_id iv then accept_row now caller x else x) (dr_invitations db)"
    by (simp_all add: db' join_team_def split: option.split)
  have row: "iv_id (accept_row now caller x) = iv_id x \<and> iv_max_uses (accept_row now caller x) = iv_max_uses x
      \<and> iv_use_count (accept_row now caller x) = iv_use_count x + 1" for x
    by (simp add: accept_row_def Let_def)
  have "iv \<in> set (dr_invitations db)" using iv(1) by (auto simp: find_Some_iff)
  then have same: "x = iv" if "x \<in> set (dr_invitations db)" "iv_id x = iv_id iv" for x
    using assms(1) that by (auto simp: directory_ok_def distinct_map inj_on_def)
  have "invitation_ok y" if "y \<in> set (dr_invitations db')" for y
  proof -
    from that have "y \<in> (\<lambda>x. if iv_id x = iv_id iv then accept_row now caller x else x) ` set (dr_invitations db)"
      unfolding rest(3) set_map .
    then obtain x where x: "x \<in> set (dr_invitations db)" "y = (if iv_id x = iv_id iv then accept_row now caller x else x)"
      by blast
    with assms(1) have "invitation_ok x" by (simp add: directory_ok_def)
    with x same[of x] iv(4) show ?thesis by (auto simp: row invitation_ok_def split: option.splits)
  qed
  moreover have "distinct (map iv_id (dr_invitations db'))"
    using assms(1) by (simp add: rest(3) directory_ok_def comp_def row if_distrib cong: if_cong)
  ultimately show ?thesis using assms(1) keys rest by (simp add: directory_ok_def)
next
  case (Update_team slug new_slug)
  show ?thesis
  proof (cases "db' = db")
    case False
    obtain t where t: "resolve_team db slug = Some t"
      using assms(3) by (cases "resolve_team db slug") (simp_all add: Update_team update_team_def)
    obtain s where s: "new_slug = Some s"
      using assms(3) False t by (cases new_slug) (simp_all add: Update_team update_team_def split: sum.splits)
    have new: "resolve_team db s = None"
      "db' = db\<lparr>dr_teams := map (\<lambda>x. if tm_id x = tm_id t then x\<lparr>tm_slug := s\<rparr> else x) (dr_teams db)\<rparr>"
      using assms(3) False t s by (simp_all add: Update_team update_team_def split: sum.splits if_splits)
    have fresh: "s \<notin> tm_slug ` set (dr_teams db)" using new(1) by (auto simp: resolve_team_def find_None_iff)
    let ?g = "\<lambda>x. if tm_id x = tm_id t then x\<lparr>tm_slug := s\<rparr> else x"
    have slugs: "distinct (map tm_id ts) \<Longrightarrow> distinct (map tm_slug ts) \<Longrightarrow> s \<notin> tm_slug ` set ts
        \<Longrightarrow> distinct (map (tm_slug \<circ> ?g) ts)" for ts
      by (induction ts) (auto split: if_splits, metis imageI)
    have "distinct (map (tm_slug \<circ> ?g) (dr_teams db))"
      by (rule slugs) (use assms(1) fresh in \<open>simp_all add: directory_ok_def\<close>)
    moreover have "distinct (map (tm_id \<circ> ?g) (dr_teams db))"
    proof -
      have "map (tm_id \<circ> ?g) (dr_teams db) = map tm_id (dr_teams db)" by auto
      then show ?thesis using assms(1) by (metis directory_ok_def)
    qed
    ultimately show ?thesis using assms(1) by (simp add: new(2) directory_ok_def)
  qed (use assms(1) in simp)
next
  case (Revoke_invitation slug k)
  with assms show ?thesis
    by (auto simp: Revoke_invitation revoke_invitation_def directory_ok_def split: option.splits sum.splits if_splits)
next
  case (Remove_member slug u)
  with assms show ?thesis
    by (auto simp: Remove_member remove_member_def directory_ok_def Let_def split: option.splits sum.splits if_splits)
next
  case (Delete_team slug)
  with assms show ?thesis
    by (auto simp: delete_team_def directory_ok_def Let_def distinct_map_filter split: option.splits sum.splits if_splits)
next
  case (Invite_by_email slug email role k token)
  with assms show ?thesis
    by (auto simp: invite_by_email_def directory_ok_def split: option.splits sum.splits if_splits)
next
  case (Create_invite_link slug role max_uses days k token)
  with assms show ?thesis
    by (auto simp: create_invite_link_def directory_ok_def split: option.splits sum.splits if_splits)
next
  case (Add_project_member t p u role)
  then have "team_route now caller (Add_project_member t p u role) db = Inr db'" using assms(3) by simp
  then obtain project :: project_row where
    "(\<exists>f. db' = update_project_member (pj_id project) u f db \<and> (\<forall>m. pm_project (f m) = pm_project m \<and> pm_user (f m) = pm_user m))
     \<or> find (\<lambda>m. pm_project m = pj_id project \<and> pm_user m = u) (dr_project_members db) = None
        \<and> db' = db\<lparr>dr_project_members := dr_project_members db
            @ [\<lparr>pm_project = pj_id project, pm_user = u, pm_role = role, pm_is_active = True\<rparr>]\<rparr>"
    by (rule add_project_cases)
  then show ?thesis
  proof
    assume "find (\<lambda>m. pm_project m = pj_id project \<and> pm_user m = u) (dr_project_members db) = None
        \<and> db' = db\<lparr>dr_project_members := dr_project_members db
            @ [\<lparr>pm_project = pj_id project, pm_user = u, pm_role = role, pm_is_active = True\<rparr>]\<rparr>"
    moreover from this have "(pj_id project, u) \<notin> (\<lambda>m. (pm_project m, pm_user m)) ` set (dr_project_members db)"
      by (auto simp: find_None_iff)
    ultimately show ?thesis using assms(1) by (simp add: directory_ok_def)
  next
    assume "\<exists>f. db' = update_project_member (pj_id project) u f db \<and> (\<forall>m. pm_project (f m) = pm_project m \<and> pm_user (f m) = pm_user m)"
    then show ?thesis using assms(1) by (auto simp: directory_ok_def)
  qed
next
  case (Update_project_visibility t p v)
  with assms show ?thesis
    by (auto simp: update_project_visibility_def directory_ok_def split: option.splits sum.splits prod.splits if_splits)
qed (use assms in \<open>auto simp: directory_ok_def switch_team_def change_member_role_def leave_team_def change_project_member_role_def
       remove_project_member_def split: option.splits sum.splits prod.splits if_splits\<close>)

text \<open>The directory stays well-formed under any routes of any callers: one membership for a user in a
  team and in a project, unique teams and slugs, and no invitation is used more often than its maximum.\<close>

theorem directory_invariant:
  assumes "directory_ok db" "team_steps_ok steps db"
  shows "directory_ok (team_run steps db)"
  using assms
proof (induction steps arbitrary: db)
  case (Cons s steps)
  obtain now caller op where s: "s = (now, caller, op)" by (cases s)
  have "directory_ok (team_step s db)"
    using route_directory_ok[OF Cons.prems(1), of op now caller] Cons.prems
    by (auto simp: s team_step_def split: sum.split)
  with Cons show ?case by (simp add: s team_run_def)
qed (simp add: team_run_def)

section \<open>Admins\<close>

lemma team_admins_caller:
  assumes "check_team_permission db t caller p = Inr m" "p \<in> set admin_only" "\<not> is_superuser db caller"
  shows "\<exists>m \<in> set (team_admins db t). mb_user m = caller"
proof -
  have "get_team_membership db t caller = Some m" "mb_role m = ''admin''"
    using assms admin_permission[of p "mb_role m"] by (auto simp: check_team_permission_def split: option.splits if_splits)
  then show ?thesis
    by (intro bexI[of _ m]) (auto simp: get_team_membership_def team_admins_def dest!: find_SomeD)
qed

lemma admins_after_update:
  assumes "m \<in> set (team_admins db t)" "mb_user m \<noteq> u \<or> t \<noteq> t'"
  shows "team_admins (update_member t' u f db) t \<noteq> []"
proof -
  have "m \<in> set (team_admins (update_member t' u f db) t)"
    using assms by (auto simp: team_admins_def update_member_def intro!: image_eqI[of _ _ m])
  then show ?thesis by auto
qed

lemma team_admins_members: "dr_members db' = dr_members db \<Longrightarrow> team_admins db' t = team_admins db t"
  by (simp add: team_admins_def)

lemma remove_cases:
  assumes "remove_member caller slug u db = Inr db'"
  obtains team :: team_info and mm where "resolve_team db slug = Some team"
    "check_team_permission db (tm_id team) caller TEAM_REMOVE_MEMBER = Inr mm" "get_team_membership db (tm_id team) u \<noteq> None"
    "db' = (update_member (tm_id team) u (\<lambda>m. m\<lparr>mb_is_active := False\<rparr>) db)\<lparr>dr_project_members :=
       map (\<lambda>m. if pm_user m = u \<and> pm_project m \<in> pj_id ` {p \<in> set (dr_projects db). pj_team p = tm_id team}
                then m\<lparr>pm_is_active := False\<rparr> else m) (dr_project_members db)\<rparr>"
proof (cases "resolve_team db slug")
  case (Some team)
  then show thesis
    using assms that[of team] by (auto simp: remove_member_def Let_def split: sum.splits if_split_asm)
qed (use assms in \<open>simp add: remove_member_def\<close>)

lemma change_role_cases:
  assumes "change_member_role caller slug u role db = Inr db'"
  obtains team :: team_info and mm where "check_team_permission db (tm_id team) caller TEAM_CHANGE_ROLE = Inr mm" "u \<noteq> caller"
    "db' = update_member (tm_id team) u (\<lambda>m. m\<lparr>mb_role := role\<rparr>) db"
proof (cases "resolve_team db slug")
  case (Some team)
  then show thesis
    using assms that[of team] by (auto simp: change_member_role_def split: sum.splits if_split_asm)
qed (use assms in \<open>simp add: change_member_role_def\<close>)

lemma leave_cases:
  assumes "leave_team caller slug db = Inr db'"
  obtains team :: team_info and m where "resolve_team db slug = Some team" "get_team_membership db (tm_id team) caller = Some m"
    "\<not> (mb_role m = ''admin'' \<and> length (team_admins db (tm_id team)) \<le> 1)"
    "db' = update_member (tm_id team) caller (\<lambda>m. m\<lparr>mb_is_active := False\<rparr>) db"
proof (cases "resolve_team db slug")
  case (Some team)
  then show thesis
    using assms that[of team] by (auto simp: leave_team_def split: option.splits if_split_asm)
qed (use assms in \<open>simp add: leave_team_def\<close>)

text \<open>The one way to lose the last admin: an admin who removes themself, which \<open>remove_member\<close> does not refuse.\<close>

definition removes_self :: "uuid \<Rightarrow> team_op \<Rightarrow> bool" where
  "removes_self caller op \<longleftrightarrow> (case op of Remove_member slug u \<Rightarrow> u = caller | _ \<Rightarrow> False)"

lemma route_keeps_admin:
  assumes "team_route now caller op db = Inr db'" "team_admins db t \<noteq> []" "directory_ok db"
    and "\<not> removes_self caller op" "\<not> is_superuser db caller" "t \<in> tm_id ` set (dr_teams db')"
  shows "team_admins db' t \<noteq> []"
proof (cases op)
  case (Create_team k slug)
  with assms(1,2) show ?thesis by (auto simp: create_team_def team_admins_def split: if_splits)
next
  case (Accept_invitation token)
  with assms(1) obtain iv where iv: "get_team_membership db (iv_team iv) caller = None"
    and db': "dr_members db' = dr_members (join_team iv caller db)"
    by (auto elim!: accept_cases)
  obtain m where m: "m \<in> set (team_admins db t)" using assms(2) by (cases "team_admins db t") auto
  have "mb_user m \<noteq> caller \<or> t \<noteq> iv_team iv"
    using m iv by (auto simp: team_admins_def get_team_membership_def find_None_iff)
  note kept = admins_after_update[OF m this]
  show ?thesis
  proof (cases "find (\<lambda>m. mb_team m = iv_team iv \<and> mb_user m = caller \<and> \<not> mb_is_active m) (dr_members db)")
    case None
    then have "m \<in> set (team_admins (join_team iv caller db) t)" using m by (simp add: join_team_def team_admins_def)
    then show ?thesis unfolding team_admins_members[OF db'] by auto
  next
    case (Some inactive)
    then have "join_team iv caller db = update_member (iv_team iv) caller (\<lambda>m. m\<lparr>mb_is_active := True, mb_role := iv_role iv\<rparr>) db"
      by (simp add: join_team_def)
    with kept show ?thesis unfolding team_admins_members[OF db'] by simp
  qed
next
  case (Delete_team slug)
  then obtain team where team: "resolve_team db slug = Some team"
    using assms(1) by (cases "resolve_team db slug") (simp_all add: delete_team_def)
  have db': "dr_teams db' = filter (\<lambda>x. tm_id x \<noteq> tm_id team) (dr_teams db)"
    "dr_members db' = filter (\<lambda>m. mb_team m \<noteq> tm_id team) (dr_members db)"
    using assms(1) team by (auto simp: Delete_team delete_team_def Let_def split: sum.splits if_splits)
  obtain m where m: "m \<in> set (team_admins db t)" using assms(2) by (cases "team_admins db t") auto
  have "t \<noteq> tm_id team" using assms(6) db' by auto
  with m have "m \<in> set (team_admins db' t)" by (simp add: team_admins_def db')
  then show ?thesis by auto
next
  case (Remove_member slug u)
  then have "remove_member caller slug u db = Inr db'" using assms(1) by simp
  then obtain team mm where "resolve_team db slug = Some team"
    and check: "check_team_permission db (tm_id team) caller TEAM_REMOVE_MEMBER = Inr mm"
    and "get_team_membership db (tm_id team) u \<noteq> None"
    and db': "db' = (update_member (tm_id team) u (\<lambda>m. m\<lparr>mb_is_active := False\<rparr>) db)\<lparr>dr_project_members :=
       map (\<lambda>m. if pm_user m = u \<and> pm_project m \<in> pj_id ` {p \<in> set (dr_projects db). pj_team p = tm_id team}
                then m\<lparr>pm_is_active := False\<rparr> else m) (dr_project_members db)\<rparr>"
    by (rule remove_cases)
  have members: "dr_members db' = dr_members (update_member (tm_id team) u (\<lambda>m. m\<lparr>mb_is_active := False\<rparr>) db)"
    by (simp add: db')
  obtain m where m: "m \<in> set (team_admins db t)" using assms(2) by (cases "team_admins db t") auto
  obtain c where c: "c \<in> set (team_admins db (tm_id team))" "mb_user c = caller"
    using team_admins_caller[OF check _ assms(5)] by auto
  have "u \<noteq> caller" using assms(4) by (simp add: removes_self_def Remove_member)
  then show ?thesis
    using admins_after_update[of c db t u "tm_id team"] admins_after_update[OF m, of u "tm_id team"] c
    by (cases "t = tm_id team") (auto simp: team_admins_members[OF members])
next
  case (Change_member_role slug u role)
  then have "change_member_role caller slug u role db = Inr db'" using assms(1) by simp
  then obtain team :: team_info and mm where run: "check_team_permission db (tm_id team) caller TEAM_CHANGE_ROLE = Inr mm" "u \<noteq> caller"
    "db' = update_member (tm_id team) u (\<lambda>m. m\<lparr>mb_role := role\<rparr>) db"
    by (rule change_role_cases)
  obtain m where m: "m \<in> set (team_admins db t)" using assms(2) by (cases "team_admins db t") auto
  obtain c where c: "c \<in> set (team_admins db (tm_id team))" "mb_user c = caller"
    using team_admins_caller[OF run(1) _ assms(5)] by auto
  show ?thesis
    using admins_after_update[of c db t u "tm_id team"] admins_after_update[OF m, of u "tm_id team"] c run(2)
    by (cases "t = tm_id team") (auto simp: run(3))
next
  case (Leave_team slug)
  then have "leave_team caller slug db = Inr db'" using assms(1) by simp
  then obtain team cm where run: "resolve_team db slug = Some team" "get_team_membership db (tm_id team) caller = Some cm"
    "\<not> (mb_role cm = ''admin'' \<and> length (team_admins db (tm_id team)) \<le> 1)"
    "db' = update_member (tm_id team) caller (\<lambda>m. m\<lparr>mb_is_active := False\<rparr>) db"
    by (rule leave_cases)
  have cm: "cm \<in> set (dr_members db)" "mb_team cm = tm_id team" "mb_user cm = caller"
    using find_SomeD[OF run(2)[unfolded get_team_membership_def]] by auto
  have uniq: "x = cm" if "x \<in> set (dr_members db)" "mb_team x = tm_id team" "mb_user x = caller" for x
    using assms(3) that cm by (auto simp: directory_ok_def distinct_map inj_on_def)
  have "\<exists>m \<in> set (team_admins db t). mb_user m \<noteq> caller \<or> t \<noteq> tm_id team"
  proof (rule ccontr)
    assume none: "\<not> ?thesis"
    then have t: "t = tm_id team" using assms(2) by (cases "team_admins db t") auto
    have only: "x = cm" if "x \<in> set (team_admins db t)" for x
      using none that uniq[of x] t by (auto simp: team_admins_def)
    have "distinct (team_admins db t)"
      using assms(3) by (auto simp: directory_ok_def distinct_map team_admins_def)
    with only have "length (team_admins db t) \<le> 1"
      by (cases "team_admins db t" rule: list.exhaust[case_names Nil Cons]; cases "tl (team_admins db t)") auto
    moreover have "mb_role cm = ''admin''"
    proof -
      obtain h where h: "h \<in> set (team_admins db t)" using assms(2) by (cases "team_admins db t") auto
      then have "h = cm" by (rule only)
      with h show ?thesis by (simp add: team_admins_def)
    qed
    ultimately show False using run(3) t by simp
  qed
  then show ?thesis using admins_after_update by (auto simp: run(4))
qed (use assms(1,2) in \<open>auto simp: update_team_def switch_team_def invite_by_email_def create_invite_link_def revoke_invitation_def
       add_project_member_def change_project_member_role_def remove_project_member_def update_project_visibility_def
       team_admins_def update_project_member_def
       split: option.splits sum.splits prod.splits if_splits\<close>)

text \<open>What the routes leave alone: the other routes neither add teams nor touch users.\<close>

lemma frame_accept:
  assumes "accept_invitation now caller token db = Inr db'"
  shows "dr_teams db' = dr_teams db \<and> dr_users db' = dr_users db"
  using assms by (rule accept_cases) (simp add: join_team_def split: option.split)

lemma frame_invitations:
  "invite_by_email now caller slug email role k token db = Inr db' \<Longrightarrow> dr_teams db' = dr_teams db \<and> dr_users db' = dr_users db"
  "create_invite_link now caller slug role uses days k token db = Inr db' \<Longrightarrow> dr_teams db' = dr_teams db \<and> dr_users db' = dr_users db"
  "revoke_invitation now caller slug k db = Inr db' \<Longrightarrow> dr_teams db' = dr_teams db \<and> dr_users db' = dr_users db"
  by (auto simp: invite_by_email_def create_invite_link_def revoke_invitation_def split: option.split_asm sum.split_asm if_split_asm)

lemma frame_members:
  "remove_member caller slug u db = Inr db' \<Longrightarrow> dr_teams db' = dr_teams db \<and> dr_users db' = dr_users db"
  "change_member_role caller slug u role db = Inr db' \<Longrightarrow> dr_teams db' = dr_teams db \<and> dr_users db' = dr_users db"
  "leave_team caller slug db = Inr db' \<Longrightarrow> dr_teams db' = dr_teams db \<and> dr_users db' = dr_users db"
  by (auto elim!: remove_cases change_role_cases leave_cases)

lemma frame_add_project:
  assumes "add_project_member caller t s u role db = Inr db'"
  shows "dr_teams db' = dr_teams db \<and> dr_users db' = dr_users db"
proof -
  have "team_route now caller (Add_project_member t s u role) db = Inr db'" using assms by simp
  then show ?thesis by (rule add_project_cases) auto
qed

lemma frame_project_members:
  "change_project_member_role caller t s u role db = Inr db' \<Longrightarrow> dr_teams db' = dr_teams db \<and> dr_users db' = dr_users db"
  "remove_project_member caller t s u db = Inr db' \<Longrightarrow> dr_teams db' = dr_teams db \<and> dr_users db' = dr_users db"
  "update_project_visibility caller t s v db = Inr db' \<Longrightarrow> dr_teams db' = dr_teams db \<and> dr_users db' = dr_users db"
  by (auto simp: change_project_member_role_def remove_project_member_def update_project_visibility_def
      split: sum.split_asm prod.split_asm if_split_asm)

lemmas frame = frame_accept frame_invitations frame_members frame_add_project frame_project_members


definition every_team_has_admin :: "directory \<Rightarrow> bool" where
  "every_team_has_admin db \<longleftrightarrow> (\<forall>t \<in> tm_id ` set (dr_teams db). team_admins db t \<noteq> [])"

lemma is_superuser_cong: "dr_users db' = dr_users db \<Longrightarrow> is_superuser db' = is_superuser db"
  by (simp add: is_superuser_def user_by_id_def fun_eq_iff)

lemma frame_switch: "switch_team caller slug db = Inr db' \<Longrightarrow> dr_teams db' = dr_teams db"
  by (auto simp: switch_team_def split: option.split_asm)

lemma frame_update_team:
  assumes "update_team caller slug new_slug db = Inr db'"
  shows "map tm_id (dr_teams db') = map tm_id (dr_teams db) \<and> dr_users db' = dr_users db"
proof (cases "resolve_team db slug")
  case (Some team)
  with assms show ?thesis
    by (cases new_slug) (auto simp: update_team_def split: sum.split_asm if_split_asm)
qed (use assms in \<open>simp add: update_team_def\<close>)

lemma frame_delete_team: "delete_team caller slug db = Inr db' \<Longrightarrow> set (dr_teams db') \<subseteq> set (dr_teams db)"
  by (auto simp: delete_team_def Let_def split: option.split_asm sum.split_asm if_split_asm)

text \<open>A team is added with its creator as admin.\<close>

lemma route_teams:
  assumes "team_route now caller op db = Inr db'" "t \<in> tm_id ` set (dr_teams db')" "t \<notin> tm_id ` set (dr_teams db)"
  shows "team_admins db' t \<noteq> []"
proof (cases op)
  case (Create_team k slug)
  with assms show ?thesis by (auto simp: create_team_def team_admins_def split: if_splits)
next
  case (Delete_team slug)
  with assms show ?thesis using frame_delete_team[of caller slug db db'] by auto
next
  case (Update_team slug new_slug)
  with assms(1) have "map tm_id (dr_teams db') = map tm_id (dr_teams db)" by (simp add: frame_update_team)
  then have "tm_id ` set (dr_teams db') = tm_id ` set (dr_teams db)" by (metis set_map)
  with assms show ?thesis by simp
next
  case (Switch_team slug)
  with assms show ?thesis using frame_switch[of caller slug db db'] by simp
qed (use assms in \<open>simp_all add: frame\<close>)

text \<open>No route makes a superuser.\<close>

lemma superuser_map:
  assumes "\<And>r. us_id (f r) = us_id r \<and> us_is_superuser (f r) = us_is_superuser r" "dr_users db' = map f (dr_users db)"
  shows "is_superuser db' u = is_superuser db u"
proof -
  have "(case find (\<lambda>r. us_id r = u) (map f rs) of None \<Rightarrow> False | Some r \<Rightarrow> us_is_superuser r)
      = (case find (\<lambda>r. us_id r = u) rs of None \<Rightarrow> False | Some r \<Rightarrow> us_is_superuser r)" for rs
    by (induction rs) (simp_all add: assms(1))
  then show ?thesis by (simp add: is_superuser_def user_by_id_def assms(2))
qed

lemma route_superusers:
  assumes "team_route now caller op db = Inr db'"
  shows "is_superuser db' u = is_superuser db u"
proof (cases "dr_users db' = dr_users db")
  case True
  then show ?thesis using is_superuser_cong by metis
next
  case False
  show ?thesis
  proof (cases op)
    case (Create_team k slug)
    with assms False show ?thesis by (auto simp: create_team_def split: if_splits)
  next
    case (Delete_team slug)
    then obtain t where t: "resolve_team db slug = Some t"
      using assms by (cases "resolve_team db slug") (simp_all add: delete_team_def)
    with Delete_team assms have "dr_users db' = map (\<lambda>r. if us_default_team r = Some (tm_id t) then r\<lparr>us_default_team := None\<rparr> else r) (dr_users db)"
      by (auto simp: delete_team_def Let_def split: sum.split_asm if_split_asm)
    then show ?thesis by (rule superuser_map[rotated]) simp
  next
    case (Update_team slug new_slug)
    with assms False show ?thesis using frame_update_team[of caller slug new_slug db db'] by simp
  next
    case (Switch_team slug)
    then obtain t where t: "resolve_team db slug = Some t"
      using assms by (cases "resolve_team db slug") (simp_all add: switch_team_def)
    with Switch_team assms have "dr_users db' = map (\<lambda>r. if us_id r = caller then r\<lparr>us_default_team := Some (tm_id t)\<rparr> else r) (dr_users db)"
      by (auto simp: switch_team_def split: option.split_asm)
    then show ?thesis by (rule superuser_map[rotated]) simp
  qed (use assms False in \<open>simp_all add: frame\<close>)
qed

text \<open>A sequence of requests by callers who are not superusers and do not remove themselves.\<close>

definition ordinary_steps :: "(instant \<times> uuid \<times> team_op) list \<Rightarrow> directory \<Rightarrow> bool" where
  "ordinary_steps steps db \<longleftrightarrow>
     list_all (\<lambda>(now, caller, op). \<not> removes_self caller op \<and> \<not> is_superuser db caller) steps"

text \<open>C23: A team keeps an admin: if every team has an active admin then every team has one after any
  sequence of requests of ordinary users in which nobody removes themself with the route for removing
  others; leaving, being removed, changes of roles and the deletion of other teams do not orphan a team.\<close>

theorem team_keeps_an_admin:
  assumes "every_team_has_admin db" "directory_ok db" "team_steps_ok steps db" "ordinary_steps steps db"
  shows "every_team_has_admin (team_run steps db)"
  using assms
proof (induction steps arbitrary: db)
  case (Cons s steps)
  obtain now caller op where s: "s = (now, caller, op)" by (cases s)
  have ops: "team_op_ok op db" "team_steps_ok steps (team_step s db)" using Cons.prems(3) by (simp_all add: s)
  have this_step: "\<not> removes_self caller op" "\<not> is_superuser db caller" and others: "ordinary_steps steps db"
    using Cons.prems(4) by (simp_all add: s ordinary_steps_def)
  show ?case
  proof (cases "team_route now caller op db")
    case (Inl e)
    then have "team_step s db = db" by (simp add: team_step_def s)
    then show ?thesis using Cons.IH[OF Cons.prems(1,2)] ops others by (simp add: team_run_def)
  next
    case (Inr db')
    then have step: "team_step s db = db'" by (simp add: team_step_def s)
    have "team_admins db' t \<noteq> []" if "t \<in> tm_id ` set (dr_teams db')" for t
      using that route_teams[OF Inr that] route_keeps_admin[OF Inr _ Cons.prems(2) this_step that] Cons.prems(1)
      by (cases "t \<in> tm_id ` set (dr_teams db)") (auto simp: every_team_has_admin_def)
    then have "every_team_has_admin db'" by (simp add: every_team_has_admin_def)
    moreover have "directory_ok db'" by (rule route_directory_ok[OF Cons.prems(2) ops(1) Inr])
    moreover have "ordinary_steps steps db'" using others by (simp add: ordinary_steps_def route_superusers[OF Inr])
    ultimately show ?thesis using Cons.IH[of db'] ops(2) step by (simp add: team_run_def)
  qed
qed (simp add: team_run_def)

section \<open>Leaving and being removed\<close>

lemma updated_membership_gone:
  "get_team_membership (update_member t u (\<lambda>m. m\<lparr>mb_is_active := False\<rparr>) db) t u = None"
proof -
  have "find (\<lambda>m. mb_team m = t \<and> mb_user m = u \<and> mb_is_active m)
     (map (\<lambda>m. if mb_team m = t \<and> mb_user m = u then m\<lparr>mb_is_active := False\<rparr> else m) ms) = None" for ms :: "membership list"
    by (induction ms) auto
  then show ?thesis by (simp add: get_team_membership_def update_member_def)
qed

lemma get_team_membership_cong: "dr_members db' = dr_members db \<Longrightarrow> get_team_membership db' = get_team_membership db"
  by (simp add: get_team_membership_def fun_eq_iff)

lemma removed_effect:
  assumes "remove_member caller slug u db = Inr db'" "resolve_team db slug = Some team"
  shows "get_team_membership db' (tm_id team) u = None" "dr_users db' = dr_users db" "dr_projects db' = dr_projects db"
    "dr_project_members db' = map (\<lambda>m. if pm_user m = u \<and> pm_project m \<in> pj_id ` {p \<in> set (dr_projects db). pj_team p = tm_id team}
                then m\<lparr>pm_is_active := False\<rparr> else m) (dr_project_members db)"
proof -
  from assms(1) obtain team' mm where t: "resolve_team db slug = Some team'"
    "check_team_permission db (tm_id team') caller TEAM_REMOVE_MEMBER = Inr mm" "get_team_membership db (tm_id team') u \<noteq> None"
    and db': "db' = (update_member (tm_id team') u (\<lambda>m. m\<lparr>mb_is_active := False\<rparr>) db)\<lparr>dr_project_members :=
       map (\<lambda>m. if pm_user m = u \<and> pm_project m \<in> pj_id ` {p \<in> set (dr_projects db). pj_team p = tm_id team'}
                then m\<lparr>pm_is_active := False\<rparr> else m) (dr_project_members db)\<rparr>"
    by (rule remove_cases)
  have team: "team' = team" using t(1) assms(2) by simp
  have "dr_members db' = dr_members (update_member (tm_id team) u (\<lambda>m. m\<lparr>mb_is_active := False\<rparr>) db)"
    unfolding db' team by simp
  then show "get_team_membership db' (tm_id team) u = None"
    using updated_membership_gone[of "tm_id team" u db] get_team_membership_cong by metis
  show "dr_users db' = dr_users db" "dr_projects db' = dr_projects db"
    unfolding db' by simp_all
  show "dr_project_members db' = map (\<lambda>m. if pm_user m = u \<and> pm_project m \<in> pj_id ` {p \<in> set (dr_projects db). pj_team p = tm_id team}
                then m\<lparr>pm_is_active := False\<rparr> else m) (dr_project_members db)"
    unfolding db' team by simp
qed

text \<open>C24: Removal revokes: after an admin has removed a user from a team the user has no role on any project of the
  team, except on the projects they own and as a superuser.\<close>

theorem removal_revokes_access:
  assumes "remove_member caller slug u db = Inr db'" "resolve_team db slug = Some team"
    and "p \<in> set (dr_projects db)" "pj_team p = tm_id team" "pj_owner p \<noteq> u" "\<not> is_superuser db u"
  shows "get_effective_project_role db' p u = None"
proof -
  note gone = removed_effect[OF assms(1,2)]
  have mem: "pj_id p \<in> pj_id ` {p \<in> set (dr_projects db). pj_team p = tm_id team}" using assms(3,4) by blast
  have "\<not> (pm_project m = pj_id p \<and> pm_user m = u \<and> pm_is_active m)" if m: "m \<in> set (dr_project_members db')" for m
  proof -
    let ?P = "\<lambda>m. pm_user m = u \<and> pm_project m \<in> pj_id ` {p \<in> set (dr_projects db). pj_team p = tm_id team}"
    obtain x where "m = (if ?P x then x\<lparr>pm_is_active := False\<rparr> else x)" "x \<in> set (dr_project_members db)"
      using m unfolding gone(4) set_map by (rule imageE)
    then show ?thesis using mem by (cases "?P x") auto
  qed
  then have "project_membership db' (pj_id p) u = None"
    unfolding project_membership_def find_None_iff by blast
  moreover have "\<not> is_superuser db' u" using assms(6) is_superuser_cong[OF gone(2)] by simp
  ultimately show ?thesis using assms(4,5) gone(1) by (simp add: get_effective_project_role_def)
qed

text \<open>Leaving does not: the memberships of the projects stay, and without a team membership they are what counts.\<close>

lemma leaver_keeps_project_role:
  assumes "leave_team u slug db = Inr db'" "resolve_team db slug = Some team"
    and "pj_team p = tm_id team" "project_membership db (pj_id p) u = Some m" "\<not> is_superuser db u"
  shows "get_effective_project_role db' p u = Some (pm_role m)"
proof -
  from assms(1) obtain team' cm where t: "resolve_team db slug = Some team'" "get_team_membership db (tm_id team') u = Some cm"
    "\<not> (mb_role cm = ''admin'' \<and> length (team_admins db (tm_id team')) \<le> 1)"
    and db': "db' = update_member (tm_id team') u (\<lambda>m. m\<lparr>mb_is_active := False\<rparr>) db"
    by (rule leave_cases)
  have team: "team' = team" using t(1) assms(2) by simp
  have "\<not> is_superuser db' u" using assms(5) is_superuser_cong[of db' db] by (simp add: db')
  moreover have "project_membership db' (pj_id p) u = Some m" using assms(4) by (simp add: project_membership_def db')
  ultimately show ?thesis
    using updated_membership_gone[of "tm_id team" u db] assms(3)
    by (simp add: get_effective_project_role_def db' team)
qed

text \<open>A key whose owner has been removed from their default team is no longer clamped by a role: what the role
  forbade before the removal the key may do after it.\<close>

lemma removed_owner_keeps_scopes:
  assumes "remove_member caller slug (ak_user key) db = Inr db'" "resolve_team db slug = Some team"
    and "user_by_id db (ak_user key) = Some r" "us_default_team r = Some (tm_id team)"
    and "ak_scopes key = Some scopes" "permission_value p \<in> set scopes"
  shows "require_api_scope db' key p"
proof -
  note gone = removed_effect[OF assms(1,2)]
  have "user_by_id db' (ak_user key) = Some r" using assms(3) gone(2) by (simp add: user_by_id_def)
  then show ?thesis using assms(4-6) gone(1) by (simp add: require_api_scope_def)
qed

text \<open>A request of a key with a scope list is within the scopes, and within the role of an owner who is still in
  their default team; the key was found by its hash, is active and not expired.\<close>

lemma api_request_bounds:
  assumes "get_external_api_user sha256 now db keys header = Inr key" "require_api_scope db key p"
  shows "key \<in> set keys \<and> ak_is_active key \<and> (\<forall>e. ak_expires_at key = Some e \<longrightarrow> now \<le> e)
    \<and> (\<exists>u. user_by_id db (ak_user key) = Some u \<and> us_is_active u
         \<and> (\<forall>t m. us_default_team u = Some t \<and> get_team_membership db t (ak_user key) = Some m \<longrightarrow> has_permission (mb_role m) p))
    \<and> (\<forall>scopes. ak_scopes key = Some scopes \<longrightarrow> permission_value p \<in> set scopes)"
proof -
  obtain u where u: "user_by_id db (ak_user key) = Some u" "us_is_active u"
    "\<not> (case ak_expires_at key of None \<Rightarrow> False | Some e \<Rightarrow> e < now)" "key \<in> set keys" "ak_is_active key"
    using assms(1) by (auto simp: get_external_api_user_def Let_def dest!: find_SomeD split: option.split_asm if_split_asm)
  have "\<forall>scopes. ak_scopes key = Some scopes \<longrightarrow> permission_value p \<in> set scopes"
    using assms(2) by (simp add: require_api_scope_def split: if_split_asm option.split_asm)
  moreover have "\<forall>t m. us_default_team u = Some t \<and> get_team_membership db t (ak_user key) = Some m \<longrightarrow> has_permission (mb_role m) p"
    using assms(2) u(1) by (simp add: require_api_scope_def split: if_split_asm option.split_asm)
  ultimately show ?thesis using u by (auto split: option.splits)
qed

text \<open>An invitation by e-mail serves anybody, more than once: it has no maximum of uses, nothing compares the
  address with the caller's, and the use by one user does not stop the next one before it expires.\<close>

lemma email_invitation_is_open:
  assumes "find (\<lambda>iv. iv_token iv = token) (dr_invitations db) = Some iv" "iv_revoked_at iv = None"
    "now \<le> iv_expires_at iv" "iv_max_uses iv = None" "get_team_membership db (iv_team iv) caller = None"
  shows "\<exists>db'. accept_invitation now caller token db = Inr db'"
  using assms by (simp add: accept_invitation_def)

section \<open>Escalation\<close>

text \<open>An editor can make themself admin of a project: the route that adds a member of a project asks for
  the permission on the settings, which editors have, and takes any role for any member of the team, so
  an editor who could not delete a project of the team can after one request.\<close>

theorem editor_makes_themself_project_admin:
  assumes "resolve_project db team_slug slug = Inr (team, p)" "find_project db slug = Some p" "pj_team p = tm_id team"
    and "get_team_membership db (tm_id team) u = Some m" "mb_role m = ''editor''" "\<not> is_superuser db u"
    and "pj_visibility p = Some ''team''" "\<forall>x \<in> set (dr_project_members db). pm_project x = pj_id p \<longrightarrow> pm_user x \<noteq> u"
  shows "get_project_with_access db slug u PROJECT_DELETE = Inl (Role_lacks ''editor'' PROJECT_DELETE)
    \<and> (\<exists>db'. add_project_member u team_slug slug u ''admin'' db = Inr db'
          \<and> get_project_with_access db' slug u PROJECT_DELETE = Inr (p, ''admin''))"
proof -
  have none: "project_membership db (pj_id p) u = None"
    "find (\<lambda>m. pm_project m = pj_id p \<and> pm_user m = u) (dr_project_members db) = None"
    using assms(8) by (auto simp: project_membership_def find_None_iff)
  have role: "get_effective_project_role db p u = Some ''editor''"
    using assms(3-7) none(1) by (simp add: get_effective_project_role_def)
  let ?db' = "db\<lparr>dr_project_members := dr_project_members db
    @ [\<lparr>pm_project = pj_id p, pm_user = u, pm_role = ''admin'', pm_is_active = True\<rparr>]\<rparr>"
  have added: "add_project_member u team_slug slug u ''admin'' db = Inr ?db'"
    using assms(1,2,4) none(2) role by (simp add: add_project_member_def get_project_with_access_def)
  have "project_membership ?db' (pj_id p) u
      = Some \<lparr>pm_project = pj_id p, pm_user = u, pm_role = ''admin'', pm_is_active = True\<rparr>"
    using none(1) by (simp add: project_membership_def find_append)
  then have "get_effective_project_role ?db' p u = Some ''admin''"
    using assms(3-6) is_superuser_cong[of ?db' db] get_team_membership_cong[of ?db' db]
    by (simp add: get_effective_project_role_def)
  moreover have find: "find_project ?db' slug = find_project db slug"
    by (simp add: find_project_def cong: option.case_cong)
  ultimately have "get_project_with_access ?db' slug u PROJECT_DELETE = Inr (p, ''admin'')"
    using assms(2) find by (simp add: get_project_with_access_def)
  moreover have "get_project_with_access db slug u PROJECT_DELETE = Inl (Role_lacks ''editor'' PROJECT_DELETE)"
    using assms(2) role by (simp add: get_project_with_access_def)
  ultimately show ?thesis using added by blast
qed

section \<open>A concrete team\<close>

definition demo_project :: project_row where
  "demo_project = \<lparr>pj_id = 20, pj_slug = ''site'', pj_team = 10, pj_owner = 1, pj_visibility = Some ''team''\<rparr>"

definition demo_team :: team_info where
  "demo_team = \<lparr>tm_id = 10, tm_slug = ''acme'', tm_is_personal = False, tm_created_by = 1\<rparr>"

definition demo_directory :: directory where
  "demo_directory =
     \<lparr>dr_users = [\<lparr>us_id = 1, us_is_superuser = False, us_is_active = True, us_email = ''a@x'', us_default_team = Some 10\<rparr>,
                  \<lparr>us_id = 2, us_is_superuser = False, us_is_active = True, us_email = ''b@x'', us_default_team = Some 10\<rparr>,
                  \<lparr>us_id = 3, us_is_superuser = False, us_is_active = True, us_email = ''c@x'', us_default_team = None\<rparr>],
      dr_teams = [demo_team],
      dr_members = [\<lparr>mb_team = 10, mb_user = 1, mb_role = ''admin'', mb_is_active = True\<rparr>,
                    \<lparr>mb_team = 10, mb_user = 2, mb_role = ''editor'', mb_is_active = True\<rparr>],
      dr_projects = [demo_project], dr_project_members = [], dr_invitations = []\<rparr>"

definition demo_steps :: "(instant \<times> uuid \<times> team_op) list" where
  "demo_steps = [(0, 1, Invite_by_email ''acme'' ''c@x'' ''viewer'' 30 ''tok''), (1, 3, Accept_invitation ''tok''),
     (2, 1, Change_member_role ''acme'' 2 ''admin''), (3, 1, Leave_team ''acme''), (4, 2, Remove_member ''acme'' 3)]"

theorem directory_invariant_witness:
  "directory_ok (team_run demo_steps demo_directory) \<and> length (dr_members (team_run demo_steps demo_directory)) = 3"
proof -
  have "directory_ok demo_directory" "team_steps_ok demo_steps demo_directory" by code_simp+
  from directory_invariant[OF this] show ?thesis by code_simp
qed

theorem team_keeps_an_admin_witness:
  "every_team_has_admin (team_run demo_steps demo_directory)
    \<and> map mb_user (team_admins (team_run demo_steps demo_directory) 10) = [2]"
proof -
  have "every_team_has_admin demo_directory" "directory_ok demo_directory" "team_steps_ok demo_steps demo_directory"
    "ordinary_steps demo_steps demo_directory" by code_simp+
  note kept = team_keeps_an_admin[OF this]
  have "map mb_user (team_admins (team_run demo_steps demo_directory) 10) = [2]" by code_simp
  with kept show ?thesis ..
qed

text \<open>The exception is real: the only admin of a team removes themself with the route that \<open>leave_team\<close> would refuse.\<close>

lemma sole_admin_removes_self:
  "every_team_has_admin demo_directory \<and> leave_team 1 ''acme'' demo_directory = Inl Sole_admin
    \<and> \<not> every_team_has_admin (team_run [(0, 1, Remove_member ''acme'' 1)] demo_directory)"
  by code_simp

theorem removal_revokes_access_witness:
  "get_effective_project_role demo_directory demo_project 2 = Some ''editor''
    \<and> (\<exists>db'. remove_member 1 ''acme'' 2 demo_directory = Inr db' \<and> get_effective_project_role db' demo_project 2 = None)"
proof -
  obtain db' where run: "remove_member 1 ''acme'' 2 demo_directory = Inr db'"
  proof (cases "remove_member 1 ''acme'' 2 demo_directory")
    case (Inl e)
    moreover have "\<not> isl (remove_member 1 ''acme'' 2 demo_directory)" by code_simp
    ultimately show thesis by simp
  qed
  have "resolve_team demo_directory ''acme'' = Some demo_team" "demo_project \<in> set (dr_projects demo_directory)"
    "pj_team demo_project = tm_id demo_team" "pj_owner demo_project \<noteq> 2" "\<not> is_superuser demo_directory 2" by code_simp+
  from removal_revokes_access[OF run this] run show ?thesis
    by (intro conjI exI[of _ db']) (simp_all, code_simp)
qed

theorem editor_makes_themself_project_admin_witness:
  "\<exists>db'. add_project_member 2 ''acme'' ''site'' 2 ''admin'' demo_directory = Inr db'
     \<and> get_project_with_access db' ''site'' 2 PROJECT_DELETE = Inr (demo_project, ''admin'')"
proof -
  have "resolve_project demo_directory ''acme'' ''site'' = Inr (demo_team, demo_project)"
    "find_project demo_directory ''site'' = Some demo_project" "pj_team demo_project = tm_id demo_team"
    "get_team_membership demo_directory (tm_id demo_team) 2
       = Some \<lparr>mb_team = 10, mb_user = 2, mb_role = ''editor'', mb_is_active = True\<rparr>"
    "mb_role \<lparr>mb_team = 10, mb_user = 2, mb_role = ''editor'', mb_is_active = True\<rparr> = ''editor''"
    "\<not> is_superuser demo_directory 2" "pj_visibility demo_project = Some ''team''"
    "\<forall>x \<in> set (dr_project_members demo_directory). pm_project x = pj_id demo_project \<longrightarrow> pm_user x \<noteq> 2"
    by code_simp+
  from editor_makes_themself_project_admin[OF this] show ?thesis by blast
qed

end
