(* ===== verification/Rate_Limit.thy ===== *)
theory Rate_Limit
  imports Prelude
begin

text \<open>
  The fixed-window rate limiter (\<open>services/rate_limit.py\<close>): a counter for each scope, subject and window in
  Redis, and a counter in the process when Redis is down.

  Redis is not part of the repository: the pipeline \<open>INCR; EXPIRE NX\<close> is an argument, the locale
  \<open>window_counter\<close> states what it is documented to do, an exception included, after which the increment
  may have happened or not.  The fallback of the code interprets the same locale.  Clocks are whole
  seconds: the code truncates them, and its deadlines are whole seconds.
\<close>

subsection \<open>Keys\<close>

text \<open>\<open>str(n)\<close>.\<close>

fun dec_digits :: "nat \<Rightarrow> string" where
  "dec_digits n = (if n < 10 then [char_of (48 + n)] else dec_digits (n div 10) @ [char_of (48 + n mod 10)])"

declare dec_digits.simps [simp del]

definition int_str :: "int \<Rightarrow> string" where
  "int_str i = (if i < 0 then CHR ''-'' # dec_digits (nat (- i)) else dec_digits (nat i))"

definition window_start :: "int \<Rightarrow> instant \<Rightarrow> instant" where
  "window_start window_seconds now = now - now mod window_seconds"

definition rate_key :: "string \<Rightarrow> string \<Rightarrow> instant \<Rightarrow> string" where
  "rate_key scope subject w = ''tesslate:ratelimit:'' @ scope @ '':'' @ subject @ '':'' @ int_str w"

subsection \<open>The counter in the process\<close>

text \<open>Counters and their deadlines share one dictionary.\<close>

type_synonym counters = "string \<rightharpoonup> int"

definition expiry_marker :: "string \<Rightarrow> string" where
  "expiry_marker key = key @ '':__exp''"

definition fallback_consume :: "instant \<Rightarrow> string \<Rightarrow> int \<Rightarrow> int \<Rightarrow> counters \<Rightarrow> counters \<times> bool \<times> int" where
  "fallback_consume now key capacity ttl s =
     (let deadline = (case s (expiry_marker key) of None \<Rightarrow> 0 | Some d \<Rightarrow> d);
          s1 = (if deadline \<noteq> 0 \<and> deadline \<le> now then s(key := None, expiry_marker key := None) else s);
          s2 = (if s1 key = None then s1(key \<mapsto> 0, expiry_marker key \<mapsto> now + ttl) else s1);
          count = (case s2 key of None \<Rightarrow> 1 | Some c \<Rightarrow> c + 1)
      in (s2(key \<mapsto> count), count \<le> capacity, count))"

subsection \<open>The limiter\<close>

type_synonym 's pipeline = "'s \<Rightarrow> instant \<Rightarrow> string \<Rightarrow> int \<Rightarrow> 's \<times> int option"

record 's limiter =
  li_redis :: 's
  li_fallback :: counters

text \<open>Allowed, remaining calls, seconds until the window rolls over; \<open>up\<close>: a Redis client could be had.\<close>

definition check_and_consume ::
  "'s pipeline \<Rightarrow> bool \<Rightarrow> instant \<Rightarrow> string \<Rightarrow> string \<Rightarrow> int \<Rightarrow> int \<Rightarrow> 's limiter
   \<Rightarrow> 's limiter \<times> bool \<times> int \<times> int" where
  "check_and_consume redis up now scope subject capacity window_seconds l =
     (let w = window_start window_seconds now;
          reset = max 1 (w + window_seconds - now);
          key = rate_key scope subject w
      in if \<not> up
         then (let (fb, allowed, count) = fallback_consume now key capacity window_seconds (li_fallback l)
               in (l\<lparr>li_fallback := fb\<rparr>, allowed, max 0 (capacity - count), reset))
         else (case redis (li_redis l) now key window_seconds of
                 (r, None) \<Rightarrow>
                   (let (fb, allowed, count) = fallback_consume now key capacity window_seconds (li_fallback l)
                    in (l\<lparr>li_redis := r, li_fallback := fb\<rparr>, allowed, max 0 (capacity - count), reset))
               | (r, Some count) \<Rightarrow>
                   if capacity < count then (l\<lparr>li_redis := r\<rparr>, False, 0, reset)
                   else (l\<lparr>li_redis := r\<rparr>, True, max 0 (capacity - count), reset)))"

text \<open>The dependency of the routes: the user, or 429 with the seconds to wait.\<close>

definition rate_limited ::
  "'s pipeline \<Rightarrow> bool \<Rightarrow> instant \<Rightarrow> string \<Rightarrow> int \<Rightarrow> int \<Rightarrow> string \<Rightarrow> 's limiter \<Rightarrow> 's limiter \<times> (int, string) result" where
  "rate_limited redis up now scope capacity window_seconds user l =
     (case check_and_consume redis up now scope user capacity window_seconds l of
        (l', allowed, remaining, reset) \<Rightarrow> (l', if allowed then Inr user else Inl reset))"

subsection \<open>Runs\<close>

record rate_call =
  rc_up :: bool
  rc_now :: instant
  rc_scope :: string
  rc_subject :: string
  rc_capacity :: int
  rc_window :: int

definition call_key :: "rate_call \<Rightarrow> string" where
  "call_key c = rate_key (rc_scope c) (rc_subject c) (window_start (rc_window c) (rc_now c))"

definition rate_step :: "'s pipeline \<Rightarrow> rate_call \<Rightarrow> 's limiter \<Rightarrow> 's limiter \<times> bool" where
  "rate_step redis c l =
     (case check_and_consume redis (rc_up c) (rc_now c) (rc_scope c) (rc_subject c) (rc_capacity c) (rc_window c) l of
        (l', allowed, _) \<Rightarrow> (l', allowed))"

fun rate_run :: "'s pipeline \<Rightarrow> rate_call list \<Rightarrow> 's limiter \<Rightarrow> bool list" where
  "rate_run redis [] l = []"
| "rate_run redis (c # cs) l = (case rate_step redis c l of (l', allowed) \<Rightarrow> allowed # rate_run redis cs l')"

text \<open>The reference: a call is admitted when fewer calls than its capacity came before it under the same key.\<close>

fun window_spec :: "rate_call list \<Rightarrow> rate_call list \<Rightarrow> bool list" where
  "window_spec seen [] = []"
| "window_spec seen (c # cs) =
     (int (length (filter (\<lambda>x. call_key x = call_key c) seen)) < rc_capacity c) # window_spec (seen @ [c]) cs"


section \<open>Keys determine their window\<close>

definition dec_value :: "string \<Rightarrow> nat" where
  "dec_value s = foldl (\<lambda>a c. 10 * a + (of_char c - 48)) 0 s"

lemma of_char_digit [simp]: "n < 10 \<Longrightarrow> (of_char (char_of (48 + n) :: char) :: nat) = 48 + n"
  by simp

lemma dec_value_digits: "dec_value (dec_digits n) = n"
proof (induction n rule: dec_digits.induct)
  case (1 n)
  show ?case
  proof (cases "n < 10")
    case True
    then show ?thesis by (subst dec_digits.simps) (simp add: dec_value_def)
  next
    case False
    then have "dec_value (dec_digits n) = 10 * dec_value (dec_digits (n div 10)) + n mod 10"
      by (subst dec_digits.simps) (simp add: dec_value_def)
    with 1 False show ?thesis by simp
  qed
qed

lemma dec_digits_char: "c \<in> set (dec_digits n) \<Longrightarrow> 48 \<le> (of_char c :: nat) \<and> (of_char c :: nat) < 58"
proof (induction n rule: dec_digits.induct)
  case (1 n)
  then show ?case by (subst (asm) (2) dec_digits.simps) (auto split: if_splits)
qed

lemma dec_digits_not_Nil [simp]: "dec_digits n \<noteq> []"
  by (subst dec_digits.simps) simp

lemma int_str_inj: "0 \<le> a \<Longrightarrow> 0 \<le> b \<Longrightarrow> int_str a = int_str b \<Longrightarrow> a = b"
proof -
  assume ab: "0 \<le> a" "0 \<le> b" "int_str a = int_str b"
  then have "dec_digits (nat a) = dec_digits (nat b)" by (simp add: int_str_def)
  then have "nat a = nat b" by (metis dec_value_digits)
  with ab show "a = b" by simp
qed

lemma int_str_no_colon: "0 \<le> a \<Longrightarrow> CHR '':'' \<notin> set (int_str a)"
  using dec_digits_char[of "CHR '':''" "nat a"] by (auto simp: int_str_def)

lemma last_component:
  assumes "x @ CHR '':'' # a = y @ CHR '':'' # b" "CHR '':'' \<notin> set a" "CHR '':'' \<notin> set b"
  shows "a = b"
proof -
  have tw: "takeWhile (\<lambda>c. c \<noteq> CHR '':'') (rev (z @ CHR '':'' # d)) = rev d" if "CHR '':'' \<notin> set d" for z d
  proof -
    have "takeWhile (\<lambda>c. c \<noteq> CHR '':'') (rev d @ CHR '':'' # rev z) = rev d @ takeWhile (\<lambda>c. c \<noteq> CHR '':'') (CHR '':'' # rev z)"
      by (rule takeWhile_append2) (use that in auto)
    then show ?thesis by simp
  qed
  show ?thesis using tw[of a x] tw[of b y] assms by simp
qed

lemma rate_key_window:
  assumes "rate_key sc su a = rate_key sc' su' b" "0 \<le> a" "0 \<le> b"
  shows "a = b"
proof -
  have "int_str a = int_str b"
    by (rule last_component[of "''tesslate:ratelimit:'' @ sc @ '':'' @ su" _ "''tesslate:ratelimit:'' @ sc' @ '':'' @ su'"])
      (use assms in \<open>simp_all add: rate_key_def int_str_no_colon\<close>)
  then show ?thesis using assms(2,3) by (simp add: int_str_inj)
qed

lemma window_start_bounds:
  assumes "0 < W" "0 < now"
  shows "0 \<le> window_start W now" "window_start W now \<le> now" "now < window_start W now + W"
  using assms pos_mod_bound[of W now] zmod_le_nonneg_dividend[of now W] by (simp_all add: window_start_def)

text \<open>No key of the limiter is the marker of a deadline.\<close>

definition plain_key :: "string \<Rightarrow> bool" where
  "plain_key k \<longleftrightarrow> last k \<noteq> CHR ''p''"

lemma rate_key_plain: "0 \<le> w \<Longrightarrow> plain_key (rate_key sc su w)"
  using dec_digits_char[of "last (dec_digits (nat w))" "nat w"]
  by (auto simp: plain_key_def rate_key_def int_str_def)

lemma marker_not_plain [simp]: "\<not> plain_key (expiry_marker k)"
  by (simp add: plain_key_def expiry_marker_def)

lemma plain_not_marker [simp]: "plain_key k \<Longrightarrow> k \<noteq> expiry_marker k'" "plain_key k \<Longrightarrow> expiry_marker k' \<noteq> k"
  by auto

lemma expiry_marker_inj [simp]: "expiry_marker a = expiry_marker b \<longleftrightarrow> a = b"
  by (simp add: expiry_marker_def)

section \<open>Window counters\<close>

text \<open>What the pipeline does to an entry: count and deadline.\<close>

definition bumped :: "instant \<Rightarrow> int \<Rightarrow> (int \<times> instant) option \<Rightarrow> int \<times> instant" where
  "bumped now ttl e = (case e of
     None \<Rightarrow> (1, now + ttl) | Some (c, d) \<Rightarrow> if now < d then (c + 1, d) else (1, now + ttl))"

locale window_counter =
  fixes tick :: "'s pipeline" and peek :: "'s \<Rightarrow> string \<Rightarrow> (int \<times> instant) option" and valid :: "'s \<Rightarrow> bool"
  assumes tick_wf: "valid s \<Longrightarrow> plain_key k \<Longrightarrow> 0 < now \<Longrightarrow> 0 < ttl \<Longrightarrow> tick s now k ttl = (s', r) \<Longrightarrow> valid s'"
    and tick_count: "valid s \<Longrightarrow> plain_key k \<Longrightarrow> 0 < now \<Longrightarrow> 0 < ttl \<Longrightarrow> tick s now k ttl = (s', Some n) \<Longrightarrow>
      n = fst (bumped now ttl (peek s k)) \<and> peek s' k = Some (bumped now ttl (peek s k))"
    and tick_fail: "valid s \<Longrightarrow> plain_key k \<Longrightarrow> 0 < now \<Longrightarrow> 0 < ttl \<Longrightarrow> tick s now k ttl = (s', None) \<Longrightarrow>
      peek s' k = peek s k \<or> peek s' k = Some (bumped now ttl (peek s k))"
    and tick_other: "valid s \<Longrightarrow> plain_key k \<Longrightarrow> 0 < now \<Longrightarrow> 0 < ttl \<Longrightarrow> tick s now k ttl = (s', r) \<Longrightarrow>
      plain_key k' \<Longrightarrow> k' \<noteq> k \<Longrightarrow> peek s' k' = peek s k'"

text \<open>An entry that has counted \<open>n\<close> calls and lives until \<open>B\<close> at least.\<close>

definition counted :: "(int \<times> instant) option \<Rightarrow> int \<Rightarrow> instant \<Rightarrow> bool" where
  "counted e n B \<longleftrightarrow> (case e of None \<Rightarrow> n = 0 | Some (c, d) \<Rightarrow> c = n \<and> 0 < n \<and> B \<le> d)"

lemma counted_None [simp]: "counted None n B \<longleftrightarrow> n = 0"
  by (simp add: counted_def)

lemma counted_nonneg: "counted e n B \<Longrightarrow> 0 \<le> n"
  by (auto simp: counted_def split: option.splits)

lemma counted_bumped:
  assumes "counted e n B" "now < B" "B \<le> now + ttl"
  shows "fst (bumped now ttl e) = n + 1" "counted (Some (bumped now ttl e)) (n + 1) B"
  using assms by (auto simp: counted_def bumped_def split: option.splits)

text \<open>The dictionary in the process is one.\<close>

definition fallback_tick :: "counters pipeline" where
  "fallback_tick s now k ttl = (case fallback_consume now k 0 ttl s of (s', _, n) \<Rightarrow> (s', Some n))"

definition fallback_peek :: "counters \<Rightarrow> string \<Rightarrow> (int \<times> instant) option" where
  "fallback_peek s k = (case s k of
     None \<Rightarrow> None | Some c \<Rightarrow> Some (c, case s (expiry_marker k) of None \<Rightarrow> 0 | Some d \<Rightarrow> d))"

definition fallback_wf :: "counters \<Rightarrow> bool" where
  "fallback_wf s \<longleftrightarrow> (\<forall>k. plain_key k \<longrightarrow> (s k = None \<longleftrightarrow> s (expiry_marker k) = None)
     \<and> (\<forall>d. s (expiry_marker k) = Some d \<longrightarrow> 0 < d))"

lemma fallback_consume_effect:
  assumes "fallback_wf s" "plain_key k" "0 < now" "0 < ttl"
  shows "fallback_consume now k capacity ttl s =
    (s(k \<mapsto> fst (bumped now ttl (fallback_peek s k)), expiry_marker k \<mapsto> snd (bumped now ttl (fallback_peek s k))),
     fst (bumped now ttl (fallback_peek s k)) \<le> capacity, fst (bumped now ttl (fallback_peek s k)))"
proof (cases "s k")
  case None
  then have "s (expiry_marker k) = None" using assms by (simp add: fallback_wf_def)
  with None assms show ?thesis
    by (simp add: fallback_consume_def fallback_peek_def bumped_def fun_upd_twist)
next
  case (Some c)
  then obtain d where d: "s (expiry_marker k) = Some d" using assms(1,2) by (fastforce simp: fallback_wf_def)
  then have "0 < d" using assms(1,2) by (simp add: fallback_wf_def)
  then show ?thesis
    using Some d assms by (cases "now < d") (auto simp: fallback_consume_def fallback_peek_def bumped_def Let_def fun_eq_iff)
qed

interpretation fb: window_counter fallback_tick fallback_peek fallback_wf
proof
  fix s :: counters and k now ttl s' and r :: "int option"
  assume *: "fallback_wf s" "plain_key k" "0 < now" "0 < ttl" "fallback_tick s now k ttl = (s', r)"
  have eff: "s' = s(k \<mapsto> fst (bumped now ttl (fallback_peek s k)), expiry_marker k \<mapsto> snd (bumped now ttl (fallback_peek s k)))"
    "r = Some (fst (bumped now ttl (fallback_peek s k)))"
    using *(5) by (auto simp: fallback_tick_def fallback_consume_effect[OF *(1-4)])
  have "0 < snd (bumped now ttl (fallback_peek s k))"
    using *(1-4) by (auto simp: bumped_def fallback_peek_def fallback_wf_def split: option.splits)
  then show "fallback_wf s'" using *(1,2) by (auto simp: eff(1) fallback_wf_def)
  show "fallback_peek s' k' = fallback_peek s k'" if "plain_key k'" "k' \<noteq> k" for k'
    using that *(2) by (cases "s k'") (simp_all add: eff(1) fallback_peek_def)
next
  fix s :: counters and k now ttl s' n
  assume *: "fallback_wf s" "plain_key k" "0 < now" "0 < ttl" "fallback_tick s now k ttl = (s', Some n)"
  show "n = fst (bumped now ttl (fallback_peek s k)) \<and> fallback_peek s' k = Some (bumped now ttl (fallback_peek s k))"
    using * fallback_consume_effect[OF *(1-4), of 0] by (auto simp: fallback_tick_def fallback_peek_def)
next
  fix s :: counters and k now ttl s'
  assume *: "fallback_wf s" "plain_key k" "0 < now" "0 < ttl" "fallback_tick s now k ttl = (s', None)"
  show "fallback_peek s' k = fallback_peek s k \<or> fallback_peek s' k = Some (bumped now ttl (fallback_peek s k))"
    using * by (simp add: fallback_tick_def split: prod.splits)
qed

section \<open>The limiter against its reference\<close>

context window_counter
begin

text \<open>What the limiter knows about one key: the calls its two counters have seen.\<close>

definition limiter_ok :: "'s limiter \<Rightarrow> string \<Rightarrow> instant \<Rightarrow> int \<Rightarrow> int \<Rightarrow> bool" where
  "limiter_ok l k B nr nf \<longleftrightarrow> valid (li_redis l) \<and> fallback_wf (li_fallback l)
     \<and> counted (peek (li_redis l) k) nr B \<and> counted (fallback_peek (li_fallback l) k) nf B"

definition faulty :: "'s limiter \<Rightarrow> rate_call \<Rightarrow> bool" where
  "faulty l c \<longleftrightarrow> \<not> rc_up c \<or> snd (tick (li_redis l) (rc_now c) (call_key c) (rc_window c)) = None"

lemma step_cases:
  assumes "rate_step tick c l = (l', a)" "fallback_wf (li_fallback l)" "0 < rc_now c" "0 < rc_window c"
  obtains
    (redis) r n where "rc_up c" "tick (li_redis l) (rc_now c) (call_key c) (rc_window c) = (r, Some n)"
      "l' = l\<lparr>li_redis := r\<rparr>" "a = (n \<le> rc_capacity c)"
  | (fallback) r fb n where "faulty l c"
      "\<not> rc_up c \<and> r = li_redis l \<or> rc_up c \<and> tick (li_redis l) (rc_now c) (call_key c) (rc_window c) = (r, None)"
      "fallback_tick (li_fallback l) (rc_now c) (call_key c) (rc_window c) = (fb, Some n)"
      "l' = l\<lparr>li_redis := r, li_fallback := fb\<rparr>" "a = (n \<le> rc_capacity c)"
proof -
  let ?k = "call_key c"
  let ?e = "bumped (rc_now c) (rc_window c) (fallback_peek (li_fallback l) ?k)"
  have plain: "plain_key ?k"
    using window_start_bounds(1)[OF assms(4,3)] by (simp add: call_key_def rate_key_plain)
  note eff = fallback_consume_effect[OF assms(2) plain assms(3,4)]
  let ?fb = "(li_fallback l)(?k \<mapsto> fst ?e, expiry_marker ?k \<mapsto> snd ?e)"
  have tick: "fallback_tick (li_fallback l) (rc_now c) ?k (rc_window c) = (?fb, Some (fst ?e))"
    by (simp add: fallback_tick_def eff)
  obtain r o' where r: "tick (li_redis l) (rc_now c) ?k (rc_window c) = (r, o')" by (cases "tick (li_redis l) (rc_now c) ?k (rc_window c)")
  show thesis
  proof (cases "rc_up c")
    case False
    then show thesis
      using fallback[of "li_redis l" ?fb "fst ?e"] assms(1) tick
      by (simp add: faulty_def rate_step_def check_and_consume_def Let_def eff flip: call_key_def)
  next
    case True
    show thesis
    proof (cases o')
      case None
      then show thesis
        using fallback[of r ?fb "fst ?e"] assms(1) tick r True
        by (simp add: faulty_def rate_step_def check_and_consume_def Let_def eff flip: call_key_def)
    next
      case (Some n)
      then show thesis
        using redis[of r n] assms(1) r True
        by (simp add: rate_step_def check_and_consume_def Let_def not_le split: if_splits flip: call_key_def)
    qed
  qed
qed

lemma step_same:
  assumes "rate_step tick c l = (l', a)" "limiter_ok l k B nr nf" "0 < rc_now c" "0 < rc_window c"
    and "call_key c = k" "rc_now c < B" "B \<le> rc_now c + rc_window c"
  obtains (redis) "rc_up c" "limiter_ok l' k B (nr + 1) nf" "a = (nr < rc_capacity c)"
  | (fallback) nr' where "faulty l c" "nr' \<in> {nr, nr + 1}" "\<not> rc_up c \<Longrightarrow> nr' = nr" "limiter_ok l' k B nr' (nf + 1)" "a = (nf < rc_capacity c)"
proof -
  have ok: "valid (li_redis l)" "fallback_wf (li_fallback l)" "counted (peek (li_redis l) k) nr B"
    "counted (fallback_peek (li_fallback l) k) nf B"
    using assms(2) by (simp_all add: limiter_ok_def)
  have plain: "plain_key k"
    using window_start_bounds(1)[OF assms(4,3)] by (simp add: call_key_def rate_key_plain flip: assms(5))
  note nr = counted_bumped[OF ok(3) assms(6,7)] and nf = counted_bumped[OF ok(4) assms(6,7)]
  from assms(1) ok(2) assms(3,4) show thesis
  proof (cases rule: step_cases)
    case (redis r n)
    then have t: "tick (li_redis l) (rc_now c) k (rc_window c) = (r, Some n)" by (simp add: assms(5))
    show thesis
      using that(1) redis(1,3,4) tick_count[OF ok(1) plain assms(3,4) t] tick_wf[OF ok(1) plain assms(3,4) t] nr ok(2,4)
      by (auto simp: limiter_ok_def)
  next
    case (fallback r fb n)
    then have t: "fallback_tick (li_fallback l) (rc_now c) k (rc_window c) = (fb, Some n)" by (simp add: assms(5))
    have f: "fallback_wf fb" "n = nf + 1" "counted (fallback_peek fb k) (nf + 1) B"
      using fb.tick_count[OF ok(2) plain assms(3,4) t] fb.tick_wf[OF ok(2) plain assms(3,4) t] nf by auto
    have "valid r \<and> (\<exists>nr' \<in> {nr, nr + 1}. (\<not> rc_up c \<longrightarrow> nr' = nr) \<and> counted (peek r k) nr' B)"
      using fallback(1,2) tick_wf[OF ok(1) plain assms(3,4)] tick_fail[OF ok(1) plain assms(3,4)] nr ok(1,3)
      by (auto simp: assms(5) faulty_def)
    then obtain nr' where "valid r" "nr' \<in> {nr, nr + 1}" "\<not> rc_up c \<longrightarrow> nr' = nr" "counted (peek r k) nr' B" by blast
    with fallback(1,4,5) f show thesis using that(2)[of nr'] by (auto simp: limiter_ok_def)
  qed
qed

lemma step_other:
  assumes "rate_step tick c l = (l', a)" "limiter_ok l k B nr nf" "0 < rc_now c" "0 < rc_window c"
    and "call_key c \<noteq> k" "plain_key k"
  shows "limiter_ok l' k B nr nf"
proof -
  have ok: "valid (li_redis l)" "fallback_wf (li_fallback l)"
    using assms(2) by (simp_all add: limiter_ok_def)
  have plain: "plain_key (call_key c)"
    using window_start_bounds(1)[OF assms(4,3)] by (simp add: call_key_def rate_key_plain)
  note redis_step = tick_wf[OF ok(1) plain assms(3,4)] tick_other[OF ok(1) plain assms(3,4) _ assms(6)]
  note fb_step = fb.tick_wf[OF ok(2) plain assms(3,4)] fb.tick_other[OF ok(2) plain assms(3,4) _ assms(6)]
  from assms(1) ok(2) assms(3,4) show ?thesis
  proof (cases rule: step_cases)
    case (redis r n)
    then show ?thesis using redis_step[of r "Some n"] assms(2,5) by (auto simp: limiter_ok_def)
  next
    case (fallback r fb n)
    then show ?thesis
      using redis_step[of r None] fb_step[of fb "Some n"] assms(2,5) by (auto simp: limiter_ok_def faulty_def)
  qed
qed

end

text \<open>Calls under one key lie in one window.\<close>

definition window_end :: "rate_call \<Rightarrow> instant" where
  "window_end c = window_start (rc_window c) (rc_now c) + rc_window c"

definition proper_call :: "rate_call \<Rightarrow> bool" where
  "proper_call c \<longleftrightarrow> 0 < rc_now c \<and> 0 < rc_window c"

lemma window_end_bounds:
  assumes "proper_call c"
  shows "rc_now c < window_end c" "window_end c \<le> rc_now c + rc_window c"
  using window_start_bounds[of "rc_window c" "rc_now c"] assms by (simp_all add: window_end_def proper_call_def)

lemma window_end_key:
  assumes "proper_call c" "proper_call d" "call_key c = call_key d" "rc_window c = rc_window d"
  shows "window_end c = window_end d"
proof -
  have "window_start (rc_window c) (rc_now c) = window_start (rc_window d) (rc_now d)"
    using assms window_start_bounds(1) by (intro rate_key_window[of "rc_scope c" "rc_subject c" _ "rc_scope d" "rc_subject d"])
      (auto simp: call_key_def proper_call_def)
  then show ?thesis using assms(4) by (simp add: window_end_def)
qed

lemma call_key_plain: "proper_call c \<Longrightarrow> plain_key (call_key c)"
  using window_start_bounds(1)[of "rc_window c" "rc_now c"] by (simp add: call_key_def rate_key_plain proper_call_def)

context window_counter
begin

lemma bounded_run:
  assumes "\<forall>c \<in> set calls. proper_call c"
    and "\<forall>c \<in> set calls. call_key c = k \<longrightarrow> window_end c = B \<and> rc_capacity c \<le> cap"
    and "limiter_ok l k B nr nf" "plain_key k"
  shows "int (length (filter (\<lambda>(c, a). a \<and> call_key c = k) (zip calls (rate_run tick calls l))))
    \<le> max 0 (cap - nr) + max 0 (cap - nf)"
  using assms
proof (induction calls arbitrary: l nr nf)
  case (Cons c calls)
  have pc: "proper_call c" using Cons.prems(1) by simp
  then have pos: "0 < rc_now c" "0 < rc_window c" by (simp_all add: proper_call_def)
  obtain l' a where st: "rate_step tick c l = (l', a)" by (cases "rate_step tick c l")
  note IH = Cons.IH[OF _ _ _ Cons.prems(4)]
  show ?case
  proof (cases "call_key c = k")
    case False
    have "limiter_ok l' k B nr nf" by (rule step_other[OF st Cons.prems(3) pos False Cons.prems(4)])
    then show ?thesis using IH[of l' nr nf] Cons.prems(1,2) st False by simp
  next
    case True
    have B: "window_end c = B" "rc_capacity c \<le> cap" using Cons.prems(2) True by simp_all
    note inside = window_end_bounds[OF pc, unfolded B(1)]
    from st Cons.prems(3) pos True inside show ?thesis
    proof (cases rule: step_same)
      case redis
      then show ?thesis using IH[of l' "nr + 1" nf] Cons.prems(1,2) st True B(2) by (auto split: if_splits)
    next
      case (fallback nr')
      then show ?thesis using IH[of l' nr' "nf + 1"] Cons.prems(1,2) st True B(2) by (auto split: if_splits)
    qed
  qed
qed simp

text \<open>With one backend throughout, the limiter is its reference.\<close>

lemma exact_run:
  assumes "\<forall>c \<in> set calls. proper_call c \<and> rc_up c = up" "up \<Longrightarrow> \<forall>s now k ttl. snd (tick s now k ttl) \<noteq> None"
    and "\<forall>c \<in> set calls. \<forall>d \<in> set calls. call_key c = call_key d \<longrightarrow> rc_window c = rc_window d"
    and "\<forall>c \<in> set calls. limiter_ok l (call_key c) (window_end c)
           (if up then int (length (filter (\<lambda>x. call_key x = call_key c) seen)) else 0)
           (if up then 0 else int (length (filter (\<lambda>x. call_key x = call_key c) seen)))"
  shows "rate_run tick calls l = window_spec seen calls"
  using assms(1,3,4)
proof (induction calls arbitrary: l seen)
  case (Cons c calls)
  have pc: "proper_call c" "rc_up c = up" using Cons.prems(1) by simp_all
  then have pos: "0 < rc_now c" "0 < rc_window c" by (simp_all add: proper_call_def)
  obtain l' a where st: "rate_step tick c l = (l', a)" by (cases "rate_step tick c l")
  let ?N = "\<lambda>k. int (length (filter (\<lambda>x. call_key x = k) seen))"
  let ?ok = "\<lambda>l k B n. limiter_ok l k B (if up then n else 0) (if up then 0 else n)"
  have ok: "?ok l (call_key c) (window_end c) (?N (call_key c))" using Cons.prems(3) by simp
  have nofault: "\<not> faulty l c" if up using that assms(2) pc(2) by (simp add: faulty_def)
  have here: "a = (?N (call_key c) < rc_capacity c) \<and> ?ok l' (call_key c) (window_end c) (?N (call_key c) + 1)"
    using st ok pos refl window_end_bounds[OF pc(1)]
  proof (cases rule: step_same)
    case redis
    then show ?thesis using pc(2) by (simp split: if_splits)
  next
    case (fallback nr')
    then show ?thesis using nofault pc(2) by (cases up) simp_all
  qed
  have "?ok l' (call_key d) (window_end d) (int (length (filter (\<lambda>x. call_key x = call_key d) (seen @ [c]))))" if d: "d \<in> set calls" for d
  proof (cases "call_key d = call_key c")
    case True
    have pd: "proper_call d" using Cons.prems(1) d by simp
    have dc: "d \<in> set (c # calls)" "c \<in> set (c # calls)" using d by simp_all
    have "rc_window d = rc_window c" using bspec[OF bspec[OF Cons.prems(2) dc(1)] dc(2)] True by blast
    then have "window_end d = window_end c" by (rule window_end_key[OF pd pc(1) True])
    with here True show ?thesis by (cases up) (simp_all add: add.commute)
  next
    case False
    have "?ok l (call_key d) (window_end d) (?N (call_key d))" using Cons.prems(3) d by simp
    then have "?ok l' (call_key d) (window_end d) (?N (call_key d))"
      using step_other[OF st _ pos, of "call_key d"] False Cons.prems(1) d by (auto simp: call_key_plain)
    with False show ?thesis by (cases up) simp_all
  qed
  then have later: "\<forall>d \<in> set calls. ?ok l' (call_key d) (window_end d) (int (length (filter (\<lambda>x. call_key x = call_key d) (seen @ [c]))))"
    by blast
  have sub: "set calls \<subseteq> set (c # calls)" by auto
  have "rate_run tick calls l' = window_spec (seen @ [c]) calls"
  proof (rule Cons.IH[OF _ _ later])
    show "\<forall>c \<in> set calls. proper_call c \<and> rc_up c = up" using Cons.prems(1) sub by blast
    show "\<forall>c \<in> set calls. \<forall>d \<in> set calls. call_key c = call_key d \<longrightarrow> rc_window c = rc_window d"
      using Cons.prems(2) sub by blast
  qed
  with here show ?case by (simp add: st)
qed simp

end

definition fresh_limiter :: "('s \<Rightarrow> string \<Rightarrow> (int \<times> instant) option) \<Rightarrow> 's limiter \<Rightarrow> bool" where
  "fresh_limiter peek l \<longleftrightarrow> (\<forall>k. peek (li_redis l) k = None) \<and> li_fallback l = Map.empty"

context window_counter
begin

lemma fresh_ok: "fresh_limiter peek l \<Longrightarrow> valid (li_redis l) \<Longrightarrow> limiter_ok l k B 0 0"
  by (simp add: fresh_limiter_def limiter_ok_def fallback_wf_def fallback_peek_def)

end


text \<open>Whatever calls of Redis fail in between, the increment done or not, one process admits at most twice
  the capacity under one key: what its Redis counter allows and what its own counter allows.\<close>

theorem outages_at_most_double:
  assumes "window_counter redis peek valid" "fresh_limiter peek l" "valid (li_redis l)"
    and "\<forall>c \<in> set calls. proper_call c" "0 \<le> cap"
    and "\<forall>c \<in> set calls. call_key c = k \<longrightarrow> rc_window c = W \<and> rc_capacity c \<le> cap"
  shows "int (length (filter (\<lambda>(c, a). a \<and> call_key c = k) (zip calls (rate_run redis calls l)))) \<le> 2 * cap"
proof (cases "\<exists>c \<in> set calls. call_key c = k")
  case True
  then obtain c where c: "c \<in> set calls" "call_key c = k" by blast
  have B: "\<forall>d \<in> set calls. call_key d = k \<longrightarrow> window_end d = window_end c \<and> rc_capacity d \<le> cap"
  proof (intro ballI impI)
    fix d assume d: "d \<in> set calls" "call_key d = k"
    with assms(4,6) c have "window_end d = window_end c" by (intro window_end_key) auto
    with assms(6) d show "window_end d = window_end c \<and> rc_capacity d \<le> cap" by blast
  qed
  have "plain_key k" using assms(4) c call_key_plain by blast
  from window_counter.bounded_run[OF assms(1,4) B window_counter.fresh_ok[OF assms(1-3)] this] assms(5)
  show ?thesis by simp
next
  case False
  then have "filter (\<lambda>(c, a). a \<and> call_key c = k) (zip calls (rate_run redis calls l)) = []"
    by (auto simp: filter_empty_conv dest: set_zip_leftD)
  with assms(5) show ?thesis by simp
qed

text \<open>Five calls of one user: the third is over the capacity, the fourth has another subject, the fifth a new window.\<close>

definition demo_calls :: "bool \<Rightarrow> rate_call list" where
  "demo_calls up = map (\<lambda>(now, subject). \<lparr>rc_up = up, rc_now = now, rc_scope = ''wsdata:ip'', rc_subject = subject,
     rc_capacity = 2, rc_window = 60\<rparr>) [(100, ''a''), (101, ''a''), (119, ''a''), (119, ''b''), (120, ''a'')]"

definition demo_limiter :: "counters limiter" where
  "demo_limiter = \<lparr>li_redis = Map.empty, li_fallback = Map.empty\<rparr>"

lemma demo_limiter_fresh: "fresh_limiter fallback_peek demo_limiter" "fallback_wf (li_redis demo_limiter)"
  by (simp_all add: fresh_limiter_def demo_limiter_def fallback_peek_def fallback_wf_def)

lemma fallback_tick_never_fails: "snd (fallback_tick s now k ttl) \<noteq> None"
  by (simp add: fallback_tick_def split: prod.split)


text \<open>Two calls while Redis is up and three while it is down: the user has passed four times with a capacity of two.\<close>

theorem outages_at_most_double_witness:
  "length (filter (\<lambda>(c, a). a \<and> call_key c = rate_key ''wsdata:ip'' ''a'' 60)
     (zip (take 3 (demo_calls True) @ take 3 (demo_calls False)) (rate_run fallback_tick (take 3 (demo_calls True) @ take 3 (demo_calls False)) demo_limiter)))
   \<le> 4"
proof -
  let ?calls = "take 3 (demo_calls True) @ take 3 (demo_calls False)"
  have calls: "\<forall>c \<in> set ?calls. proper_call c" "(0::int) \<le> 2"
    "\<forall>c \<in> set ?calls. call_key c = rate_key ''wsdata:ip'' ''a'' 60 \<longrightarrow> rc_window c = 60 \<and> rc_capacity c \<le> 2"
    by (simp_all add: demo_calls_def proper_call_def)
  show ?thesis
    using outages_at_most_double[where valid = fallback_wf, OF fb.window_counter_axioms demo_limiter_fresh calls] by simp
qed

end
