(* ===== verification/Record_Rules.thy ===== *)
theory Record_Rules
  imports Py_Text Rate_Limit
begin

text \<open>
  What the workspace data store accepts (\<open>services/workspace_data/store.py\<close>): names of collections,
  references to collections and records, and the structure and size of a document.

  \<open>UUID\<close>, \<open>int(s, 16)\<close> and \<open>json.dumps\<close> are Python's; the text of a float is an argument.  A character is one
  of the first 256 code points, so lone surrogates do not occur.
\<close>

subsection \<open>\<open>UUID(s)\<close>\<close>

text \<open>Hexadecimal digits with single underscores between them.\<close>

fun hex_number :: "nat \<Rightarrow> string \<Rightarrow> nat option" where
  "hex_number acc [] = None"
| "hex_number acc [c] = map_option (\<lambda>d. 16 * acc + d) (hex_value c)"
| "hex_number acc (c # d # cs) =
     (case hex_value c of
        None \<Rightarrow> None
      | Some v \<Rightarrow> if d = CHR ''_'' then hex_number (16 * acc + v) cs else hex_number (16 * acc + v) (d # cs))"

definition int16 :: "string \<Rightarrow> nat option" where
  "int16 s =
     (let t = strip s;
          u = (case t of c # cs \<Rightarrow> if c = CHR ''+'' then cs else t | [] \<Rightarrow> t)
      in if take 2 u \<in> {''0x'', ''0X''}
         then (case drop 2 u of c # cs \<Rightarrow> if c = CHR ''_'' then hex_number 0 cs else hex_number 0 (drop 2 u)
                              | [] \<Rightarrow> None)
         else hex_number 0 u)"

definition strip_braces :: "string \<Rightarrow> string" where
  "strip_braces s =
     (let brace = (\<lambda>c. c = CHR ''{'' \<or> c = CHR ''}'') in rev (dropWhile brace (rev (dropWhile brace s))))"

definition remove_all :: "string \<Rightarrow> string \<Rightarrow> string" where
  "remove_all old s = py_replace s old [] (py_count s old)"

definition maybe_uuid :: "string \<Rightarrow> uuid option" where
  "maybe_uuid s =
     (let hex = filter (\<lambda>c. c \<noteq> CHR ''-'') (strip_braces (remove_all ''uuid:'' (remove_all ''urn:'' s)))
      in if length hex = 32 then int16 hex else None)"

subsection \<open>Names\<close>

definition is_alnum :: "char \<Rightarrow> bool" where
  "is_alnum c \<longleftrightarrow> (let n = (of_char c :: nat) in 48 \<le> n \<and> n \<le> 57 \<or> 65 \<le> n \<and> n \<le> 90 \<or> 97 \<le> n \<and> n \<le> 122)"

definition name_char :: "char \<Rightarrow> bool" where
  "name_char c \<longleftrightarrow> is_alnum c \<or> c = CHR ''_'' \<or> c = CHR ''-''"

datatype record_fault = Not_an_object | Too_many_keys | Too_deep | Bad_key | Bad_string | Too_large

datatype wd_error =
    Invalid_name | Reserved_name | Invalid_record record_fault | Invalid_schema | Schema_violation
  | Collection_exists | Collection_not_found | Record_not_found | Quota_exceeded | Invalid_key | Integrity_error

definition validate_collection_name :: "string \<Rightarrow> (wd_error, string) result" where
  "validate_collection_name name =
     (let cleaned = strip name
      in if cleaned = [] \<or> \<not> is_alnum (hd cleaned) \<or> 64 < length cleaned \<or> \<not> list_all name_char (tl cleaned)
         then Inl Invalid_name
         else if map ascii_lower cleaned = ''collections'' then Inl Reserved_name
         else Inr cleaned)"

subsection \<open>\<open>json.dumps\<close>\<close>

definition dump_char :: "char \<Rightarrow> string" where
  "dump_char c =
     (let n = (of_char c :: nat)
      in if c = CHR 0x22 then [CHR 0x5C, CHR 0x22] else if n = 92 then [CHR 0x5C, CHR 0x5C]
         else if n = 10 then CHR 0x5C # ''n'' else if n = 13 then CHR 0x5C # ''r'' else if n = 9 then CHR 0x5C # ''t''
         else if n = 12 then CHR 0x5C # ''f'' else if n = 8 then CHR 0x5C # ''b''
         else if 32 \<le> n \<and> n \<le> 126 then [c]
         else CHR 0x5C # ''u'' @ to_hex 4 n)"

definition dump_str :: "string \<Rightarrow> string" where
  "dump_str s = CHR 0x22 # concat (map dump_char s) @ [CHR 0x22]"

fun json_dumps :: "(rat \<Rightarrow> string) \<Rightarrow> json \<Rightarrow> string" where
  "json_dumps repr J_null = ''null''"
| "json_dumps repr (J_bool b) = (if b then ''true'' else ''false'')"
| "json_dumps repr (J_int n) = int_str n"
| "json_dumps repr (J_float x) = repr x"
| "json_dumps repr (J_str s) = dump_str s"
| "json_dumps repr (J_list xs) = ''['' @ py_join '', '' (map (json_dumps repr) xs) @ '']''"
| "json_dumps repr (J_obj d) = CHR 0x7B # py_join '', '' (map (\<lambda>(k, v). dump_str k @ '': '' @ json_dumps repr v) d) @ [CHR 0x7D]"

subsection \<open>Documents\<close>

definition has_nul :: "string \<Rightarrow> bool" where
  "has_nul s \<longleftrightarrow> CHR 0x00 \<in> set s"

text \<open>The first fault in the order of the walk.\<close>

fun check_structure :: "nat \<Rightarrow> json \<Rightarrow> record_fault option"
  and check_items :: "nat \<Rightarrow> (string \<times> json) list \<Rightarrow> record_fault option"
  and check_elements :: "nat \<Rightarrow> json list \<Rightarrow> record_fault option" where
  "check_structure depth (J_obj d) = (if 32 < depth then Some Too_deep else check_items (depth + 1) d)"
| "check_structure depth (J_list xs) = (if 32 < depth then Some Too_deep else check_elements (depth + 1) xs)"
| "check_structure depth (J_str s) = (if 32 < depth then Some Too_deep else if has_nul s then Some Bad_string else None)"
| "check_structure depth _ = (if 32 < depth then Some Too_deep else None)"
| "check_items depth [] = None"
| "check_items depth ((k, v) # d) =
     (if has_nul k then Some Bad_key
      else (case check_structure depth v of Some e \<Rightarrow> Some e | None \<Rightarrow> check_items depth d))"
| "check_elements depth [] = None"
| "check_elements depth (v # xs) = (case check_structure depth v of Some e \<Rightarrow> Some e | None \<Rightarrow> check_elements depth xs)"

definition validate_record_data :: "(rat \<Rightarrow> string) \<Rightarrow> json \<Rightarrow> (wd_error, json_dict) result" where
  "validate_record_data repr data =
     (case data of
        J_obj d \<Rightarrow>
          if 256 < length d then Inl (Invalid_record Too_many_keys)
          else (case check_structure 0 data of
                  Some e \<Rightarrow> Inl (Invalid_record e)
                | None \<Rightarrow> if 65536 < length (json_dumps repr data) then Inl (Invalid_record Too_large) else Inr d)
      | _ \<Rightarrow> Inl (Invalid_record Not_an_object))"

text \<open>Schemas: checking one and validating against one are the library \<open>jsonschema\<close>.\<close>

record schema_lib =
  sl_check :: "json_dict \<Rightarrow> bool"
  sl_conforms :: "json_dict \<Rightarrow> json_dict \<Rightarrow> bool"

definition validate_collection_schema :: "schema_lib \<Rightarrow> json \<Rightarrow> (wd_error, json_dict option) result" where
  "validate_collection_schema lib schema =
     (case schema of
        J_null \<Rightarrow> Inr None
      | J_obj s \<Rightarrow> if s = [] then Inr None else if sl_check lib s then Inr (Some s) else Inl Invalid_schema
      | _ \<Rightarrow> Inl Invalid_schema)"

definition validate_against_schema :: "schema_lib \<Rightarrow> json_dict \<Rightarrow> json_dict option \<Rightarrow> wd_error option" where
  "validate_against_schema lib data schema =
     (case schema of
        None \<Rightarrow> None
      | Some s \<Rightarrow> if s = [] \<or> sl_conforms lib s data then None else Some Schema_violation)"

section \<open>What is accepted\<close>

text \<open>The height of a value, zero for a scalar and an empty container, and all its texts, keys included.\<close>

fun json_height :: "json \<Rightarrow> nat" where
  "json_height (J_obj d) = (if d = [] then 0 else Suc (fold max (map (\<lambda>(k, v). json_height v) d) 0))"
| "json_height (J_list xs) = (if xs = [] then 0 else Suc (fold max (map json_height xs) 0))"
| "json_height _ = 0"

fun json_texts :: "json \<Rightarrow> string list" where
  "json_texts (J_obj d) = concat (map (\<lambda>(k, v). k # json_texts v) d)"
| "json_texts (J_list xs) = concat (map json_texts xs)"
| "json_texts (J_str s) = [s]"
| "json_texts _ = []"

lemma add_fold_max: "n + fold max xs (a :: nat) \<le> b \<longleftrightarrow> n + a \<le> b \<and> (\<forall>x \<in> set xs. n + x \<le> b)"
  by (induction xs arbitrary: a) (auto simp: max_def)

lemma height_within:
  "n + json_height (J_obj d) \<le> b \<longleftrightarrow> n \<le> b \<and> (\<forall>(k, v) \<in> set d. n + 1 + json_height v \<le> b)"
  "n + json_height (J_list xs) \<le> b \<longleftrightarrow> n \<le> b \<and> (\<forall>v \<in> set xs. n + 1 + json_height v \<le> b)"
proof -
  have shift: "n + Suc m = Suc n + m" for m by simp
  show "n + json_height (J_obj d) \<le> b \<longleftrightarrow> n \<le> b \<and> (\<forall>(k, v) \<in> set d. n + 1 + json_height v \<le> b)"
  proof (cases "d = []")
    case False
    then obtain kv where "kv \<in> set d" by (cases d) auto
    then show ?thesis
      unfolding json_height.simps using False add_fold_max[of "Suc n" "map (\<lambda>(k, v). json_height v) d" 0 b]
      by (auto simp: shift case_prod_beta simp del: add_Suc_right)
  qed (simp add: json_height.simps)
  show "n + json_height (J_list xs) \<le> b \<longleftrightarrow> n \<le> b \<and> (\<forall>v \<in> set xs. n + 1 + json_height v \<le> b)"
  proof (cases "xs = []")
    case False
    then obtain v where "v \<in> set xs" by (cases xs) auto
    then show ?thesis
      unfolding json_height.simps using False add_fold_max[of "Suc n" "map json_height xs" 0 b]
      by (auto simp: shift simp del: add_Suc_right)
  qed (simp add: json_height.simps)
qed

declare json_height.simps [simp del]

lemma height_scalar [simp]:
  "json_height J_null = 0" "json_height (J_bool b) = 0" "json_height (J_int n) = 0" "json_height (J_float x) = 0"
  "json_height (J_str s) = 0"
  by (simp_all add: json_height.simps)

lemma check_structure_iff:
  "check_structure n v = None \<longleftrightarrow> n + json_height v \<le> 32 \<and> (\<forall>s \<in> set (json_texts v). \<not> has_nul s)"
  "check_items m d = None \<longleftrightarrow> (\<forall>(k, v) \<in> set d. m + json_height v \<le> 32) \<and> (\<forall>(k, v) \<in> set d. \<not> has_nul k \<and> (\<forall>s \<in> set (json_texts v). \<not> has_nul s))"
  "check_elements m xs = None \<longleftrightarrow> (\<forall>v \<in> set xs. m + json_height v \<le> 32) \<and> (\<forall>v \<in> set xs. \<forall>s \<in> set (json_texts v). \<not> has_nul s)"
proof (induction n v and m d and m xs rule: check_structure_check_items_check_elements.induct)
  case (1 depth d)
  then show ?case using height_within(1)[of depth d 32] by (auto simp: case_prod_beta)
next
  case (2 depth xs)
  then show ?case using height_within(2)[of depth xs 32] by auto
next
  case (6 depth k v d)
  have split: "(\<forall>(k', v') \<in> set ((k, v) # d). P k' v') \<longleftrightarrow> P k v \<and> (\<forall>(k', v') \<in> set d. P k' v')" for P by simp
  show ?case unfolding split using 6 by (cases "has_nul k"; cases "check_structure depth v") simp_all
qed (auto split: option.splits)


text \<open>The name of a collection can be the text of a UUID; then \<open>get_collection\<close> takes it for an id.\<close>

lemma uuid_like_name:
  "validate_collection_name ''0000000000000000000000000000000a'' = Inr ''0000000000000000000000000000000a''"
  "maybe_uuid ''0000000000000000000000000000000a'' \<noteq> None"
  by code_simp+


end
