(* ===== verification/Workspace_Data.thy ===== *)
theory Workspace_Data
  imports Record_Rules Team_Access "HOL-Library.Product_Lexorder" "HOL-Library.Multiset"
begin

text \<open>
  The data store of a project: collections of JSON documents with public access flags, API keys, and the two
  surfaces in front of them (\<open>services/workspace_data/store.py\<close>, \<open>keys.py\<close>, \<open>routers/workspace_data.py\<close>): the
  management routes behind the roles of \<open>Team_Access\<close>, and the public Data API behind keys and the limiter of
  \<open>Rate_Limit\<close>.

  The state is the three tables of all projects together, which is what isolation is about.  SHA-256, HMAC and
  \<open>jsonschema\<close> are arguments.  Each operation runs alone: a quota is counted and used in one step.
\<close>

subsection \<open>Tables\<close>

record data_collection =
  co_id :: uuid
  co_project :: uuid
  co_name :: string
  co_insert :: bool
  co_read :: bool
  co_update :: bool
  co_delete :: bool
  co_schema :: "json_dict option"

record data_record =
  re_id :: uuid
  re_collection :: uuid
  re_project :: uuid
  re_data :: json_dict
  re_created_at :: instant

record data_key =
  dk_id :: uuid
  dk_project :: uuid
  dk_hash :: string
  dk_name :: string
  dk_kind :: string
  dk_active :: bool

record data_store =
  ds_collections :: "data_collection list"
  ds_records :: "data_record list"
  ds_keys :: "data_key list"

text \<open>The configuration of the server and the libraries.\<close>

record data_env =
  de_sha256 :: "string \<Rightarrow> string"
  de_hmac :: "string \<Rightarrow> string \<Rightarrow> string"
  de_secret_key :: string
  de_repr :: "rat \<Rightarrow> string"
  de_schema :: schema_lib
  de_ip_capacity :: int
  de_ip_window :: int
  de_key_capacity :: int
  de_key_window :: int

subsection \<open>Collections\<close>

definition get_collection :: "data_store \<Rightarrow> uuid \<Rightarrow> string \<Rightarrow> data_collection option" where
  "get_collection st project ref =
     (case maybe_uuid ref of
        Some k \<Rightarrow> find (\<lambda>c. co_project c = project \<and> co_id c = k) (ds_collections st)
      | None \<Rightarrow> find (\<lambda>c. co_project c = project \<and> co_name c = ref) (ds_collections st))"

definition require_collection :: "data_store \<Rightarrow> uuid \<Rightarrow> string \<Rightarrow> (wd_error, data_collection) result" where
  "require_collection st project ref =
     (case get_collection st project ref of None \<Rightarrow> Inl Collection_not_found | Some c \<Rightarrow> Inr c)"

definition count_collections :: "data_store \<Rightarrow> uuid \<Rightarrow> nat" where
  "count_collections st project = length (filter (\<lambda>c. co_project c = project) (ds_collections st))"

text \<open>The last test is the unique constraint of the table: the commit raises.\<close>

definition create_collection ::
  "data_env \<Rightarrow> uuid \<Rightarrow> string \<Rightarrow> bool \<Rightarrow> bool \<Rightarrow> bool \<Rightarrow> bool \<Rightarrow> json \<Rightarrow> uuid \<Rightarrow> data_store \<Rightarrow> (wd_error, data_store) result" where
  "create_collection env project name ins rd upd del schema k st =
     (case validate_collection_name name of
        Inl e \<Rightarrow> Inl e
      | Inr cleaned \<Rightarrow>
          (case validate_collection_schema (de_schema env) schema of
             Inl e \<Rightarrow> Inl e
           | Inr s \<Rightarrow>
               if get_collection st project cleaned \<noteq> None then Inl Collection_exists
               else if 50 \<le> count_collections st project then Inl Quota_exceeded
               else if filter (\<lambda>c. co_project c = project \<and> co_name c = cleaned) (ds_collections st) \<noteq> []
               then Inl Collection_exists
               else Inr (st\<lparr>ds_collections := ds_collections st
                      @ [\<lparr>co_id = k, co_project = project, co_name = cleaned, co_insert = ins, co_read = rd,
                          co_update = upd, co_delete = del, co_schema = s\<rparr>]\<rparr>)))"

definition set_flag :: "bool option \<Rightarrow> bool \<Rightarrow> bool" where
  "set_flag new old = (case new of None \<Rightarrow> old | Some b \<Rightarrow> b)"

definition update_collection ::
  "data_env \<Rightarrow> data_collection \<Rightarrow> bool option \<Rightarrow> bool option \<Rightarrow> bool option \<Rightarrow> bool option \<Rightarrow> json option \<Rightarrow> data_store
   \<Rightarrow> (wd_error, data_store) result" where
  "update_collection env coll ins rd upd del schema st =
     (case (case schema of None \<Rightarrow> Inr (co_schema coll) | Some s \<Rightarrow> validate_collection_schema (de_schema env) s) of
        Inl e \<Rightarrow> Inl e
      | Inr s \<Rightarrow>
          Inr (st\<lparr>ds_collections := map (\<lambda>c. if co_id c = co_id coll
                 then c\<lparr>co_insert := set_flag ins (co_insert c), co_read := set_flag rd (co_read c),
                        co_update := set_flag upd (co_update c), co_delete := set_flag del (co_delete c), co_schema := s\<rparr>
                 else c) (ds_collections st)\<rparr>))"

definition delete_collection :: "data_collection \<Rightarrow> data_store \<Rightarrow> data_store" where
  "delete_collection coll st =
     st\<lparr>ds_records := filter (\<lambda>r. re_collection r \<noteq> co_id coll) (ds_records st),
        ds_collections := filter (\<lambda>c. co_id c \<noteq> co_id coll) (ds_collections st)\<rparr>"

subsection \<open>Records\<close>

definition project_record_count :: "data_store \<Rightarrow> uuid \<Rightarrow> nat" where
  "project_record_count st project = length (filter (\<lambda>r. re_project r = project) (ds_records st))"

definition insert_record ::
  "data_env \<Rightarrow> data_collection \<Rightarrow> json \<Rightarrow> uuid \<Rightarrow> instant \<Rightarrow> data_store \<Rightarrow> (wd_error, data_store \<times> data_record) result" where
  "insert_record env coll data k now st =
     (case validate_record_data (de_repr env) data of
        Inl e \<Rightarrow> Inl e
      | Inr d \<Rightarrow>
          (case validate_against_schema (de_schema env) d (co_schema coll) of
             Some e \<Rightarrow> Inl e
           | None \<Rightarrow>
               if 10000 \<le> project_record_count st (co_project coll) then Inl Quota_exceeded
               else (let r = \<lparr>re_id = k, re_collection = co_id coll, re_project = co_project coll, re_data = d, re_created_at = now\<rparr>
                     in Inr (st\<lparr>ds_records := ds_records st @ [r]\<rparr>, r))))"

text \<open>Newest first; the limit and the offset are clamped.\<close>

definition newest_first :: "data_record list \<Rightarrow> data_record list" where
  "newest_first rs = rev (sort_key (\<lambda>r. (re_created_at r, re_id r)) rs)"

definition list_records :: "data_store \<Rightarrow> uuid \<Rightarrow> int \<Rightarrow> int \<Rightarrow> data_record list \<times> nat" where
  "list_records st coll limit offset =
     (let rows = filter (\<lambda>r. re_collection r = coll) (ds_records st);
          n = max 1 (min limit 200); skip = max 0 offset
      in (take (nat n) (drop (nat skip) (newest_first rows)), length rows))"

definition get_record :: "data_store \<Rightarrow> uuid \<Rightarrow> string \<Rightarrow> data_record option" where
  "get_record st coll ref =
     (case maybe_uuid ref of
        None \<Rightarrow> None
      | Some k \<Rightarrow> find (\<lambda>r. re_collection r = coll \<and> re_id r = k) (ds_records st))"

definition update_record ::
  "data_env \<Rightarrow> data_record \<Rightarrow> json \<Rightarrow> data_collection \<Rightarrow> data_store \<Rightarrow> (wd_error, data_store \<times> data_record) result" where
  "update_record env r data coll st =
     (case validate_record_data (de_repr env) data of
        Inl e \<Rightarrow> Inl e
      | Inr d \<Rightarrow>
          (case validate_against_schema (de_schema env) d (co_schema coll) of
             Some e \<Rightarrow> Inl e
           | None \<Rightarrow> Inr (st\<lparr>ds_records := map (\<lambda>x. if re_id x = re_id r then x\<lparr>re_data := d\<rparr> else x) (ds_records st)\<rparr>,
                          r\<lparr>re_data := d\<rparr>)))"

definition delete_record :: "data_record \<Rightarrow> data_store \<Rightarrow> data_store" where
  "delete_record r st = st\<lparr>ds_records := filter (\<lambda>x. re_id x \<noteq> re_id r) (ds_records st)\<rparr>"

subsection \<open>Keys\<close>

definition hash_key :: "data_env \<Rightarrow> string \<Rightarrow> string" where
  "hash_key env raw = de_sha256 env (strip raw)"

definition key_prefix :: "string \<Rightarrow> string option" where
  "key_prefix kind =
     (if kind = ''anon'' then Some ''wsk_anon_'' else if kind = ''service'' then Some ''wsk_svc_'' else None)"

definition count_data_keys :: "data_store \<Rightarrow> uuid \<Rightarrow> nat" where
  "count_data_keys st project = length (filter (\<lambda>k. dk_project k = project) (ds_keys st))"

definition get_data_key :: "data_store \<Rightarrow> uuid \<Rightarrow> string \<Rightarrow> data_key option" where
  "get_data_key st project ref =
     (case maybe_uuid ref of
        None \<Rightarrow> None
      | Some k \<Rightarrow> find (\<lambda>x. dk_id x = k \<and> dk_project x = project) (ds_keys st))"

text \<open>A key row, unless the unique hash is taken: then the commit raises.\<close>

definition add_key :: "data_key \<Rightarrow> data_store \<Rightarrow> data_store option" where
  "add_key key st =
     (if find (\<lambda>x. dk_hash x = dk_hash key) (ds_keys st) = None then Some (st\<lparr>ds_keys := ds_keys st @ [key]\<rparr>) else None)"

text \<open>The new store and the raw key; \<open>token\<close> is the random part.\<close>

definition create_data_key ::
  "data_env \<Rightarrow> uuid \<Rightarrow> string \<Rightarrow> string \<Rightarrow> uuid \<Rightarrow> string \<Rightarrow> data_store \<Rightarrow> (wd_error, data_store \<times> string) result" where
  "create_data_key env project name kind k token st =
     (case key_prefix kind of
        None \<Rightarrow> Inl wd_error.Invalid_key
      | Some pre \<Rightarrow>
          if strip name = [] \<or> 100 < length (strip name) then Inl wd_error.Invalid_key
          else if 20 \<le> count_data_keys st project then Inl Quota_exceeded
          else (let raw = pre @ token
                in case add_key \<lparr>dk_id = k, dk_project = project, dk_hash = hash_key env raw, dk_name = strip name,
                                 dk_kind = kind, dk_active = True\<rparr> st of
                     None \<Rightarrow> Inl Integrity_error
                   | Some st' \<Rightarrow> Inr (st', raw)))"

text \<open>\<open>None\<close> where the code answers \<open>False\<close>.\<close>

definition revoke_data_key :: "uuid \<Rightarrow> string \<Rightarrow> data_store \<Rightarrow> data_store option" where
  "revoke_data_key project ref st =
     (case get_data_key st project ref of
        None \<Rightarrow> None
      | Some key \<Rightarrow>
          if \<not> dk_active key then None
          else Some (st\<lparr>ds_keys := map (\<lambda>x. if dk_id x = dk_id key then x\<lparr>dk_active := False\<rparr> else x) (ds_keys st)\<rparr>))"

definition resolve_data_key :: "data_env \<Rightarrow> data_store \<Rightarrow> string \<Rightarrow> data_key option" where
  "resolve_data_key env st raw =
     (let r = strip raw
      in if r = [] then None else find (\<lambda>k. dk_hash k = hash_key env r \<and> dk_active k) (ds_keys st))"

text \<open>The old keys are deleted and committed before the new one is minted.\<close>

definition rotate_deploy_key ::
  "data_env \<Rightarrow> uuid \<Rightarrow> uuid \<Rightarrow> string \<Rightarrow> data_store \<Rightarrow> data_store \<times> (wd_error, string) result" where
  "rotate_deploy_key env project k token st =
     (let st1 = st\<lparr>ds_keys := filter (\<lambda>x. \<not> (dk_project x = project \<and> dk_active x \<and> dk_name x = ''deploy'')) (ds_keys st)\<rparr>
      in case create_data_key env project ''deploy'' ''anon'' k token st1 of
           Inl e \<Rightarrow> (st1, Inl e)
         | Inr (st2, raw) \<Rightarrow> (st2, Inr raw))"

definition derive_autoinject_raw :: "data_env \<Rightarrow> uuid \<Rightarrow> (wd_error, string) result" where
  "derive_autoinject_raw env project =
     (if de_secret_key env = [] then Inl wd_error.Invalid_key
      else Inr (''wsk_anon_'' @ take 48 (de_hmac env (de_secret_key env) (''workspace-data:autoinject:v1:'' @ uuid_str project))))"

definition get_or_create_autoinject_key ::
  "data_env \<Rightarrow> uuid \<Rightarrow> uuid \<Rightarrow> data_store \<Rightarrow> data_store \<times> (wd_error, string) result" where
  "get_or_create_autoinject_key env project k st =
     (case derive_autoinject_raw env project of
        Inl e \<Rightarrow> (st, Inl e)
      | Inr raw \<Rightarrow>
          if find (\<lambda>x. dk_project x = project \<and> dk_hash x = hash_key env raw) (ds_keys st) \<noteq> None then (st, Inr raw)
          else (case add_key \<lparr>dk_id = k, dk_project = project, dk_hash = hash_key env raw,
                              dk_name = ''__tesslate_autoinject__'', dk_kind = ''anon'', dk_active = True\<rparr> st of
                  None \<Rightarrow> (st, Inr raw)
                | Some st' \<Rightarrow> (st', Inr raw)))"

subsection \<open>The Data API\<close>

datatype auth_error = Too_many_requests int | Missing_api_key | Invalid_api_key

definition authenticate_data_key ::
  "'s pipeline \<Rightarrow> data_env \<Rightarrow> bool \<Rightarrow> instant \<Rightarrow> string \<Rightarrow> string option \<Rightarrow> data_store \<Rightarrow> 's limiter
   \<Rightarrow> 's limiter \<times> (auth_error, data_key) result" where
  "authenticate_data_key redis env up now ip header st l =
     (case check_and_consume redis up now ''wsdata:ip'' ip (de_ip_capacity env) (de_ip_window env) l of
        (l1, allowed, remaining, reset) \<Rightarrow>
          if \<not> allowed then (l1, Inl (Too_many_requests reset))
          else (case header of
                  None \<Rightarrow> (l1, Inl Missing_api_key)
                | Some h \<Rightarrow>
                    if h = [] then (l1, Inl Missing_api_key)
                    else (let raw = (if take 7 h = ''Bearer '' then drop 7 h else h)
                          in case resolve_data_key env st raw of
                               None \<Rightarrow> (l1, Inl Invalid_api_key)
                             | Some key \<Rightarrow>
                                 (case check_and_consume redis up now ''wsdata:key'' (uuid_str (dk_id key))
                                         (de_key_capacity env) (de_key_window env) l1 of
                                    (l2, allowed2, remaining2, reset2) \<Rightarrow>
                                      if \<not> allowed2 then (l2, Inl (Too_many_requests reset2)) else (l2, Inr key)))))"

datatype data_op =
    Data_insert json_dict
  | Data_list int int
  | Data_get string
  | Data_update string json_dict
  | Data_delete string

datatype data_response =
    Record_out data_record
  | Page_out "data_record list" nat
  | No_content
  | Not_accessible
  | No_such_record
  | Store_error wd_error

text \<open>The flag an operation needs, and \<open>_enforce\<close>.\<close>

fun op_flag :: "data_op \<Rightarrow> data_collection \<Rightarrow> bool" where
  "op_flag (Data_insert d) c = co_insert c"
| "op_flag (Data_list limit offset) c = co_read c"
| "op_flag (Data_get ref) c = co_read c"
| "op_flag (Data_update ref d) c = co_update c"
| "op_flag (Data_delete ref) c = co_delete c"

definition enforce :: "data_key \<Rightarrow> data_collection \<Rightarrow> data_op \<Rightarrow> bool" where
  "enforce key c op \<longleftrightarrow> dk_kind key = ''service'' \<or> op_flag op c"

fun data_action ::
  "data_env \<Rightarrow> instant \<Rightarrow> uuid \<Rightarrow> data_collection \<Rightarrow> data_op \<Rightarrow> data_store \<Rightarrow> data_store \<times> data_response" where
  "data_action env now k c (Data_insert d) st =
     (case insert_record env c (J_obj d) k now st of Inl e \<Rightarrow> (st, Store_error e) | Inr (st', r) \<Rightarrow> (st', Record_out r))"
| "data_action env now k c (Data_list limit offset) st =
     (case list_records st (co_id c) limit offset of (rs, n) \<Rightarrow> (st, Page_out rs n))"
| "data_action env now k c (Data_get ref) st =
     (case get_record st (co_id c) ref of None \<Rightarrow> (st, No_such_record) | Some r \<Rightarrow> (st, Record_out r))"
| "data_action env now k c (Data_update ref d) st =
     (case get_record st (co_id c) ref of
        None \<Rightarrow> (st, No_such_record)
      | Some r \<Rightarrow> (case update_record env r (J_obj d) c st of Inl e \<Rightarrow> (st, Store_error e) | Inr (st', r') \<Rightarrow> (st', Record_out r')))"
| "data_action env now k c (Data_delete ref) st =
     (case get_record st (co_id c) ref of None \<Rightarrow> (st, No_such_record) | Some r \<Rightarrow> (delete_record r st, No_content))"

definition data_route ::
  "data_env \<Rightarrow> instant \<Rightarrow> uuid \<Rightarrow> data_key \<Rightarrow> string \<Rightarrow> data_op \<Rightarrow> data_store \<Rightarrow> data_store \<times> data_response" where
  "data_route env now k key ref op st =
     (case get_collection st (dk_project key) ref of
        None \<Rightarrow> (st, Not_accessible)
      | Some c \<Rightarrow> if \<not> enforce key c op then (st, Not_accessible) else data_action env now k c op st)"

subsection \<open>The management routes\<close>

datatype mgmt_error = Denied team_error | Bad_ref | Key_not_found | Refused wd_error

datatype mgmt_op =
    Create_collection string bool bool bool bool json uuid
  | Update_collection string "bool option" "bool option" "bool option" "bool option" "json option"
  | Delete_collection string
  | Delete_record string string
  | Create_key string string uuid string
  | Revoke_key string

text \<open>\<open>_require_uuid\<close> guards the two deletions.\<close>

fun mgmt_action :: "data_env \<Rightarrow> uuid \<Rightarrow> mgmt_op \<Rightarrow> data_store \<Rightarrow> (mgmt_error, data_store) result" where
  "mgmt_action env project (Create_collection name ins rd upd del schema k) st =
     (case create_collection env project name ins rd upd del schema k st of Inl e \<Rightarrow> Inl (Refused e) | Inr st' \<Rightarrow> Inr st')"
| "mgmt_action env project (Update_collection ref ins rd upd del schema) st =
     (case require_collection st project ref of
        Inl e \<Rightarrow> Inl (Refused e)
      | Inr c \<Rightarrow> (case update_collection env c ins rd upd del schema st of Inl e \<Rightarrow> Inl (Refused e) | Inr st' \<Rightarrow> Inr st'))"
| "mgmt_action env project (Delete_collection ref) st =
     (if maybe_uuid ref = None then Inl Bad_ref
      else (case require_collection st project ref of Inl e \<Rightarrow> Inl (Refused e) | Inr c \<Rightarrow> Inr (delete_collection c st)))"
| "mgmt_action env project (Delete_record ref rec_ref) st =
     (if maybe_uuid ref = None \<or> maybe_uuid rec_ref = None then Inl Bad_ref
      else (case require_collection st project ref of
              Inl e \<Rightarrow> Inl (Refused e)
            | Inr c \<Rightarrow> (case get_record st (co_id c) rec_ref of
                          None \<Rightarrow> Inl (Refused Record_not_found) | Some r \<Rightarrow> Inr (delete_record r st))))"
| "mgmt_action env project (Create_key name kind k token) st =
     (case create_data_key env project name kind k token st of Inl e \<Rightarrow> Inl (Refused e) | Inr (st', raw) \<Rightarrow> Inr st')"
| "mgmt_action env project (Revoke_key ref) st =
     (case revoke_data_key project ref st of None \<Rightarrow> Inl Key_not_found | Some st' \<Rightarrow> Inr st')"

definition mgmt_route ::
  "data_env \<Rightarrow> directory \<Rightarrow> uuid \<Rightarrow> string \<Rightarrow> mgmt_op \<Rightarrow> data_store \<Rightarrow> (mgmt_error, data_store) result" where
  "mgmt_route env db caller slug op st =
     (case get_project_with_access db slug caller PROJECT_EDIT of
        Inl e \<Rightarrow> Inl (Denied e)
      | Inr (project, role) \<Rightarrow> mgmt_action env (pj_id project) op st)"

subsection \<open>Runs\<close>

text \<open>Any requests on any projects; the directory is the one of the moment.\<close>

datatype ws_op =
    Manage directory uuid string mgmt_op
  | Data_request instant uuid string string data_op
  | Rotate_deploy uuid uuid string
  | Autoinject uuid uuid

text \<open>A Data API request with a raw key, past the limiter.\<close>

fun ws_step :: "data_env \<Rightarrow> ws_op \<Rightarrow> data_store \<Rightarrow> data_store" where
  "ws_step env (Manage db caller slug op) st = (case mgmt_route env db caller slug op st of Inl _ \<Rightarrow> st | Inr st' \<Rightarrow> st')"
| "ws_step env (Data_request now k raw ref op) st =
     (case resolve_data_key env st raw of None \<Rightarrow> st | Some key \<Rightarrow> fst (data_route env now k key ref op st))"
| "ws_step env (Rotate_deploy project k token) st = fst (rotate_deploy_key env project k token st)"
| "ws_step env (Autoinject project k) st = fst (get_or_create_autoinject_key env project k st)"

definition ws_run :: "data_env \<Rightarrow> ws_op list \<Rightarrow> data_store \<Rightarrow> data_store" where
  "ws_run env ops st = fold (ws_step env) ops st"

section \<open>The store stays well-formed\<close>

definition name_ok :: "string \<Rightarrow> bool" where
  "name_ok n \<longleftrightarrow> n \<noteq> [] \<and> is_alnum (hd n) \<and> length n \<le> 64 \<and> list_all name_char (tl n) \<and> map ascii_lower n \<noteq> ''collections''"

lemma valid_name: "validate_collection_name name = Inr n \<Longrightarrow> name_ok n"
  by (auto simp: validate_collection_name_def Let_def name_ok_def split: if_splits)

text \<open>The keys a user minted, all but the injected one.\<close>

definition minted_keys :: "data_env \<Rightarrow> data_store \<Rightarrow> uuid \<Rightarrow> data_key list" where
  "minted_keys env st project =
     filter (\<lambda>x. dk_project x = project
        \<and> (case derive_autoinject_raw env project of Inl _ \<Rightarrow> True | Inr raw \<Rightarrow> dk_hash x \<noteq> hash_key env raw)) (ds_keys st)"

definition tables_ok :: "data_store \<Rightarrow> bool" where
  "tables_ok st \<longleftrightarrow> distinct (map co_id (ds_collections st)) \<and> distinct (map re_id (ds_records st))
     \<and> distinct (map dk_id (ds_keys st)) \<and> distinct (map dk_hash (ds_keys st))
     \<and> distinct (map (\<lambda>c. (co_project c, co_name c)) (ds_collections st))
     \<and> (\<forall>r \<in> set (ds_records st). \<exists>c \<in> set (ds_collections st). co_id c = re_collection r \<and> co_project c = re_project r)"

definition quotas_ok :: "data_env \<Rightarrow> data_store \<Rightarrow> bool" where
  "quotas_ok env st \<longleftrightarrow> (\<forall>p. count_collections st p \<le> 50 \<and> project_record_count st p \<le> 10000 \<and> length (minted_keys env st p) \<le> 20)"

definition contents_ok :: "data_env \<Rightarrow> data_store \<Rightarrow> bool" where
  "contents_ok env st \<longleftrightarrow> (\<forall>c \<in> set (ds_collections st). name_ok (co_name c))
     \<and> (\<forall>r \<in> set (ds_records st). validate_record_data (de_repr env) (J_obj (re_data r)) = Inr (re_data r))"

definition store_ok :: "data_env \<Rightarrow> data_store \<Rightarrow> bool" where
  "store_ok env st \<longleftrightarrow> tables_ok st \<and> quotas_ok env st \<and> contents_ok env st"

text \<open>New ids are new.\<close>

definition new_id :: "uuid \<Rightarrow> data_store \<Rightarrow> bool" where
  "new_id k st \<longleftrightarrow> k \<notin> co_id ` set (ds_collections st) \<and> k \<notin> re_id ` set (ds_records st) \<and> k \<notin> dk_id ` set (ds_keys st)"

fun ws_new :: "ws_op \<Rightarrow> data_store \<Rightarrow> bool" where
  "ws_new (Manage db caller slug (Create_collection name ins rd upd del schema k)) st = new_id k st"
| "ws_new (Manage db caller slug (Create_key name kind k token)) st = new_id k st"
| "ws_new (Manage db caller slug _) st = True"
| "ws_new (Data_request now k raw ref op) st = new_id k st"
| "ws_new (Rotate_deploy project k token) st = new_id k st"
| "ws_new (Autoinject project k) st = new_id k st"

fun ws_run_new :: "data_env \<Rightarrow> ws_op list \<Rightarrow> data_store \<Rightarrow> bool" where
  "ws_run_new env [] st \<longleftrightarrow> True"
| "ws_run_new env (op # ops) st \<longleftrightarrow> ws_new op st \<and> ws_run_new env ops (ws_step env op st)"

lemma valid_document: "validate_record_data repr data = Inr d \<Longrightarrow> validate_record_data repr (J_obj d) = Inr d"
  by (auto simp: validate_record_data_def split: json.splits if_splits option.splits)

lemma create_collection_ok:
  assumes "store_ok env st" "new_id k st" "create_collection env p name ins rd upd del schema k st = Inr st'"
  shows "store_ok env st'"
proof -
  obtain cleaned s where c: "validate_collection_name name = Inr cleaned" "count_collections st p < 50"
    "filter (\<lambda>c. co_project c = p \<and> co_name c = cleaned) (ds_collections st) = []"
    and st': "st' = st\<lparr>ds_collections := ds_collections st
                      @ [\<lparr>co_id = k, co_project = p, co_name = cleaned, co_insert = ins, co_read = rd,
                          co_update = upd, co_delete = del, co_schema = s\<rparr>]\<rparr>"
    using assms(3) by (auto simp: create_collection_def not_le split: sum.split_asm if_split_asm)
  have "(p, cleaned) \<notin> (\<lambda>c. (co_project c, co_name c)) ` set (ds_collections st)"
    using c(3) by (auto simp: filter_empty_conv)
  then have "tables_ok st'" using assms(1,2) by (auto simp: st' store_ok_def tables_ok_def new_id_def)
  moreover have "quotas_ok env st'"
    using assms(1) c(2) by (auto simp: st' store_ok_def quotas_ok_def count_collections_def project_record_count_def minted_keys_def)
  moreover have "contents_ok env st'"
    using assms(1) valid_name[OF c(1)] by (auto simp: st' store_ok_def contents_ok_def)
  ultimately show ?thesis by (simp add: store_ok_def)
qed

lemma update_collection_ok:
  assumes "store_ok env st" "update_collection env c ins rd upd del schema st = Inr st'"
  shows "store_ok env st'"
proof -
  let ?f = "\<lambda>s x. if co_id x = co_id c then x\<lparr>co_insert := set_flag ins (co_insert x), co_read := set_flag rd (co_read x),
                        co_update := set_flag upd (co_update x), co_delete := set_flag del (co_delete x), co_schema := s\<rparr> else x"
  obtain s where st': "st' = st\<lparr>ds_collections := map (?f s) (ds_collections st)\<rparr>"
    using assms(2) by (auto simp: update_collection_def split: sum.split_asm)
  have keys: "co_id (?f s x) = co_id x" "co_project (?f s x) = co_project x" "co_name (?f s x) = co_name x" for x by simp_all
  have cols_eq: "ds_collections st' = map (?f s) (ds_collections st)" by (simp add: st')
  have cols: "map co_id (ds_collections st') = map co_id (ds_collections st)"
    "map (\<lambda>c. (co_project c, co_name c)) (ds_collections st') = map (\<lambda>c. (co_project c, co_name c)) (ds_collections st)"
    unfolding st' by simp_all
  have same: "(\<exists>x \<in> set (ds_collections st'). P (co_id x) (co_project x) (co_name x)) \<longleftrightarrow> (\<exists>x \<in> set (ds_collections st). P (co_id x) (co_project x) (co_name x))" for P
    unfolding cols_eq by (simp only: set_map bex_simps keys)
  have count: "count_collections st' p = count_collections st p" for p
    unfolding count_collections_def st' by (simp add: filter_map comp_def keys)
  have rest: "ds_records st' = ds_records st" "ds_keys st' = ds_keys st" by (simp_all add: st')
  have "tables_ok st'"
    using assms(1) unfolding store_ok_def tables_ok_def cols rest same[of "\<lambda>i p n. i = re_collection r \<and> p = re_project r" for r]
    by blast
  moreover have "quotas_ok env st'"
    using assms(1) by (simp add: store_ok_def quotas_ok_def count project_record_count_def minted_keys_def rest)
  moreover have "contents_ok env st'"
    using assms(1) same[of "\<lambda>i p n. \<not> name_ok n"] by (auto simp: store_ok_def contents_ok_def rest)
  ultimately show ?thesis by (simp add: store_ok_def)
qed

lemma filter_length_le:
  "length (filter (\<lambda>x. Q x \<and> P x) xs) \<le> length (filter P xs)" "length (filter P (filter Q xs)) \<le> length (filter P xs)"
  by (induction xs) auto

lemma delete_collection_ok: "store_ok env st \<Longrightarrow> store_ok env (delete_collection c st)"
proof -
  assume ok: "store_ok env st"
  have "tables_ok (delete_collection c st)"
    using ok by (auto simp: delete_collection_def store_ok_def tables_ok_def distinct_map_filter) metis
  moreover have "quotas_ok env (delete_collection c st)"
    using ok by (auto simp: delete_collection_def store_ok_def quotas_ok_def count_collections_def project_record_count_def
        minted_keys_def intro: order_trans[OF filter_length_le(1)] order_trans[OF filter_length_le(2)])
  moreover have "contents_ok env (delete_collection c st)"
    using ok by (auto simp: delete_collection_def store_ok_def contents_ok_def)
  ultimately show ?thesis by (simp add: store_ok_def)
qed

lemma delete_record_ok: "store_ok env st \<Longrightarrow> store_ok env (delete_record r st)"
proof -
  assume ok: "store_ok env st"
  have "tables_ok (delete_record r st)"
    using ok by (auto simp: delete_record_def store_ok_def tables_ok_def distinct_map_filter)
  moreover have "quotas_ok env (delete_record r st)"
    using ok by (auto simp: delete_record_def store_ok_def quotas_ok_def count_collections_def project_record_count_def
        minted_keys_def intro: order_trans[OF filter_length_le(1)] order_trans[OF filter_length_le(2)])
  moreover have "contents_ok env (delete_record r st)"
    using ok by (auto simp: delete_record_def store_ok_def contents_ok_def)
  ultimately show ?thesis by (simp add: store_ok_def)
qed

lemma insert_record_cases:
  assumes "insert_record env c data k now st = Inr (st', r)"
  obtains d where "validate_record_data (de_repr env) data = Inr d" "project_record_count st (co_project c) < 10000"
    "r = \<lparr>re_id = k, re_collection = co_id c, re_project = co_project c, re_data = d, re_created_at = now\<rparr>"
    "st' = st\<lparr>ds_records := ds_records st @ [r]\<rparr>"
  using assms by (auto simp: insert_record_def Let_def not_le split: sum.split_asm option.split_asm if_split_asm)

lemma insert_record_ok:
  assumes "store_ok env st" "new_id k st" "c \<in> set (ds_collections st)" "insert_record env c data k now st = Inr (st', r)"
  shows "store_ok env st'"
proof -
  from assms(4) obtain d where d: "validate_record_data (de_repr env) data = Inr d" "project_record_count st (co_project c) < 10000"
    "r = \<lparr>re_id = k, re_collection = co_id c, re_project = co_project c, re_data = d, re_created_at = now\<rparr>"
    and st': "st' = st\<lparr>ds_records := ds_records st @ [r]\<rparr>"
    by (rule insert_record_cases)
  have "tables_ok st'" using assms(1-3) by (auto simp: st' d(3) store_ok_def tables_ok_def new_id_def)
  moreover have "quotas_ok env st'"
    using assms(1) d(2) by (auto simp: st' d(3) store_ok_def quotas_ok_def count_collections_def project_record_count_def minted_keys_def)
  moreover have "contents_ok env st'"
    using assms(1) valid_document[OF d(1)] by (auto simp: st' d(3) store_ok_def contents_ok_def)
  ultimately show ?thesis by (simp add: store_ok_def)
qed

lemma update_record_cases:
  assumes "update_record env r data c st = Inr (st', r')"
  obtains d where "validate_record_data (de_repr env) data = Inr d" "r' = r\<lparr>re_data := d\<rparr>"
    "ds_records st' = map (\<lambda>x. if re_id x = re_id r then x\<lparr>re_data := d\<rparr> else x) (ds_records st)"
    "ds_collections st' = ds_collections st" "ds_keys st' = ds_keys st"
  using assms by (auto simp: update_record_def split: sum.split_asm option.split_asm)

lemma update_record_ok:
  assumes "store_ok env st" "update_record env r data c st = Inr (st', r')"
  shows "store_ok env st'"
proof -
  from assms(2) obtain d where d: "validate_record_data (de_repr env) data = Inr d" "r' = r\<lparr>re_data := d\<rparr>"
    and recs: "ds_records st' = map (\<lambda>x. if re_id x = re_id r then x\<lparr>re_data := d\<rparr> else x) (ds_records st)"
    and rest: "ds_collections st' = ds_collections st" "ds_keys st' = ds_keys st"
    by (rule update_record_cases)
  let ?f = "\<lambda>x. if re_id x = re_id r then x\<lparr>re_data := d\<rparr> else x"
  have keys: "re_id (?f x) = re_id x" "re_collection (?f x) = re_collection x" "re_project (?f x) = re_project x" for x by simp_all
  have ids: "map re_id (ds_records st') = map re_id (ds_records st)" unfolding recs by simp
  have refs: "(\<forall>x \<in> set (ds_records st'). P (re_collection x) (re_project x)) \<longleftrightarrow> (\<forall>x \<in> set (ds_records st). P (re_collection x) (re_project x))" for P
    unfolding recs by (simp only: set_map ball_simps keys)
  have "tables_ok st'"
    using assms(1) unfolding store_ok_def tables_ok_def ids rest
      refs[of "\<lambda>i p. \<exists>c \<in> set (ds_collections st). co_id c = i \<and> co_project c = p"] by blast
  moreover have "project_record_count st' p = project_record_count st p" for p
    unfolding project_record_count_def recs by (simp add: filter_map comp_def keys)
  then have "quotas_ok env st'"
    using assms(1) by (simp add: store_ok_def quotas_ok_def count_collections_def minted_keys_def rest)
  moreover have "validate_record_data (de_repr env) (J_obj (re_data y)) = Inr (re_data y)" if y: "y \<in> set (ds_records st')" for y
  proof -
    obtain x where "y = ?f x" "x \<in> set (ds_records st)" using y unfolding recs set_map by (rule imageE)
    with assms(1) valid_document[OF d(1)] show ?thesis by (cases "re_id x = re_id r") (auto simp: store_ok_def contents_ok_def)
  qed
  then have "contents_ok env st'" using assms(1) by (simp add: store_ok_def contents_ok_def rest)
  ultimately show ?thesis by (simp add: store_ok_def)
qed

lemma add_key_ok:
  assumes "store_ok env st" "dk_id key \<notin> dk_id ` set (ds_keys st)" "add_key key st = Some st'"
    and "\<forall>p. length (minted_keys env (st\<lparr>ds_keys := ds_keys st @ [key]\<rparr>) p) \<le> 20"
  shows "store_ok env st'"
proof -
  have st': "st' = st\<lparr>ds_keys := ds_keys st @ [key]\<rparr>" and new: "dk_hash key \<notin> dk_hash ` set (ds_keys st)"
    using assms(3) by (auto simp: add_key_def find_None_iff split: if_splits)
  have "tables_ok st'" using assms(1,2) new by (auto simp: st' store_ok_def tables_ok_def)
  moreover have "quotas_ok env st'"
    using assms(1,4) by (simp add: st' store_ok_def quotas_ok_def count_collections_def project_record_count_def)
  moreover have "contents_ok env st'" using assms(1) by (simp add: st' store_ok_def contents_ok_def)
  ultimately show ?thesis by (simp add: store_ok_def)
qed

lemma create_data_key_cases:
  assumes "create_data_key env p name kind k token st = Inr (st', raw)"
  obtains pre where "key_prefix kind = Some pre" "raw = pre @ token" "count_data_keys st p < 20"
    "add_key \<lparr>dk_id = k, dk_project = p, dk_hash = hash_key env raw, dk_name = strip name, dk_kind = kind, dk_active = True\<rparr> st = Some st'"
  using assms by (auto simp: create_data_key_def Let_def not_le split: option.split_asm if_split_asm)

lemma minted_le: "length (minted_keys env st p) \<le> count_data_keys st p"
proof -
  have "length (filter (\<lambda>x. P x \<and> Q x) xs) \<le> length (filter P xs)" for P Q and xs :: "data_key list"
    by (induction xs) auto
  then show ?thesis unfolding minted_keys_def count_data_keys_def .
qed

lemma minted_append:
  "length (minted_keys env (st\<lparr>ds_keys := ds_keys st @ [key]\<rparr>) p) \<le> length (minted_keys env st p) + (if dk_project key = p then 1 else 0)"
  by (simp add: minted_keys_def)

lemma create_data_key_ok:
  assumes "store_ok env st" "new_id k st" "create_data_key env p name kind k token st = Inr (st', raw)"
  shows "store_ok env st'"
proof -
  let ?key = "\<lparr>dk_id = k, dk_project = p, dk_hash = hash_key env raw, dk_name = strip name, dk_kind = kind, dk_active = True\<rparr>"
  from assms(3) obtain pre where c: "key_prefix kind = Some pre" "raw = pre @ token" "count_data_keys st p < 20"
    and add: "add_key ?key st = Some st'"
    by (rule create_data_key_cases)
  show ?thesis
  proof (rule add_key_ok[OF assms(1) _ add])
    show "dk_id ?key \<notin> dk_id ` set (ds_keys st)" using assms(2) by (simp add: new_id_def)
    show "\<forall>q. length (minted_keys env (st\<lparr>ds_keys := ds_keys st @ [?key]\<rparr>) q) \<le> 20"
    proof
      fix q
      have "length (minted_keys env st q) \<le> 20" using assms(1) by (simp add: store_ok_def quotas_ok_def)
      then show "length (minted_keys env (st\<lparr>ds_keys := ds_keys st @ [?key]\<rparr>) q) \<le> 20"
        using minted_append[of env st ?key q] minted_le[of env st p] c(3) by (cases "q = p") auto
    qed
  qed
qed

lemma keys_sub_ok:
  assumes "store_ok env st"
  shows "store_ok env (st\<lparr>ds_keys := filter P (ds_keys st)\<rparr>)"
proof -
  have "length (minted_keys env (st\<lparr>ds_keys := filter P (ds_keys st)\<rparr>) p) \<le> length (minted_keys env st p)" for p
    unfolding minted_keys_def using filter_length_le(2)[where xs = "ds_keys st"] by (simp del: filter_filter)
  then have "length (minted_keys env (st\<lparr>ds_keys := filter P (ds_keys st)\<rparr>) p) \<le> 20" for p
    using assms by (meson order_trans quotas_ok_def store_ok_def)
  then show ?thesis
    using assms by (simp add: store_ok_def quotas_ok_def tables_ok_def contents_ok_def distinct_map_filter
        count_collections_def project_record_count_def)
qed

lemma revoke_cases:
  assumes "revoke_data_key p ref st = Some st'"
  obtains key where "get_data_key st p ref = Some key" "dk_active key"
    "st' = st\<lparr>ds_keys := map (\<lambda>x. if dk_id x = dk_id key then x\<lparr>dk_active := False\<rparr> else x) (ds_keys st)\<rparr>"
proof (cases "get_data_key st p ref")
  case (Some key)
  with assms that[of key] show thesis by (simp add: revoke_data_key_def split: if_split_asm)
qed (use assms in \<open>simp add: revoke_data_key_def\<close>)

lemma revoke_data_key_ok:
  assumes "store_ok env st" "revoke_data_key p ref st = Some st'"
  shows "store_ok env st'"
proof -
  obtain key where "get_data_key st p ref = Some key" "dk_active key"
    and st': "st' = st\<lparr>ds_keys := map (\<lambda>x. if dk_id x = dk_id key then x\<lparr>dk_active := False\<rparr> else x) (ds_keys st)\<rparr>"
    using assms(2) by (rule revoke_cases)
  let ?f = "\<lambda>x. if dk_id x = dk_id key then x\<lparr>dk_active := False\<rparr> else x"
  have keys: "ds_keys st' = map ?f (ds_keys st)" and rest: "ds_collections st' = ds_collections st" "ds_records st' = ds_records st"
    by (simp_all add: st')
  have same: "dk_id (?f x) = dk_id x" "dk_hash (?f x) = dk_hash x" "dk_project (?f x) = dk_project x" for x by simp_all
  have cols: "map dk_id (ds_keys st') = map dk_id (ds_keys st)" "map dk_hash (ds_keys st') = map dk_hash (ds_keys st)"
    unfolding keys by simp_all
  have "length (minted_keys env st' p) = length (minted_keys env st p)" for p
    unfolding minted_keys_def keys by (simp only: filter_map length_map comp_def same)
  then show ?thesis
    using assms(1) unfolding store_ok_def tables_ok_def quotas_ok_def contents_ok_def cols rest count_collections_def project_record_count_def
    by simp
qed

lemma autoinject_ok:
  assumes "store_ok env st" "new_id k st"
  shows "store_ok env (fst (get_or_create_autoinject_key env p k st))"
proof (cases "derive_autoinject_raw env p")
  case (Inr raw)
  let ?key = "\<lparr>dk_id = k, dk_project = p, dk_hash = hash_key env raw,
                dk_name = ''__tesslate_autoinject__'', dk_kind = ''anon'', dk_active = True\<rparr>"
  have "length (minted_keys env (st\<lparr>ds_keys := ds_keys st @ [?key]\<rparr>) q) = length (minted_keys env st q)" for q
    using Inr by (cases "q = p") (simp_all add: minted_keys_def)
  then have bound: "\<forall>q. length (minted_keys env (st\<lparr>ds_keys := ds_keys st @ [?key]\<rparr>) q) \<le> 20"
    using assms(1) by (simp add: store_ok_def quotas_ok_def)
  have new: "dk_id ?key \<notin> dk_id ` set (ds_keys st)" using assms(2) by (simp add: new_id_def)
  show ?thesis
    using add_key_ok[OF assms(1) new _ bound] assms(1)
    by (auto simp: get_or_create_autoinject_key_def Inr split: option.split)
qed (use assms in \<open>simp add: get_or_create_autoinject_key_def\<close>)

lemma rotate_deploy_ok:
  assumes "store_ok env st" "new_id k st"
  shows "store_ok env (fst (rotate_deploy_key env p k token st))"
proof -
  let ?st1 = "st\<lparr>ds_keys := filter (\<lambda>x. \<not> (dk_project x = p \<and> dk_active x \<and> dk_name x = ''deploy'')) (ds_keys st)\<rparr>"
  have ok1: "store_ok env ?st1" by (rule keys_sub_ok[OF assms(1)])
  have "new_id k ?st1" using assms(2) by (auto simp: new_id_def)
  then have "store_ok env st2" if "create_data_key env p ''deploy'' ''anon'' k token ?st1 = Inr (st2, raw)" for st2 raw
    using create_data_key_ok[OF ok1 _ that] by blast
  with ok1 show ?thesis
    by (cases "create_data_key env p ''deploy'' ''anon'' k token ?st1") (auto simp: rotate_deploy_key_def Let_def simp del: filter_filter)
qed

lemma get_collection_in: "get_collection st p ref = Some c \<Longrightarrow> c \<in> set (ds_collections st) \<and> co_project c = p"
  by (auto simp: get_collection_def dest!: find_SomeD split: option.split_asm)

lemma get_record_in: "get_record st coll ref = Some r \<Longrightarrow> r \<in> set (ds_records st) \<and> re_collection r = coll"
  by (auto simp: get_record_def dest!: find_SomeD split: option.split_asm)

lemma data_route_ok:
  assumes "store_ok env st" "new_id k st"
  shows "store_ok env (fst (data_route env now k key ref op st))"
proof (cases "\<exists>c. get_collection st (dk_project key) ref = Some c \<and> enforce key c op")
  case True
  then obtain c where c: "get_collection st (dk_project key) ref = Some c" "enforce key c op" by blast
  note mem = get_collection_in[OF c(1), THEN conjunct1]
  have "store_ok env (fst (data_action env now k c op st))"
  proof (cases op)
    case (Data_insert d)
    then show ?thesis using insert_record_ok[OF assms mem] assms(1) by (auto split: sum.split)
  next
    case (Data_update r_ref d)
    then show ?thesis using update_record_ok[OF assms(1)] assms(1) by (auto split: sum.split option.split)
  next
    case (Data_delete r_ref)
    then show ?thesis using delete_record_ok[OF assms(1)] assms(1) by (auto split: option.split)
  qed (use assms(1) in \<open>auto split: option.split prod.split\<close>)
  with c show ?thesis by (simp add: data_route_def)
qed (use assms(1) in \<open>auto simp: data_route_def split: option.split\<close>)

lemma mgmt_action_ok:
  assumes "store_ok env st" "ws_new (Manage db caller slug op) st" "mgmt_action env p op st = Inr st'"
  shows "store_ok env st'"
proof (cases op)
  case (Create_collection name ins rd upd del schema k)
  with assms show ?thesis using create_collection_ok[OF assms(1)] by (auto split: sum.split_asm)
next
  case (Update_collection ref ins rd upd del schema)
  with assms(3) show ?thesis using update_collection_ok[OF assms(1)] by (auto split: sum.split_asm)
next
  case (Delete_collection ref)
  with assms(3) show ?thesis using delete_collection_ok[OF assms(1)] by (auto split: sum.split_asm if_split_asm)
next
  case (Delete_record ref rec_ref)
  with assms(3) show ?thesis using delete_record_ok[OF assms(1)] by (auto split: sum.split_asm if_split_asm option.split_asm)
next
  case (Create_key name kind k token)
  with assms show ?thesis using create_data_key_ok[OF assms(1)] by (auto split: sum.split_asm)
next
  case (Revoke_key ref)
  with assms(3) show ?thesis using revoke_data_key_ok[OF assms(1)] by (auto split: option.split_asm)
qed

lemma ws_step_ok:
  assumes "store_ok env st" "ws_new op st"
  shows "store_ok env (ws_step env op st)"
proof (cases op)
  case (Manage db caller slug mop)
  have "store_ok env st'" if "mgmt_action env p mop st = Inr st'" for p st'
    using mgmt_action_ok[OF assms(1) _ that] assms(2) Manage by simp
  then show ?thesis using assms(1) by (auto simp: Manage mgmt_route_def split: sum.split)
next
  case (Data_request now k raw ref dop)
  then show ?thesis using data_route_ok[OF assms(1)] assms by (simp split: option.split)
next
  case (Rotate_deploy p k token)
  then show ?thesis using rotate_deploy_ok[OF assms(1)] assms(2) by simp
next
  case (Autoinject p k)
  then show ?thesis using autoinject_ok[OF assms(1)] assms(2) by simp
qed

text \<open>C28: The store stays well-formed under any requests on any projects: ids, names and key hashes are unique,
  every record belongs to a collection of its own project, every stored document is one the store accepts,
  and no project has more than 50 collections, 10000 records and 20 minted keys.\<close>

theorem data_store_invariant:
  assumes "store_ok env st" "ws_run_new env ops st"
  shows "store_ok env (ws_run env ops st)"
  using assms by (induction ops arbitrary: st) (simp_all add: ws_run_def ws_step_ok)

section \<open>Projects do not see each other\<close>

text \<open>What a project holds.\<close>

definition project_view :: "uuid \<Rightarrow> data_store \<Rightarrow> data_collection list \<times> data_record list \<times> data_key list" where
  "project_view p st =
     (filter (\<lambda>c. co_project c = p) (ds_collections st), filter (\<lambda>r. re_project r = p) (ds_records st),
      filter (\<lambda>x. dk_project x = p) (ds_keys st))"

lemma find_filter: "find (\<lambda>x. P x \<and> Q x) xs = find Q (filter P xs)"
  by (induction xs) auto

lemma find_restrict: "\<forall>x \<in> set xs. Q x \<longrightarrow> P x \<Longrightarrow> find Q xs = find Q (filter P xs)"
  by (induction xs) auto

lemma filter_restrict: "\<forall>x \<in> set xs. Q x \<longrightarrow> P x \<Longrightarrow> filter Q xs = filter Q (filter P xs)"
  by (induction xs) auto

lemma filter_map_if: "(\<And>x. P (f x) = P x) \<Longrightarrow> filter P (map f xs) = map f (filter P xs)"
  by (induction xs) auto

lemma collection_by_id:
  assumes "tables_ok st" "c \<in> set (ds_collections st)" "d \<in> set (ds_collections st)" "co_id c = co_id d"
  shows "c = d"
  using assms by (auto simp: tables_ok_def distinct_map inj_on_def)

lemma record_by_id:
  assumes "tables_ok st" "r \<in> set (ds_records st)" "x \<in> set (ds_records st)" "re_id r = re_id x"
  shows "r = x"
  using assms by (auto simp: tables_ok_def distinct_map inj_on_def)

lemma record_project:
  assumes "tables_ok st" "c \<in> set (ds_collections st)" "r \<in> set (ds_records st)" "re_collection r = co_id c"
  shows "re_project r = co_project c"
proof -
  obtain d where "d \<in> set (ds_collections st)" "co_id d = re_collection r" "co_project d = re_project r"
    using assms(1,3) unfolding tables_ok_def by blast
  with collection_by_id[OF assms(1,2), of d] assms(4) show ?thesis by simp
qed

text \<open>The lookups read the view only.\<close>

lemma get_collection_view: "project_view p st1 = project_view p st2 \<Longrightarrow> get_collection st1 p ref = get_collection st2 p ref"
  by (simp add: get_collection_def project_view_def find_filter split: option.split)

lemma get_record_view:
  assumes "tables_ok st1" "tables_ok st2" "project_view p st1 = project_view p st2"
    and "get_collection st1 p ref = Some c"
  shows "get_record st1 (co_id c) r_ref = get_record st2 (co_id c) r_ref"
    and "filter (\<lambda>r. re_collection r = co_id c) (ds_records st1) = filter (\<lambda>r. re_collection r = co_id c) (ds_records st2)"
proof -
  have c1: "c \<in> set (ds_collections st1)" "co_project c = p" using get_collection_in[OF assms(4)] by simp_all
  have c2: "c \<in> set (ds_collections st2)"
    using get_collection_in[of st2 p ref c] assms(4) get_collection_view[OF assms(3)] by simp
  have in1: "\<forall>r \<in> set (ds_records st1). re_collection r = co_id c \<longrightarrow> re_project r = p"
    using record_project[OF assms(1) c1(1)] c1(2) by simp
  have in2: "\<forall>r \<in> set (ds_records st2). re_collection r = co_id c \<longrightarrow> re_project r = p"
    using record_project[OF assms(2) c2] c1(2) by simp
  have views: "filter (\<lambda>r. re_project r = p) (ds_records st1) = filter (\<lambda>r. re_project r = p) (ds_records st2)"
    using assms(3) by (simp add: project_view_def)
  show "filter (\<lambda>r. re_collection r = co_id c) (ds_records st1) = filter (\<lambda>r. re_collection r = co_id c) (ds_records st2)"
    by (subst filter_restrict[OF in1], subst filter_restrict[OF in2]) (simp only: views)
  have "find (\<lambda>r. re_collection r = co_id c \<and> re_id r = k) (ds_records st1) = find (\<lambda>r. re_collection r = co_id c \<and> re_id r = k) (ds_records st2)" for k
  proof -
    have a: "\<forall>r \<in> set (ds_records st1). re_collection r = co_id c \<and> re_id r = k \<longrightarrow> re_project r = p" using in1 by blast
    have b: "\<forall>r \<in> set (ds_records st2). re_collection r = co_id c \<and> re_id r = k \<longrightarrow> re_project r = p" using in2 by blast
    show ?thesis by (subst find_restrict[OF a], subst find_restrict[OF b]) (simp only: views)
  qed
  then show "get_record st1 (co_id c) r_ref = get_record st2 (co_id c) r_ref"
    by (simp add: get_record_def split: option.split)
qed

lemma update_record_view:
  assumes "update_record env r data c st = Inr (st', r')"
  obtains d where "validate_record_data (de_repr env) data = Inr d" "r' = r\<lparr>re_data := d\<rparr>"
    "project_view q st' = (fst (project_view q st), map (\<lambda>x. if re_id x = re_id r then x\<lparr>re_data := d\<rparr> else x)
       (fst (snd (project_view q st))), snd (snd (project_view q st)))"
proof -
  from assms obtain d where d: "validate_record_data (de_repr env) data = Inr d" "r' = r\<lparr>re_data := d\<rparr>"
    and recs: "ds_records st' = map (\<lambda>x. if re_id x = re_id r then x\<lparr>re_data := d\<rparr> else x) (ds_records st)"
    and rest: "ds_collections st' = ds_collections st" "ds_keys st' = ds_keys st"
    by (rule update_record_cases)
  have "filter (\<lambda>x. re_project x = q) (ds_records st') = map (\<lambda>x. if re_id x = re_id r then x\<lparr>re_data := d\<rparr> else x)
      (filter (\<lambda>x. re_project x = q) (ds_records st))"
    unfolding recs by (rule filter_map_if) simp
  with d rest that show thesis by (simp add: project_view_def)
qed

lemma delete_record_view:
  "project_view q (delete_record r st) = (fst (project_view q st), filter (\<lambda>x. re_id x \<noteq> re_id r) (fst (snd (project_view q st))),
     snd (snd (project_view q st)))"
  by (simp add: project_view_def delete_record_def conj_commute)

text \<open>A row that is not of the project is not in its view.\<close>

lemma rows_of_others:
  assumes "tables_ok st" "r \<in> set (ds_records st)" "re_project r \<noteq> q"
  shows "x \<in> set (filter (\<lambda>x. re_project x = q) (ds_records st)) \<Longrightarrow> re_id x \<noteq> re_id r"
  using record_by_id[OF assms(1,2), of x] assms(3) by auto

lemma data_route_others:
  assumes "tables_ok st" "q \<noteq> dk_project key"
  shows "project_view q (fst (data_route env now k key ref op st)) = project_view q st"
proof (cases "\<exists>c. get_collection st (dk_project key) ref = Some c \<and> enforce key c op")
  case True
  then obtain c where c: "get_collection st (dk_project key) ref = Some c" "enforce key c op" by blast
  have cin: "c \<in> set (ds_collections st)" "co_project c = dk_project key" using get_collection_in[OF c(1)] by simp_all
  have other: "r \<in> set (ds_records st) \<and> re_project r \<noteq> q" if "get_record st (co_id c) r_ref = Some r" for r r_ref
    using get_record_in[OF that] record_project[OF assms(1) cin(1), of r] cin(2) assms(2) by simp
  have "project_view q (fst (data_action env now k c op st)) = project_view q st"
  proof (cases op)
    case (Data_insert d)
    show ?thesis
    proof (cases "insert_record env c (J_obj d) k now st")
      case (Inr sr)
      then obtain st' r where sr: "insert_record env c (J_obj d) k now st = Inr (st', r)" by (cases sr) simp
      from sr have "re_project r = co_project c" "st' = st\<lparr>ds_records := ds_records st @ [r]\<rparr>"
        by (rule insert_record_cases, simp)+
      with sr cin(2) assms(2) show ?thesis by (simp add: Data_insert project_view_def)
    qed (simp add: Data_insert)
  next
    case (Data_update r_ref d)
    show ?thesis
    proof (cases "get_record st (co_id c) r_ref")
      case (Some r)
      show ?thesis
      proof (cases "update_record env r (J_obj d) c st")
        case (Inr sr)
        then obtain st' r' where sr: "update_record env r (J_obj d) c st = Inr (st', r')" by (cases sr) simp
        from sr obtain e where "project_view q st' = (fst (project_view q st), map (\<lambda>x. if re_id x = re_id r then x\<lparr>re_data := e\<rparr> else x)
            (fst (snd (project_view q st))), snd (snd (project_view q st)))"
          by (rule update_record_view)
        moreover have "map (\<lambda>x. if re_id x = re_id r then x\<lparr>re_data := e\<rparr> else x) (fst (snd (project_view q st))) = fst (snd (project_view q st))"
          using rows_of_others[OF assms(1), of r q] other[OF Some] by (intro map_idI) (simp add: project_view_def)
        ultimately show ?thesis using sr Some by (simp add: Data_update)
      qed (simp add: Data_update Some)
    qed (simp add: Data_update)
  next
    case (Data_delete r_ref)
    show ?thesis
    proof (cases "get_record st (co_id c) r_ref")
      case (Some r)
      have "filter (\<lambda>x. re_id x \<noteq> re_id r) (fst (snd (project_view q st))) = fst (snd (project_view q st))"
        using rows_of_others[OF assms(1), of r q] other[OF Some] by (simp add: filter_id_iff project_view_def del: filter_filter)
      then show ?thesis by (simp add: Data_delete Some delete_record_view)
    qed (simp add: Data_delete)
  qed (simp_all split: option.split prod.split)
  with c show ?thesis by (simp add: data_route_def)
qed (auto simp: data_route_def split: option.split)

text \<open>What a request does to the view of its project depends on that view only.\<close>

lemma insert_record_view:
  assumes "project_view p st1 = project_view p st2" "co_project c = p"
  shows "(\<exists>e. insert_record env c d k now st1 = Inl e \<and> insert_record env c d k now st2 = Inl e)
    \<or> (\<exists>st1' st2' r. insert_record env c d k now st1 = Inr (st1', r) \<and> insert_record env c d k now st2 = Inr (st2', r)
          \<and> project_view p st1' = project_view p st2')"
proof -
  have n: "project_record_count st1 p = project_record_count st2 p"
    using assms(1) by (simp add: project_record_count_def project_view_def)
  show ?thesis
  proof (cases "validate_record_data (de_repr env) d")
    case (Inr doc)
    then show ?thesis
      using n assms by (cases "validate_against_schema (de_schema env) doc (co_schema c)")
        (auto simp: insert_record_def project_view_def Let_def)
  qed (simp add: insert_record_def)
qed

lemma data_action_view:
  assumes "tables_ok st1" "tables_ok st2" "project_view p st1 = project_view p st2" "get_collection st1 p ref = Some c"
  shows "snd (data_action env now k c op st1) = snd (data_action env now k c op st2)
    \<and> project_view p (fst (data_action env now k c op st1)) = project_view p (fst (data_action env now k c op st2))"
proof (cases op)
  case (Data_insert d)
  have "co_project c = p" using get_collection_in[OF assms(4)] by simp
  from insert_record_view[OF assms(3) this, of env "J_obj d" k now] assms(3) show ?thesis
    by (auto simp: Data_insert)
next
  case (Data_list limit offset)
  then show ?thesis using get_record_view(2)[OF assms] assms(3) by (simp add: list_records_def Let_def)
next
  case (Data_get r_ref)
  then show ?thesis using get_record_view(1)[OF assms, of r_ref] assms(3) by (simp split: option.split)
next
  case (Data_update r_ref d)
  show ?thesis
  proof (cases "get_record st2 (co_id c) r_ref")
    case (Some r)
    show ?thesis
    proof (cases "update_record env r (J_obj d) c st1")
      case (Inl e)
      then have "update_record env r (J_obj d) c st2 = Inl e"
        by (auto simp: update_record_def split: sum.splits option.splits)
      with Inl Some show ?thesis using get_record_view(1)[OF assms, of r_ref] assms(3) by (simp add: Data_update)
    next
      case (Inr sr)
      then obtain st1' r1 where 1: "update_record env r (J_obj d) c st1 = Inr (st1', r1)" by (cases sr) simp
      then obtain st2' r2 where 2: "update_record env r (J_obj d) c st2 = Inr (st2', r2)"
        by (auto simp: update_record_def split: sum.splits option.splits)
      from 1 obtain d1 where d1: "validate_record_data (de_repr env) (J_obj d) = Inr d1" "r1 = r\<lparr>re_data := d1\<rparr>"
        and v1: "project_view p st1' = (fst (project_view p st1), map (\<lambda>x. if re_id x = re_id r then x\<lparr>re_data := d1\<rparr> else x)
           (fst (snd (project_view p st1))), snd (snd (project_view p st1)))"
        by (rule update_record_view)
      from 2 obtain d2 where d2: "validate_record_data (de_repr env) (J_obj d) = Inr d2" "r2 = r\<lparr>re_data := d2\<rparr>"
        and v2: "project_view p st2' = (fst (project_view p st2), map (\<lambda>x. if re_id x = re_id r then x\<lparr>re_data := d2\<rparr> else x)
           (fst (snd (project_view p st2))), snd (snd (project_view p st2)))"
        by (rule update_record_view)
      have "d1 = d2" using d1(1) d2(1) by simp
      then show ?thesis
        using 1 2 Some d1(2) d2(2) v1 v2 get_record_view(1)[OF assms, of r_ref] by (simp add: Data_update assms(3))
    qed
  qed (use get_record_view(1)[OF assms, of r_ref] assms(3) in \<open>simp add: Data_update\<close>)
next
  case (Data_delete r_ref)
  then show ?thesis using get_record_view(1)[OF assms, of r_ref] assms(3) by (simp add: delete_record_view split: option.split)
qed

text \<open>C29: Projects are isolated in the Data API: a request with a key is answered from the rows of the key's project,
  two stores that agree on them give the same answer and agree afterwards, whatever other projects hold;
  and it leaves the rows of every other project as they were.\<close>

theorem data_api_isolates_projects:
  assumes "store_ok env st1" "store_ok env st2" "project_view (dk_project key) st1 = project_view (dk_project key) st2"
  shows "snd (data_route env now k key ref op st1) = snd (data_route env now k key ref op st2)
    \<and> project_view (dk_project key) (fst (data_route env now k key ref op st1))
        = project_view (dk_project key) (fst (data_route env now k key ref op st2))
    \<and> (\<forall>q. q \<noteq> dk_project key \<longrightarrow> project_view q (fst (data_route env now k key ref op st1)) = project_view q st1)"
proof -
  have t: "tables_ok st1" "tables_ok st2" using assms(1,2) by (simp_all add: store_ok_def)
  note same = get_collection_view[OF assms(3), of ref]
  have others: "\<forall>q. q \<noteq> dk_project key \<longrightarrow> project_view q (fst (data_route env now k key ref op st1)) = project_view q st1"
    using data_route_others[OF t(1)] by blast
  show ?thesis
  proof (cases "get_collection st1 (dk_project key) ref")
    case (Some c)
    show ?thesis
      using data_action_view[OF t assms(3) Some, of env now k op] assms(3) Some same others
      by (simp add: data_route_def)
  qed (use assms(3) same others in \<open>simp add: data_route_def\<close>)
qed

section \<open>What the management routes touch\<close>

lemma map_others: "(\<And>x. P (f x) = P x) \<Longrightarrow> (\<And>x. x \<in> set xs \<Longrightarrow> P x \<Longrightarrow> f x = x) \<Longrightarrow> filter P (map f xs) = filter P xs"
  by (induction xs) auto

lemma filter_others: "(\<And>x. x \<in> set xs \<Longrightarrow> P x \<Longrightarrow> Q x) \<Longrightarrow> filter P (filter Q xs) = filter P xs"
  by (induction xs) auto

lemma create_data_key_others:
  assumes "create_data_key env p name kind k token st = Inr (st', raw)" "q \<noteq> p"
  shows "project_view q st' = project_view q st"
proof -
  from assms(1) obtain pre where "key_prefix kind = Some pre" "raw = pre @ token" "count_data_keys st p < 20"
    "add_key \<lparr>dk_id = k, dk_project = p, dk_hash = hash_key env raw, dk_name = strip name, dk_kind = kind, dk_active = True\<rparr> st = Some st'"
    by (rule create_data_key_cases)
  then show ?thesis using assms(2) by (auto simp: add_key_def project_view_def split: if_split_asm)
qed

lemma mgmt_action_others:
  assumes "tables_ok st" "mgmt_action env p op st = Inr st'" "q \<noteq> p"
  shows "project_view q st' = project_view q st"
proof (cases op)
  case (Create_collection name ins rd upd del schema k)
  with assms(2,3) show ?thesis
    by (auto simp: create_collection_def project_view_def split: sum.split_asm if_split_asm)
next
  case (Update_collection ref ins rd upd del schema)
  then obtain c where c: "get_collection st p ref = Some c"
    using assms(2) by (auto simp: require_collection_def split: option.split_asm)
  obtain s where st': "st' = st\<lparr>ds_collections := map (\<lambda>x. if co_id x = co_id c
       then x\<lparr>co_insert := set_flag ins (co_insert x), co_read := set_flag rd (co_read x),
              co_update := set_flag upd (co_update x), co_delete := set_flag del (co_delete x), co_schema := s\<rparr> else x) (ds_collections st)\<rparr>"
    using assms(2) c by (auto simp: Update_collection require_collection_def update_collection_def split: sum.split_asm)
  have "co_id x \<noteq> co_id c" if "x \<in> set (ds_collections st)" "co_project x = q" for x
    using collection_by_id[OF assms(1) that(1), of c] get_collection_in[OF c] that(2) assms(3) by auto
  then have "filter (\<lambda>x. co_project x = q) (ds_collections st') = filter (\<lambda>x. co_project x = q) (ds_collections st)"
    unfolding st' by (simp, intro map_others) auto
  then show ?thesis by (simp add: st' project_view_def)
next
  case (Delete_collection ref)
  then obtain c where c: "get_collection st p ref = Some c" and st': "st' = delete_collection c st"
    using assms(2) by (auto simp: require_collection_def split: option.split_asm if_split_asm)
  note cin = get_collection_in[OF c]
  have cols: "co_id x \<noteq> co_id c" if "x \<in> set (ds_collections st)" "co_project x = q" for x
    using collection_by_id[OF assms(1) that(1), of c] cin that(2) assms(3) by auto
  have recs: "re_collection r \<noteq> co_id c" if "r \<in> set (ds_records st)" "re_project r = q" for r
    using record_project[OF assms(1) cin[THEN conjunct1] that(1)] cin that(2) assms(3) by auto
  show ?thesis
    using cols recs by (simp add: st' delete_collection_def project_view_def filter_others del: filter_filter)
next
  case (Delete_record ref r_ref)
  then obtain c r where c: "get_collection st p ref = Some c" "get_record st (co_id c) r_ref = Some r" and st': "st' = delete_record r st"
    using assms(2) by (auto simp: require_collection_def split: option.split_asm if_split_asm)
  have "r \<in> set (ds_records st)" "re_project r \<noteq> q"
    using get_collection_in[OF c(1)] get_record_in[OF c(2)] record_project[OF assms(1), of c r] assms(3) by auto
  then have "filter (\<lambda>x. re_id x \<noteq> re_id r) (fst (snd (project_view q st))) = fst (snd (project_view q st))"
    using rows_of_others[OF assms(1), of r q] by (simp add: filter_id_iff project_view_def del: filter_filter)
  then show ?thesis by (simp add: st' delete_record_view)
next
  case (Create_key name kind k token)
  then obtain raw where "create_data_key env p name kind k token st = Inr (st', raw)"
    using assms(2) by (auto split: sum.split_asm)
  then show ?thesis using create_data_key_others assms(3) by blast
next
  case (Revoke_key ref)
  then have "revoke_data_key p ref st = Some st'" using assms(2) by (simp split: option.split_asm)
  then obtain key where key: "get_data_key st p ref = Some key" "dk_active key"
    and st': "st' = st\<lparr>ds_keys := map (\<lambda>x. if dk_id x = dk_id key then x\<lparr>dk_active := False\<rparr> else x) (ds_keys st)\<rparr>"
    by (rule revoke_cases)
  have kin: "key \<in> set (ds_keys st)" "dk_project key = p"
    using key(1) by (auto simp: get_data_key_def dest!: find_SomeD split: option.split_asm)
  have "dk_id x \<noteq> dk_id key" if "x \<in> set (ds_keys st)" "dk_project x = q" for x
    using assms(1,3) kin that by (auto simp: tables_ok_def distinct_map inj_on_def)
  then have "filter (\<lambda>x. dk_project x = q) (ds_keys st') = filter (\<lambda>x. dk_project x = q) (ds_keys st)"
    unfolding st' by (simp, intro map_others) auto
  then show ?thesis by (simp add: st' project_view_def)
qed

text \<open>Only editors and admins of a project change its data through the management routes: a request that is
  carried out was made by somebody whose role on the project holds the permission to edit it, and it leaves
  what every other project holds as it was.\<close>

theorem management_needs_editor:
  assumes "store_ok env st" "mgmt_route env db caller slug op st = Inr st'"
  shows "\<exists>p role. find_project db slug = Some p \<and> get_effective_project_role db p caller = Some role \<and> role \<in> {''admin'', ''editor''}
    \<and> (\<forall>q. q \<noteq> pj_id p \<longrightarrow> project_view q st' = project_view q st)"
proof -
  obtain p role where acc: "get_project_with_access db slug caller PROJECT_EDIT = Inr (p, role)"
    and act: "mgmt_action env (pj_id p) op st = Inr st'"
    using assms(2) by (auto simp: mgmt_route_def split: sum.split_asm)
  have found: "find_project db slug = Some p" "get_effective_project_role db p caller = Some role" "has_permission role PROJECT_EDIT"
    using acc by (auto simp: get_project_with_access_def split: option.split_asm if_split_asm)
  have "PROJECT_EDIT \<notin> set viewer_permissions" by code_simp
  then have "role \<in> {''admin'', ''editor''}"
    using has_permission_role[OF found(3)] found(3) by auto
  moreover have "\<forall>q. q \<noteq> pj_id p \<longrightarrow> project_view q st' = project_view q st"
    using mgmt_action_others[OF _ act] assms(1) by (simp add: store_ok_def)
  ultimately show ?thesis using found by blast
qed

section \<open>Anonymous keys\<close>

text \<open>A closed collection and no collection look the same to an anonymous key.\<close>

lemma get_collection_deleted:
  assumes "tables_ok st" "get_collection st p ref = Some c"
  shows "get_collection (delete_collection c st) p ref = None"
proof -
  have c: "c \<in> set (ds_collections st)" "co_project c = p" using get_collection_in[OF assms(2)] by simp_all
  have unique: "x = c" if "x \<in> set (ds_collections st)" "co_project x = p" "co_name x = co_name c" for x
    using assms(1) that c by (auto simp: tables_ok_def distinct_map inj_on_def)
  show ?thesis
  proof (cases "maybe_uuid ref")
    case None
    then have name: "co_name c = ref" using assms(2) by (auto simp: get_collection_def dest!: find_SomeD)
    have "\<not> (co_project x = p \<and> co_name x = ref)" if "x \<in> set (ds_collections (delete_collection c st))" for x
      using that unique[of x] name by (auto simp: delete_collection_def)
    with None show ?thesis by (simp add: get_collection_def find_None_iff)
  next
    case (Some k)
    then have "co_id c = k" using assms(2) by (auto simp: get_collection_def dest!: find_SomeD)
    with Some show ?thesis by (simp add: get_collection_def find_None_iff delete_collection_def)
  qed
qed

text \<open>What an anonymous key can do: a request it gets through is on a collection of its project whose flag for
  the operation is set; where the flag is not set it changes nothing and is answered exactly as if the
  collection did not exist.\<close>

theorem anonymous_key_obeys_flags:
  assumes "store_ok env st" "dk_kind key \<noteq> ''service''" "get_collection st (dk_project key) ref = Some c" "\<not> op_flag op c"
  shows "data_route env now k key ref op st = (st, Not_accessible)
    \<and> snd (data_route env now k key ref op (delete_collection c st)) = Not_accessible"
  using assms get_collection_deleted[of st "dk_project key" ref c]
  by (simp add: data_route_def enforce_def store_ok_def)

section \<open>Revocation\<close>

text \<open>A hash all of whose rows are revoked.\<close>

definition dead_hash :: "string \<Rightarrow> data_store \<Rightarrow> bool" where
  "dead_hash h st \<longleftrightarrow> (\<exists>x \<in> set (ds_keys st). dk_hash x = h) \<and> (\<forall>x \<in> set (ds_keys st). dk_hash x = h \<longrightarrow> \<not> dk_active x)"

lemma dead_hash_cong: "ds_keys st' = ds_keys st \<Longrightarrow> dead_hash h st' = dead_hash h st"
  by (simp add: dead_hash_def)

lemma add_key_dead: "add_key key st = Some st' \<Longrightarrow> dead_hash h st \<Longrightarrow> dead_hash h st'"
  by (fastforce simp: add_key_def dead_hash_def find_None_iff split: if_split_asm)

lemma create_data_key_dead:
  assumes "create_data_key env p name kind k token st = Inr (st', raw)" "dead_hash h st"
  shows "dead_hash h st'"
proof -
  from assms(1) obtain pre where "key_prefix kind = Some pre" "raw = pre @ token" "count_data_keys st p < 20"
    "add_key \<lparr>dk_id = k, dk_project = p, dk_hash = hash_key env raw, dk_name = strip name, dk_kind = kind, dk_active = True\<rparr> st = Some st'"
    by (rule create_data_key_cases)
  then show ?thesis using add_key_dead assms(2) by blast
qed

lemma revoke_dead:
  assumes "revoke_data_key p ref st = Some st'" "dead_hash h st"
  shows "dead_hash h st'"
proof -
  from assms(1) obtain key where "get_data_key st p ref = Some key" "dk_active key"
    and st': "st' = st\<lparr>ds_keys := map (\<lambda>x. if dk_id x = dk_id key then x\<lparr>dk_active := False\<rparr> else x) (ds_keys st)\<rparr>"
    by (rule revoke_cases)
  let ?f = "\<lambda>x. if dk_id x = dk_id key then x\<lparr>dk_active := False\<rparr> else x"
  have same: "dk_hash (?f x) = dk_hash x" "dk_active (?f x) \<longleftrightarrow> dk_active x \<and> dk_id x \<noteq> dk_id key" for x by simp_all
  have keys: "ds_keys st' = map ?f (ds_keys st)" by (simp add: st')
  show ?thesis using assms(2) unfolding dead_hash_def keys by (simp only: set_map bex_simps ball_simps same) blast
qed

lemma data_route_keys: "ds_keys (fst (data_route env now k key ref op st)) = ds_keys st"
proof -
  have "ds_keys (fst (data_action env now k c op st)) = ds_keys st" for c
  proof (cases op)
    case (Data_insert d)
    then show ?thesis by (auto split: sum.split elim!: insert_record_cases)
  next
    case (Data_update r_ref d)
    then show ?thesis by (auto split: sum.split option.split elim!: update_record_cases)
  qed (simp_all add: delete_record_def split: option.split prod.split)
  then show ?thesis by (simp add: data_route_def split: option.split)
qed

lemma ws_step_dead:
  assumes "dead_hash h st"
  shows "dead_hash h (ws_step env op st)"
proof (cases op)
  case (Manage db caller slug mop)
  have "dead_hash h st'" if act: "mgmt_action env p mop st = Inr st'" for p st'
  proof (cases mop)
    case (Create_collection name ins rd upd del schema k)
    with act have "ds_keys st' = ds_keys st" by (auto simp: create_collection_def split: sum.split_asm if_split_asm)
    then show ?thesis using assms dead_hash_cong by blast
  next
    case (Update_collection ref ins rd upd del schema)
    with act have "ds_keys st' = ds_keys st" by (auto simp: update_collection_def split: sum.split_asm)
    then show ?thesis using assms dead_hash_cong by blast
  next
    case (Delete_collection ref)
    with act have "ds_keys st' = ds_keys st" by (auto simp: delete_collection_def split: sum.split_asm if_split_asm)
    then show ?thesis using assms dead_hash_cong by blast
  next
    case (Delete_record ref r_ref)
    with act have "ds_keys st' = ds_keys st" by (auto simp: delete_record_def split: sum.split_asm if_split_asm option.split_asm)
    then show ?thesis using assms dead_hash_cong by blast
  next
    case (Create_key name kind k token)
    with act assms show ?thesis by (auto split: sum.split_asm dest: create_data_key_dead)
  next
    case (Revoke_key ref)
    with act assms show ?thesis by (auto split: option.split_asm dest: revoke_dead)
  qed
  then show ?thesis using assms by (auto simp: Manage mgmt_route_def split: sum.split)
next
  case (Data_request now k raw ref dop)
  then show ?thesis using assms dead_hash_cong[OF data_route_keys] by (simp split: option.split)
next
  case (Rotate_deploy p k token)
  let ?st1 = "st\<lparr>ds_keys := filter (\<lambda>x. \<not> (dk_project x = p \<and> dk_active x \<and> dk_name x = ''deploy'')) (ds_keys st)\<rparr>"
  have dead1: "dead_hash h ?st1" using assms by (auto simp: dead_hash_def)
  then have "dead_hash h st2" if "create_data_key env p ''deploy'' ''anon'' k token ?st1 = Inr (st2, raw)" for st2 raw
    using create_data_key_dead[OF that] by blast
  with dead1 show ?thesis
    by (cases "create_data_key env p ''deploy'' ''anon'' k token ?st1") (auto simp: Rotate_deploy rotate_deploy_key_def Let_def)
next
  case (Autoinject p k)
  then show ?thesis
    using assms by (auto simp: get_or_create_autoinject_key_def split: sum.split option.split dest: add_key_dead)
qed

lemma ws_run_dead: "dead_hash h st \<Longrightarrow> dead_hash h (ws_run env ops st)"
  by (induction ops arbitrary: st) (simp_all add: ws_run_def ws_step_dead)

lemma revoked_hash_dead:
  assumes "tables_ok st" "get_data_key st p ref = Some key" "revoke_data_key p ref st = Some st'"
  shows "dead_hash (dk_hash key) st'"
proof -
  from assms(3) obtain key' where "get_data_key st p ref = Some key'" "dk_active key'"
    and "st' = st\<lparr>ds_keys := map (\<lambda>x. if dk_id x = dk_id key' then x\<lparr>dk_active := False\<rparr> else x) (ds_keys st)\<rparr>"
    by (rule revoke_cases)
  then have keys: "ds_keys st' = map (\<lambda>x. if dk_id x = dk_id key then x\<lparr>dk_active := False\<rparr> else x) (ds_keys st)"
    using assms(2) by simp
  have kin: "key \<in> set (ds_keys st)"
    using assms(2) by (auto simp: get_data_key_def dest!: find_SomeD split: option.split_asm)
  have unique: "x = key" if "x \<in> set (ds_keys st)" "dk_hash x = dk_hash key" for x
    using assms(1) that kin by (auto simp: tables_ok_def distinct_map inj_on_def)
  let ?f = "\<lambda>x. if dk_id x = dk_id key then x\<lparr>dk_active := False\<rparr> else x"
  have same: "dk_hash (?f x) = dk_hash x" "dk_active (?f x) \<longleftrightarrow> dk_active x \<and> dk_id x \<noteq> dk_id key" for x by simp_all
  show ?thesis
    unfolding dead_hash_def keys using kin unique by (simp only: set_map bex_simps ball_simps same) blast
qed

lemma strip_strip: "strip (strip s) = strip s"
proof (cases "strip s")
  case (Cons c cs)
  have mid: "rev (dropWhile is_space (rev u)) = c # cs \<Longrightarrow> u \<noteq> [] \<and> hd u = c" for u :: string
  proof -
    assume "rev (dropWhile is_space (rev u)) = c # cs"
    then have "dropWhile is_space (rev u) = rev cs @ [c]" by (metis rev.simps(2) rev_rev_ident)
    then have "\<exists>v. rev u = v @ rev cs @ [c]" by (metis takeWhile_dropWhile_id)
    then obtain v where "rev u = v @ rev cs @ [c]" by blast
    then have "u = c # cs @ rev v" by (metis append.assoc append_Cons append_Nil rev.simps(2) rev_append rev_rev_ident)
    then show "u \<noteq> [] \<and> hd u = c" by simp
  qed
  have "lstrip s \<noteq> [] \<and> hd (lstrip s) = c" using mid[of "lstrip s"] Cons by (simp add: strip_def lstrip_def)
  then have "\<not> is_space c" using hd_dropWhile[of is_space s] by (auto simp: lstrip_def)
  then have "lstrip (strip s) = strip s" by (simp add: lstrip_def Cons)
  then have "strip (strip s) = rev (dropWhile is_space (rev (strip s)))" by (simp add: strip_def lstrip_def)
  also have "\<dots> = strip s" by (simp add: strip_def lstrip_def)
  finally show ?thesis .
next
  case Nil
  have "strip [] = []" by (simp add: strip_def lstrip_def)
  with Nil show ?thesis by simp
qed

lemma dead_not_resolved: "dead_hash (hash_key env raw) st \<Longrightarrow> resolve_data_key env st raw = None"
  by (auto simp: resolve_data_key_def Let_def dead_hash_def hash_key_def strip_strip find_None_iff)

text \<open>C30: Revocation is final: once a key is revoked no sequence of requests, mints, rotations and injections, on any
  project, makes it authenticate again.\<close>

theorem revocation_is_final:
  assumes "store_ok env st" "get_data_key st p ref = Some key" "dk_hash key = hash_key env raw" "revoke_data_key p ref st = Some st'"
  shows "resolve_data_key env (ws_run env ops st') raw = None"
  using assms revoked_hash_dead[of st p ref key st'] ws_run_dead dead_not_resolved by (metis store_ok_def)

text \<open>So the injected key of a project stays dead after its revocation, and the code goes on handing it out.\<close>

lemma autoinject_stays_dead:
  assumes "store_ok env st" "get_data_key st p ref = Some key" "derive_autoinject_raw env p = Inr raw" "dk_hash key = hash_key env raw"
    and "dk_project key = p" "revoke_data_key p ref st = Some st'"
  shows "snd (get_or_create_autoinject_key env p k (ws_run env ops st')) = Inr raw
    \<and> resolve_data_key env (fst (get_or_create_autoinject_key env p k (ws_run env ops st'))) raw = None"
proof -
  have dead: "dead_hash (hash_key env raw) (ws_run env ops st')"
    using revoked_hash_dead[OF _ assms(2,6)] ws_run_dead assms(1,4) by (metis store_ok_def)
  then have "dead_hash (hash_key env raw) (ws_step env (Autoinject p k) (ws_run env ops st'))" by (rule ws_step_dead)
  then show ?thesis
    using assms(3) dead_not_resolved by (auto simp: get_or_create_autoinject_key_def split: option.split)
qed

section \<open>Quotas of keys\<close>

text \<open>A revoked key goes on counting: twenty mints and revocations, and a project can mint no key any more.\<close>

lemma revoked_key_counts:
  assumes "revoke_data_key p ref st = Some st'"
  shows "count_data_keys st' q = count_data_keys st q"
proof -
  from assms obtain key where "get_data_key st p ref = Some key" "dk_active key"
    and st': "st' = st\<lparr>ds_keys := map (\<lambda>x. if dk_id x = dk_id key then x\<lparr>dk_active := False\<rparr> else x) (ds_keys st)\<rparr>"
    by (rule revoke_cases)
  have "length (filter (\<lambda>x. dk_project x = q) (map (\<lambda>x. if dk_id x = dk_id key then x\<lparr>dk_active := False\<rparr> else x) xs))
      = length (filter (\<lambda>x. dk_project x = q) xs)" for xs
    by (induction xs) auto
  then show ?thesis by (simp add: count_data_keys_def st')
qed

text \<open>A rotation over the quota deletes the old deploy key and then fails to mint the new one.\<close>

lemma rotation_loses_key:
  assumes "20 < count_data_keys st p"
    and "length (filter (\<lambda>x. dk_project x = p \<and> dk_active x \<and> dk_name x = ''deploy'') (ds_keys st)) = 1"
  shows "snd (rotate_deploy_key env p k token st) = Inl Quota_exceeded
    \<and> filter (\<lambda>x. dk_project x = p \<and> dk_active x \<and> dk_name x = ''deploy'') (ds_keys (fst (rotate_deploy_key env p k token st))) = []"
proof -
  let ?old = "\<lambda>x. dk_project x = p \<and> dk_active x \<and> dk_name x = ''deploy''"
  let ?st1 = "st\<lparr>ds_keys := filter (\<lambda>x. \<not> ?old x) (ds_keys st)\<rparr>"
  have "length (filter (\<lambda>x. dk_project x = p) xs) = length (filter (\<lambda>x. dk_project x = p) (filter (\<lambda>x. \<not> ?old x) xs)) + length (filter ?old xs)"
    for xs :: "data_key list"
    by (induction xs) auto
  from this[of "ds_keys st"] have "20 \<le> count_data_keys ?st1 p"
    using assms by (simp add: count_data_keys_def)
  moreover have "strip ''deploy'' = ''deploy''" by code_simp
  ultimately have "create_data_key env p ''deploy'' ''anon'' k token ?st1 = Inl Quota_exceeded"
    by (simp add: create_data_key_def key_prefix_def)
  then show ?thesis by (simp add: rotate_deploy_key_def Let_def filter_empty_conv)
qed

section \<open>Pages\<close>

lemma newest_first_mset: "mset (newest_first rs) = mset rs"
  by (simp add: newest_first_def)

lemma newest_first_sorted: "sorted (map (\<lambda>r. (re_created_at r, re_id r)) (rev (newest_first rs)))"
  by (simp add: newest_first_def)

text \<open>Consecutive pages are the collection: pages of a size within the limits, one after the other, are the records of
  the collection from the newest to the oldest, each once, and every page reports their number.\<close>

theorem pages_are_complete:
  assumes "1 \<le> n" "n \<le> 200"
  shows "concat (map (\<lambda>i. fst (list_records st c n (int i * n))) [0..<m])
      = take (m * nat n) (newest_first (filter (\<lambda>r. re_collection r = c) (ds_records st)))
    \<and> snd (list_records st c n x) = length (filter (\<lambda>r. re_collection r = c) (ds_records st))
    \<and> mset (newest_first (filter (\<lambda>r. re_collection r = c) (ds_records st))) = mset (filter (\<lambda>r. re_collection r = c) (ds_records st))
    \<and> sorted (map (\<lambda>r. (re_created_at r, re_id r)) (rev (newest_first (filter (\<lambda>r. re_collection r = c) (ds_records st)))))"
proof -
  let ?all = "newest_first (filter (\<lambda>r. re_collection r = c) (ds_records st))"
  have page: "fst (list_records st c n (int i * n)) = take (nat n) (drop (i * nat n) ?all)" for i
    using assms by (simp add: list_records_def Let_def nat_mult_distrib max_def min_def)
  have "concat (map (\<lambda>i. take (nat n) (drop (i * nat n) ?all)) [0..<m]) = take (m * nat n) ?all"
  proof (induction m)
    case (Suc m)
    have "take (Suc m * nat n) ?all = take (m * nat n + nat n) ?all" by (simp add: add.commute)
    with Suc show ?case by (simp only: take_add) simp
  qed simp
  then show ?thesis by (simp add: page newest_first_mset newest_first_sorted) (simp add: list_records_def Let_def)
qed

section \<open>A concrete store\<close>

definition demo_env :: data_env where
  "demo_env = \<lparr>de_sha256 = (\<lambda>s. s), de_hmac = (\<lambda>key s. key @ s), de_secret_key = ''k'', de_repr = (\<lambda>_. ''0.5''),
     de_schema = \<lparr>sl_check = (\<lambda>_. True), sl_conforms = (\<lambda>_ _. True)\<rparr>,
     de_ip_capacity = 600, de_ip_window = 60, de_key_capacity = 1200, de_key_window = 60\<rparr>"

definition demo_posts :: "uuid \<Rightarrow> uuid \<Rightarrow> data_collection" where
  "demo_posts k p = \<lparr>co_id = k, co_project = p, co_name = ''posts'', co_insert = False, co_read = True, co_update = False,
     co_delete = False, co_schema = None\<rparr>"

definition demo_record :: "uuid \<Rightarrow> uuid \<Rightarrow> uuid \<Rightarrow> instant \<Rightarrow> data_record" where
  "demo_record k c p t = \<lparr>re_id = k, re_collection = c, re_project = p, re_data = [], re_created_at = t\<rparr>"

definition demo_key :: data_key where
  "demo_key = \<lparr>dk_id = 9, dk_project = 20, dk_hash = ''wsk_anon_a'', dk_name = ''web'', dk_kind = ''anon'', dk_active = True\<rparr>"

text \<open>The project of the team in \<open>Team_Access\<close> and another one.\<close>

definition demo_store :: data_store where
  "demo_store = \<lparr>ds_collections = [demo_posts 1 20, demo_posts 2 21],
     ds_records = [demo_record 3 1 20 5, demo_record 4 2 21 6, demo_record 5 1 20 7], ds_keys = [demo_key]\<rparr>"

definition demo_alone :: data_store where
  "demo_alone = \<lparr>ds_collections = [demo_posts 1 20], ds_records = [demo_record 3 1 20 5, demo_record 5 1 20 7], ds_keys = [demo_key]\<rparr>"

lemma quotas_small:
  assumes "length (ds_collections st) \<le> 50" "length (ds_records st) \<le> 10000" "length (ds_keys st) \<le> 20"
  shows "quotas_ok env st"
  unfolding quotas_ok_def count_collections_def project_record_count_def minted_keys_def
  by (intro allI conjI order_trans[OF length_filter_le] assms)

lemma demo_stores_ok: "store_ok demo_env demo_store" "store_ok demo_env demo_alone"
proof -
  have "tables_ok demo_store" "tables_ok demo_alone" by code_simp+
  moreover have "quotas_ok demo_env demo_store" "quotas_ok demo_env demo_alone"
    by (rule quotas_small; simp add: demo_store_def demo_alone_def)+
  moreover have "name_ok ''posts''" by code_simp
  then have "contents_ok demo_env demo_store" "contents_ok demo_env demo_alone"
    by (simp_all add: contents_ok_def demo_store_def demo_alone_def demo_posts_def demo_record_def validate_record_data_def)
  ultimately show "store_ok demo_env demo_store" "store_ok demo_env demo_alone" by (simp_all add: store_ok_def)
qed

theorem data_store_invariant_witness:
  "store_ok demo_env (ws_run demo_env [Manage demo_directory 1 ''site'' (Create_collection ''todo'' True True False False J_null 50),
     Data_request 0 51 ''wsk_anon_a'' ''todo'' (Data_list 10 0)] demo_store)"
proof -
  have "ws_run_new demo_env [Manage demo_directory 1 ''site'' (Create_collection ''todo'' True True False False J_null 50),
     Data_request 0 51 ''wsk_anon_a'' ''todo'' (Data_list 10 0)] demo_store" by code_simp
  from data_store_invariant[OF demo_stores_ok(1) this] show ?thesis .
qed

theorem data_api_isolates_projects_witness:
  "snd (data_route demo_env 0 60 demo_key ''posts'' (Data_list 10 0) demo_store) = Page_out [demo_record 5 1 20 7, demo_record 3 1 20 5] 2"
proof -
  have "project_view (dk_project demo_key) demo_store = project_view (dk_project demo_key) demo_alone" by code_simp
  note same = data_api_isolates_projects[OF demo_stores_ok this, of 0 60 "''posts''" "Data_list 10 0"]
  have "snd (data_route demo_env 0 60 demo_key ''posts'' (Data_list 10 0) demo_alone) = Page_out [demo_record 5 1 20 7, demo_record 3 1 20 5] 2"
    by code_simp
  with same show ?thesis by simp
qed

theorem management_needs_editor_witness:
  "\<exists>st'. mgmt_route demo_env demo_directory 1 ''site'' (Create_collection ''todo'' True True False False J_null 50) demo_store = Inr st'
     \<and> project_view 21 st' = project_view 21 demo_store"
proof (cases "mgmt_route demo_env demo_directory 1 ''site'' (Create_collection ''todo'' True True False False J_null 50) demo_store")
  case (Inl e)
  moreover have "\<not> isl (mgmt_route demo_env demo_directory 1 ''site'' (Create_collection ''todo'' True True False False J_null 50) demo_store)"
    by code_simp
  ultimately show ?thesis by simp
next
  case (Inr st')
  have "find_project demo_directory ''site'' = Some demo_project" "pj_id demo_project \<noteq> 21" by code_simp+
  with management_needs_editor[OF demo_stores_ok(1) Inr] Inr show ?thesis by auto
qed

theorem anonymous_key_obeys_flags_witness:
  "data_route demo_env 0 60 demo_key ''posts'' (Data_insert []) demo_store = (demo_store, Not_accessible)"
proof -
  have "dk_kind demo_key \<noteq> ''service''" "get_collection demo_store (dk_project demo_key) ''posts'' = Some (demo_posts 1 20)"
    "\<not> op_flag (Data_insert []) (demo_posts 1 20)" by code_simp+
  from anonymous_key_obeys_flags[OF demo_stores_ok(1) this] show ?thesis by blast
qed

theorem revocation_is_final_witness:
  "\<exists>st'. revoke_data_key 20 ''00000000000000000000000000000009'' demo_store = Some st'
     \<and> resolve_data_key demo_env demo_store ''wsk_anon_a'' = Some demo_key
     \<and> resolve_data_key demo_env (ws_run demo_env [Autoinject 20 51, Rotate_deploy 20 52 ''b''] st') ''wsk_anon_a'' = None"
proof (cases "revoke_data_key 20 ''00000000000000000000000000000009'' demo_store")
  case None
  moreover have "revoke_data_key 20 ''00000000000000000000000000000009'' demo_store \<noteq> None" by code_simp
  ultimately show ?thesis by simp
next
  case (Some st')
  have "get_data_key demo_store 20 ''00000000000000000000000000000009'' = Some demo_key" by code_simp
  moreover have "dk_hash demo_key = hash_key demo_env ''wsk_anon_a''" by code_simp
  ultimately have "resolve_data_key demo_env (ws_run demo_env [Autoinject 20 51, Rotate_deploy 20 52 ''b''] st') ''wsk_anon_a'' = None"
    by (rule revocation_is_final[OF demo_stores_ok(1) _ _ Some])
  moreover have "resolve_data_key demo_env demo_store ''wsk_anon_a'' = Some demo_key" by code_simp
  ultimately show ?thesis using Some by blast
qed

theorem pages_are_complete_witness:
  "concat (map (\<lambda>i. fst (list_records demo_store 1 1 (int i * 1))) [0..<2]) = [demo_record 5 1 20 7, demo_record 3 1 20 5]"
proof -
  have "take (2 * nat 1) (newest_first (filter (\<lambda>r. re_collection r = 1) (ds_records demo_store))) = [demo_record 5 1 20 7, demo_record 3 1 20 5]"
    by code_simp
  then show ?thesis using pages_are_complete[of 1 demo_store 1 2 0] by simp
qed

text \<open>A collection whose name is the text of a UUID is created, and no reference by its name finds it.\<close>

lemma uuid_name_unreachable:
  assumes "maybe_uuid name = Some k'" "create_collection env p name ins rd upd del schema k st = Inr st'" "store_ok env st" "strip name = name"
    and "k \<noteq> k'"
  shows "get_collection st' p name = None"
proof -
  obtain s where c: "get_collection st p name = None"
    and st': "st' = st\<lparr>ds_collections := ds_collections st
                      @ [\<lparr>co_id = k, co_project = p, co_name = name, co_insert = ins, co_read = rd,
                          co_update = upd, co_delete = del, co_schema = s\<rparr>]\<rparr>"
    using assms(2,4) by (auto simp: create_collection_def validate_collection_name_def Let_def split: sum.split_asm if_split_asm)
  then show ?thesis using assms(1,5) by (simp add: get_collection_def find_append)
qed

end
