(* ===== verification/Workflow_Proposals.thy ===== *)
theory Workflow_Proposals
  imports Workflow_Versions
begin

text \<open>
  Proposals to change a workflow (\<open>services/workflows/proposals.py\<close>, \<open>dry_run.py\<close>, the routes of
  \<open>routers/automations.py\<close> and the agent tool \<open>manage_workflow_proposal\<close>): the diff against a version, the
  policy that lets a change apply without review, the dry run, and the life of a proposal.  State: the rows of
  \<open>Workflow_Versions\<close>, the automations with their guards, and the proposals.  \<open>proposal_run\<close> is any
  sequence of requests, of edits by owners and of agent calls.

  Arguments: SHA-256, \<open>str\<close> of values that are no strings, fresh identifiers, and whether the
  constraints of the tables accept the rows when they are flushed.  A request that ends with an error of the
  database or an uncaught exception leaves nothing behind: its transaction is dropped.
\<close>

subsection \<open>Python's equality of JSON values\<close>

text \<open>Numbers are equal by value, truth values are the numbers 0 and 1, the order of keys is ignored.\<close>

fun py_norm :: "json \<Rightarrow> json" where
  "py_norm (J_bool b) = J_float (if b then 1 else 0)"
| "py_norm (J_int n) = J_float (of_int n)"
| "py_norm (J_list xs) = J_list (map py_norm xs)"
| "py_norm (J_obj d) = J_obj (sort_key fst (map (\<lambda>kv. (fst kv, py_norm (snd kv))) d))"
| "py_norm v = v"

definition py_eq :: "json \<Rightarrow> json \<Rightarrow> bool" where
  "py_eq a b \<longleftrightarrow> py_norm a = py_norm b"

subsection \<open>The diff\<close>

datatype diff_op = D_add | D_remove | D_replace

record diff_entry =
  de_path :: string
  de_op :: diff_op
  de_before :: json
  de_after :: json

definition diff_at :: "string \<Rightarrow> json \<Rightarrow> json \<Rightarrow> diff_entry" where
  "diff_at p b a = \<lparr>de_path = p, de_op = (if a = J_null then D_remove else if b = J_null then D_add else D_replace),
     de_before = b, de_after = a\<rparr>"

text \<open>The code walks sets of keys in no particular order; no decision depends on it.\<close>

definition scalar_keys :: "string list" where
  "scalar_keys = [''max_compute_tier'', ''max_spend_per_run_usd'', ''max_spend_per_day_usd'', ''compute_profile'',
     ''workspace_scope'', ''name'']"

definition scalar_diff :: "json_dict \<Rightarrow> json_dict \<Rightarrow> diff_entry list" where
  "scalar_diff before after = List.map_filter
     (\<lambda>k. case map_of after k of
            None \<Rightarrow> None
          | Some a \<Rightarrow> if py_eq (jget before k) a then None
                      else Some \<lparr>de_path = k, de_op = D_replace, de_before = jget before k, de_after = a\<rparr>) scalar_keys"

definition child_diff :: "json_dict \<Rightarrow> json_dict \<Rightarrow> string \<Rightarrow> diff_entry option" where
  "child_diff before after k =
     (case (map_of before k, map_of after k) of
        (None, None) \<Rightarrow> None
      | (None, Some a) \<Rightarrow> Some \<lparr>de_path = ''contract.'' @ k, de_op = D_add, de_before = J_null, de_after = a\<rparr>
      | (Some b, None) \<Rightarrow> Some \<lparr>de_path = ''contract.'' @ k, de_op = D_remove, de_before = b, de_after = J_null\<rparr>
      | (Some b, Some a) \<Rightarrow>
          if py_eq b a then None
          else Some \<lparr>de_path = ''contract.'' @ k, de_op = D_replace, de_before = b, de_after = a\<rparr>)"

definition contract_diff :: "json_dict \<Rightarrow> json_dict \<Rightarrow> diff_entry list" where
  "contract_diff before after =
     (if map_of after ''contract'' = None then []
      else (let b = or_empty (jget before ''contract''); a = or_empty (jget after ''contract'')
            in case (b, a) of
                 (J_obj bd, J_obj ad) \<Rightarrow> List.map_filter (child_diff bd ad) (remdups (map fst bd @ map fst ad))
               | _ \<Rightarrow> if py_eq b a then []
                      else [\<lparr>de_path = ''contract'', de_op = D_replace, de_before = b, de_after = a\<rparr>]))"

text \<open>What \<open>for x in (v or [])\<close> yields, \<open>None\<close> where it raises.  (A dict of a payload has string keys: it can be
  iterated, but not indexed by numbers, and its keys have no \<open>get\<close>.)\<close>

definition items_of :: "json \<Rightarrow> json list option" where
  "items_of v =
     (if \<not> truthy v then Some []
      else (case v of J_list xs \<Rightarrow> Some xs | J_str s \<Rightarrow> Some (map (\<lambda>c. J_str [c]) s) | _ \<Rightarrow> None))"

definition nth_or_none :: "json list \<Rightarrow> nat \<Rightarrow> json" where
  "nth_or_none xs i = (if i < length xs then xs ! i else J_null)"

definition index_diff :: "(json \<Rightarrow> string) \<Rightarrow> string \<Rightarrow> json list \<Rightarrow> json list \<Rightarrow> diff_entry list" where
  "index_diff str_of nm before after = List.map_filter
     (\<lambda>i. let b = nth_or_none before i; a = nth_or_none after i
          in if py_eq b a then None else Some (diff_at (nm @ ''['' @ str_of (J_int (int i)) @ '']'') b a))
     [0..<max (length before) (length after)]"

text \<open>A Python dict keyed by JSON scalars: equal keys share an entry, which keeps the key that came first.\<close>

type_synonym keyed = "(json \<times> json) list"

fun keyed_put :: "json \<Rightarrow> json \<Rightarrow> keyed \<Rightarrow> keyed" where
  "keyed_put k v [] = [(k, v)]"
| "keyed_put k v (kv # m) = (if py_eq (fst kv) k then (fst kv, v) # m else kv # keyed_put k v m)"

definition keyed_get :: "keyed \<Rightarrow> json \<Rightarrow> json" where
  "keyed_get m k = (case find (\<lambda>kv. py_eq (fst kv) k) m of None \<Rightarrow> J_null | Some kv \<Rightarrow> snd kv)"

fun is_scalar :: "json \<Rightarrow> bool" where
  "is_scalar (J_list _) = False"
| "is_scalar (J_obj _) = False"
| "is_scalar _ = True"

fun keyed_by :: "string \<Rightarrow> json list \<Rightarrow> keyed \<Rightarrow> keyed option" where
  "keyed_by key [] m = Some m"
| "keyed_by key (J_obj d # xs) m =
     (if is_scalar (jget d key) then keyed_by key xs (keyed_put (jget d key) (J_obj d) m) else None)"
| "keyed_by key (_ # xs) m = None"

text \<open>\<open>sorted(keys, key=lambda x: (x is None, x))\<close>: numbers cannot be compared with strings.\<close>

fun num_value :: "json \<Rightarrow> rat option" where
  "num_value (J_bool b) = Some (if b then 1 else 0)"
| "num_value (J_int n) = Some (of_int n)"
| "num_value (J_float x) = Some x"
| "num_value _ = None"

fun str_value :: "json \<Rightarrow> string option" where
  "str_value (J_str s) = Some s"
| "str_value _ = None"

definition sort_keys :: "json list \<Rightarrow> json list option" where
  "sort_keys ks =
     (let nums = filter (\<lambda>k. num_value k \<noteq> None) ks; strs = filter (\<lambda>k. str_value k \<noteq> None) ks
      in if nums \<noteq> [] \<and> strs \<noteq> [] then None
         else Some (sort_key (the \<circ> num_value) nums @ sort_key (the \<circ> str_value) strs @ filter ((=) J_null) ks))"

definition union_keys :: "keyed \<Rightarrow> keyed \<Rightarrow> json list" where
  "union_keys bm am = map fst bm @ filter (\<lambda>k. \<not> list_ex (\<lambda>kv. py_eq (fst kv) k) bm) (map fst am)"

definition keyed_diff :: "(json \<Rightarrow> string) \<Rightarrow> string \<Rightarrow> string \<Rightarrow> json list \<Rightarrow> json list \<Rightarrow> diff_entry list option" where
  "keyed_diff str_of nm key before after =
     (case (keyed_by key before [], keyed_by key after []) of
        (Some bm, Some am) \<Rightarrow>
          map_option (List.map_filter
              (\<lambda>k. let b = keyed_get bm k; a = keyed_get am k
                   in if py_eq b a then None
                      else Some (diff_at (nm @ ''['' @ key @ ''='' @ json_str str_of k @ '']'') b a)))
            (sort_keys (union_keys bm am))
      | _ \<Rightarrow> None)"

definition compute_diff :: "(json \<Rightarrow> string) \<Rightarrow> json_dict \<Rightarrow> json_dict \<Rightarrow> diff_entry list option" where
  "compute_diff str_of before after =
     (case (items_of (jget before ''actions''), items_of (jget after ''actions''),
            items_of (jget before ''triggers''), items_of (jget after ''triggers''),
            items_of (jget before ''delivery_targets''), items_of (jget after ''delivery_targets'')) of
        (Some ba, Some aa, Some bt, Some aft, Some bd, Some ad) \<Rightarrow>
          (case (keyed_diff str_of ''actions'' ''ordinal'' ba aa,
                 keyed_diff str_of ''delivery_targets'' ''ordinal'' bd ad) of
             (Some actions, Some targets) \<Rightarrow>
               Some (scalar_diff before after @ contract_diff before after @ actions
                     @ index_diff str_of ''triggers'' bt aft @ targets)
           | _ \<Rightarrow> None)
      | _ \<Rightarrow> None)"

subsection \<open>Automations and their guards\<close>

record governed =
  gv_row :: automation
  gv_owner :: uuid
  gv_auto_apply_policy :: json
  gv_diff_budget_consumed :: int
  gv_diff_budget_max :: int
  gv_min_seconds :: int
  gv_last_self_edit_at :: "instant option"
  gv_doctor_enabled :: bool
  gv_doctor_automation_id :: "uuid option"

subsection \<open>The policy of automatic application\<close>

datatype refusal =
    Cooldown | Budget_exhausted | No_policy | High_risk | No_allowed_changes | Too_many_changes
  | Path_blocked | Path_not_allowed

text \<open>\<open>Raises\<close>: an exception, on a policy whose entries have the wrong types.\<close>

datatype verdict = Eligible | Refuse refusal | Raises

fun any_prefix :: "json list \<Rightarrow> string \<Rightarrow> bool option" where
  "any_prefix [] path = Some False"
| "any_prefix (J_str p # ps) path = (if prefix p path then Some True else any_prefix ps path)"
| "any_prefix (_ # ps) path = None"

fun check_paths :: "json list \<Rightarrow> json list \<Rightarrow> diff_entry list \<Rightarrow> verdict" where
  "check_paths blocked allowed [] = Eligible"
| "check_paths blocked allowed (e # es) =
     (case any_prefix blocked (de_path e) of
        None \<Rightarrow> Raises
      | Some True \<Rightarrow> Refuse Path_blocked
      | Some False \<Rightarrow>
          (case any_prefix allowed (de_path e) of
             None \<Rightarrow> Raises
           | Some False \<Rightarrow> Refuse Path_not_allowed
           | Some True \<Rightarrow> check_paths blocked allowed es))"

definition cooling_down :: "instant \<Rightarrow> governed \<Rightarrow> bool" where
  "cooling_down now g =
     (case gv_last_self_edit_at g of None \<Rightarrow> False | Some t \<Rightarrow> 0 < gv_min_seconds g \<and> now - t < gv_min_seconds g)"

text \<open>What a \<open>for\<close> loop over a value that is no list gives: the characters of a string, the keys of a dict.\<close>

definition iterate :: "json \<Rightarrow> json list option" where
  "iterate v = (case v of J_obj d \<Rightarrow> Some (map (J_str \<circ> fst) d) | _ \<Rightarrow> items_of v)"

definition evaluate_for_auto_apply ::
  "instant \<Rightarrow> governed \<Rightarrow> diff_entry list \<Rightarrow> string \<Rightarrow> uuid option \<Rightarrow> verdict" where
  "evaluate_for_auto_apply now g diff risk_class proposer_run_id =
     (if proposer_run_id \<noteq> None \<and> cooling_down now g then Refuse Cooldown
      else if 0 < gv_diff_budget_max g \<and> gv_diff_budget_max g \<le> gv_diff_budget_consumed g then Refuse Budget_exhausted
      else (case gv_auto_apply_policy g of
              J_obj policy \<Rightarrow>
                if policy = [] then Refuse No_policy
                else if risk_class = ''high'' then Refuse High_risk
                else (case jget policy ''allowed_changes'' of
                        J_list allowed \<Rightarrow>
                          if allowed = [] then Refuse No_allowed_changes
                          else (case int_of_json (py_or (jget policy ''max_changes_per_proposal'') (J_int 0)) of
                                  None \<Rightarrow> Raises
                                | Some max_changes \<Rightarrow>
                                    if 0 < max_changes \<and> max_changes < int (length diff) then Refuse Too_many_changes
                                    else if diff = [] then Eligible
                                    else (case iterate (jget policy ''hard_blocked'') of
                                            None \<Rightarrow> Raises
                                          | Some blocked \<Rightarrow> check_paths blocked allowed diff))
                      | _ \<Rightarrow> Refuse No_allowed_changes)
            | _ \<Rightarrow> Refuse No_policy))"

subsection \<open>The dry run\<close>

datatype dry_refusal = No_actions | Non_dict_entry | No_child_automation | Agent_run | App_invoke | Unknown_kind

definition dry_run_step :: "string \<Rightarrow> json_dict \<Rightarrow> dry_refusal option" where
  "dry_run_step kind config =
     (if kind = ''gateway.send'' \<or> kind = ''deliver'' \<or> kind = ''branch'' then None
      else if kind = ''sub_workflow'' then (if truthy (jget config ''child_automation_id'') then None else Some No_child_automation)
      else if kind = ''agent.run'' then Some Agent_run
      else if kind = ''app.invoke'' then Some App_invoke
      else Some Unknown_kind)"

text \<open>\<open>None\<close> where a conversion raises, else the refusal, if any.\<close>

fun dry_run_steps :: "(json \<Rightarrow> string) \<Rightarrow> json list \<Rightarrow> dry_refusal option option" where
  "dry_run_steps str_of [] = Some None"
| "dry_run_steps str_of (J_obj entry # rest) =
     (case (int_of_json (jget_default entry ''ordinal'' (J_int 0)), or_empty (jget entry ''config'')) of
        (Some ordinal, J_obj config) \<Rightarrow>
          (case dry_run_step (json_str str_of (jget_default entry ''action_type'' (J_str ''''))) config of
             Some e \<Rightarrow> Some (Some e)
           | None \<Rightarrow> dry_run_steps str_of rest)
      | _ \<Rightarrow> None)"
| "dry_run_steps str_of (_ # rest) = Some (Some Non_dict_entry)"

definition evaluate_dry_run :: "(json \<Rightarrow> string) \<Rightarrow> json_dict \<Rightarrow> dry_refusal option option" where
  "evaluate_dry_run str_of payload =
     (case iterate (jget payload ''actions'') of
        None \<Rightarrow> None
      | Some [] \<Rightarrow> Some (Some No_actions)
      | Some entries \<Rightarrow> dry_run_steps str_of entries)"

subsection \<open>Proposals\<close>

datatype comment = Auto_applied | Apply_failed | Dry_run_failed dry_refusal | Not_eligible refusal | Reviewer string

record proposal =
  pr_id :: uuid
  pr_automation_id :: uuid
  pr_from_version_id :: "uuid option"
  pr_to_payload :: json_dict
  pr_diff_summary :: "diff_entry list"
  pr_rationale :: string
  pr_risk_class :: string
  pr_status :: string
  pr_applied_version_id :: "uuid option"
  pr_proposer_user_id :: "uuid option"
  pr_proposer_run_id :: "uuid option"
  pr_reviewer_user_id :: "uuid option"
  pr_reviewer_comment :: "comment option"
  pr_decided_at :: "instant option"
  pr_expires_at :: instant

record proposal_db =
  pd_rows :: workflow_db
  pd_automations :: "governed list"
  pd_proposals :: "proposal list"

record proposal_env =
  pe_sha256 :: "json \<Rightarrow> string"
  pe_str :: "json \<Rightarrow> string"
  pe_accepts :: "workflow_db \<Rightarrow> automation \<Rightarrow> bool"

definition find_automation :: "proposal_db \<Rightarrow> uuid \<Rightarrow> governed option" where
  "find_automation db aid = find (\<lambda>g. ad_id (gv_row g) = aid) (pd_automations db)"

definition put_automation :: "governed \<Rightarrow> proposal_db \<Rightarrow> proposal_db" where
  "put_automation g db = db\<lparr>pd_automations :=
     map (\<lambda>x. if ad_id (gv_row x) = ad_id (gv_row g) then g else x) (pd_automations db)\<rparr>"

definition get_proposal :: "proposal_db \<Rightarrow> uuid \<Rightarrow> proposal option" where
  "get_proposal db k = find (\<lambda>p. pr_id p = k) (pd_proposals db)"

definition put_proposal :: "proposal \<Rightarrow> proposal_db \<Rightarrow> proposal_db" where
  "put_proposal p db = db\<lparr>pd_proposals := map (\<lambda>x. if pr_id x = pr_id p then p else x) (pd_proposals db)\<rparr>"

subsection \<open>Applying a proposal\<close>

text \<open>The rows of a payload, \<open>None\<close> where a conversion raises.  (\<open>dict\<close> of a list of pairs is not modelled: it
  raises here.)\<close>

fun payload_action :: "(json \<Rightarrow> string) \<Rightarrow> uuid \<Rightarrow> json \<Rightarrow> action option" where
  "payload_action str_of k (J_obj item) =
     (case (int_of_json (jget_default item ''ordinal'' (J_int 0)), or_empty (jget item ''config''),
            read_opt_uuid str_of (jget item ''app_action_id''),
            read_opt_uuid str_of (jget item ''parent_action_id'')) of
        (Some ordinal, J_obj config, Some app_action_id, Some parent_action_id) \<Rightarrow>
          Some \<lparr>ac_id = k, ac_ordinal = ordinal,
                ac_type = json_str str_of (jget_default item ''action_type'' (J_str '''')),
                ac_config = J_obj config, ac_app_action_id = app_action_id,
                ac_parent_action_id = parent_action_id, ac_branch_condition = jget item ''branch_condition''\<rparr>
      | _ \<Rightarrow> None)"
| "payload_action str_of k _ = None"

fun payload_trigger :: "(json \<Rightarrow> string) \<Rightarrow> instant \<Rightarrow> uuid \<Rightarrow> json \<Rightarrow> trigger option" where
  "payload_trigger str_of now k (J_obj item) =
     (case or_empty (jget item ''config'') of
        J_obj config \<Rightarrow>
          Some \<lparr>tr_id = k, tr_kind = json_str str_of (jget_default item ''kind'' (J_str ''manual'')),
                tr_config = J_obj config, tr_is_active = truthy (jget_default item ''is_active'' (J_bool True)),
                tr_created_at = now\<rparr>
      | _ \<Rightarrow> None)"
| "payload_trigger str_of now k _ = None"

fun payload_target :: "(json \<Rightarrow> string) \<Rightarrow> uuid \<Rightarrow> json \<Rightarrow> delivery_target option" where
  "payload_target str_of k (J_obj item) =
     (case (parse_uuid (json_str str_of (jget item ''destination_id'')),
            int_of_json (jget_default item ''ordinal'' (J_int 0)), or_empty (jget item ''on_failure'')) of
        (Some destination, Some ordinal, J_obj on_failure) \<Rightarrow>
          Some \<lparr>dt_id = k, dt_destination_id = destination, dt_ordinal = ordinal, dt_on_failure = J_obj on_failure,
                dt_artifact_filter = json_str str_of (py_or (jget item ''artifact_filter'') (J_str ''all''))\<rparr>
      | _ \<Rightarrow> None)"
| "payload_target str_of k _ = None"

text \<open>The old rows go first; the rows before a bad item are added.\<close>

fun add_rows :: "(uuid \<Rightarrow> json \<Rightarrow> 'a option) \<Rightarrow> (nat \<Rightarrow> uuid) \<Rightarrow> uuid \<Rightarrow> nat \<Rightarrow> json list \<Rightarrow> (uuid \<times> 'a) list
    \<Rightarrow> (uuid \<times> 'a) list \<times> bool" where
  "add_rows mk ids aid n [] table = (table, True)"
| "add_rows mk ids aid n (x # xs) table =
     (case mk (ids n) x of
        None \<Rightarrow> (table, False)
      | Some row \<Rightarrow> add_rows mk ids aid (Suc n) xs (table @ [(aid, row)]))"

definition replace_rows :: "(uuid \<Rightarrow> json \<Rightarrow> 'a option) \<Rightarrow> (nat \<Rightarrow> uuid) \<Rightarrow> uuid \<Rightarrow> json \<Rightarrow> (uuid \<times> 'a) list
    \<Rightarrow> (uuid \<times> 'a) list \<times> bool" where
  "replace_rows mk ids aid v table =
     (let kept = filter (\<lambda>r. fst r \<noteq> aid) table
      in case items_of v of None \<Rightarrow> (kept, False) | Some items \<Rightarrow> add_rows mk ids aid 0 items kept)"

datatype apply_fault = F_no_automation | F_refused | F_value | F_db

text \<open>A text column takes text only: another value is refused by the database.\<close>

definition set_text :: "json_dict \<Rightarrow> string \<Rightarrow> (string \<Rightarrow> automation \<Rightarrow> automation) \<Rightarrow> automation \<Rightarrow> automation option" where
  "set_text payload k upd row =
     (case map_of payload k of None \<Rightarrow> Some row | Some (J_str s) \<Rightarrow> Some (upd s row) | Some _ \<Rightarrow> None)"

definition set_json :: "json_dict \<Rightarrow> string \<Rightarrow> (json \<Rightarrow> automation \<Rightarrow> automation) \<Rightarrow> automation \<Rightarrow> automation" where
  "set_json payload k upd row = (case map_of payload k of None \<Rightarrow> row | Some v \<Rightarrow> upd v row)"

definition set_texts :: "json_dict \<Rightarrow> automation \<Rightarrow> automation option" where
  "set_texts payload row =
     Option.bind (set_text payload ''name'' (\<lambda>s r. r\<lparr>ad_name := s\<rparr>) row) (\<lambda>r1.
     Option.bind (set_text payload ''workspace_scope'' (\<lambda>s r. r\<lparr>ad_workspace_scope := Some s\<rparr>) r1)
       (set_text payload ''compute_profile'' (\<lambda>s r. r\<lparr>ad_compute_profile := Some s\<rparr>)))"

definition set_scalars :: "json_dict \<Rightarrow> automation \<Rightarrow> automation \<times> apply_fault option" where
  "set_scalars payload row =
     (case set_texts payload row of
        None \<Rightarrow> (row, Some F_db)
      | Some r1 \<Rightarrow>
          (let r2 = set_json payload ''contract'' (\<lambda>v r. r\<lparr>ad_contract := v\<rparr>) r1;
               spends = (\<lambda>r. set_json payload ''max_spend_per_day_usd'' (\<lambda>v r. r\<lparr>ad_max_spend_per_day := v\<rparr>)
                          (set_json payload ''max_spend_per_run_usd'' (\<lambda>v r. r\<lparr>ad_max_spend_per_run := v\<rparr>) r))
           in case map_of payload ''max_compute_tier'' of
                None \<Rightarrow> (spends r2, None)
              | Some v \<Rightarrow>
                  (case int_of_json v of
                     None \<Rightarrow> (r2, Some F_value)
                   | Some n \<Rightarrow> (spends (r2\<lparr>ad_max_compute_tier := Some n\<rparr>), None))))"

text \<open>The three tables in the order of the code; \<open>False\<close> when an item raised.\<close>

definition replace_children ::
  "(json \<Rightarrow> string) \<Rightarrow> instant \<Rightarrow> (nat \<Rightarrow> uuid) \<Rightarrow> uuid \<Rightarrow> json_dict \<Rightarrow> workflow_db \<Rightarrow> workflow_db \<times> bool" where
  "replace_children str_of now ids aid payload rows =
     (let (actions, ok) = replace_rows (payload_action str_of) (\<lambda>n. ids (3 * n)) aid (jget payload ''actions'') (t_actions rows);
          rows1 = rows\<lparr>t_actions := actions\<rparr>
      in if \<not> ok then (rows1, False)
         else (let (triggers, ok) = replace_rows (payload_trigger str_of now) (\<lambda>n. ids (3 * n + 1)) aid
                     (jget payload ''triggers'') (t_triggers rows1);
                   rows2 = rows1\<lparr>t_triggers := triggers\<rparr>
               in if \<not> ok then (rows2, False)
                  else (let (targets, ok) = replace_rows (payload_target str_of) (\<lambda>n. ids (3 * n + 2)) aid
                              (jget payload ''delivery_targets'') (t_targets rows2)
                        in (rows2\<lparr>t_targets := targets\<rparr>, ok))))"

definition applied_rationale :: "proposal \<Rightarrow> string" where
  "applied_rationale p = ''applied proposal '' @ uuid_str (pr_id p) @ '': '' @ pr_rationale p"

definition apply_proposal ::
  "proposal_env \<Rightarrow> instant \<Rightarrow> (nat \<Rightarrow> uuid) \<Rightarrow> uuid \<Rightarrow> proposal \<Rightarrow> uuid option \<Rightarrow> proposal_db
   \<Rightarrow> proposal_db \<times> (apply_fault, version) result" where
  "apply_proposal env now ids version_id p actor_user_id db =
     (case find_automation db (pr_automation_id p) of
        None \<Rightarrow> (db, Inl F_no_automation)
      | Some g \<Rightarrow>
          if actor_user_id = None \<and> pr_proposer_user_id p = None then (db, Inl F_refused)
          else (case set_scalars (pr_to_payload p) (gv_row g) of
                  (row1, Some fault) \<Rightarrow> (put_automation (g\<lparr>gv_row := row1\<rparr>) db, Inl fault)
                | (row1, None) \<Rightarrow>
                    (let (rows1, ok) = replace_children (pe_str env) now ids (ad_id row1) (pr_to_payload p) (pd_rows db);
                         db1 = put_automation (g\<lparr>gv_row := row1\<rparr>) (db\<lparr>pd_rows := rows1\<rparr>)
                     in if \<not> ok then (db1, Inl F_value)
                        else if \<not> pe_accepts env rows1 row1 then (db1, Inl F_db)
                        else (let (rows2, row2, v, inserted) =
                                    snapshot_definition (pe_sha256 env) rows1 row1 version_id (Some (applied_rationale p)) True
                              in (put_proposal (p\<lparr>pr_status := ''applied'', pr_applied_version_id := Some (wv_id v),
                                                 pr_reviewer_user_id := actor_user_id, pr_decided_at := Some now\<rparr>)
                                    (put_automation (g\<lparr>gv_row := row2\<rparr>) (db1\<lparr>pd_rows := rows2\<rparr>)), Inr v)))))"

subsection \<open>Creating and deciding\<close>

datatype proposal_error = Proposal_error | Proposal_not_found | Already_decided | Python_error | Database_error
  | Not_authorized | Route_not_found

definition open_duplicate :: "proposal_env \<Rightarrow> uuid \<Rightarrow> uuid option \<Rightarrow> json_dict \<Rightarrow> proposal_db \<Rightarrow> proposal option" where
  "open_duplicate env aid base to_payload db =
     find (\<lambda>p. pr_automation_id p = aid \<and> pr_from_version_id p = base \<and> pr_status p \<in> {''submitted'', ''approved''}
             \<and> canonical_sha256 (pe_sha256 env) (pr_to_payload p) = canonical_sha256 (pe_sha256 env) to_payload)
       (pd_proposals db)"

definition base_payload :: "proposal_db \<Rightarrow> uuid option \<Rightarrow> json_dict" where
  "base_payload db base =
     (case base of
        None \<Rightarrow> []
      | Some k \<Rightarrow> (case version_by_id (t_versions (pd_rows db)) k of None \<Rightarrow> [] | Some v \<Rightarrow> wv_payload v))"

definition set_comment :: "comment \<Rightarrow> uuid \<Rightarrow> proposal_db \<Rightarrow> proposal_db" where
  "set_comment c k db = db\<lparr>pd_proposals :=
     map (\<lambda>x. if pr_id x = k then x\<lparr>pr_reviewer_comment := Some c\<rparr> else x) (pd_proposals db)\<rparr>"

definition bump_guard :: "instant \<Rightarrow> uuid \<Rightarrow> governed \<Rightarrow> governed" where
  "bump_guard now aid g =
     (if ad_id (gv_row g) = aid
      then g\<lparr>gv_diff_budget_consumed := gv_diff_budget_consumed g + 1, gv_last_self_edit_at := Some now\<rparr> else g)"

definition bump_guards :: "instant \<Rightarrow> uuid \<Rightarrow> proposal_db \<Rightarrow> proposal_db" where
  "bump_guards now aid db = db\<lparr>pd_automations := map (bump_guard now aid) (pd_automations db)\<rparr>"

text \<open>Whether the commit that follows a caught exception goes through: what was changed before it has to meet the
  constraints of the tables.\<close>

definition commits :: "proposal_env \<Rightarrow> uuid \<Rightarrow> apply_fault \<Rightarrow> proposal_db \<Rightarrow> bool" where
  "commits env aid f db \<longleftrightarrow>
     (case find_automation db aid of
        None \<Rightarrow> True
      | Some g \<Rightarrow> f = F_value \<longrightarrow> pe_accepts env (pd_rows db) (gv_row g))"

text \<open>The part after the row is written: apply at once, or say why not.  An exception inside \<open>apply_proposal\<close> is
  caught, and what it had changed before stays in the session.\<close>

definition auto_apply ::
  "proposal_env \<Rightarrow> instant \<Rightarrow> (nat \<Rightarrow> uuid) \<Rightarrow> uuid \<Rightarrow> governed \<Rightarrow> proposal \<Rightarrow> proposal_db \<Rightarrow> (proposal_error, proposal_db) result" where
  "auto_apply env now ids version_id g p db =
     (case evaluate_for_auto_apply now g (pr_diff_summary p) (pr_risk_class p) (pr_proposer_run_id p) of
        Raises \<Rightarrow> Inl Python_error
      | Refuse r \<Rightarrow> Inr (set_comment (Not_eligible r) (pr_id p) db)
      | Eligible \<Rightarrow>
          (case evaluate_dry_run (pe_str env) (pr_to_payload p) of
             None \<Rightarrow> Inl Python_error
           | Some (Some r) \<Rightarrow> Inr (set_comment (Dry_run_failed r) (pr_id p) db)
           | Some None \<Rightarrow>
               (case apply_proposal env now ids version_id p (pr_proposer_user_id p) db of
                  (db', Inr v) \<Rightarrow> Inr (set_comment Auto_applied (pr_id p) (bump_guards now (pr_automation_id p) db'))
                | (db', Inl f) \<Rightarrow>
                    if f = F_db \<or> \<not> commits env (pr_automation_id p) f db' then Inl Database_error
                    else Inr (set_comment Apply_failed (pr_id p) db'))))"

definition expiry_seconds :: int where
  "expiry_seconds = 604800"

definition new_proposal ::
  "instant \<Rightarrow> uuid \<Rightarrow> uuid \<Rightarrow> uuid option \<Rightarrow> json_dict \<Rightarrow> diff_entry list \<Rightarrow> string \<Rightarrow> string \<Rightarrow> uuid option \<Rightarrow> uuid option
   \<Rightarrow> proposal" where
  "new_proposal now k aid base to_payload diff rationale risk_class user run =
     \<lparr>pr_id = k, pr_automation_id = aid, pr_from_version_id = base, pr_to_payload = to_payload, pr_diff_summary = diff,
      pr_rationale = rationale, pr_risk_class = risk_class, pr_status = ''submitted'', pr_applied_version_id = None,
      pr_proposer_user_id = user, pr_proposer_run_id = run, pr_reviewer_user_id = None, pr_reviewer_comment = None,
      pr_decided_at = None, pr_expires_at = now + expiry_seconds\<rparr>"

text \<open>The id of the proposal, and whether it is new.\<close>

definition create_proposal ::
  "proposal_env \<Rightarrow> instant \<Rightarrow> (nat \<Rightarrow> uuid) \<Rightarrow> uuid \<Rightarrow> uuid \<Rightarrow> governed \<Rightarrow> json_dict \<Rightarrow> string \<Rightarrow> string \<Rightarrow> uuid option
   \<Rightarrow> uuid option \<Rightarrow> uuid option \<Rightarrow> proposal_db \<Rightarrow> (proposal_error, proposal_db \<times> uuid \<times> bool) result" where
  "create_proposal env now ids version_id k g to_payload rationale risk_class user run from_version_id db =
     (if user = None \<and> run = None then Inl Proposal_error
      else if risk_class \<notin> {''low'', ''medium'', ''high''} then Inl Proposal_error
      else (let aid = ad_id (gv_row g);
                base = (case from_version_id of None \<Rightarrow> ad_head_version_id (gv_row g) | Some v \<Rightarrow> Some v)
            in case open_duplicate env aid base to_payload db of
                 Some row \<Rightarrow> Inr (db, pr_id row, False)
               | None \<Rightarrow>
                   (case compute_diff (pe_str env) (base_payload db base) to_payload of
                      None \<Rightarrow> Inl Python_error
                    | Some diff \<Rightarrow>
                        if k \<in> pr_id ` set (pd_proposals db) then Inl Database_error
                        else (let p = new_proposal now k aid base to_payload diff rationale risk_class user run
                         in case auto_apply env now ids version_id g p (db\<lparr>pd_proposals := pd_proposals db @ [p]\<rparr>) of
                              Inl e \<Rightarrow> Inl e
                            | Inr db' \<Rightarrow> Inr (db', k, True)))))"

definition reset_guard :: "uuid \<Rightarrow> governed \<Rightarrow> governed" where
  "reset_guard aid g = (if ad_id (gv_row g) = aid then g\<lparr>gv_diff_budget_consumed := 0\<rparr> else g)"

definition reset_budget :: "uuid \<Rightarrow> proposal_db \<Rightarrow> proposal_db" where
  "reset_budget aid db = db\<lparr>pd_automations := map (reset_guard aid) (pd_automations db)\<rparr>"

definition fault_error :: "apply_fault \<Rightarrow> proposal_error" where
  "fault_error f = (case f of F_refused \<Rightarrow> Proposal_error | F_db \<Rightarrow> Database_error | _ \<Rightarrow> Python_error)"

definition decide_proposal ::
  "proposal_env \<Rightarrow> instant \<Rightarrow> (nat \<Rightarrow> uuid) \<Rightarrow> uuid \<Rightarrow> uuid \<Rightarrow> string \<Rightarrow> uuid \<Rightarrow> string option \<Rightarrow> proposal_db
   \<Rightarrow> (proposal_error, proposal_db) result" where
  "decide_proposal env now ids version_id k decision reviewer note db =
     (if decision \<noteq> ''approve'' \<and> decision \<noteq> ''reject'' then Inl Proposal_error
      else (case get_proposal db k of
              None \<Rightarrow> Inl Proposal_not_found
            | Some p \<Rightarrow>
                if pr_status p \<noteq> ''submitted'' then Inl Already_decided
                else if decision = ''reject''
                then Inr (put_proposal (p\<lparr>pr_status := ''rejected'', pr_reviewer_user_id := Some reviewer,
                            pr_reviewer_comment := map_option Reviewer note, pr_decided_at := Some now\<rparr>) db)
                else (case apply_proposal env now ids version_id p (Some reviewer) db of
                        (db', Inl f) \<Rightarrow> Inl (fault_error f)
                      | (db', Inr v) \<Rightarrow>
                          (let db2 = reset_budget (pr_automation_id p) db'
                           in Inr (case note of
                                     Some (c # cs) \<Rightarrow> set_comment (Reviewer (c # cs)) k db2
                                   | _ \<Rightarrow> db2)))))"

definition withdraw_proposal :: "instant \<Rightarrow> uuid \<Rightarrow> proposal_db \<Rightarrow> (proposal_error, proposal_db) result" where
  "withdraw_proposal now k db =
     (case get_proposal db k of
        None \<Rightarrow> Inl Proposal_not_found
      | Some p \<Rightarrow>
          if pr_status p \<noteq> ''submitted'' then Inl Already_decided
          else Inr (put_proposal (p\<lparr>pr_status := ''withdrawn'', pr_decided_at := Some now\<rparr>) db))"

subsection \<open>The doctor of a workflow\<close>

definition doctor_contract :: "uuid \<Rightarrow> json" where
  "doctor_contract target = J_obj
     [(''allowed_tools'', J_list [J_str ''read_workflow_history'', J_str ''manage_workflow_proposal'', J_str ''send_message'']),
      (''max_compute_tier'', J_int 0), (''on_breach'', J_str ''pause_for_approval''),
      (''allowed_workflow_ids'', J_list [J_str (uuid_str target)]),
      (''rationale'', J_str ''doctor scope: only the target workflow'')]"

text \<open>\<open>agent\<close>: the agent the library offers, if any; \<open>prompt\<close>: the text of its instructions.\<close>

definition doctor_row :: "uuid \<Rightarrow> governed \<Rightarrow> governed" where
  "doctor_row k target =
     \<lparr>gv_row = \<lparr>ad_id = k, ad_name = ''doctor:'' @ ad_name (gv_row target), ad_contract = doctor_contract (ad_id (gv_row target)),
        ad_max_compute_tier = Some 0, ad_max_spend_per_run = J_null, ad_max_spend_per_day = J_null,
        ad_compute_profile = Some ''connector_only'', ad_workspace_scope = Some ''none'', ad_head_version_id = None\<rparr>,
      gv_owner = gv_owner target, gv_auto_apply_policy = J_null, gv_diff_budget_consumed = 0, gv_diff_budget_max = 5,
      gv_min_seconds = 86400, gv_last_self_edit_at = None, gv_doctor_enabled = False, gv_doctor_automation_id = None\<rparr>"

definition ensure_doctor_for ::
  "proposal_env \<Rightarrow> instant \<Rightarrow> (nat \<Rightarrow> uuid) \<Rightarrow> uuid \<Rightarrow> uuid \<Rightarrow> uuid option \<Rightarrow> string \<Rightarrow> governed \<Rightarrow> proposal_db
   \<Rightarrow> (proposal_error, proposal_db) result" where
  "ensure_doctor_for env now ids version_id k agent prompt target db =
     (case Option.bind (gv_doctor_automation_id target) (find_automation db) of
        Some existing \<Rightarrow> Inr (put_automation (target\<lparr>gv_doctor_enabled := True\<rparr>) db)
      | None \<Rightarrow>
          (case agent of
             None \<Rightarrow> Inl Python_error
           | Some agent_id \<Rightarrow>
               if find_automation db k \<noteq> None then Inl Database_error
               else (let tid = uuid_str (ad_id (gv_row target));
                         trigger = \<lparr>tr_id = ids 0, tr_kind = ''workflow_event'',
                           tr_config = J_obj [(''watched_automation_id'', J_str tid),
                             (''event_kinds'', J_list [J_str ''run.failed'', J_str ''error.raised'', J_str ''step.failed''])],
                           tr_is_active = True, tr_created_at = now\<rparr>;
                         act = \<lparr>ac_id = ids 1, ac_ordinal = 0, ac_type = ''agent.run'',
                           ac_config = J_obj [(''agent_id'', J_str (uuid_str agent_id)), (''prompt'', J_str prompt),
                             (''target_automation_id'', J_str tid)],
                           ac_app_action_id = None, ac_parent_action_id = None, ac_branch_condition = J_null\<rparr>;
                         rows = (pd_rows db)\<lparr>t_triggers := t_triggers (pd_rows db) @ [(k, trigger)],
                                            t_actions := t_actions (pd_rows db) @ [(k, act)]\<rparr>;
                         doctor = doctor_row k target;
                         (rows', row', v, inserted) = snapshot_definition (pe_sha256 env) rows (gv_row doctor) version_id
                           (Some (''doctor bootstrap for target='' @ tid)) True
                     in Inr (put_automation (target\<lparr>gv_doctor_automation_id := Some k, gv_doctor_enabled := True\<rparr>)
                          (db\<lparr>pd_rows := rows', pd_automations := pd_automations db @ [doctor\<lparr>gv_row := row'\<rparr>]\<rparr>)))))"

definition disable_doctor_for :: "governed \<Rightarrow> proposal_db \<Rightarrow> proposal_db" where
  "disable_doctor_for target db =
     (let db1 = put_automation (target\<lparr>gv_doctor_enabled := False\<rparr>) db
      in case gv_doctor_automation_id target of
           None \<Rightarrow> db1
         | Some k \<Rightarrow> db1\<lparr>pd_rows := (pd_rows db1)\<lparr>t_triggers :=
             map (\<lambda>r. if fst r = k \<and> tr_kind (snd r) = ''workflow_event'' then (k, (snd r)\<lparr>tr_is_active := False\<rparr>) else r)
               (t_triggers (pd_rows db1))\<rparr>\<rparr>)"

subsection \<open>Requests\<close>

text \<open>\<open>cl_role\<close>: the role of the caller in the team of an automation, if it has one.\<close>

record caller =
  cl_id :: uuid
  cl_is_superuser :: bool
  cl_role :: "uuid \<Rightarrow> string option"

definition authorize_definition :: "governed \<Rightarrow> caller \<Rightarrow> proposal_error option" where
  "authorize_definition g user =
     (if cl_is_superuser user \<or> gv_owner g = cl_id user then None
      else (case cl_role user (ad_id (gv_row g)) of
              None \<Rightarrow> Some Route_not_found
            | Some role \<Rightarrow> if role \<in> {''admin'', ''editor''} then None else Some Not_authorized))"

definition with_automation ::
  "caller \<Rightarrow> uuid \<Rightarrow> proposal_db \<Rightarrow> (governed \<Rightarrow> (proposal_error, 'a) result) \<Rightarrow> (proposal_error, 'a) result" where
  "with_automation user aid db k =
     (case find_automation db aid of
        None \<Rightarrow> Inl Route_not_found
      | Some g \<Rightarrow> (case authorize_definition g user of Some e \<Rightarrow> Inl e | None \<Rightarrow> k g))"

text \<open>What a request brings from outside: the clock and the identifiers it draws.\<close>

record stamp =
  st_now :: instant
  st_ids :: "nat \<Rightarrow> uuid"
  st_version :: uuid
  st_key :: uuid

datatype prop_op =
    Create_route caller uuid json_dict string string "uuid option"
  | Create_tool "uuid option" "uuid option" "string list option" uuid json_dict string string
  | Decide_route caller uuid uuid string "string option"
  | Withdraw_tool uuid
  | Owner_edit uuid workflow_db automation
  | Enable_doctor caller uuid "uuid option" string
  | Disable_doctor caller uuid

text \<open>The gate of the tool: an automation of the user, within the scope of the contract.\<close>

definition load_owned ::
  "uuid option \<Rightarrow> string list option \<Rightarrow> uuid \<Rightarrow> proposal_db \<Rightarrow> governed option" where
  "load_owned user_id allowed aid db =
     (case find_automation db aid of
        None \<Rightarrow> None
      | Some g \<Rightarrow>
          if user_id \<noteq> None \<and> user_id \<noteq> Some (gv_owner g) then None
          else (case allowed of
                  None \<Rightarrow> Some g
                | Some ids \<Rightarrow> if uuid_str aid \<in> set ids then Some g else None))"

fun prop_op_run :: "proposal_env \<Rightarrow> stamp \<Rightarrow> prop_op \<Rightarrow> proposal_db \<Rightarrow> (proposal_error, proposal_db) result" where
  "prop_op_run env t (Create_route user aid to_payload rationale risk_class from_version_id) db =
     with_automation user aid db (\<lambda>g.
       if to_payload = [] \<or> py_strip rationale = [] then Inl Proposal_error
       else map_sum id fst (create_proposal env (st_now t) (st_ids t) (st_version t) (st_key t) g to_payload rationale
              risk_class (Some (cl_id user)) None from_version_id db))"
| "prop_op_run env t (Create_tool user_id run_id allowed aid to_payload rationale risk_class) db =
     (if user_id = None \<and> run_id = None \<or> rationale = [] then Inl Proposal_error
      else (case load_owned user_id allowed aid db of
              None \<Rightarrow> Inl Route_not_found
            | Some g \<Rightarrow> map_sum id fst (create_proposal env (st_now t) (st_ids t) (st_version t) (st_key t) g to_payload
                rationale risk_class user_id run_id None db)))"
| "prop_op_run env t (Decide_route user aid k decision note) db =
     with_automation user aid db (\<lambda>g.
       (case decide_proposal env (st_now t) (st_ids t) (st_version t) k decision (cl_id user) note db of
          Inl e \<Rightarrow> Inl e
        | Inr db' \<Rightarrow>
            if map_option pr_automation_id (get_proposal db' k) = Some aid then Inr db' else Inl Route_not_found))"
| "prop_op_run env t (Withdraw_tool k) db = withdraw_proposal (st_now t) k db"
| "prop_op_run env t (Owner_edit aid rows row) db =
     (case find_automation db aid of
        None \<Rightarrow> Inl Route_not_found
      | Some g \<Rightarrow>
          (let (rows', row', v, inserted) = snapshot_definition (pe_sha256 env)
                  (rows\<lparr>t_versions := t_versions (pd_rows db)\<rparr>) (row\<lparr>ad_id := aid\<rparr>) (st_version t) None True
           in Inr (put_automation (g\<lparr>gv_row := row'\<rparr>) (db\<lparr>pd_rows := rows'\<rparr>))))"
| "prop_op_run env t (Enable_doctor user aid agent prompt) db =
     with_automation user aid db (\<lambda>g.
       ensure_doctor_for env (st_now t) (st_ids t) (st_version t) (st_key t) agent prompt g db)"
| "prop_op_run env t (Disable_doctor user aid) db =
     with_automation user aid db (\<lambda>g. Inr (disable_doctor_for g db))"

text \<open>A request that fails leaves the tables as they were.\<close>

definition prop_step :: "proposal_env \<Rightarrow> proposal_db \<Rightarrow> stamp \<times> prop_op \<Rightarrow> proposal_db" where
  "prop_step env db r = (case prop_op_run env (fst r) (snd r) db of Inl e \<Rightarrow> db | Inr db' \<Rightarrow> db')"

abbreviation proposal_run :: "proposal_env \<Rightarrow> proposal_db \<Rightarrow> (stamp \<times> prop_op) list \<Rightarrow> proposal_db" where
  "proposal_run env \<equiv> foldl (prop_step env)"

subsection \<open>Frames\<close>

definition guards :: "governed \<Rightarrow> uuid \<times> uuid \<times> json \<times> int \<times> int \<times> int \<times> instant option" where
  "guards g = (ad_id (gv_row g), gv_owner g, gv_auto_apply_policy g, gv_diff_budget_consumed g, gv_diff_budget_max g,
     gv_min_seconds g, gv_last_self_edit_at g)"

definition same_guards :: "governed \<Rightarrow> governed \<Rightarrow> bool" where
  "same_guards a b \<longleftrightarrow> guards a = guards b"

lemma guards_set_row: "ad_id row = ad_id (gv_row g) \<Longrightarrow> guards (g\<lparr>gv_row := row\<rparr>) = guards g"
  by (simp add: guards_def)

lemma same_guards_refl [simp]: "same_guards g g"
  by (simp add: same_guards_def)

lemma find_list_all2:
  "list_all2 R xs ys \<Longrightarrow> (\<And>x y. R x y \<Longrightarrow> P x = Q y) \<Longrightarrow> rel_option R (find P xs) (find Q ys)"
  by (induction rule: list_all2_induct) auto

text \<open>\<open>ids_of\<close>: automations are keyed by their id.\<close>

abbreviation ids_of :: "proposal_db \<Rightarrow> uuid list" where
  "ids_of db \<equiv> map (\<lambda>g. ad_id (gv_row g)) (pd_automations db)"

text \<open>The keys of both tables, and that an open proposal does not claim to be applied.\<close>

definition proposals_ok :: "proposal list \<Rightarrow> bool" where
  "proposals_ok ps \<longleftrightarrow> distinct (map pr_id ps)
     \<and> (\<forall>p \<in> set ps. pr_reviewer_comment p = Some Auto_applied \<longrightarrow> pr_status p = ''applied'')"

definition keys_ok :: "proposal_db \<Rightarrow> bool" where
  "keys_ok db \<longleftrightarrow> distinct (ids_of db) \<and> proposals_ok (pd_proposals db)"

lemma find_automation_unique:
  assumes "distinct (ids_of db)" and "find_automation db aid = Some g" and "x \<in> set (pd_automations db)"
    and "ad_id (gv_row x) = aid"
  shows "x = g"
proof -
  have "g \<in> set (pd_automations db)" "ad_id (gv_row g) = aid"
    using find_SomeD[OF assms(2)[unfolded find_automation_def]] by auto
  with assms(1,3,4) show ?thesis by (auto simp: distinct_map inj_on_def)
qed

lemma put_automation_frame:
  assumes "distinct (ids_of db)" and "find_automation db (ad_id (gv_row g)) = Some g0" and "guards g = guards g0"
  shows "list_all2 same_guards (pd_automations db) (pd_automations (put_automation g db))"
  using find_automation_unique[OF assms(1,2)] assms(3)
  by (auto simp: put_automation_def list_all2_map2 list_all2_same same_guards_def)

lemma put_automation_ids [simp]: "ids_of (put_automation g db) = ids_of db"
  by (simp add: put_automation_def comp_def)

lemma put_automation_proposals [frame_simps]: "pd_proposals (put_automation g db) = pd_proposals db"
  by (simp add: put_automation_def)

lemma put_proposal_automations [frame_simps]: "pd_automations (put_proposal p db) = pd_automations db"
  by (simp add: put_proposal_def)

lemma set_comment_frame [frame_simps]: "pd_automations (set_comment c k db) = pd_automations db"
    "pd_rows (set_comment c k db) = pd_rows db"
  by (simp_all add: set_comment_def)

lemma set_text_id: "set_text payload k upd row = Some r \<Longrightarrow> (\<And>x y. ad_id (upd x y) = ad_id y) \<Longrightarrow> ad_id r = ad_id row"
  by (auto simp: set_text_def split: option.splits json.splits)

lemma set_json_id [simp]: "(\<And>x y. ad_id (upd x y) = ad_id y) \<Longrightarrow> ad_id (set_json payload k upd row) = ad_id row"
  by (auto simp: set_json_def split: option.splits)

lemma set_texts_id: "set_texts payload row = Some r \<Longrightarrow> ad_id r = ad_id row"
  by (auto simp: set_texts_def bind_eq_Some_conv dest!: set_text_id)

lemma set_scalars_id: "ad_id (fst (set_scalars payload row)) = ad_id row"
proof (cases "set_texts payload row")
  case (Some r)
  from set_texts_id[OF this] Some show ?thesis
    by (simp add: set_scalars_def Let_def split: option.split)
qed (simp add: set_scalars_def)

lemma snapshot_head_id:
  "snapshot_definition h db defn k r u = (db', defn', v, i) \<Longrightarrow> ad_id defn' = ad_id defn"
  by (auto simp: snapshot_definition_def set_head_def split: prod.splits if_splits)

lemma snapshot_head:
  "snapshot_definition h db defn k r u = (db', defn', v, i) \<Longrightarrow> defn' = set_head u v defn"
  by (auto simp: snapshot_definition_def split: prod.splits)

lemma list_all2_same_guards_ids:
  "list_all2 same_guards xs ys \<Longrightarrow> map (\<lambda>g. ad_id (gv_row g)) ys = map (\<lambda>g. ad_id (gv_row g)) xs"
  by (erule list_all2_map_eq) (simp add: same_guards_def guards_def)

lemma list_all2_same_guards_trans:
  "list_all2 same_guards xs ys \<Longrightarrow> list_all2 same_guards ys zs \<Longrightarrow> list_all2 same_guards xs zs"
  by (rule list_all2_trans[of same_guards same_guards same_guards]) (auto simp: same_guards_def)

definition applied_to :: "instant \<Rightarrow> uuid option \<Rightarrow> version \<Rightarrow> proposal \<Rightarrow> proposal" where
  "applied_to now actor v p = p\<lparr>pr_status := ''applied'', pr_applied_version_id := Some (wv_id v),
     pr_reviewer_user_id := actor, pr_decided_at := Some now\<rparr>"

lemma applied_sel: "pr_id (applied_to now actor v p) = pr_id p" "pr_status (applied_to now actor v p) = ''applied''"
    "pr_applied_version_id (applied_to now actor v p) = Some (wv_id v)"
  by (simp_all add: applied_to_def)

text \<open>What \<open>apply_proposal\<close> does outside the rows of the automation: nothing to the guards of any automation,
  and to the proposals only that this one is applied.\<close>

lemma apply_proposal_frame:
  assumes "distinct (ids_of db)" and run: "apply_proposal env now ids vid p actor db = (db', r)"
  shows "list_all2 same_guards (pd_automations db) (pd_automations db')
    \<and> pd_proposals db' = (case r of Inl _ \<Rightarrow> pd_proposals db
        | Inr v \<Rightarrow> pd_proposals (put_proposal (applied_to now actor v p) db))"
proof (cases "find_automation db (pr_automation_id p)")
  case None
  with run show ?thesis by (auto simp: apply_proposal_def list_all2_refl)
next
  case (Some g)
  have gid: "ad_id (gv_row g) = pr_automation_id p"
    using find_SomeD[OF Some[unfolded find_automation_def]] by simp
  obtain row1 fault where sc: "set_scalars (pr_to_payload p) (gv_row g) = (row1, fault)" by fastforce
  have row1: "ad_id row1 = ad_id (gv_row g)" using set_scalars_id[of "pr_to_payload p" "gv_row g"] sc by simp
  have frame: "list_all2 same_guards (pd_automations db) (pd_automations (put_automation (g\<lparr>gv_row := row\<rparr>) (db\<lparr>pd_rows := rows\<rparr>)))"
    if "ad_id row = ad_id (gv_row g)" for row rows
    using put_automation_frame[of "db\<lparr>pd_rows := rows\<rparr>" "g\<lparr>gv_row := row\<rparr>" g] Some assms(1) gid that
    by (simp add: find_automation_def guards_set_row)
  have frame0: "list_all2 same_guards (pd_automations db) (pd_automations (put_automation (g\<lparr>gv_row := row1\<rparr>) db))"
    using put_automation_frame[of db "g\<lparr>gv_row := row1\<rparr>" g] Some assms(1) gid row1
    by (simp add: guards_set_row)
  obtain rows1 ok where ch: "replace_children (pe_str env) now ids (ad_id row1) (pr_to_payload p) (pd_rows db) = (rows1, ok)"
    by fastforce
  obtain rows2 row2 v ins where sn: "snapshot_definition (pe_sha256 env) rows1 row1 vid (Some (applied_rationale p)) True
      = (rows2, row2, v, ins)" using prod_cases4 by blast
  have row2: "ad_id row2 = ad_id (gv_row g)" using snapshot_head_id[OF sn] row1 by simp
  let ?d1 = "put_automation (g\<lparr>gv_row := row1\<rparr>) (db\<lparr>pd_rows := rows1\<rparr>)"
  have twice: "pd_automations (put_automation (g\<lparr>gv_row := row2\<rparr>) (?d1\<lparr>pd_rows := rows2\<rparr>))
      = pd_automations (put_automation (g\<lparr>gv_row := row2\<rparr>) (db\<lparr>pd_rows := rows2\<rparr>))"
    using row1 row2 by (auto simp: put_automation_def)
  show ?thesis
    using run Some sc ch sn frame[OF row1] frame[OF row2] frame0 twice
    by (auto simp: apply_proposal_def Let_def frame_simps put_proposal_def applied_to_def list_all2_refl
        split: if_splits option.splits)
qed

subsection \<open>The life of a proposal\<close>

text \<open>Two things can happen to the table of proposals: a new row, open or applied at once, or the decision of an
  open one.\<close>

definition enters :: "proposal list \<Rightarrow> proposal list \<Rightarrow> proposal \<Rightarrow> bool" where
  "enters ps ps' p \<longleftrightarrow> ps' = ps @ [p] \<and> pr_id p \<notin> pr_id ` set ps
     \<and> (if pr_reviewer_comment p = Some Auto_applied then pr_status p = ''applied'' else pr_status p = ''submitted'')"

definition decides :: "proposal list \<Rightarrow> proposal list \<Rightarrow> proposal \<Rightarrow> proposal \<Rightarrow> bool" where
  "decides ps ps' p q \<longleftrightarrow> p \<in> set ps \<and> pr_status p = ''submitted'' \<and> pr_status q \<noteq> ''submitted''
     \<and> pr_id q = pr_id p \<and> pr_automation_id q = pr_automation_id p \<and> pr_to_payload q = pr_to_payload p
     \<and> pr_diff_summary q = pr_diff_summary p
     \<and> pr_reviewer_comment q \<noteq> Some Auto_applied
     \<and> ps' = map (\<lambda>x. if pr_id x = pr_id p then q else x) ps"

definition settled :: "proposal list \<Rightarrow> proposal list \<Rightarrow> bool" where
  "settled ps ps' \<longleftrightarrow> (\<forall>p \<in> set ps. pr_status p \<noteq> ''submitted'' \<longrightarrow> p \<in> set ps')
     \<and> pr_id ` set ps \<subseteq> pr_id ` set ps'"

definition edits :: "proposal list \<Rightarrow> uuid \<Rightarrow> int" where
  "edits ps aid =
     int (length (filter (\<lambda>p. pr_automation_id p = aid \<and> pr_reviewer_comment p = Some Auto_applied) ps))"

lemma enters_facts:
  assumes "enters ps ps' p" and "proposals_ok ps"
  shows "proposals_ok ps'" "settled ps ps'"
    "edits ps' aid = edits ps aid + (if pr_automation_id p = aid \<and> pr_reviewer_comment p = Some Auto_applied then 1 else 0)"
  using assms by (auto simp: enters_def proposals_ok_def settled_def edits_def split: if_splits)

lemma decides_facts:
  assumes d: "decides ps ps' p q" and ok: "proposals_ok ps"
  shows "proposals_ok ps'" "settled ps ps'" "edits ps' aid = edits ps aid"
proof -
  have same: "pr_id q = pr_id p" "pr_automation_id q = pr_automation_id p" using d by (auto simp: decides_def)
  have ps': "ps' = map (\<lambda>x. if pr_id x = pr_id p then q else x) ps" and p: "p \<in> set ps" "pr_status p = ''submitted''"
    and q: "pr_reviewer_comment q \<noteq> Some Auto_applied" using d by (auto simp: decides_def)
  have uniq: "x = p" if "x \<in> set ps" "pr_id x = pr_id p" for x
    using ok p(1) that by (auto simp: proposals_ok_def distinct_map inj_on_def)
  have p_open: "pr_reviewer_comment p \<noteq> Some Auto_applied" using ok p by (auto simp: proposals_ok_def)
  have "map pr_id ps' = map pr_id ps" using same by (auto simp: ps')
  with ok q uniq show "proposals_ok ps'" by (auto simp: proposals_ok_def ps' simp del: map_map)
  show "settled ps ps'"
    unfolding settled_def ps'
  proof (intro conjI ballI impI)
    fix x assume "x \<in> set ps" "pr_status x \<noteq> ''submitted''"
    with uniq[of x] p(2) show "x \<in> set (map (\<lambda>x. if pr_id x = pr_id p then q else x) ps)"
      by (auto simp: image_iff intro!: bexI[of _ x])
  next
    show "pr_id ` set ps \<subseteq> pr_id ` set (map (\<lambda>x. if pr_id x = pr_id p then q else x) ps)"
      unfolding set_map image_image using same(1) by (auto simp: image_def)
  qed
  have "filter ((\<lambda>x. pr_automation_id x = aid \<and> pr_reviewer_comment x = Some Auto_applied) \<circ> (\<lambda>x. if pr_id x = pr_id p then q else x)) ps
      = filter (\<lambda>x. pr_automation_id x = aid \<and> pr_reviewer_comment x = Some Auto_applied) ps"
    by (rule filter_cong) (use uniq p_open q in auto)
  then show "edits ps' aid = edits ps aid" by (simp add: edits_def ps' filter_map)
qed

lemma settled_refl [simp]: "settled ps ps"
  by (simp add: settled_def)

lemma settled_trans: "settled a b \<Longrightarrow> settled b c \<Longrightarrow> settled a c"
  by (force simp: settled_def)

subsection \<open>What each operation does to the proposals and the guards\<close>

text \<open>\<open>guarded f db db'\<close>: the automations keep their order, and their guards change by \<open>f\<close>.\<close>

definition guarded :: "(governed \<Rightarrow> governed) \<Rightarrow> proposal_db \<Rightarrow> proposal_db \<Rightarrow> bool" where
  "guarded f db db' \<longleftrightarrow> list_all2 (\<lambda>a b. guards b = guards (f a)) (pd_automations db) (pd_automations db')"

lemma bump_guard_cong: "guards b = guards a \<Longrightarrow> guards (bump_guard now aid b) = guards (bump_guard now aid a)"
  by (auto simp: guards_def bump_guard_def)

lemma reset_guard_cong: "guards b = guards a \<Longrightarrow> guards (reset_guard aid b) = guards (reset_guard aid a)"
  by (auto simp: guards_def reset_guard_def)

lemma guarded_same: "list_all2 same_guards (pd_automations db) (pd_automations db') \<Longrightarrow> guarded id db db'"
  by (auto simp: guarded_def same_guards_def elim!: list_all2_mono)

lemma guarded_bump:
  "list_all2 same_guards (pd_automations db) (pd_automations db') \<Longrightarrow> guarded (bump_guard now aid) db (bump_guards now aid db')"
  by (auto simp: guarded_def bump_guards_def list_all2_map2 same_guards_def elim!: list_all2_mono intro: bump_guard_cong)

lemma guarded_reset:
  "list_all2 same_guards (pd_automations db) (pd_automations db') \<Longrightarrow> guarded (reset_guard aid) db (reset_budget aid db')"
  by (auto simp: guarded_def reset_budget_def list_all2_map2 same_guards_def elim!: list_all2_mono intro: reset_guard_cong)

lemma guarded_ids: "guarded f db db' \<Longrightarrow> (\<And>g. ad_id (gv_row (f g)) = ad_id (gv_row g)) \<Longrightarrow> ids_of db' = ids_of db"
  unfolding guarded_def by (erule list_all2_map_eq) (simp add: guards_def)

lemma keeps_id [simp]: "ad_id (gv_row (bump_guard now aid g)) = ad_id (gv_row g)"
    "ad_id (gv_row (reset_guard aid g)) = ad_id (gv_row g)"
  by (simp_all add: bump_guard_def reset_guard_def)

definition budget_of :: "proposal_db \<Rightarrow> uuid \<Rightarrow> (int \<times> int) option" where
  "budget_of db aid = map_option (\<lambda>g. (gv_diff_budget_consumed g, gv_diff_budget_max g)) (find_automation db aid)"

lemma guarded_budget:
  assumes "guarded f db db'" and "\<And>g. ad_id (gv_row (f g)) = ad_id (gv_row g)"
  shows "budget_of db' aid = map_option (\<lambda>g. (gv_diff_budget_consumed (f g), gv_diff_budget_max (f g))) (find_automation db aid)"
proof -
  have "rel_option (\<lambda>a b. guards b = guards (f a)) (find_automation db aid) (find_automation db' aid)"
    unfolding find_automation_def
    by (rule find_list_all2[OF assms(1)[unfolded guarded_def]]) (simp add: guards_def assms(2))
  then show ?thesis
    by (cases "find_automation db aid"; cases "find_automation db' aid") (auto simp: budget_of_def guards_def)
qed

lemma map_fresh: "k \<notin> pr_id ` set ps \<Longrightarrow> map (\<lambda>x. if pr_id x = k then f x else x) ps = ps"
  by (rule map_idI) auto

lemma auto_apply_effect:
  assumes dist: "distinct (ids_of db)" and fresh: "pr_id p \<notin> pr_id ` set (pd_proposals db)"
    and p: "pr_status p = ''submitted''"
    and run: "auto_apply env now ids vid g p (db\<lparr>pd_proposals := pd_proposals db @ [p]\<rparr>) = Inr db'"
  shows "\<exists>q. enters (pd_proposals db) (pd_proposals db') q \<and> pr_id q = pr_id p
    \<and> pr_automation_id q = pr_automation_id p
    \<and> (if pr_reviewer_comment q = Some Auto_applied
       then evaluate_for_auto_apply now g (pr_diff_summary p) (pr_risk_class p) (pr_proposer_run_id p) = Eligible
            \<and> guarded (bump_guard now (pr_automation_id p)) db db'
       else guarded id db db')"
proof -
  let ?db = "db\<lparr>pd_proposals := pd_proposals db @ [p]\<rparr>"
  have frame: "list_all2 same_guards (pd_automations db) (pd_automations d)
      \<and> pd_proposals d = (case r of Inl _ \<Rightarrow> pd_proposals db @ [p]
          | Inr v \<Rightarrow> pd_proposals db @ [applied_to now (pr_proposer_user_id p) v p])"
    if "apply_proposal env now ids vid p (pr_proposer_user_id p) ?db = (d, r)" for d r
    using apply_proposal_frame[OF _ that] dist fresh
    by (auto simp: put_proposal_def map_fresh applied_to_def split: sum.splits)
  have open_case: ?thesis
    if "db' = set_comment c (pr_id p) d" "pd_proposals d = pd_proposals db @ [p]" "c \<noteq> Auto_applied"
      "list_all2 same_guards (pd_automations db) (pd_automations d)" for c d
  proof -
    let ?q = "p\<lparr>pr_reviewer_comment := Some c\<rparr>"
    have "pd_proposals db' = pd_proposals db @ [?q]"
      using that(1,2) fresh by (simp add: set_comment_def map_fresh)
    moreover have "guarded id db db'" using that(1,4) by (simp add: guarded_same frame_simps)
    ultimately show ?thesis using that(3) fresh p by (intro exI[of _ ?q]) (simp add: enters_def)
  qed
  show ?thesis
  proof (cases "evaluate_for_auto_apply now g (pr_diff_summary p) (pr_risk_class p) (pr_proposer_run_id p)")
    case (Refuse r)
    with run have "db' = set_comment (Not_eligible r) (pr_id p) ?db" by (simp add: auto_apply_def)
    from open_case[OF this] show ?thesis by (simp add: list_all2_refl)
  next
    case Raises
    with run show ?thesis by (simp add: auto_apply_def)
  next
    case Eligible
    obtain dr where dr: "evaluate_dry_run (pe_str env) (pr_to_payload p) = Some dr"
      using run Eligible by (auto simp: auto_apply_def split: option.splits)
    show ?thesis
    proof (cases dr)
      case (Some r)
      with run Eligible dr have "db' = set_comment (Dry_run_failed r) (pr_id p) ?db" by (simp add: auto_apply_def)
      from open_case[OF this] show ?thesis by (simp add: list_all2_refl)
    next
      case None
      obtain d r where ap: "apply_proposal env now ids vid p (pr_proposer_user_id p) ?db = (d, r)" by fastforce
      show ?thesis
      proof (cases r)
        case (Inl f)
        with run Eligible dr None ap have "db' = set_comment Apply_failed (pr_id p) d"
          by (auto simp: auto_apply_def split: if_splits)
        from open_case[OF this] frame[OF ap] Inl show ?thesis by simp
      next
        case (Inr v)
        let ?q = "(applied_to now (pr_proposer_user_id p) v p)\<lparr>pr_reviewer_comment := Some Auto_applied\<rparr>"
        from Inr run Eligible dr None ap have db': "db' = set_comment Auto_applied (pr_id p) (bump_guards now (pr_automation_id p) d)"
          by (simp add: auto_apply_def)
        have "pd_proposals db' = pd_proposals db @ [?q]"
          using frame[OF ap] Inr fresh by (simp add: db' set_comment_def bump_guards_def map_fresh applied_to_def)
        moreover have "guarded (bump_guard now (pr_automation_id p)) db db'"
          using guarded_bump[of db d now "pr_automation_id p"] frame[OF ap] by (simp add: db' guarded_def frame_simps)
        ultimately show ?thesis
          using fresh Eligible by (intro exI[of _ ?q]) (simp add: enters_def applied_to_def)
      qed
    qed
  qed
qed

text \<open>The steps a table of proposals can take, labelled with the automation whose proposal a person approved.\<close>

inductive life_step :: "uuid option \<Rightarrow> proposal_db \<Rightarrow> proposal_db \<Rightarrow> bool" where
  Unrelated: "pd_proposals db' = pd_proposals db \<Longrightarrow> guarded id db db' \<Longrightarrow> life_step None db db'"
| Opened: "enters (pd_proposals db) (pd_proposals db') q \<Longrightarrow> pr_reviewer_comment q \<noteq> Some Auto_applied
    \<Longrightarrow> guarded id db db' \<Longrightarrow> life_step None db db'"
| Self_applied: "enters (pd_proposals db) (pd_proposals db') q \<Longrightarrow> pr_reviewer_comment q = Some Auto_applied
    \<Longrightarrow> find_automation db (pr_automation_id q) = Some g
    \<Longrightarrow> 0 < gv_diff_budget_max g \<longrightarrow> gv_diff_budget_consumed g < gv_diff_budget_max g
    \<Longrightarrow> guarded (bump_guard now (pr_automation_id q)) db db' \<Longrightarrow> life_step None db db'"
| Closed: "decides (pd_proposals db) (pd_proposals db') p q \<Longrightarrow> guarded id db db' \<Longrightarrow> life_step None db db'"
| Approved: "decides (pd_proposals db) (pd_proposals db') p q \<Longrightarrow> guarded (reset_guard (pr_automation_id p)) db db'
    \<Longrightarrow> life_step (Some (pr_automation_id p)) db db'"
| New_automation: "pd_proposals db' = pd_proposals db \<Longrightarrow> find_automation db (ad_id (gv_row d)) = None
    \<Longrightarrow> guarded id db db0 \<Longrightarrow> pd_automations db' = pd_automations db0 @ [d] \<Longrightarrow> life_step None db db'"

lemma evaluate_budget:
  "evaluate_for_auto_apply now g diff risk run = Eligible \<Longrightarrow> 0 < gv_diff_budget_max g
     \<longrightarrow> gv_diff_budget_consumed g < gv_diff_budget_max g"
  by (rule impI, rule ccontr) (simp add: evaluate_for_auto_apply_def split: if_splits)

lemma new_proposal_sel [simp]:
  "pr_id (new_proposal now k aid base pl diff rationale risk user rn) = k"
  "pr_automation_id (new_proposal now k aid base pl diff rationale risk user rn) = aid"
  "pr_status (new_proposal now k aid base pl diff rationale risk user rn) = ''submitted''"
  "pr_to_payload (new_proposal now k aid base pl diff rationale risk user rn) = pl"
  "pr_diff_summary (new_proposal now k aid base pl diff rationale risk user rn) = diff"
  "pr_risk_class (new_proposal now k aid base pl diff rationale risk user rn) = risk"
  "pr_proposer_user_id (new_proposal now k aid base pl diff rationale risk user rn) = user"
  "pr_proposer_run_id (new_proposal now k aid base pl diff rationale risk user rn) = rn"
  by (simp_all add: new_proposal_def)

lemma find_replaced:
  "find (\<lambda>p. pr_id p = k) ps \<noteq> None \<Longrightarrow> pr_id q = k \<Longrightarrow>
     find (\<lambda>p. pr_id p = k) (map (\<lambda>x. if pr_id x = k then q else x) ps) = Some q"
  by (induction ps) auto

lemma find_automation_id: "find_automation db aid = Some g \<Longrightarrow> ad_id (gv_row g) = aid"
  by (auto simp: find_automation_def dest: find_SomeD)

lemma create_life:
  assumes ok: "keys_ok db" and g: "find_automation db aid = Some g"
    and run: "create_proposal env now ids vid k g to_payload rationale risk user rn from_v db = Inr (db', k', new)"
  shows "life_step None db db'"
proof (cases "open_duplicate env (ad_id (gv_row g)) (case from_v of None \<Rightarrow> ad_head_version_id (gv_row g) | Some v \<Rightarrow> Some v) to_payload db")
  case (Some row)
  with run have "db' = db" by (auto simp: create_proposal_def Let_def split: if_splits)
  then show ?thesis by (simp add: life_step.Unrelated guarded_same list_all2_refl)
next
  case None
  obtain diff base where fresh: "k \<notin> pr_id ` set (pd_proposals db)"
    and ap: "auto_apply env now ids vid g (new_proposal now k (ad_id (gv_row g)) base to_payload diff rationale risk user rn)
      (db\<lparr>pd_proposals := pd_proposals db @ [new_proposal now k (ad_id (gv_row g)) base to_payload diff rationale risk user rn]\<rparr>) = Inr db'"
    using run None by (auto simp: create_proposal_def Let_def split: if_splits option.splits sum.splits)
  have "distinct (ids_of db)" using ok by (simp add: keys_ok_def)
  note eff = auto_apply_effect[OF this _ _ ap, unfolded new_proposal_sel]
  from eff[OF fresh refl] obtain q where
    q: "enters (pd_proposals db) (pd_proposals db') q" "pr_automation_id q = ad_id (gv_row g)"
      "if pr_reviewer_comment q = Some Auto_applied
       then evaluate_for_auto_apply now g diff risk rn = Eligible \<and> guarded (bump_guard now (ad_id (gv_row g))) db db'
       else guarded id db db'"
    by blast
  show ?thesis
  proof (cases "pr_reviewer_comment q = Some Auto_applied")
    case True
    with q g find_automation_id[OF g] show ?thesis by (auto intro: life_step.Self_applied dest: evaluate_budget)
  next
    case False
    with q show ?thesis by (auto intro: life_step.Opened)
  qed
qed

lemma decide_life:
  assumes ok: "keys_ok db"
    and run: "decide_proposal env now ids vid k decision reviewer note db = Inr db'"
  shows "\<exists>p. get_proposal db k = Some p \<and> life_step (if decision = ''approve'' then Some (pr_automation_id p) else None) db db'
    \<and> map_option pr_automation_id (get_proposal db' k) = Some (pr_automation_id p)"
proof -
  obtain p where p: "get_proposal db k = Some p" "pr_status p = ''submitted''"
    using run by (auto simp: decide_proposal_def split: if_splits option.splits)
  have pin: "p \<in> set (pd_proposals db)" "pr_id p = k" using find_SomeD[OF p(1)[unfolded get_proposal_def]] by auto
  have found: "map_option pr_automation_id (get_proposal d k) = Some (pr_automation_id p)"
    if "pd_proposals d = map (\<lambda>x. if pr_id x = k then q else x) (pd_proposals db)" "pr_id q = k"
      "pr_automation_id q = pr_automation_id p" for d q
    using that p(1) find_replaced[of k "pd_proposals db" q] by (simp add: get_proposal_def)
  show ?thesis
  proof (cases "decision = ''approve''")
    case False
    with run p have db': "db' = put_proposal (p\<lparr>pr_status := ''rejected'', pr_reviewer_user_id := Some reviewer,
        pr_reviewer_comment := map_option Reviewer note, pr_decided_at := Some now\<rparr>) db" (is "_ = put_proposal ?q db")
      by (auto simp: decide_proposal_def split: if_splits)
    have "decides (pd_proposals db) (pd_proposals db') p ?q"
      using pin p by (cases "note") (auto simp: decides_def db' put_proposal_def)
    moreover have "guarded id db db'" by (simp add: db' guarded_same frame_simps list_all2_refl)
    ultimately show ?thesis
      using p(1) False found[of db' ?q] pin by (auto simp: db' put_proposal_def intro: life_step.Closed)
  next
    case True
    then obtain d v where ap: "apply_proposal env now ids vid p (Some reviewer) db = (d, Inr v)"
      using run p by (auto simp: decide_proposal_def split: if_splits prod.splits sum.splits)
    define q0 where "q0 = applied_to now (Some reviewer) v p"
    define q where "q = (case note of Some (c # cs) \<Rightarrow> q0\<lparr>pr_reviewer_comment := Some (Reviewer (c # cs))\<rparr> | _ \<Rightarrow> q0)"
    have frame: "list_all2 same_guards (pd_automations db) (pd_automations d)"
      "pd_proposals d = map (\<lambda>x. if pr_id x = k then q0 else x) (pd_proposals db)"
      using apply_proposal_frame[OF _ ap] ok pin by (auto simp: keys_ok_def put_proposal_def q0_def applied_to_def)
    have qs: "pr_id q = k" "pr_automation_id q = pr_automation_id p" "pr_status q = ''applied''"
      "pr_to_payload q = pr_to_payload p" "pr_diff_summary q = pr_diff_summary p"
      using pin by (auto simp: q_def q0_def applied_to_def split: option.split list.split)
    have q0k: "pr_id q0 = k" using pin by (simp add: q0_def applied_to_def)
    have db': "db' = (case note of Some (c # cs) \<Rightarrow> set_comment (Reviewer (c # cs)) k (reset_budget (pr_automation_id p) d)
        | _ \<Rightarrow> reset_budget (pr_automation_id p) d)"
      using True run p ap by (simp add: decide_proposal_def Let_def)
    have ps: "pd_proposals db' = map (\<lambda>x. if pr_id x = k then q else x) (pd_proposals db)"
      using frame(2) q0k by (simp add: db' reset_budget_def set_comment_def q_def comp_def split: option.split list.split)
    have autos: "pd_automations db' = pd_automations (reset_budget (pr_automation_id p) d)"
      by (simp add: db' frame_simps split: option.split list.split)
    have "pr_reviewer_comment p \<noteq> Some Auto_applied" using ok pin p by (auto simp: keys_ok_def proposals_ok_def)
    then have "pr_reviewer_comment q \<noteq> Some Auto_applied"
      by (auto simp: q_def q0_def applied_to_def split: option.split list.split)
    with ps pin p qs have "decides (pd_proposals db) (pd_proposals db') p q" by (simp add: decides_def)
    moreover have "guarded (reset_guard (pr_automation_id p)) db db'"
      using guarded_reset[OF frame(1), of "pr_automation_id p"] autos by (simp add: guarded_def)
    ultimately show ?thesis using True p(1) found[OF ps qs(1,2)] by (auto intro: life_step.Approved)
  qed
qed

lemma withdraw_life:
  assumes ok: "keys_ok db" and run: "withdraw_proposal now k db = Inr db'"
  shows "life_step None db db'"
proof -
  obtain p where p: "get_proposal db k = Some p" "pr_status p = ''submitted''"
    and db': "db' = put_proposal (p\<lparr>pr_status := ''withdrawn'', pr_decided_at := Some now\<rparr>) db" (is "_ = put_proposal ?q db")
    using run by (auto simp: withdraw_proposal_def split: if_splits option.splits)
  have pin: "p \<in> set (pd_proposals db)" "pr_id p = k" using find_SomeD[OF p(1)[unfolded get_proposal_def]] by auto
  have "pr_reviewer_comment p \<noteq> Some Auto_applied" using ok pin p(2) by (auto simp: keys_ok_def proposals_ok_def)
  with pin p(2) have "decides (pd_proposals db) (pd_proposals db') p ?q" by (simp add: decides_def db' put_proposal_def)
  moreover have "guarded id db db'" by (simp add: db' guarded_same frame_simps list_all2_refl)
  ultimately show ?thesis by (rule life_step.Closed)
qed

lemma guarded_put:
  assumes "keys_ok db" and "find_automation db (ad_id (gv_row g)) = Some g0" and "guards g = guards g0"
    and "pd_automations db' = pd_automations (put_automation g db)"
  shows "guarded id db db'"
  using put_automation_frame[OF _ assms(2,3)] assms(1,4) by (simp add: guarded_same keys_ok_def)

lemma owner_edit_life:
  assumes ok: "keys_ok db" and run: "prop_op_run env t (Owner_edit aid rows row) db = Inr db'"
  shows "life_step None db db'"
proof -
  obtain g where g: "find_automation db aid = Some g"
    using run by (auto split: option.splits)
  obtain rows' row' v ins where sn: "snapshot_definition (pe_sha256 env) (rows\<lparr>t_versions := t_versions (pd_rows db)\<rparr>)
      (row\<lparr>ad_id := aid\<rparr>) (st_version t) None True = (rows', row', v, ins)" using prod_cases4 by blast
  have db': "db' = put_automation (g\<lparr>gv_row := row'\<rparr>) (db\<lparr>pd_rows := rows'\<rparr>)" using run g sn by simp
  have row': "ad_id row' = aid" using snapshot_head_id[OF sn] by simp
  have "guarded id db db'"
    by (rule guarded_put[OF ok, of "g\<lparr>gv_row := row'\<rparr>" g])
      (use g row' find_automation_id[OF g] in \<open>simp_all add: guards_def db' put_automation_def\<close>)
  then show ?thesis by (auto simp: db' frame_simps intro: life_step.Unrelated)
qed

lemma ensure_doctor_life:
  assumes ok: "keys_ok db" and g: "find_automation db aid = Some g"
    and run: "ensure_doctor_for env now ids vid k agent prompt g db = Inr db'"
  shows "life_step None db db'"
proof (cases "Option.bind (gv_doctor_automation_id g) (find_automation db)")
  case (Some existing)
  with run have db': "db' = put_automation (g\<lparr>gv_doctor_enabled := True\<rparr>) db" by (simp add: ensure_doctor_for_def)
  have "guarded id db db'"
    by (rule guarded_put[OF ok, of "g\<lparr>gv_doctor_enabled := True\<rparr>" g])
      (use g find_automation_id[OF g] in \<open>simp_all add: guards_def db'\<close>)
  then show ?thesis by (auto simp: db' frame_simps intro: life_step.Unrelated)
next
  case None
  let ?g = "g\<lparr>gv_doctor_automation_id := Some k, gv_doctor_enabled := True\<rparr>"
  have gid: "ad_id (gv_row g) = aid" by (rule find_automation_id[OF g])
  obtain rows rows' row' v ins where fresh: "find_automation db k = None"
    and sn: "snapshot_definition (pe_sha256 env) rows (gv_row (doctor_row k g)) vid
      (Some (''doctor bootstrap for target='' @ uuid_str (ad_id (gv_row g)))) True = (rows', row', v, ins)"
    and db': "db' = put_automation ?g (db\<lparr>pd_rows := rows',
      pd_automations := pd_automations db @ [(doctor_row k g)\<lparr>gv_row := row'\<rparr>]\<rparr>)"
    using run None by (auto simp: ensure_doctor_for_def Let_def split: option.splits if_splits prod.splits)
  let ?d = "(doctor_row k g)\<lparr>gv_row := row'\<rparr>"
  have k: "ad_id (gv_row ?d) = k" using snapshot_head_id[OF sn] by (simp add: doctor_row_def)
  have "k \<noteq> aid" using fresh g by auto
  show ?thesis
  proof (rule life_step.New_automation)
    show "pd_proposals db' = pd_proposals db" by (simp add: db' frame_simps)
    show "find_automation db (ad_id (gv_row ?d)) = None" using fresh k by simp
    show "guarded id db (put_automation ?g db)"
      by (rule guarded_put[OF ok, of ?g g]) (use g gid in \<open>simp_all add: guards_def\<close>)
    show "pd_automations db' = pd_automations (put_automation ?g db) @ [?d]"
      using k gid \<open>k \<noteq> aid\<close> by (simp add: db' put_automation_def)
  qed
qed

lemma disable_doctor_life:
  assumes ok: "keys_ok db" and g: "find_automation db aid = Some g"
  shows "life_step None db (disable_doctor_for g db)"
proof (rule life_step.Unrelated)
  show "pd_proposals (disable_doctor_for g db) = pd_proposals db"
    by (simp add: disable_doctor_for_def Let_def frame_simps split: option.split)
  show "guarded id db (disable_doctor_for g db)"
    by (rule guarded_put[OF ok, of "g\<lparr>gv_doctor_enabled := False\<rparr>" g])
      (use g find_automation_id[OF g] in \<open>simp_all add: guards_def disable_doctor_for_def Let_def split: option.split\<close>)
qed

text \<open>\<open>approves aid op\<close>: a person's approval of a proposal of \<open>aid\<close>.\<close>

definition approves :: "uuid \<Rightarrow> prop_op \<Rightarrow> bool" where
  "approves aid op \<longleftrightarrow> (case op of Decide_route user a k decision remark \<Rightarrow> a = aid \<and> decision = ''approve'' | _ \<Rightarrow> False)"

lemma with_automation_Inr:
  "with_automation user aid db f = Inr r \<Longrightarrow> \<exists>g. find_automation db aid = Some g \<and> authorize_definition g user = None \<and> f g = Inr r"
  by (auto simp: with_automation_def split: option.splits)

lemma map_sum_Inr: "map_sum id fst x = Inr d \<Longrightarrow> \<exists>k b. x = Inr (d, k, b)"
  by (cases x) auto

lemma prop_op_life:
  assumes ok: "keys_ok db" and run: "prop_op_run env t op db = Inr db'"
  shows "\<exists>l. life_step l db db' \<and> (\<forall>aid. l = Some aid \<longrightarrow> approves aid op)"
proof (cases op)
  case (Create_route user aid pl rationale risk from_v)
  with run obtain g where g: "find_automation db aid = Some g"
    and c: "map_sum id fst (create_proposal env (st_now t) (st_ids t) (st_version t) (st_key t) g pl rationale risk
      (Some (cl_id user)) None from_v db) = Inr db'"
    by (auto dest!: with_automation_Inr split: if_splits)
  from map_sum_Inr[OF c] create_life[OF ok g] show ?thesis by blast
next
  case (Create_tool user_id run_id allowed aid pl rationale risk)
  with run obtain g where lo: "load_owned user_id allowed aid db = Some g"
    and c: "map_sum id fst (create_proposal env (st_now t) (st_ids t) (st_version t) (st_key t) g pl rationale risk
      user_id run_id None db) = Inr db'"
    by (auto split: if_splits option.splits)
  have "find_automation db aid = Some g"
    using lo by (auto simp: load_owned_def split: option.splits if_splits)
  from map_sum_Inr[OF c] create_life[OF ok this] show ?thesis by blast
next
  case (Decide_route user aid k decision remark)
  with run have d: "decide_proposal env (st_now t) (st_ids t) (st_version t) k decision (cl_id user) remark db = Inr db'"
    and same: "map_option pr_automation_id (get_proposal db' k) = Some aid"
    by (auto dest!: with_automation_Inr split: if_splits sum.splits)
  from decide_life[OF ok d] same Decide_route show ?thesis by (auto simp: approves_def split: if_splits)
next
  case (Withdraw_tool k)
  with run withdraw_life[OF ok] show ?thesis by auto
next
  case (Owner_edit aid rows row)
  with run owner_edit_life[OF ok] show ?thesis by blast
next
  case (Enable_doctor user aid agent prompt)
  with run obtain g where "find_automation db aid = Some g"
    and "ensure_doctor_for env (st_now t) (st_ids t) (st_version t) (st_key t) agent prompt g db = Inr db'"
    by (auto dest!: with_automation_Inr)
  from ensure_doctor_life[OF ok this] show ?thesis by blast
next
  case (Disable_doctor user aid)
  with run obtain g where "find_automation db aid = Some g" and "db' = disable_doctor_for g db"
    by (auto dest!: with_automation_Inr)
  with disable_doctor_life[OF ok] show ?thesis by blast
qed

lemma guarded_keys:
  assumes "guarded f db db'" and "\<And>g. ad_id (gv_row (f g)) = ad_id (gv_row g)" and "keys_ok db"
    and "proposals_ok (pd_proposals db')"
  shows "keys_ok db'"
  using guarded_ids[OF assms(1,2)] assms(3,4) by (simp add: keys_ok_def)

lemma find_automation_append:
  "pd_automations db' = pd_automations db0 @ [d] \<Longrightarrow> find_automation db' aid =
     (case find_automation db0 aid of None \<Rightarrow> if ad_id (gv_row d) = aid then Some d else None | Some g \<Rightarrow> Some g)"
  by (simp add: find_automation_def find_append split: option.split)

lemma life_step_ok:
  assumes "life_step l db db'" and ok: "keys_ok db"
  shows "keys_ok db' \<and> settled (pd_proposals db) (pd_proposals db')"
  using assms(1)
proof cases
  case (New_automation d db0)
  have "ids_of db0 = ids_of db" using guarded_ids[OF New_automation(4)] by simp
  moreover have "ad_id (gv_row d) \<notin> set (ids_of db)"
    using New_automation(3) by (auto simp: find_automation_def find_None_iff)
  ultimately show ?thesis using ok New_automation(2,5) by (auto simp: keys_ok_def)
qed (use ok enters_facts(1,2) decides_facts(1,2) guarded_keys in \<open>fastforce simp: keys_ok_def\<close>)+

lemma life_step_budget:
  assumes "life_step l db db'" and ok: "keys_ok db" and b: "budget_of db aid = Some (c, m)" and l: "l \<noteq> Some aid"
  shows "\<exists>c'. budget_of db' aid = Some (c', m) \<and> edits (pd_proposals db') aid - edits (pd_proposals db) aid = c' - c
    \<and> (0 < m \<and> c \<le> m \<longrightarrow> c' \<le> m)"
proof -
  obtain g where g: "find_automation db aid = Some g" "gv_diff_budget_consumed g = c" "gv_diff_budget_max g = m"
    using b by (auto simp: budget_of_def)
  have ps: "proposals_ok (pd_proposals db)" using ok by (simp add: keys_ok_def)
  from assms(1) show ?thesis
  proof cases
    case Unrelated
    then show ?thesis using guarded_budget[OF Unrelated(3)] g by simp
  next
    case (Opened q)
    then show ?thesis using guarded_budget[OF Opened(4)] g enters_facts(3)[OF Opened(2) ps] by simp
  next
    case (Self_applied q g' now)
    show ?thesis
      using guarded_budget[OF Self_applied(6)] Self_applied(3-5) g enters_facts(3)[OF Self_applied(2) ps, of aid]
        find_automation_id[OF g(1)]
      by (auto simp: bump_guard_def)
  next
    case (Closed p q)
    then show ?thesis using guarded_budget[OF Closed(3)] g decides_facts(3)[OF Closed(2) ps] by simp
  next
    case (Approved p q)
    then show ?thesis
      using guarded_budget[OF Approved(3)] g decides_facts(3)[OF Approved(2) ps] l find_automation_id[OF g(1)]
      by (simp add: reset_guard_def)
  next
    case (New_automation d db0)
    have "budget_of db0 aid = Some (c, m)" using guarded_budget[OF New_automation(4)] g by simp
    then show ?thesis using New_automation(2) by (auto simp: budget_of_def find_automation_append[OF New_automation(5)])
  qed
qed

lemma prop_step_ok:
  "keys_ok db \<Longrightarrow> keys_ok (prop_step env db r) \<and> settled (pd_proposals db) (pd_proposals (prop_step env db r))"
  unfolding prop_step_def
  by (auto split: sum.splits dest: prop_op_life life_step_ok)

lemma proposal_run_ok:
  "keys_ok db \<Longrightarrow> keys_ok (proposal_run env db rs) \<and> settled (pd_proposals db) (pd_proposals (proposal_run env db rs))"
proof (induction rs arbitrary: db)
  case (Cons r rs)
  from prop_step_ok[OF Cons.prems, of env r] Cons.IH[of "prop_step env db r"] show ?case by (auto intro: settled_trans)
qed simp

lemma prop_step_budget:
  assumes "keys_ok db" and "budget_of db aid = Some (c, m)" and "\<not> approves aid (snd r)"
  shows "\<exists>c'. budget_of (prop_step env db r) aid = Some (c', m)
    \<and> edits (pd_proposals (prop_step env db r)) aid - edits (pd_proposals db) aid = c' - c
    \<and> (0 < m \<and> c \<le> m \<longrightarrow> c' \<le> m)"
proof (cases "prop_op_run env (fst r) (snd r) db")
  case (Inr db')
  then obtain l where "life_step l db db'" "l \<noteq> Some aid" using prop_op_life[OF assms(1) Inr] assms(3) by blast
  from life_step_budget[OF this(1) assms(1,2) this(2)] Inr show ?thesis by (simp add: prop_step_def)
qed (use assms in \<open>simp add: prop_step_def\<close>)

text \<open>A decision is final.  Whatever requests of owners, reviewers and agents follow, no proposal
  disappears, and one that has been applied, rejected or withdrawn stays exactly as it was decided.\<close>

theorem decided_proposals_stay:
  assumes "keys_ok db" and "p \<in> set (pd_proposals db)" and "pr_status p \<noteq> ''submitted''"
  shows "p \<in> set (pd_proposals (proposal_run env db rs))"
  using proposal_run_ok[OF assms(1), of env rs] assms(2,3) by (simp add: settled_def)

text \<open>C33: The budget of unreviewed changes.  As long as no person approves a proposal of the automation, at
  most as many proposals apply themselves to it as its budget has left, whoever writes them and whatever
  else happens.\<close>

theorem unreviewed_changes_bounded:
  assumes "keys_ok db" and "budget_of db aid = Some (c, m)" and "0 < m" and "c \<le> m"
    and "\<forall>r \<in> set rs. \<not> approves aid (snd r)"
  shows "edits (pd_proposals (proposal_run env db rs)) aid \<le> edits (pd_proposals db) aid + (m - c)"
  using assms
proof (induction rs arbitrary: db c)
  case (Cons r rs)
  obtain c' where b: "budget_of (prop_step env db r) aid = Some (c', m)" "c' \<le> m"
    and e: "edits (pd_proposals (prop_step env db r)) aid - edits (pd_proposals db) aid = c' - c"
    using prop_step_budget[OF Cons.prems(1,2), of r env] Cons.prems(3-5) by auto
  have "keys_ok (prop_step env db r)" using prop_step_ok[OF Cons.prems(1)] by blast
  from Cons.IH[OF this b(1) Cons.prems(3) b(2)] Cons.prems(5) e show ?case by simp
qed simp

subsection \<open>What an approval installs\<close>

text \<open>\<open>reads mk v rows\<close>: the rows are those of the payload list \<open>v\<close>, in its order, up to fresh identifiers.\<close>

definition reads :: "(uuid \<Rightarrow> json \<Rightarrow> 'a option) \<Rightarrow> json \<Rightarrow> 'a list \<Rightarrow> bool" where
  "reads mk v rows \<longleftrightarrow> (\<exists>items. items_of v = Some items \<and> list_all2 (\<lambda>x r. \<exists>k. mk k x = Some r) items rows)"

lemma add_rows_True:
  "add_rows mk ids aid n xs t = (t', True) \<Longrightarrow>
     \<exists>rows. t' = t @ map (Pair aid) rows \<and> list_all2 (\<lambda>x r. \<exists>k. mk k x = Some r) xs rows"
proof (induction xs arbitrary: n t)
  case (Cons x xs)
  then obtain r where r: "mk (ids n) x = Some r" by (auto split: option.splits)
  with Cons.prems have "add_rows mk ids aid (Suc n) xs (t @ [(aid, r)]) = (t', True)" by simp
  from Cons.IH[OF this] obtain rows where "t' = (t @ [(aid, r)]) @ map (Pair aid) rows"
    and "list_all2 (\<lambda>x r. \<exists>k. mk k x = Some r) xs rows" by blast
  with r show ?case by (intro exI[of _ "r # rows"]) auto
qed simp

lemma replace_rows_True:
  assumes "replace_rows mk ids aid v t = (t', True)"
  shows "\<exists>rows. reads mk v rows \<and> (\<forall>key. rows_of aid key t' = sort_key key rows)
    \<and> (\<forall>a key. a \<noteq> aid \<longrightarrow> rows_of a key t' = rows_of a key t)"
proof -
  obtain items where i: "items_of v = Some items"
    and a: "add_rows mk ids aid 0 items (filter (\<lambda>r. fst r \<noteq> aid) t) = (t', True)"
    using assms by (auto simp: replace_rows_def Let_def split: option.splits)
  obtain rows where t': "t' = filter (\<lambda>r. fst r \<noteq> aid) t @ map (Pair aid) rows"
    and r: "list_all2 (\<lambda>x r. \<exists>k. mk k x = Some r) items rows" using add_rows_True[OF a] by blast
  have "rows_of aid key t' = sort_key key rows" for key
    by (simp add: t' rows_of_def filter_map comp_def)
  moreover have "rows_of b key t' = rows_of b key t" if "b \<noteq> aid" for b key
  proof -
    have "filter (\<lambda>r. fst r = b) (filter (\<lambda>r. fst r \<noteq> aid) t) = filter (\<lambda>r. fst r = b) t"
      unfolding filter_filter by (rule filter_cong) (use that in auto)
    with that show ?thesis by (simp add: t' rows_of_def filter_map comp_def)
  qed
  ultimately show ?thesis using i r by (auto simp: reads_def)
qed

lemma find_put_automation:
  "find_automation db aid = Some g0 \<Longrightarrow> find_automation (put_automation x db) aid =
     (if ad_id (gv_row x) = aid then Some x else Some g0)"
proof -
  have "find (\<lambda>g. ad_id (gv_row g) = aid) xs = Some g0 \<Longrightarrow>
      find (\<lambda>g. ad_id (gv_row g) = aid) (map (\<lambda>y. if ad_id (gv_row y) = ad_id (gv_row x) then x else y) xs) =
      (if ad_id (gv_row x) = aid then Some x else Some g0)" for xs
    by (induction xs) (auto split: if_splits)
  then show "find_automation db aid = Some g0 \<Longrightarrow> ?thesis" by (simp add: find_automation_def put_automation_def)
qed

lemma snapshot_version:
  assumes "snapshot_definition h db defn k r u = (db', defn', v, i)"
  shows "v \<in> set (t_versions db')" "wv_payload_sha256 v = canonical_sha256 h (build_payload db defn)"
    "wv_automation_id v = ad_id defn" "db' = db\<lparr>t_versions := t_versions db'\<rparr>"
  using assms by (auto simp: snapshot_definition_def snapshot_read_def snapshot_flush_def version_with_sha_def Let_def
      split: option.splits dest: find_SomeD)

lemma build_payload_head [simp]:
  "build_payload (db\<lparr>t_versions := vs\<rparr>) defn = build_payload db defn"
  "build_payload db (defn\<lparr>ad_head_version_id := hv\<rparr>) = build_payload db defn"
  by (simp_all add: build_payload_def)

lemma apply_proposal_installs:
  assumes run: "apply_proposal env now ids vid p actor db = (d, Inr v)"
    and g: "find_automation db (pr_automation_id p) = Some g"
  shows "\<exists>row1 rows1. set_scalars (pr_to_payload p) (gv_row g) = (row1, None)
    \<and> replace_children (pe_str env) now ids (pr_automation_id p) (pr_to_payload p) (pd_rows db) = (rows1, True)
    \<and> find_automation d (pr_automation_id p) = Some (g\<lparr>gv_row := row1\<lparr>ad_head_version_id := Some (wv_id v)\<rparr>\<rparr>)
    \<and> pd_rows d = rows1\<lparr>t_versions := t_versions (pd_rows d)\<rparr> \<and> v \<in> set (t_versions (pd_rows d))
    \<and> wv_automation_id v = pr_automation_id p
    \<and> wv_payload_sha256 v = canonical_sha256 (pe_sha256 env) (build_payload rows1 row1)"
proof -
  obtain row1 where sc: "set_scalars (pr_to_payload p) (gv_row g) = (row1, None)"
    using run g by (auto simp: apply_proposal_def split: if_splits prod.splits option.splits)
  have row1: "ad_id row1 = pr_automation_id p"
    using set_scalars_id[of "pr_to_payload p" "gv_row g"] sc find_automation_id[OF g] by simp
  obtain rows1 ok where ch: "replace_children (pe_str env) now ids (ad_id row1) (pr_to_payload p) (pd_rows db) = (rows1, ok)"
    by fastforce
  obtain rows2 row2 v' ins where sn: "snapshot_definition (pe_sha256 env) rows1 row1 vid (Some (applied_rationale p)) True
      = (rows2, row2, v', ins)" using prod_cases4 by blast
  let ?db1 = "put_automation (g\<lparr>gv_row := row1\<rparr>) (db\<lparr>pd_rows := rows1\<rparr>)"
  have ok: ok and v: "v' = v" and d: "d = put_proposal (applied_to now actor v p)
      (put_automation (g\<lparr>gv_row := row2\<rparr>) (?db1\<lparr>pd_rows := rows2\<rparr>))"
    using run g sc ch sn by (auto simp: apply_proposal_def Let_def applied_to_def split: if_splits)
  have row2: "row2 = row1\<lparr>ad_head_version_id := Some (wv_id v)\<rparr>"
    using snapshot_head[OF sn] by (simp add: set_head_def v)
  have "find_automation (?db1\<lparr>pd_rows := rows2\<rparr>) (pr_automation_id p) = Some (g\<lparr>gv_row := row1\<rparr>)"
    using find_put_automation[OF g, of "g\<lparr>gv_row := row1\<rparr>"] row1 by (simp add: find_automation_def put_automation_def)
  from find_put_automation[OF this, of "g\<lparr>gv_row := row2\<rparr>"] row1
  have "find_automation d (pr_automation_id p) = Some (g\<lparr>gv_row := row2\<rparr>)"
    by (simp add: d row2 find_automation_def put_proposal_def)
  moreover have "pd_rows d = rows2" by (simp add: d put_proposal_def put_automation_def)
  ultimately show ?thesis
    using sc ch ok row1 row2 snapshot_version[OF sn] v by auto
qed

lemma replace_children_True:
  assumes "replace_children str_of now ids aid payload rows = (rows', True)"
  shows "\<exists>acts trigs targs. reads (payload_action str_of) (jget payload ''actions'') acts
    \<and> live_actions rows' aid = sort_key ac_ordinal acts
    \<and> reads (payload_trigger str_of now) (jget payload ''triggers'') trigs
    \<and> rows_of aid tr_created_at (t_triggers rows') = sort_key tr_created_at trigs
    \<and> reads (payload_target str_of) (jget payload ''delivery_targets'') targs
    \<and> rows_of aid dt_ordinal (t_targets rows') = sort_key dt_ordinal targs
    \<and> (\<forall>a. a \<noteq> aid \<longrightarrow> live_actions rows' a = live_actions rows a)"
proof -
  obtain ta tt td where
    a: "replace_rows (payload_action str_of) (\<lambda>n. ids (3 * n)) aid (jget payload ''actions'') (t_actions rows) = (ta, True)"
    and t: "replace_rows (payload_trigger str_of now) (\<lambda>n. ids (3 * n + 1)) aid (jget payload ''triggers'') (t_triggers rows) = (tt, True)"
    and d: "replace_rows (payload_target str_of) (\<lambda>n. ids (3 * n + 2)) aid (jget payload ''delivery_targets'') (t_targets rows) = (td, True)"
    and rows': "t_actions rows' = ta" "t_triggers rows' = tt" "t_targets rows' = td"
    using assms by (auto simp: replace_children_def Let_def split: prod.splits if_splits)
  from replace_rows_True[OF a] replace_rows_True[OF t] replace_rows_True[OF d] show ?thesis
    unfolding live_actions_def rows' by (elim exE conjE) (intro exI conjI; blast)
qed

lemma decide_approve:
  assumes "decide_proposal env now ids vid k ''approve'' reviewer remark db = Inr db'"
  shows "\<exists>p d v. get_proposal db k = Some p \<and> pr_status p = ''submitted''
    \<and> apply_proposal env now ids vid p (Some reviewer) db = (d, Inr v)
    \<and> db' = (case remark of Some (c # cs) \<Rightarrow> set_comment (Reviewer (c # cs)) k (reset_budget (pr_automation_id p) d)
        | _ \<Rightarrow> reset_budget (pr_automation_id p) d)"
  using assms by (auto simp: decide_proposal_def Let_def split: if_splits option.splits prod.splits sum.splits)

lemma find_map_id: "(\<And>x. P (f x) = P x) \<Longrightarrow> find P (map f xs) = map_option f (find P xs)"
  by (induction xs) auto

lemma find_map_comment:
  "find (\<lambda>p. pr_id p = k) (map (\<lambda>x. if pr_id x = a then x\<lparr>pr_reviewer_comment := c\<rparr> else x) ps) =
     map_option (\<lambda>x. if pr_id x = a then x\<lparr>pr_reviewer_comment := c\<rparr> else x) (find (\<lambda>p. pr_id p = k) ps)"
  by (rule find_map_id) simp

lemma find_reset_budget:
  "find_automation (reset_budget aid db) a = map_option (reset_guard aid) (find_automation db a)"
  by (simp add: find_automation_def reset_budget_def find_map_id)


end
