(* ===== verification/Proposal_Policy.thy ===== *)
theory Proposal_Policy
  imports Workflow_Proposals
begin

text \<open>
  What a proposal that applies itself can change (\<open>evaluate_for_auto_apply\<close> and \<open>compute_diff\<close> of
  \<open>services/workflows/proposals.py\<close>): every difference between the old and the new definition has an entry in
  the diff, and every entry is a path the policy permits.  Then the ways around this that the code leaves
  open, on concrete tables, and the witnesses of the theorems on proposals.
\<close>

subsection \<open>What a change that applies itself can touch\<close>

text \<open>Whether the policy lets a path change without review.\<close>

definition permits :: "json \<Rightarrow> string \<Rightarrow> bool" where
  "permits policy path \<longleftrightarrow>
     (case policy of
        J_obj pol \<Rightarrow>
          (case (jget pol ''allowed_changes'', iterate (jget pol ''hard_blocked'')) of
             (J_list allowed, Some blocked) \<Rightarrow> any_prefix allowed path = Some True \<and> any_prefix blocked path = Some False
           | _ \<Rightarrow> False)
      | _ \<Rightarrow> False)"

lemma check_paths_Eligible:
  "check_paths blocked allowed es = Eligible \<Longrightarrow> e \<in> set es \<Longrightarrow>
     any_prefix allowed (de_path e) = Some True \<and> any_prefix blocked (de_path e) = Some False"
  by (induction es) (auto split: option.splits bool.splits)

lemma evaluate_permits:
  assumes "evaluate_for_auto_apply now g diff risk run = Eligible" and "e \<in> set diff"
  shows "permits (gv_auto_apply_policy g) (de_path e)"
proof -
  obtain policy where p: "gv_auto_apply_policy g = J_obj policy"
    using assms(1) by (cases "gv_auto_apply_policy g") (auto simp: evaluate_for_auto_apply_def split: if_splits)
  obtain allowed where a: "jget policy ''allowed_changes'' = J_list allowed"
    using assms(1) p by (cases "jget policy ''allowed_changes''") (auto simp: evaluate_for_auto_apply_def split: if_splits)
  obtain blocked where b: "iterate (jget policy ''hard_blocked'') = Some blocked" "check_paths blocked allowed diff = Eligible"
    using assms p a by (auto simp: evaluate_for_auto_apply_def split: if_splits option.splits)
  from check_paths_Eligible[OF b(2) assms(2)] show ?thesis by (simp add: permits_def p a b(1))
qed

subsubsection \<open>Equal JSON values\<close>

lemma map_of_filter_key: "map_of (filter (\<lambda>kv. fst kv = k) xs) k = map_of xs k"
  by (induction xs) auto

lemma map_of_sort_key: "map_of (sort_key fst xs) k = map_of xs k"
  by (metis map_of_filter_key sort_key_stable)

lemma map_of_py_norm: "map_of (map (\<lambda>kv. (fst kv, py_norm (snd kv))) d) k = map_option py_norm (map_of d k)"
  by (induction d) auto

lemma py_norm_jget:
  assumes "py_norm (J_obj d) = py_norm (J_obj e)"
  shows "map_option py_norm (map_of d k) = map_option py_norm (map_of e k)"
proof -
  have "sort_key fst (map (\<lambda>kv. (fst kv, py_norm (snd kv))) d) = sort_key fst (map (\<lambda>kv. (fst kv, py_norm (snd kv))) e)"
    using assms by simp
  then have "map_of (sort_key fst (map (\<lambda>kv. (fst kv, py_norm (snd kv))) d)) k
      = map_of (sort_key fst (map (\<lambda>kv. (fst kv, py_norm (snd kv))) e)) k" by (rule arg_cong)
  then show ?thesis unfolding map_of_sort_key map_of_py_norm by assumption
qed

lemma py_norm_simps [simp]:
  "py_norm v = J_null \<longleftrightarrow> v = J_null" "py_norm v = J_str s \<longleftrightarrow> v = J_str s"
  "J_null = py_norm v \<longleftrightarrow> v = J_null" "J_str s = py_norm v \<longleftrightarrow> v = J_str s"
  by (cases v; auto)+

lemma py_norm_obj: "py_norm v = py_norm (J_obj d) \<Longrightarrow> \<exists>e. v = J_obj e"
  by (cases v) auto

lemma py_norm_int: "py_norm v = py_norm (J_int n) \<Longrightarrow> int_of_json v = Some n"
  by (cases v) (auto split: if_splits simp: of_int_eq_1_iff)

lemma py_eq_refl [simp]: "py_eq v v"
  by (simp add: py_eq_def)

subsubsection \<open>The diff of keyed lists\<close>

lemma keyed_put_dom:
  "map (py_norm \<circ> fst) (keyed_put k v m) =
     (if py_norm k \<in> set (map (py_norm \<circ> fst) m) then map (py_norm \<circ> fst) m else map (py_norm \<circ> fst) m @ [py_norm k])"
  by (induction m) (auto simp: py_eq_def)

lemma keyed_put_values: "snd ` set (keyed_put k v m) \<subseteq> insert v (snd ` set m)"
  by (induction m) auto

lemma keyed_put_keys: "fst ` set (keyed_put k v m) \<subseteq> insert k (fst ` set m)"
  by (induction m) auto

lemma keyed_put_new: "length (keyed_put k v m) \<le> Suc (length m)
    \<and> (length (keyed_put k v m) = Suc (length m) \<longrightarrow> keyed_put k v m = m @ [(k, v)])"
  by (induction m) auto

definition key_of :: "string \<Rightarrow> json \<Rightarrow> json" where
  "key_of key x = (case x of J_obj d \<Rightarrow> jget d key | _ \<Rightarrow> J_null)"

lemma keyed_by_facts:
  "keyed_by key xs m = Some m' \<Longrightarrow> distinct (map (py_norm \<circ> fst) m) \<Longrightarrow> (\<forall>k \<in> fst ` set m. is_scalar k) \<Longrightarrow>
     distinct (map (py_norm \<circ> fst) m') \<and> snd ` set m' \<subseteq> snd ` set m \<union> set xs \<and> (\<forall>k \<in> fst ` set m'. is_scalar k)
     \<and> length m' \<le> length m + length xs
     \<and> (length m' = length m + length xs \<longrightarrow> m' = m @ map (\<lambda>x. (key_of key x, x)) xs)"
proof (induction key xs m rule: keyed_by.induct)
  case (2 key d xs m)
  let ?k = "jget d key" and ?x = "J_obj d"
  have run: "keyed_by key xs (keyed_put ?k ?x m) = Some m'" and sc: "is_scalar ?k"
    using "2.prems"(1) by (auto split: if_splits)
  have d: "distinct (map (py_norm \<circ> fst) (keyed_put ?k ?x m))"
    unfolding keyed_put_dom using "2.prems"(2) by (auto simp: comp_def)
  have s: "\<forall>k \<in> fst ` set (keyed_put ?k ?x m). is_scalar k"
    by (rule ballI, drule subsetD[OF keyed_put_keys]) (use "2.prems"(3) sc in auto)
  note ih = "2.IH"[OF sc run d s]
  have "snd ` set m' \<subseteq> snd ` set (keyed_put ?k ?x m) \<union> set xs" using ih by (rule conjunct1[OF conjunct2])
  from order_trans[OF this Un_mono[OF keyed_put_values order_refl]]
  have "snd ` set m' \<subseteq> snd ` set m \<union> set (?x # xs)" by (simp only: list.simps Un_insert_left Un_insert_right)
  moreover have "length m' \<le> length m + length (?x # xs)
      \<and> (length m' = length m + length (?x # xs) \<longrightarrow> m' = m @ map (\<lambda>x. (key_of key x, x)) (?x # xs))"
    using ih keyed_put_new[of ?k ?x m] by (auto simp: key_of_def)
  ultimately show ?case using ih by blast
qed auto

lemma keyed_by_start:
  assumes "keyed_by key xs [] = Some m"
  shows keyed_by_distinct: "distinct (map (py_norm \<circ> fst) m)"
    and keyed_by_values: "snd ` set m \<subseteq> set xs"
    and keyed_by_scalar: "\<forall>k \<in> fst ` set m. is_scalar k"
    and keyed_by_all: "length m = length xs \<Longrightarrow> m = map (\<lambda>x. (key_of key x, x)) xs"
proof -
  have f: "distinct (map (py_norm \<circ> fst) m) \<and> snd ` set m \<subseteq> snd ` set ([] :: keyed) \<union> set xs \<and> (\<forall>k \<in> fst ` set m. is_scalar k)
     \<and> length m \<le> length ([] :: keyed) + length xs
     \<and> (length m = length ([] :: keyed) + length xs \<longrightarrow> m = [] @ map (\<lambda>x. (key_of key x, x)) xs)"
    by (rule keyed_by_facts[OF assms]) simp_all
  show "distinct (map (py_norm \<circ> fst) m)" using f by (rule conjunct1)
  show "snd ` set m \<subseteq> set xs" using f[THEN conjunct2, THEN conjunct1] by simp
  show "\<forall>k \<in> fst ` set m. is_scalar k" using f[THEN conjunct2, THEN conjunct2] by (rule conjunct1)
  show "length m = length xs \<Longrightarrow> m = map (\<lambda>x. (key_of key x, x)) xs"
    using f[THEN conjunct2, THEN conjunct2, THEN conjunct2, THEN conjunct2] by simp
qed

lemma keyed_get_in:
  assumes "distinct (map (py_norm \<circ> fst) m)" and "(k, v) \<in> set m" and "py_eq k k'"
  shows "keyed_get m k' = v"
  using assms by (induction m) (force simp: keyed_get_def py_eq_def)+

lemma keyed_get_value: "keyed_get m k \<noteq> J_null \<Longrightarrow> keyed_get m k \<in> snd ` set m"
  by (force simp: keyed_get_def split: option.splits dest!: find_SomeD)

lemma if_None_Some: "(if c then None else Some x) = Some y \<Longrightarrow> y = x"
  by (simp split: if_split_asm)

lemma set_sort_keys:
  assumes "sort_keys ks = Some ks'" and "\<forall>k \<in> set ks. is_scalar k"
  shows "set ks' = set ks"
proof -
  have "num_value k \<noteq> None \<or> str_value k \<noteq> None \<or> k = J_null" if "is_scalar k" for k
    using that by (cases k) auto
  moreover have "set ks' = {k \<in> set ks. num_value k \<noteq> None} \<union> {k \<in> set ks. str_value k \<noteq> None} \<union> {k \<in> set ks. J_null = k}"
  proof -
    have "ks' = sort_key (the \<circ> num_value) (filter (\<lambda>k. num_value k \<noteq> None) ks)
        @ sort_key (the \<circ> str_value) (filter (\<lambda>k. str_value k \<noteq> None) ks) @ filter ((=) J_null) ks"
      using assms(1) unfolding sort_keys_def Let_def by (rule if_None_Some)
    then show ?thesis by auto
  qed
  ultimately show ?thesis using assms(2) by blast
qed

definition keyed_path :: "(json \<Rightarrow> string) \<Rightarrow> string \<Rightarrow> string \<Rightarrow> json \<Rightarrow> string" where
  "keyed_path str_of nm key k = nm @ ''['' @ key @ ''='' @ json_str str_of k @ '']''"

text \<open>For every key of either side there is an entry, unless both sides have equal values under it.\<close>

lemma keyed_diff_covers:
  assumes kd: "keyed_diff str_of nm key before after = Some ds"
    and bm: "keyed_by key before [] = Some bm" and am: "keyed_by key after [] = Some am"
    and k: "k \<in> fst ` set bm \<union> fst ` set am"
  shows "py_eq (keyed_get bm k) (keyed_get am k) \<or> (\<exists>k'. py_eq k' k \<and> (\<exists>e \<in> set ds. de_path e = keyed_path str_of nm key k'))"
proof -
  note fb = keyed_by_scalar[OF bm] and fa = keyed_by_scalar[OF am]
  obtain ks where ks: "sort_keys (union_keys bm am) = Some ks"
    and ds: "ds = List.map_filter (\<lambda>k. let b = keyed_get bm k; a = keyed_get am k
        in if py_eq b a then None else Some (diff_at (nm @ ''['' @ key @ ''='' @ json_str str_of k @ '']'') b a)) ks"
    using kd bm am by (auto simp: keyed_diff_def)
  have set_ks: "set ks = set (union_keys bm am)"
  proof (rule set_sort_keys[OF ks])
    have sub: "set (union_keys bm am) \<subseteq> fst ` set bm \<union> fst ` set am"
      unfolding union_keys_def set_append set_map set_filter by (rule Un_mono) (rule order_refl, rule Collect_subset)
    show "\<forall>k \<in> set (union_keys bm am). is_scalar k"
      by (rule ballI, drule subsetD[OF sub], erule UnE) (erule bspec[OF fb], erule bspec[OF fa])
  qed
  have "\<exists>k'. k' \<in> set ks \<and> py_eq k' k"
  proof (cases "\<exists>kv \<in> set bm. py_eq (fst kv) k")
    case True
    then show ?thesis by (auto simp: set_ks union_keys_def intro: rev_image_eqI)
  next
    case False
    with k have "k \<in> set ks" by (auto simp: set_ks union_keys_def list_ex_iff)
    then show ?thesis by (intro exI[of _ k]) simp
  qed
  then obtain k' where k': "k' \<in> set ks" "py_eq k' k" by blast
  have get: "keyed_get m k' = keyed_get m k" for m
    using k'(2) by (simp add: keyed_get_def py_eq_def)
  show ?thesis
  proof (cases "py_eq (keyed_get bm k) (keyed_get am k)")
    case False
    then have "(let b = keyed_get bm k'; a = keyed_get am k' in if py_eq b a then None
        else Some (diff_at (nm @ ''['' @ key @ ''='' @ json_str str_of k' @ '']'') b a)) =
        Some (diff_at (nm @ ''['' @ key @ ''='' @ json_str str_of k' @ '']'') (keyed_get bm k') (keyed_get am k'))"
      by (simp add: Let_def get)
    then have "diff_at (nm @ ''['' @ key @ ''='' @ json_str str_of k' @ '']'') (keyed_get bm k') (keyed_get am k') \<in> set ds"
      unfolding ds set_map_filter using k'(1) by blast
    from bexI[OF _ this, of "\<lambda>e. de_path e = keyed_path str_of nm key k'"]
    have "\<exists>e \<in> set ds. de_path e = keyed_path str_of nm key k'" by (simp add: keyed_path_def diff_at_def)
    with k'(2) show ?thesis by blast
  qed simp
qed

text \<open>An element of the new list equals one of the old, or there is an entry for it; and the other way round.\<close>

lemma keyed_diff_new:
  assumes kd: "keyed_diff str_of nm key before after = Some ds" and bm: "keyed_by key before [] = Some bm"
    and am: "keyed_by key after [] = Some am" and all: "length am = length after" and x: "x \<in> set after" "x \<noteq> J_null"
  shows "(\<exists>y \<in> set before. py_eq y x)
    \<or> (\<exists>k'. py_eq k' (key_of key x) \<and> (\<exists>e \<in> set ds. de_path e = keyed_path str_of nm key k'))"
proof -
  let ?k = "key_of key x"
  have kx: "(?k, x) \<in> set am" using keyed_by_all[OF am all] x(1) by simp
  have get: "keyed_get am ?k = x" by (rule keyed_get_in[OF keyed_by_distinct[OF am] kx]) simp
  have "?k \<in> fst ` set am" using kx by (rule image_eqI[rotated]) simp
  from keyed_diff_covers[OF kd bm am UnI2[OF this]] consider
    "py_eq (keyed_get bm ?k) x" | "\<exists>k'. py_eq k' ?k \<and> (\<exists>e \<in> set ds. de_path e = keyed_path str_of nm key k')"
    unfolding get by blast
  then show ?thesis
  proof cases
    case 1
    then have "keyed_get bm ?k \<noteq> J_null" using x(2) by (auto simp: py_eq_def)
    from keyed_get_value[OF this] keyed_by_values[OF bm] have "keyed_get bm ?k \<in> set before" by blast
    with 1 show ?thesis by blast
  qed blast
qed

lemma keyed_diff_old:
  assumes kd: "keyed_diff str_of nm key before after = Some ds" and bm: "keyed_by key before [] = Some bm"
    and am: "keyed_by key after [] = Some am" and all: "length bm = length before" and x: "x \<in> set before" "x \<noteq> J_null"
  shows "(\<exists>y \<in> set after. py_eq x y)
    \<or> (\<exists>k'. py_eq k' (key_of key x) \<and> (\<exists>e \<in> set ds. de_path e = keyed_path str_of nm key k'))"
proof -
  let ?k = "key_of key x"
  have kx: "(?k, x) \<in> set bm" using keyed_by_all[OF bm all] x(1) by simp
  have get: "keyed_get bm ?k = x" by (rule keyed_get_in[OF keyed_by_distinct[OF bm] kx]) simp
  have "?k \<in> fst ` set bm" using kx by (rule image_eqI[rotated]) simp
  from keyed_diff_covers[OF kd bm am UnI1[OF this]] consider
    "py_eq x (keyed_get am ?k)" | "\<exists>k'. py_eq k' ?k \<and> (\<exists>e \<in> set ds. de_path e = keyed_path str_of nm key k')"
    unfolding get by blast
  then show ?thesis
  proof cases
    case 1
    then have "keyed_get am ?k \<noteq> J_null" using x(2) by (auto simp: py_eq_def)
    from keyed_get_value[OF this] keyed_by_values[OF am] have "keyed_get am ?k \<in> set after" by blast
    with 1 show ?thesis by blast
  qed blast
qed

text \<open>What an action does, up to its identifier and Python's equality of its configuration.\<close>

definition action_view :: "action \<Rightarrow> int \<times> string \<times> json \<times> uuid option \<times> uuid option \<times> json" where
  "action_view a = (ac_ordinal a, ac_type a, py_norm (ac_config a), ac_app_action_id a, ac_parent_action_id a,
     py_norm (ac_branch_condition a))"

lemma py_norm_jget_eq:
  "py_norm (J_obj d) = py_norm (J_obj e) \<Longrightarrow> py_norm (jget d k) = py_norm (jget e k)"
  using py_norm_jget[of d e k] by (cases "map_of d k"; cases "map_of e k") (auto simp: jget_def)

lemma jget_default_some: "jget e k \<noteq> J_null \<Longrightarrow> jget_default e k v = jget e k"
  by (auto simp: jget_def jget_default_def split: option.splits)

lemma action_view_eq:
  assumes eq: "py_eq (action_dict a) x" and ok: "action_row_ok a" and rd: "payload_action str_of k x = Some a'"
  shows "action_view a' = action_view a"
proof -
  obtain e where x: "x = J_obj e" using rd by (cases x) auto
  obtain d where d: "action_dict a = J_obj d" by (simp add: action_dict_def)
  have get: "py_norm (jget e f) = py_norm (jget d f)" for f
    using eq py_norm_jget_eq[of d e f] by (simp add: py_eq_def x d del: py_norm.simps)
  have fields: "jget d ''ordinal'' = J_int (ac_ordinal a)" "jget d ''action_type'' = J_str (ac_type a)"
    "jget d ''config'' = or_empty (ac_config a)" "jget d ''app_action_id'' = opt_uuid (ac_app_action_id a)"
    "jget d ''parent_action_id'' = opt_uuid (ac_parent_action_id a)" "jget d ''branch_condition'' = ac_branch_condition a"
    using d by (auto simp: action_dict_def jget_def)
  obtain cfg where cfg: "ac_config a = J_obj cfg" using ok by (cases "ac_config a") (auto simp: action_row_ok_def)
  have "py_norm (jget e ''ordinal'') = py_norm (J_int (ac_ordinal a))" using get[of "''ordinal''"] fields(1) by simp
  then have "int_of_json (jget e ''ordinal'') = Some (ac_ordinal a)" by (rule py_norm_int)
  moreover from this have "jget e ''ordinal'' \<noteq> J_null" by auto
  ultimately have ord: "int_of_json (jget_default e ''ordinal'' (J_int 0)) = Some (ac_ordinal a)"
    by (simp add: jget_default_some)
  have ty: "jget e ''action_type'' = J_str (ac_type a)" using get[of "''action_type''"] by (simp add: fields)
  have ids: "jget e ''app_action_id'' = opt_uuid (ac_app_action_id a)" "jget e ''parent_action_id'' = opt_uuid (ac_parent_action_id a)"
    using get[of "''app_action_id''"] get[of "''parent_action_id''"]
    by (auto simp: fields opt_uuid_def split: option.splits)
  obtain cfg' where cfg': "jget e ''config'' = J_obj cfg'" "py_norm (J_obj cfg') = py_norm (J_obj cfg)"
    using py_norm_obj[of "jget e ''config''" cfg] get[of "''config''"] by (auto simp: fields cfg simp del: py_norm.simps)
  have "read_opt_uuid str_of (jget e ''app_action_id'') = Some (ac_app_action_id a)"
    "read_opt_uuid str_of (jget e ''parent_action_id'') = Some (ac_parent_action_id a)"
    using ok by (auto simp: ids action_row_ok_def read_opt_uuid_str)
  then show ?thesis
    using rd ord ty cfg' cfg get[of "''branch_condition''"]
    by (auto simp: x action_view_def jget_default_some json_str_def fields simp del: py_norm.simps)
qed

subsubsection \<open>The columns of the automation\<close>

lemma set_text_cases:
  assumes "set_text payload k upd row = Some r"
  obtains "map_of payload k = None" "r = row" | s where "map_of payload k = Some (J_str s)" "r = upd s row"
  using assms by (auto simp: set_text_def split: option.splits json.splits)

definition text_after :: "json_dict \<Rightarrow> string \<Rightarrow> 'a \<Rightarrow> (string \<Rightarrow> 'a) \<Rightarrow> 'a" where
  "text_after payload k old new = (case map_of payload k of Some (J_str s) \<Rightarrow> new s | _ \<Rightarrow> old)"

lemma set_texts_fields:
  assumes "set_texts payload row = Some r"
  shows "r = row\<lparr>ad_name := text_after payload ''name'' (ad_name row) id,
      ad_workspace_scope := text_after payload ''workspace_scope'' (ad_workspace_scope row) Some,
      ad_compute_profile := text_after payload ''compute_profile'' (ad_compute_profile row) Some\<rparr>
    \<and> (\<forall>k \<in> {''name'', ''workspace_scope'', ''compute_profile''}. map_of payload k = None \<or> (\<exists>s. map_of payload k = Some (J_str s)))"
proof -
  obtain r1 r2 where r: "set_text payload ''name'' (\<lambda>s r. r\<lparr>ad_name := s\<rparr>) row = Some r1"
    "set_text payload ''workspace_scope'' (\<lambda>s r. r\<lparr>ad_workspace_scope := Some s\<rparr>) r1 = Some r2"
    "set_text payload ''compute_profile'' (\<lambda>s r. r\<lparr>ad_compute_profile := Some s\<rparr>) r2 = Some r"
    using assms by (auto simp: set_texts_def bind_eq_Some_conv)
  show ?thesis
    by (rule set_text_cases[OF r(1)]; rule set_text_cases[OF r(2)]; rule set_text_cases[OF r(3)]) (simp_all add: text_after_def)
qed

lemma set_scalars_fields:
  assumes "set_scalars payload row = (row1, None)"
  shows "ad_name row1 = text_after payload ''name'' (ad_name row) id"
    "ad_workspace_scope row1 = text_after payload ''workspace_scope'' (ad_workspace_scope row) Some"
    "ad_compute_profile row1 = text_after payload ''compute_profile'' (ad_compute_profile row) Some"
    "ad_contract row1 = (case map_of payload ''contract'' of None \<Rightarrow> ad_contract row | Some v \<Rightarrow> v)"
    "ad_max_spend_per_run row1 = (case map_of payload ''max_spend_per_run_usd'' of None \<Rightarrow> ad_max_spend_per_run row | Some v \<Rightarrow> v)"
    "ad_max_spend_per_day row1 = (case map_of payload ''max_spend_per_day_usd'' of None \<Rightarrow> ad_max_spend_per_day row | Some v \<Rightarrow> v)"
    "case map_of payload ''max_compute_tier'' of None \<Rightarrow> ad_max_compute_tier row1 = ad_max_compute_tier row
       | Some v \<Rightarrow> ad_max_compute_tier row1 = int_of_json v \<and> int_of_json v \<noteq> None"
proof -
  obtain r where r: "set_texts payload row = Some r"
    using assms by (auto simp: set_scalars_def split: option.splits)
  note f = conjunct1[OF set_texts_fields[OF r]]
  let ?spends = "\<lambda>r. set_json payload ''max_spend_per_day_usd'' (\<lambda>v r. r\<lparr>ad_max_spend_per_day := v\<rparr>)
      (set_json payload ''max_spend_per_run_usd'' (\<lambda>v r. r\<lparr>ad_max_spend_per_run := v\<rparr>) r)"
  let ?r2 = "set_json payload ''contract'' (\<lambda>v r. r\<lparr>ad_contract := v\<rparr>) r"
  obtain tier where row1: "row1 = ?spends (?r2\<lparr>ad_max_compute_tier := tier\<rparr>)"
    and tier: "case map_of payload ''max_compute_tier'' of None \<Rightarrow> tier = ad_max_compute_tier row
       | Some v \<Rightarrow> tier = int_of_json v \<and> int_of_json v \<noteq> None"
  proof (cases "map_of payload ''max_compute_tier''")
    case None
    have "ad_max_compute_tier ?r2 = ad_max_compute_tier row" by (simp add: f set_json_def split: option.split)
    then have "?r2\<lparr>ad_max_compute_tier := ad_max_compute_tier row\<rparr> = ?r2" by (cases ?r2) simp
    with None assms show ?thesis by (intro that[of "ad_max_compute_tier row"]) (simp_all add: set_scalars_def r)
  next
    case (Some v)
    with assms show ?thesis
      by (cases "int_of_json v"; intro that[of "int_of_json v"]) (simp_all add: set_scalars_def r Let_def)
  qed
  show "ad_name row1 = text_after payload ''name'' (ad_name row) id"
    "ad_workspace_scope row1 = text_after payload ''workspace_scope'' (ad_workspace_scope row) Some"
    "ad_compute_profile row1 = text_after payload ''compute_profile'' (ad_compute_profile row) Some"
    "ad_contract row1 = (case map_of payload ''contract'' of None \<Rightarrow> ad_contract row | Some v \<Rightarrow> v)"
    "ad_max_spend_per_run row1 = (case map_of payload ''max_spend_per_run_usd'' of None \<Rightarrow> ad_max_spend_per_run row | Some v \<Rightarrow> v)"
    "ad_max_spend_per_day row1 = (case map_of payload ''max_spend_per_day_usd'' of None \<Rightarrow> ad_max_spend_per_day row | Some v \<Rightarrow> v)"
    by (simp_all add: row1 f set_json_def split: option.split)
  have "ad_max_compute_tier row1 = tier" by (simp add: row1 set_json_def split: option.split)
  with tier show "case map_of payload ''max_compute_tier'' of None \<Rightarrow> ad_max_compute_tier row1 = ad_max_compute_tier row
       | Some v \<Rightarrow> ad_max_compute_tier row1 = int_of_json v \<and> int_of_json v \<noteq> None" by (auto split: option.splits)
qed

lemma scalar_keys_cases:
  assumes "k \<in> set scalar_keys"
  obtains "k = ''max_compute_tier''" | "k = ''max_spend_per_run_usd''" | "k = ''max_spend_per_day_usd''"
    | "k = ''compute_profile''" | "k = ''workspace_scope''" | "k = ''name''"
  using assms unfolding scalar_keys_def list.set by (elim insertE emptyE)

text \<open>A column keeps its value in the snapshot, up to Python's equality, when the payload does not name it or
  names an equal value.\<close>

lemma column_kept:
  assumes "set_scalars payload row = (row1, None)" and "k \<in> set scalar_keys"
    and "map_of payload k = None \<or> (\<exists>v. map_of payload k = Some v \<and> py_eq (jget (build_payload rows row) k) v)"
  shows "py_eq (jget (build_payload rows row) k) (jget (build_payload rows' row1) k)"
proof -
  note f = set_scalars_fields[OF assms(1)]
  have texts: "map_of payload k = None \<or> (\<exists>s. map_of payload k = Some (J_str s))"
    if "k \<in> {''name'', ''workspace_scope'', ''compute_profile''}" for k
  proof -
    obtain r where "set_texts payload row = Some r" using assms(1) by (auto simp: set_scalars_def split: option.splits)
    from conjunct2[OF set_texts_fields[OF this]] that show ?thesis by (rule bspec)
  qed
  from assms(2) show ?thesis
  proof (cases rule: scalar_keys_cases)
    case 1
    have j: "jget (build_payload rs rw) ''max_compute_tier'' = J_int (case ad_max_compute_tier rw of None \<Rightarrow> 0 | Some n \<Rightarrow> n)" for rs rw
      by (simp add: build_payload_def jget_def)
    show ?thesis
    proof (cases "map_of payload ''max_compute_tier''")
      case None
      with f(7) show ?thesis unfolding 1 j by simp
    next
      case (Some v)
      with assms(3)[unfolded 1 j] have "py_eq (J_int (case ad_max_compute_tier row of None \<Rightarrow> 0 | Some n \<Rightarrow> n)) v" by simp
      then have "int_of_json v = Some (case ad_max_compute_tier row of None \<Rightarrow> 0 | Some n \<Rightarrow> n)"
        by (intro py_norm_int) (simp add: py_eq_def)
      with f(7) Some show ?thesis unfolding 1 j by simp
    qed
  next
    case 2
    have j: "jget (build_payload rs rw) ''max_spend_per_run_usd'' = ad_max_spend_per_run rw" for rs rw by (simp add: build_payload_def jget_def)
    show ?thesis using assms(3) f(5) unfolding 2 j by (auto split: option.splits)
  next
    case 3
    have j: "jget (build_payload rs rw) ''max_spend_per_day_usd'' = ad_max_spend_per_day rw" for rs rw by (simp add: build_payload_def jget_def)
    show ?thesis using assms(3) f(6) unfolding 3 j by (auto split: option.splits)
  next
    case 4
    have j: "jget (build_payload rs rw) ''compute_profile'' = py_or (opt_str (ad_compute_profile rw)) (J_str ''persistent_workspace'')" for rs rw
      by (simp add: build_payload_def jget_def)
    show ?thesis using assms(3) f(3) texts[of k] unfolding 4 j
      by (auto simp: text_after_def py_eq_def opt_str_def py_or_def split: option.splits if_splits)
  next
    case 5
    have j: "jget (build_payload rs rw) ''workspace_scope'' = py_or (opt_str (ad_workspace_scope rw)) (J_str ''none'')" for rs rw
      by (simp add: build_payload_def jget_def)
    show ?thesis using assms(3) f(2) texts[of k] unfolding 5 j
      by (auto simp: text_after_def py_eq_def opt_str_def py_or_def split: option.splits if_splits)
  next
    case 6
    have j: "jget (build_payload rs rw) ''name'' = J_str (ad_name rw)" for rs rw by (simp add: build_payload_def jget_def)
    show ?thesis using assms(3) f(1) texts[of k] unfolding 6 j by (auto simp: text_after_def py_eq_def)
  qed
qed

definition contract_child :: "automation \<Rightarrow> string \<Rightarrow> json" where
  "contract_child row c = (case or_empty (ad_contract row) of J_obj d \<Rightarrow> jget d c | _ \<Rightarrow> J_null)"

lemma child_diff_covers:
  "py_eq (jget bd c) (jget ad c) \<or> (\<exists>e. child_diff bd ad c = Some e \<and> de_path e = ''contract.'' @ c)"
  by (auto simp: child_diff_def jget_def split: option.split)

lemma contract_diff_covers:
  assumes sc: "set_scalars payload row = (row1, None)" and before: "jget before ''contract'' = or_empty (ad_contract row)"
  shows "py_eq (contract_child row c) (contract_child row1 c)
    \<or> (\<exists>e \<in> set (contract_diff before payload). de_path e = ''contract.'' @ c \<or> de_path e = ''contract'')"
proof (cases "map_of payload ''contract''")
  case None
  then show ?thesis using set_scalars_fields(4)[OF sc] by (simp add: contract_child_def)
next
  case (Some v)
  let ?b = "or_empty (ad_contract row)" and ?a = "or_empty v"
  have row1: "ad_contract row1 = v" using set_scalars_fields(4)[OF sc] Some by simp
  have v: "jget payload ''contract'' = v" using Some by (simp add: jget_def)
  show ?thesis
  proof (cases "\<exists>bd ad. ?b = J_obj bd \<and> ?a = J_obj ad")
    case True
    then obtain bd ad where ba: "?b = J_obj bd" "?a = J_obj ad" by blast
    have cd: "contract_diff before payload = List.map_filter (child_diff bd ad) (remdups (map fst bd @ map fst ad))"
      by (simp add: contract_diff_def Some before v ba)
    from child_diff_covers[of bd c ad] show ?thesis
    proof
      assume "py_eq (jget bd c) (jget ad c)"
      then show ?thesis by (simp add: contract_child_def row1 ba)
    next
      assume "\<exists>e. child_diff bd ad c = Some e \<and> de_path e = ''contract.'' @ c"
      then obtain e where e: "child_diff bd ad c = Some e" "de_path e = ''contract.'' @ c" by blast
      then have "c \<in> set (remdups (map fst bd @ map fst ad))"
        by (auto simp: child_diff_def split: option.splits dest!: map_of_SomeD intro: rev_image_eqI)
      with e have "e \<in> set (contract_diff before payload)" by (auto simp: cd set_map_filter)
      with e(2) show ?thesis by blast
    qed
  next
    case False
    have cd: "contract_diff before payload = (if py_eq ?b ?a then []
        else [\<lparr>de_path = ''contract'', de_op = D_replace, de_before = ?b, de_after = ?a\<rparr>])"
      using False by (auto simp: contract_diff_def Some before v Let_def split: json.split)
    show ?thesis
    proof (cases "py_eq ?b ?a")
      case True
      have "\<not> (\<exists>d. ?b = J_obj d)" "\<not> (\<exists>d. ?a = J_obj d)"
        using False True py_norm_obj[of ?a] py_norm_obj[of ?b] by (auto simp: py_eq_def simp del: py_norm.simps) metis+
      then show ?thesis by (simp add: contract_child_def row1 split: json.split)
    next
      case f: False
      then show ?thesis by (simp add: cd)
    qed
  qed
qed

lemma get_set_comment:
  "get_proposal (set_comment c k db) k = map_option (\<lambda>x. x\<lparr>pr_reviewer_comment := Some c\<rparr>) (get_proposal db k)"
  unfolding get_proposal_def set_comment_def
  by (cases "find (\<lambda>p. pr_id p = k) (pd_proposals db)") (auto simp: find_map_comment dest: find_SomeD)

lemma auto_applied_inv:
  assumes run: "auto_apply env now ids vid g p db = Inr db'"
    and q: "get_proposal db' (pr_id p) = Some q" "pr_reviewer_comment q = Some Auto_applied"
  shows "evaluate_for_auto_apply now g (pr_diff_summary p) (pr_risk_class p) (pr_proposer_run_id p) = Eligible
    \<and> (\<exists>d v. apply_proposal env now ids vid p (pr_proposer_user_id p) db = (d, Inr v)
         \<and> db' = set_comment Auto_applied (pr_id p) (bump_guards now (pr_automation_id p) d))"
proof -
  have no: False if "db' = set_comment c (pr_id p) d" "c \<noteq> Auto_applied" for c d
    using q that by (auto simp: get_set_comment)
  obtain v1 where v1: "evaluate_for_auto_apply now g (pr_diff_summary p) (pr_risk_class p) (pr_proposer_run_id p) = v1"
    by simp
  show ?thesis
  proof (cases v1)
    case Eligible
    obtain dr where dr: "evaluate_dry_run (pe_str env) (pr_to_payload p) = Some dr"
      using run v1 Eligible by (auto simp: auto_apply_def split: option.splits)
    have "dr = None"
      using run v1 Eligible dr no[of "Dry_run_failed (the dr)" db] by (cases dr) (auto simp: auto_apply_def)
    obtain d r where ap: "apply_proposal env now ids vid p (pr_proposer_user_id p) db = (d, r)" by fastforce
    show ?thesis
    proof (cases r)
      case (Inl f)
      with run v1 Eligible dr \<open>dr = None\<close> ap no[of Apply_failed d] show ?thesis
        by (auto simp: auto_apply_def split: if_splits)
    next
      case (Inr v)
      with run v1 Eligible dr \<open>dr = None\<close> ap show ?thesis by (auto simp: auto_apply_def)
    qed
  next
    case (Refuse r)
    with run v1 no[of "Not_eligible r" db] show ?thesis by (auto simp: auto_apply_def)
  next
    case Raises
    with run v1 show ?thesis by (simp add: auto_apply_def)
  qed
qed

text \<open>No two entries of the payload's actions share an ordinal.\<close>

definition one_per_ordinal :: "json_dict \<Rightarrow> bool" where
  "one_per_ordinal payload \<longleftrightarrow>
     (case items_of (jget payload ''actions'') of
        None \<Rightarrow> False
      | Some items \<Rightarrow> (case keyed_by ''ordinal'' items [] of None \<Rightarrow> False | Some m \<Rightarrow> length m = length items))"

definition action_path :: "(json \<Rightarrow> string) \<Rightarrow> json \<Rightarrow> string" where
  "action_path str_of k = keyed_path str_of ''actions'' ''ordinal'' k"

text \<open>The key \<open>k\<close> of a diff entry is the ordinal \<open>n\<close> of an action; a missing key is the ordinal 0.\<close>

definition names_ordinal :: "json \<Rightarrow> int \<Rightarrow> bool" where
  "names_ordinal k n \<longleftrightarrow> int_of_json (if k = J_null then J_int 0 else k) = Some n"

lemma int_of_json_norm: "py_norm a = py_norm b \<Longrightarrow> int_of_json a = int_of_json b"
  by (cases a; cases b) (auto split: if_splits simp: py_int_def)

lemma names_ordinal_eq: "py_eq k k' \<Longrightarrow> names_ordinal k n \<longleftrightarrow> names_ordinal k' n"
  using int_of_json_norm[of k k'] by (auto simp: names_ordinal_def py_eq_def)

lemma payload_action_ordinal:
  assumes "payload_action str_of k x = Some a"
  shows "names_ordinal (key_of ''ordinal'' x) (ac_ordinal a)"
proof -
  obtain d where x: "x = J_obj d" using assms by (cases x) auto
  have "int_of_json (jget_default d ''ordinal'' (J_int 0)) = Some (ac_ordinal a)"
    using assms by (auto simp: x split: option.splits json.splits)
  then show ?thesis by (cases "map_of d ''ordinal''") (auto simp: x names_ordinal_def key_of_def jget_def jget_default_def)
qed

lemma action_dict_ordinal: "names_ordinal (key_of ''ordinal'' (action_dict a)) (ac_ordinal a)"
  by (simp add: names_ordinal_def key_of_def action_dict_def jget_def)

lemma readsD:
  assumes "reads mk v rows" and "items_of v = Some items"
  shows "r \<in> set rows \<Longrightarrow> \<exists>x \<in> set items. \<exists>k. mk k x = Some r"
    and "x \<in> set items \<Longrightarrow> \<exists>r \<in> set rows. \<exists>k. mk k x = Some r"
proof -
  have l: "list_all2 (\<lambda>x r. \<exists>k. mk k x = Some r) items rows" using assms by (auto simp: reads_def)
  then have l': "list_all2 (\<lambda>r x. \<exists>k. mk k x = Some r) rows items" by (simp add: list_all2_conv_all_nth)
  show "x \<in> set items \<Longrightarrow> \<exists>r \<in> set rows. \<exists>k. mk k x = Some r" by (rule list_all2_in[OF l])
  show "r \<in> set rows \<Longrightarrow> \<exists>x \<in> set items. \<exists>k. mk k x = Some r" by (rule list_all2_in[OF l'])
qed

lemma keyed_by_action_dicts:
  "distinct (map ac_ordinal as) \<Longrightarrow> (\<forall>a \<in> set as. J_float (of_int (ac_ordinal a)) \<notin> set (map (py_norm \<circ> fst) m))
     \<Longrightarrow> keyed_by ''ordinal'' (map action_dict as) m = Some m' \<Longrightarrow> length m' = length m + length as"
proof (induction as arbitrary: m)
  case (Cons b as)
  obtain d where b: "action_dict b = J_obj d" by (simp add: action_dict_def)
  then have key: "jget d ''ordinal'' = J_int (ac_ordinal b)" by (auto simp: action_dict_def jget_def)
  let ?m = "keyed_put (J_int (ac_ordinal b)) (J_obj d) m"
  have dom: "map (py_norm \<circ> fst) ?m = map (py_norm \<circ> fst) m @ [J_float (of_int (ac_ordinal b))]"
    using Cons.prems(2) unfolding keyed_put_dom by simp
  then have "length ?m = Suc (length m)" by (metis length_append_singleton length_map)
  moreover have "keyed_by ''ordinal'' (map action_dict as) ?m = Some m'"
    using Cons.prems(3) key by (simp add: b)
  moreover have "\<forall>a \<in> set as. J_float (of_int (ac_ordinal a)) \<notin> set (map (py_norm \<circ> fst) ?m)"
  proof
    fix a assume a: "a \<in> set as"
    then have "ac_ordinal a \<noteq> ac_ordinal b" using Cons.prems(1) by (metis distinct.simps(2) image_eqI list.set_map list.simps(9))
    then show "J_float (of_int (ac_ordinal a)) \<notin> set (map (py_norm \<circ> fst) ?m)"
      unfolding dom using Cons.prems(2) a by simp
  qed
  ultimately show ?case using Cons.IH[of ?m] Cons.prems(1) by simp
qed simp

text \<open>What the actions of two versions have in common, if every entry of their diff is permitted.\<close>

lemma actions_permitted:
  assumes kd: "keyed_diff str_of ''actions'' ''ordinal'' (map action_dict acts) items = Some ds"
    and ok: "list_all action_row_ok acts" and one: "keyed_by ''ordinal'' items [] = Some am" "length am = length items"
    and rd: "reads (payload_action str_of) v new" "items_of v = Some items"
    and perm: "\<And>e. e \<in> set ds \<Longrightarrow> P (de_path e)"
  shows "a' \<in> set new \<Longrightarrow> (\<exists>a \<in> set acts. action_view a' = action_view a)
      \<or> (\<exists>o'. names_ordinal o' (ac_ordinal a') \<and> P (action_path str_of o'))"
    and "distinct (map ac_ordinal acts) \<Longrightarrow> a \<in> set acts \<Longrightarrow> (\<exists>a' \<in> set new. action_view a' = action_view a)
      \<or> (\<exists>o'. names_ordinal o' (ac_ordinal a) \<and> P (action_path str_of o'))"
proof -
  obtain bm where bm: "keyed_by ''ordinal'' (map action_dict acts) [] = Some bm"
    using kd by (auto simp: keyed_diff_def split: option.splits)
  {
    assume "a' \<in> set new"
    then obtain x k where x: "x \<in> set items" "payload_action str_of k x = Some a'" using readsD(1)[OF rd] by blast
    then have "x \<noteq> J_null" by auto
    from keyed_diff_new[OF kd bm one x(1) this] consider
      y where "y \<in> set (map action_dict acts)" "py_eq y x"
      | k' e where "py_eq k' (key_of ''ordinal'' x)" "e \<in> set ds" "de_path e = keyed_path str_of ''actions'' ''ordinal'' k'"
      by blast
    then show "(\<exists>a \<in> set acts. action_view a' = action_view a)
      \<or> (\<exists>o'. names_ordinal o' (ac_ordinal a') \<and> P (action_path str_of o'))"
    proof cases
      case 1
      then obtain a where a: "a \<in> set acts" "y = action_dict a" by (auto elim!: imageE)
      with ok have "action_row_ok a" by (simp add: list_all_iff)
      from action_view_eq[OF 1(2)[unfolded a(2)] this x(2)] a(1) show ?thesis by blast
    next
      case 2
      then show ?thesis
        using names_ordinal_eq[OF 2(1)] payload_action_ordinal[OF x(2)] perm[OF 2(2)] by (auto simp: action_path_def)
    qed
  }
  {
    assume dist: "distinct (map ac_ordinal acts)" and a: "a \<in> set acts"
    have "length bm = length (map action_dict acts)" using keyed_by_action_dicts[OF dist _ bm] by simp
    from keyed_diff_old[OF kd bm one(1) this, of "action_dict a"] a consider
      y where "y \<in> set items" "py_eq (action_dict a) y"
      | k' e where "py_eq k' (key_of ''ordinal'' (action_dict a))" "e \<in> set ds" "de_path e = keyed_path str_of ''actions'' ''ordinal'' k'"
      by (auto simp: action_dict_def)
    then show "(\<exists>a' \<in> set new. action_view a' = action_view a)
      \<or> (\<exists>o'. names_ordinal o' (ac_ordinal a) \<and> P (action_path str_of o'))"
    proof cases
      case 1
      obtain k a' where a': "a' \<in> set new" "payload_action str_of k y = Some a'" using readsD(2)[OF rd 1(1)] by blast
      have "action_row_ok a" using ok a by (simp add: list_all_iff)
      from action_view_eq[OF 1(2) this a'(2)] a'(1) show ?thesis by blast
    next
      case 2
      then show ?thesis
        using names_ordinal_eq[OF 2(1)] action_dict_ordinal[of a] perm[OF 2(2)] by (auto simp: action_path_def)
    qed
  }
qed

lemma create_self_applied:
  assumes ok: "keys_ok db" and g: "find_automation db aid = Some g"
    and run: "create_proposal env now ids vid k g payload rationale risk user rn None db = Inr (db', k, True)"
    and q: "get_proposal db' k = Some q" "pr_reviewer_comment q = Some Auto_applied"
    and base: "base_payload db (ad_head_version_id (gv_row g)) = before"
  shows "\<exists>diff row1 rows1 vn. compute_diff (pe_str env) before payload = Some diff
    \<and> evaluate_for_auto_apply now g diff risk rn = Eligible
    \<and> set_scalars payload (gv_row g) = (row1, None)
    \<and> replace_children (pe_str env) now ids aid payload (pd_rows db) = (rows1, True)
    \<and> find_automation db' aid = Some (bump_guard now aid (g\<lparr>gv_row := row1\<lparr>ad_head_version_id := Some vn\<rparr>\<rparr>))
    \<and> live_actions (pd_rows db') aid = live_actions rows1 aid"
proof -
  have gid: "ad_id (gv_row g) = aid" by (rule find_automation_id[OF g])
  let ?base = "ad_head_version_id (gv_row g)"
  have no_dup: "open_duplicate env aid ?base payload db = None"
    using run gid by (auto simp: create_proposal_def Let_def split: if_splits option.splits)
  obtain diff where diff: "compute_diff (pe_str env) before payload = Some diff" and fresh: "k \<notin> pr_id ` set (pd_proposals db)"
    and ap: "auto_apply env now ids vid g (new_proposal now k aid ?base payload diff rationale risk user rn)
      (db\<lparr>pd_proposals := pd_proposals db @ [new_proposal now k aid ?base payload diff rationale risk user rn]\<rparr>) = Inr db'"
    using run gid no_dup base by (auto simp: create_proposal_def Let_def split: if_splits option.splits sum.splits)
  let ?p = "new_proposal now k aid ?base payload diff rationale risk user rn"
  let ?db = "db\<lparr>pd_proposals := pd_proposals db @ [?p]\<rparr>"
  from auto_applied_inv[OF ap, unfolded new_proposal_sel, OF q] obtain d v where
    el: "evaluate_for_auto_apply now g diff risk rn = Eligible"
    and run': "apply_proposal env now ids vid ?p user ?db = (d, Inr v)"
    and db': "db' = set_comment Auto_applied k (bump_guards now aid d)" by blast
  have g': "find_automation ?db (pr_automation_id ?p) = Some g" using g by (simp add: find_automation_def)
  from apply_proposal_installs[OF run' g', unfolded new_proposal_sel] obtain row1 rows1 where
    i: "set_scalars payload (gv_row g) = (row1, None)"
      "replace_children (pe_str env) now ids aid payload (pd_rows ?db) = (rows1, True)"
      "find_automation d aid = Some (g\<lparr>gv_row := row1\<lparr>ad_head_version_id := Some (wv_id v)\<rparr>\<rparr>)"
      "pd_rows d = rows1\<lparr>t_versions := t_versions (pd_rows d)\<rparr>" by blast
  have "find_automation db' aid = map_option (bump_guard now aid) (find_automation d aid)"
    by (simp add: db' find_automation_def set_comment_def bump_guards_def find_map_id)
  moreover have "pd_rows db' = pd_rows d" by (simp add: db' set_comment_def bump_guards_def)
  moreover have "live_actions (pd_rows d) aid = live_actions rows1 aid" by (subst i(4)) (simp add: live_actions_def)
  ultimately show ?thesis
    using diff el i(1-3) by (intro exI[of _ diff] exI[of _ row1] exI[of _ rows1] exI[of _ "wv_id v"]) simp
qed

lemma compute_diff_parts:
  assumes "compute_diff str_of before payload = Some diff" and "before = build_payload rows row" and "ad_id row = aid"
  shows "\<exists>items ds. items_of (jget payload ''actions'') = Some items
    \<and> keyed_diff str_of ''actions'' ''ordinal'' (map action_dict (live_actions rows aid)) items = Some ds
    \<and> set (scalar_diff before payload) \<subseteq> set diff \<and> set (contract_diff before payload) \<subseteq> set diff \<and> set ds \<subseteq> set diff"
proof -
  have b: "items_of (jget before ''actions'') = Some (map action_dict (live_actions rows aid))"
    using assms(2,3) by (simp add: build_payload_def jget_def items_of_def live_actions_def)
  show ?thesis
    using assms(1) unfolding compute_diff_def b by (auto split: option.splits)
qed


subsection \<open>Concrete tables\<close>

definition pw_env :: proposal_env where
  "pw_env = \<lparr>pe_sha256 = w_sha, pe_str = (\<lambda>_. []), pe_accepts = (\<lambda>_ _. True)\<rparr>"

definition pw_action :: action where
  "pw_action = \<lparr>ac_id = 5, ac_ordinal = 0, ac_type = ''deliver'', ac_config = J_obj [], ac_app_action_id = None,
     ac_parent_action_id = None, ac_branch_condition = J_null\<rparr>"

definition pw_rows :: workflow_db where
  "pw_rows = \<lparr>t_actions = [(2, pw_action)], t_triggers = [], t_targets = [], t_versions = []\<rparr>"

definition pw_head :: version where
  "pw_head = \<lparr>wv_id = 7, wv_automation_id = 2, wv_generation = 1, wv_parent_version_id = None,
     wv_payload = build_payload pw_rows w_def, wv_payload_sha256 = ''w'', wv_rationale = None\<rparr>"

definition pw_allow :: "string \<Rightarrow> json" where
  "pw_allow path = J_obj [(''allowed_changes'', J_list [J_str path])]"

definition pw_governed :: "string \<Rightarrow> governed" where
  "pw_governed path = \<lparr>gv_row = w_def\<lparr>ad_head_version_id := Some 7\<rparr>, gv_owner = 1, gv_auto_apply_policy = pw_allow path,
     gv_diff_budget_consumed = 0, gv_diff_budget_max = 1, gv_min_seconds = 0, gv_last_self_edit_at = None,
     gv_doctor_enabled = False, gv_doctor_automation_id = None\<rparr>"

text \<open>The payload sends a message instead.\<close>

definition pw_send :: "json \<Rightarrow> json" where
  "pw_send body = J_obj [(''ordinal'', J_int 0), (''action_type'', J_str ''gateway.send''), (''config'', J_obj [(''body'', body)])]"

definition pw_payload :: json_dict where
  "pw_payload = [(''actions'', J_list [pw_send (J_str ''hi'')])]"

definition pw_open :: proposal where
  "pw_open = new_proposal 0 30 2 (Some 7) pw_payload [] ''why'' ''low'' (Some 1) None"

definition pw_db :: "string \<Rightarrow> proposal_db" where
  "pw_db path = \<lparr>pd_rows = pw_rows\<lparr>t_versions := [pw_head]\<rparr>, pd_automations = [pw_governed path],
     pd_proposals = [pw_open\<lparr>pr_id := 31, pr_status := ''rejected''\<rparr>]\<rparr>"

definition pw_stamp :: "uuid \<Rightarrow> stamp" where
  "pw_stamp k = \<lparr>st_now = 100, st_ids = (\<lambda>n. k + n + 1), st_version = k, st_key = k\<rparr>"

definition pw_owner :: caller where
  "pw_owner = \<lparr>cl_id = 1, cl_is_superuser = False, cl_role = (\<lambda>_. None)\<rparr>"

definition pw_create :: "json_dict \<Rightarrow> prop_op" where
  "pw_create payload = Create_route pw_owner 2 payload ''why'' ''low'' None"

definition pw_comment :: "uuid \<Rightarrow> proposal_db \<Rightarrow> comment option" where
  "pw_comment k db = Option.bind (get_proposal db k) pr_reviewer_comment"

definition pw_types :: "proposal_db \<Rightarrow> string list" where
  "pw_types db = map ac_type (live_actions (pd_rows db) 2)"

lemma pw_applies_itself:
  "pw_comment 20 (prop_step pw_env (pw_db ''actions['') (pw_stamp 20, pw_create pw_payload)) = Some Auto_applied"
  by code_simp

subsection \<open>Ways around the policy\<close>

text \<open>The policy permits a change of the name only.  A payload that lists a new action first and then, under the
  same ordinal, the action that is there already, has an empty diff: it applies itself, and both actions run.\<close>

lemma duplicate_ordinal_hides_action:
  "let db = prop_step pw_env (pw_db ''name'') (pw_stamp 20,
        pw_create [(''actions'', J_list [pw_send (J_str ''evil''), action_dict pw_action])])
   in pw_comment 20 db = Some Auto_applied \<and> pw_types db = [''gateway.send'', ''deliver'']"
  by code_simp

text \<open>The base of the diff may be chosen by the caller, and it may be a version of any automation: a proposal equal
  to its base has an empty diff and applies itself, whatever runs now.\<close>

lemma chosen_base_hides_change:
  "let other = pw_head\<lparr>wv_id := 8, wv_automation_id := 3, wv_payload := pw_payload\<rparr>;
       db = pw_db ''name'';
       db' = prop_step pw_env (db\<lparr>pd_rows := (pd_rows db)\<lparr>t_versions := [pw_head, other]\<rparr>\<rparr>)
         (pw_stamp 20, Create_route pw_owner 2 pw_payload ''why'' ''low'' (Some 8))
   in pw_comment 20 db' = Some Auto_applied \<and> pw_types db' = [''gateway.send'']"
  by code_simp

text \<open>An exception in the middle of an automatic application is caught, and the caller commits: the proposal stays
  open while the actions are replaced already, and no version records it.\<close>

lemma failed_application_leaves_changes:
  "let db = prop_step pw_env ((pw_db ''actions['')\<lparr>pd_automations := [(pw_governed [])\<lparr>gv_auto_apply_policy := pw_allow []\<rparr>]\<rparr>)
        (pw_stamp 20, pw_create (pw_payload @ [(''delivery_targets'', J_list [J_obj [(''destination_id'', J_str ''x'')]])]))
   in pw_comment 20 db = Some Apply_failed \<and> map_option pr_status (get_proposal db 20) = Some ''submitted''
      \<and> pw_types db = [''gateway.send''] \<and> map wv_id (t_versions (pd_rows db)) = [7]"
  by code_simp

text \<open>Disabling the doctor of a workflow switches its trigger off, and enabling it again does not switch it on.\<close>

lemma doctor_enabled_again_is_silent:
  "let db = proposal_run pw_env (pw_db ''name'')
        [(pw_stamp 40, Enable_doctor pw_owner 2 (Some 9) ''p''), (pw_stamp 60, Disable_doctor pw_owner 2),
         (pw_stamp 80, Enable_doctor pw_owner 2 (Some 9) ''p'')]
   in map_option gv_doctor_enabled (find_automation db 2) = Some True
      \<and> map (\<lambda>r. (fst r, tr_is_active (snd r))) (t_triggers (pd_rows db)) = [(40, False)]"
  by code_simp

subsection \<open>Witnesses\<close>

lemma pw_keys: "keys_ok (pw_db path)" "keys_ok ((pw_db path)\<lparr>pd_proposals := [pw_open]\<rparr>)"
  by (simp_all add: keys_ok_def proposals_ok_def pw_db_def pw_governed_def pw_open_def new_proposal_def w_def_def)

theorem decided_proposals_stay_witness:
  "\<exists>p \<in> set (pd_proposals (pw_db [])). p \<in> set (pd_proposals
     (proposal_run pw_env (pw_db []) [(pw_stamp 20, Decide_route pw_owner 2 31 ''approve'' None), (pw_stamp 40, Withdraw_tool 31)]))"
proof
  show "pw_open\<lparr>pr_id := 31, pr_status := ''rejected''\<rparr> \<in> set (pd_proposals (pw_db []))" by (simp add: pw_db_def)
  then show "pw_open\<lparr>pr_id := 31, pr_status := ''rejected''\<rparr> \<in> set (pd_proposals
     (proposal_run pw_env (pw_db []) [(pw_stamp 20, Decide_route pw_owner 2 31 ''approve'' None), (pw_stamp 40, Withdraw_tool 31)]))"
    by (rule decided_proposals_stay[OF pw_keys(1)]) simp
qed

theorem unreviewed_changes_bounded_witness:
  "edits (pd_proposals (proposal_run pw_env (pw_db ''actions['')
     [(pw_stamp 20, pw_create pw_payload), (pw_stamp 40, pw_create [(''actions'', J_list [pw_send J_null])])])) 2 \<le> 1"
proof -
  have b: "budget_of (pw_db ''actions['') 2 = Some (0, 1)"
    by (simp add: budget_of_def find_automation_def pw_db_def pw_governed_def w_def_def)
  have "edits (pd_proposals (pw_db ''actions['')) 2 = 0" by (simp add: edits_def pw_db_def pw_open_def new_proposal_def)
  with unreviewed_changes_bounded[OF pw_keys(1) b, of "[(pw_stamp 20, pw_create pw_payload),
      (pw_stamp 40, pw_create [(''actions'', J_list [pw_send J_null])])]" pw_env]
  show ?thesis by (simp add: approves_def pw_create_def)
qed



end
