(* ===== verification/Redis_Lease.thy ===== *)
theory Redis_Lease
  imports Lease Rate_Limit
begin

text \<open>
  Coordination over Redis keys that expire: the lease backend \<open>RedisLease\<close>
  (\<open>services/automations/lease/redis.py\<close>) and the lock of the pods
  (\<open>services/distributed_lock.py\<close>), with their Lua scripts.

  Redis is an argument, a record of the commands the code sends; \<open>expiring_redis\<close> states what they are
  documented to do: a command at an instant sees the keys that have not expired by then.  Instants never
  go back; the operations of all processes form one sequence, as Redis runs them.
\<close>

subsection \<open>The commands\<close>

record 's key_store =
  ks_get :: "'s \<Rightarrow> instant \<Rightarrow> string \<Rightarrow> string option"
  ks_set_nx_ex :: "'s \<Rightarrow> instant \<Rightarrow> string \<Rightarrow> string \<Rightarrow> int \<Rightarrow> 's \<times> bool"
  ks_set_ex :: "'s \<Rightarrow> instant \<Rightarrow> string \<Rightarrow> string \<Rightarrow> int \<Rightarrow> 's"
  ks_expire :: "'s \<Rightarrow> instant \<Rightarrow> string \<Rightarrow> int \<Rightarrow> 's"
  ks_del :: "'s \<Rightarrow> instant \<Rightarrow> string \<Rightarrow> 's"
  ks_incr :: "'s \<Rightarrow> instant \<Rightarrow> string \<Rightarrow> 's \<times> int"
  ks_counter :: "'s \<Rightarrow> string \<Rightarrow> int"

text \<open>What is seen of a key at \<open>t\<close> after it was given the value \<open>v\<close> and the deadline \<open>e\<close>.\<close>

definition until :: "instant \<Rightarrow> string \<Rightarrow> instant \<Rightarrow> string option" where
  "until e v t = (if t < e then Some v else None)"

definition expiring_redis :: "'s key_store \<Rightarrow> bool" where
  "expiring_redis R \<longleftrightarrow>
     (\<forall>s t u k. t \<le> u \<longrightarrow> ks_get R s u k = None \<or> ks_get R s u k = ks_get R s t k)
     \<and> (\<forall>s t k v ttl. case ks_set_nx_ex R s t k v ttl of (s', ok) \<Rightarrow>
          if ks_get R s t k = None
          then ok \<and> (\<forall>u k'. t \<le> u \<longrightarrow> ks_get R s' u k' = (if k' = k then until (t + ttl) v u else ks_get R s u k'))
               \<and> (\<forall>k'. k' \<noteq> k \<longrightarrow> ks_counter R s' k' = ks_counter R s k')
          else s' = s \<and> \<not> ok)
     \<and> (\<forall>s t k v ttl.
          (\<forall>u k'. t \<le> u \<longrightarrow> ks_get R (ks_set_ex R s t k v ttl) u k' = (if k' = k then until (t + ttl) v u else ks_get R s u k'))
          \<and> (\<forall>k'. k' \<noteq> k \<longrightarrow> ks_counter R (ks_set_ex R s t k v ttl) k' = ks_counter R s k'))
     \<and> (\<forall>s t k ttl.
          (\<forall>u k'. t \<le> u \<longrightarrow> ks_get R (ks_expire R s t k ttl) u k' =
             (if k' = k then Option.bind (ks_get R s t k) (\<lambda>v. until (t + ttl) v u) else ks_get R s u k'))
          \<and> ks_counter R (ks_expire R s t k ttl) = ks_counter R s)
     \<and> (\<forall>s t k.
          (\<forall>u k'. t \<le> u \<longrightarrow> ks_get R (ks_del R s t k) u k' = (if k' = k then None else ks_get R s u k'))
          \<and> (\<forall>k'. k' \<noteq> k \<longrightarrow> ks_counter R (ks_del R s t k) k' = ks_counter R s k'))
     \<and> (\<forall>s t k. case ks_incr R s t k of (s', n) \<Rightarrow>
          n = ks_counter R s k + 1 \<and> ks_counter R s' = (ks_counter R s)(k := n)
          \<and> (\<forall>u k'. t \<le> u \<longrightarrow> k' \<noteq> k \<longrightarrow> ks_get R s' u k' = ks_get R s u k'))"

subsection \<open>The lease backend\<close>

definition lease_key :: "string \<Rightarrow> string" where
  "lease_key name = ''tesslate:lease:'' @ name"

definition term_key :: "string \<Rightarrow> string" where
  "term_key name = ''tesslate:lease:'' @ name @ '':term''"

definition token_value :: "string \<Rightarrow> int \<Rightarrow> string" where
  "token_value holder n = holder @ '':'' @ int_str n"

text \<open>The two Lua scripts, each one step of Redis.\<close>

definition lua_renew :: "'s key_store \<Rightarrow> 's \<Rightarrow> instant \<Rightarrow> string \<Rightarrow> string \<Rightarrow> int \<Rightarrow> 's \<times> bool" where
  "lua_renew R s now key v ttl =
     (if ks_get R s now key = Some v then (ks_set_ex R s now key v ttl, True) else (s, False))"

definition lua_release :: "'s key_store \<Rightarrow> 's \<Rightarrow> instant \<Rightarrow> string \<Rightarrow> string \<Rightarrow> 's \<times> bool" where
  "lua_release R s now key v =
     (if ks_get R s now key = Some v then (ks_del R s now key, True) else (s, False))"

text \<open>\<open>fails\<close>: Redis cannot be reached (the code raises, answers \<open>False\<close>, or logs); \<open>mid\<close>: it is lost between the
  two commands of acquire.\<close>

definition redis_acquire ::
  "'s key_store \<Rightarrow> 's \<Rightarrow> bool \<Rightarrow> bool \<Rightarrow> instant \<Rightarrow> string \<Rightarrow> string \<Rightarrow> int \<Rightarrow> 's \<times> lease_token option" where
  "redis_acquire R s fails mid now name holder_id ttl_seconds =
     (if fails then (s, None)
      else (let (s1, n) = ks_incr R s now (term_key name)
            in if mid then (s1, None)
               else (let (s2, ok) = ks_set_nx_ex R s1 now (lease_key name) (token_value holder_id n) ttl_seconds
                     in if ok then (s2, Some \<lparr>tk_name = name, tk_holder = holder_id, tk_term = n, tk_expires = now + ttl_seconds\<rparr>)
                        else (s2, None))))"

definition redis_renew :: "'s key_store \<Rightarrow> 's \<Rightarrow> bool \<Rightarrow> instant \<Rightarrow> lease_token \<Rightarrow> 's \<times> bool" where
  "redis_renew R s fails now tk =
     (if fails then (s, False)
      else lua_renew R s now (lease_key (tk_name tk)) (token_value (tk_holder tk) (tk_term tk)) 60)"

definition redis_release :: "'s key_store \<Rightarrow> 's \<Rightarrow> bool \<Rightarrow> instant \<Rightarrow> lease_token \<Rightarrow> 's" where
  "redis_release R s fails now tk =
     (if fails then s
      else fst (lua_release R s now (lease_key (tk_name tk)) (token_value (tk_holder tk) (tk_term tk))))"

subsection \<open>The lock of the pods\<close>

definition lock_key :: "string \<Rightarrow> string" where
  "lock_key name = ''tesslate:lock:'' @ name"

text \<open>\<open>None\<close>: no Redis is configured; then every call succeeds.\<close>

definition lock_acquire ::
  "'s key_store option \<Rightarrow> 's \<Rightarrow> bool \<Rightarrow> instant \<Rightarrow> string \<Rightarrow> string \<Rightarrow> int \<Rightarrow> 's \<times> bool" where
  "lock_acquire redis s fails now pod name ttl_seconds =
     (case redis of
        None \<Rightarrow> (s, True)
      | Some R \<Rightarrow> if fails then (s, False) else ks_set_nx_ex R s now (lock_key name) pod ttl_seconds)"

definition lock_release :: "'s key_store option \<Rightarrow> 's \<Rightarrow> bool \<Rightarrow> instant \<Rightarrow> string \<Rightarrow> string \<Rightarrow> 's \<times> bool" where
  "lock_release redis s fails now pod name =
     (case redis of
        None \<Rightarrow> (s, True)
      | Some R \<Rightarrow> if fails then (s, False) else lua_release R s now (lock_key name) pod)"

definition lock_renew :: "'s key_store option \<Rightarrow> 's \<Rightarrow> bool \<Rightarrow> instant \<Rightarrow> string \<Rightarrow> string \<Rightarrow> int \<Rightarrow> 's \<times> bool" where
  "lock_renew redis s fails now pod name ttl_seconds =
     (case redis of
        None \<Rightarrow> (s, True)
      | Some R \<Rightarrow>
          if fails then (s, False)
          else if ks_get R s now (lock_key name) = Some pod then (ks_expire R s now (lock_key name) ttl_seconds, True)
          else (s, False))"

text \<open>\<open>wait_for\<close>: one attempt at each poll, on whatever state the others have left; it gives up at the first
  poll at or after the deadline that fails.\<close>

datatype 's waited = Entered 's | Timed_out 's | Waiting

fun wait_for ::
  "'s key_store option \<Rightarrow> string \<Rightarrow> string \<Rightarrow> int \<Rightarrow> instant \<Rightarrow> (instant \<times> bool \<times> 's) list \<Rightarrow> 's waited" where
  "wait_for redis pod name ttl deadline [] = Waiting"
| "wait_for redis pod name ttl deadline ((now, fails, s) # polls) =
     (case lock_acquire redis s fails now pod name ttl of
        (s', True) \<Rightarrow> Entered s'
      | (s', False) \<Rightarrow> if deadline \<le> now then Timed_out s' else wait_for redis pod name ttl deadline polls)"

text \<open>\<open>_run_with_renewal\<close>: at each turn the code looks whether the loop has ended, sleeps, and renews; a poll is that
  look, the reachability and the time of the renewal, and the state it finds.  \<open>run_with_lock\<close> then sleeps and
  tries again: neither outcome releases the lock.\<close>

datatype 's loop_outcome = Loop_Ended | Lock_Lost 's | Loop_Running

fun run_with_renewal ::
  "'s key_store option \<Rightarrow> string \<Rightarrow> string \<Rightarrow> int \<Rightarrow> (bool \<times> instant \<times> bool \<times> 's) list \<Rightarrow> 's list \<times> 's loop_outcome" where
  "run_with_renewal redis pod name ttl [] = ([], Loop_Running)"
| "run_with_renewal redis pod name ttl ((ended, now, fails, s) # polls) =
     (if ended then ([], Loop_Ended)
      else (case lock_renew redis s fails now pod name ttl of
              (s', False) \<Rightarrow> ([s'], Lock_Lost s')
            | (s', True) \<Rightarrow> (let (left, r) = run_with_renewal redis pod name ttl polls in (s' # left, r))))"

subsection \<open>What the keys keep\<close>

lemma redis_expiry:
  "expiring_redis R \<Longrightarrow> t \<le> u \<Longrightarrow> ks_get R s u k = None \<or> ks_get R s u k = ks_get R s t k"
  unfolding expiring_redis_def by (drule conjunct1) simp

lemma redis_set_nx:
  "expiring_redis R \<Longrightarrow> case ks_set_nx_ex R s t k v ttl of (s', ok) \<Rightarrow>
     if ks_get R s t k = None
     then ok \<and> (\<forall>u k'. t \<le> u \<longrightarrow> ks_get R s' u k' = (if k' = k then until (t + ttl) v u else ks_get R s u k'))
          \<and> (\<forall>k'. k' \<noteq> k \<longrightarrow> ks_counter R s' k' = ks_counter R s k')
     else s' = s \<and> \<not> ok"
  unfolding expiring_redis_def by (drule conjunct2, drule conjunct1) (elim allE)

lemma redis_set:
  assumes "expiring_redis R"
  shows "t \<le> u \<Longrightarrow> ks_get R (ks_set_ex R s t k v ttl) u k' = (if k' = k then until (t + ttl) v u else ks_get R s u k')"
    and "k' \<noteq> k \<Longrightarrow> ks_counter R (ks_set_ex R s t k v ttl) k' = ks_counter R s k'"
  using assms[unfolded expiring_redis_def, THEN conjunct2, THEN conjunct2, THEN conjunct1] by simp_all

lemma redis_expire:
  assumes "expiring_redis R"
  shows "t \<le> u \<Longrightarrow> ks_get R (ks_expire R s t k ttl) u k' =
      (if k' = k then Option.bind (ks_get R s t k) (\<lambda>v. until (t + ttl) v u) else ks_get R s u k')"
  using assms[unfolded expiring_redis_def, THEN conjunct2, THEN conjunct2, THEN conjunct2, THEN conjunct1] by simp

lemma redis_del:
  assumes "expiring_redis R"
  shows "t \<le> u \<Longrightarrow> ks_get R (ks_del R s t k) u k' = (if k' = k then None else ks_get R s u k')"
    and "k' \<noteq> k \<Longrightarrow> ks_counter R (ks_del R s t k) k' = ks_counter R s k'"
  using assms[unfolded expiring_redis_def, THEN conjunct2, THEN conjunct2, THEN conjunct2, THEN conjunct2, THEN conjunct1]
  by simp_all

text \<open>What is seen later was seen before.\<close>

lemma redis_seen_before:
  "expiring_redis R \<Longrightarrow> t \<le> u \<Longrightarrow> ks_get R s u k = Some v \<Longrightarrow> ks_get R s t k = Some v"
  using redis_expiry[of R t u s k] by simp

lemma redis_set_nx_taken:
  assumes "expiring_redis R" "ks_get R s t k \<noteq> None"
  shows "ks_set_nx_ex R s t k v ttl = (s, False)"
  using redis_set_nx[OF assms(1), where s = s and t = t and k = k and v = v and ttl = ttl] assms(2)
  by (auto split: prod.splits)

lemma redis_set_nx_free:
  assumes "expiring_redis R" "ks_get R s t k = None" "ks_set_nx_ex R s t k v ttl = (s', ok)"
  shows "ok" "t \<le> u \<Longrightarrow> ks_get R s' u k' = (if k' = k then until (t + ttl) v u else ks_get R s u k')"
    "k' \<noteq> k \<Longrightarrow> ks_counter R s' k' = ks_counter R s k'"
  using redis_set_nx[OF assms(1), where s = s and t = t and k = k and v = v and ttl = ttl] assms(2,3) by simp_all

lemma redis_incr_effect:
  assumes "expiring_redis R" "ks_incr R s t k = (s', n)"
  shows "n = ks_counter R s k + 1" "ks_counter R s' = (ks_counter R s)(k := n)"
    "t \<le> u \<Longrightarrow> k' \<noteq> k \<Longrightarrow> ks_get R s' u k' = ks_get R s u k'"
proof -
  from assms(1) have "case ks_incr R s t k of (s', n) \<Rightarrow>
      n = ks_counter R s k + 1 \<and> ks_counter R s' = (ks_counter R s)(k := n)
      \<and> (\<forall>u k'. t \<le> u \<longrightarrow> k' \<noteq> k \<longrightarrow> ks_get R s' u k' = ks_get R s u k')"
    unfolding expiring_redis_def by (elim conjE allE)
  with assms(2) show "n = ks_counter R s k + 1" "ks_counter R s' = (ks_counter R s)(k := n)"
    "t \<le> u \<Longrightarrow> k' \<noteq> k \<Longrightarrow> ks_get R s' u k' = ks_get R s u k'" by simp_all
qed

lemma until_Some [simp]: "until e v t = Some w \<longleftrightarrow> t < e \<and> w = v"
  by (auto simp: until_def)

lemma until_Some' [simp]: "Some w = until e v t \<longleftrightarrow> t < e \<and> w = v"
  by (auto simp: until_def)

lemma until_None [simp]: "until e v t = None \<longleftrightarrow> e \<le> t"
  by (auto simp: until_def)

section \<open>Fencing by the Redis lease\<close>

datatype redis_op =
    R_Acquire bool bool instant string string int
  | R_Renew bool instant lease_token
  | R_Release bool instant lease_token

fun redis_op_time :: "redis_op \<Rightarrow> instant" where
  "redis_op_time (R_Acquire fails mid now name holder ttl) = now"
| "redis_op_time (R_Renew fails now tk) = now"
| "redis_op_time (R_Release fails now tk) = now"

fun redis_op_name :: "redis_op \<Rightarrow> string" where
  "redis_op_name (R_Acquire fails mid now name holder ttl) = name"
| "redis_op_name (R_Renew fails now tk) = tk_name tk"
| "redis_op_name (R_Release fails now tk) = tk_name tk"

text \<open>A run keeps the tokens handed out, newest first.\<close>

fun redis_step :: "'s key_store \<Rightarrow> 's \<times> lease_token list \<Rightarrow> redis_op \<Rightarrow> 's \<times> lease_token list" where
  "redis_step R (s, issued) (R_Acquire fails mid now name holder ttl) =
     (case redis_acquire R s fails mid now name holder ttl of
        (s', None) \<Rightarrow> (s', issued) | (s', Some tk) \<Rightarrow> (s', tk # issued))"
| "redis_step R (s, issued) (R_Renew fails now tk) = (fst (redis_renew R s fails now tk), issued)"
| "redis_step R (s, issued) (R_Release fails now tk) = (redis_release R s fails now tk, issued)"

abbreviation redis_run :: "'s key_store \<Rightarrow> 's \<times> lease_token list \<Rightarrow> redis_op list \<Rightarrow> 's \<times> lease_token list" where
  "redis_run R \<equiv> foldl (redis_step R)"

text \<open>A lease name without a colon: no lease key is then the key of a counter.\<close>

definition lease_name :: "string \<Rightarrow> bool" where
  "lease_name n \<longleftrightarrow> CHR '':'' \<notin> set n"

lemma lease_key_inj [simp]: "lease_key a = lease_key b \<longleftrightarrow> a = b"
  by (simp add: lease_key_def)

lemma term_key_inj [simp]: "term_key a = term_key b \<longleftrightarrow> a = b"
  by (simp add: term_key_def)

lemma lease_key_term_key [simp]: "lease_name a \<Longrightarrow> lease_key a \<noteq> term_key b" "lease_name a \<Longrightarrow> term_key b \<noteq> lease_key a"
  by (auto simp: lease_name_def lease_key_def term_key_def)

lemma token_value_term: "token_value h m = token_value h' n \<Longrightarrow> 0 \<le> m \<Longrightarrow> 0 \<le> n \<Longrightarrow> m = n"
  unfolding token_value_def by (rule int_str_inj) (auto intro: last_component[of h _ h'] dest: int_str_no_colon)

text \<open>At \<open>t\<close>: the terms of a lease decrease along the list and are bounded by its counter; what is seen of
  the lease from \<open>t\<close> on is the value of a token no older than any that was issued.\<close>

definition redis_inv :: "'s key_store \<Rightarrow> instant \<Rightarrow> 's \<times> lease_token list \<Rightarrow> bool" where
  "redis_inv R t si \<longleftrightarrow> (case si of (s, issued) \<Rightarrow>
     sorted_wrt (\<lambda>a b. tk_name a = tk_name b \<longrightarrow> tk_term b < tk_term a) issued
     \<and> (\<forall>tk \<in> set issued. 0 \<le> tk_term tk \<and> tk_term tk \<le> ks_counter R s (term_key (tk_name tk)))
     \<and> (\<forall>n. 0 \<le> ks_counter R s (term_key n))
     \<and> (\<forall>n u v. lease_name n \<longrightarrow> t \<le> u \<longrightarrow> ks_get R s u (lease_key n) = Some v \<longrightarrow>
          (\<exists>h m. v = token_value h m \<and> 0 \<le> m \<and> (\<forall>tk \<in> set issued. tk_name tk = n \<longrightarrow> tk_term tk \<le> m))))"

lemma redis_invI:
  assumes "redis_inv R t (s, issued)" "t \<le> t'"
    and "\<And>n. ks_counter R s (term_key n) \<le> ks_counter R s' (term_key n)"
    and "\<And>n u v. lease_name n \<Longrightarrow> t' \<le> u \<Longrightarrow> ks_get R s' u (lease_key n) = Some v \<Longrightarrow>
      \<exists>w. t \<le> w \<and> ks_get R s w (lease_key n) = Some v"
  shows "redis_inv R t' (s', issued)"
proof -
  have a: "sorted_wrt (\<lambda>a b. tk_name a = tk_name b \<longrightarrow> tk_term b < tk_term a) issued"
    and b: "\<forall>tk \<in> set issued. 0 \<le> tk_term tk \<and> tk_term tk \<le> ks_counter R s (term_key (tk_name tk))"
    and c: "\<forall>n. 0 \<le> ks_counter R s (term_key n)"
    and d: "\<forall>n u v. lease_name n \<longrightarrow> t \<le> u \<longrightarrow> ks_get R s u (lease_key n) = Some v \<longrightarrow>
          (\<exists>h m. v = token_value h m \<and> 0 \<le> m \<and> (\<forall>tk \<in> set issued. tk_name tk = n \<longrightarrow> tk_term tk \<le> m))"
    using assms(1) by (simp_all add: redis_inv_def)
  have "\<forall>tk \<in> set issued. 0 \<le> tk_term tk \<and> tk_term tk \<le> ks_counter R s' (term_key (tk_name tk))"
    using b assms(3) order_trans by blast
  moreover have "\<forall>n. 0 \<le> ks_counter R s' (term_key n)" using c assms(3) order_trans by blast
  moreover have "\<forall>n u v. lease_name n \<longrightarrow> t' \<le> u \<longrightarrow> ks_get R s' u (lease_key n) = Some v \<longrightarrow>
          (\<exists>h m. v = token_value h m \<and> 0 \<le> m \<and> (\<forall>tk \<in> set issued. tk_name tk = n \<longrightarrow> tk_term tk \<le> m))"
    using d assms(4) by meson
  ultimately show ?thesis using a by (simp add: redis_inv_def)
qed

lemma redis_renew_inv:
  assumes R: "expiring_redis R" and inv: "redis_inv R t (s, issued)" and t: "t \<le> now" and nm: "lease_name (tk_name tk)"
  shows "redis_inv R now (fst (redis_renew R s fails now tk), issued)"
proof (rule redis_invI[OF inv t])
  fix n
  show "ks_counter R s (term_key n) \<le> ks_counter R (fst (redis_renew R s fails now tk)) (term_key n)"
    using nm by (simp add: redis_renew_def lua_renew_def redis_set[OF R])
next
  fix n u v
  assume n: "lease_name n" and u: "now \<le> u"
    and seen: "ks_get R (fst (redis_renew R s fails now tk)) u (lease_key n) = Some v"
  show "\<exists>w. t \<le> w \<and> ks_get R s w (lease_key n) = Some v"
  proof (cases "fails \<or> ks_get R s now (lease_key (tk_name tk)) \<noteq> Some (token_value (tk_holder tk) (tk_term tk)) \<or> n \<noteq> tk_name tk")
    case True
    then have "ks_get R s u (lease_key n) = Some v"
      using seen by (auto simp: redis_renew_def lua_renew_def redis_set(1)[OF R u] split: if_splits)
    with t u show ?thesis by (intro exI[of _ u]) simp
  next
    case False
    then have "ks_get R s now (lease_key n) = Some v"
      using seen by (simp add: redis_renew_def lua_renew_def redis_set(1)[OF R u])
    with t show ?thesis by blast
  qed
qed

lemma redis_release_inv:
  assumes R: "expiring_redis R" and inv: "redis_inv R t (s, issued)" and t: "t \<le> now" and nm: "lease_name (tk_name tk)"
  shows "redis_inv R now (redis_release R s fails now tk, issued)"
proof (rule redis_invI[OF inv t])
  fix n
  show "ks_counter R s (term_key n) \<le> ks_counter R (redis_release R s fails now tk) (term_key n)"
    using nm by (simp add: redis_release_def lua_release_def redis_del[OF R])
next
  fix n u v
  assume n: "lease_name n" and u: "now \<le> u"
    and seen: "ks_get R (redis_release R s fails now tk) u (lease_key n) = Some v"
  have "ks_get R s u (lease_key n) = Some v"
    using seen by (auto simp: redis_release_def lua_release_def redis_del(1)[OF R u] split: if_splits)
  with t u show "\<exists>w. t \<le> w \<and> ks_get R s w (lease_key n) = Some v" by (intro exI[of _ u]) simp
qed

lemma redis_acquire_none:
  assumes R: "expiring_redis R" and nm: "lease_name n"
    and run: "redis_acquire R s fails mid now n h ttl = (s', None)"
  shows "ks_counter R s (term_key k) \<le> ks_counter R s' (term_key k)"
    and "now \<le> u \<Longrightarrow> lease_name k \<Longrightarrow> ks_get R s' u (lease_key k) = ks_get R s u (lease_key k)"
proof -
  obtain s1 m where inc: "ks_incr R s now (term_key n) = (s1, m)" by fastforce
  note e = redis_incr_effect[OF R inc]
  have "s' = s \<or> s' = s1"
  proof (cases "ks_get R s1 now (lease_key n)")
    case None
    obtain s2 ok where nx: "ks_set_nx_ex R s1 now (lease_key n) (token_value h m) ttl = (s2, ok)" by fastforce
    from redis_set_nx_free(1)[OF R None nx] run nx inc show ?thesis
      by (auto simp: redis_acquire_def split: if_splits)
  next
    case (Some x)
    with redis_set_nx_taken[OF R, of s1 now "lease_key n" "token_value h m" ttl] run inc show ?thesis
      by (auto simp: redis_acquire_def split: if_splits)
  qed
  then show "ks_counter R s (term_key k) \<le> ks_counter R s' (term_key k)"
    and "now \<le> u \<Longrightarrow> lease_name k \<Longrightarrow> ks_get R s' u (lease_key k) = ks_get R s u (lease_key k)"
    using e(1,2) e(3)[of u "lease_key k"] by auto
qed

lemma redis_acquire_some:
  assumes R: "expiring_redis R" and nm: "lease_name n"
    and run: "redis_acquire R s fails mid now n h ttl = (s', Some tk)"
  shows "tk_name tk = n" "tk_holder tk = h" "tk_term tk = ks_counter R s (term_key n) + 1"
    and "ks_get R s now (lease_key n) = None"
    and "ks_counter R s' (term_key k) = (if k = n then tk_term tk else ks_counter R s (term_key k))"
    and "now \<le> u \<Longrightarrow> lease_name k \<Longrightarrow> ks_get R s' u (lease_key k) =
      (if k = n then until (now + ttl) (token_value h (tk_term tk)) u else ks_get R s u (lease_key k))"
proof -
  obtain s1 m where inc: "ks_incr R s now (term_key n) = (s1, m)" by fastforce
  obtain s2 ok where nx: "ks_set_nx_ex R s1 now (lease_key n) (token_value h m) ttl = (s2, ok)" by fastforce
  note e = redis_incr_effect[OF R inc]
  have res: "ok" "s' = s2" "tk = \<lparr>tk_name = n, tk_holder = h, tk_term = m, tk_expires = now + ttl\<rparr>"
    using run inc nx by (auto simp: redis_acquire_def split: if_splits)
  have free: "ks_get R s1 now (lease_key n) = None"
  proof (rule ccontr)
    assume "ks_get R s1 now (lease_key n) \<noteq> None"
    from redis_set_nx_taken[OF R this, of "token_value h m" ttl] nx res(1) show False by simp
  qed
  note f = redis_set_nx_free[OF R free nx]
  show "tk_name tk = n" "tk_holder tk = h" "tk_term tk = ks_counter R s (term_key n) + 1"
    using res e(1) by simp_all
  show "ks_get R s now (lease_key n) = None" using free e(3)[of now "lease_key n"] nm by simp
  show "ks_counter R s' (term_key k) = (if k = n then tk_term tk else ks_counter R s (term_key k))"
    using f(3)[of "term_key k"] e(2) nm res by simp
  show "now \<le> u \<Longrightarrow> lease_name k \<Longrightarrow> ks_get R s' u (lease_key k) =
      (if k = n then until (now + ttl) (token_value h (tk_term tk)) u else ks_get R s u (lease_key k))"
    using f(2)[of u "lease_key k"] e(3)[of u "lease_key k"] res by simp
qed

lemma redis_acquire_inv:
  assumes R: "expiring_redis R" and inv: "redis_inv R t (s, issued)" and t: "t \<le> now" and nm: "lease_name n"
  shows "redis_inv R now (redis_step R (s, issued) (R_Acquire fails mid now n h ttl))"
proof -
  obtain s' r where run: "redis_acquire R s fails mid now n h ttl = (s', r)" by fastforce
  show ?thesis
  proof (cases r)
    case None
    with run have run': "redis_acquire R s fails mid now n h ttl = (s', None)" by simp
    have "redis_inv R now (s', issued)"
    proof (rule redis_invI[OF inv t redis_acquire_none(1)[OF R nm run']])
      fix k u v assume "lease_name k" "now \<le> u" "ks_get R s' u (lease_key k) = Some v"
      with redis_acquire_none(2)[OF R nm run'] t show "\<exists>w. t \<le> w \<and> ks_get R s w (lease_key k) = Some v"
        by (intro exI[of _ u]) simp
    qed
    with run None show ?thesis by simp
  next
    case (Some tk)
    with run have run': "redis_acquire R s fails mid now n h ttl = (s', Some tk)" by simp
    note e = redis_acquire_some[OF R nm run']
    have a: "sorted_wrt (\<lambda>a b. tk_name a = tk_name b \<longrightarrow> tk_term b < tk_term a) issued"
      and b: "\<forall>tk \<in> set issued. 0 \<le> tk_term tk \<and> tk_term tk \<le> ks_counter R s (term_key (tk_name tk))"
      and c: "\<forall>n. 0 \<le> ks_counter R s (term_key n)"
      and d: "\<And>n u v. lease_name n \<Longrightarrow> t \<le> u \<Longrightarrow> ks_get R s u (lease_key n) = Some v \<Longrightarrow>
            (\<exists>h m. v = token_value h m \<and> 0 \<le> m \<and> (\<forall>tk \<in> set issued. tk_name tk = n \<longrightarrow> tk_term tk \<le> m))"
      using inv by (simp_all add: redis_inv_def)
    have below: "tk_term x < tk_term tk" if "x \<in> set issued" "tk_name x = n" for x
      using b that e(3) by fastforce
    have pos: "0 \<le> tk_term tk" using c e(3) by (simp add: add_nonneg_nonneg)
    have vis: "\<exists>h m. v = token_value h m \<and> 0 \<le> m \<and> (\<forall>x \<in> set (tk # issued). tk_name x = k \<longrightarrow> tk_term x \<le> m)"
      if k: "lease_name k" and u: "now \<le> u" and seen: "ks_get R s' u (lease_key k) = Some v" for k u v
    proof (cases "k = n")
      case True
      then have "v = token_value h (tk_term tk)" using seen e(6)[OF u k] by simp
      then show ?thesis using pos below True less_imp_le by (intro exI[of _ h] exI[of _ "tk_term tk"]) auto
    next
      case False
      then have "ks_get R s u (lease_key k) = Some v" using seen e(6)[OF u k] by simp
      from d[OF k order_trans[OF t u] this] False e(1) show ?thesis by auto
    qed
    have "redis_inv R now (s', tk # issued)"
      unfolding redis_inv_def prod.case
    proof (intro conjI)
      show "sorted_wrt (\<lambda>a b. tk_name a = tk_name b \<longrightarrow> tk_term b < tk_term a) (tk # issued)"
        using a below e(1) by simp
      show "\<forall>x \<in> set (tk # issued). 0 \<le> tk_term x \<and> tk_term x \<le> ks_counter R s' (term_key (tk_name x))"
        using b below[THEN less_imp_le] pos e(1,5) by auto
      show "\<forall>k. 0 \<le> ks_counter R s' (term_key k)" using c pos e(5) by simp
      show "\<forall>k u v. lease_name k \<longrightarrow> now \<le> u \<longrightarrow> ks_get R s' u (lease_key k) = Some v \<longrightarrow>
          (\<exists>h m. v = token_value h m \<and> 0 \<le> m \<and> (\<forall>x \<in> set (tk # issued). tk_name x = k \<longrightarrow> tk_term x \<le> m))"
        using vis by blast
    qed
    with run Some show ?thesis by simp
  qed
qed

lemma redis_step_inv:
  assumes "expiring_redis R" "redis_inv R t si" "t \<le> redis_op_time op" "lease_name (redis_op_name op)"
  shows "redis_inv R (redis_op_time op) (redis_step R si op)"
proof -
  obtain s issued where si: "si = (s, issued)" by fastforce
  show ?thesis
  proof (cases op)
    case (R_Acquire fails mid now n h ttl)
    with assms show ?thesis unfolding si by (metis redis_acquire_inv redis_op_time.simps(1) redis_op_name.simps(1))
  next
    case (R_Renew fails now tk)
    with assms show ?thesis using redis_renew_inv[of R t s issued now tk fails] by (simp add: si)
  next
    case (R_Release fails now tk)
    with assms show ?thesis using redis_release_inv[of R t s issued now tk fails] by (simp add: si)
  qed
qed

definition time_after :: "instant \<Rightarrow> redis_op list \<Rightarrow> instant" where
  "time_after t ops = last (t # map redis_op_time ops)"

lemma redis_run_inv:
  assumes "expiring_redis R" "redis_inv R t si" "sorted (t # map redis_op_time ops)"
    and "\<forall>op \<in> set ops. lease_name (redis_op_name op)"
  shows "redis_inv R (time_after t ops) (redis_run R si ops)"
  using assms
proof (induction ops arbitrary: si t)
  case (Cons op ops)
  have "redis_inv R (redis_op_time op) (redis_step R si op)"
    using Cons.prems by (intro redis_step_inv[of R t]) auto
  from Cons.IH[OF Cons.prems(1) this] Cons.prems(3,4) show ?case by (simp add: time_after_def)
qed (simp add: time_after_def)

text \<open>Before the first call: no lease is seen, no counter is negative.\<close>

definition fresh_leases :: "'s key_store \<Rightarrow> instant \<Rightarrow> 's \<Rightarrow> bool" where
  "fresh_leases R t s \<longleftrightarrow>
     (\<forall>n. ks_get R s t (lease_key n) = None) \<and> (\<forall>n. 0 \<le> ks_counter R s (term_key n))"

lemma fresh_redis_inv: "expiring_redis R \<Longrightarrow> fresh_leases R t s \<Longrightarrow> redis_inv R t (s, [])"
  by (auto simp: redis_inv_def fresh_leases_def dest: redis_seen_before)

lemma redis_inv_seen:
  assumes "redis_inv R t (s, issued)" "lease_name n" "t \<le> u" "ks_get R s u (lease_key n) = Some v"
  shows "\<exists>h m. v = token_value h m \<and> 0 \<le> m \<and> (\<forall>tk \<in> set issued. tk_name tk = n \<longrightarrow> tk_term tk \<le> m)"
  using assms(1)[unfolded redis_inv_def prod.case, THEN conjunct2, THEN conjunct2, THEN conjunct2] assms(2-4) by simp

text \<open>At any later moment an overtaken token can no more be renewed, and its release takes nothing away.\<close>

lemma overtaken_is_not_seen:
  assumes R: "expiring_redis R" and inv: "redis_inv R t (s, issued)" and "t \<le> u"
    and "issued = xs @ newer # ys @ older # zs" "tk_name newer = tk_name older" "lease_name (tk_name older)"
  shows "tk_term older < tk_term newer"
    and "ks_get R s u (lease_key (tk_name older)) \<noteq> Some (token_value (tk_holder older) (tk_term older))"
proof -
  show lt: "tk_term older < tk_term newer"
    using inv assms(4,5) by (auto simp: redis_inv_def sorted_wrt_append)
  show "ks_get R s u (lease_key (tk_name older)) \<noteq> Some (token_value (tk_holder older) (tk_term older))"
  proof
    assume "ks_get R s u (lease_key (tk_name older)) = Some (token_value (tk_holder older) (tk_term older))"
    from redis_inv_seen[OF inv assms(6) \<open>t \<le> u\<close> this]
    obtain h m where m: "token_value (tk_holder older) (tk_term older) = token_value h m" "0 \<le> m"
      "\<forall>tk \<in> set issued. tk_name tk = tk_name older \<longrightarrow> tk_term tk \<le> m" by (elim exE conjE)
    have "0 \<le> tk_term older" using inv assms(4) by (simp add: redis_inv_def)
    with m have "tk_term older = m" by (metis token_value_term)
    moreover have "tk_term newer \<le> m" using m(3) assms(4,5) by simp
    ultimately show False using lt by simp
  qed
qed

text \<open>Two holders are never granted the lease while it lasts: until its deadline nobody else acquires it, as
  long as the holder itself does not release it.\<close>

lemma redis_acquire_blocked:
  assumes "expiring_redis R" "lease_name n" "ks_get R s now (lease_key n) \<noteq> None"
  shows "snd (redis_acquire R s fails mid now n h ttl) = None"
proof (cases "snd (redis_acquire R s fails mid now n h ttl)")
  case (Some tk)
  then have "redis_acquire R s fails mid now n h ttl = (fst (redis_acquire R s fails mid now n h ttl), Some tk)"
    by (metis prod.collapse)
  from redis_acquire_some(4)[OF assms(1,2) this] assms(3) show ?thesis by simp
qed simp

text \<open>A renewal always lasts 60 seconds, whatever was asked for when the lease was acquired.\<close>

lemma renewal_lasts_a_minute:
  assumes "expiring_redis R" "snd (redis_renew R s fails now tk)" "now \<le> u"
  shows "ks_get R (fst (redis_renew R s fails now tk)) u (lease_key (tk_name tk)) =
    until (now + 60) (token_value (tk_holder tk) (tk_term tk)) u"
  using assms by (auto simp: redis_renew_def lua_renew_def redis_set(1) split: if_splits)

text \<open>An attempt on a lease that is held uses up a term.\<close>

lemma refused_acquire_bumps_the_term:
  assumes "expiring_redis R" "lease_name n" "ks_get R s now (lease_key n) \<noteq> None"
  shows "ks_counter R (fst (redis_acquire R s False False now n h ttl)) (term_key n) = ks_counter R s (term_key n) + 1"
proof -
  obtain s1 m where inc: "ks_incr R s now (term_key n) = (s1, m)" by fastforce
  note e = redis_incr_effect[OF assms(1) inc]
  have "ks_get R s1 now (lease_key n) \<noteq> None" using assms(2,3) e(3)[of now "lease_key n"] by simp
  from redis_set_nx_taken[OF assms(1) this] show ?thesis
    using inc e(1,2) by (simp add: redis_acquire_def)
qed

lemma redis_acquire_name:
  "redis_acquire R s fails mid now n h ttl = (s', Some tk) \<Longrightarrow> tk_name tk = n"
  by (auto simp: redis_acquire_def split: if_splits prod.splits)

lemma redis_step_names:
  assumes "tk \<in> set (snd (redis_step R si op))"
  shows "tk \<in> set (snd si) \<or> tk_name tk = redis_op_name op"
proof -
  obtain s issued where si: "si = (s, issued)" by fastforce
  show ?thesis
    using assms by (cases op) (auto simp: si split: prod.splits option.splits dest!: redis_acquire_name)
qed

lemma redis_run_names:
  "tk \<in> set (snd (redis_run R si ops)) \<Longrightarrow> \<forall>op \<in> set ops. lease_name (redis_op_name op) \<Longrightarrow>
     tk \<in> set (snd si) \<or> lease_name (tk_name tk)"
proof (induction ops arbitrary: si)
  case (Cons op ops)
  from Cons.IH[of "redis_step R si op"] Cons.prems redis_step_names[of tk R si op] show ?case by auto
qed simp

lemma redis_renew_not_seen:
  assumes "ks_get R s now (lease_key (tk_name tk)) \<noteq> Some (token_value (tk_holder tk) (tk_term tk))"
  shows "\<not> snd (redis_renew R s fails now tk)" "redis_release R s fails now tk = s"
  using assms by (auto simp: redis_renew_def lua_renew_def redis_release_def lua_release_def)


subsection \<open>A store\<close>

text \<open>Values with a deadline, and counters: it has the laws.\<close>

definition demo_store :: "((string \<Rightarrow> (string \<times> instant) option) \<times> (string \<Rightarrow> int)) key_store" where
  "demo_store =
     \<lparr>ks_get = (\<lambda>s t k. case fst s k of None \<Rightarrow> None | Some (v, e) \<Rightarrow> until e v t),
      ks_set_nx_ex = (\<lambda>s t k v ttl. case fst s k of
          None \<Rightarrow> (((fst s)(k \<mapsto> (v, t + ttl)), snd s), True)
        | Some (w, e) \<Rightarrow> if t < e then (s, False) else (((fst s)(k \<mapsto> (v, t + ttl)), snd s), True)),
      ks_set_ex = (\<lambda>s t k v ttl. ((fst s)(k \<mapsto> (v, t + ttl)), snd s)),
      ks_expire = (\<lambda>s t k ttl. case fst s k of
          None \<Rightarrow> s
        | Some (w, e) \<Rightarrow> if t < e then ((fst s)(k \<mapsto> (w, t + ttl)), snd s) else s),
      ks_del = (\<lambda>s t k. ((fst s)(k := None), snd s)),
      ks_incr = (\<lambda>s t k. ((fst s, (snd s)(k := snd s k + 1)), snd s k + 1)),
      ks_counter = snd\<rparr>"

lemma demo_expiring: "expiring_redis demo_store"
  unfolding expiring_redis_def demo_store_def
  by (simp add: until_def split: option.splits prod.splits if_splits)

definition demo_redis_ops :: "redis_op list" where
  "demo_redis_ops =
     [R_Acquire False False 1 ''controller'' ''a'' 15, R_Acquire False False 5 ''controller'' ''b'' 15,
      R_Acquire False False 20 ''controller'' ''b'' 15]"


section \<open>The lock of the pods\<close>

datatype lock_op =
    K_Acquire string string int
  | K_Release string string
  | K_Renew string string int

type_synonym lock_event = "instant \<times> bool \<times> lock_op"

fun lock_step :: "'s key_store \<Rightarrow> 's \<Rightarrow> lock_event \<Rightarrow> 's" where
  "lock_step R s (now, fails, K_Acquire pod name ttl) = fst (lock_acquire (Some R) s fails now pod name ttl)"
| "lock_step R s (now, fails, K_Release pod name) = fst (lock_release (Some R) s fails now pod name)"
| "lock_step R s (now, fails, K_Renew pod name ttl) = fst (lock_renew (Some R) s fails now pod name ttl)"

text \<open>A call by which \<open>pod\<close> itself gives up the lock or moves its deadline.\<close>

fun touches_own :: "string \<Rightarrow> string \<Rightarrow> lock_op \<Rightarrow> bool" where
  "touches_own pod name (K_Acquire p n ttl) \<longleftrightarrow> False"
| "touches_own pod name (K_Release p n) \<longleftrightarrow> p = pod \<and> n = name"
| "touches_own pod name (K_Renew p n ttl) \<longleftrightarrow> p = pod \<and> n = name"

lemma lock_key_inj [simp]: "lock_key a = lock_key b \<longleftrightarrow> a = b"
  by (simp add: lock_key_def)

lemma lock_acquire_taken:
  "expiring_redis R \<Longrightarrow> ks_get R s now (lock_key name) \<noteq> None \<Longrightarrow>
     lock_acquire (Some R) s fails now pod name ttl = (s, False)"
  by (simp add: lock_acquire_def redis_set_nx_taken)

lemma lock_acquire_granted:
  assumes R: "expiring_redis R" and ok: "lock_acquire (Some R) s fails now pod name ttl = (s', True)"
  shows "\<not> fails" "ks_get R s now (lock_key name) = None"
    "now \<le> u \<Longrightarrow> ks_get R s' u k = (if k = lock_key name then until (now + ttl) pod u else ks_get R s u k)"
proof -
  show f: "\<not> fails" using ok by (auto simp: lock_acquire_def)
  show free: "ks_get R s now (lock_key name) = None"
    using lock_acquire_taken[OF R, of s now name fails pod ttl] ok by fastforce
  have "ks_set_nx_ex R s now (lock_key name) pod ttl = (s', True)" using ok f by (simp add: lock_acquire_def)
  from redis_set_nx_free(2)[OF R free this]
  show "now \<le> u \<Longrightarrow> ks_get R s' u k = (if k = lock_key name then until (now + ttl) pod u else ks_get R s u k)" .
qed

text \<open>Until \<open>e\<close> the key holds the pod.\<close>

definition held_until :: "'s key_store \<Rightarrow> 's \<Rightarrow> instant \<Rightarrow> string \<Rightarrow> string \<Rightarrow> instant \<Rightarrow> bool" where
  "held_until R s t name pod e \<longleftrightarrow> (\<forall>u. t \<le> u \<longrightarrow> u < e \<longrightarrow> ks_get R s u (lock_key name) = Some pod)"

lemma held_until_later: "held_until R s t name pod e \<Longrightarrow> t \<le> t' \<Longrightarrow> held_until R s t' name pod e"
  by (simp add: held_until_def)

lemma lock_step_keeps:
  assumes R: "expiring_redis R" and held: "held_until R s t name pod e" and now: "t \<le> now" "now < e"
    and others: "\<not> touches_own pod name op"
  shows "held_until R (lock_step R s (now, fails, op)) now name pod e"
proof -
  have here: "ks_get R s now (lock_key name) = Some pod" using held now by (simp add: held_until_def)
  have keep: "held_until R s now name pod e" using held_until_later[OF held now(1)] .
  show ?thesis
  proof (cases op)
    case (K_Acquire p n ttl)
    show ?thesis
    proof (cases "n = name \<or> fails")
      case True
      with lock_acquire_taken[OF R, of s now name fails p ttl] here keep show ?thesis
        by (auto simp: K_Acquire lock_acquire_def)
    next
      case False
      obtain s' ok where a: "lock_acquire (Some R) s fails now p n ttl = (s', ok)" by fastforce
      show ?thesis
      proof (cases ok)
        case True
        with a have "lock_acquire (Some R) s fails now p n ttl = (s', True)" by simp
        from lock_acquire_granted(3)[OF R this] keep a False show ?thesis
          by (auto simp: K_Acquire held_until_def)
      next
        case no: False
        then have "s' = s"
          using a False redis_set_nx[OF R, where s = s and t = now and k = "lock_key n" and v = p and ttl = ttl]
          by (auto simp: lock_acquire_def split: if_splits)
        with a keep show ?thesis by (simp add: K_Acquire)
      qed
    qed
  next
    case (K_Release p n)
    with others keep here show ?thesis
      by (auto simp: lock_release_def lua_release_def held_until_def redis_del(1)[OF R])
  next
    case (K_Renew p n ttl)
    with others keep here show ?thesis
      by (auto simp: lock_renew_def held_until_def redis_expire[OF R])
  qed
qed

lemma lock_run_keeps:
  assumes "expiring_redis R" "held_until R s t name pod e" "sorted (t # map fst evs)"
    and "\<forall>(now, fails, op) \<in> set evs. now < e \<and> \<not> touches_own pod name op"
  shows "held_until R (foldl (lock_step R) s evs) (last (t # map fst evs)) name pod e"
  using assms
proof (induction evs arbitrary: s t)
  case (Cons ev evs)
  obtain now fails op where ev: "ev = (now, fails, op)" by (metis prod_cases3)
  have "held_until R (lock_step R s ev) now name pod e"
    using lock_step_keeps[OF Cons.prems(1,2), of now op fails] Cons.prems(3,4) ev by simp
  from Cons.IH[OF Cons.prems(1) this] Cons.prems(3,4) show ?case by (simp add: ev)
qed simp

text \<open>A pod that acquired the lock and neither released nor renewed it excludes everybody until its deadline,
  its own other tasks included.\<close>

lemma lock_excludes_until_deadline:
  assumes R: "expiring_redis R" and got: "lock_acquire (Some R) s0 False t pod name ttl = (s, True)"
    and evs: "sorted (t # map fst evs)" "\<forall>(now, fails, op) \<in> set evs. now < t + ttl \<and> \<not> touches_own pod name op"
    and now: "last (t # map fst evs) \<le> now" "now < t + ttl"
  shows "\<not> snd (lock_acquire (Some R) (foldl (lock_step R) s evs) fails now other name ttl')"
proof -
  have "held_until R s t name pod (t + ttl)"
    using lock_acquire_granted(3)[OF R got] by (simp add: held_until_def)
  from lock_run_keeps[OF R this evs] now
  have "ks_get R (foldl (lock_step R) s evs) now (lock_key name) = Some pod" by (simp add: held_until_def)
  then show ?thesis by (simp add: lock_acquire_taken[OF R])
qed

text \<open>The value is the pod's, not the task's.  Task 1 of a pod overruns its deadline, task 2 of the pod gets the
  lock, task 1 leaves and its release deletes the lock of task 2: another pod enters while task 2 is inside.\<close>

lemma late_release_lets_another_pod_in:
  fixes pod other name :: string and ttl ttl' ttl'' :: int
  assumes R: "expiring_redis R" and "ks_get R s t (lock_key name) = None" "0 < ttl" "0 < ttl'"
  defines "s1 \<equiv> fst (lock_acquire (Some R) s False t pod name ttl)"
  defines "s2 \<equiv> fst (lock_acquire (Some R) s1 False (t + ttl) pod name ttl')"
  defines "s3 \<equiv> fst (lock_release (Some R) s2 False (t + ttl) pod name)"
  shows "snd (lock_acquire (Some R) s False t pod name ttl)"
    and "snd (lock_acquire (Some R) s1 False (t + ttl) pod name ttl')"
    and "snd (lock_release (Some R) s2 False (t + ttl) pod name)"
    and "snd (lock_acquire (Some R) s3 False (t + ttl) other name ttl'')"
proof -
  have free: "snd (lock_acquire (Some R) x False now p name d)" if "ks_get R x now (lock_key name) = None" for x now p d
    using redis_set_nx[OF R, where s = x and t = now and k = "lock_key name" and v = p and ttl = d] that
    by (auto simp: lock_acquire_def split: prod.splits)
  note seen = lock_acquire_granted(3)[OF R]
  show 1: "snd (lock_acquire (Some R) s False t pod name ttl)" using assms(2) by (rule free)
  then have "lock_acquire (Some R) s False t pod name ttl = (s1, True)" by (simp add: s1_def prod_eq_iff)
  from seen[OF this, of "t + ttl" "lock_key name"] \<open>0 < ttl\<close>
  have gone: "ks_get R s1 (t + ttl) (lock_key name) = None" by simp
  then show 2: "snd (lock_acquire (Some R) s1 False (t + ttl) pod name ttl')" by (rule free)
  then have "lock_acquire (Some R) s1 False (t + ttl) pod name ttl' = (s2, True)" by (simp add: s2_def prod_eq_iff)
  from seen[OF this, of "t + ttl" "lock_key name"] \<open>0 < ttl'\<close>
  have here: "ks_get R s2 (t + ttl) (lock_key name) = Some pod" by simp
  then show "snd (lock_release (Some R) s2 False (t + ttl) pod name)"
    by (simp add: lock_release_def lua_release_def)
  from here have "ks_get R s3 (t + ttl) (lock_key name) = None"
    by (simp add: s3_def lock_release_def lua_release_def redis_del(1)[OF R])
  then show "snd (lock_acquire (Some R) s3 False (t + ttl) other name ttl'')" by (rule free)
qed

text \<open>Without Redis every call succeeds: two tasks of the one process enter together.\<close>

lemma lock_without_redis:
  "lock_acquire None s fails now pod name ttl = (s, True)"
  "wait_for None pod name ttl deadline ((now, fails, s) # polls) = Entered s"
  by (simp_all add: lock_acquire_def)

text \<open>\<open>wait_for\<close> is decided by the first poll that gets the lock or finds the deadline over: it enters with the
  lock or gives up.\<close>

lemma wait_for_decided:
  "wait_for redis pod name ttl deadline polls =
     (case dropWhile (\<lambda>(now, fails, s). \<not> snd (lock_acquire redis s fails now pod name ttl) \<and> now < deadline) polls of
        [] \<Rightarrow> Waiting
      | (now, fails, s) # _ \<Rightarrow>
          (case lock_acquire redis s fails now pod name ttl of (s', ok) \<Rightarrow> if ok then Entered s' else Timed_out s'))"
proof (induction polls)
  case (Cons p polls)
  obtain now fails s where p: "p = (now, fails, s)" by (metis prod_cases3)
  obtain s1 ok where a: "lock_acquire redis s fails now pod name ttl = (s1, ok)" by fastforce
  show ?case using Cons by (cases ok; cases "now < deadline") (simp_all add: p a)
qed simp

text \<open>A loop that has ended, by itself or by an exception, leaves its lock: the code awaits the task only when it
  was cancelled, so the branch that logs the crash and releases the lock is never taken, and for the rest of
  the deadline even the pod itself cannot start the loop again.\<close>

lemma ended_loop_keeps_lock:
  assumes R: "expiring_redis R" and run: "run_with_renewal (Some R) pod name ttl [(False, now, fails, s), (True, x, y, z)] = ([s'], Loop_Ended)"
    and u: "now \<le> u" "u < now + ttl"
  shows "\<not> snd (lock_acquire (Some R) s' fails' u anyone name ttl')"
proof -
  have "lock_renew (Some R) s fails now pod name ttl = (s', True)"
    using run by (auto split: prod.splits bool.splits)
  then have "\<not> fails" "ks_get R s now (lock_key name) = Some pod" "s' = ks_expire R s now (lock_key name) ttl"
    by (auto simp: lock_renew_def split: if_splits)
  then have "ks_get R s' u (lock_key name) = Some pod" using u by (simp add: redis_expire[OF R])
  then show ?thesis by (simp add: lock_acquire_taken[OF R])
qed

text \<open>The loop is stopped at the first renewal that fails, and only then: while it runs, every renewal found
  the lock in its own name.\<close>

lemma renewals_found_the_lock:
  "run_with_renewal (Some R) pod name ttl polls = (left, Loop_Running) \<Longrightarrow>
     list_all (\<lambda>(ended, now, fails, s). \<not> ended \<and> \<not> fails \<and> ks_get R s now (lock_key name) = Some pod) polls"
proof (induction polls arbitrary: left)
  case (Cons p polls)
  obtain ended now fails s where p: "p = (ended, now, fails, s)" by (metis prod_cases4)
  obtain s1 ok where a: "lock_renew (Some R) s fails now pod name ttl = (s1, ok)" by fastforce
  obtain l r where rest: "run_with_renewal (Some R) pod name ttl polls = (l, r)" by fastforce
  have "\<not> ended" "ok" "r = Loop_Running"
    using Cons.prems by (auto simp: p a rest split: if_splits bool.splits)
  moreover from this a have "\<not> fails" "ks_get R s now (lock_key name) = Some pod"
    by (auto simp: lock_renew_def split: if_splits)
  ultimately show ?case using Cons.IH rest by (simp add: p)
qed simp

end
