(* ===== verification/Hub_Governance.thy ===== *)
theory Hub_Governance
  imports Json_Value Py_Text
begin

text \<open>
  Governance on a marketplace hub (\<open>packages/tesslate-marketplace/app\<close>): who a bearer token speaks for
  (\<open>services/auth.py\<close>), the staged pipeline of submissions (\<open>services/submissions.py\<close>, \<open>stage1_scanner.py\<close>,
  \<open>stage2_sandbox.py\<close>, \<open>routers/publish.py\<close>), yanks with their two-admin policy
  (\<open>services/yanks_governance.py\<close>, \<open>routers/yanks.py\<close>) and the overrides of \<open>routers/admin.py\<close>.

  State: the tables as lists of rows and the feed of changes.  \<open>hub_run\<close> is any sequence of requests of any
  principals.  SHA-256, the base64 decoder and fresh identifiers are arguments.  A request that ends with an
  error, caught or not, leaves nothing behind: its transaction is dropped.  Reasons that quote numbers are shortened.
\<close>

subsection \<open>Principals\<close>

record principal =
  p_handle :: string
  p_scopes :: "string list"
  p_token_id :: "uuid option"

record api_token =
  at_id :: uuid
  at_hash :: string
  at_handle :: string
  at_scopes :: "string list"
  at_active :: bool

definition resolve_static :: "(string \<Rightarrow> string) \<Rightarrow> (string \<rightharpoonup> string list) \<Rightarrow> string \<Rightarrow> principal option" where
  "resolve_static sha table token =
     (case table token of
        None \<Rightarrow> None
      | Some scopes \<Rightarrow>
          Some \<lparr>p_handle = ''static:'' @ take 16 (sha token), p_scopes = scopes, p_token_id = None\<rparr>)"

definition resolve_db :: "(string \<Rightarrow> string) \<Rightarrow> api_token list \<Rightarrow> string \<Rightarrow> principal option" where
  "resolve_db sha rows token =
     (case find (\<lambda>r. at_hash r = sha token) rows of
        None \<Rightarrow> None
      | Some r \<Rightarrow>
          if at_active r then Some \<lparr>p_handle = at_handle r, p_scopes = at_scopes r, p_token_id = Some (at_id r)\<rparr>
          else None)"

definition get_principal ::
  "(string \<Rightarrow> string) \<Rightarrow> (string \<rightharpoonup> string list) \<Rightarrow> api_token list \<Rightarrow> string \<Rightarrow> principal option" where
  "get_principal sha table rows token =
     (case resolve_static sha table token of Some p \<Rightarrow> Some p | None \<Rightarrow> resolve_db sha rows token)"

definition has_scope :: "principal \<Rightarrow> string \<Rightarrow> bool" where
  "has_scope p scope \<longleftrightarrow> scope \<in> set (p_scopes p) \<or> ''*'' \<in> set (p_scopes p)"

subsection \<open>Tables\<close>

record hub_item =
  hi_id :: uuid
  hi_kind :: string
  hi_slug :: string
  hi_name :: string
  hi_description :: json
  hi_category :: json
  hi_creator :: "string option"
  hi_active :: bool
  hi_published :: bool
  hi_latest :: "(string \<times> uuid) option"

record hub_version =
  hv_id :: uuid
  hv_item :: uuid
  hv_version :: string
  hv_manifest :: "json_dict option"
  hv_yanked :: bool
  hv_yanked_at :: "instant option"
  hv_yank_reason :: "string option"
  hv_yank_severity :: "string option"

record hub_bundle =
  hb_version :: uuid
  hb_sha :: string
  hb_size :: int

record hub_submission =
  hs_id :: uuid
  hs_kind :: string
  hs_slug :: string
  hs_version :: string
  hs_submitter :: "string option"
  hs_state :: string
  hs_stage :: string
  hs_decision :: "string option"
  hs_reason :: "string option"
  hs_manifest :: "json_dict option"
  hs_sha :: "string option"
  hs_size :: "int option"
  hs_item_version :: "(uuid \<times> uuid) option"

record hub_check =
  hc_submission :: uuid
  hc_stage :: string
  hc_name :: string
  hc_status :: string

record hub_yank =
  hy_id :: uuid
  hy_kind :: string
  hy_slug :: string
  hy_version :: "string option"
  hy_severity :: string
  hy_reason :: string
  hy_requested_by :: string
  hy_token :: "uuid option"
  hy_state :: string
  hy_resolution :: "string option"
  hy_resolved_at :: "instant option"

record hub_appeal =
  ha_id :: uuid
  ha_yank :: uuid
  ha_submitted_by :: string
  ha_reason :: string
  ha_state :: string
  ha_decision :: "string option"

record hub_change =
  ch_op :: string
  ch_kind :: string
  ch_slug :: string
  ch_version :: "string option"
  ch_payload :: json_dict

record hub =
  h_items :: "hub_item list"
  h_versions :: "hub_version list"
  h_bundles :: "hub_bundle list"
  h_submissions :: "hub_submission list"
  h_checks :: "hub_check list"
  h_yanks :: "hub_yank list"
  h_appeals :: "hub_appeal list"
  h_changes :: "hub_change list"

datatype hub_error =
    Insufficient_scope string
  | Unknown_kind
  | Invalid_bundle
  | Slug_mismatch
  | Version_mismatch
  | Item_not_found
  | Version_not_found
  | Submission_not_found
  | Submission_terminal string
  | Invalid_transition
  | Unknown_stage
  | Invalid_decision
  | Hub_yank_not_found
  | Cannot_self_appeal
  | Hub_unprocessable

definition and_then :: "('e, 'a) result \<Rightarrow> ('a \<Rightarrow> ('e, 'b) result) \<Rightarrow> ('e, 'b) result" where
  "and_then r f = (case r of Inl e \<Rightarrow> Inl e | Inr x \<Rightarrow> f x)"

lemma and_then_simps [simp]: "and_then (Inl e) f = Inl e" "and_then (Inr x) f = f x"
  by (simp_all add: and_then_def)

lemma and_then_Inr: "and_then r f = Inr y \<longleftrightarrow> (\<exists>x. r = Inr x \<and> f x = Inr y)"
  by (cases r) simp_all

definition emit_change :: "string \<Rightarrow> string \<Rightarrow> string \<Rightarrow> string option \<Rightarrow> json_dict \<Rightarrow> hub \<Rightarrow> hub" where
  "emit_change op kind slug version payload h = h\<lparr>h_changes := h_changes h @
     [\<lparr>ch_op = op, ch_kind = kind, ch_slug = slug, ch_version = version, ch_payload = payload\<rparr>]\<rparr>"

section \<open>Submissions\<close>

subsection \<open>The stages\<close>

definition hub_transitions :: "(string \<times> string list) list" where
  "hub_transitions =
     [(''stage0'', [''stage1'', ''rejected'', ''withdrawn'']),
      (''stage1'', [''stage2'', ''rejected'', ''withdrawn'']),
      (''stage2'', [''stage3'', ''rejected'', ''withdrawn'']),
      (''stage3'', [''approved'', ''rejected'', ''withdrawn'']),
      (''approved'', []), (''rejected'', []), (''withdrawn'', [])]"

definition stage_to_state :: "(string \<times> string) list" where
  "stage_to_state =
     [(''stage0'', ''stage0_received''), (''stage1'', ''stage1_static''), (''stage2'', ''stage2_dynamic''),
      (''stage3'', ''stage3_review''), (''approved'', ''approved''), (''rejected'', ''rejected''),
      (''withdrawn'', ''withdrawn'')]"

definition terminal_stages :: "string list" where
  "terminal_stages = [''approved'', ''rejected'', ''withdrawn'']"

definition hub_assert_valid :: "string \<Rightarrow> string \<Rightarrow> bool" where
  "hub_assert_valid from_stage to_stage \<longleftrightarrow>
     (case map_of hub_transitions from_stage of None \<Rightarrow> False | Some allowed \<Rightarrow> to_stage \<in> set allowed)"

definition load_submission :: "hub \<Rightarrow> uuid \<Rightarrow> (hub_error, hub_submission) result" where
  "load_submission h sid =
     (case find (\<lambda>s. hs_id s = sid) (h_submissions h) of
        None \<Rightarrow> Inl Submission_not_found | Some s \<Rightarrow> Inr s)"

definition update_submission :: "uuid \<Rightarrow> (hub_submission \<Rightarrow> hub_submission) \<Rightarrow> hub \<Rightarrow> hub" where
  "update_submission sid f h =
     h\<lparr>h_submissions := map (\<lambda>s. if hs_id s = sid then f s else s) (h_submissions h)\<rparr>"

definition hub_record_check :: "uuid \<Rightarrow> string \<Rightarrow> string \<Rightarrow> string \<Rightarrow> hub \<Rightarrow> hub" where
  "hub_record_check sid stage name status h = h\<lparr>h_checks := h_checks h @
     [\<lparr>hc_submission = sid, hc_stage = stage, hc_name = name, hc_status = status\<rparr>]\<rparr>"

definition enter_stage :: "string \<Rightarrow> string option \<Rightarrow> hub_submission \<Rightarrow> hub_submission" where
  "enter_stage to_stage reason s =
     (let s = s\<lparr>hs_stage := to_stage, hs_state := the (map_of stage_to_state to_stage)\<rparr>
      in if to_stage \<in> set terminal_stages
         then s\<lparr>hs_decision := Some to_stage, hs_reason := (if reason = None then hs_reason s else reason)\<rparr>
         else s)"

definition hub_advance_stage :: "uuid \<Rightarrow> string \<Rightarrow> string option \<Rightarrow> hub \<Rightarrow> (hub_error, hub) result" where
  "hub_advance_stage sid to_stage reason h =
     and_then (load_submission h sid) (\<lambda>s.
       if hs_stage s \<in> set terminal_stages then Inl (Submission_terminal (hs_state s))
       else if \<not> hub_assert_valid (hs_stage s) to_stage then Inl Invalid_transition
       else Inr (update_submission sid (enter_stage to_stage reason) h))"

definition hub_finalize :: "uuid \<Rightarrow> string \<Rightarrow> string option \<Rightarrow> hub \<Rightarrow> (hub_error, hub) result" where
  "hub_finalize sid decision reason h =
     and_then (load_submission h sid) (\<lambda>s.
       if hs_stage s \<in> set terminal_stages then Inl (Submission_terminal (hs_state s))
       else if decision \<notin> set terminal_stages then Inl Invalid_transition
       else if decision = ''approved'' \<and> hs_stage s \<noteq> ''stage3'' then Inl Invalid_transition
       else hub_advance_stage sid decision reason h)"

subsection \<open>Stage 1: the scanner\<close>

definition slug_allowed :: string where
  "slug_allowed = ''abcdefghijklmnopqrstuvwxyz0123456789-_''"

definition supported_features :: "string list" where
  "supported_features = [''agent'', ''skill'', ''mcp_server'', ''base'', ''app'', ''theme'', ''workflow_template'',
     ''manifest_2025_01'', ''manifest_2025_02'', ''manifest_2026_05'']"

definition check_slug_format :: "string \<Rightarrow> string" where
  "check_slug_format slug =
     (if slug = [] then ''failed'' else if \<not> set slug \<subseteq> set slug_allowed then ''failed'' else ''passed'')"

definition check_manifest_shape :: "json_dict option \<Rightarrow> string" where
  "check_manifest_shape manifest = (case manifest of None \<Rightarrow> ''warning'' | Some _ \<Rightarrow> ''passed'')"

text \<open>\<open>[str(x) for x in raw if x]\<close>: the text of a value that is no string is none of the supported names.\<close>

definition unsupported_feature :: "json \<Rightarrow> bool" where
  "unsupported_feature x \<longleftrightarrow> truthy x \<and> (case x of J_str s \<Rightarrow> s \<notin> set supported_features | _ \<Rightarrow> True)"

definition check_features_supported :: "json_dict option \<Rightarrow> string" where
  "check_features_supported manifest =
     (case manifest of
        None \<Rightarrow> ''passed''
      | Some m \<Rightarrow>
          (case jget_default m ''required_features'' (J_list []) of
             J_list raw \<Rightarrow> if list_ex unsupported_feature raw then ''failed'' else ''passed''
           | _ \<Rightarrow> ''passed''))"

definition check_disclosure :: "json_dict option \<Rightarrow> string" where
  "check_disclosure manifest =
     (case manifest of
        None \<Rightarrow> ''skipped''
      | Some m \<Rightarrow>
          if jget m ''source_visibility'' \<in> {J_null, J_str ''''} \<or> jget m ''forkable'' = J_null then ''warning''
          else ''passed'')"

definition lacks_payer :: "json \<Rightarrow> bool" where
  "lacks_payer d = (case d of J_obj bd \<Rightarrow> \<not> truthy (jget bd ''payer'') | _ \<Rightarrow> False)"

definition check_billing_dims :: "json_dict option \<Rightarrow> string" where
  "check_billing_dims manifest =
     (let billing = (case manifest of None \<Rightarrow> J_obj [] | Some m \<Rightarrow> py_or (jget_default m ''billing'' (J_obj [])) (J_obj []));
          dims = (case billing of J_obj b \<Rightarrow> jget_default b ''dimensions'' (J_list []) | _ \<Rightarrow> J_list [])
      in case dims of
           J_list xs \<Rightarrow> if list_ex lacks_payer xs then ''failed'' else ''passed''
         | _ \<Rightarrow> ''failed'')"

definition check_bundle_metadata :: "string option \<Rightarrow> int option \<Rightarrow> string" where
  "check_bundle_metadata sha len =
     (case (sha, len) of
        (Some d, Some n) \<Rightarrow> if length d \<noteq> 64 then ''failed'' else if n \<le> 0 then ''failed'' else ''passed''
      | _ \<Rightarrow> ''warning'')"

definition stage1_results :: "hub_submission \<Rightarrow> (string \<times> string) list" where
  "stage1_results s =
     [(''slug_format'', check_slug_format (hs_slug s)),
      (''manifest_shape'', check_manifest_shape (hs_manifest s)),
      (''features_supported'', check_features_supported (hs_manifest s)),
      (''disclosure_present'', check_disclosure (hs_manifest s)),
      (''billing_dims_have_payer'', check_billing_dims (hs_manifest s)),
      (''bundle_metadata'', check_bundle_metadata (hs_sha s) (hs_size s))]"

definition bad_status :: "string \<Rightarrow> bool" where
  "bad_status status \<longleftrightarrow> status \<in> {''failed'', ''errored''}"

definition run_stage1_scan :: "uuid \<Rightarrow> hub \<Rightarrow> (hub_error, hub \<times> string) result" where
  "run_stage1_scan sid h =
     and_then (load_submission h sid) (\<lambda>s.
       let results = stage1_results s;
           h1 = fold (\<lambda>(name, status). hub_record_check sid ''stage1'' name status) results h
       in if list_ex (\<lambda>(name, status). bad_status status) results
          then and_then (hub_advance_stage sid ''rejected'' 
                            (Some (''stage1 failed: '' @ py_join '','' (map fst (filter (\<lambda>(name, status). bad_status status) results)))) h1) (\<lambda>h2. Inr (h2, ''rejected''))
          else and_then (hub_advance_stage sid ''stage2'' None h1) (\<lambda>h2. Inr (h2, ''stage2'')))"

subsection \<open>Stage 2: the score\<close>

text \<open>In hundredths.  The code adds the floats 0.30, 0.20, 0.10; each sum compares with 0.5 as its exact value.\<close>

definition compute_score :: "json_dict option \<Rightarrow> string option \<Rightarrow> int option \<Rightarrow> int" where
  "compute_score manifest sha len =
     min 100
       ((case manifest of
           None \<Rightarrow> 0
         | Some m \<Rightarrow>
             30 + (case jget m ''required_features'' of J_list _ \<Rightarrow> 20 | _ \<Rightarrow> 0)
             + (if jget m ''source_visibility'' \<notin> {J_null, J_str ''''} \<and> jget m ''forkable'' \<noteq> J_null then 20 else 0)
             + (case jget m ''billing'' of J_obj _ \<Rightarrow> 10 | _ \<Rightarrow> 0))
        + (case (sha, len) of (Some d, Some n) \<Rightarrow> if d \<noteq> [] \<and> 0 < n then 20 else 0 | _ \<Rightarrow> 0))"

definition stage2_threshold :: int where
  "stage2_threshold = 50"

definition stage2_skipped :: "hub_submission \<Rightarrow> bool" where
  "stage2_skipped s \<longleftrightarrow> hs_manifest s \<in> {None, Some []} \<and> hs_sha s \<in> {None, Some []}"

definition stage2_passed :: "hub_submission \<Rightarrow> bool" where
  "stage2_passed s \<longleftrightarrow> stage2_threshold \<le> compute_score (hs_manifest s) (hs_sha s) (hs_size s)"

definition run_stage2_eval :: "uuid \<Rightarrow> hub \<Rightarrow> (hub_error, hub \<times> string) result" where
  "run_stage2_eval sid h =
     and_then (load_submission h sid) (\<lambda>s.
       if stage2_skipped s
       then and_then (hub_advance_stage sid ''stage3'' None (hub_record_check sid ''stage2'' ''adversarial_score'' ''warning'' h))
              (\<lambda>h2. Inr (h2, ''stage3''))
       else if stage2_passed s
       then and_then (hub_advance_stage sid ''stage3'' None (hub_record_check sid ''stage2'' ''adversarial_score'' ''passed'' h))
              (\<lambda>h2. Inr (h2, ''stage3''))
       else and_then (hub_advance_stage sid ''rejected'' (Some ''stage2 adversarial score below threshold'')
                        (hub_record_check sid ''stage2'' ''adversarial_score'' ''failed'' h))
              (\<lambda>h2. Inr (h2, ''rejected'')))"

subsection \<open>Publishing\<close>

definition hub_kinds :: "string list" where
  "hub_kinds = [''agent'', ''skill'', ''mcp_server'', ''base'', ''app'', ''theme'', ''workflow_template'']"

definition max_bundle_size :: "(string \<times> int) list" where
  "max_bundle_size =
     [(''app'', 524288000), (''agent'', 52428800), (''skill'', 10485760), (''theme'', 10485760),
      (''workflow_template'', 10485760), (''mcp_server'', 1048576), (''base'', 1048576)]"

definition validate_bundle_size :: "string \<Rightarrow> int \<Rightarrow> bool" where
  "validate_bundle_size kind len = (case map_of max_bundle_size kind of None \<Rightarrow> False | Some cap \<Rightarrow> len \<le> cap)"

record publish_request =
  pq_slug :: string
  pq_name :: string
  pq_description :: json
  pq_category :: json
  pq_creator :: "string option"
  pq_version :: string
  pq_manifest :: "json_dict option"
  pq_bundle_b64 :: "string option"

text \<open>Intake.  \<open>True\<close>: the submission goes on to stage 1.  (The archive format is the constant \<open>tar.zst\<close>, which
  is accepted.)\<close>

definition stage0_intake ::
  "(string \<Rightarrow> string) \<Rightarrow> uuid \<Rightarrow> string option \<Rightarrow> hub \<Rightarrow> (hub_error, hub \<times> bool) result" where
  "stage0_intake sha sid bytes h =
     and_then (load_submission h sid) (\<lambda>s.
       let h1 = hub_record_check sid ''stage0'' ''manifest_present'' ''passed'' h
       in case bytes of
            None \<Rightarrow> Inr (hub_record_check sid ''stage0'' ''bundle_present'' ''warning'' h1, True)
          | Some b \<Rightarrow>
              if \<not> validate_bundle_size (hs_kind s) (int (length b))
              then and_then (hub_advance_stage sid ''rejected'' (Some ''bundle too large'')
                               (hub_record_check sid ''stage0'' ''bundle_size'' ''failed'' h1)) (\<lambda>h2. Inr (h2, False))
              else (let h2 = hub_record_check sid ''stage0'' ''archive_format'' ''passed''
                               (hub_record_check sid ''stage0'' ''bundle_size'' ''passed'' h1)
                    in if hs_sha s \<notin> {None, Some []} \<and> hs_sha s \<noteq> Some (sha b)
                       then and_then (hub_advance_stage sid ''rejected'' (Some ''sha256_mismatch'')
                                        (hub_record_check sid ''stage0'' ''sha256_match'' ''failed'' h2)) (\<lambda>h3. Inr (h3, False))
                       else Inr (hub_record_check sid ''stage0'' ''sha256_match'' ''passed''
                                   (update_submission sid (\<lambda>s. s\<lparr>hs_sha := Some (sha b), hs_size := Some (int (length b))\<rparr>) h2),
                                 True)))"

definition run_intake_and_pipeline ::
  "(string \<Rightarrow> string) \<Rightarrow> uuid \<Rightarrow> string option \<Rightarrow> hub \<Rightarrow> (hub_error, hub) result" where
  "run_intake_and_pipeline sha sid bytes h =
     and_then (stage0_intake sha sid bytes
                 (update_submission sid (\<lambda>s. s\<lparr>hs_stage := ''stage0'', hs_state := ''stage0_received''\<rparr>) h))
       (\<lambda>(h0, go).
         if \<not> go then Inr h0
         else and_then (hub_advance_stage sid ''stage1'' None h0) (\<lambda>h1.
              and_then (run_stage1_scan sid h1) (\<lambda>(h2, advanced_to).
                if advanced_to = ''rejected'' then Inr h2
                else and_then (run_stage2_eval sid h2) (\<lambda>(h3, advanced_to).
                  if advanced_to = ''rejected'' then Inr h3
                  else hub_finalize sid ''approved'' (Some ''auto_approved'')
                         (hub_record_check sid ''stage3'' ''reviewer_assignment'' ''passed'' h3)))))"

definition find_item :: "hub \<Rightarrow> string \<Rightarrow> string \<Rightarrow> hub_item option" where
  "find_item h kind slug = find (\<lambda>i. hi_kind i = kind \<and> hi_slug i = slug) (h_items h)"

definition find_version :: "hub \<Rightarrow> uuid \<Rightarrow> string \<Rightarrow> hub_version option" where
  "find_version h iid v = find (\<lambda>r. hv_item r = iid \<and> hv_version r = v) (h_versions h)"

definition refresh_item :: "publish_request \<Rightarrow> hub_item \<Rightarrow> hub_item" where
  "refresh_item rq x =
     x\<lparr>hi_name := pq_name rq, hi_description := pq_description rq, hi_category := pq_category rq,
       hi_creator := (if pq_creator rq \<in> {None, Some []} then hi_creator x else pq_creator rq)\<rparr>"

definition upsert_item :: "uuid \<Rightarrow> string \<Rightarrow> publish_request \<Rightarrow> hub \<Rightarrow> hub \<times> uuid" where
  "upsert_item new_id kind rq h =
     (case find_item h kind (pq_slug rq) of
        None \<Rightarrow> (h\<lparr>h_items := h_items h @
            [\<lparr>hi_id = new_id, hi_kind = kind, hi_slug = pq_slug rq, hi_name = pq_name rq,
              hi_description = pq_description rq, hi_category = pq_category rq, hi_creator = pq_creator rq,
              hi_active = True, hi_published = True, hi_latest = None\<rparr>]\<rparr>, new_id)
      | Some i \<Rightarrow> (h\<lparr>h_items := map (\<lambda>x. if hi_id x = hi_id i then refresh_item rq x else x) (h_items h)\<rparr>, hi_id i))"

definition upsert_version :: "uuid \<Rightarrow> uuid \<Rightarrow> publish_request \<Rightarrow> hub \<Rightarrow> hub \<times> uuid" where
  "upsert_version new_id iid rq h =
     (case find_version h iid (pq_version rq) of
        None \<Rightarrow> (h\<lparr>h_versions := h_versions h @
            [\<lparr>hv_id = new_id, hv_item = iid, hv_version = pq_version rq, hv_manifest = pq_manifest rq, hv_yanked = False,
              hv_yanked_at = None, hv_yank_reason = None, hv_yank_severity = None\<rparr>]\<rparr>, new_id)
      | Some v \<Rightarrow> (h\<lparr>h_versions := map (\<lambda>x. if hv_id x = hv_id v then x\<lparr>hv_manifest := pq_manifest rq\<rparr> else x)
            (h_versions h)\<rparr>, hv_id v))"

definition upsert_bundle :: "(string \<Rightarrow> string) \<Rightarrow> uuid \<Rightarrow> string option \<Rightarrow> hub \<Rightarrow> hub" where
  "upsert_bundle sha vid bytes h =
     (case bytes of
        None \<Rightarrow> h
      | Some b \<Rightarrow> h\<lparr>h_bundles := filter (\<lambda>r. hb_version r \<noteq> vid) (h_bundles h) @
            [\<lparr>hb_version = vid, hb_sha = sha b, hb_size = int (length b)\<rparr>]\<rparr>)"

definition materialise_item ::
  "(string \<Rightarrow> string) \<Rightarrow> uuid \<Rightarrow> uuid \<Rightarrow> uuid \<Rightarrow> string \<Rightarrow> publish_request \<Rightarrow> string option \<Rightarrow> hub \<Rightarrow> hub" where
  "materialise_item sha sid new_item new_version kind rq bytes h =
     (let (h1, iid) = upsert_item new_item kind rq h;
          (h2, vid) = upsert_version new_version iid rq h1;
          h3 = h2\<lparr>h_items := map (\<lambda>x. if hi_id x = iid then x\<lparr>hi_latest := Some (pq_version rq, vid)\<rparr> else x) (h_items h2)\<rparr>
      in update_submission sid (\<lambda>s. s\<lparr>hs_item_version := Some (iid, vid)\<rparr>) (upsert_bundle sha vid bytes h3))"

definition upsert_payload :: "publish_request \<Rightarrow> bool \<Rightarrow> json_dict" where
  "upsert_payload rq published =
     [(''name'', J_str (pq_name rq)), (''description'', pq_description rq), (''category'', pq_category rq),
      (''version'', J_str (pq_version rq)), (''is_published'', J_bool published)]"

definition new_submission :: "uuid \<Rightarrow> string \<Rightarrow> publish_request \<Rightarrow> principal \<Rightarrow> hub_submission" where
  "new_submission sid kind rq p =
     \<lparr>hs_id = sid, hs_kind = kind, hs_slug = pq_slug rq, hs_version = pq_version rq, hs_submitter = Some (p_handle p),
      hs_state = ''stage0_received'', hs_stage = ''stage0'', hs_decision = None, hs_reason = None,
      hs_manifest = pq_manifest rq, hs_sha = None, hs_size = None, hs_item_version = None\<rparr>"

definition decode_bundle :: "(string \<Rightarrow> string option) \<Rightarrow> publish_request \<Rightarrow> (hub_error, string option) result" where
  "decode_bundle b64decode rq =
     (case pq_bundle_b64 rq of
        None \<Rightarrow> Inr None
      | Some [] \<Rightarrow> Inr None
      | Some t \<Rightarrow> (case b64decode t of None \<Rightarrow> Inl Invalid_bundle | Some b \<Rightarrow> Inr (Some b)))"

text \<open>\<open>ids\<close>: fresh identifiers for the submission, the item and the version.\<close>

definition publish_kind ::
  "(string \<Rightarrow> string) \<Rightarrow> (string \<Rightarrow> string option) \<Rightarrow> uuid \<times> uuid \<times> uuid \<Rightarrow> principal \<Rightarrow> string \<Rightarrow> publish_request
   \<Rightarrow> hub \<Rightarrow> (hub_error, hub) result" where
  "publish_kind sha b64decode ids p kind rq h =
     (case ids of (sid, new_item, new_version) \<Rightarrow>
       if \<not> has_scope p ''publish'' then Inl (Insufficient_scope ''publish'')
       else if kind \<notin> set hub_kinds then Inl Unknown_kind
       else and_then (decode_bundle b64decode rq) (\<lambda>bytes.
            and_then (run_intake_and_pipeline sha sid bytes
                        (h\<lparr>h_submissions := h_submissions h @ [new_submission sid kind rq p]\<rparr>)) (\<lambda>h1.
            and_then (load_submission h1 sid) (\<lambda>s.
              Inr (if hs_state s = ''approved''
                   then (let h2 = materialise_item sha sid new_item new_version kind rq bytes h1;
                             published = (case find_item h2 kind (pq_slug rq) of None \<Rightarrow> True | Some i \<Rightarrow> hi_published i)
                         in emit_change ''upsert'' kind (pq_slug rq) (Some (pq_version rq)) (upsert_payload rq published) h2)
                   else h1)))))"

definition publish_version ::
  "(string \<Rightarrow> string) \<Rightarrow> (string \<Rightarrow> string option) \<Rightarrow> uuid \<times> uuid \<times> uuid \<Rightarrow> principal \<Rightarrow> string \<Rightarrow> string \<Rightarrow> string
   \<Rightarrow> publish_request \<Rightarrow> hub \<Rightarrow> (hub_error, hub) result" where
  "publish_version sha b64decode ids p kind slug version rq h =
     (if \<not> has_scope p ''publish'' then Inl (Insufficient_scope ''publish'')
      else if kind \<notin> set hub_kinds then Inl Unknown_kind
      else if pq_slug rq \<noteq> slug then Inl Slug_mismatch
      else if pq_version rq \<noteq> version then Inl Version_mismatch
      else publish_kind sha b64decode ids p kind rq h)"

subsection \<open>The routes on submissions\<close>

definition hub_withdraw :: "principal \<Rightarrow> uuid \<Rightarrow> hub \<Rightarrow> (hub_error, hub) result" where
  "hub_withdraw p sid h =
     (if \<not> has_scope p ''publish'' then Inl (Insufficient_scope ''publish'')
      else and_then (load_submission h sid) (\<lambda>s.
             if hs_state s \<in> {''approved'', ''rejected'', ''withdrawn''} then Inl (Submission_terminal (hs_state s))
             else hub_advance_stage sid ''withdrawn'' (Some (''Withdrawn by '' @ p_handle p)) h))"

definition hub_advance :: "principal \<Rightarrow> uuid \<Rightarrow> hub \<Rightarrow> (hub_error, hub) result" where
  "hub_advance p sid h =
     (if \<not> has_scope p ''submissions.write'' then Inl (Insufficient_scope ''submissions.write'')
      else and_then (load_submission h sid) (\<lambda>s.
             if hs_stage s \<in> {''approved'', ''rejected'', ''withdrawn''} then Inr h
             else if hs_stage s = ''stage0'' then hub_advance_stage sid ''stage1'' None h
             else if hs_stage s = ''stage1'' then and_then (run_stage1_scan sid h) (\<lambda>(h1, _). Inr h1)
             else if hs_stage s = ''stage2'' then and_then (run_stage2_eval sid h) (\<lambda>(h1, _). Inr h1)
             else if hs_stage s = ''stage3'' then Inr h
             else Inl Unknown_stage))"

definition hub_finalize_route :: "principal \<Rightarrow> uuid \<Rightarrow> string \<Rightarrow> string option \<Rightarrow> hub \<Rightarrow> (hub_error, hub) result" where
  "hub_finalize_route p sid decision reason h =
     (if decision \<notin> {''approved'', ''rejected'', ''withdrawn''} then Inl Invalid_decision
      else and_then (load_submission h sid) (\<lambda>s.
             if (decision = ''withdrawn'' \<longrightarrow> hs_submitter s \<notin> {None, Some []} \<and> hs_submitter s \<noteq> Some (p_handle p))
                \<and> \<not> has_scope p ''submissions.write'' then Inl (Insufficient_scope ''submissions.write'')
             else hub_finalize sid decision reason h))"

text \<open>The loop of force-approve: an invalid transition means the stage was passed already.\<close>

fun walk_to_stage3 :: "uuid \<Rightarrow> string list \<Rightarrow> hub \<Rightarrow> (hub_error, hub) result" where
  "walk_to_stage3 sid [] h = Inr h"
| "walk_to_stage3 sid (next # stages) h =
     and_then (load_submission h sid) (\<lambda>s.
       if hs_stage s = next then walk_to_stage3 sid stages h
       else (case hub_advance_stage sid next None h of
               Inr h1 \<Rightarrow> walk_to_stage3 sid stages h1
             | Inl Invalid_transition \<Rightarrow> walk_to_stage3 sid stages h
             | Inl e \<Rightarrow> Inl e))"

definition force_approve :: "principal \<Rightarrow> uuid \<Rightarrow> string option \<Rightarrow> bool \<Rightarrow> hub \<Rightarrow> (hub_error, hub) result" where
  "force_approve p sid reason skip_remaining_stages h =
     (if \<not> has_scope p ''admin.write'' then Inl (Insufficient_scope ''admin.write'')
      else and_then (load_submission h sid) (\<lambda>s.
             if hs_stage s \<in> {''approved'', ''rejected'', ''withdrawn''} then Inl (Submission_terminal (hs_state s))
             else and_then (if skip_remaining_stages then walk_to_stage3 sid [''stage1'', ''stage2'', ''stage3''] h else Inr h)
                    (\<lambda>h1. hub_finalize sid ''approved''
                            (if reason \<in> {None, Some []} then Some ''admin_force_approved'' else reason)
                            (hub_record_check sid ''stage3'' ''admin_override_approve'' ''passed'' h1))))"

definition force_reject :: "principal \<Rightarrow> uuid \<Rightarrow> string \<Rightarrow> hub \<Rightarrow> (hub_error, hub) result" where
  "force_reject p sid reason h =
     (if \<not> has_scope p ''admin.write'' then Inl (Insufficient_scope ''admin.write'')
      else and_then (load_submission h sid) (\<lambda>s.
             if hs_stage s \<in> {''approved'', ''rejected'', ''withdrawn''} then Inl (Submission_terminal (hs_state s))
             else hub_finalize sid ''rejected'' (Some reason)
                    (hub_record_check sid (hs_stage s) ''admin_override_reject'' ''failed'' h)))"

section \<open>Yanks\<close>

subsection \<open>The policy\<close>

text \<open>The state, the resolution and when it was resolved.\<close>

definition compute_initial_state :: "instant \<Rightarrow> string \<Rightarrow> string \<times> string option \<times> instant option" where
  "compute_initial_state now severity =
     (if severity = ''critical'' then (''open'', None, None) else (''resolved'', Some ''applied'', Some now))"

definition appeal_can_resolve :: "hub_yank \<Rightarrow> string \<Rightarrow> uuid option \<Rightarrow> bool" where
  "appeal_can_resolve y handle token =
     (if hy_severity y \<noteq> ''critical'' then True
      else if hy_state y \<noteq> ''open'' then True
      else (let same_handle = hy_requested_by y \<noteq> [] \<and> hy_requested_by y = handle;
                same_token = hy_token y \<noteq> None \<and> token \<noteq> None \<and> hy_token y = token
            in \<not> (same_handle \<or> same_token)))"

text \<open>The appeal's state and decision, then the yank's state, resolution and when it was resolved.\<close>

definition decide_appeal ::
  "instant \<Rightarrow> hub_yank \<Rightarrow> string \<Rightarrow> uuid option
   \<Rightarrow> (string \<times> string option) \<times> (string \<times> string option \<times> instant option)" where
  "decide_appeal now y handle token =
     (let unchanged = ((''open'', None), (hy_state y, hy_resolution y, hy_resolved_at y))
      in if \<not> appeal_can_resolve y handle token then unchanged
         else if hy_severity y = ''critical'' \<and> hy_state y = ''open''
         then ((''resolved'', Some ''second_admin_confirmed''), (''resolved'', Some ''second_admin_confirmed'', Some now))
         else unchanged)"

subsection \<open>The routes on yanks\<close>

record yank_create =
  yc_kind :: string
  yc_slug :: string
  yc_version :: "string option"
  yc_severity :: string
  yc_reason :: string
  yc_requested_by :: "string option"

definition flag_version :: "instant \<Rightarrow> yank_create \<Rightarrow> hub_version \<Rightarrow> hub_version" where
  "flag_version now b v = v\<lparr>hv_yanked := True, hv_yanked_at := Some now, hv_yank_reason := Some (yc_reason b),
     hv_yank_severity := Some (yc_severity b)\<rparr>"

definition requester_of :: "principal \<Rightarrow> yank_create \<Rightarrow> string" where
  "requester_of p b = (case yc_requested_by b of None \<Rightarrow> p_handle p | Some [] \<Rightarrow> p_handle p | Some r \<Rightarrow> r)"

definition update_yank :: "uuid \<Rightarrow> (hub_yank \<Rightarrow> hub_yank) \<Rightarrow> hub \<Rightarrow> hub" where
  "update_yank yid f h = h\<lparr>h_yanks := map (\<lambda>y. if hy_id y = yid then f y else y) (h_yanks h)\<rparr>"

definition find_yank :: "hub \<Rightarrow> uuid \<Rightarrow> hub_yank option" where
  "find_yank h yid = find (\<lambda>y. hy_id y = yid) (h_yanks h)"

definition new_yank :: "uuid \<Rightarrow> instant \<Rightarrow> principal \<Rightarrow> yank_create \<Rightarrow> hub_yank" where
  "new_yank yid now p b =
     (case compute_initial_state now (yc_severity b) of (state, resolution, resolved_at) \<Rightarrow>
       \<lparr>hy_id = yid, hy_kind = yc_kind b, hy_slug = yc_slug b, hy_version = yc_version b, hy_severity = yc_severity b,
        hy_reason = yc_reason b, hy_requested_by = requester_of p b, hy_token = p_token_id p, hy_state = state,
        hy_resolution = resolution, hy_resolved_at = resolved_at\<rparr>)"

definition yank_payload :: "hub_yank \<Rightarrow> json_dict" where
  "yank_payload y =
     [(''reason'', J_str (hy_reason y)), (''severity'', J_str (hy_severity y)), (''yank_id'', J_str (uuid_str (hy_id y)))]"

definition hub_create_yank :: "uuid \<Rightarrow> instant \<Rightarrow> principal \<Rightarrow> yank_create \<Rightarrow> hub \<Rightarrow> (hub_error, hub) result" where
  "hub_create_yank yid now p b h =
     (if yc_severity b \<notin> {''low'', ''medium'', ''critical''} then Inl Hub_unprocessable
      else if \<not> has_scope p ''yanks.write'' then Inl (Insufficient_scope ''yanks.write'')
      else (case find_item h (yc_kind b) (yc_slug b) of
        None \<Rightarrow> Inl Item_not_found
      | Some i \<Rightarrow>
          (let y = new_yank yid now p b; h1 = h\<lparr>h_yanks := h_yanks h @ [y]\<rparr>
           in if yc_version b \<in> {None, Some []}
              then (let h2 = h1\<lparr>h_versions := map (\<lambda>v. if hv_item v = hi_id i then flag_version now b v else v) (h_versions h1),
                               h_items := map (\<lambda>x. if hi_id x = hi_id i then x\<lparr>hi_active := False\<rparr> else x) (h_items h1)\<rparr>
                    in Inr (emit_change ''deactivate'' (yc_kind b) (yc_slug b) None (yank_payload y)
                              (emit_change ''yank'' (yc_kind b) (yc_slug b) (yc_version b) (yank_payload y) h2)))
              else (case find_version h (hi_id i) (the (yc_version b)) of
                      None \<Rightarrow> Inl Version_not_found
                    | Some v \<Rightarrow>
                        Inr (emit_change ''yank'' (yc_kind b) (yc_slug b) (yc_version b) (yank_payload y)
                          (h1\<lparr>h_versions := map (\<lambda>x. if hv_id x = hv_id v then flag_version now b x else x) (h_versions h1)\<rparr>))))))"

definition hub_appeal_yank :: "uuid \<Rightarrow> uuid \<Rightarrow> instant \<Rightarrow> principal \<Rightarrow> string \<Rightarrow> string option \<Rightarrow> hub \<Rightarrow> (hub_error, hub) result" where
  "hub_appeal_yank aid yid now p reason submitted_by h =
     (if \<not> has_scope p ''yanks.appeal'' then Inl (Insufficient_scope ''yanks.appeal'')
      else (case find_yank h yid of
        None \<Rightarrow> Inl Hub_yank_not_found
      | Some y \<Rightarrow>
          if \<not> appeal_can_resolve y (p_handle p) (p_token_id p) then Inl Cannot_self_appeal
          else (case decide_appeal now y (p_handle p) (p_token_id p) of
            ((a_state, a_decision), (state, resolution, resolved_at)) \<Rightarrow>
              Inr (emit_change ''yank'' (hy_kind y) (hy_slug y) (hy_version y) 
                   (yank_payload y @ [(''appeal_id'', J_str (uuid_str aid)), (''state'', J_str state)])
                (update_yank yid (\<lambda>y. y\<lparr>hy_state := state, hy_resolution := resolution, hy_resolved_at := resolved_at\<rparr>)
                  (h\<lparr>h_appeals := h_appeals h @
                      [\<lparr>ha_id = aid, ha_yank = yid, ha_submitted_by = (if submitted_by \<in> {None, Some []} then p_handle p else the submitted_by),
                        ha_reason = reason, ha_state = a_state, ha_decision = a_decision\<rparr>]\<rparr>))))))"

definition override_yank ::
  "uuid \<Rightarrow> instant \<Rightarrow> principal \<Rightarrow> string \<Rightarrow> string option \<Rightarrow> json \<Rightarrow> hub \<Rightarrow> (hub_error, hub) result" where
  "override_yank yid now p new_state resolution memo h =
     (if new_state \<notin> {''resolved'', ''open''} then Inl Hub_unprocessable
      else if \<not> has_scope p ''admin.write'' then Inl (Insufficient_scope ''admin.write'')
      else (case find_yank h yid of
        None \<Rightarrow> Inl Hub_yank_not_found
      | Some y \<Rightarrow>
          Inr (emit_change ''yank'' (hy_kind y) (hy_slug y) (hy_version y)
                 (yank_payload y @ [(''state'', J_str new_state), (''admin_override'', J_bool True),
                   (''admin_handle'', J_str (p_handle p)), (''note'', memo)])
                 (update_yank yid (\<lambda>y. y\<lparr>hy_state := new_state,
                     hy_resolution := (if resolution \<notin> {None, Some []} then resolution
                                       else if new_state = ''resolved'' then Some ''admin_override'' else None),
                     hy_resolved_at := (if new_state = ''resolved'' then Some now else None)\<rparr>) h))))"

section \<open>Runs\<close>

datatype hub_op =
    Publish "uuid \<times> uuid \<times> uuid" string publish_request
  | Publish_version "uuid \<times> uuid \<times> uuid" string string string publish_request
  | Withdraw uuid
  | Advance uuid
  | Finalize uuid string "string option"
  | Force_approve uuid "string option" bool
  | Force_reject uuid string
  | Create_yank uuid yank_create
  | Appeal_yank uuid uuid string "string option"
  | Override_yank uuid string "string option" json

record hub_env =
  he_sha :: "string \<Rightarrow> string"
  he_b64 :: "string \<Rightarrow> string option"

fun hub_route :: "hub_env \<Rightarrow> instant \<Rightarrow> principal \<Rightarrow> hub_op \<Rightarrow> hub \<Rightarrow> (hub_error, hub) result" where
  "hub_route env now p (Publish ids kind rq) h = publish_kind (he_sha env) (he_b64 env) ids p kind rq h"
| "hub_route env now p (Publish_version ids kind slug version rq) h =
     publish_version (he_sha env) (he_b64 env) ids p kind slug version rq h"
| "hub_route env now p (Withdraw sid) h = hub_withdraw p sid h"
| "hub_route env now p (Advance sid) h = hub_advance p sid h"
| "hub_route env now p (Finalize sid decision reason) h = hub_finalize_route p sid decision reason h"
| "hub_route env now p (Force_approve sid reason skip) h = force_approve p sid reason skip h"
| "hub_route env now p (Force_reject sid reason) h = force_reject p sid reason h"
| "hub_route env now p (Create_yank yid b) h = hub_create_yank yid now p b h"
| "hub_route env now p (Appeal_yank aid yid reason by) h = hub_appeal_yank aid yid now p reason by h"
| "hub_route env now p (Override_yank yid state resolution memo) h = override_yank yid now p state resolution memo h"

type_synonym hub_request = "instant \<times> principal \<times> hub_op"

fun hub_step :: "hub_env \<Rightarrow> hub \<Rightarrow> hub_request \<Rightarrow> hub" where
  "hub_step env h (now, p, op) = (case hub_route env now p op h of Inl e \<Rightarrow> h | Inr h' \<Rightarrow> h')"

abbreviation hub_run :: "hub_env \<Rightarrow> hub \<Rightarrow> hub_request list \<Rightarrow> hub" where
  "hub_run env \<equiv> foldl (hub_step env)"

section \<open>How submissions move\<close>

subsection \<open>Rows\<close>

lemma load_submission_id: "load_submission h sid = Inr s \<Longrightarrow> hs_id s = sid"
  by (auto simp: load_submission_def split: option.splits dest: find_SomeD)

lemma find_map_row:
  "(\<And>s. hs_id (f s) = hs_id s) \<Longrightarrow>
     find (\<lambda>s. hs_id s = k) (map (\<lambda>s. if hs_id s = sid then f s else s) xs) =
       (if k = sid then map_option f (find (\<lambda>s. hs_id s = k) xs) else find (\<lambda>s. hs_id s = k) xs)"
  by (induction xs) auto

lemma load_update:
  assumes "\<And>s. hs_id (f s) = hs_id s"
  shows "load_submission (update_submission sid f h) k =
    (if k = sid then (case load_submission h sid of Inl e \<Rightarrow> Inl e | Inr s \<Rightarrow> Inr (f s)) else load_submission h k)"
  using assms by (simp add: load_submission_def update_submission_def find_map_row split: option.splits)

lemma load_check [simp]: "load_submission (hub_record_check sid st n status h) k = load_submission h k"
  by (simp add: load_submission_def hub_record_check_def)

lemma load_checks [simp]: "load_submission (fold (\<lambda>(n, status). hub_record_check sid st n status) rs h) k = load_submission h k"
  by (induction rs arbitrary: h) auto

lemma enter_stage_simps [simp]:
  "hs_id (enter_stage to r s) = hs_id s" "hs_stage (enter_stage to r s) = to"
  "hs_state (enter_stage to r s) = the (map_of stage_to_state to)"
  "hs_kind (enter_stage to r s) = hs_kind s" "hs_slug (enter_stage to r s) = hs_slug s"
  "hs_manifest (enter_stage to r s) = hs_manifest s" "hs_sha (enter_stage to r s) = hs_sha s"
  "hs_size (enter_stage to r s) = hs_size s"
  by (simp_all add: enter_stage_def Let_def)

lemma load_enter [simp]:
  "load_submission (update_submission sid (enter_stage to r) h) k =
    (if k = sid then (case load_submission h sid of Inl e \<Rightarrow> Inl e | Inr s \<Rightarrow> Inr (enter_stage to r s)) else load_submission h k)"
  by (rule load_update) simp

lemma stage1_results_enter [simp]: "stage1_results (enter_stage to r s) = stage1_results s"
  by (simp add: stage1_results_def)

lemma stage2_enter [simp]:
  "stage2_skipped (enter_stage to r s) = stage2_skipped s" "stage2_passed (enter_stage to r s) = stage2_passed s"
  by (simp_all add: stage2_skipped_def stage2_passed_def)

lemmas stage_defs = hub_assert_valid_def hub_transitions_def terminal_stages_def

lemma hub_advance_ok:
  "load_submission h sid = Inr s \<Longrightarrow> hs_stage s \<notin> set terminal_stages \<Longrightarrow> hub_assert_valid (hs_stage s) to \<Longrightarrow>
     hub_advance_stage sid to r h = Inr (update_submission sid (enter_stage to r) h)"
  by (simp add: hub_advance_stage_def)

lemma hub_advance_Inr:
  assumes "hub_advance_stage sid to r h = Inr h'"
  obtains s where "load_submission h sid = Inr s" "hs_stage s \<notin> set terminal_stages"
    "hub_assert_valid (hs_stage s) to" "h' = update_submission sid (enter_stage to r) h"
  using assms by (auto simp: hub_advance_stage_def and_then_Inr split: if_splits)

subsection \<open>One submission at a time\<close>

text \<open>A write about one submission: the others stay, the recorded checks and the yanks stay.\<close>

definition touches :: "uuid \<Rightarrow> hub \<Rightarrow> hub \<Rightarrow> bool" where
  "touches sid h h' \<longleftrightarrow>
     (\<forall>k. k \<noteq> sid \<longrightarrow> load_submission h' k = load_submission h k) \<and> set (h_checks h) \<subseteq> set (h_checks h')
     \<and> h_yanks h' = h_yanks h"

lemma touches_refl [simp]: "touches sid h h"
  by (simp add: touches_def)

lemma touches_trans [trans]: "touches sid a b \<Longrightarrow> touches sid b c \<Longrightarrow> touches sid a c"
  by (auto simp: touches_def)

lemma touches_check: "touches sid a b \<Longrightarrow> touches sid a (hub_record_check sid' st n status b)"
  by (auto simp: touches_def) (auto simp: hub_record_check_def)

lemma touches_checks: "touches sid a b \<Longrightarrow> touches sid a (fold (\<lambda>(n, status). hub_record_check sid' st n status) rs b)"
  by (induction rs arbitrary: b) (auto intro: touches_check)

lemma h_checks_update [simp]:
  "h_checks (update_submission sid f h) = h_checks h" "h_yanks (update_submission sid f h) = h_yanks h"
  by (simp_all add: update_submission_def)

lemma touches_update:
  "touches sid a b \<Longrightarrow> (\<And>s. hs_id (f s) = hs_id s) \<Longrightarrow> touches sid a (update_submission sid f b)"
  by (simp add: touches_def load_update)

lemma touches_advance: "hub_advance_stage sid to r b = Inr c \<Longrightarrow> touches sid a b \<Longrightarrow> touches sid a c"
  by (elim hub_advance_Inr) (simp add: touches_update)

lemma touches_scan: "run_stage1_scan sid b = Inr (c, t) \<Longrightarrow> touches sid a b \<Longrightarrow> touches sid a c"
  by (auto simp: run_stage1_scan_def and_then_Inr Let_def split: if_splits intro: touches_advance touches_checks)

lemma touches_eval: "run_stage2_eval sid b = Inr (c, t) \<Longrightarrow> touches sid a b \<Longrightarrow> touches sid a c"
  by (auto simp: run_stage2_eval_def and_then_Inr split: if_splits intro: touches_advance touches_check)

lemma touches_finalize: "hub_finalize sid d r b = Inr c \<Longrightarrow> touches sid a b \<Longrightarrow> touches sid a c"
  by (auto simp: hub_finalize_def and_then_Inr split: if_splits intro: touches_advance)

lemma touches_walk: "walk_to_stage3 sid ss b = Inr c \<Longrightarrow> touches sid a b \<Longrightarrow> touches sid a c"
proof (induction ss arbitrary: b)
  case (Cons st ss)
  from Cons.prems(1) obtain s where s: "load_submission b sid = Inr s" by (auto simp: and_then_Inr)
  show ?case
  proof (cases "hs_stage s = st")
    case True
    with Cons s show ?thesis by simp
  next
    case False
    show ?thesis
    proof (cases "hub_advance_stage sid st None b")
      case (Inl e)
      with Cons.prems(1) s False have "walk_to_stage3 sid ss b = Inr c" by (cases e) simp_all
      then show ?thesis using Cons.IH Cons.prems(2) by blast
    next
      case (Inr b1)
      with Cons.prems(1) s False have "walk_to_stage3 sid ss b1 = Inr c" by simp
      then show ?thesis using Cons.IH touches_advance[OF Inr Cons.prems(2)] by blast
    qed
  qed
qed simp

lemma touches_intake: "stage0_intake sha sid bytes b = Inr (c, go) \<Longrightarrow> touches sid a b \<Longrightarrow> touches sid a c"
  by (auto simp: stage0_intake_def and_then_Inr Let_def split: option.splits if_splits
      intro!: touches_check touches_update intro: touches_advance)

abbreviation reset_stage :: "uuid \<Rightarrow> hub \<Rightarrow> hub" where
  "reset_stage sid \<equiv> update_submission sid (\<lambda>s. s\<lparr>hs_stage := ''stage0'', hs_state := ''stage0_received''\<rparr>)"

text \<open>Where the pipeline can stop.\<close>

lemma pipeline_cases:
  assumes run: "run_intake_and_pipeline sha sid bytes b = Inr c"
  obtains (intake) "stage0_intake sha sid bytes (reset_stage sid b) = Inr (c, False)"
  | (scan) h0 h1 where "stage0_intake sha sid bytes (reset_stage sid b) = Inr (h0, True)"
      "hub_advance_stage sid ''stage1'' None h0 = Inr h1" "run_stage1_scan sid h1 = Inr (c, ''rejected'')"
  | (eval) h0 h1 h2 st where "stage0_intake sha sid bytes (reset_stage sid b) = Inr (h0, True)"
      "hub_advance_stage sid ''stage1'' None h0 = Inr h1" "run_stage1_scan sid h1 = Inr (h2, st)"
      "run_stage2_eval sid h2 = Inr (c, ''rejected'')"
  | (final) h0 h1 h2 st h3 st' where "stage0_intake sha sid bytes (reset_stage sid b) = Inr (h0, True)"
      "hub_advance_stage sid ''stage1'' None h0 = Inr h1" "run_stage1_scan sid h1 = Inr (h2, st)"
      "run_stage2_eval sid h2 = Inr (h3, st')"
      "hub_finalize sid ''approved'' (Some ''auto_approved'')
         (hub_record_check sid ''stage3'' ''reviewer_assignment'' ''passed'' h3) = Inr c"
proof -
  from run obtain h0 go where 0: "stage0_intake sha sid bytes (reset_stage sid b) = Inr (h0, go)"
    by (auto simp: run_intake_and_pipeline_def and_then_Inr)
  show ?thesis
  proof (cases go)
    case False
    with run 0 intake show ?thesis by (simp add: run_intake_and_pipeline_def)
  next
    case True
    with run 0 obtain h1 h2 st where 1: "hub_advance_stage sid ''stage1'' None h0 = Inr h1"
      "run_stage1_scan sid h1 = Inr (h2, st)"
      by (auto simp: run_intake_and_pipeline_def and_then_Inr)
    show ?thesis
    proof (cases "st = ''rejected''")
      case True
      with run 0 1 \<open>go\<close> scan show ?thesis by (simp add: run_intake_and_pipeline_def)
    next
      case False
      with run 0 1 \<open>go\<close> obtain h3 st' where 3: "run_stage2_eval sid h2 = Inr (h3, st')"
        by (auto simp: run_intake_and_pipeline_def and_then_Inr)
      show ?thesis
      proof (cases "st' = ''rejected''")
        case True
        with run 0 1 3 \<open>go\<close> False eval show ?thesis by (simp add: run_intake_and_pipeline_def)
      next
        case no: False
        with run 0 1 3 \<open>go\<close> False final show ?thesis by (simp add: run_intake_and_pipeline_def)
      qed
    qed
  qed
qed

lemma touches_pipeline:
  assumes "run_intake_and_pipeline sha sid bytes b = Inr c" "touches sid a b"
  shows "touches sid a c"
proof -
  have t: "touches sid a (reset_stage sid b)"
    using assms(2) by (rule touches_update) simp
  from assms(1) show ?thesis
  proof (cases rule: pipeline_cases)
    case intake
    with t show ?thesis by (rule touches_intake[rotated])
  next
    case (scan h0 h1)
    with t show ?thesis by (blast intro: touches_scan touches_advance touches_intake)
  next
    case (eval h0 h1 h2 st)
    with t show ?thesis by (blast intro: touches_eval touches_scan touches_advance touches_intake)
  next
    case (final h0 h1 h2 st h3 st')
    have "touches sid a h3"
      using touches_eval[OF final(4) touches_scan[OF final(3) touches_advance[OF final(2) touches_intake[OF final(1) t]]]] .
    with final(5) show ?thesis by (intro touches_finalize[OF final(5)] touches_check)
  qed
qed

lemma load_catalog:
  "load_submission (h\<lparr>h_items := i\<rparr>) k = load_submission h k" "load_submission (h\<lparr>h_versions := v\<rparr>) k = load_submission h k"
  "load_submission (h\<lparr>h_bundles := b\<rparr>) k = load_submission h k" "load_submission (h\<lparr>h_yanks := y\<rparr>) k = load_submission h k"
  "load_submission (h\<lparr>h_appeals := a\<rparr>) k = load_submission h k" "load_submission (h\<lparr>h_changes := c\<rparr>) k = load_submission h k"
  by (simp_all add: load_submission_def)

lemma load_emit [simp]: "load_submission (emit_change op kind slug v pl h) k = load_submission h k"
  by (simp add: emit_change_def load_catalog)

lemma load_upserts:
  "load_submission (fst (upsert_item n kind rq h)) k = load_submission h k"
  "load_submission (fst (upsert_version n i rq h)) k = load_submission h k"
  "load_submission (upsert_bundle sha v bytes h) k = load_submission h k"
  by (simp_all add: upsert_item_def upsert_version_def upsert_bundle_def load_catalog split: option.splits)

lemma checks_upserts:
  "h_checks (fst (upsert_item n kind rq h)) = h_checks h" "h_checks (fst (upsert_version n i rq h)) = h_checks h"
  "h_checks (upsert_bundle sha v bytes h) = h_checks h" "h_checks (emit_change op kind slug v' pl h) = h_checks h"
  "h_yanks (fst (upsert_item n kind rq h)) = h_yanks h" "h_yanks (fst (upsert_version n i rq h)) = h_yanks h"
  "h_yanks (upsert_bundle sha v bytes h) = h_yanks h" "h_yanks (emit_change op kind slug v' pl h) = h_yanks h"
  by (simp_all add: upsert_item_def upsert_version_def upsert_bundle_def emit_change_def split: option.splits)

lemma load_materialise:
  obtains iv where
    "\<And>k. load_submission (materialise_item sha sid ni nv kind rq bytes h) k =
       (if k = sid then (case load_submission h sid of Inl e \<Rightarrow> Inl e | Inr s \<Rightarrow> Inr (s\<lparr>hs_item_version := Some iv\<rparr>))
        else load_submission h k)"
    "h_checks (materialise_item sha sid ni nv kind rq bytes h) = h_checks h
     \<and> h_yanks (materialise_item sha sid ni nv kind rq bytes h) = h_yanks h"
proof -
  obtain h1 iid where i: "upsert_item ni kind rq h = (h1, iid)" by fastforce
  obtain h2 vid where v: "upsert_version nv iid rq h1 = (h2, vid)" by fastforce
  have 1: "load_submission h1 k = load_submission h k" "h_checks h1 = h_checks h" "h_yanks h1 = h_yanks h" for k
    using load_upserts(1)[of ni kind rq h k] checks_upserts(1,5)[of ni kind rq h] i by simp_all
  have 2: "load_submission h2 k = load_submission h k" "h_checks h2 = h_checks h" "h_yanks h2 = h_yanks h" for k
    using load_upserts(2)[of nv iid rq h1 k] checks_upserts(2,6)[of nv iid rq h1] v 1 by simp_all
  define h3 where "h3 = upsert_bundle sha vid bytes
    (h2\<lparr>h_items := map (\<lambda>x. if hi_id x = iid then x\<lparr>hi_latest := Some (pq_version rq, vid)\<rparr> else x) (h_items h2)\<rparr>)"
  have 3: "load_submission h3 k = load_submission h k" "h_checks h3 = h_checks h" "h_yanks h3 = h_yanks h" for k
    by (simp_all add: h3_def load_upserts load_catalog checks_upserts 2)
  have m: "materialise_item sha sid ni nv kind rq bytes h = update_submission sid (\<lambda>s. s\<lparr>hs_item_version := Some (iid, vid)\<rparr>) h3"
    by (simp add: materialise_item_def i v h3_def)
  show ?thesis
  proof (rule that)
    show "load_submission (materialise_item sha sid ni nv kind rq bytes h) k =
       (if k = sid then (case load_submission h sid of Inl e \<Rightarrow> Inl e | Inr s \<Rightarrow> Inr (s\<lparr>hs_item_version := Some (iid, vid)\<rparr>))
        else load_submission h k)" for k
      unfolding m by (subst load_update) (simp_all add: 3)
    show "h_checks (materialise_item sha sid ni nv kind rq bytes h) = h_checks h
      \<and> h_yanks (materialise_item sha sid ni nv kind rq bytes h) = h_yanks h" by (simp add: m 3)
  qed
qed

subsection \<open>What a submission has been through\<close>

definition stage1_checks :: "string list" where
  "stage1_checks = [''slug_format'', ''manifest_shape'', ''features_supported'', ''disclosure_present'',
     ''billing_dims_have_payer'', ''bundle_metadata'']"

definition cleared :: "hub \<Rightarrow> uuid \<Rightarrow> string \<Rightarrow> string \<Rightarrow> bool" where
  "cleared h sid stage name \<longleftrightarrow> (\<exists>c \<in> set (h_checks h). hc_submission c = sid \<and> hc_stage c = stage \<and> hc_name c = name
     \<and> \<not> bad_status (hc_status c))"

definition overridden :: "hub \<Rightarrow> uuid \<Rightarrow> bool" where
  "overridden h sid \<longleftrightarrow> cleared h sid ''stage3'' ''admin_override_approve''"

definition checked :: "hub \<Rightarrow> uuid \<Rightarrow> bool" where
  "checked h sid \<longleftrightarrow> (\<forall>s. load_submission h sid = Inr s \<longrightarrow>
     (hs_stage s \<in> {''stage2'', ''stage3'', ''approved''} \<longrightarrow>
        overridden h sid \<or> (\<forall>n \<in> set stage1_checks. cleared h sid ''stage1'' n))
     \<and> (hs_stage s \<in> {''stage3'', ''approved''} \<longrightarrow> overridden h sid \<or> cleared h sid ''stage2'' ''adversarial_score''))"

lemma cleared_mono: "cleared h sid st n \<Longrightarrow> set (h_checks h) \<subseteq> set (h_checks h') \<Longrightarrow> cleared h' sid st n"
  unfolding cleared_def by blast

lemma checked_mono:
  "checked h k \<Longrightarrow> load_submission h' k = load_submission h k \<Longrightarrow> set (h_checks h) \<subseteq> set (h_checks h') \<Longrightarrow> checked h' k"
  using cleared_mono[of h k _ _ h'] unfolding checked_def overridden_def by auto

lemma set_checks_record: "set (h_checks (hub_record_check sid st n status h)) =
    insert \<lparr>hc_submission = sid, hc_stage = st, hc_name = n, hc_status = status\<rparr> (set (h_checks h))"
  by (auto simp: hub_record_check_def)

lemma set_checks_fold: "set (h_checks (fold (\<lambda>(n, status). hub_record_check sid st n status) rs h)) =
    set (h_checks h) \<union> (\<lambda>(n, status). \<lparr>hc_submission = sid, hc_stage = st, hc_name = n, hc_status = status\<rparr>) ` set rs"
  by (induction rs arbitrary: h) (auto simp: set_checks_record)

lemma cleared_record: "\<not> bad_status status \<Longrightarrow> cleared (hub_record_check sid st n status h) sid st n"
  by (simp add: cleared_def set_checks_record)

lemma cleared_update [simp]: "cleared (update_submission k f h) sid st n = cleared h sid st n"
  by (simp add: cleared_def)

lemma overridden_update [simp]: "overridden (update_submission k f h) sid = overridden h sid"
  by (simp add: overridden_def)

lemma checked_record: "checked h k \<Longrightarrow> checked (hub_record_check sid st n status h) k"
  by (rule checked_mono) (auto simp: set_checks_record)

text \<open>Only the scanner, the evaluation and the override lead to the later stages.\<close>

lemma advance_checked:
  assumes "hub_advance_stage sid to r h = Inr h'" "checked h sid" "to \<notin> {''stage2'', ''stage3''}"
  shows "checked h' sid"
proof -
  from assms(1) obtain s where s: "load_submission h sid = Inr s" "hub_assert_valid (hs_stage s) to"
    and h': "h' = update_submission sid (enter_stage to r) h" by (rule hub_advance_Inr)
  have "hs_stage s = ''stage3''" if "to = ''approved''"
    using s(2) that by (auto simp: stage_defs split: if_splits)
  with assms(2,3) s(1) h' show ?thesis
    by (cases "to = ''approved''") (auto simp: checked_def)
qed

lemma stage1_results_names: "map fst (stage1_results s) = stage1_checks"
  by (simp add: stage1_results_def stage1_checks_def)

lemma scan_checked:
  assumes "run_stage1_scan sid h = Inr (h', t)"
  shows "checked h' sid"
proof -
  obtain s where s: "load_submission h sid = Inr s" using assms by (auto simp: run_stage1_scan_def and_then_Inr)
  define h1 where "h1 = fold (\<lambda>(n, status). hub_record_check sid ''stage1'' n status) (stage1_results s) h"
  show ?thesis
  proof (cases "list_ex (\<lambda>(n, status). bad_status status) (stage1_results s)")
    case True
    then obtain r where "hub_advance_stage sid ''rejected'' r h1 = Inr h'"
      using assms s by (auto simp: run_stage1_scan_def and_then_Inr Let_def h1_def)
    then obtain x where "load_submission h1 sid = Inr x" "h' = update_submission sid (enter_stage ''rejected'' r) h1"
      by (rule hub_advance_Inr)
    then show ?thesis by (simp add: checked_def)
  next
    case False
    then have "hub_advance_stage sid ''stage2'' None h1 = Inr h'"
      using assms s by (auto simp: run_stage1_scan_def and_then_Inr Let_def h1_def)
    then obtain x where x: "load_submission h1 sid = Inr x" "h' = update_submission sid (enter_stage ''stage2'' None) h1"
      by (rule hub_advance_Inr)
    have "cleared h1 sid ''stage1'' n" if "n \<in> set stage1_checks" for n
    proof -
      from that obtain status where st: "(n, status) \<in> set (stage1_results s)"
        unfolding stage1_results_names[of s, symmetric] by auto
      with False have "\<not> bad_status status" by (auto simp: list_ex_iff)
      with st show ?thesis unfolding cleared_def h1_def set_checks_fold by force
    qed
    with x show ?thesis by (simp add: checked_def)
  qed
qed

lemma eval_checked:
  assumes "run_stage2_eval sid h = Inr (h', t)" "checked h sid"
  shows "checked h' sid"
proof -
  obtain s where s: "load_submission h sid = Inr s" using assms(1) by (auto simp: run_stage2_eval_def and_then_Inr)
  obtain status to r where adv: "hub_advance_stage sid to r (hub_record_check sid ''stage2'' ''adversarial_score'' status h) = Inr h'"
    and ok: "to = ''rejected'' \<or> to = ''stage3'' \<and> \<not> bad_status status"
    using assms(1) s by (auto simp: run_stage2_eval_def and_then_Inr bad_status_def split: if_splits)
  from adv obtain x where x: "load_submission h sid = Inr x" "hub_assert_valid (hs_stage x) to"
    "h' = update_submission sid (enter_stage to r) (hub_record_check sid ''stage2'' ''adversarial_score'' status h)"
    by (auto elim: hub_advance_Inr)
  show ?thesis
  proof (cases "to = ''rejected''")
    case True
    with x show ?thesis by (simp add: checked_def)
  next
    case False
    with ok have to: "to = ''stage3''" and good: "\<not> bad_status status" by auto
    have "hs_stage x = ''stage2''" using x(2) to by (auto simp: stage_defs split: if_splits)
    with checked_record[OF assms(2), of sid "''stage2''" "''adversarial_score''" status] x(1)
    have "overridden (hub_record_check sid ''stage2'' ''adversarial_score'' status h) sid
        \<or> (\<forall>n \<in> set stage1_checks. cleared (hub_record_check sid ''stage2'' ''adversarial_score'' status h) sid ''stage1'' n)"
      by (simp add: checked_def)
    with cleared_record[OF good, of sid "''stage2''" "''adversarial_score''" h] x(1) show ?thesis
      by (simp add: x(3) to checked_def)
  qed
qed

lemma finalize_checked: "hub_finalize sid d r h = Inr h' \<Longrightarrow> checked h sid \<Longrightarrow> checked h' sid"
  by (auto simp: hub_finalize_def and_then_Inr terminal_stages_def split: if_splits intro: advance_checked)


lemma checked_early:
  "load_submission h sid = Inr s \<Longrightarrow> hs_stage s \<notin> {''stage2'', ''stage3'', ''approved''} \<Longrightarrow> checked h sid"
  by (simp add: checked_def)

lemma intake_stage:
  assumes "stage0_intake sha sid bytes h = Inr (h', go)" "load_submission h sid = Inr s"
  shows "\<exists>s'. load_submission h' sid = Inr s' \<and> hs_stage s' = (if go then hs_stage s else ''rejected'')"
proof -
  have sz: "load_submission (update_submission sid (\<lambda>s. s\<lparr>hs_sha := a, hs_size := b\<rparr>) x) k =
      (if k = sid then (case load_submission x sid of Inl e \<Rightarrow> Inl e | Inr s \<Rightarrow> Inr (s\<lparr>hs_sha := a, hs_size := b\<rparr>))
       else load_submission x k)" for a b x k
    by (rule load_update) simp
  show ?thesis
    using assms by (auto simp: stage0_intake_def and_then_Inr Let_def sz split: option.splits if_splits elim!: hub_advance_Inr)
qed

lemma load_reset:
  "load_submission b sid = Inr s \<Longrightarrow>
     load_submission (reset_stage sid b) sid = Inr (s\<lparr>hs_stage := ''stage0'', hs_state := ''stage0_received''\<rparr>)"
  by (subst load_update) simp_all

lemma pipeline_checked:
  assumes run: "run_intake_and_pipeline sha sid bytes h = Inr h'" and s: "load_submission h sid = Inr s"
  shows "checked h' sid"
  using run
proof (cases rule: pipeline_cases)
  case intake
  from intake_stage[OF this load_reset[OF s]] show ?thesis by (auto intro: checked_early)
next
  case (scan h0 h1)
  from scan(3) show ?thesis by (rule scan_checked)
next
  case (eval h0 h1 h2 st)
  from eval(4) scan_checked[OF eval(3)] show ?thesis by (rule eval_checked)
next
  case (final h0 h1 h2 st h3 st')
  from final(5) show ?thesis
    by (rule finalize_checked) (rule checked_record[OF eval_checked[OF final(4) scan_checked[OF final(3)]]])
qed

subsection \<open>What a request does to a submission\<close>

text \<open>The submission a request is about.\<close>

fun about :: "hub_op \<Rightarrow> uuid option" where
  "about (Publish ids kind rq) = Some (fst ids)"
| "about (Publish_version ids kind slug version rq) = Some (fst ids)"
| "about (Withdraw sid) = Some sid"
| "about (Advance sid) = Some sid"
| "about (Finalize sid decision reason) = Some sid"
| "about (Force_approve sid reason skip) = Some sid"
| "about (Force_reject sid reason) = Some sid"
| "about (Create_yank yid b) = None"
| "about (Appeal_yank aid yid reason by) = None"
| "about (Override_yank yid state resolution memo) = None"

fun creates :: "hub_op \<Rightarrow> bool" where
  "creates (Publish ids kind rq) \<longleftrightarrow> True"
| "creates (Publish_version ids kind slug version rq) \<longleftrightarrow> True"
| "creates op \<longleftrightarrow> False"

text \<open>Identifiers are new: of submissions, and of yanks.\<close>

fun new_ids :: "hub_op \<Rightarrow> hub \<Rightarrow> bool" where
  "new_ids (Publish ids kind rq) h \<longleftrightarrow> fst ids \<notin> hs_id ` set (h_submissions h)"
| "new_ids (Publish_version ids kind slug version rq) h \<longleftrightarrow> fst ids \<notin> hs_id ` set (h_submissions h)"
| "new_ids (Create_yank yid b) h \<longleftrightarrow> yid \<notin> hy_id ` set (h_yanks h)"
| "new_ids op h \<longleftrightarrow> True"

lemma load_append:
  assumes "hs_id s \<notin> hs_id ` set (h_submissions h)"
  shows "load_submission (h\<lparr>h_submissions := h_submissions h @ [s]\<rparr>) k =
    (if k = hs_id s then Inr s else load_submission h k)"
proof -
  have "find (\<lambda>x. hs_id x = hs_id s) (h_submissions h) = None"
    using assms unfolding find_None_iff image_iff by auto
  then show ?thesis by (auto simp: load_submission_def find_append split: option.splits)
qed

text \<open>Publishing, in steps.\<close>

lemma publish_cases:
  assumes run: "publish_kind sha b64 (sid, ni, nv) p kind rq h = Inr h'"
    and new: "sid \<notin> hs_id ` set (h_submissions h)"
  obtains bytes h0 h1 s where
    "h0 = h\<lparr>h_submissions := h_submissions h @ [new_submission sid kind rq p]\<rparr>"
    "\<And>k. load_submission h0 k = (if k = sid then Inr (new_submission sid kind rq p) else load_submission h k)"
    "run_intake_and_pipeline sha sid bytes h0 = Inr h1" "load_submission h1 sid = Inr s"
    "hs_state s \<noteq> ''approved'' \<and> h' = h1 \<or> hs_state s = ''approved'' \<and> (\<exists>published.
       h' = emit_change ''upsert'' kind (pq_slug rq) (Some (pq_version rq)) (upsert_payload rq published)
              (materialise_item sha sid ni nv kind rq bytes h1))"
proof -
  have id: "hs_id (new_submission sid kind rq p) = sid" by (simp add: new_submission_def)
  have l: "load_submission (h\<lparr>h_submissions := h_submissions h @ [new_submission sid kind rq p]\<rparr>) k =
      (if k = sid then Inr (new_submission sid kind rq p) else load_submission h k)" for k
    using load_append[of "new_submission sid kind rq p" h k] new by (simp add: id)
  from run obtain bytes h1 s where
    "run_intake_and_pipeline sha sid bytes (h\<lparr>h_submissions := h_submissions h @ [new_submission sid kind rq p]\<rparr>) = Inr h1"
    "load_submission h1 sid = Inr s"
    "h' = (if hs_state s = ''approved''
           then (let h2 = materialise_item sha sid ni nv kind rq bytes h1;
                     published = (case find_item h2 kind (pq_slug rq) of None \<Rightarrow> True | Some i \<Rightarrow> hi_published i)
                 in emit_change ''upsert'' kind (pq_slug rq) (Some (pq_version rq)) (upsert_payload rq published) h2)
           else h1)"
    by (auto simp: publish_kind_def and_then_Inr split: if_splits)
  with that[OF refl l, of bytes h1 s] show ?thesis by (auto simp: Let_def split: if_splits)
qed

lemma publish_touches:
  assumes "publish_kind sha b64 ids p kind rq h = Inr h'" "fst ids \<notin> hs_id ` set (h_submissions h)"
  shows "touches (fst ids) h h'" "checked h' (fst ids)"
proof -
  obtain sid ni nv where ids: "ids = (sid, ni, nv)" by (metis prod_cases3)
  have run: "publish_kind sha b64 (sid, ni, nv) p kind rq h = Inr h'" and new: "sid \<notin> hs_id ` set (h_submissions h)"
    using assms by (simp_all add: ids)
  obtain bytes h0 h1 s where h0: "h0 = h\<lparr>h_submissions := h_submissions h @ [new_submission sid kind rq p]\<rparr>"
    "\<And>k. load_submission h0 k = (if k = sid then Inr (new_submission sid kind rq p) else load_submission h k)"
    and pipe: "run_intake_and_pipeline sha sid bytes h0 = Inr h1" and "load_submission h1 sid = Inr s"
    and fin: "hs_state s \<noteq> ''approved'' \<and> h' = h1 \<or> hs_state s = ''approved'' \<and> (\<exists>published.
       h' = emit_change ''upsert'' kind (pq_slug rq) (Some (pq_version rq)) (upsert_payload rq published)
              (materialise_item sha sid ni nv kind rq bytes h1))"
    by (rule publish_cases[OF run new], rule that, assumption+)
  have "touches sid h h0" using h0 by (simp add: touches_def)
  with pipe have t1: "touches sid h h1" by (rule touches_pipeline)
  have c1: "checked h1 sid" by (rule pipeline_checked[OF pipe]) (simp add: h0(2))
  obtain iv where m: "\<And>k. load_submission (materialise_item sha sid ni nv kind rq bytes h1) k =
       (if k = sid then (case load_submission h1 sid of Inl e \<Rightarrow> Inl e | Inr s \<Rightarrow> Inr (s\<lparr>hs_item_version := Some iv\<rparr>))
        else load_submission h1 k)"
    "h_checks (materialise_item sha sid ni nv kind rq bytes h1) = h_checks h1
     \<and> h_yanks (materialise_item sha sid ni nv kind rq bytes h1) = h_yanks h1"
    by (rule load_materialise[of sha sid ni nv kind rq bytes h1], rule that, assumption+)
  have "touches sid h (emit_change ''upsert'' kind (pq_slug rq) v pl (materialise_item sha sid ni nv kind rq bytes h1))" for v pl
    using t1 m by (simp add: touches_def checks_upserts)
  with fin t1 show "touches (fst ids) h h'" by (auto simp: ids)
  have "checked (emit_change ''upsert'' kind (pq_slug rq) v pl (materialise_item sha sid ni nv kind rq bytes h1)) sid" for v pl
    using c1 m by (cases "load_submission h1 sid") (simp_all add: checked_def overridden_def cleared_def checks_upserts)
  with fin c1 show "checked h' (fst ids)" by (auto simp: ids)
qed

lemma publish_version_kind:
  "publish_version sha b64 ids p kind slug version rq h = Inr h' \<Longrightarrow> publish_kind sha b64 ids p kind rq h = Inr h'"
  by (auto simp: publish_version_def split: if_splits)

lemma touches_withdraw: "hub_withdraw p sid h = Inr h' \<Longrightarrow> touches sid h h'"
  by (auto simp: hub_withdraw_def and_then_Inr split: if_splits intro: touches_advance)

lemma touches_hub_advance: "hub_advance p sid h = Inr h' \<Longrightarrow> touches sid h h'"
  by (auto simp: hub_advance_def and_then_Inr split: if_splits intro: touches_advance touches_scan touches_eval)

lemma touches_finalize_route: "hub_finalize_route p sid d r h = Inr h' \<Longrightarrow> touches sid h h'"
  by (auto simp: hub_finalize_route_def and_then_Inr split: if_splits intro: touches_finalize)

lemma force_approve_cases:
  assumes "force_approve p sid r skip h = Inr h'"
  obtains h1 r' where "walk_to_stage3 sid (if skip then [''stage1'', ''stage2'', ''stage3''] else []) h = Inr h1"
    "hub_finalize sid ''approved'' r' (hub_record_check sid ''stage3'' ''admin_override_approve'' ''passed'' h1) = Inr h'"
    "has_scope p ''admin.write''"
  using assms by (cases skip) (auto simp: force_approve_def and_then_Inr simp del: walk_to_stage3.simps(2) split: if_splits)

lemma touches_force_approve: "force_approve p sid r skip h = Inr h' \<Longrightarrow> touches sid h h'"
  by (erule force_approve_cases, erule touches_finalize, rule touches_check, erule touches_walk, rule touches_refl)

lemma touches_force_reject: "force_reject p sid r h = Inr h' \<Longrightarrow> touches sid h h'"
  by (auto simp: force_reject_def and_then_Inr split: if_splits
      intro: touches_finalize[OF _ touches_check[OF touches_refl]])

lemma route_touches:
  "hub_route env now p op h = Inr h' \<Longrightarrow> new_ids op h \<Longrightarrow> about op = Some sid \<Longrightarrow> touches sid h h'"
  by (cases op)
    (auto intro: publish_touches(1) dest: publish_version_kind touches_withdraw touches_hub_advance
      touches_finalize_route touches_force_approve touches_force_reject)

lemma route_no_submission:
  "hub_route env now p op h = Inr h' \<Longrightarrow> about op = None \<Longrightarrow>
     h_submissions h' = h_submissions h \<and> h_checks h' = h_checks h"
  by (cases op)
    (auto simp: hub_create_yank_def hub_appeal_yank_def override_yank_def emit_change_def update_yank_def Let_def
      split: if_splits option.splits prod.splits)

fun new_ids_run :: "hub_env \<Rightarrow> hub \<Rightarrow> hub_request list \<Rightarrow> bool" where
  "new_ids_run env h [] \<longleftrightarrow> True"
| "new_ids_run env h ((now, p, op) # rs) \<longleftrightarrow> new_ids op h \<and> new_ids_run env (hub_step env h (now, p, op)) rs"

definition all_checked :: "hub \<Rightarrow> bool" where
  "all_checked h \<longleftrightarrow> (\<forall>sid. checked h sid)"

lemma overridden_checked: "overridden h sid \<Longrightarrow> checked h sid"
  by (simp add: checked_def)

lemma route_checked:
  assumes "hub_route env now p op h = Inr h'" "new_ids op h" "about op = Some sid" "checked h sid"
  shows "checked h' sid"
proof (cases op)
  case (Publish ids kind rq)
  with assms show ?thesis by (auto dest: publish_touches(2))
next
  case (Publish_version ids kind slug version rq)
  with assms show ?thesis by (auto dest!: publish_version_kind publish_touches(2))
next
  case (Withdraw k)
  with assms show ?thesis by (auto simp: hub_withdraw_def and_then_Inr split: if_splits intro: advance_checked)
next
  case (Advance k)
  with assms show ?thesis
    by (auto simp: hub_advance_def and_then_Inr split: if_splits intro: advance_checked scan_checked eval_checked)
next
  case (Finalize k d r)
  with assms show ?thesis by (auto simp: hub_finalize_route_def and_then_Inr split: if_splits intro: finalize_checked)
next
  case (Force_approve k r skip)
  have "overridden (hub_record_check sid ''stage3'' ''admin_override_approve'' ''passed'' h1) sid" for h1
    unfolding overridden_def by (rule cleared_record) (simp add: bad_status_def)
  with assms Force_approve show ?thesis
    by (auto elim!: force_approve_cases intro: finalize_checked overridden_checked)
next
  case (Force_reject k r)
  with assms show ?thesis
    by (auto simp: force_reject_def and_then_Inr split: if_splits intro: finalize_checked[OF _ checked_record])
qed (use assms in auto)

lemma step_checked:
  assumes "all_checked h" "new_ids op h"
  shows "all_checked (hub_step env h (now, p, op))"
proof (cases "hub_route env now p op h")
  case (Inl e)
  with assms show ?thesis by simp
next
  case (Inr h')
  have "checked h' k" for k
  proof (cases "about op")
    case None
    from route_no_submission[OF Inr None] assms(1) show ?thesis
      by (intro checked_mono[of h k h']) (simp_all add: all_checked_def load_submission_def)
  next
    case (Some sid)
    show ?thesis
    proof (cases "k = sid")
      case True
      with route_checked[OF Inr assms(2) Some] assms(1) show ?thesis by (simp add: all_checked_def)
    next
      case False
      with route_touches[OF Inr assms(2) Some] assms(1) show ?thesis
        by (intro checked_mono[of h k h']) (simp_all add: all_checked_def touches_def)
    qed
  qed
  with Inr show ?thesis by (simp add: all_checked_def)
qed

lemma run_checked: "all_checked h \<Longrightarrow> new_ids_run env h rs \<Longrightarrow> all_checked (hub_run env h rs)"
proof (induction rs arbitrary: h)
  case (Cons r rs)
  obtain now p op where r: "r = (now, p, op)" by (metis prod_cases3)
  from Cons step_checked[of h op env now p] show ?case by (simp add: r)
qed simp

text \<open>A decided submission stays as it is.\<close>

lemma terminal_about:
  assumes "load_submission h sid = Inr s" "hs_stage s \<in> set terminal_stages" "about op = Some sid" "\<not> creates op"
    "hub_route env now p op h = Inr h'"
  shows "h' = h"
  using assms
  by (cases op)
    (auto simp: hub_withdraw_def hub_advance_def hub_finalize_route_def hub_finalize_def force_approve_def force_reject_def
      hub_advance_stage_def terminal_stages_def split: if_splits)

lemma new_ids_creates: "new_ids op h \<Longrightarrow> creates op \<Longrightarrow> about op = Some sid \<Longrightarrow> load_submission h sid = Inl Submission_not_found"
  by (cases op) (auto simp: load_submission_def find_None_iff image_iff split: option.splits dest!: find_SomeD)

lemma step_terminal:
  assumes "load_submission h sid = Inr s" "hs_stage s \<in> set terminal_stages" "new_ids op h"
  shows "load_submission (hub_step env h (now, p, op)) sid = Inr s"
proof (cases "hub_route env now p op h")
  case (Inl e)
  with assms show ?thesis by simp
next
  case (Inr h')
  show ?thesis
  proof (cases "about op = Some sid")
    case True
    with new_ids_creates[OF assms(3) _ True] assms(1) have "\<not> creates op" by auto
    from terminal_about[OF assms(1,2) True this Inr] Inr assms(1) show ?thesis by simp
  next
    case False
    show ?thesis
    proof (cases "about op")
      case None
      from route_no_submission[OF Inr None] Inr assms(1) show ?thesis by (simp add: load_submission_def)
    next
      case (Some k)
      with route_touches[OF Inr assms(3) Some] False Inr assms(1) show ?thesis by (simp add: touches_def)
    qed
  qed
qed

lemma run_terminal:
  "load_submission h sid = Inr s \<Longrightarrow> hs_stage s \<in> set terminal_stages \<Longrightarrow> new_ids_run env h rs \<Longrightarrow>
     load_submission (hub_run env h rs) sid = Inr s"
proof (induction rs arbitrary: h)
  case (Cons r rs)
  obtain now p op where r: "r = (now, p, op)" by (metis prod_cases3)
  have "load_submission (hub_step env h r) sid = Inr s"
    using step_terminal[OF Cons.prems(1,2), of op env now p] Cons.prems(3) by (simp add: r)
  from Cons.IH[OF this Cons.prems(2)] Cons.prems(3) show ?case by (simp add: r)
qed simp

subsection \<open>What publishing decides\<close>

definition intake_ok :: "string \<Rightarrow> string option \<Rightarrow> bool" where
  "intake_ok kind bytes = (case bytes of None \<Rightarrow> True | Some b \<Rightarrow> validate_bundle_size kind (int (length b)))"

definition with_bundle :: "(string \<Rightarrow> string) \<Rightarrow> string option \<Rightarrow> hub_submission \<Rightarrow> hub_submission" where
  "with_bundle sha bytes s =
     (case bytes of None \<Rightarrow> s | Some b \<Rightarrow> s\<lparr>hs_sha := Some (sha b), hs_size := Some (int (length b))\<rparr>)"

text \<open>The reference: intake, no bad check of stage 1, and a score of at least one half unless there is nothing to
  score.\<close>

definition clears_pipeline :: "(string \<Rightarrow> string) \<Rightarrow> string option \<Rightarrow> hub_submission \<Rightarrow> bool" where
  "clears_pipeline sha bytes s \<longleftrightarrow>
     intake_ok (hs_kind s) bytes
     \<and> \<not> list_ex (\<lambda>(n, status). bad_status status) (stage1_results (with_bundle sha bytes s))
     \<and> (stage2_skipped (with_bundle sha bytes s) \<or> stage2_passed (with_bundle sha bytes s))"

definition catalog :: "hub \<Rightarrow> hub_item list \<times> hub_version list \<times> hub_bundle list \<times> hub_yank list \<times> hub_change list" where
  "catalog h = (h_items h, h_versions h, h_bundles h, h_yanks h, h_changes h)"

lemma catalog_simps [simp]:
  "catalog (update_submission sid f h) = catalog h" "catalog (hub_record_check sid st n status h) = catalog h"
  "catalog (h\<lparr>h_submissions := ss\<rparr>) = catalog h"
  by (simp_all add: catalog_def update_submission_def hub_record_check_def)

lemma catalog_checks [simp]: "catalog (fold (\<lambda>(n, status). hub_record_check sid st n status) rs h) = catalog h"
  by (induction rs arbitrary: h) auto

lemma with_bundle_simps [simp]:
  "hs_stage (with_bundle sha bytes s) = hs_stage s"
  "stage1_results (with_bundle sha bytes (s\<lparr>hs_stage := a, hs_state := b\<rparr>)) = stage1_results (with_bundle sha bytes s)"
  "stage2_skipped (with_bundle sha bytes (s\<lparr>hs_stage := a, hs_state := b\<rparr>)) = stage2_skipped (with_bundle sha bytes s)"
  "stage2_passed (with_bundle sha bytes (s\<lparr>hs_stage := a, hs_state := b\<rparr>)) = stage2_passed (with_bundle sha bytes s)"
  by (simp_all add: with_bundle_def stage1_results_def stage2_skipped_def stage2_passed_def split: option.splits)

lemma valid_steps:
  "hub_assert_valid ''stage0'' ''stage1''" "hub_assert_valid ''stage1'' ''stage2''" "hub_assert_valid ''stage2'' ''stage3''"
  "hub_assert_valid ''stage3'' ''approved''" "hub_assert_valid ''stage0'' ''rejected''" "hub_assert_valid ''stage1'' ''rejected''"
  "hub_assert_valid ''stage2'' ''rejected''"
  by (simp_all add: stage_defs)

lemma intake_outcome:
  assumes s: "load_submission h sid = Inr s" "hs_stage s = ''stage0''" "hs_sha s = None"
  shows "\<exists>h0. stage0_intake sha sid bytes h = Inr (h0, intake_ok (hs_kind s) bytes) \<and> catalog h0 = catalog h
    \<and> load_submission h0 sid = Inr (if intake_ok (hs_kind s) bytes then with_bundle sha bytes s
                                    else enter_stage ''rejected'' (Some ''bundle too large'') s)"
proof (cases "intake_ok (hs_kind s) bytes")
  case True
  have l: "load_submission (update_submission sid (\<lambda>s. s\<lparr>hs_sha := a, hs_size := b\<rparr>) x) sid =
      (case load_submission x sid of Inl e \<Rightarrow> Inl e | Inr s \<Rightarrow> Inr (s\<lparr>hs_sha := a, hs_size := b\<rparr>))" for a b x
    by (subst load_update) simp_all
  show ?thesis
    using True s by (auto simp: stage0_intake_def intake_ok_def with_bundle_def Let_def l split: option.splits)
next
  case False
  then obtain b where b: "bytes = Some b" by (auto simp: intake_ok_def split: option.splits)
  have adv: "hub_advance_stage sid ''rejected'' r x = Inr (update_submission sid (enter_stage ''rejected'' r) x)"
    if "load_submission x sid = Inr s" for r x
    by (rule hub_advance_ok[OF that]) (use s(2) in \<open>simp_all add: valid_steps terminal_stages_def\<close>)
  show ?thesis
    using False b s by (auto simp: stage0_intake_def intake_ok_def Let_def adv)
qed

lemma scan_outcome:
  assumes s: "load_submission h sid = Inr s" "hs_stage s = ''stage1''"
  shows "\<exists>h1. run_stage1_scan sid h =
      Inr (h1, if list_ex (\<lambda>(n, status). bad_status status) (stage1_results s) then ''rejected'' else ''stage2'')
    \<and> catalog h1 = catalog h
    \<and> (\<exists>r. load_submission h1 sid = Inr (enter_stage
         (if list_ex (\<lambda>(n, status). bad_status status) (stage1_results s) then ''rejected'' else ''stage2'') r s))"
proof -
  have adv: "hub_advance_stage sid to r x = Inr (update_submission sid (enter_stage to r) x)"
    if "load_submission x sid = Inr s" "hub_assert_valid ''stage1'' to" for to r x
    by (rule hub_advance_ok[OF that(1)]) (use s(2) that in \<open>simp_all add: terminal_stages_def\<close>)
  show ?thesis
  proof (cases "list_ex (\<lambda>(n, status). bad_status status) (stage1_results s)")
    case True
    with s show ?thesis by (auto simp: run_stage1_scan_def Let_def adv valid_steps)
  next
    case False
    with s show ?thesis by (auto simp: run_stage1_scan_def Let_def adv valid_steps)
  qed
qed

lemma eval_outcome:
  assumes s: "load_submission h sid = Inr s" "hs_stage s = ''stage2''"
  shows "\<exists>h1. run_stage2_eval sid h = Inr (h1, if stage2_skipped s \<or> stage2_passed s then ''stage3'' else ''rejected'')
    \<and> catalog h1 = catalog h
    \<and> (\<exists>r. load_submission h1 sid = Inr (enter_stage (if stage2_skipped s \<or> stage2_passed s then ''stage3'' else ''rejected'') r s))"
proof -
  have adv: "hub_advance_stage sid to r x = Inr (update_submission sid (enter_stage to r) x)"
    if "load_submission x sid = Inr s" "hub_assert_valid ''stage2'' to" for to r x
    by (rule hub_advance_ok[OF that(1)]) (use s(2) that in \<open>simp_all add: terminal_stages_def\<close>)
  consider "stage2_skipped s" | "\<not> stage2_skipped s" "stage2_passed s" | "\<not> stage2_skipped s" "\<not> stage2_passed s" by blast
  then show ?thesis by cases (use s in \<open>auto simp: run_stage2_eval_def adv valid_steps\<close>)
qed

text \<open>The pipeline ends with a decision, the one of the reference.\<close>

lemma pipeline_outcome:
  assumes s: "load_submission h sid = Inr s" "hs_sha s = None"
  shows "\<exists>h' s'. run_intake_and_pipeline sha sid bytes h = Inr h' \<and> catalog h' = catalog h
    \<and> load_submission h' sid = Inr s'
    \<and> hs_stage s' = (if clears_pipeline sha bytes s then ''approved'' else ''rejected'')
    \<and> hs_state s' = (if clears_pipeline sha bytes s then ''approved'' else ''rejected'')"
proof -
  define b where "b = reset_stage sid h"
  define sb where "sb = s\<lparr>hs_stage := ''stage0'', hs_state := ''stage0_received''\<rparr>"
  have b: "load_submission b sid = Inr sb" "catalog b = catalog h" "hs_kind sb = hs_kind s"
    using load_reset[OF s(1)] by (simp_all add: b_def sb_def)
  obtain h0 where 0: "stage0_intake sha sid bytes b = Inr (h0, intake_ok (hs_kind s) bytes)" "catalog h0 = catalog h"
    "load_submission h0 sid = Inr (if intake_ok (hs_kind s) bytes then with_bundle sha bytes sb
                                    else enter_stage ''rejected'' (Some ''bundle too large'') sb)"
    using intake_outcome[OF b(1), of sha bytes] b s(2) by (auto simp: sb_def)
  show ?thesis
  proof (cases "intake_ok (hs_kind s) bytes")
    case False
    with 0 show ?thesis by (simp add: run_intake_and_pipeline_def b_def clears_pipeline_def stage_to_state_def)
  next
    case True
    define s1 where "s1 = enter_stage ''stage1'' None (with_bundle sha bytes sb)"
    have r1: "stage1_results s1 = stage1_results (with_bundle sha bytes s)"
      "stage2_skipped s1 = stage2_skipped (with_bundle sha bytes s)" "stage2_passed s1 = stage2_passed (with_bundle sha bytes s)"
      by (simp_all add: s1_def sb_def)
    have l0: "load_submission h0 sid = Inr (with_bundle sha bytes sb)" using 0(3) True by simp
    have 1: "hub_advance_stage sid ''stage1'' None h0 = Inr (update_submission sid (enter_stage ''stage1'' None) h0)"
      by (rule hub_advance_ok[OF l0]) (simp_all add: sb_def valid_steps terminal_stages_def)
    define h1 where "h1 = update_submission sid (enter_stage ''stage1'' None) h0"
    have l1: "load_submission h1 sid = Inr s1" "catalog h1 = catalog h" using 0 True by (simp_all add: h1_def s1_def)
    obtain h2 r2 where 2: "run_stage1_scan sid h1 =
        Inr (h2, if list_ex (\<lambda>(n, status). bad_status status) (stage1_results s1) then ''rejected'' else ''stage2'')"
      "catalog h2 = catalog h" "load_submission h2 sid = Inr (enter_stage
        (if list_ex (\<lambda>(n, status). bad_status status) (stage1_results s1) then ''rejected'' else ''stage2'') r2 s1)"
      using scan_outcome[OF l1(1)] l1(2) by (auto simp: s1_def)
    show ?thesis
    proof (cases "list_ex (\<lambda>(n, status). bad_status status) (stage1_results s1)")
      case bad: True
      with 0 1 2 True r1 show ?thesis
        by (simp add: run_intake_and_pipeline_def b_def[symmetric] h1_def clears_pipeline_def stage_to_state_def)
    next
      case good: False
      define s2 where "s2 = enter_stage ''stage2'' r2 s1"
      have l2: "load_submission h2 sid = Inr s2" using 2(3) good by (simp add: s2_def)
      obtain h3 r3 where 3: "run_stage2_eval sid h2 = Inr (h3, if stage2_skipped s2 \<or> stage2_passed s2 then ''stage3'' else ''rejected'')"
        "catalog h3 = catalog h"
        "load_submission h3 sid = Inr (enter_stage (if stage2_skipped s2 \<or> stage2_passed s2 then ''stage3'' else ''rejected'') r3 s2)"
        using eval_outcome[OF l2] 2(2) by (auto simp: s2_def)
      have r2: "stage2_skipped s2 = stage2_skipped s1" "stage2_passed s2 = stage2_passed s1" by (simp_all add: s2_def)
      show ?thesis
      proof (cases "stage2_skipped s2 \<or> stage2_passed s2")
        case no: False
        with 0 1 2 3 True good r1 r2 show ?thesis
          by (simp add: run_intake_and_pipeline_def b_def[symmetric] h1_def clears_pipeline_def stage_to_state_def)
      next
        case yes: True
        define h4 where "h4 = hub_record_check sid ''stage3'' ''reviewer_assignment'' ''passed'' h3"
        have l4: "load_submission h4 sid = Inr (enter_stage ''stage3'' r3 s2)" using 3(3) yes by (simp add: h4_def)
        have "hub_advance_stage sid ''approved'' (Some ''auto_approved'') h4 =
            Inr (update_submission sid (enter_stage ''approved'' (Some ''auto_approved'')) h4)"
          by (rule hub_advance_ok[OF l4]) (simp_all add: valid_steps terminal_stages_def)
        then have "hub_finalize sid ''approved'' (Some ''auto_approved'') h4 =
            Inr (update_submission sid (enter_stage ''approved'' (Some ''auto_approved'')) h4)"
          by (simp add: hub_finalize_def l4 terminal_stages_def)
        with 0 1 2 3 True good yes r1 r2 l4 show ?thesis
          by (simp add: run_intake_and_pipeline_def b_def[symmetric] h1_def h4_def[symmetric] clears_pipeline_def stage_to_state_def)
            (simp add: h4_def)
      qed
    qed
  qed
qed

lemma find_map_keep: "(\<And>x. P (f x) = P x) \<Longrightarrow> find P (map f xs) = map_option f (find P xs)"
  by (induction xs) auto

lemma upsert_item_found:
  assumes "upsert_item ni kind rq h = (h', iid)"
  shows "\<exists>i. find_item h' kind (pq_slug rq) = Some i \<and> hi_id i = iid"
proof (cases "find_item h kind (pq_slug rq)")
  case None
  with assms show ?thesis by (auto simp: upsert_item_def find_item_def find_append)
next
  case (Some i)
  have h': "h' = h\<lparr>h_items := map (\<lambda>x. if hi_id x = hi_id i then refresh_item rq x else x) (h_items h)\<rparr>" "iid = hi_id i"
    using assms Some by (auto simp: upsert_item_def)
  have "find_item h' kind (pq_slug rq) =
      map_option (\<lambda>x. if hi_id x = hi_id i then refresh_item rq x else x) (find_item h kind (pq_slug rq))"
    unfolding find_item_def h' by (simp, rule find_map_keep) (simp add: refresh_item_def)
  with Some h' show ?thesis by (simp add: refresh_item_def)
qed

lemma upsert_version_found:
  assumes "upsert_version nv iid rq h = (h', vid)"
  shows "\<exists>v. find_version h' iid (pq_version rq) = Some v \<and> hv_id v = vid \<and> hv_manifest v = pq_manifest rq"
proof (cases "find_version h iid (pq_version rq)")
  case None
  with assms show ?thesis by (auto simp: upsert_version_def find_version_def find_append)
next
  case (Some v)
  have h': "h' = h\<lparr>h_versions := map (\<lambda>x. if hv_id x = hv_id v then x\<lparr>hv_manifest := pq_manifest rq\<rparr> else x) (h_versions h)\<rparr>"
    "vid = hv_id v" using assms Some by (auto simp: upsert_version_def)
  have "find_version h' iid (pq_version rq) =
      map_option (\<lambda>x. if hv_id x = hv_id v then x\<lparr>hv_manifest := pq_manifest rq\<rparr> else x) (find_version h iid (pq_version rq))"
    unfolding find_version_def h' by (simp, rule find_map_keep) simp
  with Some h' show ?thesis by simp
qed

lemma materialise_found:
  "\<exists>i v. find_item (materialise_item sha sid ni nv kind rq bytes h) kind (pq_slug rq) = Some i
     \<and> find_version (materialise_item sha sid ni nv kind rq bytes h) (hi_id i) (pq_version rq) = Some v
     \<and> hv_manifest v = pq_manifest rq \<and> hi_latest i = Some (pq_version rq, hv_id v)
     \<and> h_changes (materialise_item sha sid ni nv kind rq bytes h) = h_changes h"
proof -
  obtain h1 iid where i: "upsert_item ni kind rq h = (h1, iid)" by fastforce
  obtain h2 vid where v: "upsert_version nv iid rq h1 = (h2, vid)" by fastforce
  obtain it where it: "find_item h1 kind (pq_slug rq) = Some it" "hi_id it = iid" using upsert_item_found[OF i] by blast
  obtain ver where ver: "find_version h2 iid (pq_version rq) = Some ver" "hv_id ver = vid" "hv_manifest ver = pq_manifest rq"
    using upsert_version_found[OF v] by blast
  have items: "h_items h2 = h_items h1" and ch: "h_changes h2 = h_changes h"
    using i v by (auto simp: upsert_version_def upsert_item_def split: option.splits)
  let ?m = "materialise_item sha sid ni nv kind rq bytes h"
  have m: "h_items ?m = map (\<lambda>x. if hi_id x = iid then x\<lparr>hi_latest := Some (pq_version rq, vid)\<rparr> else x) (h_items h1)"
    "h_versions ?m = h_versions h2" "h_changes ?m = h_changes h"
    by (simp_all add: materialise_item_def i v update_submission_def upsert_bundle_def items ch Let_def split: option.splits)
  have "find_item ?m kind (pq_slug rq) =
      map_option (\<lambda>x. if hi_id x = iid then x\<lparr>hi_latest := Some (pq_version rq, vid)\<rparr> else x) (find_item h1 kind (pq_slug rq))"
    unfolding find_item_def m by (rule find_map_keep) simp
  then have "find_item ?m kind (pq_slug rq) = Some (it\<lparr>hi_latest := Some (pq_version rq, vid)\<rparr>)" using it by simp
  moreover have "find_version ?m iid (pq_version rq) = Some ver" using ver(1) by (simp add: find_version_def m)
  ultimately show ?thesis using it ver m(3) by simp
qed

lemma publish_outcome:
  assumes "has_scope p ''publish''" "kind \<in> set hub_kinds" "decode_bundle b64 rq = Inr bytes"
    and new: "sid \<notin> hs_id ` set (h_submissions h)"
  shows "\<exists>h1 s. catalog h1 = catalog h \<and> load_submission h1 sid = Inr s
    \<and> hs_stage s = (if clears_pipeline sha bytes (new_submission sid kind rq p) then ''approved'' else ''rejected'')
    \<and> publish_kind sha b64 (sid, ni, nv) p kind rq h =
        Inr (if clears_pipeline sha bytes (new_submission sid kind rq p)
             then (let h2 = materialise_item sha sid ni nv kind rq bytes h1;
                       published = (case find_item h2 kind (pq_slug rq) of None \<Rightarrow> True | Some i \<Rightarrow> hi_published i)
                   in emit_change ''upsert'' kind (pq_slug rq) (Some (pq_version rq)) (upsert_payload rq published) h2)
             else h1)"
proof -
  let ?h0 = "h\<lparr>h_submissions := h_submissions h @ [new_submission sid kind rq p]\<rparr>"
  have id: "hs_id (new_submission sid kind rq p) = sid" "hs_sha (new_submission sid kind rq p) = None"
    by (simp_all add: new_submission_def)
  have l: "load_submission ?h0 sid = Inr (new_submission sid kind rq p)"
    using load_append[of "new_submission sid kind rq p" h sid] new by (simp add: id)
  from pipeline_outcome[OF l id(2), of sha bytes] obtain h1 s where
    "run_intake_and_pipeline sha sid bytes ?h0 = Inr h1" "catalog h1 = catalog h" "load_submission h1 sid = Inr s"
    "hs_stage s = (if clears_pipeline sha bytes (new_submission sid kind rq p) then ''approved'' else ''rejected'')"
    "hs_state s = (if clears_pipeline sha bytes (new_submission sid kind rq p) then ''approved'' else ''rejected'')"
    by auto
  then show ?thesis using assms(1-3) by (intro exI[of _ h1] exI[of _ s]) (simp add: publish_kind_def Let_def)
qed


text \<open>Nothing is ever left in between: the routes that advance, finalize, withdraw or force a submission find none
  to work on.\<close>

definition decided :: "hub \<Rightarrow> bool" where
  "decided h \<longleftrightarrow> (\<forall>sid s. load_submission h sid = Inr s \<longrightarrow> hs_stage s \<in> {''approved'', ''rejected''})"

lemma publish_Inr:
  "publish_kind sha b64 ids p kind rq h = Inr h' \<Longrightarrow>
     has_scope p ''publish'' \<and> kind \<in> set hub_kinds \<and> (\<exists>bytes. decode_bundle b64 rq = Inr bytes)"
  by (auto simp: publish_kind_def and_then_Inr split: if_splits prod.splits)

lemma publish_decided:
  assumes "publish_kind sha b64 ids p kind rq h = Inr h'" "fst ids \<notin> hs_id ` set (h_submissions h)"
  shows "\<exists>s. load_submission h' (fst ids) = Inr s \<and> hs_stage s \<in> {''approved'', ''rejected''}"
proof -
  obtain sid ni nv where ids: "ids = (sid, ni, nv)" by (metis prod_cases3)
  obtain bytes where ok: "has_scope p ''publish''" "kind \<in> set hub_kinds" "decode_bundle b64 rq = Inr bytes"
    using publish_Inr[OF assms(1)] by blast
  have new: "sid \<notin> hs_id ` set (h_submissions h)" using assms(2) by (simp add: ids)
  obtain h1 s pl where h1: "load_submission h1 sid = Inr s" "hs_stage s \<in> {''approved'', ''rejected''}"
    and h': "h' = h1 \<or> h' = emit_change ''upsert'' kind (pq_slug rq) (Some (pq_version rq)) pl (materialise_item sha sid ni nv kind rq bytes h1)"
    using publish_outcome[OF ok new, of sha ni nv] assms(1) by (auto simp: ids Let_def split: if_splits)
  obtain w where w: "\<And>k. load_submission (materialise_item sha sid ni nv kind rq bytes h1) k =
       (if k = sid then (case load_submission h1 sid of Inl e \<Rightarrow> Inl e | Inr s \<Rightarrow> Inr (s\<lparr>hs_item_version := Some w\<rparr>))
        else load_submission h1 k)"
    by (rule load_materialise[of sha sid ni nv kind rq bytes h1], rule that, assumption+)
  show ?thesis using h' h1 w[of sid] by (auto simp: ids)
qed

lemma decided_step:
  assumes "decided h" "new_ids op h"
  shows "decided (hub_step env h (now, p, op))"
proof (cases "hub_route env now p op h")
  case (Inl e)
  with assms show ?thesis by simp
next
  case (Inr h')
  show ?thesis
    unfolding decided_def
  proof (intro allI impI)
    fix k s assume s: "load_submission (hub_step env h (now, p, op)) k = Inr s"
    show "hs_stage s \<in> {''approved'', ''rejected''}"
    proof (cases "creates op \<and> about op = Some k")
      case True
      then have "\<exists>s. load_submission h' k = Inr s \<and> hs_stage s \<in> {''approved'', ''rejected''}"
        using Inr assms(2) by (cases op) (auto dest!: publish_version_kind publish_decided)
      with s Inr show ?thesis by auto
    next
      case False
      show ?thesis
      proof (cases "load_submission h k")
        case (Inr s0)
        with assms(1) have st: "hs_stage s0 \<in> {''approved'', ''rejected''}" by (simp add: decided_def)
        then have "hs_stage s0 \<in> set terminal_stages" by (auto simp: terminal_stages_def)
        from step_terminal[OF Inr this assms(2)] s st show ?thesis by simp
      next
        case (Inl e)
        have "load_submission h' k = Inl e"
        proof (cases "about op = Some k")
          case True
          with False Inl \<open>hub_route env now p op h = Inr h'\<close> show ?thesis
            by (cases op) (auto simp: hub_withdraw_def hub_advance_def hub_finalize_route_def force_approve_def force_reject_def
              split: if_splits)
        next
          case no: False
          show ?thesis
          proof (cases "about op")
            case None
            from route_no_submission[OF \<open>hub_route env now p op h = Inr h'\<close> None] Inl show ?thesis
              by (simp add: load_submission_def)
          next
            case (Some j)
            with route_touches[OF \<open>hub_route env now p op h = Inr h'\<close> assms(2) Some] no Inl show ?thesis
              by (simp add: touches_def)
          qed
        qed
        with s \<open>hub_route env now p op h = Inr h'\<close> show ?thesis by simp
      qed
    qed
  qed
qed

lemma nothing_waits_for_review: "decided h \<Longrightarrow> new_ids_run env h rs \<Longrightarrow> decided (hub_run env h rs)"
proof (induction rs arbitrary: h)
  case (Cons r rs)
  obtain now p op where r: "r = (now, p, op)" by (metis prod_cases3)
  from Cons decided_step[of h op env now p] show ?case by (simp add: r)
qed simp


section \<open>The two hands of a critical yank\<close>

text \<open>\<open>q\<close> is somebody else than the requester: neither the recorded name nor the token is his.\<close>

definition second_hand :: "principal \<Rightarrow> yank_create \<Rightarrow> principal \<Rightarrow> bool" where
  "second_hand p b q \<longleftrightarrow> (requester_of p b = [] \<or> requester_of p b \<noteq> p_handle q)
     \<and> \<not> (p_token_id p \<noteq> None \<and> p_token_id p = p_token_id q)"

fun confirms :: "principal \<Rightarrow> yank_create \<Rightarrow> uuid \<Rightarrow> hub_request \<Rightarrow> bool" where
  "confirms p b yid (now, q, Appeal_yank aid y reason by) \<longleftrightarrow> y = yid \<and> has_scope q ''yanks.appeal'' \<and> second_hand p b q"
| "confirms p b yid (now, q, Override_yank y state resolution memo) \<longleftrightarrow>
     y = yid \<and> state = ''resolved'' \<and> has_scope q ''admin.write''"
| "confirms p b yid r \<longleftrightarrow> False"

definition yank_origin :: "hub_request list \<Rightarrow> hub_yank \<Rightarrow> principal \<Rightarrow> yank_create \<Rightarrow> bool" where
  "yank_origin rs y p b \<longleftrightarrow> (\<exists>now. (now, p, Create_yank (hy_id y) b) \<in> set rs) \<and> has_scope p ''yanks.write''
     \<and> hy_severity y = yc_severity b \<and> hy_requested_by y = requester_of p b \<and> hy_token y = p_token_id p"

definition yanks_inv :: "hub_request list \<Rightarrow> hub \<Rightarrow> bool" where
  "yanks_inv rs h \<longleftrightarrow> distinct (map hy_id (h_yanks h))
     \<and> (\<forall>y \<in> set (h_yanks h). \<exists>p b. yank_origin rs y p b
          \<and> (hy_severity y = ''critical'' \<and> hy_state y = ''resolved'' \<longrightarrow> (\<exists>r \<in> set rs. confirms p b (hy_id y) r)))"

lemma yanks_inv_more: "yanks_inv rs h \<Longrightarrow> set rs \<subseteq> set rs' \<Longrightarrow> h_yanks h' = h_yanks h \<Longrightarrow> yanks_inv rs' h'"
  unfolding yanks_inv_def yank_origin_def by (simp, blast)

lemma find_yank_unique:
  "find_yank h yid = Some y0 \<Longrightarrow> distinct (map hy_id (h_yanks h)) \<Longrightarrow> y \<in> set (h_yanks h) \<Longrightarrow> hy_id y = yid \<Longrightarrow> y = y0"
  unfolding find_yank_def by (drule find_SomeD) (auto simp: distinct_map inj_on_def)

lemma yank_origin_more: "yank_origin rs y p b \<Longrightarrow> yank_origin (rs @ rs') y p b"
  by (auto simp: yank_origin_def)

lemma yank_origin_same:
  "yank_origin rs y p b \<Longrightarrow> hy_id y' = hy_id y \<Longrightarrow> hy_severity y' = hy_severity y \<Longrightarrow>
     hy_requested_by y' = hy_requested_by y \<Longrightarrow> hy_token y' = hy_token y \<Longrightarrow> yank_origin rs y' p b"
  by (simp add: yank_origin_def)

text \<open>A request that rewrites the yank \<open>yid\<close>, and resolves it only as a confirmation.\<close>

lemma yanks_inv_update:
  assumes inv: "yanks_inv rs h"
    and h': "h_yanks h' = map (\<lambda>y. if hy_id y = yid then f y else y) (h_yanks h)"
    and f: "\<And>y. hy_id (f y) = hy_id y" "\<And>y. hy_severity (f y) = hy_severity y"
      "\<And>y. hy_requested_by (f y) = hy_requested_by y" "\<And>y. hy_token (f y) = hy_token y"
    and res: "\<And>y p b. y \<in> set (h_yanks h) \<Longrightarrow> hy_id y = yid \<Longrightarrow> yank_origin rs y p b \<Longrightarrow> hy_severity y = ''critical'' \<Longrightarrow>
      hy_state (f y) = ''resolved'' \<Longrightarrow> hy_state y = ''resolved'' \<or> confirms p b yid r"
  shows "yanks_inv (rs @ [r]) h'"
proof -
  have d: "distinct (map hy_id (h_yanks h))" using inv by (simp add: yanks_inv_def)
  have "map hy_id (h_yanks h') = map hy_id (h_yanks h)" by (simp add: h' f(1))
  moreover have "\<exists>p b. yank_origin (rs @ [r]) z p b
      \<and> (hy_severity z = ''critical'' \<and> hy_state z = ''resolved'' \<longrightarrow> (\<exists>x \<in> set (rs @ [r]). confirms p b (hy_id z) x))"
    if z: "z \<in> set (h_yanks h')" for z
  proof -
    from z obtain y where y: "y \<in> set (h_yanks h)" "z = (if hy_id y = yid then f y else y)" by (auto simp: h')
    from inv y(1) obtain p b where o: "yank_origin rs y p b"
      "hy_severity y = ''critical'' \<and> hy_state y = ''resolved'' \<longrightarrow> (\<exists>x \<in> set rs. confirms p b (hy_id y) x)"
      unfolding yanks_inv_def by blast
    have "yank_origin rs z p b" by (rule yank_origin_same[OF o(1)]) (auto simp: y(2) f)
    moreover have "\<exists>x \<in> set (rs @ [r]). confirms p b (hy_id z) x" if c: "hy_severity z = ''critical''" "hy_state z = ''resolved''"
    proof (cases "hy_id y = yid")
      case True
      with c y(2) f have "hy_severity y = ''critical''" "hy_state (f y) = ''resolved''" by simp_all
      from res[OF y(1) True o(1) this] o(2) \<open>hy_severity y = ''critical''\<close> True y(2) f(1) show ?thesis by auto
    next
      case False
      with c y(2) o(2) show ?thesis by auto
    qed
    ultimately show ?thesis using yank_origin_more by blast
  qed
  ultimately show ?thesis using d by (simp add: yanks_inv_def)
qed

lemma create_yank_rows:
  assumes "hub_create_yank yid now p b h = Inr h'"
  shows "h_yanks h' = h_yanks h @ [new_yank yid now p b]" "has_scope p ''yanks.write''"
  using assms by (auto simp: hub_create_yank_def emit_change_def Let_def split: if_splits option.splits)

lemma new_yank_origin:
  "has_scope p ''yanks.write'' \<Longrightarrow> (now, p, Create_yank yid b) \<in> set rs \<Longrightarrow> yank_origin rs (new_yank yid now p b) p b"
  "hy_severity (new_yank yid now p b) = ''critical'' \<Longrightarrow> hy_state (new_yank yid now p b) = ''open''"
  "hy_id (new_yank yid now p b) = yid"
  by (cases "yc_severity b = ''critical''"; auto simp: yank_origin_def new_yank_def compute_initial_state_def)+

lemma appeal_rows:
  assumes "hub_appeal_yank aid yid now p reason by h = Inr h'"
  obtains y st rs ra where "find_yank h yid = Some y" "has_scope p ''yanks.appeal''" "appeal_can_resolve y (p_handle p) (p_token_id p)"
    "h_yanks h' = map (\<lambda>y. if hy_id y = yid then y\<lparr>hy_state := st, hy_resolution := rs, hy_resolved_at := ra\<rparr> else y) (h_yanks h)"
    "st = (if hy_severity y = ''critical'' \<and> hy_state y = ''open'' then ''resolved'' else hy_state y)"
proof -
  from assms obtain y where y: "find_yank h yid = Some y" "has_scope p ''yanks.appeal''"
    "appeal_can_resolve y (p_handle p) (p_token_id p)"
    by (auto simp: hub_appeal_yank_def split: if_splits option.splits)
  obtain sa da st rs ra where d: "decide_appeal now y (p_handle p) (p_token_id p) = ((sa, da), (st, rs, ra))"
    by (metis prod.exhaust)
  show ?thesis
  proof (rule that[OF y])
    show "h_yanks h' = map (\<lambda>y. if hy_id y = yid then y\<lparr>hy_state := st, hy_resolution := rs, hy_resolved_at := ra\<rparr> else y) (h_yanks h)"
      using assms y d by (auto simp: hub_appeal_yank_def emit_change_def update_yank_def)
    show "st = (if hy_severity y = ''critical'' \<and> hy_state y = ''open'' then ''resolved'' else hy_state y)"
      using d y(3) by (auto simp: decide_appeal_def Let_def split: if_splits)
  qed
qed

lemma yanks_inv_step:
  assumes inv: "yanks_inv rs h" and new: "new_ids op h"
  shows "yanks_inv (rs @ [(now, p, op)]) (hub_step env h (now, p, op))"
proof (cases "hub_route env now p op h")
  case (Inl e)
  then show ?thesis using yanks_inv_more[OF inv, of "rs @ [(now, p, op)]" h] by auto
next
  case (Inr h')
  note route = Inr
  have "yanks_inv (rs @ [(now, p, op)]) h'"
  proof (cases "about op")
    case (Some sid)
    with route_touches[OF route new] have "h_yanks h' = h_yanks h" by (simp add: touches_def)
    then show ?thesis by (intro yanks_inv_more[OF inv]) auto
  next
    case None
    then consider yid b where "op = Create_yank yid b" | aid yid reason who where "op = Appeal_yank aid yid reason who"
      | yid st res memo where "op = Override_yank yid st res memo" by (cases op) auto
    then show ?thesis
    proof cases
      case (1 yid b)
      from route have run: "hub_create_yank yid now p b h = Inr h'" by (simp add: 1)
      note rows = create_yank_rows[OF run]
      have fresh: "yid \<notin> hy_id ` set (h_yanks h)" using new by (simp add: 1)
      have old: "\<exists>q c. yank_origin (rs @ [(now, p, op)]) y q c
          \<and> (hy_severity y = ''critical'' \<and> hy_state y = ''resolved'' \<longrightarrow> (\<exists>x \<in> set (rs @ [(now, p, op)]). confirms q c (hy_id y) x))"
        if "y \<in> set (h_yanks h)" for y
        using inv that yank_origin_more unfolding yanks_inv_def by (metis Un_iff set_append)
      have "yank_origin (rs @ [(now, p, op)]) (new_yank yid now p b) p b"
        by (rule new_yank_origin(1)[OF rows(2)]) (simp add: 1)
      moreover have "\<not> (hy_severity (new_yank yid now p b) = ''critical'' \<and> hy_state (new_yank yid now p b) = ''resolved'')"
        using new_yank_origin(2)[of yid now p b] by auto
      ultimately show ?thesis
        using old inv fresh unfolding yanks_inv_def rows(1) by (auto simp: new_yank_origin(3))
    next
      case (2 aid yid reason who)
      from route have run: "hub_appeal_yank aid yid now p reason who h = Inr h'" by (simp add: 2)
      then obtain y st res ra where y: "find_yank h yid = Some y" "has_scope p ''yanks.appeal''"
        "appeal_can_resolve y (p_handle p) (p_token_id p)"
        and h': "h_yanks h' = map (\<lambda>y. if hy_id y = yid then y\<lparr>hy_state := st, hy_resolution := res, hy_resolved_at := ra\<rparr> else y) (h_yanks h)"
        and st: "st = (if hy_severity y = ''critical'' \<and> hy_state y = ''open'' then ''resolved'' else hy_state y)"
        by (rule appeal_rows)
      have d: "distinct (map hy_id (h_yanks h))" using inv by (simp add: yanks_inv_def)
      show ?thesis
      proof (rule yanks_inv_update[OF inv h'])
        fix z q c
        assume z: "z \<in> set (h_yanks h)" "hy_id z = yid" and o: "yank_origin rs z q c" and crit: "hy_severity z = ''critical''"
          and r: "hy_state (z\<lparr>hy_state := st, hy_resolution := res, hy_resolved_at := ra\<rparr>) = ''resolved''"
        have zy: "z = y" by (rule find_yank_unique[OF y(1) d z])
        show "hy_state z = ''resolved'' \<or> confirms q c yid (now, p, op)"
        proof (cases "hy_state y = ''open''")
          case True
          with y(3) crit zy o have "second_hand q c p"
            by (auto simp: appeal_can_resolve_def second_hand_def yank_origin_def Let_def split: if_splits)
          with y(2) show ?thesis by (simp add: 2)
        next
          case False
          with st r zy show ?thesis by simp
        qed
      qed simp_all
    next
      case (3 yid st res memo)
      from route have run: "has_scope p ''admin.write''"
        and h': "h_yanks h' = map (\<lambda>y. if hy_id y = yid then y\<lparr>hy_state := st,
                     hy_resolution := (if res \<notin> {None, Some []} then res
                                       else if st = ''resolved'' then Some ''admin_override'' else None),
                     hy_resolved_at := (if st = ''resolved'' then Some now else None)\<rparr> else y) (h_yanks h)"
        by (auto simp: 3 override_yank_def emit_change_def update_yank_def split: if_splits option.splits)
      show ?thesis by (rule yanks_inv_update[OF inv h']) (use run in \<open>simp_all add: 3\<close>)
    qed
  qed
  with route show ?thesis by simp
qed

lemma yanks_inv_run:
  "yanks_inv done_rs h \<Longrightarrow> new_ids_run env h rs \<Longrightarrow> yanks_inv (done_rs @ rs) (hub_run env h rs)"
proof (induction rs arbitrary: h done_rs)
  case (Cons r rs)
  obtain now p op where r: "r = (now, p, op)" by (metis prod_cases3)
  have "yanks_inv (done_rs @ [r]) (hub_step env h r)"
    using yanks_inv_step[OF Cons.prems(1)] Cons.prems(2) by (simp add: r)
  from Cons.IH[OF this] Cons.prems(2) show ?case by (simp add: r)
qed simp

text \<open>C37: the two-admin rule of the hub.  From a hub without yanks: a critical yank that is resolved was filed by a
  principal who may yank, and confirmed either by a principal whose name and token are not those of the
  requester on record, or by an administrator's override.\<close>

theorem critical_yank_two_hands:
  assumes "h_yanks h = []" "new_ids_run env h rs"
    and "y \<in> set (h_yanks (hub_run env h rs))" "hy_severity y = ''critical''" "hy_state y = ''resolved''"
  shows "\<exists>now p b r. (now, p, Create_yank (hy_id y) b) \<in> set rs \<and> has_scope p ''yanks.write''
    \<and> r \<in> set rs \<and> confirms p b (hy_id y) r"
proof -
  have "yanks_inv [] h" using assms(1) by (simp add: yanks_inv_def)
  from yanks_inv_run[OF this assms(2)] assms(3-5) show ?thesis
    unfolding yanks_inv_def yank_origin_def by (metis append_Nil)
qed

subsection \<open>Ways around it\<close>

text \<open>The yank takes effect before the second hand: the version is flagged and the feed tells every subscriber.\<close>

lemma critical_yank_acts_at_once:
  assumes "find_item h (yc_kind b) (yc_slug b) = Some i" "yc_version b = Some v" "v \<noteq> []"
    and "find_version h (hi_id i) v = Some r" "has_scope p ''yanks.write''" "yc_severity b = ''critical''"
  shows "\<exists>h' r'. hub_create_yank yid now p b h = Inr h' \<and> find_version h' (hi_id i) v = Some r' \<and> hv_yanked r'
    \<and> (\<exists>pl. h_changes h' = h_changes h @ [\<lparr>ch_op = ''yank'', ch_kind = yc_kind b, ch_slug = yc_slug b,
          ch_version = Some v, ch_payload = pl\<rparr>])"
proof -
  let ?f = "\<lambda>x. if hv_id x = hv_id r then flag_version now b x else x"
  have "find (\<lambda>x. hv_item x = hi_id i \<and> hv_version x = v) (map ?f (h_versions h)) = map_option ?f (find_version h (hi_id i) v)"
    unfolding find_version_def by (rule find_map_keep) (simp add: flag_version_def)
  then have "find (\<lambda>x. hv_item x = hi_id i \<and> hv_version x = v) (map ?f (h_versions h)) = Some (flag_version now b r)"
    using assms(4) by simp
  then show ?thesis
    using assms by (auto simp: hub_create_yank_def emit_change_def find_version_def flag_version_def Let_def)
qed

text \<open>A static token carries no identifier, and the name of the requester is what the request says: one bearer can
  file a critical yank in another name and confirm it himself.\<close>

lemma one_bearer_two_hands:
  assumes "find_item h (yc_kind b) (yc_slug b) = Some i" "yc_version b = Some v" "v \<noteq> []"
    and "find_version h (hi_id i) v = Some r" "yc_severity b = ''critical''" "yid \<notin> hy_id ` set (h_yanks h)"
    and p: "has_scope p ''yanks.write''" "has_scope p ''yanks.appeal''" "p_token_id p = None"
    and other: "yc_requested_by b = Some other" "other \<noteq> []" "other \<noteq> p_handle p"
  shows "\<exists>y \<in> set (h_yanks (hub_run env h [(now, p, Create_yank yid b), (now', p, Appeal_yank aid yid reason by)])).
    hy_id y = yid \<and> hy_state y = ''resolved'' \<and> hy_resolution y = Some ''second_admin_confirmed''"
proof -
  obtain h1 where h1: "hub_create_yank yid now p b h = Inr h1"
    using critical_yank_acts_at_once[OF assms(1-4) p(1) assms(5), of yid now] by blast
  let ?y = "new_yank yid now p b"
  have y: "hy_id ?y = yid" "hy_severity ?y = ''critical''" "hy_state ?y = ''open''" "hy_requested_by ?y = other" "hy_token ?y = None"
    using assms(5) other p(3) by (simp_all add: new_yank_def compute_initial_state_def requester_of_def split: list.splits)
  note rows = create_yank_rows(1)[OF h1]
  have "find (\<lambda>y. hy_id y = yid) (h_yanks h) = None" using assms(6) unfolding find_None_iff image_iff by auto
  then have f: "find_yank h1 yid = Some ?y" by (simp add: find_yank_def rows find_append y(1))
  have can: "appeal_can_resolve ?y (p_handle p) (p_token_id p)"
    using y other(3) by (simp add: appeal_can_resolve_def)
  show ?thesis
    using h1 f can p(2) y by (simp add: hub_appeal_yank_def decide_appeal_def emit_change_def update_yank_def rows Let_def)
qed

section \<open>The properties at concrete hubs\<close>

definition empty_hub :: hub where
  "empty_hub = \<lparr>h_items = [], h_versions = [], h_bundles = [], h_submissions = [], h_checks = [], h_yanks = [],
     h_appeals = [], h_changes = []\<rparr>"

definition demo_request :: publish_request where
  "demo_request = \<lparr>pq_slug = ''crm'', pq_name = ''CRM'', pq_description = J_null, pq_category = J_null, pq_creator = None,
     pq_version = ''1'', pq_manifest = None, pq_bundle_b64 = None\<rparr>"

definition demo_publisher :: principal where
  "demo_publisher = \<lparr>p_handle = ''ada'', p_scopes = [''publish'', ''yanks.write''], p_token_id = Some 1\<rparr>"

definition demo_reviewer :: principal where
  "demo_reviewer = \<lparr>p_handle = ''bob'', p_scopes = [''*''], p_token_id = Some 2\<rparr>"

definition demo_hub_env :: hub_env where
  "demo_hub_env = \<lparr>he_sha = (\<lambda>s. s), he_b64 = Some\<rparr>"

lemma demo_clears: "clears_pipeline sha None (new_submission sid ''app'' demo_request p)"
  by (simp add: clears_pipeline_def intake_ok_def with_bundle_def new_submission_def demo_request_def stage1_results_def
      check_slug_format_def slug_allowed_def check_manifest_shape_def check_features_supported_def check_disclosure_def
      check_billing_dims_def check_bundle_metadata_def jget_default_def py_or_def bad_status_def stage2_skipped_def)

lemma demo_publish_args:
  "has_scope demo_publisher ''publish''" "''app'' \<in> set hub_kinds" "decode_bundle b64 demo_request = Inr None"
  by (simp_all add: has_scope_def demo_publisher_def hub_kinds_def decode_bundle_def demo_request_def)


definition demo_publish :: hub_request where
  "demo_publish = (0, demo_publisher, Publish (1, 2, 3) ''app'' demo_request)"


definition demo_hub :: hub where
  "demo_hub = empty_hub
     \<lparr>h_items := [\<lparr>hi_id = 2, hi_kind = ''app'', hi_slug = ''crm'', hi_name = ''CRM'', hi_description = J_null,
        hi_category = J_null, hi_creator = None, hi_active = True, hi_published = True, hi_latest = Some (''1'', 3)\<rparr>],
      h_versions := [\<lparr>hv_id = 3, hv_item = 2, hv_version = ''1'', hv_manifest = None, hv_yanked = False, hv_yanked_at = None,
        hv_yank_reason = None, hv_yank_severity = None\<rparr>]\<rparr>"

definition demo_yank :: yank_create where
  "demo_yank = \<lparr>yc_kind = ''app'', yc_slug = ''crm'', yc_version = Some ''1'', yc_severity = ''critical'', yc_reason = ''leak'',
     yc_requested_by = None\<rparr>"

definition demo_yank_run :: "hub_request list" where
  "demo_yank_run = [(5, demo_publisher, Create_yank 7 demo_yank), (6, demo_reviewer, Appeal_yank 8 7 ''seen'' None)]"

lemma demo_yank_resolved:
  "\<exists>y \<in> set (h_yanks (hub_run demo_hub_env demo_hub demo_yank_run)). hy_id y = 7 \<and> hy_severity y = ''critical'' \<and> hy_state y = ''resolved''"
  by (simp add: demo_yank_run_def hub_create_yank_def demo_yank_def demo_hub_def empty_hub_def demo_publisher_def demo_reviewer_def
      has_scope_def find_item_def find_version_def new_yank_def compute_initial_state_def requester_of_def emit_change_def
      hub_appeal_yank_def find_yank_def appeal_can_resolve_def decide_appeal_def update_yank_def Let_def)

theorem critical_yank_two_hands_witness:
  "\<exists>p b r. (\<exists>now. (now, p, Create_yank 7 b) \<in> set demo_yank_run) \<and> r \<in> set demo_yank_run \<and> confirms p b 7 r"
proof -
  obtain y where y: "y \<in> set (h_yanks (hub_run demo_hub_env demo_hub demo_yank_run))" "hy_id y = 7" "hy_severity y = ''critical''"
    "hy_state y = ''resolved''" using demo_yank_resolved by blast
  have "h_yanks demo_hub = []" "new_ids_run demo_hub_env demo_hub demo_yank_run"
    by (simp_all add: demo_hub_def empty_hub_def demo_yank_run_def)
  from critical_yank_two_hands[OF this y(1,3,4), unfolded y(2)] show ?thesis by (elim exE conjE) (intro exI conjI)
qed

end
