(* ===== verification/Spec2Isabelle.thy ===== *)
theory Spec2Isabelle
  imports Prelude Credits Run_Lifecycle Run_Budget Lease Intents Workflow Workflow_Handlers Workflow_Versions Contract_Gate
    Wallets File_Tools Local_Ports Pending_Input Controller Team_Access Workspace_Data
    Proposal_Policy Redis_Lease Hub_Governance
begin

text \<open>
  OpenSail studio: the automation runtime and its money.

  \<^bold>\<open>The program.\<close>  The repository is a platform for building and running apps with language-model
  agents.  Its server, \<open>orchestrator/app\<close>, is a Python service over PostgreSQL and Redis.  This
  development covers the part that decides what an automation may do, what it does in which order,
  who coordinates it, and who pays:

  \<^item> a model call of a user is checked against and charged to the credit pools of a team (\<open>Credits\<close>);
  \<^item> an automation run is validated against its contract before it starts (\<open>Contract\<close>), reserves
    its budget on the daily counters of its mandate and of the mandates above it (\<open>Run_Budget\<close>), and
    each of its tool calls passes the contract gate (\<open>Contract_Gate\<close>);
  \<^item> a run with several actions is a workflow: the engine walks the actions and the handlers
    execute them (\<open>Workflow\<close>, \<open>Workflow_Handlers\<close>), on the version of the workflow the run is bound
    to (\<open>Workflow_Versions\<close>);
  \<^item> what starts a run is an event of a trigger: a schedule, a signed webhook, a command; it is committed, then
    enqueued, and recovered when it was left behind (\<open>Trigger_Events\<close>);
  \<^item> the controller plane, one leader at a time by a lease (\<open>Lease\<close>), runs the schedules and the sweeps
    (\<open>Controller\<close>), records what the cluster has to do as durable intents and reconciles them (\<open>Intents\<close>);
  \<^item> what an installed app spends is attributed to a payer and settled into wallets (\<open>Wallets\<close>);
  \<^item> who may do any of this is decided by the roles of teams and projects (\<open>Team_Access\<close>);
  \<^item> what an app stores lives in the collections of its project, behind keys and a rate limit
    (\<open>Record_Rules\<close>, \<open>Workspace_Data\<close>, \<open>Rate_Limit\<close>);
  \<^item> an agent may propose a change of its own automation, which a policy, a dry run and a user's decision keep
    in bounds (\<open>Workflow_Proposals\<close>, \<open>Proposal_Policy\<close>);
  \<^item> apps and their parts are published on a marketplace hub, a service of its own, which checks submissions,
    keeps the catalog and takes versions back (\<open>Hub_Governance\<close>).

  \<^bold>\<open>Theories, state and operations.\<close>  Paths are below \<open>orchestrator/app\<close>; a definition has the name
  of the Python function it models, private helpers without the leading underscore.

  \<^item> \<open>Prelude\<close>: types (identifiers, instants, amounts), \<open>result\<close> for operations that raise, the two
    roundings of money, facts on lists and maps.  \<open>Json_Value\<close>: decoded JSON with Python's equality,
    truth value, \<open>get\<close> and \<open>int()\<close>, and UUIDs as text.  \<open>Redis_Store\<close>: the Redis commands the
    runtime uses, as a record of functions; the locales \<open>redis_kv\<close> and \<open>redis_counter\<close> (which
    extends it) state the documented laws, and the in-memory stand-in of the test-suite
    (\<open>tests/services/automations/test_budget.py\<close>) interprets them.

  \<^item> \<open>Credits\<close>: state, the row of a team (\<open>team_row\<close>) and the usage log; operations \<open>check_credits\<close>,
    \<open>deduct_credits\<close> with its retry loop (\<open>services/credit_service.py\<close>), the costs of
    \<open>services/model_pricing.py\<close>, the sweeps of \<open>services/daily_credit_reset.py\<close>, the credit part of
    the invoice in \<open>services/stripe_service.py\<close>.  Lemmas: each pool takes what it can and leaves the
    others alone; the four together.

  \<^item> \<open>Run_Budget\<close> (\<open>services/automations/budget.py\<close>): state, the Redis keyspace; \<open>walk_parent_chain\<close>,
    \<open>allocate_run_budget\<close>, \<open>deallocate_run_budget\<close>, \<open>request_budget_extension\<close> and the publication
    that ends the wait.  The locale \<open>budget_store\<close> proves what each operation does to the counters over
    any Redis with the documented laws, so the properties take \<open>redis_counter R\<close> as their hypothesis.

  \<^item> \<open>Lease\<close> (\<open>services/automations/lease/\<close>): the locale \<open>lease_backend\<close> is the protocol (acquire, renew,
    release, current holder, term) with the laws its clients rely on; \<open>DBLease\<close> and \<open>K8sLease\<close> interpret
    it.  A run (\<open>lease_run\<close>) is any sequence of operations of any holders, so interleavings of
    replicas are orders of steps.  The Kubernetes backend is also proved to simulate the database one.

  \<^item> \<open>Intents\<close> (\<open>services/automations/intents/\<close>, \<open>services/apps/idle_reaper.py\<close>): state, the intent table and
    the world the reconcilers act on; recording under the lease, the reconcilers, \<open>tick\<close>.  The relation
    \<open>intent_step\<close> is the life of one intent; a pass is proved to take such steps only.

  \<^item> \<open>Dispatch\<close> (\<open>services/automations/dispatcher.py\<close>, \<open>checkpoint.py\<close>, \<open>approval_pressure.py\<close>,
    \<open>lazy_workspace.py\<close>): state, the record \<open>store\<close> of automations, events, runs, approval requests, delivery
    receipts and queued jobs; \<open>dispatch_automation\<close> phase by phase (idempotent upsert and branch table,
    contract preflight, version stamp, workspace, budget, routing to an executor, pause with
    checkpoint, pressure fallback, delivery, final status) and \<open>resume_run\<close> / \<open>resume_automation_run\<close>.
    \<open>Run_Lifecycle\<close> adds the operations of other processes on the same rows: the two sweeps
    (\<open>heartbeat_sweep.py\<close>, \<open>approval_timeout_sweep.py\<close>), the answer to an approval
    (\<open>routers/automations.py\<close>), the worker's heartbeat and final write (\<open>worker.py\<close>); \<open>op\<close> and \<open>apply_op\<close>
    are any of them, \<open>reachable\<close> any interleaving.  Lemmas: \<open>runs_ok\<close> is kept and \<open>evolves\<close> holds
    (runs are only added, a finished run stays) for each write of the code, then for each operation.

  \<^item> \<open>Trigger_Events\<close> (\<open>services/automations/trigger_events.py\<close>, \<open>cron_producer.py\<close>, \<open>sweep_on_acquire.py\<close>,
    \<open>services/apps/schedule_triggers.py\<close>, \<open>routers/app_triggers.py\<close>, \<open>services/gateway/triggers/common.py\<close>): state, the
    tables of triggers and events and the accepted jobs; \<open>trigger_steps\<close> is any sequence of producers and
    recoveries with any failures.  Lemmas: every operation \<open>advances\<close> the database, which carries the
    invariants.  \<open>Controller\<close> (\<open>controller_main.py\<close>, \<open>missed_event_drain.py\<close>): state, the lease backend, a supervisor
    for each replica and the tables; \<open>controller_run\<close> is any interleaving.  The locale \<open>fenced_controller\<close>
    extends \<open>lease_backend\<close> by the verification of a term, \<open>live_controller\<close> extends it again; the database
    backend interprets both, the Kubernetes backend the first only, and that difference is a property.

  \<^item> \<open>Workflow\<close> (\<open>services/workflows/engine.py\<close>, \<open>event_log.py\<close>): state, step rows, event rows and the
    world of the handlers; \<open>execute_workflow\<close>.  The reference definition \<open>goto_walk\<close> reads the actions
    as a program with forward jumps; the engine is proved equal to it.  \<open>run_ok\<close> relates the rows
    to the way the run ended.  \<open>Workflow_Handlers\<close> (\<open>handlers/\<close>) holds \<open>branch\<close>, \<open>sub_workflow\<close> and
    \<open>agent.run\<close>; \<open>Workflow_Versions\<close> (\<open>versions.py\<close>) the snapshot writer, split where another
    worker can run, and the reader.

  \<^item> \<open>Contract\<close> (\<open>services/automations/contract.py\<close>, \<open>scopes.py\<close>, \<open>validate_contract\<close> of \<open>dispatcher.py\<close>)
    and \<open>Contract_Gate\<close> (\<open>agent/tools/contract_gate.py\<close>): contracts are JSON objects; errors are values.
    The gate's early returns are proved to decide a declarative policy, a conjunction of four permits.

  \<^item> \<open>Wallets\<close> (\<open>services/apps/billing_dispatcher.py\<close>, \<open>settlement_worker.py\<close>): state, the record \<open>billing\<close> of
    spend rows, wallets and ledger entries; \<open>resolve_payer\<close>, \<open>record_spend\<close>, \<open>settle_one_spend\<close>,
    \<open>settle_spend_batch\<close>.  Lemmas: every posting keeps each balance the rounded sum of its entries.

  \<^item> The file tools of the agent.  \<open>Py_Text\<close>: Python's string functions the tools use.  \<open>Fuzzy_Editor\<close>
    (\<open>agent/tools/file_ops/fuzzy_editor.py\<close>): the search/replace engine; the literal replacement against
    its parts, the line match against a relation on lines, the two-row distance against edit sequences.
    \<open>Project_Files\<close> (\<open>services/orchestration/local.py\<close>, \<open>docker.py\<close>): reading, writing and deleting a file
    of a project on a tree of files; the locale \<open>project_files\<close> is the contract of an orchestrator, both
    interpret it.  \<open>File_Tools\<close> (\<open>apply_patch_tool.py\<close>, \<open>edit.py\<close>, \<open>undo_tool.py\<close>, \<open>edit_history.py\<close>):
    state, the files and the history; the lemmas are proved once over the locale.

  \<^item> \<open>Local_Ports\<close> (\<open>services/orchestration/local_ports.py\<close>): state, the assignments and the cache file;
    \<open>run_ports\<close> is any sequence of operations, lost writes and restarts.

  \<^item> \<open>Pending_Input\<close> (\<open>agent/tools/approval_manager.py\<close>, the approval handler of \<open>worker.py\<close>): state, the
    requests, the pending table, the cached answers and the approvals of each session.

  \<^item> \<open>Team_Access\<close> (\<open>permissions.py\<close>, \<open>routers/teams.py\<close>, \<open>auth_external.py\<close>): state, the \<open>directory\<close> of users,
    teams, memberships, projects and invitations; one definition for each route, \<open>team_run\<close> is any sequence of
    requests.  Lemmas: an elimination rule and a frame fact for each route, which carry the invariants.

  \<^item> \<open>Rate_Limit\<close> (\<open>services/rate_limit.py\<close>): state, the Redis counters and those of the process.  The locale
    \<open>window_counter\<close> is the contract of either; the counters of the process interpret it, the limiter is proved
    once over it.  \<open>Record_Rules\<close> and \<open>Workspace_Data\<close> (\<open>services/workspace_data/\<close>, \<open>routers/workspace_data.py\<close>):
    what a document may be; state, the three tables of all projects; the management routes (behind
    \<open>Team_Access\<close>) and the Data API (behind keys and the limiter).  Lemmas: one preservation lemma and one
    frame lemma on the view of other projects for each operation.

  \<^item> \<open>Redis_Lease\<close> (\<open>services/automations/lease/redis.py\<close>, \<open>services/distributed_lock.py\<close>): state, a Redis whose
    keys expire; the third backend of the lease and the lock of the pods, which does not satisfy the locale of
    \<open>Lease\<close> because what it records depends on the time, so fencing is proved anew.

  \<^item> \<open>Workflow_Proposals\<close> (\<open>services/workflows/proposals.py\<close>, \<open>dry_run.py\<close>, \<open>doctor.py\<close> and their routes):
    state, the proposals, the automations with their current definition and versions; \<open>life_step\<close> is any request
    of the agent, the users and the doctor.  \<open>Proposal_Policy\<close>: what a change applied without a review can have
    touched, and the ways around the policy that the code leaves open.

  \<^item> \<open>Hub_Governance\<close> (\<open>packages/tesslate-marketplace/app\<close>: \<open>services/\<close> and the routers \<open>publish\<close>, \<open>yanks\<close>,
    \<open>admin\<close>): state, the tables of the hub and its feed of changes; \<open>hub_run\<close> is any sequence of requests.
    Lemmas: what each request \<open>touches\<close>, that a decided submission stays, what the pipeline does to the submission.

  \<^bold>\<open>What the properties show.\<close>  C1: the deduction conserves credits.  C2--C4: a failed allocation leaves every
  counter as it was, what a run does not spend comes back, the chain walk finds the ancestors or reports the
  cycle.  C5--C6: refinement and fencing of the lease backends.  C7--C8: steps and invariant of the reconciler.
  C9: fencing of the Redis lease.  C10--C11: the invariant of the run table, one execution per event.
  C12--C15: the edit distance, what an edit did, a patch as a simultaneous change, undoing it.  C16: ports are
  exclusive.  C17: what a session has approved.  C18--C20: at most two jobs for an event, webhooks need a
  signature, a schedule fires once for each slot.  C21--C22: only the newest leader writes and it fires what is
  due.  C23--C24: a team keeps an admin, removal revokes.  C25--C26: the engine as a program, snapshots that
  read back.  C27: what the rate limiter admits.  C28--C31: the data store keeps its invariant, isolates
  projects, revokes keys for good, and the documents it accepts.  C32--C34: changes applied without a review
  are permitted and bounded, an approval installs what was reviewed.  C35--C37: a publication is decided at
  once, what an approval rests on, the two hands of a critical yank.  C38--C39: what a valid child contract
  promises, the gate against its policy.  C40: the ledger invariant.  Further theorems of the same kind
  (atomicity and priority of the deduction, its agreement with the invoice, the limiter under outages, decided
  proposals, liveness of the reconciler, rows and generations of the workflow, the sweeps, the drain, the
  directory, finished runs, pages, restarts) are lemmas of their theories.

  \<^bold>\<open>Parameters.\<close>  Code outside the repository is an argument: Redis, the Kubernetes and Docker APIs, the
  decimal parser and the text functions of Python's library that contracts and conditions use,
  SHA-256, HMAC and base64, the JSON schema validator, fresh identifiers, the expiry of Redis keys, the
  pipeline of the rate limiter, croniter with the time zone database, the key service of the model proxy, the
  executors a run is routed to, the repair pass of the editor (a language model), what a poll of a waiting agent
  sees.  Where a theorem needs a law of one of
  them it is a hypothesis, and a witness instantiates it.

  \<^bold>\<open>Numbers, loops and fuel.\<close>  Python integers are \<open>int\<close>, \<open>Decimal\<close> amounts are rationals with the
  rounding of the code written out (\<open>quant\<close> to six places, \<open>to_micro\<close>), instants are integers in the
  unit the code compares.  Loops are recursions over the list they walk.  Three loops are bounded in
  the source, and the bound is in the model: the parent walk by its depth limit, the deduction by
  its three attempts, the reconcile pass by its batch of fifty rows and each intent by five attempts
  (the theorem \<open>reconcile_drains\<close> shows that five passes drain one batch).  No other fuel is used; every definition is total.

  \<^bold>\<open>Not modelled.\<close>  The text of log messages and of gate reasons; database failures the code does not
  handle itself; columns that no modelled operation reads; selection of a lease or intent backend by
  settings.  Of the same subsystem the following is still to do, in this order: the agent budget,
  the remaining step handlers, workflow health, the lifecycle of apps.  Of the marketplace hub the listings, the
  signed store of bundles and the gating by capabilities are left out.  The other routers, orchestrators, channels,
  deployment providers and the front end are requests to remote services or code in other languages and stay
  outside.
\<close>

end
